(* ===== verification/Prelude.thy ===== *)
theory Prelude
  imports Complex_Main "HOL-Library.Word" "HOL-Library.Log_Nat"
begin

text \<open>
  Shared ground of the development: the collections of simplification rules, the ordered
  association lists that stand for \<open>std::map\<close>, decimal rendering of integers
  (\<open>std::to_string\<close>), and the small list lemmas the components use.
\<close>

named_theorems book_simps \<open>effect of the order book's primitives on queues, index and counters\<close>
named_theorems float_eval \<open>evaluation of binary64 operations on concrete fractions\<close>
named_theorems ring_simps \<open>effect of the ring buffer's steps\<close>

type_synonym u64 = "64 word"

section \<open>Ordered association lists\<close>

text \<open>
  A \<open>std::map\<close> is the list of its entries in ascending key order.  \<open>omap_set\<close> is
  \<open>m[k] = v\<close> (insertion at the key's place, or overwriting), \<open>omap_erase\<close> is
  \<open>m.erase(m.find(k))\<close> and \<^const>\<open>map_of\<close> is \<open>m.find(k)\<close>.
\<close>

fun omap_set :: "'k::linorder \<Rightarrow> 'v \<Rightarrow> ('k \<times> 'v) list \<Rightarrow> ('k \<times> 'v) list" where
  "omap_set k v [] = [(k, v)]"
| "omap_set k v ((a, b) # xs) =
     (if k < a then (k, v) # (a, b) # xs
      else if k = a then (k, v) # xs
      else (a, b) # omap_set k v xs)"

fun omap_erase :: "'k \<Rightarrow> ('k \<times> 'v) list \<Rightarrow> ('k \<times> 'v) list" where
  "omap_erase k [] = []"
| "omap_erase k ((a, b) # xs) = (if k = a then xs else (a, b) # omap_erase k xs)"

definition sorted_keys :: "('k::linorder \<times> 'v) list \<Rightarrow> bool" where
  "sorted_keys xs \<longleftrightarrow> sorted_wrt (<) (map fst xs)"

lemma sorted_keys_Nil [simp]: "sorted_keys []"
  by (simp add: sorted_keys_def)

lemma sorted_keys_Cons [simp]:
  "sorted_keys ((a, b) # xs) \<longleftrightarrow> (\<forall>k \<in> fst ` set xs. a < k) \<and> sorted_keys xs"
  by (auto simp: sorted_keys_def)

lemma keys_omap_set [simp]: "fst ` set (omap_set k v xs) = insert k (fst ` set xs)"
  by (induction k v xs rule: omap_set.induct) auto

lemma sorted_keys_set [simp]: "sorted_keys xs \<Longrightarrow> sorted_keys (omap_set k v xs)"
  by (induction k v xs rule: omap_set.induct) auto

lemma keys_omap_erase: "fst ` set (omap_erase k xs) \<subseteq> fst ` set xs"
  by (induction k xs rule: omap_erase.induct) auto

lemma sorted_keys_erase [simp]: "sorted_keys xs \<Longrightarrow> sorted_keys (omap_erase k xs)"
  by (induction k xs rule: omap_erase.induct) (use keys_omap_erase in fastforce)+

lemma map_of_notin: "k \<notin> fst ` set xs \<Longrightarrow> map_of xs k = None"
  by (simp add: map_of_eq_None_iff)

lemma map_of_omap_set [simp]:
  "sorted_keys xs \<Longrightarrow> map_of (omap_set k v xs) = (map_of xs)(k \<mapsto> v)"
proof (induction k v xs rule: omap_set.induct)
  case (2 k v a b xs)
  then show ?case by (auto simp: fun_eq_iff)
qed auto

lemma map_of_omap_erase [simp]:
  "sorted_keys xs \<Longrightarrow> map_of (omap_erase k xs) = (map_of xs)(k := None)"
proof (induction k xs rule: omap_erase.induct)
  case (2 k a b xs)
  have "k = a \<Longrightarrow> map_of xs a = None"
    using 2 by (intro map_of_notin) auto
  with 2 show ?case by (auto simp: fun_eq_iff)
qed auto

lemma vals_omap_set: "snd ` set (omap_set k v xs) \<subseteq> insert v (snd ` set xs)"
  by (induction k v xs rule: omap_set.induct) auto

lemma vals_omap_erase: "snd ` set (omap_erase k xs) \<subseteq> snd ` set xs"
  by (induction k xs rule: omap_erase.induct) auto

lemma sorted_keys_hd: "sorted_keys xs \<Longrightarrow> xs \<noteq> [] \<Longrightarrow> k \<in> fst ` set xs \<Longrightarrow> fst (hd xs) \<le> k"
  by (cases xs) (fastforce simp: less_imp_le)+

lemma sorted_keys_last:
  "sorted_keys xs \<Longrightarrow> xs \<noteq> [] \<Longrightarrow> k \<in> fst ` set xs \<Longrightarrow> k \<le> fst (last xs)"
proof (induction xs)
  case (Cons x xs)
  then show ?case
    by (cases x) (auto simp: less_imp_le dest: last_in_set)
qed simp

lemma sorted_keys_map_of:
  "sorted_keys xs \<Longrightarrow> (k, v) \<in> set xs \<longleftrightarrow> map_of xs k = Some v"
proof (induction xs)
  case (Cons x xs)
  obtain a b where x: "x = (a, b)" by (cases x)
  with Cons.prems have "map_of xs a = None" by (auto intro: map_of_notin)
  with Cons x show ?case by auto
qed simp

subsection \<open>The interface of an ordered map\<close>

text \<open>
  What the order book relies on when it uses \<open>std::map\<close>: lookups after an insertion or an
  erasure, and that the first and last entries hold the least and greatest keys.
\<close>

locale ordered_map =
  fixes lookup :: "'m \<Rightarrow> 'k::linorder \<Rightarrow> 'v option"
    and assign :: "'k \<Rightarrow> 'v \<Rightarrow> 'm \<Rightarrow> 'm"
    and erase :: "'k \<Rightarrow> 'm \<Rightarrow> 'm"
    and entries :: "'m \<Rightarrow> ('k \<times> 'v) list"
    and invar :: "'m \<Rightarrow> bool"
  assumes lookup_assign: "invar m \<Longrightarrow> lookup (assign k v m) = (lookup m)(k \<mapsto> v)"
    and lookup_erase: "invar m \<Longrightarrow> lookup (erase k m) = (lookup m)(k := None)"
    and entries_lookup: "invar m \<Longrightarrow> (k, v) \<in> set (entries m) \<longleftrightarrow> lookup m k = Some v"
    and entries_sorted: "invar m \<Longrightarrow> sorted_keys (entries m)"
    and invar_assign: "invar m \<Longrightarrow> invar (assign k v m)"
    and invar_erase: "invar m \<Longrightarrow> invar (erase k m)"
begin

lemma keys_lookup: "invar m \<Longrightarrow> k \<in> fst ` set (entries m) \<longleftrightarrow> (\<exists>v. lookup m k = Some v)"
  using entries_lookup [of m k] by (auto simp: image_iff) force

lemma lookup_nonempty:
  assumes "invar m" and "lookup m k = Some v"
  shows "entries m \<noteq> []"
  using entries_lookup [OF assms(1), of k v] assms(2) by auto

lemma first_least:
  assumes "invar m" and "lookup m k = Some v"
  shows "fst (hd (entries m)) \<le> k \<and> (\<exists>w. lookup m (fst (hd (entries m))) = Some w)"
proof -
  have ne: "entries m \<noteq> []" using lookup_nonempty [OF assms] .
  have k: "k \<in> fst ` set (entries m)" using keys_lookup [OF assms(1)] assms(2) by blast
  have "fst (hd (entries m)) \<in> fst ` set (entries m)" using ne by simp
  then show ?thesis
    using sorted_keys_hd [OF entries_sorted [OF assms(1)] ne k] keys_lookup [OF assms(1)] by blast
qed

lemma last_greatest:
  assumes "invar m" and "lookup m k = Some v"
  shows "k \<le> fst (last (entries m)) \<and> (\<exists>w. lookup m (fst (last (entries m))) = Some w)"
proof -
  have ne: "entries m \<noteq> []" using lookup_nonempty [OF assms] .
  have k: "k \<in> fst ` set (entries m)" using keys_lookup [OF assms(1)] assms(2) by blast
  have "fst (last (entries m)) \<in> fst ` set (entries m)" using ne by simp
  then show ?thesis
    using sorted_keys_last [OF entries_sorted [OF assms(1)] ne k] keys_lookup [OF assms(1)] by blast
qed

end

interpretation omap: ordered_map map_of omap_set omap_erase "\<lambda>xs. xs" sorted_keys
  by unfold_locales (simp_all add: sorted_keys_map_of)

section \<open>Decimal rendering\<close>

definition digit_char :: "nat \<Rightarrow> char" where
  "digit_char n = char_of (48 + n)"

fun show_nat :: "nat \<Rightarrow> string" where
  "show_nat n = (if n < 10 then [digit_char n] else show_nat (n div 10) @ [digit_char (n mod 10)])"

declare show_nat.simps [simp del]

lemma digit_char_eval [float_eval]:
  "digit_char 0 = CHR ''0''" "digit_char 1 = CHR ''1''" "digit_char 2 = CHR ''2''"
  "digit_char 3 = CHR ''3''" "digit_char 4 = CHR ''4''" "digit_char 5 = CHR ''5''"
  "digit_char 6 = CHR ''6''" "digit_char 7 = CHR ''7''" "digit_char 8 = CHR ''8''"
  "digit_char 9 = CHR ''9''"
  by (simp_all add: digit_char_def char_of_def bit_Suc_0_iff)

lemma show_nat_numeral [float_eval]:
  "show_nat (numeral k) = (if (numeral k :: nat) < 10 then [digit_char (numeral k)]
     else show_nat (numeral k div 10) @ [digit_char (numeral k mod 10)])"
  "show_nat 0 = [digit_char 0]"
  "show_nat 1 = [digit_char 1]"
  "show_nat (Suc 0) = [digit_char 1]"
  by (simp_all add: show_nat.simps)

text \<open>\<open>std::to_string\<close> and \<open>operator<<\<close> on an \<open>int64_t\<close>.\<close>

definition show_int :: "int \<Rightarrow> string" where
  "show_int i = (if i < 0 then CHR ''-'' # show_nat (nat (- i)) else show_nat (nat i))"

definition show_bool :: "bool \<Rightarrow> string" where
  "show_bool b = (if b then ''true'' else ''false'')"

definition digit_of :: "char \<Rightarrow> nat option" where
  "digit_of c = (let k = of_char c :: nat in if 48 \<le> k \<and> k \<le> 57 then Some (k - 48) else None)"

fun digits_value :: "nat \<Rightarrow> string \<Rightarrow> nat option" where
  "digits_value acc [] = Some acc"
| "digits_value acc (c # cs) =
     (case digit_of c of None \<Rightarrow> None | Some d \<Rightarrow> digits_value (10 * acc + d) cs)"

lemma digit_of_digit_char [simp]: "n < 10 \<Longrightarrow> digit_of (digit_char n) = Some n"
  by (simp add: digit_of_def digit_char_def Let_def)

lemma digits_value_append:
  "digits_value acc (xs @ ys) =
     (case digits_value acc xs of None \<Rightarrow> None | Some a \<Rightarrow> digits_value a ys)"
  by (induction acc xs rule: digits_value.induct) (auto split: option.splits)

lemma digits_value_show_nat: "digits_value 0 (show_nat n) = Some n"
proof (induction n rule: show_nat.induct)
  case (1 n)
  show ?case
  proof (cases "n < 10")
    case True
    then show ?thesis by (subst show_nat.simps) simp
  next
    case False
    then show ?thesis
      by (subst show_nat.simps) (simp add: "1.IH" digits_value_append)
  qed
qed

lemma show_nat_nonempty [simp]: "show_nat n \<noteq> []"
  by (subst show_nat.simps) simp

lemma show_nat_digits: "c \<in> set (show_nat n) \<Longrightarrow> \<exists>d<10. c = digit_char d"
proof (induction n rule: show_nat.induct)
  case (1 n)
  show ?case
  proof (cases "n < 10")
    case True
    with "1.prems" show ?thesis by (auto simp: show_nat.simps [of n])
  next
    case False
    with "1.prems" have "c \<in> set (show_nat (n div 10)) \<or> c = digit_char (n mod 10)"
      by (auto simp: show_nat.simps [of n])
    moreover have "n mod 10 < 10" by simp
    ultimately show ?thesis using "1.IH" False by blast
  qed
qed

lemma show_nat_inj: "show_nat m = show_nat n \<Longrightarrow> m = n"
  by (metis digits_value_show_nat option.inject)

lemma digit_char_not_minus: "d < 10 \<Longrightarrow> digit_char d \<noteq> CHR ''-''"
  using digit_of_digit_char [of d] by (auto simp: digit_of_def)

section \<open>Lists\<close>

lemma insort_key_map: "insort_key f (g x) (map g xs) = map g (insort_key (f \<circ> g) x xs)"
  by (induction xs) simp_all

lemma sort_key_map: "sort_key f (map g xs) = map g (sort_key (f \<circ> g) xs)"
  by (induction xs) (simp_all add: insort_key_map comp_def)

lemma distinct_map_filter: "distinct (map f xs) \<Longrightarrow> distinct (map f (filter P xs))"
  by (induction xs) auto

lemma find_Some_mem: "find P xs = Some x \<Longrightarrow> x \<in> set xs \<and> P x"
  by (induction xs) (auto split: if_splits)

lemma find_unique:
  assumes "x \<in> set xs" and "P x" and "\<And>y. y \<in> set xs \<Longrightarrow> P y \<Longrightarrow> y = x"
  shows "find P xs = Some x"
proof (cases "find P xs")
  case None
  with assms(1,2) show ?thesis by (auto simp: find_None_iff)
next
  case (Some y)
  with assms(3) show ?thesis using find_Some_mem by metis
qed

lemma distinct_map_inj:
  "distinct (map f xs) \<Longrightarrow> x \<in> set xs \<Longrightarrow> y \<in> set xs \<Longrightarrow> f x = f y \<Longrightarrow> x = y"
  by (auto simp: distinct_map inj_on_def)

section \<open>Loops that may not return\<close>

text \<open>A range-based \<open>for\<close> whose body may not return.\<close>

fun ofold :: "('a \<Rightarrow> 's \<Rightarrow> 's option) \<Rightarrow> 'a list \<Rightarrow> 's \<Rightarrow> 's option" where
  "ofold f [] s = Some s"
| "ofold f (x # xs) s = Option.bind (f x s) (ofold f xs)"

lemma ofold_total:
  assumes "\<And>x s. x \<in> set xs \<Longrightarrow> I s \<Longrightarrow> \<exists>s'. f x s = Some s' \<and> I s'" and "I s"
  shows "\<exists>s'. ofold f xs s = Some s' \<and> I s'"
  using assms
proof (induction xs arbitrary: s)
  case (Cons x xs)
  then obtain s1 where "f x s = Some s1" "I s1" by (metis list.set_intros(1))
  with Cons show ?case by simp
qed simp

end
