(* ===== verification/Float64.thy ===== *)
theory Float64
  imports Prelude
begin

text \<open>
  The C++ type \<open>double\<close>.  A value is the rational number it stands for, and every
  arithmetic operation of the source is the exact operation followed by
  \<open>rnd64\<close>, the binary64 rounding to nearest, ties to even: 53 bits of significand,
  with the fixed least exponent \<open>-1074\<close> (gradual underflow).  Values outside the
  exponent range (overflow to infinity), infinities, not-a-number and the sign of a zero
  are not represented; the one place where the source computes with a NaN on purpose
  (the confusion-matrix ratios) is an \<open>option\<close> there.
\<close>

type_synonym double = rat

section \<open>Powers of two and the binary logarithm\<close>

definition pow2 :: "int \<Rightarrow> rat" where
  "pow2 k = (if 0 \<le> k then 2 ^ nat k else 1 / 2 ^ nat (- k))"

lemma pow2_pos [simp]: "0 < pow2 k"
  by (simp add: pow2_def)

lemma pow2_nonneg [simp]: "0 \<le> pow2 k"
  by (simp add: less_imp_le)

lemma pow2_neq0 [simp]: "pow2 k \<noteq> 0"
  using pow2_pos [of k] by linarith

lemma pow2_powi: "pow2 k = 2 powi k"
  by (simp add: pow2_def power_int_def field_simps)

lemma pow2_add: "pow2 (a + b) = pow2 a * pow2 b"
  by (simp add: pow2_powi power_int_add)

lemma pow2_diff: "pow2 (a - b) = pow2 a / pow2 b"
  by (simp add: pow2_powi power_int_diff)

lemma pow2_mono: "a \<le> b \<Longrightarrow> pow2 a \<le> pow2 b"
  by (simp add: pow2_powi power_int_increasing)

lemma pow2_strict_mono: "a < b \<Longrightarrow> pow2 a < pow2 b"
  by (simp add: pow2_powi power_int_strict_increasing)

lemma pow2_le_iff: "pow2 a \<le> pow2 b \<longleftrightarrow> a \<le> b"
  using pow2_mono pow2_strict_mono by (metis leD leI)

lemma pow2_nat: "pow2 (int n) = 2 ^ n"
  by (simp add: pow2_def)

lemma pow2_0 [simp]: "pow2 0 = 1"
  by (simp add: pow2_def)

text \<open>\<open>ilog2 x\<close> is the exponent of the leading bit of a positive \<open>x\<close>.\<close>

definition ilog2 :: "rat \<Rightarrow> int" where
  "ilog2 x = (case quotient_of x of (n, d) \<Rightarrow>
     let k = bitlen n - bitlen d in if pow2 k \<le> x then k else k - 1)"

lemma bitlen_pow2:
  "0 < n \<Longrightarrow> pow2 (bitlen n - 1) \<le> of_int n \<and> of_int n < pow2 (bitlen n)"
proof -
  assume n: "0 < n"
  then have b: "2 ^ nat (bitlen n - 1) \<le> n" "n < 2 ^ nat (bitlen n)"
    using bitlen_bounds [of n] by auto
  have pos: "1 \<le> bitlen n" using n bitlen_nonneg [of n] bitlen_eq_zero_iff [of n] by linarith
  have "pow2 (bitlen n - 1) = of_int (2 ^ nat (bitlen n - 1))"
    and "pow2 (bitlen n) = of_int (2 ^ nat (bitlen n))"
    using pos by (simp_all add: pow2_def)
  with b show ?thesis by (metis of_int_le_iff of_int_less_iff)
qed

lemma ilog2_bounds:
  assumes "0 < x"
  shows "pow2 (ilog2 x) \<le> x \<and> x < pow2 (ilog2 x + 1)"
proof -
  obtain n d where q: "quotient_of x = (n, d)" by (cases "quotient_of x")
  then have d: "0 < d" and x: "x = of_int n / of_int d"
    using quotient_of_denom_pos quotient_of_div by blast+
  with assms have n: "0 < n" by (simp add: zero_less_divide_iff)
  let ?k = "bitlen n - bitlen d"
  have bn: "pow2 (bitlen n - 1) \<le> of_int n" "of_int n < pow2 (bitlen n)"
    and bd: "pow2 (bitlen d - 1) \<le> of_int d" "of_int d < pow2 (bitlen d)"
    using bitlen_pow2 n d by auto
  have dpos: "(0::rat) < of_int d" using d by simp
  have up: "x < pow2 (?k + 1)"
  proof -
    have "of_int n < pow2 (?k + 1) * pow2 (bitlen d - 1)"
      using bn(2) by (simp flip: pow2_add)
    also have "\<dots> \<le> pow2 (?k + 1) * of_int d" using bd(1) by (simp add: mult_left_mono)
    finally show ?thesis using dpos by (simp add: x field_simps)
  qed
  have lo: "pow2 (?k - 1) \<le> x"
  proof -
    have "pow2 (?k - 1) * of_int d \<le> pow2 (?k - 1) * pow2 (bitlen d)"
      using bd(2) by (simp add: mult_left_mono less_imp_le)
    also have "\<dots> = pow2 (bitlen n - 1)" by (simp flip: pow2_add)
    also have "\<dots> \<le> of_int n" by (rule bn(1))
    finally show ?thesis using dpos by (simp add: x field_simps)
  qed
  show ?thesis using up lo by (auto simp: ilog2_def q Let_def)
qed

lemma ilog2_unique:
  assumes "pow2 k \<le> x" and "x < pow2 (k + 1)"
  shows "ilog2 x = k"
proof -
  have "0 < x" using assms(1) pow2_pos [of k] by linarith
  then have b: "pow2 (ilog2 x) \<le> x" "x < pow2 (ilog2 x + 1)" using ilog2_bounds by auto
  from b assms have "pow2 (ilog2 x) < pow2 (k + 1)" "pow2 k < pow2 (ilog2 x + 1)" by auto
  then show ?thesis by (metis pow2_le_iff linorder_not_le order_antisym zle_add1_eq_le)
qed

lemma ilog2_mono: "0 < x \<Longrightarrow> x \<le> y \<Longrightarrow> ilog2 x \<le> ilog2 y"
proof -
  assume "0 < x" "x \<le> y"
  then have "pow2 (ilog2 x) < pow2 (ilog2 y + 1)"
    using ilog2_bounds [of x] ilog2_bounds [of y] by linarith
  then show ?thesis by (metis pow2_le_iff linorder_not_le zle_add1_eq_le)
qed

section \<open>Rounding\<close>

definition round_half_even :: "rat \<Rightarrow> int" where
  "round_half_even x =
     (let f = \<lfloor>x\<rfloor>; r = x - of_int f
      in if r < 1/2 then f else if 1/2 < r then f + 1 else if even f then f else f + 1)"

lemma round_half_even_of_int [simp]: "round_half_even (of_int n) = n"
  by (simp add: round_half_even_def)

lemma round_half_even_bounds: "\<lfloor>x\<rfloor> \<le> round_half_even x \<and> round_half_even x \<le> \<lfloor>x\<rfloor> + 1"
  by (simp add: round_half_even_def Let_def)

lemma round_half_even_error: "\<bar>x - of_int (round_half_even x)\<bar> \<le> 1/2"
proof -
  define f where "f = \<lfloor>x\<rfloor>"
  have "of_int f \<le> x" and "x < of_int f + 1"
    using floor_correct [of x] by (simp_all only: f_def of_int_add of_int_1)
  then show ?thesis unfolding round_half_even_def Let_def f_def [symmetric] by (auto simp: abs_if)
qed

lemma round_half_even_mono: "x \<le> y \<Longrightarrow> round_half_even x \<le> round_half_even y"
proof (cases "\<lfloor>x\<rfloor> = \<lfloor>y\<rfloor>")
  case True
  assume "x \<le> y"
  with True show ?thesis by (auto simp: round_half_even_def Let_def)
next
  case False
  assume "x \<le> y"
  with False have "\<lfloor>x\<rfloor> + 1 \<le> \<lfloor>y\<rfloor>" using floor_mono [of x y] by linarith
  then show ?thesis using round_half_even_bounds [of x] round_half_even_bounds [of y] by linarith
qed

lemma round_half_even_minus: "round_half_even (- x) = - round_half_even x"
proof (cases "x = of_int \<lfloor>x\<rfloor>")
  case True
  then show ?thesis by (metis of_int_minus round_half_even_of_int)
next
  case False
  have "\<lceil>x\<rceil> = \<lfloor>x\<rfloor> + 1" using False by (metis ceiling_altdef)
  then have f: "\<lfloor>- x\<rfloor> = - \<lfloor>x\<rfloor> - 1" by (simp add: floor_minus)
  show ?thesis by (auto simp: round_half_even_def Let_def f)
qed

text \<open>The exponent of the last place of the binary64 numbers near \<open>x\<close>, and the rounding.\<close>

definition ulp_exp :: "rat \<Rightarrow> int" where
  "ulp_exp x = max (ilog2 \<bar>x\<bar> - 52) (- 1074)"

definition rnd64 :: "rat \<Rightarrow> double" where
  "rnd64 x = (if x = 0 then 0
     else of_int (round_half_even (x / pow2 (ulp_exp x))) * pow2 (ulp_exp x))"

text \<open>The representable numbers: at most 53 significant bits, no bit below \<open>2 ^ -1074\<close>.\<close>

definition is_double :: "rat \<Rightarrow> bool" where
  "is_double x \<longleftrightarrow> rnd64 x = x"

lemma rnd64_0 [simp]: "rnd64 0 = 0"
  by (simp add: rnd64_def)

lemma rnd64_minus: "rnd64 (- x) = - rnd64 x"
  by (simp add: rnd64_def ulp_exp_def round_half_even_minus)

lemma ulp_exp_mono: "0 < x \<Longrightarrow> x \<le> y \<Longrightarrow> ulp_exp x \<le> ulp_exp y"
  using ilog2_mono by (fastforce simp: ulp_exp_def max_def)

lemma rnd64_nonneg: "0 \<le> x \<Longrightarrow> 0 \<le> rnd64 x"
proof -
  assume "0 \<le> x"
  then have "round_half_even 0 \<le> round_half_even (x / pow2 (ulp_exp x))"
    by (intro round_half_even_mono) simp
  then have "0 \<le> round_half_even (x / pow2 (ulp_exp x))"
    using round_half_even_of_int [of 0] by simp
  then show ?thesis by (simp add: rnd64_def)
qed

text \<open>A positive number stays between the powers of two around it.\<close>

lemma rnd64_upper: "0 < x \<Longrightarrow> rnd64 x \<le> pow2 (ulp_exp x + 53)"
proof -
  assume x: "0 < x"
  have "x < pow2 (ilog2 x + 1)" using ilog2_bounds x by blast
  also have "\<dots> \<le> pow2 (ulp_exp x + 53)" using x by (intro pow2_mono) (simp add: ulp_exp_def)
  finally have "x / pow2 (ulp_exp x) \<le> pow2 53" by (simp add: pow2_add field_simps)
  also have "pow2 53 = of_int (2 ^ 53)" by (simp add: pow2_def)
  finally have "round_half_even (x / pow2 (ulp_exp x)) \<le> 2 ^ 53"
    using round_half_even_mono round_half_even_of_int by metis
  then have "of_int (round_half_even (x / pow2 (ulp_exp x))) \<le> (of_int (2 ^ 53) :: rat)"
    by (simp only: of_int_le_iff)
  also have "(of_int (2 ^ 53) :: rat) = pow2 53" by (simp add: pow2_def)
  finally show ?thesis
    using x by (simp add: rnd64_def pow2_add mult.commute mult_left_mono)
qed

lemma rnd64_lower:
  assumes "0 < x" and "- 1074 < ulp_exp x"
  shows "pow2 (ulp_exp x + 52) \<le> rnd64 x"
proof -
  have e: "ulp_exp x = ilog2 x - 52" using assms by (auto simp: ulp_exp_def)
  have "pow2 (ulp_exp x + 52) \<le> x" using ilog2_bounds [OF assms(1)] by (simp add: e)
  then have "of_int (2 ^ 52) \<le> x / pow2 (ulp_exp x)"
    by (simp add: pow2_add field_simps) (simp add: pow2_def)
  then have "2 ^ 52 \<le> round_half_even (x / pow2 (ulp_exp x))"
    using round_half_even_mono round_half_even_of_int by metis
  then have "(of_int (2 ^ 52) :: rat) \<le> of_int (round_half_even (x / pow2 (ulp_exp x)))"
    by (simp only: of_int_le_iff)
  moreover have "(of_int (2 ^ 52) :: rat) = pow2 52" by (simp add: pow2_def)
  ultimately show ?thesis
    using assms(1) by (simp add: rnd64_def pow2_add mult.commute mult_left_mono)
qed

lemma rnd64_mono_pos:
  assumes "0 < x" and "x \<le> y"
  shows "rnd64 x \<le> rnd64 y"
proof (cases "ulp_exp x = ulp_exp y")
  case True
  have "x / pow2 (ulp_exp x) \<le> y / pow2 (ulp_exp x)" using assms by (simp add: divide_right_mono)
  then have "of_int (round_half_even (x / pow2 (ulp_exp x)))
      \<le> (of_int (round_half_even (y / pow2 (ulp_exp x))) :: rat)"
    by (simp add: round_half_even_mono)
  with True assms show ?thesis by (simp add: rnd64_def mult_right_mono)
next
  case False
  then have lt: "ulp_exp x < ulp_exp y" using ulp_exp_mono [OF assms] by simp
  have "rnd64 x \<le> pow2 (ulp_exp x + 53)" using assms rnd64_upper by blast
  also have "\<dots> \<le> pow2 (ulp_exp y + 52)" using lt by (intro pow2_mono) simp
  also have "\<dots> \<le> rnd64 y"
    using assms lt by (intro rnd64_lower) (auto simp: ulp_exp_def)
  finally show ?thesis .
qed

lemma rnd64_mono: "x \<le> y \<Longrightarrow> rnd64 x \<le> rnd64 y"
proof -
  assume le: "x \<le> y"
  consider "0 < x" | "x \<le> 0" "0 \<le> y" | "y < 0" by linarith
  then show ?thesis
  proof cases
    case 1
    then show ?thesis using rnd64_mono_pos le by blast
  next
    case 2
    then have "rnd64 x \<le> 0" using rnd64_nonneg [of "- x"] by (simp add: rnd64_minus)
    with 2 show ?thesis using rnd64_nonneg [of y] by linarith
  next
    case 3
    then show ?thesis using rnd64_mono_pos [of "- y" "- x"] le by (simp add: rnd64_minus)
  qed
qed

lemma rnd64_nonpos: "x \<le> 0 \<Longrightarrow> rnd64 x \<le> 0"
  using rnd64_mono [of x 0] by simp

text \<open>Multiples of the last place are exact; integers up to \<open>2 ^ 53\<close> are among them.\<close>

lemma rnd64_exact:
  assumes "x = of_int m * pow2 e" and "\<bar>m\<bar> \<le> 2 ^ 53" and "- 1074 \<le> e"
  shows "rnd64 x = x"
proof (cases "x = 0 \<or> ulp_exp x \<le> e")
  case True
  show ?thesis
  proof (cases "x = 0")
    case False
    define u where "u = ulp_exp x"
    from True False have le: "u \<le> e" by (simp add: u_def)
    then have p: "pow2 (e - u) = of_int (2 ^ nat (e - u))" by (simp add: pow2_def)
    have "x / pow2 u = of_int m * pow2 (e - u)" by (simp add: assms(1) pow2_diff)
    also have "\<dots> = of_int (m * 2 ^ nat (e - u))" by (simp only: p of_int_mult)
    finally have q: "x / pow2 u = of_int (m * 2 ^ nat (e - u))" .
    then have "rnd64 x = x / pow2 u * pow2 u"
      using False by (simp only: rnd64_def u_def [symmetric] round_half_even_of_int if_False)
    then show ?thesis by simp
  qed simp
next
  case False
  then have x: "x \<noteq> 0" and gt: "e < ulp_exp x" by auto
  with assms(3) have u: "ulp_exp x = ilog2 \<bar>x\<bar> - 52" by (auto simp: ulp_exp_def max_def)
  have ax: "\<bar>x\<bar> = of_int \<bar>m\<bar> * pow2 e" by (simp add: assms(1) abs_mult)
  have "\<bar>x\<bar> \<le> pow2 (e + 53)"
  proof -
    have "(of_int \<bar>m\<bar> :: rat) \<le> of_int (2 ^ 53)" using assms(2) by (simp only: of_int_le_iff)
    also have "\<dots> = pow2 53" by (simp add: pow2_def)
    finally show ?thesis by (simp add: ax pow2_add mult.commute mult_left_mono)
  qed
  moreover have "pow2 (ilog2 \<bar>x\<bar>) \<le> \<bar>x\<bar>" using x ilog2_bounds [of "\<bar>x\<bar>"] by simp
  moreover have "e + 53 \<le> ilog2 \<bar>x\<bar>" using gt u by simp
  ultimately have eq: "\<bar>x\<bar> = pow2 (e + 53)" and il: "ilog2 \<bar>x\<bar> = e + 53"
    using pow2_mono [of "e + 53" "ilog2 \<bar>x\<bar>"] pow2_le_iff [of "ilog2 \<bar>x\<bar>" "e + 53"] by auto
  have ue: "ulp_exp x = e + 1" using u il by simp
  have half: "\<bar>x\<bar> / pow2 (ulp_exp x) = of_int (2 ^ 52)"
    by (simp add: eq ue pow2_add) (simp add: pow2_def)
  then have "rnd64 \<bar>x\<bar> = of_int (round_half_even (of_int (2 ^ 52))) * pow2 (ulp_exp \<bar>x\<bar>)"
    using x by (simp add: rnd64_def ulp_exp_def)
  also have "\<dots> = of_int (2 ^ 52) * pow2 (ulp_exp x)"
    by (simp only: round_half_even_of_int) (simp add: ulp_exp_def)
  also have "\<dots> = \<bar>x\<bar>" using half by (metis nonzero_eq_divide_eq pow2_neq0)
  finally show ?thesis by (cases "0 \<le> x") (simp_all add: abs_if rnd64_minus split: if_splits)
qed

lemma rnd64_of_int: "\<bar>n\<bar> \<le> 2 ^ 53 \<Longrightarrow> rnd64 (of_int n) = of_int n"
  by (rule rnd64_exact [where m = n and e = 0]) simp_all

lemma rnd64_1 [simp]: "rnd64 1 = 1"
  using rnd64_of_int [of 1] by simp

lemma rnd64_le_1: "x \<le> 1 \<Longrightarrow> rnd64 x \<le> 1"
  using rnd64_mono [of x 1] by simp

lemma rnd64_ge_1: "1 \<le> x \<Longrightarrow> 1 \<le> rnd64 x"
  using rnd64_mono [of 1 x] by simp

text \<open>Rounding twice is rounding once: a rounded value is representable.\<close>

lemma rnd64_significand: "\<bar>round_half_even (x / pow2 (ulp_exp x))\<bar> \<le> 2 ^ 53" if "x \<noteq> 0"
proof -
  have pos: "round_half_even (y / pow2 (ulp_exp y)) \<le> 2 ^ 53 \<and> 0 \<le> round_half_even (y / pow2 (ulp_exp y))"
    if y: "0 < y" for y
  proof
    have "of_int (round_half_even (y / pow2 (ulp_exp y))) * pow2 (ulp_exp y) \<le> pow2 53 * pow2 (ulp_exp y)"
      using rnd64_upper [OF y] y by (simp add: rnd64_def pow2_add mult.commute)
    then have "(of_int (round_half_even (y / pow2 (ulp_exp y))) :: rat) \<le> of_int (2 ^ 53)"
      by (simp add: pow2_def [of 53])
    then show "round_half_even (y / pow2 (ulp_exp y)) \<le> 2 ^ 53" by (simp only: of_int_le_iff)
    have "round_half_even 0 \<le> round_half_even (y / pow2 (ulp_exp y))"
      using y by (intro round_half_even_mono) simp
    then show "0 \<le> round_half_even (y / pow2 (ulp_exp y))" using round_half_even_of_int [of 0] by simp
  qed
  show ?thesis
  proof (cases "0 < x")
    case False
    with that have "0 < - x" by simp
    from pos [OF this] show ?thesis by (simp add: round_half_even_minus ulp_exp_def)
  qed (use pos in simp)
qed

lemma rnd64_idem [simp]: "rnd64 (rnd64 x) = rnd64 x"
proof (cases "x = 0")
  case False
  then have "rnd64 x = of_int (round_half_even (x / pow2 (ulp_exp x))) * pow2 (ulp_exp x)"
    by (simp add: rnd64_def)
  from rnd64_exact [OF this rnd64_significand [OF False]] show ?thesis
    by (simp add: ulp_exp_def)
qed simp

section \<open>The operations of the source\<close>

definition fadd :: "double \<Rightarrow> double \<Rightarrow> double" where "fadd x y = rnd64 (x + y)"
definition fsub :: "double \<Rightarrow> double \<Rightarrow> double" where "fsub x y = rnd64 (x - y)"
definition fmul :: "double \<Rightarrow> double \<Rightarrow> double" where "fmul x y = rnd64 (x * y)"
definition fdiv :: "double \<Rightarrow> double \<Rightarrow> double" where "fdiv x y = rnd64 (x / y)"

text \<open>\<open>static_cast<double>\<close> of an integer.\<close>

definition to_double :: "int \<Rightarrow> double" where "to_double n = rnd64 (of_int n)"

definition clamp :: "double \<Rightarrow> double \<Rightarrow> double \<Rightarrow> double" where
  "clamp x lo hi = (if x < lo then lo else if hi < x then hi else x)"

text \<open>\<open>std::llround\<close> and \<open>std::round\<close>: to the nearest integer, halves away from zero.\<close>

definition llround :: "double \<Rightarrow> int" where
  "llround x = (if 0 \<le> x then \<lfloor>x + 1/2\<rfloor> else - \<lfloor>1/2 - x\<rfloor>)"

lemma clamp_bounds: "lo \<le> hi \<Longrightarrow> lo \<le> clamp x lo hi \<and> clamp x lo hi \<le> hi"
  by (auto simp: clamp_def)

lemma clamp_unit: "0 \<le> clamp x 0 1 \<and> clamp x 0 1 \<le> 1"
  by (simp add: clamp_bounds)

lemma clamp_id: "lo \<le> x \<Longrightarrow> x \<le> hi \<Longrightarrow> clamp x lo hi = x"
  by (auto simp: clamp_def)

lemma clamp_mono: "x \<le> y \<Longrightarrow> lo \<le> hi \<Longrightarrow> clamp x lo hi \<le> clamp y lo hi"
  by (auto simp: clamp_def)

lemma to_double_exact: "\<bar>n\<bar> \<le> 2 ^ 53 \<Longrightarrow> to_double n = of_int n"
  by (simp add: to_double_def rnd64_of_int)

lemma to_double_mono: "m \<le> n \<Longrightarrow> to_double m \<le> to_double n"
  by (simp add: to_double_def rnd64_mono)

lemma to_double_nonneg: "0 \<le> n \<Longrightarrow> 0 \<le> to_double n"
  by (simp add: to_double_def rnd64_nonneg)

lemma to_double_pos: "0 < n \<Longrightarrow> 1 \<le> to_double n"
  by (simp add: to_double_def rnd64_ge_1)

lemma to_double_0 [simp]: "to_double 0 = 0"
  by (simp add: to_double_def)

lemma to_double_1 [simp]: "to_double 1 = 1"
  by (simp add: to_double_def)

lemma fdiv_mono: "0 < z \<Longrightarrow> x \<le> y \<Longrightarrow> fdiv x z \<le> fdiv y z"
  by (simp add: fdiv_def rnd64_mono divide_right_mono)

lemma fdiv_nonneg: "0 \<le> x \<Longrightarrow> 0 \<le> y \<Longrightarrow> 0 \<le> fdiv x y"
  by (simp add: fdiv_def rnd64_nonneg)

lemma fdiv_le_1: "0 \<le> x \<Longrightarrow> x \<le> y \<Longrightarrow> fdiv x y \<le> 1"
  by (cases "y = 0") (auto simp: fdiv_def intro: rnd64_le_1)

lemma fdiv_self: "x \<noteq> 0 \<Longrightarrow> fdiv x x = 1"
  by (simp add: fdiv_def)

lemma fmul_nonneg: "0 \<le> x \<Longrightarrow> 0 \<le> y \<Longrightarrow> 0 \<le> fmul x y"
  by (simp add: fmul_def rnd64_nonneg)

lemma fadd_nonneg: "0 \<le> x \<Longrightarrow> 0 \<le> y \<Longrightarrow> 0 \<le> fadd x y"
  by (simp add: fadd_def rnd64_nonneg)

lemma fadd_mono: "x \<le> x' \<Longrightarrow> y \<le> y' \<Longrightarrow> fadd x y \<le> fadd x' y'"
  by (simp add: fadd_def rnd64_mono add_mono)

lemma fsub_mono: "x \<le> x' \<Longrightarrow> y' \<le> y \<Longrightarrow> fsub x y \<le> fsub x' y'"
  by (simp add: fsub_def rnd64_mono diff_mono)

lemma fmul_mono: "0 \<le> x \<Longrightarrow> x \<le> x' \<Longrightarrow> 0 \<le> y \<Longrightarrow> y \<le> y' \<Longrightarrow> fmul x y \<le> fmul x' y'"
  by (simp add: fmul_def rnd64_mono mult_mono)

section \<open>Evaluation on concrete fractions\<close>

text \<open>
  The rounding of a positive fraction by integer division alone.  The collection
  \<open>float_eval\<close> rewrites a closed binary64 expression to its value inside the kernel.
\<close>

definition div_half_even :: "int \<Rightarrow> int \<Rightarrow> int" where
  "div_half_even n d =
     (let q = n div d; r = 2 * (n mod d)
      in if r < d then q else if d < r then q + 1 else if even q then q else q + 1)"

definition frac_ilog2 :: "int \<Rightarrow> int \<Rightarrow> int" where
  "frac_ilog2 n d =
     (let k = bitlen n - bitlen d
      in if (if 0 \<le> k then d * 2 ^ nat k \<le> n else d \<le> n * 2 ^ nat (- k)) then k else k - 1)"

definition rnd_frac :: "int \<Rightarrow> int \<Rightarrow> rat" where
  "rnd_frac n d =
     (let e = max (frac_ilog2 n d - 52) (- 1074)
      in if 0 \<le> e then of_int (div_half_even n (d * 2 ^ nat e)) * 2 ^ nat e
         else of_int (div_half_even (n * 2 ^ nat (- e)) d) / 2 ^ nat (- e))"

lemma round_half_even_frac:
  assumes "0 < d"
  shows "round_half_even (of_int n / of_int d) = div_half_even n d"
proof -
  have "(of_int n :: rat) = of_int (n div d * d + n mod d)" by simp
  then have "(of_int n :: rat) = of_int (n div d) * of_int d + of_int (n mod d)"
    by (simp only: of_int_add of_int_mult)
  then have r: "(of_int n / of_int d :: rat) - of_int (n div d) = of_int (n mod d) / of_int d"
    using assms by (simp add: field_simps)
  have f: "\<lfloor>of_int n / of_int d :: rat\<rfloor> = n div d" by (simp add: floor_divide_of_int_eq)
  have c: "of_int (n mod d) / of_int d < (1/2 :: rat) \<longleftrightarrow> 2 * (n mod d) < d"
    "(1/2 :: rat) < of_int (n mod d) / of_int d \<longleftrightarrow> d < 2 * (n mod d)"
    using assms by (simp_all add: field_simps) (metis of_int_less_iff of_int_mult of_int_numeral)+
  show ?thesis unfolding round_half_even_def div_half_even_def Let_def f r c ..
qed

lemma ilog2_frac:
  assumes "0 < n" and "0 < d"
  shows "ilog2 (of_int n / of_int d) = frac_ilog2 n d"
proof -
  let ?k = "bitlen n - bitlen d" and ?x = "of_int n / of_int d :: rat"
  have dpos: "(0::rat) < of_int d" using assms by simp
  have bn: "pow2 (bitlen n - 1) \<le> of_int n" "of_int n < pow2 (bitlen n)"
    and bd: "pow2 (bitlen d - 1) \<le> of_int d" "of_int d < pow2 (bitlen d)"
    using bitlen_pow2 assms by auto
  have "of_int n < pow2 (?k + 1) * pow2 (bitlen d - 1)"
    using bn(2) by (simp flip: pow2_add)
  also have "\<dots> \<le> pow2 (?k + 1) * of_int d" using bd(1) by (simp add: mult_left_mono)
  finally have up: "?x < pow2 (?k + 1)" using dpos by (simp add: field_simps)
  have "pow2 (?k - 1) * of_int d \<le> pow2 (?k - 1) * pow2 (bitlen d)"
    using bd(2) by (simp add: mult_left_mono less_imp_le)
  also have "\<dots> = pow2 (bitlen n - 1)" by (simp flip: pow2_add)
  also have "\<dots> \<le> of_int n" by (rule bn(1))
  finally have lo: "pow2 (?k - 1) \<le> ?x" using dpos by (simp add: field_simps)
  have c: "(if 0 \<le> ?k then d * 2 ^ nat ?k \<le> n else d \<le> n * 2 ^ nat (- ?k)) \<longleftrightarrow> pow2 ?k \<le> ?x"
  proof (cases "0 \<le> ?k")
    case True
    have "pow2 ?k \<le> ?x \<longleftrightarrow> (of_int (d * 2 ^ nat ?k) :: rat) \<le> of_int n"
      using True dpos by (simp add: pow2_def pos_le_divide_eq mult.commute)
    with True show ?thesis by (simp only: of_int_le_iff if_True)
  next
    case False
    have "pow2 ?k \<le> ?x \<longleftrightarrow> (of_int d :: rat) \<le> of_int (n * 2 ^ nat (- ?k))"
      using False dpos by (simp add: pow2_def divide_le_eq pos_le_divide_eq mult.commute)
    with False show ?thesis by (simp only: of_int_le_iff if_False)
  qed
  show ?thesis
  proof (cases "pow2 ?k \<le> ?x")
    case True
    with up c show ?thesis by (simp add: frac_ilog2_def Let_def ilog2_unique)
  next
    case False
    with lo have "ilog2 ?x = ?k - 1" by (intro ilog2_unique) auto
    with False c show ?thesis by (simp add: frac_ilog2_def Let_def)
  qed
qed

lemma rnd64_frac:
  assumes "0 < n" and "0 < d"
  shows "rnd64 (of_int n / of_int d) = rnd_frac n d"
proof -
  let ?x = "of_int n / of_int d :: rat"
  define e where "e = ulp_exp ?x"
  have dpos: "(0::rat) < of_int d" using assms by simp
  have x0: "0 < ?x" using assms by simp
  have e: "e = max (frac_ilog2 n d - 52) (- 1074)"
    by (simp only: e_def ulp_exp_def abs_of_pos [OF x0] ilog2_frac [OF assms])
  have "?x / pow2 e = (if 0 \<le> e then of_int n / of_int (d * 2 ^ nat e)
      else of_int (n * 2 ^ nat (- e)) / of_int d)"
    by (simp add: pow2_def field_simps)
  then have r: "round_half_even (?x / pow2 e) =
      (if 0 \<le> e then div_half_even n (d * 2 ^ nat e) else div_half_even (n * 2 ^ nat (- e)) d)"
    using assms by (auto simp: round_half_even_frac simp del: of_int_mult)
  show ?thesis
    using x0 unfolding rnd64_def e_def [symmetric] r
    by (auto simp: rnd_frac_def Let_def pow2_def e [symmetric])
qed

lemma bitlen_numeral [float_eval]:
  "bitlen 1 = 1"
  "bitlen (numeral num.One) = 1"
  "bitlen (numeral (num.Bit0 n)) = bitlen (numeral n) + 1"
  "bitlen (numeral (num.Bit1 n)) = bitlen (numeral n) + 1"
proof -
  show "bitlen 1 = 1" "bitlen (numeral num.One) = 1" by (simp_all add: compute_bitlen)
  have "numeral (num.Bit0 n) div 2 = (numeral n :: int)" "numeral (num.Bit1 n) div 2 = (numeral n :: int)"
    by simp_all
  then show "bitlen (numeral (num.Bit0 n)) = bitlen (numeral n) + 1"
    "bitlen (numeral (num.Bit1 n)) = bitlen (numeral n) + 1"
    by (metis compute_bitlen zero_less_numeral)+
qed

lemma rnd64_numeral [float_eval]:
  "rnd64 (numeral a / numeral b) = rnd_frac (numeral a) (numeral b)"
  "rnd64 (1 / numeral b) = rnd_frac 1 (numeral b)"
  "rnd64 (numeral a) = rnd_frac (numeral a) 1"
  "rnd64 (- x) = - rnd64 x"
  using rnd64_frac [of "numeral a" "numeral b"] rnd64_frac [of 1 "numeral b"]
    rnd64_frac [of "numeral a" 1] by (simp_all add: rnd64_minus)

lemma round_half_even_numeral [float_eval]:
  "round_half_even (numeral a / numeral b) = div_half_even (numeral a) (numeral b)"
  "round_half_even (1 / numeral b) = div_half_even 1 (numeral b)"
  "round_half_even (numeral a) = numeral a"
  "round_half_even 0 = 0"
  "round_half_even 1 = 1"
  "round_half_even (- x) = - round_half_even x"
  using round_half_even_frac [of "numeral b" "numeral a"] round_half_even_frac [of "numeral b" 1]
    round_half_even_of_int [of "numeral a"] round_half_even_of_int [of 0] round_half_even_of_int [of 1]
  by (simp_all add: round_half_even_minus)

lemmas float_ops [float_eval] = fadd_def fsub_def fmul_def fdiv_def to_double_def
lemmas rnd_frac_eval [float_eval] = rnd_frac_def frac_ilog2_def div_half_even_def

section \<open>Square root\<close>

text \<open>
  \<open>std::sqrt\<close> is correctly rounded.  The argument is scaled by an even power of two so
  that its integer square root has at least 55 bits, and the remainder is kept as a sticky
  half below the last bit, so that one rounding gives the nearest binary64 number.
\<close>

fun isqrt_bits :: "nat \<Rightarrow> int \<Rightarrow> int \<Rightarrow> int" where
  "isqrt_bits 0 m r = r"
| "isqrt_bits (Suc k) m r =
     (let c = r + 2 ^ k in isqrt_bits k m (if c * c \<le> m then c else r))"

definition isqrt :: "int \<Rightarrow> int" where
  "isqrt m = isqrt_bits (Suc (nat (bitlen m) div 2)) m 0"

lemma isqrt_bits_correct:
  "r * r \<le> m \<Longrightarrow> 0 \<le> r \<Longrightarrow> m < (r + 2 ^ k) * (r + 2 ^ k) \<Longrightarrow>
   0 \<le> isqrt_bits k m r \<and> isqrt_bits k m r * isqrt_bits k m r \<le> m \<and>
   m < (isqrt_bits k m r + 1) * (isqrt_bits k m r + 1)"
proof (induction k m r rule: isqrt_bits.induct)
  case (2 k m r)
  have eq: "r + 2 ^ Suc k = (r + 2 ^ k) + (2::int) ^ k" by simp
  show ?case
  proof (cases "(r + 2 ^ k) * (r + 2 ^ k) \<le> m")
    case True
    have "m < ((r + 2 ^ k) + 2 ^ k) * ((r + 2 ^ k) + 2 ^ k)" using "2.prems"(3) by (simp only: eq)
    with "2.IH" [OF refl] True "2.prems" show ?thesis by (simp add: Let_def)
  next
    case False
    with "2.IH" [OF refl] "2.prems" show ?thesis by (simp add: Let_def)
  qed
qed simp

lemma isqrt_correct:
  assumes "0 \<le> m"
  shows "0 \<le> isqrt m" and "isqrt m * isqrt m \<le> m" and "m < (isqrt m + 1) * (isqrt m + 1)"
proof -
  let ?h = "Suc (nat (bitlen m) div 2)"
  have "m < 2 ^ nat (bitlen m)"
    using assms bitlen_bounds [of m] by (cases "m = 0") auto
  also have "\<dots> \<le> (2::int) ^ (?h + ?h)" by (intro power_increasing) auto
  finally have "m < (0 + 2 ^ ?h) * (0 + 2 ^ ?h)" by (simp only: power_add add_0)
  from isqrt_bits_correct [OF _ _ this] assms
  show "0 \<le> isqrt m" and "isqrt m * isqrt m \<le> m" and "m < (isqrt m + 1) * (isqrt m + 1)"
    by (simp_all add: isqrt_def)
qed

lemma isqrt_square:
  assumes "0 \<le> n" shows "isqrt (n * n) = n"
proof -
  have sq: "0 \<le> n * n" using assms by simp
  note s = isqrt_correct [OF sq]
  have "isqrt (n * n) \<le> n" using s(1,2) assms by (metis mult_strict_mono' not_le)
  moreover have "n < isqrt (n * n) + 1" using s(1,3) assms by (metis add_nonneg_nonneg mult_mono not_le zero_le_one)
  ultimately show ?thesis by simp
qed

definition fsqrt :: "double \<Rightarrow> double" where
  "fsqrt x = (if x \<le> 0 then 0
     else let k = (108 - ilog2 x) div 2 + 1;
              m = \<lfloor>x * pow2 (2 * k)\<rfloor>;
              s = isqrt m;
              exact = (of_int (s * s) = x * pow2 (2 * k))
          in rnd64 ((if exact then of_int s else of_int s + 1/2) / pow2 k))"

lemma fsqrt_nonneg: "0 \<le> fsqrt x"
proof (cases "x \<le> 0")
  case False
  then have "0 \<le> \<lfloor>x * pow2 (2 * ((108 - ilog2 x) div 2 + 1))\<rfloor>" by simp
  from isqrt_correct(1) [OF this] False show ?thesis
    by (simp add: fsqrt_def Let_def rnd64_nonneg)
qed (simp add: fsqrt_def)

section \<open>Rendering\<close>

text \<open>\<open>std::to_string(double)\<close> and \<open>%.nf\<close>: \<open>n\<close> decimals, exact value rounded half to even.\<close>

fun pad_left :: "nat \<Rightarrow> string \<Rightarrow> string" where
  "pad_left n s = replicate (n - length s) (CHR ''0'') @ s"

definition show_fixed :: "nat \<Rightarrow> double \<Rightarrow> string" where
  "show_fixed n x =
     (let k = nat (round_half_even (\<bar>x\<bar> * 10 ^ n))
      in (if x < 0 then ''-'' else '''') @ show_nat (k div 10 ^ n) @ ''.'' @
         pad_left n (show_nat (k mod 10 ^ n)))"

definition to_string_double :: "double \<Rightarrow> string" where
  "to_string_double x = show_fixed 6 x"

lemmas show_double_eval [float_eval] = to_string_double_def show_fixed_def

end
