(* ===== verification/Fix_Types.thy ===== *)
theory Fix_Types
  imports Float64
begin

text \<open>
  The live-mode data model of \<open>cpp/fix/types.hpp\<close>: the enumerations with their string
  conversions, \<open>Order\<close>, \<open>Execution\<close>, and the event variant that travels through
  the ring buffer, Kafka, the order book and the detectors (\<open>IngestionEvent\<close> and
  \<open>DetectorEvent\<close> are the same \<open>std::variant\<close>).
  Quantities and epoch-nanosecond timestamps are \<open>int64_t\<close>; signed overflow has no
  defined result in C++, so they are integers here and nothing is claimed of sums that
  leave the range.
\<close>

datatype side = KBuy | KSell
datatype order_type = KLimit | KMarket
datatype order_status = KNew | KCancelled | KReplaced

fun side_to_string :: "side \<Rightarrow> string" where
  "side_to_string KBuy = ''Buy''"
| "side_to_string KSell = ''Sell''"

fun order_type_to_string :: "order_type \<Rightarrow> string" where
  "order_type_to_string KLimit = ''Limit''"
| "order_type_to_string KMarket = ''Market''"

fun order_status_to_string :: "order_status \<Rightarrow> string" where
  "order_status_to_string KNew = ''New''"
| "order_status_to_string KCancelled = ''Cancelled''"
| "order_status_to_string KReplaced = ''Replaced''"

text \<open>\<open>std::invalid_argument\<close> of the three parsers is \<open>Inl\<close> of the rejected text.\<close>

definition side_from_string :: "string \<Rightarrow> string + side" where
  "side_from_string v = (if v = ''Buy'' then Inr KBuy else if v = ''Sell'' then Inr KSell else Inl v)"

definition order_type_from_string :: "string \<Rightarrow> string + order_type" where
  "order_type_from_string v =
     (if v = ''Limit'' then Inr KLimit else if v = ''Market'' then Inr KMarket else Inl v)"

definition order_status_from_string :: "string \<Rightarrow> string + order_status" where
  "order_status_from_string v =
     (if v = ''New'' then Inr KNew else if v = ''Cancelled'' then Inr KCancelled
      else if v = ''Replaced'' then Inr KReplaced else Inl v)"

lemma side_string_roundtrip [simp]: "side_from_string (side_to_string s) = Inr s"
  by (cases s) (simp_all add: side_from_string_def)

lemma order_type_string_roundtrip [simp]:
  "order_type_from_string (order_type_to_string t) = Inr t"
  by (cases t) (simp_all add: order_type_from_string_def)

lemma order_status_string_roundtrip [simp]:
  "order_status_from_string (order_status_to_string t) = Inr t"
  by (cases t) (simp_all add: order_status_from_string_def)

record order =
  o_order_id :: string
  o_account_id :: string
  o_instrument_id :: string
  o_side :: side
  o_price :: double
  o_qty :: int
  o_order_type :: order_type
  o_timestamp_ns :: int
  o_status :: order_status
  o_venue :: string
  o_orig_order_id :: string

record execution =
  x_trade_id :: string
  x_order_id :: string
  x_account_id :: string
  x_instrument_id :: string
  x_side :: side
  x_price :: double
  x_qty :: int
  x_timestamp_ns :: int
  x_counterparty_account_id :: string
  x_venue :: string

datatype event = OrderEvent order | ExecutionEvent execution

fun is_order :: "event \<Rightarrow> bool" where
  "is_order (OrderEvent _) = True"
| "is_order (ExecutionEvent _) = False"

fun is_execution :: "event \<Rightarrow> bool" where
  "is_execution (OrderEvent _) = False"
| "is_execution (ExecutionEvent _) = True"

fun instrument_id_of :: "event \<Rightarrow> string" where
  "instrument_id_of (OrderEvent order) = o_instrument_id order"
| "instrument_id_of (ExecutionEvent execution) = x_instrument_id execution"

fun timestamp_of :: "event \<Rightarrow> int" where
  "timestamp_of (OrderEvent order) = o_timestamp_ns order"
| "timestamp_of (ExecutionEvent execution) = x_timestamp_ns execution"

fun opposite_of :: "side \<Rightarrow> side" where
  "opposite_of KBuy = KSell"
| "opposite_of KSell = KBuy"

lemma opposite_of_neq [simp]: "opposite_of s \<noteq> s" "s \<noteq> opposite_of s"
  by (cases s; simp)+

lemma opposite_of_involutive [simp]: "opposite_of (opposite_of s) = s"
  by (cases s) simp_all

text \<open>The defaults of the structs, used where the source value-initialises one.\<close>

definition default_order :: order where
  "default_order = \<lparr>o_order_id = '''', o_account_id = '''', o_instrument_id = '''',
     o_side = KBuy, o_price = 0, o_qty = 0, o_order_type = KLimit, o_timestamp_ns = 0,
     o_status = KNew, o_venue = '''', o_orig_order_id = ''''\<rparr>"

definition default_execution :: execution where
  "default_execution = \<lparr>x_trade_id = '''', x_order_id = '''', x_account_id = '''',
     x_instrument_id = '''', x_side = KBuy, x_price = 0, x_qty = 0, x_timestamp_ns = 0,
     x_counterparty_account_id = '''', x_venue = ''''\<rparr>"

end
