(* ===== verification/Order_Book.thy ===== *)
theory Order_Book
  imports Fix_Types
begin

text \<open>
  \<open>cpp/orderbook/order_book.hpp\<close> and \<open>order_book.cpp\<close>: the single-instrument,
  price-time-priority book.  A price level is a \<open>std::list\<close> of resting orders, a side
  is a \<open>std::map\<close> from price to level, and \<open>order_index_\<close> maps an order id to its
  side, its price and a \<open>std::list\<close> iterator.

  An iterator is the address of a list node: every node carries the address it was
  allocated at (\<open>ro_node\<close>), and \<open>next_node\<close> is the next free address.
  Dereferencing an iterator looks the address up in the level the index entry names.  An
  address that is not there is a dangling iterator, whose use is undefined behaviour; it is
  the error \<open>Dangling_Iterator\<close> here.  The other errors are the
  \<open>std::invalid_argument\<close> exceptions of \<open>apply\<close>.  An operation returns the
  book it leaves behind together with the exception, if any: the caller catches the
  exception and keeps using the book.
\<close>

record resting_order =
  ro_order_id :: string
  ro_account_id :: string
  ro_side :: side
  ro_qty :: int
  ro_timestamp_ns :: int
  ro_node :: nat

type_synonym order_queue = "resting_order list"
type_synonym price_levels = "(double \<times> order_queue) list"

record order_index_entry =
  ie_side :: side
  ie_price :: double
  ie_it :: nat

record order_book =
  instrument_id :: string
  bids :: price_levels
  asks :: price_levels
  order_index :: "string \<rightharpoonup> order_index_entry"
  sequence :: u64
  last_event_timestamp_ns :: int
  next_node :: nat

datatype book_error =
    Instrument_Mismatch string string
  | Duplicate_Order_Id string
  | Replace_Not_Resting string
  | Execution_Not_Resting string
  | Overfill int int string
  | Dangling_Iterator

definition empty_book :: "string \<Rightarrow> order_book" where
  "empty_book i = \<lparr>instrument_id = i, bids = [], asks = [], order_index = Map.empty,
     sequence = 0, last_event_timestamp_ns = 0, next_node = 0\<rparr>"

fun levels_for :: "side \<Rightarrow> order_book \<Rightarrow> price_levels" where
  "levels_for KBuy b = bids b"
| "levels_for KSell b = asks b"

fun set_levels :: "side \<Rightarrow> price_levels \<Rightarrow> order_book \<Rightarrow> order_book" where
  "set_levels KBuy lv b = b\<lparr>bids := lv\<rparr>"
| "set_levels KSell lv b = b\<lparr>asks := lv\<rparr>"

text \<open>\<open>levels[price]\<close>: the level, created empty if there is none.\<close>

definition queue_in :: "price_levels \<Rightarrow> double \<Rightarrow> order_queue" where
  "queue_in lv p = (case map_of lv p of None \<Rightarrow> [] | Some q \<Rightarrow> q)"

abbreviation queue_at :: "side \<Rightarrow> double \<Rightarrow> order_book \<Rightarrow> order_queue" where
  "queue_at s p b \<equiv> queue_in (levels_for s b) p"

text \<open>Dereferencing the iterator of an index entry, and assigning through it.\<close>

definition deref :: "order_index_entry \<Rightarrow> order_book \<Rightarrow> resting_order option" where
  "deref e b = find (\<lambda>r. ro_node r = ie_it e) (queue_at (ie_side e) (ie_price e) b)"

definition assign_node ::
    "order_index_entry \<Rightarrow> (resting_order \<Rightarrow> resting_order) \<Rightarrow> order_book \<Rightarrow> order_book" where
  "assign_node e f b =
     set_levels (ie_side e)
       (omap_set (ie_price e)
         (map (\<lambda>r. if ro_node r = ie_it e then f r else r) (queue_at (ie_side e) (ie_price e) b))
         (levels_for (ie_side e) b)) b"

definition insert_new :: "order \<Rightarrow> order_book \<Rightarrow> order_book \<times> book_error option" where
  "insert_new order b =
     (if order_index b (o_order_id order) \<noteq> None
      then (b, Some (Duplicate_Order_Id (o_order_id order)))
      else
        let levels = levels_for (o_side order) b;
            node = \<lparr>ro_order_id = o_order_id order, ro_account_id = o_account_id order,
                    ro_side = o_side order, ro_qty = o_qty order,
                    ro_timestamp_ns = o_timestamp_ns order, ro_node = next_node b\<rparr>;
            b1 = set_levels (o_side order)
                   (omap_set (o_price order) (queue_in levels (o_price order) @ [node]) levels) b
        in (b1\<lparr>order_index := (order_index b)(o_order_id order \<mapsto>
                 \<lparr>ie_side = o_side order, ie_price = o_price order, ie_it = next_node b\<rparr>),
               next_node := Suc (next_node b)\<rparr>, None))"

text \<open>
  \<open>remove_resting\<close> is given the id whose index entry the iterator argument points at
  and the entry itself (copied first, as the code does).
\<close>

definition remove_resting ::
    "string \<Rightarrow> order_index_entry \<Rightarrow> order_book \<Rightarrow> order_book \<times> book_error option" where
  "remove_resting oid entry b =
     (case deref entry b of
        None \<Rightarrow> (b, Some Dangling_Iterator)
      | Some _ \<Rightarrow>
          let levels = levels_for (ie_side entry) b;
              queue = filter (\<lambda>r. ro_node r \<noteq> ie_it entry) (queue_in levels (ie_price entry));
              levels' = (if queue = [] then omap_erase (ie_price entry) levels
                         else omap_set (ie_price entry) queue levels)
          in ((set_levels (ie_side entry) levels' b)\<lparr>order_index := (order_index b)(oid := None)\<rparr>, None))"

definition cancel :: "string \<Rightarrow> order_book \<Rightarrow> order_book \<times> book_error option" where
  "cancel target_order_id b =
     (case order_index b target_order_id of
        None \<Rightarrow> (b, None)
      | Some entry \<Rightarrow> remove_resting target_order_id entry b)"

definition replace :: "order \<Rightarrow> order_book \<Rightarrow> order_book \<times> book_error option" where
  "replace order b =
     (case order_index b (o_orig_order_id order) of
        None \<Rightarrow> (b, Some (Replace_Not_Resting (o_orig_order_id order)))
      | Some old_entry \<Rightarrow>
          (case deref old_entry b of
             None \<Rightarrow> (b, Some Dangling_Iterator)
           | Some resting \<Rightarrow>
               let price_changed = (o_price order \<noteq> ie_price old_entry);
                   qty_increased = (ro_qty resting < o_qty order)
               in if price_changed \<or> qty_increased
                  then (case remove_resting (o_orig_order_id order) old_entry b of
                          (b1, Some e) \<Rightarrow> (b1, Some e)
                        | (b1, None) \<Rightarrow> insert_new (order\<lparr>o_status := KNew\<rparr>) b1)
                  else
                    ((assign_node old_entry
                        (\<lambda>r. r\<lparr>ro_qty := o_qty order, ro_order_id := o_order_id order\<rparr>) b)
                       \<lparr>order_index := ((order_index b)(o_orig_order_id order := None))
                                        (o_order_id order \<mapsto> old_entry)\<rparr>,
                     None)))"

text \<open>Both \<open>apply\<close> overloads count the event and record its time before acting on it.\<close>

definition stamp :: "int \<Rightarrow> order_book \<Rightarrow> order_book" where
  "stamp ts b = b\<lparr>sequence := sequence b + 1, last_event_timestamp_ns := ts\<rparr>"

definition apply_order :: "order \<Rightarrow> order_book \<Rightarrow> order_book \<times> book_error option" where
  "apply_order order b =
     (if o_instrument_id order \<noteq> instrument_id b
      then (b, Some (Instrument_Mismatch (instrument_id b) (o_instrument_id order)))
      else
        let b = stamp (o_timestamp_ns order) b
        in case o_status order of
             KNew \<Rightarrow> insert_new order b
           | KCancelled \<Rightarrow> cancel (o_orig_order_id order) b
           | KReplaced \<Rightarrow> replace order b)"

definition apply_execution :: "execution \<Rightarrow> order_book \<Rightarrow> order_book \<times> book_error option" where
  "apply_execution execution b =
     (if x_instrument_id execution \<noteq> instrument_id b
      then (b, Some (Instrument_Mismatch (instrument_id b) (x_instrument_id execution)))
      else
        let b = stamp (x_timestamp_ns execution) b
        in case order_index b (x_order_id execution) of
             None \<Rightarrow> (b, Some (Execution_Not_Resting (x_order_id execution)))
           | Some entry \<Rightarrow>
               (case deref entry b of
                  None \<Rightarrow> (b, Some Dangling_Iterator)
                | Some resting \<Rightarrow>
                    if ro_qty resting < x_qty execution
                    then (b, Some (Overfill (x_qty execution) (ro_qty resting) (x_order_id execution)))
                    else
                      let left = ro_qty resting - x_qty execution;
                          b1 = assign_node entry (\<lambda>r. r\<lparr>ro_qty := left\<rparr>) b
                      in if left = 0 then remove_resting (x_order_id execution) entry b1
                         else (b1, None)))"

fun apply_event :: "event \<Rightarrow> order_book \<Rightarrow> order_book \<times> book_error option" where
  "apply_event (OrderEvent order) b = apply_order order b"
| "apply_event (ExecutionEvent execution) b = apply_execution execution b"

text \<open>A run of events; the caller catches each exception and goes on with the book it has.\<close>

definition run_book :: "event list \<Rightarrow> order_book \<Rightarrow> order_book" where
  "run_book es b = fold (\<lambda>e b. fst (apply_event e b)) es b"

section \<open>Queries and snapshots\<close>

definition qty_at_price :: "side \<Rightarrow> double \<Rightarrow> order_book \<Rightarrow> int" where
  "qty_at_price side price b =
     (case map_of (levels_for side b) price of None \<Rightarrow> 0 | Some q \<Rightarrow> sum_list (map ro_qty q))"

definition order_count_at_price :: "side \<Rightarrow> double \<Rightarrow> order_book \<Rightarrow> nat" where
  "order_count_at_price side price b =
     (case map_of (levels_for side b) price of None \<Rightarrow> 0 | Some q \<Rightarrow> length q)"

definition best_price :: "side \<Rightarrow> order_book \<Rightarrow> double option" where
  "best_price side b =
     (let levels = levels_for side b
      in if levels = [] then None
         else case side of KBuy \<Rightarrow> Some (fst (last levels)) | KSell \<Rightarrow> Some (fst (hd levels)))"

record resting_order_summary =
  su_order_id :: string
  su_account_id :: string
  su_qty :: int

record price_level =
  pl_price :: double
  pl_total_qty :: int
  pl_orders :: "resting_order_summary list"

record depth_snapshot =
  ds_instrument_id :: string
  ds_sequence :: u64
  ds_last_event_timestamp_ns :: int
  ds_bids :: "price_level list"
  ds_asks :: "price_level list"

definition level_summary :: "double \<Rightarrow> order_queue \<Rightarrow> price_level" where
  "level_summary price queue =
     \<lparr>pl_price = price, pl_total_qty = foldl (\<lambda>total r. total + ro_qty r) 0 queue,
      pl_orders = map (\<lambda>r. \<lparr>su_order_id = ro_order_id r, su_account_id = ro_account_id r,
                            su_qty = ro_qty r\<rparr>) queue\<rparr>"

definition snapshot :: "order_book \<Rightarrow> depth_snapshot" where
  "snapshot b =
     \<lparr>ds_instrument_id = instrument_id b, ds_sequence = sequence b,
      ds_last_event_timestamp_ns = last_event_timestamp_ns b,
      ds_bids = map (\<lambda>(p, q). level_summary p q) (rev (bids b)),
      ds_asks = map (\<lambda>(p, q). level_summary p q) (asks b)\<rparr>"

end
