(* ===== verification/Book_Invariant.thy ===== *)
theory Book_Invariant
  imports Order_Book
begin

text \<open>
  The order book's representation invariant.  \<open>book_wf\<close> says that the price levels are
  ascending and never empty, that every list node is allocated once, and that every index
  entry holds a live iterator to the node with that id; it is what makes each use of an
  iterator defined.  \<open>book_full\<close> adds that every resting order is in the index.

  The proofs work on the view of a book: its queues as a function of side and price, its
  index and its next free address.  Each primitive of the code changes one queue of the
  view; the three lemmas about the view are shared by all operations.
\<close>

section \<open>Fields and levels\<close>

lemma levels_for_set_levels [simp]:
  "levels_for s (set_levels s' lv b) = (if s = s' then lv else levels_for s b)"
  by (cases s; cases s') simp_all

lemma set_levels_fields [simp]:
  "instrument_id (set_levels s lv b) = instrument_id b"
  "order_index (set_levels s lv b) = order_index b"
  "sequence (set_levels s lv b) = sequence b"
  "last_event_timestamp_ns (set_levels s lv b) = last_event_timestamp_ns b"
  "next_node (set_levels s lv b) = next_node b"
  by (cases s; simp)+

lemma levels_for_update [simp]:
  "levels_for s (b\<lparr>order_index := i\<rparr>) = levels_for s b"
  "levels_for s (b\<lparr>next_node := n\<rparr>) = levels_for s b"
  "levels_for s (b\<lparr>sequence := q\<rparr>) = levels_for s b"
  "levels_for s (b\<lparr>last_event_timestamp_ns := t\<rparr>) = levels_for s b"
  by (cases s; simp)+

definition levels_wf :: "price_levels \<Rightarrow> bool" where
  "levels_wf lv \<longleftrightarrow> sorted_keys lv \<and> [] \<notin> snd ` set lv"

lemma levels_wf_Nil [simp]: "levels_wf []"
  by (simp add: levels_wf_def)

lemma queue_in_set [book_simps]:
  "levels_wf lv \<Longrightarrow> queue_in (omap_set p q lv) p' = (if p' = p then q else queue_in lv p')"
  by (simp add: queue_in_def levels_wf_def omap.lookup_assign)

lemma queue_in_erase [book_simps]:
  "levels_wf lv \<Longrightarrow> queue_in (omap_erase p lv) p' = (if p' = p then [] else queue_in lv p')"
  by (simp add: queue_in_def levels_wf_def omap.lookup_erase)

lemma levels_wf_set: "levels_wf lv \<Longrightarrow> q \<noteq> [] \<Longrightarrow> levels_wf (omap_set p q lv)"
  using vals_omap_set [of p q lv] unfolding levels_wf_def by auto

lemma levels_wf_erase: "levels_wf lv \<Longrightarrow> levels_wf (omap_erase p lv)"
  using vals_omap_erase [of p lv] unfolding levels_wf_def by auto

text \<open>With no empty level stored, the levels are exactly the prices with orders.\<close>

lemma level_iff_queue: "levels_wf lv \<Longrightarrow> map_of lv p = Some q \<longleftrightarrow> queue_in lv p = q \<and> q \<noteq> []"
  unfolding levels_wf_def queue_in_def
  by (auto split: option.splits) (metis image_eqI map_of_SomeD snd_conv)

section \<open>The view of a book\<close>

type_synonym queues = "side \<Rightarrow> double \<Rightarrow> order_queue"

definition view :: "order_book \<Rightarrow> queues" where
  "view b = (\<lambda>s p. queue_at s p b)"

definition upd_queue :: "side \<Rightarrow> double \<Rightarrow> order_queue \<Rightarrow> queues \<Rightarrow> queues" where
  "upd_queue s p q Q = (\<lambda>s' p'. if s' = s \<and> p' = p then q else Q s' p')"

definition nodes_wf :: "queues \<Rightarrow> nat \<Rightarrow> bool" where
  "nodes_wf Q n \<longleftrightarrow>
     (\<forall>s p. distinct (map ro_node (Q s p))) \<and>
     (\<forall>s p. \<forall>r \<in> set (Q s p). ro_side r = s \<and> ro_node r < n) \<and>
     (\<forall>s p s' p'. \<forall>r \<in> set (Q s p). \<forall>r' \<in> set (Q s' p').
        ro_node r = ro_node r' \<longrightarrow> s = s' \<and> p = p')"

definition index_live :: "queues \<Rightarrow> (string \<rightharpoonup> order_index_entry) \<Rightarrow> bool" where
  "index_live Q I \<longleftrightarrow>
     (\<forall>i e. I i = Some e \<longrightarrow>
        (\<exists>r \<in> set (Q (ie_side e) (ie_price e)). ro_node r = ie_it e \<and> ro_order_id r = i))"

definition index_full :: "queues \<Rightarrow> (string \<rightharpoonup> order_index_entry) \<Rightarrow> bool" where
  "index_full Q I \<longleftrightarrow>
     (\<forall>s p. \<forall>r \<in> set (Q s p).
        I (ro_order_id r) = Some \<lparr>ie_side = s, ie_price = p, ie_it = ro_node r\<rparr>)"

definition book_wf :: "order_book \<Rightarrow> bool" where
  "book_wf b \<longleftrightarrow> levels_wf (bids b) \<and> levels_wf (asks b) \<and>
     nodes_wf (view b) (next_node b) \<and> index_live (view b) (order_index b)"

definition book_full :: "order_book \<Rightarrow> bool" where
  "book_full b \<longleftrightarrow> book_wf b \<and> index_full (view b) (order_index b)"

lemma book_wf_levels [simp]: "book_wf b \<Longrightarrow> levels_wf (levels_for s b)"
  by (cases s) (simp_all add: book_wf_def)

lemma book_wfD:
  "book_wf b \<Longrightarrow> nodes_wf (view b) (next_node b)"
  "book_wf b \<Longrightarrow> index_live (view b) (order_index b)"
  by (simp_all add: book_wf_def)

lemma book_wfI:
  assumes "\<And>s. levels_wf (levels_for s b)" and "nodes_wf (view b) (next_node b)"
    and "index_live (view b) (order_index b)"
  shows "book_wf b"
  using assms(1) [of KBuy] assms(1) [of KSell] assms(2,3) by (simp add: book_wf_def)

lemma upd_queue_apply [simp]:
  "upd_queue s p q Q s' p' = (if s' = s \<and> p' = p then q else Q s' p')"
  by (simp add: upd_queue_def)

lemma nodes_wfD:
  assumes "nodes_wf Q n"
  shows "distinct (map ro_node (Q s p))"
    and "r \<in> set (Q s p) \<Longrightarrow> ro_side r = s"
    and "r \<in> set (Q s p) \<Longrightarrow> ro_node r < n"
    and "r \<in> set (Q s p) \<Longrightarrow> r' \<in> set (Q s' p') \<Longrightarrow> ro_node r = ro_node r' \<Longrightarrow> s = s' \<and> p = p'"
  using assms unfolding nodes_wf_def by blast+

lemma nodes_wfI:
  assumes "\<And>s p. distinct (map ro_node (Q s p))"
    and "\<And>s p r. r \<in> set (Q s p) \<Longrightarrow> ro_side r = s \<and> ro_node r < n"
    and "\<And>s p s' p' r r'. r \<in> set (Q s p) \<Longrightarrow> r' \<in> set (Q s' p') \<Longrightarrow>
           ro_node r = ro_node r' \<Longrightarrow> s = s' \<and> p = p'"
  shows "nodes_wf Q n"
  using assms unfolding nodes_wf_def by blast

lemma nodes_wf_unique:
  assumes "nodes_wf Q n" and "r \<in> set (Q s p)" and "r' \<in> set (Q s' p')"
    and "ro_node r = ro_node r'"
  shows "s = s' \<and> p = p' \<and> r = r'"
  using nodes_wfD(4) [OF assms] distinct_map_inj [OF nodes_wfD(1) [OF assms(1)]] assms(2-4) by metis

text \<open>Adding a node at the next free address.\<close>

lemma nodes_wf_add:
  assumes "nodes_wf Q n" and "ro_node x = n" and "ro_side x = s"
  shows "nodes_wf (upd_queue s p (Q s p @ [x]) Q) (Suc n)"
proof -
  let ?Q = "upd_queue s p (Q s p @ [x]) Q"
  have mem: "r \<in> set (?Q s' p') \<longleftrightarrow> r \<in> set (Q s' p') \<or> r = x \<and> s' = s \<and> p' = p" for s' p' r
    by auto
  have ne: "r \<in> set (Q s' p') \<Longrightarrow> ro_node r \<noteq> n" for s' p' r
    using nodes_wfD(3) [OF assms(1)] by blast
  show ?thesis
  proof (rule nodes_wfI)
    show "distinct (map ro_node (?Q s' p'))" for s' p'
      using nodes_wfD(1) [OF assms(1)] ne [of _ s p] assms(2) by force
    show "ro_side r = s' \<and> ro_node r < Suc n" if "r \<in> set (?Q s' p')" for s' p' r
      using that nodes_wfD(2,3) [OF assms(1)] assms(2,3) unfolding mem by (metis less_Suc_eq)
    show "s1 = s2 \<and> p1 = p2"
      if "r \<in> set (?Q s1 p1)" "r' \<in> set (?Q s2 p2)" "ro_node r = ro_node r'" for s1 p1 s2 p2 r r'
      using that nodes_wfD(4) [OF assms(1)] ne assms(2) unfolding mem by metis
  qed
qed

lemma index_live_add:
  assumes "index_live Q I" and "ro_order_id x = i"
  shows "index_live (upd_queue s p (Q s p @ [x]) Q)
           (I(i \<mapsto> \<lparr>ie_side = s, ie_price = p, ie_it = ro_node x\<rparr>))"
  using assms by (auto simp: index_live_def)

lemma index_full_add:
  assumes "index_full Q I" and "I (ro_order_id x) = None"
  shows "index_full (upd_queue s p (Q s p @ [x]) Q)
           (I(ro_order_id x \<mapsto> \<lparr>ie_side = s, ie_price = p, ie_it = ro_node x\<rparr>))"
proof -
  have "ro_order_id r \<noteq> ro_order_id x" if "r \<in> set (Q s' p')" for s' p' r
    using assms that unfolding index_full_def by force
  then show ?thesis
    using assms(1) unfolding index_full_def by simp
qed

text \<open>Removing the node an index entry points at.\<close>

lemma nodes_wf_del:
  assumes "nodes_wf Q n"
  shows "nodes_wf (upd_queue s p (filter P (Q s p)) Q) n"
proof -
  let ?Q = "upd_queue s p (filter P (Q s p)) Q"
  have mem: "r \<in> set (?Q s' p') \<Longrightarrow> r \<in> set (Q s' p')" for s' p' r
    by (auto split: if_splits)
  show ?thesis
  proof (rule nodes_wfI)
    show "distinct (map ro_node (?Q s' p'))" for s' p'
      using nodes_wfD(1) [OF assms] by (simp add: distinct_map_filter)
    show "ro_side r = s' \<and> ro_node r < n" if "r \<in> set (?Q s' p')" for s' p' r
      using mem [OF that] nodes_wfD(2,3) [OF assms] by blast
    show "s1 = s2 \<and> p1 = p2"
      if "r \<in> set (?Q s1 p1)" "r' \<in> set (?Q s2 p2)" "ro_node r = ro_node r'" for s1 p1 s2 p2 r r'
      using nodes_wfD(4) [OF assms mem [OF that(1)] mem [OF that(2)] that(3)] .
  qed
qed

lemma index_live_del:
  assumes "nodes_wf Q n" and "index_live Q I" and "I i = Some e"
  shows "index_live
           (upd_queue (ie_side e) (ie_price e)
             (filter (\<lambda>r. ro_node r \<noteq> ie_it e) (Q (ie_side e) (ie_price e))) Q)
           (I(i := None))"
  unfolding index_live_def
proof (intro allI impI)
  fix j f
  assume j: "(I(i := None)) j = Some f"
  then have ij: "j \<noteq> i" and f: "I j = Some f" by (auto split: if_splits)
  from assms(2) f obtain r where r: "r \<in> set (Q (ie_side f) (ie_price f))" "ro_node r = ie_it f"
    "ro_order_id r = j" by (auto simp: index_live_def)
  from assms(2,3) obtain r0 where r0: "r0 \<in> set (Q (ie_side e) (ie_price e))"
    "ro_node r0 = ie_it e" "ro_order_id r0 = i" by (auto simp: index_live_def)
  have "ro_node r \<noteq> ie_it e" using nodes_wf_unique [OF assms(1) r(1) r0(1)] r r0 ij by auto
  with r show "\<exists>r\<in>set (upd_queue (ie_side e) (ie_price e)
        (filter (\<lambda>r. ro_node r \<noteq> ie_it e) (Q (ie_side e) (ie_price e))) Q (ie_side f) (ie_price f)).
      ro_node r = ie_it f \<and> ro_order_id r = j" by auto
qed

lemma index_full_del:
  assumes "index_full Q I" and "I i = Some e"
  shows "index_full
           (upd_queue (ie_side e) (ie_price e)
             (filter (\<lambda>r. ro_node r \<noteq> ie_it e) (Q (ie_side e) (ie_price e))) Q)
           (I(i := None))"
proof -
  have "ro_order_id r = i \<Longrightarrow> s = ie_side e \<and> p = ie_price e \<and> ro_node r = ie_it e"
    if "r \<in> set (Q s p)" for s p r
    using assms that unfolding index_full_def by fastforce
  then show ?thesis
    using assms(1) unfolding index_full_def by auto
qed

text \<open>Assigning through an iterator: the address and the side stay.\<close>

abbreviation map_node ::
    "nat \<Rightarrow> (resting_order \<Rightarrow> resting_order) \<Rightarrow> order_queue \<Rightarrow> order_queue" where
  "map_node n f q \<equiv> map (\<lambda>r. if ro_node r = n then f r else r) q"

lemma map_node_nodes [simp]:
  "(\<And>r. ro_node (f r) = ro_node r) \<Longrightarrow> map ro_node (map_node n f q) = map ro_node q"
  by (induction q) auto

lemma nodes_wf_map:
  assumes "nodes_wf Q m" and "\<And>r. ro_node (f r) = ro_node r" and "\<And>r. ro_side (f r) = ro_side r"
  shows "nodes_wf (upd_queue s p (map_node n f (Q s p)) Q) m"
proof -
  let ?Q = "upd_queue s p (map_node n f (Q s p)) Q"
  have mem: "\<exists>r0 \<in> set (Q s' p'). ro_node r0 = ro_node r \<and> ro_side r0 = ro_side r"
    if "r \<in> set (?Q s' p')" for s' p' r
  proof (cases "s' = s \<and> p' = p")
    case True
    with that obtain r0 where "r0 \<in> set (Q s p)" "r = (if ro_node r0 = n then f r0 else r0)" by auto
    with True assms(2,3) show ?thesis by auto
  next
    case False
    with that have "r \<in> set (Q s' p')" unfolding upd_queue_apply by (simp only: if_False)
    then show ?thesis by blast
  qed
  show ?thesis
  proof (rule nodes_wfI)
    show "distinct (map ro_node (?Q s' p'))" for s' p'
      using nodes_wfD(1) [OF assms(1)] unfolding upd_queue_apply if_distrib [of "map ro_node"]
        map_node_nodes [of f, OF assms(2)] by simp
    show "ro_side r = s' \<and> ro_node r < m" if "r \<in> set (?Q s' p')" for s' p' r
    proof -
      from mem [OF that] obtain r0 where "r0 \<in> set (Q s' p')" "ro_node r0 = ro_node r"
        "ro_side r0 = ro_side r" by blast
      then show ?thesis using nodes_wfD(2,3) [OF assms(1)] by force
    qed
    fix s1 p1 s2 p2 r r'
    assume r: "r \<in> set (?Q s1 p1)" "r' \<in> set (?Q s2 p2)" "ro_node r = ro_node r'"
    from mem [OF r(1)] mem [OF r(2)] obtain r0 r0' where "r0 \<in> set (Q s1 p1)" "r0' \<in> set (Q s2 p2)"
      "ro_node r0 = ro_node r" "ro_node r0' = ro_node r'" by blast
    with r(3) show "s1 = s2 \<and> p1 = p2" using nodes_wfD(4) [OF assms(1)] by simp
  qed
qed

section \<open>The primitives on the view\<close>

lemma view_fields [simp]:
  "view (b\<lparr>order_index := i\<rparr>) = view b"
  "view (b\<lparr>next_node := n\<rparr>) = view b"
  "view (b\<lparr>sequence := q\<rparr>) = view b"
  "view (b\<lparr>last_event_timestamp_ns := t\<rparr>) = view b"
  by (simp_all add: view_def)

lemma view_queue: "queue_at s p b = view b s p"
  by (simp add: view_def)

lemma view_set_queue [book_simps]:
  "book_wf b \<Longrightarrow> view (set_levels s (omap_set p q (levels_for s b)) b) = upd_queue s p q (view b)"
  by (auto simp: view_def upd_queue_def queue_in_set fun_eq_iff)

lemma view_erase_queue [book_simps]:
  "book_wf b \<Longrightarrow> view (set_levels s (omap_erase p (levels_for s b)) b) = upd_queue s p [] (view b)"
  by (auto simp: view_def upd_queue_def queue_in_erase fun_eq_iff)

lemma stamp_fields [simp]:
  "view (stamp t b) = view b" "order_index (stamp t b) = order_index b"
  "instrument_id (stamp t b) = instrument_id b" "next_node (stamp t b) = next_node b"
  "levels_for s (stamp t b) = levels_for s b" "bids (stamp t b) = bids b" "asks (stamp t b) = asks b"
  by (simp_all add: stamp_def)

lemma stamp_wf [simp]: "book_wf (stamp t b) = book_wf b" "book_full (stamp t b) = book_full b"
  by (simp_all add: book_wf_def book_full_def)

subsection \<open>Iterators\<close>

text \<open>The entry of an id holds a live iterator to the order with that id.\<close>

lemma deref_live:
  assumes wf: "book_wf b" and i: "order_index b i = Some e"
  obtains r where "deref e b = Some r" "r \<in> set (view b (ie_side e) (ie_price e))"
    "ro_node r = ie_it e" "ro_order_id r = i"
proof -
  from book_wfD(2) [OF wf] i obtain r where r: "r \<in> set (view b (ie_side e) (ie_price e))"
    "ro_node r = ie_it e" "ro_order_id r = i" by (auto simp: index_live_def)
  have "deref e b = Some r"
    unfolding deref_def view_queue
    using r nodes_wf_unique [OF book_wfD(1) [OF wf]] by (intro find_unique) metis+
  with r that show ?thesis by blast
qed

lemma deref_eq:
  assumes "book_wf b" and "r \<in> set (view b (ie_side e) (ie_price e))" and "ro_node r = ie_it e"
  shows "deref e b = Some r"
  unfolding deref_def view_queue
  using assms nodes_wf_unique [OF book_wfD(1) [OF assms(1)]] by (intro find_unique) metis+

lemma index_of_resting:
  assumes "book_full b" and "r \<in> set (view b s p)"
  shows "order_index b (ro_order_id r) = Some \<lparr>ie_side = s, ie_price = p, ie_it = ro_node r\<rparr>"
  using assms by (simp add: book_full_def index_full_def)

subsection \<open>What each primitive does\<close>

definition new_node :: "order \<Rightarrow> nat \<Rightarrow> resting_order" where
  "new_node order n = \<lparr>ro_order_id = o_order_id order, ro_account_id = o_account_id order,
     ro_side = o_side order, ro_qty = o_qty order, ro_timestamp_ns = o_timestamp_ns order,
     ro_node = n\<rparr>"

lemma new_node_fields [simp]:
  "ro_order_id (new_node order n) = o_order_id order" "ro_side (new_node order n) = o_side order"
  "ro_node (new_node order n) = n" "ro_account_id (new_node order n) = o_account_id order"
  "ro_qty (new_node order n) = o_qty order" "ro_timestamp_ns (new_node order n) = o_timestamp_ns order"
  by (simp_all add: new_node_def)

lemma insert_new_duplicate:
  "order_index b (o_order_id order) = Some e \<Longrightarrow>
   insert_new order b = (b, Some (Duplicate_Order_Id (o_order_id order)))"
  by (simp add: insert_new_def)

lemma insert_new_effect:
  assumes "book_wf b" and "order_index b (o_order_id order) = None"
  obtains b' where "insert_new order b = (b', None)"
    "view b' = upd_queue (o_side order) (o_price order)
       (view b (o_side order) (o_price order) @ [new_node order (next_node b)]) (view b)"
    "order_index b' = (order_index b)(o_order_id order \<mapsto>
       \<lparr>ie_side = o_side order, ie_price = o_price order, ie_it = next_node b\<rparr>)"
    "next_node b' = Suc (next_node b)" "instrument_id b' = instrument_id b"
    "sequence b' = sequence b" "last_event_timestamp_ns b' = last_event_timestamp_ns b"
    "\<And>s. levels_wf (levels_for s b')"
  using assms
  by (intro that [of "fst (insert_new order b)"])
    (simp_all add: insert_new_def Let_def view_set_queue new_node_def view_queue levels_wf_set)

lemma remove_resting_effect:
  assumes "book_wf b" and "deref e b = Some r"
  obtains b' where "remove_resting i e b = (b', None)"
    "view b' = upd_queue (ie_side e) (ie_price e)
       (filter (\<lambda>r. ro_node r \<noteq> ie_it e) (view b (ie_side e) (ie_price e))) (view b)"
    "order_index b' = (order_index b)(i := None)"
    "next_node b' = next_node b" "instrument_id b' = instrument_id b"
    "sequence b' = sequence b" "last_event_timestamp_ns b' = last_event_timestamp_ns b"
    "\<And>s. levels_wf (levels_for s b')"
proof (rule that [of "fst (remove_resting i e b)"])
  show "view (fst (remove_resting i e b)) = upd_queue (ie_side e) (ie_price e)
       (filter (\<lambda>r. ro_node r \<noteq> ie_it e) (view b (ie_side e) (ie_price e))) (view b)"
    using assms by (simp add: remove_resting_def Let_def view_set_queue view_erase_queue view_queue)
  show "levels_wf (levels_for s (fst (remove_resting i e b)))" for s
    using assms by (simp add: remove_resting_def Let_def levels_wf_set levels_wf_erase)
qed (use assms in \<open>simp_all add: remove_resting_def Let_def\<close>)

lemma assign_node_effect:
  assumes "book_wf b" and "deref e b = Some r"
  shows "view (assign_node e f b) = upd_queue (ie_side e) (ie_price e)
           (map_node (ie_it e) f (view b (ie_side e) (ie_price e))) (view b)"
    and "order_index (assign_node e f b) = order_index b"
    and "next_node (assign_node e f b) = next_node b"
    and "instrument_id (assign_node e f b) = instrument_id b"
    and "sequence (assign_node e f b) = sequence b"
    and "last_event_timestamp_ns (assign_node e f b) = last_event_timestamp_ns b"
    and "levels_wf (levels_for s (assign_node e f b))"
proof -
  have "queue_at (ie_side e) (ie_price e) b \<noteq> []"
    using assms(2) by (auto simp: deref_def dest: find_Some_mem)
  then show "levels_wf (levels_for s (assign_node e f b))"
    using assms(1) by (simp add: assign_node_def levels_wf_set)
qed (use assms(1) in \<open>simp_all add: assign_node_def view_set_queue view_queue\<close>)

section \<open>Every operation keeps the invariant and uses live iterators only\<close>

lemma map_node_mem: "r \<in> set q \<Longrightarrow> (if ro_node r = n then f r else r) \<in> set (map_node n f q)"
  by simp

lemma index_live_map:
  assumes "index_live Q I"
    and "\<And>r. ro_node (f r) = ro_node r" and "\<And>r. ro_order_id (f r) = ro_order_id r"
  shows "index_live (upd_queue s p (map_node n f (Q s p)) Q) I"
  unfolding index_live_def
proof (intro allI impI)
  fix j e
  assume "I j = Some e"
  with assms(1) obtain r where r: "r \<in> set (Q (ie_side e) (ie_price e))" "ro_node r = ie_it e"
    "ro_order_id r = j" by (auto simp: index_live_def)
  show "\<exists>r\<in>set (upd_queue s p (map_node n f (Q s p)) Q (ie_side e) (ie_price e)).
      ro_node r = ie_it e \<and> ro_order_id r = j"
  proof (cases "ie_side e = s \<and> ie_price e = p")
    case True
    then show ?thesis
      using map_node_mem [OF r(1), of n f] r assms(2,3) by (intro bexI [of _ "if ro_node r = n then f r else r"]) auto
  next
    case False
    then show ?thesis unfolding upd_queue_apply using r by (simp only: if_False) blast
  qed
qed

lemma index_live_rename:
  assumes "nodes_wf Q m" and "index_live Q I" and "I i = Some e"
    and "\<And>r. ro_node (f r) = ro_node r" and "\<And>r. ro_order_id (f r) = k"
  shows "index_live (upd_queue (ie_side e) (ie_price e)
             (map_node (ie_it e) f (Q (ie_side e) (ie_price e))) Q) (I(i := None, k \<mapsto> e))"
  unfolding index_live_def
proof (intro allI impI)
  let ?q = "map_node (ie_it e) f (Q (ie_side e) (ie_price e))"
  fix j d
  assume j: "(I(i := None, k \<mapsto> e)) j = Some d"
  from assms(2,3) obtain r0 where r0: "r0 \<in> set (Q (ie_side e) (ie_price e))"
    "ro_node r0 = ie_it e" "ro_order_id r0 = i" by (auto simp: index_live_def)
  show "\<exists>r\<in>set (upd_queue (ie_side e) (ie_price e) ?q Q (ie_side d) (ie_price d)).
      ro_node r = ie_it d \<and> ro_order_id r = j"
  proof (cases "j = k")
    case True
    with j have "d = e" by simp
    then show ?thesis
      using map_node_mem [OF r0(1), of "ie_it e" f] r0 assms(4,5) True
      by (intro bexI [of _ "f r0"]) auto
  next
    case False
    with j have ji: "j \<noteq> i" and d: "I j = Some d" by (auto split: if_splits)
    from assms(2) d obtain r where r: "r \<in> set (Q (ie_side d) (ie_price d))" "ro_node r = ie_it d"
      "ro_order_id r = j" by (auto simp: index_live_def)
    have "ro_node r \<noteq> ie_it e" using nodes_wf_unique [OF assms(1) r(1) r0(1)] r r0 ji by auto
    with r map_node_mem [of r "Q (ie_side e) (ie_price e)" "ie_it e" f] show ?thesis
      by (intro bexI [of _ r]) auto
  qed
qed

text \<open>An outcome is good when the book is well-formed and no dangling iterator was used.\<close>

definition good_outcome :: "order_book \<times> book_error option \<Rightarrow> bool" where
  "good_outcome r \<longleftrightarrow> book_wf (fst r) \<and> snd r \<noteq> Some Dangling_Iterator"

lemma good_outcome_pair [simp]:
  "good_outcome (b, e) \<longleftrightarrow> book_wf b \<and> e \<noteq> Some Dangling_Iterator"
  by (simp add: good_outcome_def)

lemma insert_new_good: "book_wf b \<Longrightarrow> good_outcome (insert_new order b)"
proof (cases "order_index b (o_order_id order)")
  case None
  assume wf: "book_wf b"
  obtain b' where b': "insert_new order b = (b', None)"
    "view b' = upd_queue (o_side order) (o_price order)
       (view b (o_side order) (o_price order) @ [new_node order (next_node b)]) (view b)"
    "order_index b' = (order_index b)(o_order_id order \<mapsto>
       \<lparr>ie_side = o_side order, ie_price = o_price order, ie_it = next_node b\<rparr>)"
    "next_node b' = Suc (next_node b)" "\<And>s. levels_wf (levels_for s b')"
    using insert_new_effect [OF wf None] by metis
  have "book_wf b'"
    using b' nodes_wf_add [OF book_wfD(1) [OF wf], of "new_node order (next_node b)"]
      index_live_add [OF book_wfD(2) [OF wf], of "new_node order (next_node b)"]
    by (intro book_wfI) simp_all
  with b' show ?thesis by simp
qed (simp add: insert_new_duplicate)

lemma remove_resting_good:
  assumes "book_wf b" and "order_index b i = Some e"
  shows "good_outcome (remove_resting i e b)"
proof -
  obtain r where "deref e b = Some r" by (rule deref_live [OF assms])
  then obtain b' where b': "remove_resting i e b = (b', None)"
    "view b' = upd_queue (ie_side e) (ie_price e)
       (filter (\<lambda>r. ro_node r \<noteq> ie_it e) (view b (ie_side e) (ie_price e))) (view b)"
    "order_index b' = (order_index b)(i := None)"
    "next_node b' = next_node b" "\<And>s. levels_wf (levels_for s b')"
    using remove_resting_effect [OF assms(1)] by metis
  have "book_wf b'"
    using b' nodes_wf_del [OF book_wfD(1) [OF assms(1)]]
      index_live_del [OF book_wfD [OF assms(1)] assms(2)] by (intro book_wfI) simp_all
  with b' show ?thesis by simp
qed

lemma cancel_good: "book_wf b \<Longrightarrow> good_outcome (cancel i b)"
  by (auto simp: cancel_def remove_resting_good split: option.splits)

lemma assign_qty_wf:
  assumes "book_wf b" and "deref e b = Some r"
  shows "book_wf (assign_node e (\<lambda>r. r\<lparr>ro_qty := q\<rparr>) b)"
  using nodes_wf_map [OF book_wfD(1) [OF assms(1)], of "\<lambda>r. r\<lparr>ro_qty := q\<rparr>"]
    index_live_map [OF book_wfD(2) [OF assms(1)], of "\<lambda>r. r\<lparr>ro_qty := q\<rparr>"]
  by (intro book_wfI) (simp_all add: assign_node_effect [OF assms])

lemma assign_rename_wf:
  assumes "book_wf b" and "order_index b i = Some e"
  shows "book_wf ((assign_node e (\<lambda>r. r\<lparr>ro_qty := q, ro_order_id := k\<rparr>) b)
           \<lparr>order_index := (order_index b)(i := None, k \<mapsto> e)\<rparr>)"
proof -
  obtain r where "deref e b = Some r" by (rule deref_live [OF assms])
  note eff = assign_node_effect [OF assms(1) this]
  show ?thesis
    using nodes_wf_map [OF book_wfD(1) [OF assms(1)], of "\<lambda>r. r\<lparr>ro_qty := q, ro_order_id := k\<rparr>"]
      index_live_rename [OF book_wfD [OF assms(1)] assms(2), of "\<lambda>r. r\<lparr>ro_qty := q, ro_order_id := k\<rparr>"]
    by (intro book_wfI) (simp_all add: eff)
qed

lemma replace_good:
  assumes "book_wf b" shows "good_outcome (replace order b)"
proof (cases "order_index b (o_orig_order_id order)")
  case (Some e)
  obtain r where r: "deref e b = Some r" by (rule deref_live [OF assms Some])
  obtain b' where b': "remove_resting (o_orig_order_id order) e b = (b', None)"
    using remove_resting_effect [OF assms r] by metis
  with remove_resting_good [OF assms Some] have "book_wf b'" by simp
  with b' r Some assms show ?thesis
    by (simp add: replace_def Let_def insert_new_good assign_rename_wf)
qed (simp add: replace_def assms)

lemma apply_order_good: "book_wf b \<Longrightarrow> good_outcome (apply_order order b)"
  by (cases "o_status order")
    (simp_all add: apply_order_def Let_def insert_new_good cancel_good replace_good)

lemma apply_execution_good:
  assumes "book_wf b" shows "good_outcome (apply_execution x b)"
proof (cases "order_index b (x_order_id x)")
  case None
  with assms show ?thesis by (simp add: apply_execution_def Let_def)
next
  case (Some e)
  let ?b = "stamp (x_timestamp_ns x) b"
  have wf: "book_wf ?b" and i: "order_index ?b (x_order_id x) = Some e" using assms Some by simp_all
  obtain r where r: "deref e ?b = Some r" by (rule deref_live [OF wf i])
  define left where "left = ro_qty r - x_qty x"
  define b1 where "b1 = assign_node e (\<lambda>s. s\<lparr>ro_qty := left\<rparr>) ?b"
  have b1: "book_wf b1" unfolding b1_def by (rule assign_qty_wf [OF wf r])
  have "order_index b1 (x_order_id x) = Some e"
    using i assign_node_effect(2) [OF wf r] by (simp add: b1_def)
  then have "good_outcome (remove_resting (x_order_id x) e b1)" by (rule remove_resting_good [OF b1])
  moreover have "left = 0 \<Longrightarrow> assign_node e (\<lambda>s. s\<lparr>ro_qty := 0\<rparr>) ?b = b1" by (simp add: b1_def)
  ultimately show ?thesis
    using b1 i r assms by (simp add: apply_execution_def Let_def flip: left_def b1_def)
qed

lemma apply_event_good: "book_wf b \<Longrightarrow> good_outcome (apply_event e b)"
  by (cases e) (simp_all add: apply_order_good apply_execution_good)

lemma empty_book_levels [simp]: "levels_for s (empty_book i) = []"
  by (cases s) (simp_all add: empty_book_def)

lemma empty_book_view [simp]: "view (empty_book i) s p = []"
  by (simp add: view_def queue_in_def)

lemma empty_book_wf [simp]: "book_wf (empty_book i)" "book_full (empty_book i)"
proof -
  show "book_wf (empty_book i)"
    by (intro book_wfI) (simp_all add: nodes_wf_def index_live_def, simp add: empty_book_def)
  then show "book_full (empty_book i)" by (simp add: book_full_def index_full_def)
qed

lemma run_book_Cons: "run_book (e # es) b = run_book es (fst (apply_event e b))"
  by (simp add: run_book_def)

lemma run_book_Nil [simp]: "run_book [] b = b"
  by (simp add: run_book_def)

lemma run_book_wf: "book_wf b \<Longrightarrow> book_wf (run_book es b)"
proof (induction es arbitrary: b)
  case (Cons e es)
  then show ?case using apply_event_good [OF Cons.prems, of e] by (simp add: run_book_Cons good_outcome_def)
qed simp

end
