(* ===== verification/Book_Spec.thy ===== *)
theory Book_Spec
  imports Book_Invariant
begin

text \<open>
  What \<open>cpp/orderbook/order_book.hpp\<close> promises, stated without levels, iterators or an
  index: a book is the list of its resting orders in priority order, and each event acts on
  that list by order id.  \<open>refines\<close> relates a book of \<open>order_book.cpp\<close> to such a list: at
  every side and price the queue is exactly the sublist of that side and price, in the same
  order.  \<open>apply_refines\<close> is the simulation.  It needs one hypothesis, \<open>rename_fresh\<close>:
  a replacement that keeps its place must not take the id of another resting order, which the
  code does not check (see \<open>Book_Flaws\<close>).
\<close>

section \<open>The abstract book\<close>

record spec_order =
  so_id :: string
  so_account :: string
  so_side :: side
  so_price :: double
  so_qty :: int
  so_timestamp_ns :: int

record spec_book =
  sb_instrument :: string
  sb_orders :: "spec_order list"
  sb_sequence :: u64
  sb_timestamp_ns :: int

abbreviation ids :: "spec_order list \<Rightarrow> string set" where
  "ids L \<equiv> so_id ` set L"

definition spec_entry :: "order \<Rightarrow> spec_order" where
  "spec_entry order = \<lparr>so_id = o_order_id order, so_account = o_account_id order,
     so_side = o_side order, so_price = o_price order, so_qty = o_qty order,
     so_timestamp_ns = o_timestamp_ns order\<rparr>"

definition spec_find :: "string \<Rightarrow> spec_order list \<Rightarrow> spec_order option" where
  "spec_find i L = find (\<lambda>r. so_id r = i) L"

definition spec_remove :: "string \<Rightarrow> spec_order list \<Rightarrow> spec_order list" where
  "spec_remove i L = filter (\<lambda>r. so_id r \<noteq> i) L"

definition spec_update :: "string \<Rightarrow> (spec_order \<Rightarrow> spec_order) \<Rightarrow> spec_order list \<Rightarrow> spec_order list" where
  "spec_update i g L = map (\<lambda>r. if so_id r = i then g r else r) L"

definition spec_new :: "order \<Rightarrow> spec_order list \<Rightarrow> spec_order list \<times> book_error option" where
  "spec_new order L =
     (if o_order_id order \<in> ids L then (L, Some (Duplicate_Order_Id (o_order_id order)))
      else (L @ [spec_entry order], None))"

text \<open>A replacement keeps its place unless its price changes or its quantity grows.\<close>

definition keeps_priority :: "order \<Rightarrow> spec_order \<Rightarrow> bool" where
  "keeps_priority order r \<longleftrightarrow> o_price order = so_price r \<and> o_qty order \<le> so_qty r"

definition spec_replace :: "order \<Rightarrow> spec_order list \<Rightarrow> spec_order list \<times> book_error option" where
  "spec_replace order L =
     (case spec_find (o_orig_order_id order) L of
        None \<Rightarrow> (L, Some (Replace_Not_Resting (o_orig_order_id order)))
      | Some r \<Rightarrow>
          if keeps_priority order r
          then (spec_update (o_orig_order_id order)
                  (\<lambda>r. r\<lparr>so_qty := o_qty order, so_id := o_order_id order\<rparr>) L, None)
          else spec_new order (spec_remove (o_orig_order_id order) L))"

definition spec_fill :: "execution \<Rightarrow> spec_order list \<Rightarrow> spec_order list \<times> book_error option" where
  "spec_fill x L =
     (case spec_find (x_order_id x) L of
        None \<Rightarrow> (L, Some (Execution_Not_Resting (x_order_id x)))
      | Some r \<Rightarrow>
          if so_qty r < x_qty x then (L, Some (Overfill (x_qty x) (so_qty r) (x_order_id x)))
          else if so_qty r = x_qty x then (spec_remove (x_order_id x) L, None)
          else (spec_update (x_order_id x) (\<lambda>r. r\<lparr>so_qty := so_qty r - x_qty x\<rparr>) L, None))"

fun spec_orders_step :: "event \<Rightarrow> spec_order list \<Rightarrow> spec_order list \<times> book_error option" where
  "spec_orders_step (OrderEvent order) L =
     (case o_status order of
        KNew \<Rightarrow> spec_new order L
      | KCancelled \<Rightarrow> (spec_remove (o_orig_order_id order) L, None)
      | KReplaced \<Rightarrow> spec_replace order L)"
| "spec_orders_step (ExecutionEvent x) L = spec_fill x L"

definition spec_apply :: "event \<Rightarrow> spec_book \<Rightarrow> spec_book \<times> book_error option" where
  "spec_apply e S =
     (if instrument_id_of e \<noteq> sb_instrument S
      then (S, Some (Instrument_Mismatch (sb_instrument S) (instrument_id_of e)))
      else let (L, err) = spec_orders_step e (sb_orders S)
           in (\<lparr>sb_instrument = sb_instrument S, sb_orders = L,
                sb_sequence = sb_sequence S + 1, sb_timestamp_ns = timestamp_of e\<rparr>, err))"

definition spec_empty :: "string \<Rightarrow> spec_book" where
  "spec_empty i = \<lparr>sb_instrument = i, sb_orders = [], sb_sequence = 0, sb_timestamp_ns = 0\<rparr>"

definition spec_run :: "event list \<Rightarrow> spec_book \<Rightarrow> spec_book" where
  "spec_run es S = fold (\<lambda>e S. fst (spec_apply e S)) es S"

fun rename_fresh :: "event \<Rightarrow> spec_book \<Rightarrow> bool" where
  "rename_fresh (ExecutionEvent x) S = True"
| "rename_fresh (OrderEvent order) S =
     (o_status order \<noteq> KReplaced \<or> instrument_id_of (OrderEvent order) \<noteq> sb_instrument S \<or>
      o_order_id order = o_orig_order_id order \<or> o_order_id order \<notin> ids (sb_orders S) \<or>
      (case spec_find (o_orig_order_id order) (sb_orders S) of
         None \<Rightarrow> True | Some r \<Rightarrow> \<not> keeps_priority order r))"

fun renames_fresh :: "event list \<Rightarrow> spec_book \<Rightarrow> bool" where
  "renames_fresh [] S = True"
| "renames_fresh (e # es) S = (rename_fresh e S \<and> renames_fresh es (fst (spec_apply e S)))"

section \<open>The refinement relation\<close>

definition strip :: "double \<Rightarrow> resting_order \<Rightarrow> spec_order" where
  "strip p r = \<lparr>so_id = ro_order_id r, so_account = ro_account_id r, so_side = ro_side r,
     so_price = p, so_qty = ro_qty r, so_timestamp_ns = ro_timestamp_ns r\<rparr>"

lemma strip_fields [simp]:
  "so_id (strip p r) = ro_order_id r" "so_side (strip p r) = ro_side r"
  "so_price (strip p r) = p" "so_qty (strip p r) = ro_qty r" "so_account (strip p r) = ro_account_id r"
  by (simp_all add: strip_def)

lemma strip_new_node: "strip (o_price order) (new_node order n) = spec_entry order"
  by (simp add: strip_def spec_entry_def)

definition at_level :: "side \<Rightarrow> double \<Rightarrow> spec_order list \<Rightarrow> spec_order list" where
  "at_level s p L = filter (\<lambda>r. so_side r = s \<and> so_price r = p) L"

definition matches :: "queues \<Rightarrow> spec_order list \<Rightarrow> bool" where
  "matches Q L \<longleftrightarrow> distinct (map so_id L) \<and> (\<forall>s p. map (strip p) (Q s p) = at_level s p L)"

definition refines :: "order_book \<Rightarrow> spec_book \<Rightarrow> bool" where
  "refines b S \<longleftrightarrow> book_full b \<and> matches (view b) (sb_orders S) \<and>
     instrument_id b = sb_instrument S \<and> sequence b = sb_sequence S \<and>
     last_event_timestamp_ns b = sb_timestamp_ns S"

lemma matchesD:
  assumes "matches Q L"
  shows "distinct (map so_id L)" and "map (strip p) (Q s p) = at_level s p L"
  using assms by (simp_all add: matches_def)

lemma matches_mem:
  assumes "matches Q L" and "r \<in> set (Q s p)"
  shows "strip p r \<in> set L"
proof -
  have "strip p r \<in> set (at_level s p L)"
    using assms(2) by (simp flip: matchesD(2) [OF assms(1)])
  then show ?thesis by (simp add: at_level_def)
qed

lemma mem_matches:
  assumes "matches Q L" and "x \<in> set L"
  obtains r where "r \<in> set (Q (so_side x) (so_price x))" "strip (so_price x) r = x"
proof -
  have "x \<in> set (at_level (so_side x) (so_price x) L)" using assms(2) by (simp add: at_level_def)
  then show ?thesis using that by (auto simp flip: matchesD(2) [OF assms(1)])
qed

lemma ids_iff_index:
  assumes "book_full b" and "matches (view b) L"
  shows "i \<in> ids L \<longleftrightarrow> order_index b i \<noteq> None"
proof
  assume "i \<in> ids L"
  then obtain x where x: "x \<in> set L" "so_id x = i" by blast
  obtain r where "r \<in> set (view b (so_side x) (so_price x))" "strip (so_price x) r = x"
    by (rule mem_matches [OF assms(2) x(1)])
  then show "order_index b i \<noteq> None"
    using index_of_resting [OF assms(1)] x(2) by (metis option.distinct(1) strip_fields(1))
next
  assume "order_index b i \<noteq> None"
  then obtain e where e: "order_index b i = Some e" by blast
  have "book_wf b" using assms(1) by (simp add: book_full_def)
  from deref_live [OF this e] obtain r where "r \<in> set (view b (ie_side e) (ie_price e))"
    "ro_order_id r = i" by metis
  then show "i \<in> ids L" using matches_mem [OF assms(2)] by (metis imageI strip_fields(1))
qed

lemma spec_find_eq:
  assumes "distinct (map so_id L)" and "x \<in> set L"
  shows "spec_find (so_id x) L = Some x"
  unfolding spec_find_def using assms distinct_map_inj [OF assms(1)] by (intro find_unique) auto

lemma spec_find_None: "spec_find i L = None \<longleftrightarrow> i \<notin> ids L"
  by (auto simp: spec_find_def find_None_iff)

text \<open>In a full book, the node an entry points at is the only one with the entry's id.\<close>

lemma node_iff_id:
  assumes "book_full b" and "order_index b i = Some e" and "r \<in> set (view b s p)"
  shows "ro_order_id r = i \<longleftrightarrow> s = ie_side e \<and> p = ie_price e \<and> ro_node r = ie_it e"
proof
  assume "ro_order_id r = i"
  with assms index_of_resting [OF assms(1,3)] show "s = ie_side e \<and> p = ie_price e \<and> ro_node r = ie_it e"
    by force
next
  have wf: "book_wf b" using assms(1) by (simp add: book_full_def)
  obtain r0 where r0: "r0 \<in> set (view b (ie_side e) (ie_price e))" "ro_node r0 = ie_it e"
    "ro_order_id r0 = i" using deref_live [OF wf assms(2)] by metis
  assume "s = ie_side e \<and> p = ie_price e \<and> ro_node r = ie_it e"
  with nodes_wf_unique [OF book_wfD(1) [OF wf] assms(3) r0(1)] r0 show "ro_order_id r = i" by auto
qed

lemma deref_spec_find:
  assumes "book_full b" and "matches (view b) L" and "order_index b i = Some e"
  obtains r where "deref e b = Some r" "spec_find i L = Some (strip (ie_price e) r)"
    "r \<in> set (view b (ie_side e) (ie_price e))"
proof -
  have wf: "book_wf b" using assms(1) by (simp add: book_full_def)
  obtain r where r: "deref e b = Some r" "r \<in> set (view b (ie_side e) (ie_price e))"
    "ro_node r = ie_it e" "ro_order_id r = i" using deref_live [OF wf assms(3)] by metis
  have "spec_find (so_id (strip (ie_price e) r)) L = Some (strip (ie_price e) r)"
    by (rule spec_find_eq [OF matchesD(1) [OF assms(2)] matches_mem [OF assms(2) r(2)]])
  with r that show ?thesis by simp
qed

section \<open>The primitives refine their specifications\<close>

lemma at_level_append: "at_level s p (L @ [x]) =
    (if so_side x = s \<and> so_price x = p then at_level s p L @ [x] else at_level s p L)"
  by (simp add: at_level_def)

lemma at_level_remove: "at_level s p (spec_remove i L) = filter (\<lambda>r. so_id r \<noteq> i) (at_level s p L)"
  by (simp add: at_level_def spec_remove_def conj_commute)

lemma at_level_update:
  assumes "\<And>r. so_side (g r) = so_side r" and "\<And>r. so_price (g r) = so_price r"
  shows "at_level s p (spec_update i g L) = map (\<lambda>r. if so_id r = i then g r else r) (at_level s p L)"
  using assms by (induction L) (auto simp: at_level_def spec_update_def)

lemma matches_add:
  assumes "matches Q L" and "o_order_id order \<notin> ids L"
  shows "matches (upd_queue (o_side order) (o_price order)
           (Q (o_side order) (o_price order) @ [new_node order n]) Q) (L @ [spec_entry order])"
proof -
  have "so_id (spec_entry order) = o_order_id order" "so_side (spec_entry order) = o_side order"
    "so_price (spec_entry order) = o_price order" by (simp_all add: spec_entry_def)
  then show ?thesis
    using assms by (auto simp: matches_def at_level_append strip_new_node)
qed

lemma matches_del:
  assumes "book_full b" and "matches (view b) L" and "order_index b i = Some e"
  shows "matches (upd_queue (ie_side e) (ie_price e)
           (filter (\<lambda>r. ro_node r \<noteq> ie_it e) (view b (ie_side e) (ie_price e))) (view b))
           (spec_remove i L)" (is "matches ?Q _")
proof -
  have "?Q s p = filter (\<lambda>r. ro_order_id r \<noteq> i) (view b s p)" for s p
  proof (cases "s = ie_side e \<and> p = ie_price e")
    case True
    then show ?thesis unfolding upd_queue_apply if_P [OF True]
      using node_iff_id [OF assms(1,3)] by (intro filter_cong) auto
  next
    case False
    then have "\<forall>r \<in> set (view b s p). ro_order_id r \<noteq> i" using node_iff_id [OF assms(1,3)] by blast
    then show ?thesis unfolding upd_queue_apply if_not_P [OF False] by simp
  qed
  then have "map (strip p) (?Q s p) = filter (\<lambda>r. so_id r \<noteq> i) (map (strip p) (view b s p))" for s p
    by (simp add: filter_map comp_def)
  moreover have "distinct (map so_id (spec_remove i L))"
    using matchesD(1) [OF assms(2)] by (simp add: spec_remove_def distinct_map_filter)
  ultimately show ?thesis
    by (simp only: matches_def at_level_remove matchesD(2) [OF assms(2)] simp_thms)
qed

lemma matches_update:
  assumes "book_full b" and "matches (view b) L" and "order_index b i = Some e"
    and "\<And>p r. strip p (f r) = g (strip p r)"
    and "\<And>r. so_side (g r) = so_side r" and "\<And>r. so_price (g r) = so_price r"
    and "distinct (map so_id (spec_update i g L))"
  shows "matches (upd_queue (ie_side e) (ie_price e)
           (map_node (ie_it e) f (view b (ie_side e) (ie_price e))) (view b)) (spec_update i g L)"
    (is "matches ?Q _")
proof -
  have "map (strip p) (?Q s p) = map (\<lambda>r. if so_id r = i then g r else r) (map (strip p) (view b s p))"
    for s p
    using node_iff_id [OF assms(1,3), of _ s p] assms(4) by (auto simp: upd_queue_def)
  then show ?thesis
    using assms(7) by (simp only: matches_def at_level_update [OF assms(5,6)] matchesD(2) [OF assms(2)] simp_thms)
qed

lemma spec_update_ids [simp]:
  "(\<And>r. so_id (g r) = so_id r) \<Longrightarrow> map so_id (spec_update i g L) = map so_id L"
  by (simp add: spec_update_def)

lemma spec_update_rename_distinct:
  assumes "distinct (map so_id L)" and "\<And>r. so_id (g r) = k" and "k = i \<or> k \<notin> ids L"
  shows "distinct (map so_id (spec_update i g L))"
proof -
  let ?h = "\<lambda>x. if x = i then k else x"
  have "map so_id (spec_update i g L) = map ?h (map so_id L)"
    using assms(2) by (simp add: spec_update_def)
  moreover have "inj_on ?h (set (map so_id L))"
    using assms(3) by (auto simp: inj_on_def)
  ultimately show ?thesis using assms(1) by (simp only: distinct_map [of ?h] simp_thms)
qed

lemma index_full_map:
  assumes "index_full Q I" and "\<And>r. ro_node (f r) = ro_node r" and "\<And>r. ro_order_id (f r) = ro_order_id r"
  shows "index_full (upd_queue s p (map_node n f (Q s p)) Q) I"
  unfolding index_full_def
proof (intro allI ballI)
  fix s' p' r
  assume r: "r \<in> set (upd_queue s p (map_node n f (Q s p)) Q s' p')"
  have "\<exists>r0 \<in> set (Q s' p'). ro_node r0 = ro_node r \<and> ro_order_id r0 = ro_order_id r"
  proof (cases "s' = s \<and> p' = p")
    case True
    with r obtain r0 where "r0 \<in> set (Q s p)" "r = (if ro_node r0 = n then f r0 else r0)" by auto
    with True assms(2,3) show ?thesis by auto
  next
    case False
    with r show ?thesis unfolding upd_queue_apply by (simp only: if_False) blast
  qed
  with assms(1) show "I (ro_order_id r) = Some \<lparr>ie_side = s', ie_price = p', ie_it = ro_node r\<rparr>"
    unfolding index_full_def by metis
qed

lemma index_full_rename:
  assumes "book_full b" and "order_index b i = Some e" and "k = i \<or> order_index b k = None"
    and "\<And>r. ro_node (f r) = ro_node r" and "\<And>r. ro_order_id (f r) = k"
  shows "index_full (upd_queue (ie_side e) (ie_price e)
           (map_node (ie_it e) f (view b (ie_side e) (ie_price e))) (view b))
           ((order_index b)(i := None, k \<mapsto> e))"
  unfolding index_full_def
proof (intro allI ballI)
  fix s p r
  assume r: "r \<in> set (upd_queue (ie_side e) (ie_price e)
      (map_node (ie_it e) f (view b (ie_side e) (ie_price e))) (view b) s p)"
  have "\<exists>r0 \<in> set (view b s p). r = (if ro_order_id r0 = i then f r0 else r0)"
    using r node_iff_id [OF assms(1,2), of _ s p] by (auto simp: upd_queue_def split: if_splits)
  then obtain r0 where r0: "r0 \<in> set (view b s p)" "r = (if ro_order_id r0 = i then f r0 else r0)"
    by blast
  note idx = index_of_resting [OF assms(1) r0(1)]
  show "((order_index b)(i := None, k \<mapsto> e)) (ro_order_id r) =
      Some \<lparr>ie_side = s, ie_price = p, ie_it = ro_node r\<rparr>"
  proof (cases "ro_order_id r0 = i")
    case True
    with idx assms(2) have "e = \<lparr>ie_side = s, ie_price = p, ie_it = ro_node r0\<rparr>" by simp
    with True r0(2) assms(4,5) show ?thesis by simp
  next
    case False
    with idx assms(3) have "ro_order_id r0 \<noteq> k" by auto
    with False idx r0(2) show ?thesis by simp
  qed
qed

section \<open>The simulation\<close>

text \<open>
  \<open>agrees\<close> relates the outcomes of an operation and of its specification: the lists match,
  the errors are equal and the rest of the book is unchanged.
\<close>

definition agrees ::
    "order_book \<Rightarrow> order_book \<times> book_error option \<Rightarrow> spec_order list \<times> book_error option \<Rightarrow> bool" where
  "agrees b r a \<longleftrightarrow> book_full (fst r) \<and> matches (view (fst r)) (fst a) \<and> snd r = snd a \<and>
     instrument_id (fst r) = instrument_id b \<and> sequence (fst r) = sequence b \<and>
     last_event_timestamp_ns (fst r) = last_event_timestamp_ns b"

lemma agrees_self: "book_full b \<Longrightarrow> matches (view b) L \<Longrightarrow> agrees b (b, e) (L, e)"
  by (simp add: agrees_def)

lemma book_full_wf [simp]: "book_full b \<Longrightarrow> book_wf b"
  by (simp add: book_full_def)

lemma spec_new_status [simp]: "spec_new (order\<lparr>o_status := s\<rparr>) L = spec_new order L"
  by (cases "o_order_id order \<in> ids L") (simp_all add: spec_new_def spec_entry_def)

lemma insert_new_agrees:
  assumes "book_full b" and "matches (view b) L"
  shows "agrees b (insert_new order b) (spec_new order L)"
proof (cases "order_index b (o_order_id order)")
  case None
  with ids_iff_index [OF assms] have fresh: "o_order_id order \<notin> ids L" by blast
  obtain b' where b': "insert_new order b = (b', None)"
    "view b' = upd_queue (o_side order) (o_price order)
       (view b (o_side order) (o_price order) @ [new_node order (next_node b)]) (view b)"
    "order_index b' = (order_index b)(o_order_id order \<mapsto>
       \<lparr>ie_side = o_side order, ie_price = o_price order, ie_it = next_node b\<rparr>)"
    "instrument_id b' = instrument_id b" "sequence b' = sequence b"
    "last_event_timestamp_ns b' = last_event_timestamp_ns b"
    using insert_new_effect [OF book_full_wf [OF assms(1)] None] by metis
  have "book_wf b'" using insert_new_good [of b order] b'(1) assms(1) by simp
  moreover have "index_full (view b') (order_index b')"
    using index_full_add [of "view b" "order_index b" "new_node order (next_node b)"] assms(1) None
    by (simp add: b' book_full_def)
  ultimately show ?thesis
    using b' matches_add [OF assms(2) fresh] fresh by (simp add: agrees_def book_full_def spec_new_def)
next
  case (Some e)
  with ids_iff_index [OF assms] have "o_order_id order \<in> ids L" by blast
  with Some assms show ?thesis by (simp add: insert_new_duplicate spec_new_def agrees_self)
qed

lemma remove_resting_agrees:
  assumes "book_full b" and "matches (view b) L" and "order_index b i = Some e"
  shows "agrees b (remove_resting i e b) (spec_remove i L, None)"
proof -
  obtain r where "deref e b = Some r" using deref_live [OF book_full_wf [OF assms(1)] assms(3)] by metis
  then obtain b' where b': "remove_resting i e b = (b', None)"
    "view b' = upd_queue (ie_side e) (ie_price e)
       (filter (\<lambda>r. ro_node r \<noteq> ie_it e) (view b (ie_side e) (ie_price e))) (view b)"
    "order_index b' = (order_index b)(i := None)" "instrument_id b' = instrument_id b"
    "sequence b' = sequence b" "last_event_timestamp_ns b' = last_event_timestamp_ns b"
    using remove_resting_effect [OF book_full_wf [OF assms(1)]] by metis
  have "book_wf b'" using remove_resting_good [OF book_full_wf [OF assms(1)] assms(3)] b'(1) by simp
  moreover have "index_full (view b') (order_index b')"
    using index_full_del [of "view b" "order_index b"] assms(1,3) by (simp add: b' book_full_def)
  ultimately show ?thesis
    using b' matches_del [OF assms] by (simp add: agrees_def book_full_def)
qed

lemma spec_remove_absent: "i \<notin> ids L \<Longrightarrow> spec_remove i L = L"
  unfolding spec_remove_def by (rule filter_True) auto

lemma cancel_agrees:
  assumes "book_full b" and "matches (view b) L"
  shows "agrees b (cancel i b) (spec_remove i L, None)"
proof (cases "order_index b i")
  case None
  with ids_iff_index [OF assms] have "spec_remove i L = L" by (intro spec_remove_absent) blast
  with None assms show ?thesis by (simp add: cancel_def agrees_self)
next
  case (Some e)
  then show ?thesis using remove_resting_agrees [OF assms] by (simp add: cancel_def)
qed

lemma agrees_trans:
  assumes "agrees b (b', None) (L', None)" and "agrees b' r a"
  shows "agrees b r a"
  using assms by (simp add: agrees_def)

lemma replace_agrees:
  assumes "book_full b" and "matches (view b) L"
    and fresh: "\<And>r. spec_find (o_orig_order_id order) L = Some r \<Longrightarrow> keeps_priority order r \<Longrightarrow>
      o_order_id order = o_orig_order_id order \<or> o_order_id order \<notin> ids L"
  shows "agrees b (replace order b) (spec_replace order L)"
proof (cases "order_index b (o_orig_order_id order)")
  case None
  with ids_iff_index [OF assms(1,2)] have "spec_find (o_orig_order_id order) L = None"
    by (simp add: spec_find_None)
  with None assms show ?thesis by (simp add: replace_def spec_replace_def agrees_self)
next
  case (Some e)
  let ?i = "o_orig_order_id order" and ?k = "o_order_id order"
  let ?f = "\<lambda>r. r\<lparr>ro_qty := o_qty order, ro_order_id := ?k\<rparr>"
  let ?g = "\<lambda>r. r\<lparr>so_qty := o_qty order, so_id := ?k\<rparr>"
  have wf: "book_wf b" using assms(1) by simp
  obtain r where r: "deref e b = Some r" "spec_find ?i L = Some (strip (ie_price e) r)"
    using deref_spec_find [OF assms(1,2) Some] by metis
  show ?thesis
  proof (cases "keeps_priority order (strip (ie_price e) r)")
    case True
    have k: "?k = ?i \<or> ?k \<notin> ids L" using fresh [OF r(2) True] .
    then have kI: "?k = ?i \<or> order_index b ?k = None" using ids_iff_index [OF assms(1,2)] by blast
    define b' where "b' = assign_node e ?f b\<lparr>order_index := (order_index b)(?i := None, ?k \<mapsto> e)\<rparr>"
    have "book_wf b'" unfolding b'_def by (rule assign_rename_wf [OF wf Some])
    moreover have "index_full (view b') (order_index b')"
      using index_full_rename [OF assms(1) Some kI, of ?f] by (simp add: b'_def assign_node_effect [OF wf r(1)])
    moreover have "matches (view b') (spec_update ?i ?g L)"
      using matches_update [OF assms(1,2) Some, of ?f ?g]
        spec_update_rename_distinct [OF matchesD(1) [OF assms(2)] _ k, of ?g]
      by (simp add: b'_def assign_node_effect [OF wf r(1)] strip_def)
    moreover have "replace order b = (b', None)"
      using True Some r(1) by (simp add: replace_def keeps_priority_def b'_def)
    ultimately show ?thesis
      using True r(2) by (simp add: agrees_def book_full_def spec_replace_def b'_def
          assign_node_effect [OF wf r(1)])
  next
    case False
    then have moves: "o_price order \<noteq> ie_price e \<or> ro_qty r < o_qty order"
      by (auto simp: keeps_priority_def)
    note rem = remove_resting_agrees [OF assms(1,2) Some]
    obtain b1 where b1: "remove_resting ?i e b = (b1, None)" using remove_resting_effect [OF wf r(1)] by metis
    have "agrees b1 (insert_new (order\<lparr>o_status := KNew\<rparr>) b1)
        (spec_new (order\<lparr>o_status := KNew\<rparr>) (spec_remove ?i L))"
      using rem b1 by (intro insert_new_agrees) (simp_all add: agrees_def)
    with rem b1 have "agrees b (insert_new (order\<lparr>o_status := KNew\<rparr>) b1) (spec_new order (spec_remove ?i L))"
      by (metis agrees_trans spec_new_status)
    moreover have "replace order b = insert_new (order\<lparr>o_status := KNew\<rparr>) b1"
      using moves Some r(1) b1 by (simp add: replace_def Let_def)
    ultimately show ?thesis using False r(2) by (simp add: spec_replace_def)
  qed
qed

lemma assign_qty_agrees:
  assumes "book_full b" and "matches (view b) L" and "order_index b i = Some e"
  shows "agrees b (assign_node e (\<lambda>r. r\<lparr>ro_qty := q\<rparr>) b, None)
           (spec_update i (\<lambda>r. r\<lparr>so_qty := q\<rparr>) L, None)"
proof -
  have wf: "book_wf b" using assms(1) by simp
  obtain r where r: "deref e b = Some r" using deref_live [OF wf assms(3)] by metis
  show ?thesis
    using assign_qty_wf [OF wf r] matchesD(1) [OF assms(2)] assms(1)
      index_full_map [of "view b" "order_index b" "\<lambda>r. r\<lparr>ro_qty := q\<rparr>"]
      matches_update [OF assms, of "\<lambda>r. r\<lparr>ro_qty := q\<rparr>" "\<lambda>r. r\<lparr>so_qty := q\<rparr>"]
    by (simp add: agrees_def book_full_def assign_node_effect [OF wf r] strip_def)
qed

lemma spec_remove_update:
  "(\<And>r. so_id (g r) = so_id r) \<Longrightarrow> spec_remove i (spec_update i g L) = spec_remove i L"
  by (induction L) (auto simp: spec_remove_def spec_update_def)

text \<open>The body of the execution overload, after the instrument check and the stamp.\<close>

definition fill :: "execution \<Rightarrow> order_book \<Rightarrow> order_book \<times> book_error option" where
  "fill x b =
     (case order_index b (x_order_id x) of
        None \<Rightarrow> (b, Some (Execution_Not_Resting (x_order_id x)))
      | Some entry \<Rightarrow>
          (case deref entry b of
             None \<Rightarrow> (b, Some Dangling_Iterator)
           | Some resting \<Rightarrow>
               if ro_qty resting < x_qty x
               then (b, Some (Overfill (x_qty x) (ro_qty resting) (x_order_id x)))
               else
                 let left = ro_qty resting - x_qty x;
                     b1 = assign_node entry (\<lambda>r. r\<lparr>ro_qty := left\<rparr>) b
                 in if left = 0 then remove_resting (x_order_id x) entry b1 else (b1, None)))"

lemma apply_execution_fill:
  "x_instrument_id x = instrument_id b \<Longrightarrow>
   apply_execution x b = fill x (stamp (x_timestamp_ns x) b)"
  by (simp add: apply_execution_def fill_def Let_def)

lemma fill_agrees:
  assumes "book_full b" and "matches (view b) L"
  shows "agrees b (fill x b) (spec_fill x L)"
proof (cases "order_index b (x_order_id x)")
  case None
  with ids_iff_index [OF assms] have "spec_find (x_order_id x) L = None" by (simp add: spec_find_None)
  with None assms show ?thesis by (simp add: fill_def spec_fill_def agrees_self)
next
  case (Some e)
  let ?i = "x_order_id x"
  obtain r where r: "deref e b = Some r" "spec_find ?i L = Some (strip (ie_price e) r)"
    using deref_spec_find [OF assms Some] by metis
  define left where "left = ro_qty r - x_qty x"
  define b1 where "b1 = assign_node e (\<lambda>r. r\<lparr>ro_qty := left\<rparr>) b"
  define L1 where "L1 = spec_update ?i (\<lambda>r. r\<lparr>so_qty := left\<rparr>) L"
  have upd: "agrees b (b1, None) (L1, None)"
    unfolding b1_def L1_def by (rule assign_qty_agrees [OF assms Some])
  have "order_index b1 ?i = Some e"
    using Some assign_node_effect(2) [OF book_full_wf [OF assms(1)] r(1)] by (simp add: b1_def)
  moreover have "spec_remove ?i L1 = spec_remove ?i L"
    unfolding L1_def by (rule spec_remove_update) simp
  ultimately have rem: "agrees b (remove_resting ?i e b1) (spec_remove ?i L, None)"
    using upd remove_resting_agrees [of b1 L1 ?i e] agrees_trans [OF upd] by (simp add: agrees_def)
  have code: "fill x b = (if ro_qty r < x_qty x then (b, Some (Overfill (x_qty x) (ro_qty r) ?i))
      else if left = 0 then remove_resting ?i e b1 else (b1, None))"
    using Some r(1) by (simp only: fill_def option.case Let_def b1_def left_def)
  have eq: "left = so_qty (strip (ie_price e) r) - x_qty x" by (simp add: left_def)
  have upd_eq: "spec_update ?i (\<lambda>r. r\<lparr>so_qty := so_qty r - x_qty x\<rparr>) L = L1"
    unfolding L1_def spec_update_def eq
    using r(2) matchesD(1) [OF assms(2)] spec_find_eq [OF matchesD(1) [OF assms(2)]]
    by (intro map_cong) force+
  show ?thesis
    unfolding code spec_fill_def r(2) option.case upd_eq
    using assms upd rem by (simp add: agrees_self left_def)
qed

lemma orders_step_agrees:
  assumes "book_full b" and "matches (view b) (sb_orders S)" and "rename_fresh (OrderEvent order) S"
    and "o_instrument_id order = instrument_id b" and "instrument_id b = sb_instrument S"
  shows "agrees (stamp (o_timestamp_ns order) b) (apply_order order b)
           (spec_orders_step (OrderEvent order) (sb_orders S))"
proof -
  let ?b = "stamp (o_timestamp_ns order) b"
  have b: "book_full ?b" "matches (view ?b) (sb_orders S)" using assms by simp_all
  show ?thesis
  proof (cases "o_status order")
    case KNew
    then show ?thesis using insert_new_agrees [OF b] assms(4) by (simp add: apply_order_def Let_def)
  next
    case KCancelled
    then show ?thesis using cancel_agrees [OF b] assms(4) by (simp add: apply_order_def Let_def)
  next
    case KReplaced
    then show ?thesis using replace_agrees [OF b, of order] assms(3-5)
      by (force simp: apply_order_def Let_def)
  qed
qed

lemma refines_step:
  assumes "refines b S" and "rename_fresh e S"
  shows "refines (fst (apply_event e b)) (fst (spec_apply e S))"
    and "snd (apply_event e b) = snd (spec_apply e S)"
proof -
  note R = assms(1) [unfolded refines_def]
  have "refines (fst (apply_event e b)) (fst (spec_apply e S)) \<and>
    snd (apply_event e b) = snd (spec_apply e S)"
  proof (cases "instrument_id_of e = sb_instrument S")
    case False
    with R assms(1) show ?thesis by (cases e) (auto simp: spec_apply_def apply_order_def apply_execution_def)
  next
    case True
    have ag: "agrees (stamp (timestamp_of e) b) (apply_event e b) (spec_orders_step e (sb_orders S))"
    proof (cases e)
      case (OrderEvent order)
      with True R assms(2) show ?thesis using orders_step_agrees [of b S order] by simp
    next
      case (ExecutionEvent x)
      with True R show ?thesis
        using fill_agrees [of "stamp (x_timestamp_ns x) b" "sb_orders S" x]
        by (simp add: apply_execution_fill)
    qed
    have "sequence (stamp (timestamp_of e) b) = sb_sequence S + 1"
      "last_event_timestamp_ns (stamp (timestamp_of e) b) = timestamp_of e"
      using R by (simp_all add: stamp_def)
    moreover obtain L err where "spec_orders_step e (sb_orders S) = (L, err)" by fastforce
    ultimately show ?thesis
      using True ag R by (simp add: agrees_def refines_def spec_apply_def)
  qed
  then show "refines (fst (apply_event e b)) (fst (spec_apply e S))"
    and "snd (apply_event e b) = snd (spec_apply e S)" by simp_all
qed

lemma refines_empty: "refines (empty_book i) (spec_empty i)"
  by (simp add: refines_def spec_empty_def matches_def at_level_def)
    (simp add: empty_book_def)

lemma refines_run:
  "refines b S \<Longrightarrow> renames_fresh es S \<Longrightarrow> refines (run_book es b) (spec_run es S)"
proof (induction es arbitrary: b S)
  case (Cons e es)
  then show ?case using refines_step(1) [of b S e] by (simp add: run_book_Cons spec_run_def)
qed (simp add: spec_run_def)

end
