(* ===== verification/Book_Priority.thy ===== *)
theory Book_Priority
  imports Book_Spec
begin

text \<open>
  Time priority.  \<open>queue_step\<close> is what any operation may do to the queues: append a node at
  the next free address, drop the node at an address, or rewrite a node in place.  Every
  event of \<open>order_book.cpp\<close> is a sequence of such steps (\<open>apply_event_steps\<close>), so an
  invariant of the steps is an invariant of the book.
\<close>

inductive queue_step :: "queues \<times> nat \<Rightarrow> queues \<times> nat \<Rightarrow> bool" where
  append: "ro_node x = n \<Longrightarrow> queue_step (Q, n) (upd_queue s p (Q s p @ [x]) Q, Suc n)"
| drop: "queue_step (Q, n) (upd_queue s p (filter (\<lambda>r. ro_node r \<noteq> k) (Q s p)) Q, n)"
| rewrite: "(\<And>r. ro_node (f r) = ro_node r) \<Longrightarrow>
    queue_step (Q, n) (upd_queue s p (map_node k f (Q s p)) Q, n)"

inductive_cases queue_stepE: "queue_step (Q, n) c"

abbreviation queue_steps :: "order_book \<Rightarrow> order_book \<Rightarrow> bool" where
  "queue_steps b b' \<equiv> queue_step\<^sup>*\<^sup>* (view b, next_node b) (view b', next_node b')"

lemma insert_new_steps:
  assumes "book_wf b" shows "queue_steps b (fst (insert_new order b))"
proof (cases "order_index b (o_order_id order)")
  case None
  obtain b' where b': "insert_new order b = (b', None)"
    "view b' = upd_queue (o_side order) (o_price order)
       (view b (o_side order) (o_price order) @ [new_node order (next_node b)]) (view b)"
    "next_node b' = Suc (next_node b)"
    using insert_new_effect [OF assms None] by metis
  show ?thesis unfolding b'(1) fst_conv b'(2,3) by (rule r_into_rtranclp, rule append) simp
qed (simp add: insert_new_duplicate)

lemma remove_resting_steps:
  assumes "book_wf b" and "order_index b i = Some e"
  shows "queue_steps b (fst (remove_resting i e b))"
proof -
  obtain r where "deref e b = Some r" by (rule deref_live [OF assms])
  then obtain b' where b': "remove_resting i e b = (b', None)"
    "view b' = upd_queue (ie_side e) (ie_price e)
       (filter (\<lambda>r. ro_node r \<noteq> ie_it e) (view b (ie_side e) (ie_price e))) (view b)"
    "next_node b' = next_node b"
    using remove_resting_effect [OF assms(1)] by metis
  show ?thesis unfolding b'(1) fst_conv b'(2,3) by (rule r_into_rtranclp, rule drop)
qed

lemma assign_node_steps:
  assumes "book_wf b" and "deref e b = Some r" and "\<And>r. ro_node (f r) = ro_node r"
  shows "queue_steps b (assign_node e f b)"
  unfolding assign_node_effect [OF assms(1,2)] by (rule r_into_rtranclp, rule rewrite) (rule assms(3))

lemma replace_steps:
  assumes "book_wf b" shows "queue_steps b (fst (replace order b))"
proof (cases "order_index b (o_orig_order_id order)")
  case (Some e)
  obtain r where r: "deref e b = Some r" by (rule deref_live [OF assms Some])
  obtain b1 where b1: "remove_resting (o_orig_order_id order) e b = (b1, None)"
    using remove_resting_effect [OF assms r] by metis
  have "book_wf b1" and "queue_steps b b1"
    using remove_resting_good [OF assms Some] remove_resting_steps [OF assms Some] b1 by simp_all
  then have "queue_steps b (fst (insert_new (order\<lparr>o_status := KNew\<rparr>) b1))"
    using insert_new_steps rtranclp_trans by metis
  moreover have "queue_steps b (assign_node e (\<lambda>r. r\<lparr>ro_qty := o_qty order, ro_order_id := o_order_id order\<rparr>) b)"
    by (rule assign_node_steps [OF assms r]) simp
  ultimately show ?thesis
    using Some r b1 by (simp add: replace_def Let_def)
qed (simp add: replace_def)

lemma fill_steps:
  assumes "book_wf b" shows "queue_steps b (fst (fill x b))"
proof (cases "order_index b (x_order_id x)")
  case (Some e)
  obtain r where r: "deref e b = Some r" by (rule deref_live [OF assms Some])
  define b1 where "b1 = assign_node e (\<lambda>s. s\<lparr>ro_qty := ro_qty r - x_qty x\<rparr>) b"
  have wf: "book_wf b1" unfolding b1_def by (rule assign_qty_wf [OF assms r])
  have s1: "queue_steps b b1" unfolding b1_def by (rule assign_node_steps [OF assms r]) simp
  have "order_index b1 (x_order_id x) = Some e"
    using Some assign_node_effect(2) [OF assms r] by (simp add: b1_def)
  then have "queue_steps b (fst (remove_resting (x_order_id x) e b1))"
    using s1 remove_resting_steps [OF wf] rtranclp_trans by metis
  with s1 show ?thesis
    unfolding fill_def Some option.case r Let_def b1_def [symmetric] by simp
qed (simp add: fill_def)

lemma apply_event_steps:
  assumes "book_wf b" shows "queue_steps b (fst (apply_event e b))"
proof (cases e)
  case (OrderEvent order)
  let ?b = "stamp (o_timestamp_ns order) b"
  have wf: "book_wf ?b" using assms by simp
  have "queue_steps ?b (fst (cancel (o_orig_order_id order) ?b))"
    using remove_resting_steps [OF wf] by (simp add: cancel_def split: option.split)
  with insert_new_steps [OF wf] replace_steps [OF wf] show ?thesis
    by (cases "o_status order") (simp_all add: OrderEvent apply_order_def Let_def)
next
  case (ExecutionEvent x)
  have "queue_steps (stamp (x_timestamp_ns x) b) (fst (fill x (stamp (x_timestamp_ns x) b)))"
    using assms by (intro fill_steps) simp
  then show ?thesis
    by (cases "x_instrument_id x = instrument_id b")
      (simp_all add: ExecutionEvent apply_execution_fill, simp add: apply_execution_def)
qed

section \<open>Queues are in order of arrival\<close>

definition in_arrival_order :: "queues \<times> nat \<Rightarrow> bool" where
  "in_arrival_order c \<longleftrightarrow> (\<forall>s p. sorted_wrt (<) (map ro_node (fst c s p)) \<and>
     (\<forall>r \<in> set (fst c s p). ro_node r < snd c))"

lemma arrival_step: "queue_step c c' \<Longrightarrow> in_arrival_order c \<Longrightarrow> in_arrival_order c'"
proof (induction rule: queue_step.induct)
  case (append x n Q s p)
  then show ?case by (auto simp: in_arrival_order_def sorted_wrt_append less_SucI)
next
  case (drop Q n s p k)
  then show ?case by (auto simp: in_arrival_order_def sorted_wrt_map intro!: sorted_wrt_filter)
next
  case (rewrite f Q n s p k)
  have nodes: "map ro_node (map_node k f q) = map ro_node q" for q
    by (rule map_node_nodes) (rule rewrite(1))
  have "sorted_wrt (<) (map ro_node (upd_queue s p (map_node k f (Q s p)) Q s' p'))" for s' p'
    using rewrite(2) nodes by (simp add: in_arrival_order_def del: map_map)
  moreover have "ro_node ` set (map_node k f q) = ro_node ` set q" for q
    using nodes [of q] by (metis list.set_map)
  then have "\<forall>r \<in> set (map_node k f (Q s p)). ro_node r < n"
    using rewrite(2) unfolding in_arrival_order_def by (metis (no_types, lifting) image_iff fst_conv snd_conv)
  ultimately show ?case using rewrite(2) by (auto simp: in_arrival_order_def simp del: set_map)
qed

lemma arrival_steps: "queue_step\<^sup>*\<^sup>* c c' \<Longrightarrow> in_arrival_order c \<Longrightarrow> in_arrival_order c'"
  by (induction rule: rtranclp_induct) (auto intro: arrival_step)

lemma run_book_arrival:
  "book_wf b \<Longrightarrow> in_arrival_order (view b, next_node b) \<Longrightarrow>
   in_arrival_order (view (run_book es b), next_node (run_book es b))"
proof (induction es arbitrary: b)
  case (Cons e es)
  then show ?case
    using apply_event_good [of b e] arrival_steps [OF apply_event_steps [of b e]]
    by (simp add: run_book_Cons good_outcome_def)
qed simp

end
