(* ===== verification/Book_Properties.thy ===== *)
theory Book_Properties
  imports Book_Priority
begin

text \<open>
  The properties of the order book, each for every run of events from an empty book, and the
  two places where a replacement breaks the book's bookkeeping.
\<close>

section \<open>Queries and snapshots of a well-formed book\<close>

definition resting_prices :: "side \<Rightarrow> order_book \<Rightarrow> double set" where
  "resting_prices s b = {p. queue_at s p b \<noteq> []}"

lemma keys_resting: "levels_wf lv \<Longrightarrow> fst ` set lv = {p. queue_in lv p \<noteq> []}"
proof -
  assume wf: "levels_wf lv"
  then have "sorted_keys lv" by (simp add: levels_wf_def)
  from omap.keys_lookup [OF this] show ?thesis using level_iff_queue [OF wf] by auto
qed

lemma resting_prices_keys: "book_wf b \<Longrightarrow> resting_prices s b = fst ` set (levels_for s b)"
  by (simp add: resting_prices_def keys_resting)

lemma resting_prices_empty: "book_wf b \<Longrightarrow> resting_prices s b = {} \<longleftrightarrow> levels_for s b = []"
  by (simp add: resting_prices_keys)

lemma book_wf_sorted: "book_wf b \<Longrightarrow> sorted_keys (levels_for s b)"
  using book_wf_levels by (simp add: levels_wf_def)

lemma best_price_eq:
  assumes "book_wf b"
  shows "best_price KBuy b = (if resting_prices KBuy b = {} then None else Some (Max (resting_prices KBuy b)))"
    and "best_price KSell b = (if resting_prices KSell b = {} then None else Some (Min (resting_prices KSell b)))"
proof -
  note sorted = book_wf_sorted [OF assms]
  have Max: "Max (fst ` set (bids b)) = fst (last (bids b))" if "bids b \<noteq> []"
    using that sorted_keys_last [OF sorted [of KBuy]] by (intro Max_eqI) auto
  have Min: "Min (fst ` set (asks b)) = fst (hd (asks b))" if "asks b \<noteq> []"
    using that sorted_keys_hd [OF sorted [of KSell]] by (intro Min_eqI) auto
  show "best_price KBuy b = (if resting_prices KBuy b = {} then None else Some (Max (resting_prices KBuy b)))"
    using Max resting_prices_keys [OF assms, of KBuy] by (simp add: best_price_def)
  show "best_price KSell b = (if resting_prices KSell b = {} then None else Some (Min (resting_prices KSell b)))"
    using Min resting_prices_keys [OF assms, of KSell] by (simp add: best_price_def)
qed

lemma qty_at_price_queue: "qty_at_price s p b = sum_list (map ro_qty (queue_at s p b))"
  by (simp add: qty_at_price_def queue_in_def split: option.split)

lemma order_count_queue: "order_count_at_price s p b = length (queue_at s p b)"
  by (simp add: order_count_at_price_def queue_in_def split: option.split)

definition summary :: "resting_order \<Rightarrow> resting_order_summary" where
  "summary r = \<lparr>su_order_id = ro_order_id r, su_account_id = ro_account_id r, su_qty = ro_qty r\<rparr>"

lemma foldl_qty: "foldl (\<lambda>t r. t + ro_qty r) a q = a + sum_list (map ro_qty q)"
  by (induction q arbitrary: a) simp_all

lemma level_summary_eq:
  "level_summary p q = \<lparr>pl_price = p, pl_total_qty = sum_list (map ro_qty q), pl_orders = map summary q\<rparr>"
  by (simp add: level_summary_def foldl_qty summary_def)

text \<open>The levels of a snapshot, given the prices in display order.\<close>

definition level_at :: "side \<Rightarrow> order_book \<Rightarrow> double \<Rightarrow> price_level" where
  "level_at s b p = \<lparr>pl_price = p, pl_total_qty = qty_at_price s p b,
     pl_orders = map summary (queue_at s p b)\<rparr>"

lemma levels_by_price:
  assumes "book_wf b"
  shows "map (\<lambda>(p, q). level_summary p q) (levels_for s b) = map (level_at s b) (map fst (levels_for s b))"
proof -
  have "queue_at s p b = q" if "(p, q) \<in> set (levels_for s b)" for p q
    using that sorted_keys_map_of [OF book_wf_sorted [OF assms], of p q] by (simp add: queue_in_def)
  then show ?thesis by (auto simp: level_summary_eq level_at_def qty_at_price_queue)
qed

lemma keys_are_sorted_prices:
  assumes "book_wf b"
  shows "map fst (levels_for s b) = sorted_list_of_set (resting_prices s b)"
proof -
  have "sorted_wrt (<) (map fst (levels_for s b))"
    using book_wf_sorted [OF assms] by (simp add: sorted_keys_def)
  then have "sorted (map fst (levels_for s b))" "distinct (map fst (levels_for s b))"
    by (simp_all add: strict_sorted_iff)
  then show ?thesis
    using resting_prices_keys [OF assms] sorted_list_of_set.idem_if_sorted_distinct by (metis list.set_map)
qed

lemma snapshot_eq:
  assumes "book_wf b"
  shows "snapshot b = \<lparr>ds_instrument_id = instrument_id b, ds_sequence = sequence b,
      ds_last_event_timestamp_ns = last_event_timestamp_ns b,
      ds_bids = map (level_at KBuy b) (rev (sorted_list_of_set (resting_prices KBuy b))),
      ds_asks = map (level_at KSell b) (sorted_list_of_set (resting_prices KSell b))\<rparr>"
  using levels_by_price [OF assms] keys_are_sorted_prices [OF assms, symmetric]
  by (simp add: snapshot_def levels_for.simps [symmetric] rev_map [symmetric] del: levels_for.simps)

section \<open>Executions and quantities\<close>

lemma sum_map_node:
  assumes "distinct (map ro_node q)" and "r \<in> set q" and "ro_node r = k"
  shows "sum_list (map ro_qty (map_node k (\<lambda>s. s\<lparr>ro_qty := v\<rparr>) q)) = sum_list (map ro_qty q) - ro_qty r + v"
  using assms
proof (induction q)
  case (Cons a q)
  show ?case
  proof (cases "ro_node a = k")
    case True
    with Cons.prems have "a = r" by (auto simp: image_iff)
    moreover have "map_node k (\<lambda>s. s\<lparr>ro_qty := v\<rparr>) q = q"
      using Cons.prems(1) True by (intro map_idI) (auto simp: image_iff)
    ultimately show ?thesis using True by simp
  next
    case False
    with Cons show ?thesis by auto
  qed
qed simp

lemma sum_drop_node:
  assumes "distinct (map ro_node q)" and "r \<in> set q" and "ro_node r = k"
  shows "sum_list (map ro_qty (filter (\<lambda>s. ro_node s \<noteq> k) q)) = sum_list (map ro_qty q) - ro_qty r"
  using assms
proof (induction q)
  case (Cons a q)
  show ?case
  proof (cases "ro_node a = k")
    case True
    with Cons.prems have "a = r" by (auto simp: image_iff)
    moreover have "filter (\<lambda>s. ro_node s \<noteq> k) q = q"
      using Cons.prems(1) True by (intro filter_True) (auto simp: image_iff)
    ultimately show ?thesis using True by simp
  next
    case False
    with Cons show ?thesis by auto
  qed
qed simp

lemma fill_quantity:
  assumes wf: "book_wf b" and "order_index b (x_order_id x) = Some e" and "deref e b = Some r"
    and "x_qty x \<le> ro_qty r"
  shows "qty_at_price s p (fst (fill x b)) =
    qty_at_price s p b - (if s = ie_side e \<and> p = ie_price e then x_qty x else 0)"
proof -
  let ?q = "view b (ie_side e) (ie_price e)"
  from deref_live [OF wf assms(2)] assms(3) have r: "r \<in> set ?q" "ro_node r = ie_it e" by auto
  have dist: "distinct (map ro_node ?q)" using nodes_wfD(1) [OF book_wfD(1) [OF wf]] .
  define left where "left = ro_qty r - x_qty x"
  define f :: "resting_order \<Rightarrow> resting_order" where "f = (\<lambda>s. s\<lparr>ro_qty := left\<rparr>)"
  define b1 where "b1 = assign_node e f b"
  note eff = assign_node_effect [OF wf assms(3), where f = f, folded b1_def]
  have wf1: "book_wf b1" unfolding b1_def f_def by (rule assign_qty_wf [OF wf assms(3)])
  have r1: "f r \<in> set (map_node (ie_it e) f ?q)" "ro_node (f r) = ie_it e"
    using r map_node_mem [OF r(1), of "ie_it e" f] by (simp_all add: f_def)
  then have d1: "deref e b1 = Some (f r)" using deref_eq [OF wf1] eff(1) by simp
  obtain b2 where b2: "remove_resting (x_order_id x) e b1 = (b2, None)"
    "view b2 = upd_queue (ie_side e) (ie_price e)
       (filter (\<lambda>r. ro_node r \<noteq> ie_it e) (view b1 (ie_side e) (ie_price e))) (view b1)"
    using remove_resting_effect [OF wf1 d1] by metis
  have "map ro_node (map_node (ie_it e) f ?q) = map ro_node ?q" by (rule map_node_nodes) (simp add: f_def)
  then have dist1: "distinct (map ro_node (map_node (ie_it e) f ?q))" using dist by metis
  have code: "fill x b = (if left = 0 then (b2, None) else (b1, None))"
    using assms(4) b2(1) unfolding fill_def assms(2,3) option.case Let_def
      left_def [symmetric] f_def [symmetric] b1_def [symmetric] by simp
  have sum1: "sum_list (map ro_qty (map_node (ie_it e) f ?q)) = sum_list (map ro_qty ?q) - x_qty x"
    using sum_map_node [OF dist r, of left, folded f_def] by (simp add: left_def del: map_map)
  have sum2: "sum_list (map ro_qty (filter (\<lambda>s. ro_node s \<noteq> ie_it e) (map_node (ie_it e) f ?q))) =
      sum_list (map ro_qty ?q) - x_qty x - left"
    using sum_drop_node [OF dist1 r1] sum1 by (simp del: map_map) (simp add: f_def)
  show ?thesis
    unfolding code qty_at_price_queue view_queue using sum1 sum2
    by (auto simp: b2(2) eff(1) simp del: map_map)
qed

section \<open>Properties\<close>

definition plain_order :: "string \<Rightarrow> string \<Rightarrow> side \<Rightarrow> double \<Rightarrow> int \<Rightarrow> order_status \<Rightarrow> string \<Rightarrow> event" where
  "plain_order oid instr sd p q st orig =
     OrderEvent (default_order\<lparr>o_order_id := oid, o_instrument_id := instr, o_side := sd,
       o_price := p, o_qty := q, o_status := st, o_orig_order_id := orig\<rparr>)"

definition plain_fill :: "string \<Rightarrow> string \<Rightarrow> int \<Rightarrow> event" where
  "plain_fill oid instr q =
     ExecutionEvent (default_execution\<lparr>x_order_id := oid, x_instrument_id := instr, x_qty := q\<rparr>)"

lemmas book_eval = run_book_def apply_order_def apply_execution_def insert_new_def remove_resting_def
  cancel_def replace_def stamp_def empty_book_def queue_in_def deref_def assign_node_def
  plain_order_def plain_fill_def default_order_def default_execution_def

lemmas spec_eval = spec_run_def spec_apply_def spec_new_def spec_replace_def spec_fill_def
  spec_remove_def spec_update_def spec_find_def spec_entry_def spec_empty_def keeps_priority_def
  plain_order_def plain_fill_def default_order_def default_execution_def

definition demo_events :: "event list" where
  "demo_events =
     [plain_order ''A'' ''ES'' KBuy 100 10 KNew '''', plain_order ''B'' ''ES'' KBuy 100 5 KNew '''',
      plain_order ''C'' ''ES'' KSell 101 7 KNew '''', plain_fill ''A'' ''ES'' 4,
      plain_order ''A2'' ''ES'' KBuy 100 3 KReplaced ''A'',
      plain_order ''B2'' ''ES'' KBuy 99 5 KReplaced ''B'', plain_order ''X'' ''ES'' KSell 0 0 KCancelled ''C'']"

text \<open>
  C1: refinement.  After any run of events in which no in-place replacement takes the id of
  another resting order, the book of \<open>order_book.cpp\<close> holds exactly the orders of the abstract
  price-time-priority book, level by level and in the same order, with the same sequence number
  and last timestamp, and it accepts or rejects each further such event with the same
  exception.
\<close>

theorem book_refines_spec:
  assumes "renames_fresh es (spec_empty i)"
  shows "refines (run_book es (empty_book i)) (spec_run es (spec_empty i)) \<and>
    (\<forall>e. rename_fresh e (spec_run es (spec_empty i)) \<longrightarrow>
       snd (apply_event e (run_book es (empty_book i))) = snd (spec_apply e (spec_run es (spec_empty i))))"
  using refines_run [OF refines_empty assms] refines_step(2) by blast

theorem book_refines_spec_witness:
  "refines (run_book demo_events (empty_book ''ES'')) (spec_run demo_events (spec_empty ''ES'')) \<and>
   map so_id (sb_orders (spec_run demo_events (spec_empty ''ES''))) = [''A2'', ''B2'']"
  using book_refines_spec [of demo_events "''ES''"] by (simp add: demo_events_def spec_eval)

text \<open>
  C13: memory safety.  Whatever events an empty book has been fed, in any order and with any ids,
  the representation invariant holds, and applying one more event never dereferences a dangling
  list iterator, although exceptions have left some of the earlier events half applied.
\<close>

theorem book_iterators_live:
  "book_wf (run_book es (empty_book i)) \<and>
   snd (apply_event e (run_book es (empty_book i))) \<noteq> Some Dangling_Iterator"
  using apply_event_good [OF run_book_wf] by (simp add: good_outcome_def run_book_wf)

text \<open>
  C26: time priority.  List nodes are numbered in the order they were created, so a queue whose
  numbers ascend is in order of arrival.  After any run of events every queue is, and no
  order of it was created later than the book's node counter.
\<close>

theorem book_time_priority:
  "sorted_wrt (<) (map ro_node (queue_at s p (run_book es (empty_book i))) @ [next_node (run_book es (empty_book i))])"
  using run_book_arrival [of "empty_book i" es]
  by (simp add: in_arrival_order_def view_queue sorted_wrt_append)

text \<open>
  Best prices.  After any run of events the best bid is the greatest price at which a buy
  order rests and the best ask the least price at which a sell order rests, and there is none
  exactly when that side has no resting order.
\<close>

theorem book_best_price:
  "best_price KBuy (run_book es (empty_book i)) =
     (if resting_prices KBuy (run_book es (empty_book i)) = {} then None
      else Some (Max (resting_prices KBuy (run_book es (empty_book i))))) \<and>
   best_price KSell (run_book es (empty_book i)) =
     (if resting_prices KSell (run_book es (empty_book i)) = {} then None
      else Some (Min (resting_prices KSell (run_book es (empty_book i)))))"
  using best_price_eq [OF run_book_wf] by simp

text \<open>
  Snapshots.  After any run of events a snapshot lists the bids at exactly the prices with
  resting buy orders, best (greatest) first, the asks at exactly those with resting sell orders,
  best (least) first, and gives for each level the price, the quantity and the orders the book
  has there, in queue order.
\<close>

theorem book_snapshot:
  "snapshot (run_book es (empty_book i)) =
     (let b = run_book es (empty_book i)
      in \<lparr>ds_instrument_id = instrument_id b, ds_sequence = sequence b,
          ds_last_event_timestamp_ns = last_event_timestamp_ns b,
          ds_bids = map (level_at KBuy b) (rev (sorted_list_of_set (resting_prices KBuy b))),
          ds_asks = map (level_at KSell b) (sorted_list_of_set (resting_prices KSell b))\<rparr>)"
  unfolding Let_def by (rule snapshot_eq) (simp add: run_book_wf)

text \<open>
  Executions.  An execution that a book accepts takes its quantity from the one level where
  the filled order rests, named by the book's index and not by the execution's own side and
  price, and changes the quantity at no other side or price.
\<close>

theorem execution_quantity:
  assumes "apply_execution x (run_book es (empty_book i)) = (b', None)"
  shows "\<exists>e. order_index (run_book es (empty_book i)) (x_order_id x) = Some e \<and>
    (\<forall>s p. qty_at_price s p b' = qty_at_price s p (run_book es (empty_book i)) -
       (if s = ie_side e \<and> p = ie_price e then x_qty x else 0))"
proof -
  define b where "b = run_book es (empty_book i)"
  let ?b = "stamp (x_timestamp_ns x) b"
  have wf: "book_wf ?b" by (simp add: b_def run_book_wf)
  have "x_instrument_id x = instrument_id b"
    using assms by (simp add: apply_execution_def b_def split: if_splits)
  with assms have f: "fill x ?b = (b', None)" by (simp add: apply_execution_fill b_def)
  then obtain e where e: "order_index ?b (x_order_id x) = Some e"
    by (cases "order_index ?b (x_order_id x)") (simp_all add: fill_def)
  obtain r where r: "deref e ?b = Some r" by (rule deref_live [OF wf e])
  with f e have "x_qty x \<le> ro_qty r"
    unfolding fill_def e option.case r by (simp split: if_splits)
  with fill_quantity [OF wf e r] f e show ?thesis by (simp add: qty_at_price_queue b_def)
qed

theorem execution_quantity_witness:
  "\<exists>b'. apply_execution (default_execution\<lparr>x_order_id := ''B'', x_instrument_id := ''ES'', x_qty := 2\<rparr>)
       (run_book (take 3 demo_events) (empty_book ''ES'')) = (b', None) \<and>
     qty_at_price KBuy 100 b' = qty_at_price KBuy 100 (run_book (take 3 demo_events) (empty_book ''ES'')) - 2"
proof -
  let ?x = "default_execution\<lparr>x_order_id := ''B'', x_instrument_id := ''ES'', x_qty := 2\<rparr>"
  let ?r = "apply_execution ?x (run_book (take 3 demo_events) (empty_book ''ES''))"
  have "snd ?r = None" by (simp add: demo_events_def book_eval Let_def)
  then have r: "?r = (fst ?r, None)" by (metis prod.collapse)
  have "order_index (run_book (take 3 demo_events) (empty_book ''ES'')) ''B'' =
      Some \<lparr>ie_side = KBuy, ie_price = 100, ie_it = 1\<rparr>"
    by (simp add: demo_events_def book_eval Let_def)
  with execution_quantity [OF r] have "qty_at_price KBuy 100 (fst ?r) =
      qty_at_price KBuy 100 (run_book (take 3 demo_events) (empty_book ''ES'')) - 2"
    by (simp add: default_execution_def)
  with r show ?thesis by blast
qed

section \<open>Sequence numbers\<close>

definition same_header :: "order_book \<Rightarrow> order_book \<Rightarrow> bool" where
  "same_header b b' \<longleftrightarrow> instrument_id b' = instrument_id b \<and> sequence b' = sequence b \<and>
     last_event_timestamp_ns b' = last_event_timestamp_ns b"

lemma same_header_ops:
  "same_header b (fst (insert_new order b))"
  "same_header b (fst (remove_resting i e b))"
  "same_header b (assign_node e f b)"
  by (simp_all add: same_header_def insert_new_def remove_resting_def assign_node_def Let_def
      split: option.split)

lemma same_header_trans: "same_header b b1 \<Longrightarrow> same_header b1 b2 \<Longrightarrow> same_header b b2"
  by (simp add: same_header_def)

lemma same_header_refl [simp]: "same_header b b" "same_header b (b'\<lparr>order_index := I\<rparr>) = same_header b b'"
  by (simp_all add: same_header_def)

lemma same_header_cancel: "same_header b (fst (cancel i b))"
  by (simp add: cancel_def same_header_ops split: option.split)

lemma same_header_replace: "same_header b (fst (replace order b))"
  unfolding replace_def Let_def
  using same_header_ops(2) [of b "o_orig_order_id order"] same_header_ops(3) [of b]
  by (auto split: option.split prod.split intro: same_header_trans [OF _ same_header_ops(1)])
     (metis fst_conv same_header_trans same_header_ops(1))+

lemma same_header_fill: "same_header b (fst (fill x b))"
  unfolding fill_def Let_def
  by (auto split: option.split intro: same_header_ops same_header_trans [OF same_header_ops(3)])

lemma apply_event_header:
  "same_header (if instrument_id_of e = instrument_id b then stamp (timestamp_of e) b else b)
     (fst (apply_event e b))"
proof (cases e)
  case (OrderEvent order)
  then show ?thesis
    by (cases "o_status order") (auto simp: apply_order_def Let_def same_header_ops same_header_cancel
        same_header_replace)
next
  case (ExecutionEvent x)
  have "x_instrument_id x = instrument_id b \<Longrightarrow> ?thesis"
    using same_header_fill ExecutionEvent by (simp add: apply_execution_fill)
  moreover have "x_instrument_id x \<noteq> instrument_id b \<Longrightarrow> ?thesis"
    using ExecutionEvent by (simp add: apply_execution_def)
  ultimately show ?thesis by blast
qed

lemma run_book_sequence:
  "sequence (run_book es b) =
     sequence b + of_nat (length (filter (\<lambda>e. instrument_id_of e = instrument_id b) es)) \<and>
   instrument_id (run_book es b) = instrument_id b"
proof (induction es arbitrary: b)
  case (Cons e es)
  then show ?case
    using apply_event_header [of e b] by (auto simp: run_book_Cons same_header_def stamp_def)
qed simp

lemma foreign_event: "instrument_id_of e \<noteq> instrument_id b \<Longrightarrow>
    apply_event e b = (b, Some (Instrument_Mismatch (instrument_id b) (instrument_id_of e)))"
  by (cases e) (simp_all add: apply_order_def apply_execution_def)

text \<open>
  Sequence numbers.  The sequence of a book counts, modulo \<open>2^64\<close>, the events of its own
  instrument it has been given, rejected ones included, and an event of another instrument is
  refused and leaves the book exactly as it is.
\<close>

theorem book_sequence_counts:
  "sequence (run_book es (empty_book i)) = of_nat (length (filter (\<lambda>e. instrument_id_of e = i) es)) \<and>
   (if instrument_id_of e = i then sequence (run_book (es @ [e]) (empty_book i)) =
        sequence (run_book es (empty_book i)) + 1
    else apply_event e (run_book es (empty_book i)) =
        (run_book es (empty_book i), Some (Instrument_Mismatch i (instrument_id_of e))))"
proof -
  have "sequence (empty_book i) = 0" "instrument_id (empty_book i) = i" by (simp_all add: empty_book_def)
  then show ?thesis
    using run_book_sequence [of es "empty_book i"] run_book_sequence [of "es @ [e]" "empty_book i"]
      foreign_event [of e "run_book es (empty_book i)"] by auto
qed

section \<open>Two replacements that break the book\<close>

text \<open>
  A replacement that loses its place and asks for the id of another resting order is
  rejected as a duplicate only after the original order has been taken out of the book, so the
  rejected event has removed it.
\<close>

theorem rejected_replace_removes:
  assumes "renames_fresh es (spec_empty i)" and "o_status order = KReplaced"
    and "o_instrument_id order = i" and "o_orig_order_id order \<noteq> o_order_id order"
    and "order_index (run_book es (empty_book i)) (o_orig_order_id order) = Some old"
    and "order_index (run_book es (empty_book i)) (o_order_id order) = Some other"
    and "o_price order \<noteq> ie_price old"
  shows "\<exists>b'. apply_event (OrderEvent order) (run_book es (empty_book i)) =
      (b', Some (Duplicate_Order_Id (o_order_id order))) \<and> order_index b' (o_orig_order_id order) = None"
proof -
  define b where "b = run_book es (empty_book i)"
  let ?b = "stamp (o_timestamp_ns order) b"
  have wf: "book_wf ?b" by (simp add: b_def run_book_wf)
  have old: "order_index ?b (o_orig_order_id order) = Some old"
    and other: "order_index ?b (o_order_id order) = Some other" using assms by (simp_all add: b_def)
  obtain r where r: "deref old ?b = Some r" by (rule deref_live [OF wf old])
  obtain b1 where b1: "remove_resting (o_orig_order_id order) old ?b = (b1, None)"
    "order_index b1 = (order_index ?b)(o_orig_order_id order := None)"
    using remove_resting_effect [OF wf r] by metis
  have "insert_new (order\<lparr>o_status := KNew\<rparr>) b1 = (b1, Some (Duplicate_Order_Id (o_order_id order)))"
    using b1(2) other assms(4) by (simp add: insert_new_def)
  then have "replace order ?b = (b1, Some (Duplicate_Order_Id (o_order_id order)))"
    using old r b1(1) assms(7) by (simp add: replace_def)
  moreover have "o_instrument_id order = instrument_id b"
    using assms(3) run_book_sequence [of es "empty_book i"] by (simp add: b_def empty_book_def)
  ultimately show ?thesis
    using assms(2) b1(2) by (simp add: b_def apply_order_def)
qed

theorem rejected_replace_removes_witness:
  "\<exists>b'. apply_event (plain_order ''A'' ''ES'' KBuy 90 1 KReplaced ''B'')
        (run_book (take 3 demo_events) (empty_book ''ES'')) = (b', Some (Duplicate_Order_Id ''A'')) \<and>
      order_index b' ''B'' = None"
proof -
  let ?order = "default_order\<lparr>o_order_id := ''A'', o_instrument_id := ''ES'', o_side := KBuy,
       o_price := 90, o_qty := 1, o_status := KReplaced, o_orig_order_id := ''B''\<rparr>"
  have "\<exists>b'. apply_event (OrderEvent ?order) (run_book (take 3 demo_events) (empty_book ''ES'')) =
      (b', Some (Duplicate_Order_Id (o_order_id ?order))) \<and> order_index b' (o_orig_order_id ?order) = None"
    by (rule rejected_replace_removes [of _ _ _ "\<lparr>ie_side = KBuy, ie_price = 100, ie_it = 1\<rparr>"
          "\<lparr>ie_side = KBuy, ie_price = 100, ie_it = 0\<rparr>"])
      (simp_all add: demo_events_def spec_eval book_eval Let_def)
  then show ?thesis by (simp add: plain_order_def)
qed

text \<open>
  A replacement that keeps its place is not checked for duplicates.  After it has taken
  the id of another resting order the index holds one entry for two orders at the level: no
  cancellation, of any id, can empty the level any more.
\<close>

theorem rename_collision_orphans:
  "let b = run_book [plain_order ''A'' ''ES'' KBuy 100 10 KNew '''',
                     plain_order ''B'' ''ES'' KBuy 100 5 KNew '''',
                     plain_order ''B'' ''ES'' KBuy 100 3 KReplaced ''A'',
                     plain_order ''X'' ''ES'' KBuy 100 0 KCancelled ''B''] (empty_book ''ES'')
   in order_count_at_price KBuy 100 b = 1 \<and>
      order_count_at_price KBuy 100 (run_book [plain_order ''Y'' ''ES'' KBuy 100 0 KCancelled j] b) = 1 \<and>
      snd (apply_event (plain_fill j ''ES'' 1) b) = Some (Execution_Not_Resting j)"
  by (simp add: book_eval Let_def order_count_at_price_def)

end
