(* ===== verification/Account_Registry.thy ===== *)
theory Account_Registry
  imports Order_Book
begin

text \<open>
  \<open>cpp/detectors/account_registry.hpp\<close> and \<open>.cpp\<close>: the entities by account id, and the
  relation between accounts that the detectors use.  The relation is reflexive and symmetric;
  it is not transitive (\<open>relation_not_transitive\<close>), which is why the marking-the-close
  detector has to close it up.
\<close>

record entity =
  e_account_id :: string
  e_beneficial_owner_id :: string
  e_entity_type :: string
  e_linked_account_ids :: "string list"

type_synonym account_registry = "string \<rightharpoonup> entity"

definition empty_registry :: account_registry where
  "empty_registry = Map.empty"

definition add_entity :: "entity \<Rightarrow> account_registry \<Rightarrow> account_registry" where
  "add_entity e entities = entities(e_account_id e \<mapsto> e)"

definition lookup :: "string \<Rightarrow> account_registry \<Rightarrow> entity option" where
  "lookup account_id entities = entities account_id"

definition same_beneficial_owner :: "string \<Rightarrow> string \<Rightarrow> account_registry \<Rightarrow> bool" where
  "same_beneficial_owner account_a account_b entities =
     (case (lookup account_a entities, lookup account_b entities) of
        (Some a, Some b) \<Rightarrow>
          if e_beneficial_owner_id a = [] \<or> e_beneficial_owner_id b = [] then False
          else e_beneficial_owner_id a = e_beneficial_owner_id b
      | _ \<Rightarrow> False)"

definition names :: "entity option \<Rightarrow> string \<Rightarrow> bool" where
  "names entity target =
     (case entity of None \<Rightarrow> False | Some e \<Rightarrow> target \<in> set (e_linked_account_ids e))"

definition are_linked :: "string \<Rightarrow> string \<Rightarrow> account_registry \<Rightarrow> bool" where
  "are_linked account_a account_b entities =
     (names (lookup account_a entities) account_b \<or> names (lookup account_b entities) account_a)"

definition is_related :: "string \<Rightarrow> string \<Rightarrow> account_registry \<Rightarrow> bool" where
  "is_related account_a account_b entities =
     (if account_a = account_b then True
      else same_beneficial_owner account_a account_b entities \<or> are_linked account_a account_b entities)"

section \<open>The relation\<close>

text \<open>What the detectors rely on: a reflexive, symmetric relation.\<close>

locale account_relation =
  fixes related :: "'a \<Rightarrow> 'a \<Rightarrow> bool"
  assumes related_refl: "related a a"
    and related_sym: "related a b \<Longrightarrow> related b a"
begin

lemma related_commute: "related a b = related b a"
  using related_sym by blast

text \<open>The groups of related accounts: reachable through related accounts of a set.\<close>

inductive linked_within :: "'a set \<Rightarrow> 'a \<Rightarrow> 'a \<Rightarrow> bool" for S where
  here: "a \<in> S \<Longrightarrow> linked_within S a a"
| there: "linked_within S a b \<Longrightarrow> c \<in> S \<Longrightarrow> related b c \<Longrightarrow> linked_within S a c"

lemma linked_within_mem: "linked_within S a b \<Longrightarrow> a \<in> S \<and> b \<in> S"
  by (induction rule: linked_within.induct) simp_all

lemma linked_within_trans: "linked_within S b c \<Longrightarrow> linked_within S a b \<Longrightarrow> linked_within S a c"
  by (induction rule: linked_within.induct) (auto intro: linked_within.intros)

lemma linked_within_step: "a \<in> S \<Longrightarrow> b \<in> S \<Longrightarrow> related a b \<Longrightarrow> linked_within S a b"
  by (meson linked_within.intros)

lemma linked_within_sym: "linked_within S a b \<Longrightarrow> linked_within S b a"
proof (induction rule: linked_within.induct)
  case (there a b c)
  have "linked_within S c b"
    using there linked_within_mem related_sym by (meson linked_within_step)
  with there.IH linked_within_trans show ?case by blast
qed (rule linked_within.here)

end

lemma same_beneficial_owner_sym:
  "same_beneficial_owner a b entities = same_beneficial_owner b a entities"
  by (auto simp: same_beneficial_owner_def split: option.split)

lemma are_linked_sym: "are_linked a b entities = are_linked b a entities"
  by (auto simp: are_linked_def)

interpretation accounts: account_relation "\<lambda>a b. is_related a b entities" for entities
  by unfold_locales (auto simp: is_related_def same_beneficial_owner_sym are_linked_sym)

lemma is_related_unregistered:
  "lookup a entities = None \<Longrightarrow> lookup b entities = None \<Longrightarrow> is_related a b entities \<longleftrightarrow> a = b"
  by (simp add: is_related_def same_beneficial_owner_def are_linked_def names_def)

lemma relation_not_transitive:
  "let reg = add_entity \<lparr>e_account_id = ''B'', e_beneficial_owner_id = '''', e_entity_type = '''',
               e_linked_account_ids = [''A'', ''C'']\<rparr> empty_registry
   in is_related ''A'' ''B'' reg \<and> is_related ''B'' ''C'' reg \<and> \<not> is_related ''A'' ''C'' reg"
  by (simp add: add_entity_def empty_registry_def is_related_def same_beneficial_owner_def
      are_linked_def names_def lookup_def)

end
