(* ===== verification/Detector.thy ===== *)
theory Detector
  imports Account_Registry
begin

text \<open>
  \<open>cpp/detectors/alert.hpp\<close>, \<open>detector_event.hpp\<close> and \<open>i_detector.hpp\<close>: the alert, and
  the interface every detector implements.  A detector is a state and an evaluation of one event
  against the book that has just applied it.  The contract of the interface is the locale
  \<open>detector\<close>: alerts carry the detector's name, a score in [0, 1] and the sequence number of
  the book they were raised against, and the detector's own invariant is kept.
\<close>

record alert =
  al_detector_name :: string
  al_score :: double
  al_instrument_id :: string
  al_account_ids :: "string list"
  al_order_ids :: "string list"
  al_window_start_ns :: int
  al_window_end_ns :: int
  al_evidence :: string
  al_model_version :: "string option"
  al_book_snapshot_sequence :: "int option"

text \<open>The \<open>uint64_t\<close> sequence is stored in a \<open>std::optional<int64_t>\<close>.\<close>

definition sequence_ref :: "order_book \<Rightarrow> int" where
  "sequence_ref book = sint (sequence book)"

type_synonym 's evaluation = "order_book \<Rightarrow> event \<Rightarrow> 's \<Rightarrow> 's \<times> alert list"

definition conforms :: "string \<Rightarrow> order_book \<Rightarrow> event \<Rightarrow> alert \<Rightarrow> bool" where
  "conforms name book incoming a \<longleftrightarrow>
     al_detector_name a = name \<and> 0 \<le> al_score a \<and> al_score a \<le> 1 \<and>
     al_window_start_ns a \<le> al_window_end_ns a \<and> al_window_end_ns a = timestamp_of incoming \<and>
     al_book_snapshot_sequence a = Some (sequence_ref book)"

text \<open>A stream of evaluations, each against the book as it was then.\<close>

fun run_detector :: "'s evaluation \<Rightarrow> (order_book \<times> event) list \<Rightarrow> 's \<Rightarrow> 's \<times> alert list" where
  "run_detector evaluate [] s = (s, [])"
| "run_detector evaluate ((book, incoming) # rest) s =
     (let (s1, alerts) = evaluate book incoming s;
          (s2, more) = run_detector evaluate rest s1
      in (s2, alerts @ more))"

lemma run_detector_append:
  "run_detector ev (xs @ ys) s =
     (let (s1, a) = run_detector ev xs s; (s2, b) = run_detector ev ys s1 in (s2, a @ b))"
  by (induction ev xs s rule: run_detector.induct) (auto simp: Let_def split: prod.split)

text \<open>A condition on each event and the state it meets, along a run.\<close>

fun holds_along :: "'s evaluation \<Rightarrow> (event \<Rightarrow> 's \<Rightarrow> bool) \<Rightarrow> (order_book \<times> event) list \<Rightarrow> 's \<Rightarrow> bool" where
  "holds_along evaluate P [] s = True"
| "holds_along evaluate P ((book, incoming) # rest) s =
     (P incoming s \<and> holds_along evaluate P rest (fst (evaluate book incoming s)))"

lemma run_detector_snoc:
  "fst (run_detector ev (xs @ [(b, e)]) s) = fst (ev b e (fst (run_detector ev xs s)))"
  by (simp add: run_detector_append split_beta Let_def)

lemma holds_along_invariant:
  assumes "\<And>b e s. I s \<Longrightarrow> P e s \<Longrightarrow> I (fst (ev b e s))" and "holds_along ev P evs s" and "I s"
  shows "I (fst (run_detector ev evs s))"
  using assms(2,3)
proof (induction evs arbitrary: s)
  case (Cons be evs)
  obtain b e where "be = (b, e)" by fastforce
  with Cons show ?case using assms(1) [of s e b] by (simp add: split_beta Let_def)
qed simp

locale detector =
  fixes evaluate :: "'s evaluation" and name :: string and invar :: "'s \<Rightarrow> bool"
  assumes invar_step: "invar s \<Longrightarrow> invar (fst (evaluate book incoming s))"
    and alerts_conform:
      "invar s \<Longrightarrow> a \<in> set (snd (evaluate book incoming s)) \<Longrightarrow> conforms name book incoming a"
begin

lemma invar_run: "invar s \<Longrightarrow> invar (fst (run_detector evaluate evs s))"
proof (induction evs arbitrary: s)
  case (Cons be evs)
  obtain b e where be: "be = (b, e)" by fastforce
  show ?case
    using Cons.IH [OF invar_step [OF Cons.prems, of b e]] by (simp add: be split_beta Let_def)
qed simp

lemma run_alerts_conform:
  "invar s \<Longrightarrow> a \<in> set (snd (run_detector evaluate evs s)) \<Longrightarrow>
   \<exists>(book, incoming) \<in> set evs. conforms name book incoming a"
proof (induction evs arbitrary: s)
  case (Cons be evs)
  obtain b e where be: "be = (b, e)" by fastforce
  from Cons.prems(2) consider "a \<in> set (snd (evaluate b e s))"
    | "a \<in> set (snd (run_detector evaluate evs (fst (evaluate b e s))))"
    by (auto simp: be split_beta Let_def)
  then show ?case
  proof cases
    case 1
    then show ?thesis using alerts_conform [OF Cons.prems(1)] by (auto simp: be)
  next
    case 2
    then show ?thesis using Cons.IH [OF invar_step [OF Cons.prems(1), of b e]] by (auto simp: be)
  qed
qed simp

end

end
