(* ===== verification/Wash_Trade.thy ===== *)
theory Wash_Trade
  imports Detector
begin

text \<open>
  \<open>cpp/detectors/wash_trade_detector.cpp\<close>: an execution between related accounts is a wash
  trade.  The detector has no state.
\<close>

definition wash_trade_name :: string where
  "wash_trade_name = ''WashTradeDetector''"

definition wash_trade_alert :: "execution \<Rightarrow> order_book \<Rightarrow> alert" where
  "wash_trade_alert execution book =
     \<lparr>al_detector_name = wash_trade_name, al_score = 1,
      al_instrument_id = x_instrument_id execution,
      al_account_ids = [x_account_id execution, x_counterparty_account_id execution],
      al_order_ids = [x_order_id execution, x_trade_id execution],
      al_window_start_ns = x_timestamp_ns execution,
      al_window_end_ns = x_timestamp_ns execution,
      al_evidence = ''Execution '' @ x_trade_id execution @ '' matched account '' @
        x_account_id execution @ '' against related counterparty '' @
        x_counterparty_account_id execution @
        '' (same beneficial owner, explicit link, or self-trade)'',
      al_model_version = None,
      al_book_snapshot_sequence = Some (sequence_ref book)\<rparr>"

fun wash_trade_evaluate :: "account_registry \<Rightarrow> unit evaluation" where
  "wash_trade_evaluate accounts book (OrderEvent order) s = (s, [])"
| "wash_trade_evaluate accounts book (ExecutionEvent execution) s =
     (if x_counterparty_account_id execution = [] then (s, [])
      else if \<not> is_related (x_account_id execution) (x_counterparty_account_id execution) accounts
      then (s, [])
      else (s, [wash_trade_alert execution book]))"

interpretation wash_trade: detector "wash_trade_evaluate accounts" wash_trade_name "\<lambda>_. True"
  for accounts
proof
  fix s :: unit and a book incoming
  assume "a \<in> set (snd (wash_trade_evaluate accounts book incoming s))"
  then show "conforms wash_trade_name book incoming a"
    by (cases incoming) (auto simp: conforms_def wash_trade_alert_def split: if_splits)
qed simp

text \<open>The documented rule: one account, one beneficial owner, or an explicit link either way.\<close>

definition wash_rule :: "account_registry \<Rightarrow> execution \<Rightarrow> bool" where
  "wash_rule accounts x \<longleftrightarrow>
     (let a = x_account_id x; b = x_counterparty_account_id x
      in b \<noteq> [] \<and>
         (a = b \<or>
          (\<exists>ea eb. accounts a = Some ea \<and> accounts b = Some eb \<and>
             e_beneficial_owner_id ea = e_beneficial_owner_id eb \<and> e_beneficial_owner_id ea \<noteq> []) \<or>
          (\<exists>ea. accounts a = Some ea \<and> b \<in> set (e_linked_account_ids ea)) \<or>
          (\<exists>eb. accounts b = Some eb \<and> a \<in> set (e_linked_account_ids eb))))"

lemma wash_rule_iff:
  "wash_rule accounts x \<longleftrightarrow> x_counterparty_account_id x \<noteq> [] \<and>
     is_related (x_account_id x) (x_counterparty_account_id x) accounts"
  by (auto simp: wash_rule_def Let_def is_related_def same_beneficial_owner_def are_linked_def names_def
      lookup_def split: option.split)

fun execution_of :: "event \<Rightarrow> execution option" where
  "execution_of (OrderEvent order) = None"
| "execution_of (ExecutionEvent x) = Some x"

definition wash_trades :: "account_registry \<Rightarrow> (order_book \<times> event) list \<Rightarrow> (order_book \<times> execution) list" where
  "wash_trades accounts evs =
     filter (\<lambda>(book, x). wash_rule accounts x)
       (List.map_filter (\<lambda>(book, e). map_option (Pair book) (execution_of e)) evs)"

text \<open>Reporting the two sides of a trade the other way round makes no difference.\<close>

definition swap_sides :: "execution \<Rightarrow> execution" where
  "swap_sides x = x\<lparr>x_account_id := x_counterparty_account_id x,
     x_counterparty_account_id := x_account_id x, x_side := opposite_of (x_side x)\<rparr>"

lemma wash_trade_evaluate_list:
  "wash_trade_evaluate accounts book e s =
     (s, map (\<lambda>(book, x). wash_trade_alert x book) (wash_trades accounts [(book, e)]))"
  by (cases e) (simp_all add: wash_trades_def map_filter_def wash_rule_iff)

lemma wash_trades_Cons: "wash_trades accounts (be # evs) = wash_trades accounts [be] @ wash_trades accounts evs"
  by (cases be) (simp add: wash_trades_def map_filter_def split: option.split)

text \<open>
  C34: wash trades, exactly.  Over any stream of events the detector raises one alert for each
  execution whose two accounts are the same, have the same recorded beneficial owner or are
  linked by either's record, in order, and nothing else; and whether a trade with both accounts
  named is one does not depend on which of them is reported as the counterparty.
\<close>

theorem wash_trade_exact:
  "snd (run_detector (wash_trade_evaluate accounts) evs ()) =
     map (\<lambda>(book, x). wash_trade_alert x book) (wash_trades accounts evs) \<and>
   (x_account_id x \<noteq> [] \<and> wash_rule accounts x \<longleftrightarrow>
    x_counterparty_account_id x \<noteq> [] \<and> wash_rule accounts (swap_sides x))"
proof
  show "snd (run_detector (wash_trade_evaluate accounts) evs ()) =
      map (\<lambda>(book, x). wash_trade_alert x book) (wash_trades accounts evs)"
  proof (induction evs)
    case (Cons be evs)
    obtain b e where be: "be = (b, e)" by fastforce
    show ?case
      using Cons.IH wash_trades_Cons [of accounts "(b, e)" evs]
      by (simp add: be split_beta Let_def wash_trade_evaluate_list)
  qed (simp add: wash_trades_def map_filter_def)
  show "x_account_id x \<noteq> [] \<and> wash_rule accounts x \<longleftrightarrow>
      x_counterparty_account_id x \<noteq> [] \<and> wash_rule accounts (swap_sides x)"
    using accounts.related_commute [where a = "x_account_id x"]
    by (auto simp: wash_rule_iff swap_sides_def)
qed

end
