(* ===== verification/Front_Running.thy ===== *)
theory Front_Running
  imports Detector
begin

text \<open>
  \<open>cpp/detectors/front_running_detector.cpp\<close>: a small New order of an account that follows,
  within the window, a large New order of a related account on the same instrument and side.
  The state is the window of recent orders per instrument and side.
\<close>

record front_running_config =
  fr_lookback_window_ns :: int
  fr_min_large_qty_threshold :: int
  fr_max_leader_to_large_size_ratio :: double

definition default_front_running_config :: front_running_config where
  "default_front_running_config = \<lparr>fr_lookback_window_ns = 2000000000,
     fr_min_large_qty_threshold = 1000, fr_max_leader_to_large_size_ratio = rnd64 (2 / 10)\<rparr>"

record recent_order =
  rc_account_id :: string
  rc_order_id :: string
  rc_qty :: int
  rc_timestamp_ns :: int

type_synonym front_running_state = "string \<rightharpoonup> recent_order list"

definition front_running_name :: string where
  "front_running_name = ''FrontRunningDetector''"

definition key_for :: "string \<Rightarrow> side \<Rightarrow> string" where
  "key_for instrument side = instrument @ ''|'' @ (case side of KBuy \<Rightarrow> ''B'' | KSell \<Rightarrow> ''S'')"

definition recent_at :: "string \<Rightarrow> front_running_state \<Rightarrow> recent_order list" where
  "recent_at key st = (case st key of None \<Rightarrow> [] | Some rs \<Rightarrow> rs)"

definition prune :: "front_running_config \<Rightarrow> int \<Rightarrow> recent_order list \<Rightarrow> recent_order list" where
  "prune config now recent =
     filter (\<lambda>r. \<not> fr_lookback_window_ns config < \<bar>now - rc_timestamp_ns r\<bar>) recent"

text \<open>The \<open>continue\<close> conditions of the loop, in the order the code tests them.\<close>

definition skips :: "front_running_config \<Rightarrow> account_registry \<Rightarrow> order \<Rightarrow> recent_order \<Rightarrow> bool" where
  "skips config accounts order prior \<longleftrightarrow>
     rc_account_id prior = o_account_id order \<or>
     \<not> is_related (o_account_id order) (rc_account_id prior) accounts \<or>
     rc_qty prior < fr_min_large_qty_threshold config \<or>
     fmul (to_double (rc_qty prior)) (fr_max_leader_to_large_size_ratio config) < to_double (o_qty order) \<or>
     o_timestamp_ns order < rc_timestamp_ns prior"

definition front_running_alert :: "order \<Rightarrow> recent_order \<Rightarrow> int \<Rightarrow> alert" where
  "front_running_alert order prior seq_ref =
     \<lparr>al_detector_name = front_running_name, al_score = 1,
      al_instrument_id = o_instrument_id order,
      al_account_ids = [rc_account_id prior, o_account_id order],
      al_order_ids = [rc_order_id prior, o_order_id order],
      al_window_start_ns = rc_timestamp_ns prior,
      al_window_end_ns = o_timestamp_ns order,
      al_evidence = ''related account '' @ o_account_id order @ '' placed order '' @
        o_order_id order @ '' (qty='' @ show_int (o_qty order) @ '') '' @
        show_int (o_timestamp_ns order - rc_timestamp_ns prior) @
        ''ns after a large same-side order '' @ rc_order_id prior @ '' (qty='' @
        show_int (rc_qty prior) @ '') from related account '' @ rc_account_id prior,
      al_model_version = None,
      al_book_snapshot_sequence = Some seq_ref\<rparr>"

definition recent_of :: "order \<Rightarrow> recent_order" where
  "recent_of order = \<lparr>rc_account_id = o_account_id order, rc_order_id = o_order_id order,
     rc_qty = o_qty order, rc_timestamp_ns = o_timestamp_ns order\<rparr>"

definition front_running_handle_new ::
    "front_running_config \<Rightarrow> account_registry \<Rightarrow> order \<Rightarrow> int \<Rightarrow> front_running_state
     \<Rightarrow> front_running_state \<times> alert list" where
  "front_running_handle_new config accounts order seq_ref st =
     (let key = key_for (o_instrument_id order) (o_side order);
          recent = prune config (o_timestamp_ns order) (recent_at key st);
          alerts = map (\<lambda>prior. front_running_alert order prior seq_ref)
                     (filter (\<lambda>prior. \<not> skips config accounts order prior) recent)
      in (st(key \<mapsto> recent @ [recent_of order]), alerts))"

fun front_running_evaluate ::
    "front_running_config \<Rightarrow> account_registry \<Rightarrow> front_running_state evaluation" where
  "front_running_evaluate config accounts book (ExecutionEvent execution) st = (st, [])"
| "front_running_evaluate config accounts book (OrderEvent order) st =
     (if o_status order \<noteq> KNew then (st, [])
      else front_running_handle_new config accounts order (sequence_ref book) st)"

interpretation front_running: detector "front_running_evaluate config accounts"
    front_running_name "\<lambda>_. True" for config accounts
proof
  fix s :: front_running_state and a book incoming
  assume "a \<in> set (snd (front_running_evaluate config accounts book incoming s))"
  then show "conforms front_running_name book incoming a"
    by (cases incoming)
      (auto simp: conforms_def front_running_handle_new_def front_running_alert_def skips_def Let_def
        split: if_splits)
qed simp

section \<open>Alerts and the history of orders\<close>

lemma key_for_inj [simp]: "key_for i s = key_for i' s' \<longleftrightarrow> i = i' \<and> s = s'"
  by (cases s; cases s') (auto simp: key_for_def)

fun new_order_of :: "event \<Rightarrow> order option" where
  "new_order_of (OrderEvent order) = (if o_status order = KNew then Some order else None)"
| "new_order_of (ExecutionEvent _) = None"

text \<open>The New orders of one instrument and side in a history, oldest first.\<close>

definition news :: "string \<Rightarrow> side \<Rightarrow> (order_book \<times> event) list \<Rightarrow> order list" where
  "news i s evs = filter (\<lambda>ord. o_instrument_id ord = i \<and> o_side ord = s)
     (List.map_filter (\<lambda>(_, e). new_order_of e) evs)"

text \<open>
  The window after a history: the orders that no later order of the same key was more than
  the lookback away from.
\<close>

fun surviving :: "front_running_config \<Rightarrow> order list \<Rightarrow> order list" where
  "surviving config [] = []"
| "surviving config (x # xs) =
     (if \<forall>y \<in> set xs. \<bar>o_timestamp_ns y - o_timestamp_ns x\<bar> \<le> fr_lookback_window_ns config
      then x # surviving config xs else surviving config xs)"

lemma surviving_snoc:
  "surviving config (xs @ [y]) =
     filter (\<lambda>x. \<bar>o_timestamp_ns y - o_timestamp_ns x\<bar> \<le> fr_lookback_window_ns config)
       (surviving config xs) @ [y]"
  by (induction xs) auto

lemma surviving_subset: "set (surviving config xs) \<subseteq> set xs"
  by (induction xs) auto

lemma surviving_mem:
  "x \<in> set xs \<Longrightarrow> (\<And>y. y \<in> set xs \<Longrightarrow> \<bar>o_timestamp_ns y - o_timestamp_ns x\<bar> \<le> fr_lookback_window_ns config)
   \<Longrightarrow> x \<in> set (surviving config xs)"
  by (induction xs) auto

lemma news_snoc: "news i s (evs @ [(b, e)]) = news i s evs @
   (case new_order_of e of None \<Rightarrow> []
    | Some ord \<Rightarrow> if o_instrument_id ord = i \<and> o_side ord = s then [ord] else [])"
  by (cases "new_order_of e") (auto simp: news_def map_filter_def)

lemma recent_at_upd [simp]: "recent_at k (st(k' \<mapsto> v)) = (if k = k' then v else recent_at k st)"
  by (simp add: recent_at_def)

abbreviation front_running_run where
  "front_running_run config accounts evs \<equiv>
     run_detector (front_running_evaluate config accounts) evs Map.empty"

lemma recent_of_fields [simp]:
  "rc_account_id (recent_of r) = o_account_id r" "rc_order_id (recent_of r) = o_order_id r"
  "rc_qty (recent_of r) = o_qty r" "rc_timestamp_ns (recent_of r) = o_timestamp_ns r"
  by (simp_all add: recent_of_def)

lemma prune_map:
  "prune config t (map recent_of xs) =
   map recent_of (filter (\<lambda>x. \<bar>t - o_timestamp_ns x\<bar> \<le> fr_lookback_window_ns config) xs)"
  by (simp add: prune_def filter_map comp_def not_less)

text \<open>The state is the window of the history, for every instrument and side.\<close>

lemma recent_is_surviving:
  "recent_at (key_for i s) (fst (front_running_run config accounts evs)) =
   map recent_of (surviving config (news i s evs))"
proof (induction evs rule: rev_induct)
  case Nil
  then show ?case by (simp add: recent_at_def news_def map_filter_def)
next
  case (snoc be evs)
  obtain b e where be: "be = (b, e)" by fastforce
  let ?st = "fst (front_running_run config accounts evs)"
  have step: "fst (front_running_run config accounts (evs @ [be])) =
      fst (front_running_evaluate config accounts b e ?st)"
    by (simp add: run_detector_append be split_beta Let_def)
  show ?case
  proof (cases "new_order_of e")
    case None
    then have "front_running_evaluate config accounts b e ?st = (?st, [])"
      by (cases e) (auto split: if_splits)
    then show ?thesis unfolding step using snoc None by (simp add: be news_snoc)
  next
    case (Some ord)
    then have e: "e = OrderEvent ord" "o_status ord = KNew" by (cases e; auto split: if_splits)+
    show ?thesis
      unfolding step
      using snoc e Some
      by (simp add: be front_running_handle_new_def Let_def news_snoc surviving_snoc prune_map
          del: fun_upd_apply) auto
  qed
qed

text \<open>
  The documented rule: the reacting order is of a different, related account, comes within the
  window after the large order and is at most the given fraction of its size.
\<close>

definition front_runs :: "front_running_config \<Rightarrow> account_registry \<Rightarrow> order \<Rightarrow> order \<Rightarrow> bool" where
  "front_runs config accounts large small \<longleftrightarrow>
     o_account_id large \<noteq> o_account_id small \<and>
     is_related (o_account_id small) (o_account_id large) accounts \<and>
     fr_min_large_qty_threshold config \<le> o_qty large \<and>
     to_double (o_qty small) \<le> fmul (to_double (o_qty large)) (fr_max_leader_to_large_size_ratio config) \<and>
     o_timestamp_ns large \<le> o_timestamp_ns small \<and>
     o_timestamp_ns small - o_timestamp_ns large \<le> fr_lookback_window_ns config"

lemma not_skips:
  "\<bar>o_timestamp_ns small - o_timestamp_ns large\<bar> \<le> fr_lookback_window_ns config \<and>
   \<not> skips config accounts small (recent_of large) \<longleftrightarrow> front_runs config accounts large small"
  by (auto simp: skips_def front_runs_def)

lemma front_running_alerts:
  "snd (front_running_evaluate config accounts book (OrderEvent ord)
          (fst (front_running_run config accounts evs))) =
   (if o_status ord \<noteq> KNew then []
    else map (\<lambda>large. front_running_alert ord (recent_of large) (sequence_ref book))
           (filter (\<lambda>large. front_runs config accounts large ord)
             (surviving config (news (o_instrument_id ord) (o_side ord) evs))))"
  by (simp add: front_running_handle_new_def Let_def recent_is_surviving prune_map filter_map comp_def
      not_skips)

text \<open>
  C18: front running, exactly.  After any history of events a New order raises one alert for each
  earlier New order of the same instrument and side that it front-runs by the documented rule and
  that is still in the window, in order of arrival, and nothing else.  An order event of another
  status raises none, and an execution raises none and leaves the state as it is.
\<close>

theorem front_running_exact:
  "snd (front_running_evaluate config accounts book (OrderEvent ord)
          (fst (front_running_run config accounts evs))) =
   (if o_status ord \<noteq> KNew then []
    else map (\<lambda>large. front_running_alert ord (recent_of large) (sequence_ref book))
           (filter (\<lambda>large. front_runs config accounts large ord)
             (surviving config (news (o_instrument_id ord) (o_side ord) evs)))) \<and>
   front_running_evaluate config accounts book (ExecutionEvent x)
      (fst (front_running_run config accounts evs)) =
     (fst (front_running_run config accounts evs), [])"
  by (rule conjI [OF front_running_alerts]) simp

text \<open>
  Front running, complete.  If an earlier New order is front-run by this one, and no New order
  of the same instrument and side since was further than the window from it, the alert naming the
  two orders is raised: entries are never lost otherwise, whatever other events came between.
\<close>

theorem front_running_complete:
  assumes "large \<in> set (news (o_instrument_id ord) (o_side ord) evs)" and "o_status ord = KNew"
    and "front_runs config accounts large ord"
    and "list_all (\<lambda>y. \<bar>o_timestamp_ns y - o_timestamp_ns large\<bar> \<le> fr_lookback_window_ns config)
           (news (o_instrument_id ord) (o_side ord) evs)"
  shows "list_ex (\<lambda>a. al_order_ids a = [o_order_id large, o_order_id ord] \<and>
             al_account_ids a = [o_account_id large, o_account_id ord] \<and> al_score a = 1)
    (snd (front_running_evaluate config accounts book (OrderEvent ord)
            (fst (front_running_run config accounts evs))))"
proof -
  have "large \<in> set (surviving config (news (o_instrument_id ord) (o_side ord) evs))"
    using assms(1,4) by (intro surviving_mem) (auto simp: list_all_iff)
  then have "front_running_alert ord (recent_of large) (sequence_ref book) \<in>
      set (snd (front_running_evaluate config accounts book (OrderEvent ord)
        (fst (front_running_run config accounts evs))))"
    unfolding front_running_alerts using assms(2,3) by simp
  then show ?thesis
    unfolding list_ex_iff by (rule rev_bexI) (simp add: front_running_alert_def)
qed

theorem front_running_complete_witness:
  "let reg = add_entity \<lparr>e_account_id = ''B'', e_beneficial_owner_id = '''', e_entity_type = '''',
               e_linked_account_ids = [''A'']\<rparr> empty_registry;
       large = default_order\<lparr>o_order_id := ''L'', o_account_id := ''A'', o_qty := 2000, o_timestamp_ns := 5\<rparr>;
       small = default_order\<lparr>o_order_id := ''S'', o_account_id := ''B'', o_qty := 400, o_timestamp_ns := 9\<rparr>
   in list_ex (\<lambda>a. al_order_ids a = [''L'', ''S''] \<and> al_account_ids a = [''A'', ''B''] \<and> al_score a = 1)
        (snd (front_running_evaluate default_front_running_config reg (empty_book '''') (OrderEvent small)
           (fst (front_running_run default_front_running_config reg [(empty_book '''', OrderEvent large)]))))"
proof -
  let ?reg = "add_entity \<lparr>e_account_id = ''B'', e_beneficial_owner_id = '''', e_entity_type = '''',
               e_linked_account_ids = [''A'']\<rparr> empty_registry"
  let ?large = "default_order\<lparr>o_order_id := ''L'', o_account_id := ''A'', o_qty := 2000, o_timestamp_ns := 5\<rparr>"
  let ?small = "default_order\<lparr>o_order_id := ''S'', o_account_id := ''B'', o_qty := 400, o_timestamp_ns := 9\<rparr>"
  have "front_runs default_front_running_config ?reg ?large ?small"
    by (simp add: front_runs_def default_front_running_config_def default_order_def is_related_def
        are_linked_def names_def lookup_def add_entity_def empty_registry_def float_eval)
  then show ?thesis
    using front_running_complete [of ?large ?small "[(empty_book '''', OrderEvent ?large)]"
        default_front_running_config ?reg "empty_book ''''"]
    by (simp add: news_def map_filter_def default_order_def default_front_running_config_def Let_def)
qed

end
