(* ===== verification/Statistical_Baseline.thy ===== *)
theory Statistical_Baseline
  imports Detector
begin

text \<open>
  \<open>cpp/detectors/statistical_baseline_detector.cpp\<close>: Welford's running mean and variance of the
  order sizes of an account in an instrument, and the z-score of each New order against them.
  The arithmetic is binary64, rounded after every operation in the order the code writes it
  (no contraction into fused multiply-adds).
\<close>

record statistical_baseline_config =
  sb_z_score_threshold :: double
  sb_min_sample_count :: int

definition default_statistical_baseline_config :: statistical_baseline_config where
  "default_statistical_baseline_config = \<lparr>sb_z_score_threshold = 3, sb_min_sample_count = 5\<rparr>"

record running_stats =
  rs_count :: int
  rs_mean :: double
  rs_m2 :: double

type_synonym statistical_baseline_state = "string \<rightharpoonup> running_stats"

definition empty_stats :: running_stats where
  "empty_stats = \<lparr>rs_count = 0, rs_mean = 0, rs_m2 = 0\<rparr>"

definition statistical_baseline_name :: string where
  "statistical_baseline_name = ''StatisticalBaselineDetector''"

definition update_stats :: "double \<Rightarrow> running_stats \<Rightarrow> running_stats" where
  "update_stats v stats =
     (let count = rs_count stats + 1;
          delta = fsub v (rs_mean stats);
          mean = fadd (rs_mean stats) (fdiv delta (to_double count));
          delta2 = fsub v mean
      in \<lparr>rs_count = count, rs_mean = mean, rs_m2 = fadd (rs_m2 stats) (fmul delta delta2)\<rparr>)"

definition sample_variance :: "running_stats \<Rightarrow> double" where
  "sample_variance stats =
     (if 1 < rs_count stats then fdiv (rs_m2 stats) (to_double (rs_count stats - 1)) else 0)"

definition stats_key :: "order \<Rightarrow> string" where
  "stats_key order = o_account_id order @ ''|'' @ o_instrument_id order"

definition stats_at :: "string \<Rightarrow> statistical_baseline_state \<Rightarrow> running_stats" where
  "stats_at key st = (case st key of None \<Rightarrow> empty_stats | Some s \<Rightarrow> s)"

definition statistical_baseline_alert :: "statistical_baseline_config \<Rightarrow> order \<Rightarrow> order_book \<Rightarrow> double \<Rightarrow>
    double \<Rightarrow> running_stats \<Rightarrow> alert" where
  "statistical_baseline_alert config order book z stddev stats =
     \<lparr>al_detector_name = statistical_baseline_name,
      al_score = clamp (fdiv \<bar>z\<bar> (fmul 2 (sb_z_score_threshold config))) 0 1,
      al_instrument_id = o_instrument_id order,
      al_account_ids = [o_account_id order],
      al_order_ids = [o_order_id order],
      al_window_start_ns = o_timestamp_ns order,
      al_window_end_ns = o_timestamp_ns order,
      al_evidence = ''order qty='' @ show_int (o_qty order) @ '' z='' @ to_string_double z @
        '' against running mean='' @ to_string_double (rs_mean stats) @ '' stddev='' @
        to_string_double stddev @ '' (n='' @ show_int (rs_count stats) @ '')'',
      al_model_version = None,
      al_book_snapshot_sequence = Some (sequence_ref book)\<rparr>"

definition statistical_baseline_alerts ::
    "statistical_baseline_config \<Rightarrow> order_book \<Rightarrow> order \<Rightarrow> running_stats \<Rightarrow> alert list" where
  "statistical_baseline_alerts config book order stats =
     (if sb_min_sample_count config \<le> rs_count stats
      then let stddev = fsqrt (sample_variance stats)
           in if 0 < stddev
              then let z = fdiv (fsub (to_double (o_qty order)) (rs_mean stats)) stddev
                   in if sb_z_score_threshold config \<le> \<bar>z\<bar>
                      then [statistical_baseline_alert config order book z stddev stats]
                      else []
              else []
      else [])"

fun statistical_baseline_evaluate ::
    "statistical_baseline_config \<Rightarrow> account_registry \<Rightarrow> statistical_baseline_state evaluation" where
  "statistical_baseline_evaluate config accounts book (ExecutionEvent execution) st = (st, [])"
| "statistical_baseline_evaluate config accounts book (OrderEvent order) st =
     (if o_status order \<noteq> KNew then (st, [])
      else let key = stats_key order; stats = stats_at key st
           in (st(key \<mapsto> update_stats (to_double (o_qty order)) stats),
               statistical_baseline_alerts config book order stats))"

interpretation statistical_baseline: detector "statistical_baseline_evaluate config accounts"
    statistical_baseline_name "\<lambda>_. True" for config accounts
proof
  fix s :: statistical_baseline_state and a book incoming
  assume "a \<in> set (snd (statistical_baseline_evaluate config accounts book incoming s))"
  then show "conforms statistical_baseline_name book incoming a"
    by (cases incoming)
      (auto simp: conforms_def statistical_baseline_alerts_def statistical_baseline_alert_def Let_def
        clamp_unit split: if_splits)
qed simp

section \<open>The running mean stays in the range of the data\<close>

lemma half_step_pos:
  assumes "0 < e" and "2 \<le> c"
  shows "rnd64 (rnd64 e / c) \<le> e"
proof -
  define k where "k = ilog2 e"
  have k: "pow2 k \<le> e" "e < pow2 (k + 1)" using ilog2_bounds [OF assms(1)] by (simp_all add: k_def)
  have c: "x / c \<le> x / 2" if "0 \<le> x" for x :: rat
    using assms(2) that by (intro divide_left_mono) simp_all
  show ?thesis
  proof (cases "- 1074 \<le> k")
    case True
    have two: "rnd64 (pow2 j) = pow2 j" if "- 1074 \<le> j" for j
      using that by (intro rnd64_exact [where m = 1 and e = j]) simp_all
    have "rnd64 e \<le> pow2 (k + 1)" using rnd64_mono [of e "pow2 (k + 1)"] k two [of "k + 1"] True by simp
    moreover have "pow2 (k + 1) = 2 * pow2 k" unfolding pow2_add by (simp add: pow2_def [of 1])
    ultimately have "rnd64 e / c \<le> pow2 k"
      using c [of "rnd64 e"] rnd64_nonneg [of e] assms(1) by linarith
    then have "rnd64 (rnd64 e / c) \<le> pow2 k" using rnd64_mono two [OF True] by metis
    with k show ?thesis by simp
  next
    case False
    let ?t = "pow2 (- 1074)"
    have t: "rnd64 ?t = ?t" by (intro rnd64_exact [where m = 1 and e = "- 1074"]) simp_all
    have "e \<le> ?t" using k(2) pow2_mono [of "k + 1" "- 1074"] False by simp
    then have "rnd64 e / c \<le> ?t / 2"
      using rnd64_mono [of e ?t] c [of "rnd64 e"] rnd64_nonneg [of e] assms(1) t by simp
    moreover have "rnd64 (?t / 2) = 0"
    proof -
      have "?t / 2 = pow2 (- 1075)" using pow2_add [of "- 1075" 1] by (simp add: pow2_def)
      moreover have "ilog2 (pow2 (- 1075)) = - 1075"
        by (rule ilog2_unique) (simp_all add: pow2_strict_mono)
      ultimately have u: "ulp_exp (?t / 2) = - 1074" by (simp add: ulp_exp_def)
      have "?t / 2 / pow2 (- 1074) = 1 / 2" by simp
      moreover have "\<lfloor>1 / 2 :: rat\<rfloor> = 0" by (rule floor_unique) simp_all
      ultimately show ?thesis unfolding rnd64_def u by (simp add: round_half_even_def Let_def)
    qed
    ultimately have "rnd64 (rnd64 e / c) \<le> 0" using rnd64_mono by metis
    with assms(1) show ?thesis by simp
  qed
qed

lemma half_step_neg: "e < 0 \<Longrightarrow> 2 \<le> c \<Longrightarrow> e \<le> rnd64 (rnd64 e / c)"
  using half_step_pos [of "- e" c] by (simp add: rnd64_minus)

text \<open>Welford's step moves the mean towards the new value and not past it.\<close>

lemma welford_between:
  assumes "is_double v" and "is_double m" and "2 \<le> c"
  shows "m \<le> v \<Longrightarrow> m \<le> fadd m (fdiv (fsub v m) c) \<and> fadd m (fdiv (fsub v m) c) \<le> v"
    and "v \<le> m \<Longrightarrow> v \<le> fadd m (fdiv (fsub v m) c) \<and> fadd m (fdiv (fsub v m) c) \<le> m"
proof -
  note dbl = assms(1,2) [unfolded is_double_def]
  let ?d = "rnd64 (rnd64 (v - m) / c)"
  have mono: "x \<le> m + ?d \<Longrightarrow> rnd64 x = x \<Longrightarrow> x \<le> rnd64 (m + ?d)"
    "m + ?d \<le> x \<Longrightarrow> rnd64 x = x \<Longrightarrow> rnd64 (m + ?d) \<le> x" for x
    using rnd64_mono by metis+
  show "m \<le> fadd m (fdiv (fsub v m) c) \<and> fadd m (fdiv (fsub v m) c) \<le> v" if "m \<le> v"
  proof (cases "m = v")
    case False
    with that have "?d \<le> v - m" using assms(3) by (intro half_step_pos) simp_all
    moreover have "0 \<le> ?d" using that assms(3) by (intro rnd64_nonneg) (simp add: rnd64_nonneg)
    ultimately show ?thesis using mono dbl by (simp add: fadd_def fdiv_def fsub_def)
  qed (simp add: fadd_def fdiv_def fsub_def dbl)
  show "v \<le> fadd m (fdiv (fsub v m) c) \<and> fadd m (fdiv (fsub v m) c) \<le> m" if "v \<le> m"
  proof (cases "m = v")
    case False
    with that have "v - m \<le> ?d" using assms(3) by (intro half_step_neg) simp_all
    moreover have "?d \<le> 0"
      using that assms(3) by (intro rnd64_nonpos) (simp add: rnd64_nonpos divide_nonpos_nonneg)
    ultimately show ?thesis using mono dbl by (simp add: fadd_def fdiv_def fsub_def)
  qed (simp add: fadd_def fdiv_def fsub_def dbl)
qed

lemma fmul_same_sign: "0 \<le> x \<and> 0 \<le> y \<or> x \<le> 0 \<and> y \<le> 0 \<Longrightarrow> 0 \<le> fmul x y"
  unfolding fmul_def by (intro rnd64_nonneg) (auto simp: zero_le_mult_iff)

lemma fsub_sign: "y \<le> x \<Longrightarrow> 0 \<le> fsub x y" "x \<le> y \<Longrightarrow> fsub x y \<le> 0"
  unfolding fsub_def by (auto intro: rnd64_nonneg rnd64_nonpos)

definition stats_wf :: "running_stats \<Rightarrow> bool" where
  "stats_wf stats \<longleftrightarrow> 0 \<le> rs_count stats \<and> is_double (rs_mean stats) \<and> 0 \<le> rs_m2 stats \<and>
     (rs_count stats = 0 \<longrightarrow> rs_mean stats = 0)"

lemma to_double_ge_2: "2 \<le> n \<Longrightarrow> 2 \<le> to_double n"
  using to_double_mono [of 2 n] by (simp add: to_double_exact)

lemma update_stats_wf:
  assumes "stats_wf stats" and "is_double v"
  shows "stats_wf (update_stats v stats) \<and>
    (if rs_count stats = 0 then rs_mean (update_stats v stats) = v
     else min v (rs_mean stats) \<le> rs_mean (update_stats v stats) \<and>
          rs_mean (update_stats v stats) \<le> max v (rs_mean stats))"
proof (cases "rs_count stats = 0")
  case True
  with assms show ?thesis
    by (simp add: stats_wf_def update_stats_def Let_def fsub_def fadd_def fdiv_def fmul_def is_double_def
        rnd64_nonneg)
next
  case False
  let ?m = "rs_mean stats" and ?c = "to_double (rs_count stats + 1)"
  let ?m' = "fadd ?m (fdiv (fsub v ?m) ?c)"
  have dbl: "is_double ?m" and m2: "0 \<le> rs_m2 stats" and pos: "0 \<le> rs_count stats"
    using assms(1) by (simp_all add: stats_wf_def)
  with False have "2 \<le> ?c" by (intro to_double_ge_2) simp
  note btw = welford_between [OF assms(2) dbl this]
  have "0 \<le> fmul (fsub v ?m) (fsub v ?m')"
    using btw fsub_sign by (intro fmul_same_sign) (meson linear)
  then have "0 \<le> fadd (rs_m2 stats) (fmul (fsub v ?m) (fsub v ?m'))"
    by (rule fadd_nonneg [OF m2])
  moreover have "min v ?m \<le> ?m' \<and> ?m' \<le> max v ?m"
    using btw by (cases "v \<le> ?m") (auto simp: min_def max_def)
  moreover have "is_double ?m'" by (simp add: is_double_def fadd_def)
  ultimately show ?thesis using False pos by (simp add: stats_wf_def update_stats_def Let_def)
qed

lemma is_double_to_double [simp]: "is_double (to_double n)"
  by (simp add: is_double_def to_double_def)

lemma stats_wf_empty [simp]: "stats_wf empty_stats"
  by (simp add: stats_wf_def empty_stats_def is_double_def)

definition stats_of :: "double list \<Rightarrow> running_stats" where
  "stats_of vs = fold update_stats vs empty_stats"

lemma stats_of_wf:
  assumes "list_all is_double vs"
  shows "stats_wf (stats_of vs) \<and> rs_count (stats_of vs) = int (length vs) \<and>
    (if vs = [] then True else Min (set vs) \<le> rs_mean (stats_of vs) \<and> rs_mean (stats_of vs) \<le> Max (set vs))"
  using assms
proof (induction vs rule: rev_induct)
  case Nil
  then show ?case by (simp add: stats_of_def) (simp add: empty_stats_def)
next
  case (snoc v vs)
  then have IH: "stats_wf (stats_of vs)" "rs_count (stats_of vs) = int (length vs)"
    "vs \<noteq> [] \<Longrightarrow> Min (set vs) \<le> rs_mean (stats_of vs) \<and> rs_mean (stats_of vs) \<le> Max (set vs)"
    and v: "is_double v" by (auto split: if_splits)
  have eq: "stats_of (vs @ [v]) = update_stats v (stats_of vs)" by (simp add: stats_of_def)
  have "rs_count (update_stats v (stats_of vs)) = rs_count (stats_of vs) + 1"
    by (simp add: update_stats_def Let_def)
  note upd = update_stats_wf [OF IH(1) v] this
  show ?case
  proof (cases "vs = []")
    case True
    with upd IH(2) show ?thesis unfolding eq by simp
  next
    case False
    then have sets: "Min (set (vs @ [v])) = min v (Min (set vs))" "Max (set (vs @ [v])) = max v (Max (set vs))"
      by simp_all
    from False upd(1) IH(2) have "min v (rs_mean (stats_of vs)) \<le> rs_mean (update_stats v (stats_of vs))"
      "rs_mean (update_stats v (stats_of vs)) \<le> max v (rs_mean (stats_of vs))" by simp_all
    moreover have "min v (Min (set vs)) \<le> min v (rs_mean (stats_of vs))"
      "max v (rs_mean (stats_of vs)) \<le> max v (Max (set vs))"
      using IH(3) [OF False] by (auto simp: min_le_iff_disj le_max_iff_disj)
    ultimately show ?thesis
      unfolding eq sets using upd IH(2) by (auto intro: order.trans)
  qed
qed

section \<open>Properties\<close>

text \<open>The sizes of the New orders of a history with a given key, oldest first.\<close>

fun new_order_with_key :: "string \<Rightarrow> event \<Rightarrow> double option" where
  "new_order_with_key key (OrderEvent order) =
     (if o_status order = KNew \<and> stats_key order = key then Some (to_double (o_qty order)) else None)"
| "new_order_with_key key (ExecutionEvent _) = None"

definition sizes :: "string \<Rightarrow> (order_book \<times> event) list \<Rightarrow> double list" where
  "sizes key evs = List.map_filter (\<lambda>(_, e). new_order_with_key key e) evs"

lemma sizes_snoc: "sizes key (evs @ [(b, e)]) =
    sizes key evs @ (case new_order_with_key key e of None \<Rightarrow> [] | Some v \<Rightarrow> [v])"
  by (simp add: sizes_def map_filter_def split: option.split)

lemma sizes_double: "list_all is_double (sizes key evs)"
proof (induction evs rule: rev_induct)
  case Nil
  show ?case by (simp add: sizes_def map_filter_def)
next
  case (snoc be evs)
  obtain b e where be: "be = (b, e)" by fastforce
  from snoc show ?case
    by (cases e) (auto simp: be sizes_snoc split: option.split if_splits)
qed

abbreviation statistical_baseline_run where
  "statistical_baseline_run config accounts evs \<equiv>
     run_detector (statistical_baseline_evaluate config accounts) evs Map.empty"

lemma stats_at_upd [simp]: "stats_at k (st(k' \<mapsto> s)) = (if k = k' then s else stats_at k st)"
  by (simp add: stats_at_def)

lemma stats_at_run:
  "stats_at key (fst (statistical_baseline_run config accounts evs)) = stats_of (sizes key evs)"
proof (induction evs rule: rev_induct)
  case Nil
  show ?case by (simp add: stats_at_def sizes_def map_filter_def stats_of_def)
next
  case (snoc be evs)
  obtain b e where be: "be = (b, e)" by fastforce
  have "fst (statistical_baseline_run config accounts (evs @ [be])) =
      fst (statistical_baseline_evaluate config accounts b e (fst (statistical_baseline_run config accounts evs)))"
    by (simp add: run_detector_append be split_beta Let_def)
  with snoc show ?case
    by (cases e) (auto simp: be sizes_snoc Let_def stats_of_def simp del: fun_upd_apply)
qed

text \<open>
  The running mean.  After any history, the mean kept for an account and instrument is
  between the least and the greatest order size seen under its key, its count is their number,
  and the sum of squares behind the variance is not negative, all in rounded arithmetic; so the
  square root taken of the sample variance is always defined.
\<close>

theorem baseline_mean_in_range:
  "let stats = stats_at key (fst (statistical_baseline_run config accounts evs)); vs = sizes key evs
   in rs_count stats = int (length vs) \<and> 0 \<le> rs_m2 stats \<and> 0 \<le> sample_variance stats \<and>
      (if vs = [] then True else Min (set vs) \<le> rs_mean stats \<and> rs_mean stats \<le> Max (set vs))"
proof -
  have wf: "stats_wf (stats_of (sizes key evs))" using stats_of_wf [OF sizes_double] by blast
  then have "0 \<le> sample_variance (stats_of (sizes key evs))"
    by (auto simp: stats_wf_def sample_variance_def intro!: fdiv_nonneg to_double_nonneg)
  with wf stats_of_wf [OF sizes_double] show ?thesis
    by (simp add: Let_def stats_at_run stats_wf_def)
qed

lemma double_twice:
  assumes "is_double t" shows "rnd64 (2 * t) = 2 * t"
proof (cases "t = 0")
  case False
  define m where "m = round_half_even (t / pow2 (ulp_exp t))"
  have t: "t = of_int m * pow2 (ulp_exp t)"
    using assms False by (simp add: is_double_def rnd64_def m_def)
  have "2 * t = of_int m * pow2 (ulp_exp t + 1)"
    by (subst t) (simp add: pow2_add pow2_def [of 1])
  then show ?thesis
    by (rule rnd64_exact) (use rnd64_significand [OF False] in \<open>simp_all add: m_def ulp_exp_def\<close>)
qed simp

lemma score_at_threshold:
  assumes "is_double t" and "0 < t" and "t \<le> z"
  shows "1 / 2 \<le> clamp (fdiv z (fmul 2 t)) 0 1"
proof -
  have half: "rnd64 (1 / 2) = 1 / 2"
    by (rule rnd64_exact [where m = 1 and e = "- 1"]) (simp_all add: pow2_def)
  have "1 / 2 \<le> z / (2 * t)" using assms(2,3) by (simp add: field_simps)
  then have "1 / 2 \<le> rnd64 (z / (2 * t))" using rnd64_mono half by metis
  then have "1 / 2 \<le> fdiv z (fmul 2 t)" by (simp add: fdiv_def fmul_def double_twice [OF assms(1)])
  then show ?thesis by (auto simp: clamp_def)
qed

text \<open>
  The baseline's alerts.  With a positive threshold an alert is raised for a New order only
  when at least \<open>min_sample_count\<close> orders have been seen under its key and the computed
  \<open>|z|\<close>, against the statistics before this order, reaches the threshold; its score is then
  between one half and one.
\<close>

theorem baseline_alert_sound:
  assumes "is_double (sb_z_score_threshold config)" and "0 < sb_z_score_threshold config"
    and "a \<in> set (snd (statistical_baseline_evaluate config accounts book (OrderEvent ord)
           (fst (statistical_baseline_run config accounts evs))))"
  shows "sb_min_sample_count config \<le> int (length (sizes (stats_key ord) evs)) \<and>
    1 / 2 \<le> al_score a \<and> al_score a \<le> 1 \<and>
    (let stats = stats_of (sizes (stats_key ord) evs)
     in sb_z_score_threshold config \<le>
        \<bar>fdiv (fsub (to_double (o_qty ord)) (rs_mean stats)) (fsqrt (sample_variance stats))\<bar>)"
proof -
  let ?stats = "stats_of (sizes (stats_key ord) evs)"
  have "a \<in> set (statistical_baseline_alerts config book ord ?stats)"
    using assms(3) by (simp add: Let_def stats_at_run split: if_splits)
  moreover have "rs_count ?stats = int (length (sizes (stats_key ord) evs))"
    using stats_of_wf [OF sizes_double] by blast
  ultimately show ?thesis
    using score_at_threshold [OF assms(1,2)] clamp_unit
    by (auto simp: statistical_baseline_alerts_def statistical_baseline_alert_def Let_def split: if_splits)
qed

definition sized_order :: "int \<Rightarrow> order" where
  "sized_order q = default_order\<lparr>o_qty := q\<rparr>"

definition demo_sizes :: "(order_book \<times> event) list" where
  "demo_sizes = map (\<lambda>q. (empty_book '''', OrderEvent (sized_order q))) [9, 11, 9, 11, 10]"

lemma fsqrt_1: "fsqrt 1 = 1"
proof -
  have "ilog2 (1::rat) = 0" by (rule ilog2_unique) (simp_all add: pow2_def)
  moreover have "isqrt 1298074214633706907132624082305024 = 36028797018963968"
    using isqrt_square [of 36028797018963968] by simp
  ultimately show ?thesis by (simp add: fsqrt_def Let_def pow2_def)
qed

lemma demo_stats:
  "sizes (stats_key (sized_order 30)) demo_sizes = [9, 11, 9, 11, 10]"
  by (simp add: sizes_def demo_sizes_def map_filter_def stats_key_def sized_order_def default_order_def
      to_double_exact)

theorem baseline_alert_sound_witness:
  "\<exists>a \<in> set (snd (statistical_baseline_evaluate default_statistical_baseline_config empty_registry
       (empty_book '''') (OrderEvent (sized_order 30))
       (fst (statistical_baseline_run default_statistical_baseline_config empty_registry demo_sizes)))).
     1 / 2 \<le> al_score a \<and> al_score a \<le> 1"
proof -
  let ?r = "snd (statistical_baseline_evaluate default_statistical_baseline_config empty_registry
       (empty_book '''') (OrderEvent (sized_order 30))
       (fst (statistical_baseline_run default_statistical_baseline_config empty_registry demo_sizes)))"
  have st: "o_status (sized_order 30) = KNew" "o_qty (sized_order 30) = 30"
    by (simp_all add: sized_order_def default_order_def)
  have stats: "stats_of [9, 11, 9, 11, 10] = \<lparr>rs_count = 5, rs_mean = 10, rs_m2 = 4\<rparr>"
    by (simp add: stats_of_def update_stats_def Let_def empty_stats_def float_eval)
  have "?r \<noteq> []"
    by (simp add: Let_def stats_at_run demo_stats st stats statistical_baseline_alerts_def
        default_statistical_baseline_config_def sample_variance_def fsqrt_1 float_eval)
  then obtain a where a: "a \<in> set ?r" by (cases ?r) auto
  have three: "is_double (sb_z_score_threshold default_statistical_baseline_config)"
    "0 < sb_z_score_threshold default_statistical_baseline_config"
    using rnd64_of_int [of 3] by (simp_all add: default_statistical_baseline_config_def is_double_def)
  from baseline_alert_sound [OF three a] have "1 / 2 \<le> al_score a \<and> al_score a \<le> 1" by blast
  with a show ?thesis by (rule bexI [rotated])
qed

end
