(* ===== verification/Spoofing_Layering.thy ===== *)
theory Spoofing_Layering
  imports Detector
begin

text \<open>
  \<open>cpp/detectors/spoofing_layering_detector.cpp\<close>.  The state is the map of tracked orders, the
  number of them per account, instrument and side, and the ambient conditions per instrument
  and side.  Scores are binary64, every operation rounded, in the order of the source.
\<close>

record spoofing_layering_config =
  sl_alert_threshold :: double
  sl_slow_time_in_book_ns :: int
  sl_min_opposite_price_move :: double
  sl_layering_saturation_count :: int
  sl_layering_bonus_weight :: double
  sl_density_window_ns :: int

definition default_spoofing_layering_config :: spoofing_layering_config where
  "default_spoofing_layering_config =
     \<lparr>sl_alert_threshold = rnd64 (6 / 10), sl_slow_time_in_book_ns = 5000000000,
      sl_min_opposite_price_move = rnd64 (1 / 100), sl_layering_saturation_count = 3,
      sl_layering_bonus_weight = rnd64 (15 / 100), sl_density_window_ns = 30000000000\<rparr>"

record tracked_order =
  tr_account_id :: string
  tr_instrument_id :: string
  tr_side :: side
  tr_remaining_qty :: int
  tr_placed_ts :: int
  tr_depth_ratio_at_placement :: double
  tr_opposite_best_at_placement :: "double option"

record concurrent_sample =
  cs_timestamp_ns :: int
  cs_account_id :: string
  cs_concurrent_count :: int

record ambient_tracker =
  am_recent_move_timestamps :: "int list"
  am_recent_concurrent_samples :: "concurrent_sample list"
  am_last_best_price :: "double option"

record spoofing_layering_state =
  sp_tracked :: "string \<rightharpoonup> tracked_order"
  sp_ambient :: "string \<rightharpoonup> ambient_tracker"
  sp_concurrent_count :: "string \<rightharpoonup> int"

definition spoofing_layering_name :: string where
  "spoofing_layering_name = ''SpoofingLayeringDetector''"

definition empty_spoofing_state :: spoofing_layering_state where
  "empty_spoofing_state =
     \<lparr>sp_tracked = Map.empty, sp_ambient = Map.empty, sp_concurrent_count = Map.empty\<rparr>"

definition side_letter :: "side \<Rightarrow> string" where
  "side_letter side = (case side of KBuy \<Rightarrow> ''B'' | KSell \<Rightarrow> ''S'')"

definition concurrency_key :: "string \<Rightarrow> string \<Rightarrow> side \<Rightarrow> string" where
  "concurrency_key account instrument side = account @ ''|'' @ instrument @ ''|'' @ side_letter side"

definition instrument_side_key :: "string \<Rightarrow> side \<Rightarrow> string" where
  "instrument_side_key instrument side = instrument @ ''|'' @ side_letter side"

definition empty_tracker :: ambient_tracker where
  "empty_tracker = \<lparr>am_recent_move_timestamps = [], am_recent_concurrent_samples = [],
     am_last_best_price = None\<rparr>"

definition tracker_at :: "string \<Rightarrow> spoofing_layering_state \<Rightarrow> ambient_tracker" where
  "tracker_at key st = (case sp_ambient st key of None \<Rightarrow> empty_tracker | Some t \<Rightarrow> t)"

section \<open>Ambient conditions\<close>

definition update_tracker ::
    "spoofing_layering_config \<Rightarrow> double option \<Rightarrow> int \<Rightarrow> ambient_tracker \<Rightarrow> ambient_tracker" where
  "update_tracker config price event_ts tracker =
     (let moved = (case (am_last_best_price tracker, price) of
                     (Some q, Some p) \<Rightarrow> p \<noteq> q | _ \<Rightarrow> False);
          moves = am_recent_move_timestamps tracker @ (if moved then [event_ts] else [])
      in \<lparr>am_recent_move_timestamps =
            filter (\<lambda>ts. \<not> sl_density_window_ns config < \<bar>event_ts - ts\<bar>) moves,
          am_recent_concurrent_samples =
            filter (\<lambda>s. \<not> sl_density_window_ns config < \<bar>event_ts - cs_timestamp_ns s\<bar>)
              (am_recent_concurrent_samples tracker),
          am_last_best_price = (case price of None \<Rightarrow> am_last_best_price tracker | Some p \<Rightarrow> Some p)\<rparr>)"

definition update_ambient_side ::
    "spoofing_layering_config \<Rightarrow> order_book \<Rightarrow> string \<Rightarrow> int \<Rightarrow> side
     \<Rightarrow> spoofing_layering_state \<Rightarrow> spoofing_layering_state" where
  "update_ambient_side config book instrument event_ts side st =
     (let key = instrument_side_key instrument side
      in st\<lparr>sp_ambient := (sp_ambient st)
             (key \<mapsto> update_tracker config (best_price side book) event_ts (tracker_at key st))\<rparr>)"

definition update_ambient ::
    "spoofing_layering_config \<Rightarrow> order_book \<Rightarrow> string \<Rightarrow> int
     \<Rightarrow> spoofing_layering_state \<Rightarrow> spoofing_layering_state" where
  "update_ambient config book instrument event_ts st =
     fold (update_ambient_side config book instrument event_ts) [KBuy, KSell] st"

section \<open>Tracking\<close>

definition tracked_of :: "order_book \<Rightarrow> order \<Rightarrow> tracked_order" where
  "tracked_of book order =
     (let level_qty = qty_at_price (o_side order) (o_price order) book
      in \<lparr>tr_account_id = o_account_id order, tr_instrument_id = o_instrument_id order,
          tr_side = o_side order, tr_remaining_qty = o_qty order,
          tr_placed_ts = o_timestamp_ns order,
          tr_depth_ratio_at_placement =
            (if 0 < level_qty then fdiv (to_double (o_qty order)) (to_double level_qty) else 0),
          tr_opposite_best_at_placement = best_price (opposite_of (o_side order)) book\<rparr>)"

definition key_of :: "tracked_order \<Rightarrow> string" where
  "key_of t = concurrency_key (tr_account_id t) (tr_instrument_id t) (tr_side t)"

definition count_at :: "string \<Rightarrow> spoofing_layering_state \<Rightarrow> int" where
  "count_at key st = (case sp_concurrent_count st key of None \<Rightarrow> 0 | Some n \<Rightarrow> n)"

definition track_new :: "order_book \<Rightarrow> order \<Rightarrow> spoofing_layering_state \<Rightarrow> spoofing_layering_state" where
  "track_new book order st =
     (let tracked = tracked_of book order;
          new_count = count_at (key_of tracked) st + 1;
          ambient_key = instrument_side_key (o_instrument_id order) (o_side order);
          tracker = tracker_at ambient_key st;
          sample = \<lparr>cs_timestamp_ns = o_timestamp_ns order, cs_account_id = o_account_id order,
                    cs_concurrent_count = new_count\<rparr>
      in \<lparr>sp_tracked = (sp_tracked st)(o_order_id order \<mapsto> tracked),
          sp_ambient = (sp_ambient st)(ambient_key \<mapsto> tracker\<lparr>am_recent_concurrent_samples :=
             am_recent_concurrent_samples tracker @ [sample]\<rparr>),
          sp_concurrent_count = (sp_concurrent_count st)(key_of tracked \<mapsto> new_count)\<rparr>)"

definition erase_tracked ::
    "string \<Rightarrow> spoofing_layering_state \<Rightarrow> spoofing_layering_state \<times> tracked_order option" where
  "erase_tracked oid st =
     (case sp_tracked st oid of
        None \<Rightarrow> (st, None)
      | Some erased \<Rightarrow>
          let key = key_of erased
          in (st\<lparr>sp_tracked := (sp_tracked st)(oid := None),
                sp_concurrent_count :=
                  (case sp_concurrent_count st key of
                     None \<Rightarrow> sp_concurrent_count st
                   | Some n \<Rightarrow> if n - 1 \<le> 0 then (sp_concurrent_count st)(key := None)
                               else (sp_concurrent_count st)(key \<mapsto> n - 1))\<rparr>,
              Some erased))"

definition spoofing_handle_replace ::
    "order_book \<Rightarrow> order \<Rightarrow> spoofing_layering_state \<Rightarrow> spoofing_layering_state" where
  "spoofing_handle_replace book order st =
     track_new book order (fst (erase_tracked (o_orig_order_id order) st))"

definition spoofing_handle_execution ::
    "execution \<Rightarrow> spoofing_layering_state \<Rightarrow> spoofing_layering_state" where
  "spoofing_handle_execution execution st =
     (case sp_tracked st (x_order_id execution) of
        None \<Rightarrow> st
      | Some t \<Rightarrow>
          let left = tr_remaining_qty t - x_qty execution;
              st1 = st\<lparr>sp_tracked := (sp_tracked st)
                        (x_order_id execution \<mapsto> t\<lparr>tr_remaining_qty := left\<rparr>)\<rparr>
          in if left \<le> 0 then fst (erase_tracked (x_order_id execution) st1) else st1)"

definition count_concurrent_same_account_same_side ::
    "string \<Rightarrow> string \<Rightarrow> side \<Rightarrow> spoofing_layering_state \<Rightarrow> int" where
  "count_concurrent_same_account_same_side account instrument side st =
     count_at (concurrency_key account instrument side) st"

section \<open>Scoring a cancellation\<close>

definition giga :: double where
  "giga = 1000000000"

definition speed_score :: "spoofing_layering_config \<Rightarrow> int \<Rightarrow> double" where
  "speed_score config time_in_book_ns =
     (if 0 < sl_slow_time_in_book_ns config
      then clamp (fsub 1 (fdiv (to_double time_in_book_ns) (to_double (sl_slow_time_in_book_ns config)))) 0 1
      else 0)"

definition depth_score :: "tracked_order \<Rightarrow> double" where
  "depth_score tracked = clamp (tr_depth_ratio_at_placement tracked) 0 1"

definition moved_favorably :: "spoofing_layering_config \<Rightarrow> order_book \<Rightarrow> tracked_order \<Rightarrow> bool" where
  "moved_favorably config book tracked =
     (case (tr_opposite_best_at_placement tracked, best_price (opposite_of (tr_side tracked)) book) of
        (Some at_placement, Some opposite_now) \<Rightarrow>
          let delta = fsub opposite_now at_placement
          in (case tr_side tracked of
                KBuy \<Rightarrow> sl_min_opposite_price_move config \<le> delta
              | KSell \<Rightarrow> delta \<le> - sl_min_opposite_price_move config)
      | _ \<Rightarrow> False)"

definition recent_move_rate ::
    "spoofing_layering_config \<Rightarrow> tracked_order \<Rightarrow> spoofing_layering_state \<Rightarrow> double" where
  "recent_move_rate config tracked st =
     (case sp_ambient st (instrument_side_key (tr_instrument_id tracked) (opposite_of (tr_side tracked))) of
        None \<Rightarrow> 0
      | Some t \<Rightarrow>
          if 0 < sl_density_window_ns config
          then let window_s = fdiv (to_double (sl_density_window_ns config)) giga
               in fdiv (to_double (int (length (am_recent_move_timestamps t)))) window_s
          else 0)"

definition move_score ::
    "spoofing_layering_config \<Rightarrow> order_book \<Rightarrow> tracked_order \<Rightarrow> int \<Rightarrow> spoofing_layering_state \<Rightarrow> double" where
  "move_score config book tracked time_in_book_ns st =
     (if moved_favorably config book tracked
      then let dwell_s = fdiv (to_double time_in_book_ns) giga;
               dwell_cap_s = fdiv (to_double (sl_slow_time_in_book_ns config)) giga;
               effective_dwell_s = min dwell_s dwell_cap_s;
               expected = fmul (recent_move_rate config tracked st) effective_dwell_s
           in clamp (fsub 1 expected) 0 1
      else 0)"

definition typical_concurrent :: "tracked_order \<Rightarrow> spoofing_layering_state \<Rightarrow> double" where
  "typical_concurrent tracked st =
     (case sp_ambient st (instrument_side_key (tr_instrument_id tracked) (tr_side tracked)) of
        None \<Rightarrow> 0
      | Some t \<Rightarrow>
          let others = filter (\<lambda>s. cs_account_id s \<noteq> tr_account_id tracked) (am_recent_concurrent_samples t);
              total = foldl (\<lambda>acc s. fadd acc (to_double (cs_concurrent_count s))) 0 others;
              count = int (length others)
          in if 0 < count then fdiv total (to_double count) else 0)"

definition layering_score ::
    "spoofing_layering_config \<Rightarrow> tracked_order \<Rightarrow> int \<Rightarrow> spoofing_layering_state \<Rightarrow> double" where
  "layering_score config tracked concurrent st =
     (if 0 < sl_layering_saturation_count config
      then clamp (fdiv (fsub (to_double concurrent) (typical_concurrent tracked st))
                       (to_double (sl_layering_saturation_count config))) 0 1
      else 0)"

definition primary_score ::
    "spoofing_layering_config \<Rightarrow> order_book \<Rightarrow> tracked_order \<Rightarrow> int \<Rightarrow> spoofing_layering_state \<Rightarrow> double" where
  "primary_score config book tracked time_in_book_ns st =
     fdiv (fadd (fadd (depth_score tracked) (speed_score config time_in_book_ns))
                (move_score config book tracked time_in_book_ns st)) 3"

definition combined_score :: "spoofing_layering_config \<Rightarrow> double \<Rightarrow> double \<Rightarrow> double" where
  "combined_score config primary layering =
     clamp (fadd primary (fmul (sl_layering_bonus_weight config) layering)) 0 1"

definition spoofing_alert ::
    "spoofing_layering_config \<Rightarrow> order_book \<Rightarrow> order \<Rightarrow> tracked_order \<Rightarrow> spoofing_layering_state \<Rightarrow> alert" where
  "spoofing_alert config book order tracked st =
     (let dwell = o_timestamp_ns order - tr_placed_ts tracked;
          concurrent = count_concurrent_same_account_same_side (tr_account_id tracked)
            (tr_instrument_id tracked) (tr_side tracked) st;
          layering = layering_score config tracked concurrent st
      in \<lparr>al_detector_name = spoofing_layering_name,
          al_score = combined_score config (primary_score config book tracked dwell st) layering,
          al_instrument_id = tr_instrument_id tracked,
          al_account_ids = [tr_account_id tracked],
          al_order_ids = [o_orig_order_id order],
          al_window_start_ns = tr_placed_ts tracked,
          al_window_end_ns = o_timestamp_ns order,
          al_evidence = ''depth_ratio='' @ to_string_double (depth_score tracked) @
            '' speed='' @ to_string_double (speed_score config dwell) @
            '' opposite_price_moved_favorably='' @ show_bool (moved_favorably config book tracked) @
            '' move_score='' @ to_string_double (move_score config book tracked dwell st) @
            '' concurrent_same_side_orders='' @ show_int concurrent @
            '' typical_concurrent='' @ to_string_double (typical_concurrent tracked st) @
            '' layering_score='' @ to_string_double layering @
            '' time_in_book_ns='' @ show_int dwell,
          al_model_version = None,
          al_book_snapshot_sequence = Some (sequence_ref book)\<rparr>)"

definition spoofing_handle_cancel ::
    "spoofing_layering_config \<Rightarrow> order_book \<Rightarrow> order \<Rightarrow> spoofing_layering_state
     \<Rightarrow> spoofing_layering_state \<times> alert list" where
  "spoofing_handle_cancel config book order st =
     (case erase_tracked (o_orig_order_id order) st of
        (st1, None) \<Rightarrow> (st1, [])
      | (st1, Some tracked) \<Rightarrow>
          if o_timestamp_ns order < tr_placed_ts tracked then (st1, [])
          else let alert = spoofing_alert config book order tracked st1
               in if al_score alert < sl_alert_threshold config then (st1, []) else (st1, [alert]))"

fun spoofing_layering_evaluate ::
    "spoofing_layering_config \<Rightarrow> account_registry \<Rightarrow> spoofing_layering_state evaluation" where
  "spoofing_layering_evaluate config accounts book (OrderEvent order) st =
     (let st = update_ambient config book (o_instrument_id order) (o_timestamp_ns order) st
      in case o_status order of
           KNew \<Rightarrow> (track_new book order st, [])
         | KCancelled \<Rightarrow> spoofing_handle_cancel config book order st
         | KReplaced \<Rightarrow> (spoofing_handle_replace book order st, []))"
| "spoofing_layering_evaluate config accounts book (ExecutionEvent execution) st =
     (let st = update_ambient config book (x_instrument_id execution) (x_timestamp_ns execution) st
      in (spoofing_handle_execution execution st, []))"

interpretation spoofing_layering: detector "spoofing_layering_evaluate config accounts"
    spoofing_layering_name "\<lambda>_. True" for config accounts
proof
  fix s :: spoofing_layering_state and a book incoming
  assume "a \<in> set (snd (spoofing_layering_evaluate config accounts book incoming s))"
  then show "conforms spoofing_layering_name book incoming a"
    by (cases incoming)
      (auto simp: conforms_def spoofing_handle_cancel_def spoofing_alert_def Let_def combined_score_def
        clamp_unit split: if_splits order_status.splits prod.splits option.splits)
qed simp

section \<open>The counters\<close>

text \<open>
  The counter of a key is the number of tracked orders with that key, and there is no counter
  when there is no such order.
\<close>

definition tracked_with_key :: "string \<Rightarrow> (string \<rightharpoonup> tracked_order) \<Rightarrow> string set" where
  "tracked_with_key key m = {i. \<exists>t. m i = Some t \<and> key_of t = key}"

definition counts_ok :: "spoofing_layering_state \<Rightarrow> bool" where
  "counts_ok st \<longleftrightarrow> finite (dom (sp_tracked st)) \<and>
     (\<forall>key. sp_concurrent_count st key =
        (let n = card (tracked_with_key key (sp_tracked st)) in if n = 0 then None else Some (int n)))"

lemma tracked_with_key_finite [simp]: "finite (dom m) \<Longrightarrow> finite (tracked_with_key key m)"
  by (rule finite_subset [of _ "dom m"]) (auto simp: tracked_with_key_def)

lemma count_at_ok: "counts_ok st \<Longrightarrow> count_at key st = int (card (tracked_with_key key (sp_tracked st)))"
  by (simp add: counts_ok_def count_at_def Let_def)

lemma counts_okI:
  assumes "finite (dom (sp_tracked st))"
    and "\<And>key. sp_concurrent_count st key =
      (if card (tracked_with_key key (sp_tracked st)) = 0 then None
       else Some (int (card (tracked_with_key key (sp_tracked st)))))"
  shows "counts_ok st"
  using assms by (simp add: counts_ok_def Let_def)

lemma counts_okD:
  assumes "counts_ok st"
  shows "finite (dom (sp_tracked st))"
    and "sp_concurrent_count st key =
      (if card (tracked_with_key key (sp_tracked st)) = 0 then None
       else Some (int (card (tracked_with_key key (sp_tracked st)))))"
  using assms by (simp_all add: counts_ok_def Let_def)

lemma update_ambient_fields [simp]:
  "sp_tracked (update_ambient config book i ts st) = sp_tracked st"
  "sp_concurrent_count (update_ambient config book i ts st) = sp_concurrent_count st"
  by (simp_all add: update_ambient_def update_ambient_side_def Let_def)

lemma counts_ambient [simp]: "counts_ok (update_ambient config book i ts st) = counts_ok st"
  by (simp add: counts_ok_def)

lemma key_of_tracked: "key_of (tracked_of book ord) =
    concurrency_key (o_account_id ord) (o_instrument_id ord) (o_side ord)"
  by (simp add: key_of_def tracked_of_def Let_def)

lemma counts_track_new:
  assumes "counts_ok st" and "sp_tracked st (o_order_id ord) = None"
  shows "counts_ok (track_new book ord st)"
proof -
  let ?m = "sp_tracked st" and ?i = "o_order_id ord" and ?t = "tracked_of book ord"
  have keys: "tracked_with_key key (?m(?i \<mapsto> ?t)) =
      (if key = key_of ?t then insert ?i (tracked_with_key key ?m) else tracked_with_key key ?m)" for key
    using assms(2) by (auto simp: tracked_with_key_def)
  have "?i \<notin> tracked_with_key key ?m" for key using assms(2) by (simp add: tracked_with_key_def)
  then have card: "card (tracked_with_key key (?m(?i \<mapsto> ?t))) =
      (if key = key_of ?t then Suc (card (tracked_with_key key ?m)) else card (tracked_with_key key ?m))" for key
    using counts_okD(1) [OF assms(1)] by (simp add: keys)
  show ?thesis
  proof (rule counts_okI)
    show "finite (dom (sp_tracked (track_new book ord st)))"
      using counts_okD(1) [OF assms(1)] by (simp add: track_new_def Let_def)
    have fields: "sp_tracked (track_new book ord st) = ?m(?i \<mapsto> ?t)"
      "sp_concurrent_count (track_new book ord st) =
        (sp_concurrent_count st)(key_of ?t \<mapsto> count_at (key_of ?t) st + 1)"
      by (simp_all add: track_new_def Let_def)
    show "sp_concurrent_count (track_new book ord st) key =
      (if card (tracked_with_key key (sp_tracked (track_new book ord st))) = 0 then None
       else Some (int (card (tracked_with_key key (sp_tracked (track_new book ord st))))))" for key
      unfolding fields card using counts_okD(2) [OF assms(1)] count_at_ok [OF assms(1)] by simp
  qed
qed

lemma counts_erase_tracked:
  assumes "counts_ok st"
  shows "counts_ok (fst (erase_tracked i st))"
proof (cases "sp_tracked st i")
  case None
  with assms show ?thesis by (simp add: erase_tracked_def)
next
  case (Some t)
  let ?m = "sp_tracked st"
  have keys: "tracked_with_key key (?m(i := None)) =
      (if key = key_of t then tracked_with_key key ?m - {i} else tracked_with_key key ?m)" for key
    using Some by (auto simp: tracked_with_key_def)
  have i: "i \<in> tracked_with_key (key_of t) ?m" using Some by (auto simp: tracked_with_key_def)
  have fin: "finite (tracked_with_key key ?m)" for key using counts_okD(1) [OF assms] by simp
  have card: "card (tracked_with_key key (?m(i := None))) =
      (if key = key_of t then card (tracked_with_key key ?m) - 1 else card (tracked_with_key key ?m))" for key
    using i by (simp add: keys)
  have pos: "0 < card (tracked_with_key (key_of t) ?m)" using i fin card_gt_0_iff by blast
  show ?thesis
  proof (rule counts_okI)
    show "finite (dom (sp_tracked (fst (erase_tracked i st))))"
      using counts_okD(1) [OF assms] Some by (simp add: erase_tracked_def Let_def)
    have fields: "sp_tracked (fst (erase_tracked i st)) = ?m(i := None)"
      using Some by (simp add: erase_tracked_def Let_def)
    show "sp_concurrent_count (fst (erase_tracked i st)) key =
      (if card (tracked_with_key key (sp_tracked (fst (erase_tracked i st)))) = 0 then None
       else Some (int (card (tracked_with_key key (sp_tracked (fst (erase_tracked i st)))))))" for key
      unfolding fields card using counts_okD(2) [OF assms] pos Some
      by (auto simp: erase_tracked_def Let_def)
  qed
qed

lemma counts_requantify:
  assumes "counts_ok st" and "sp_tracked st i = Some t"
  shows "counts_ok (st\<lparr>sp_tracked := (sp_tracked st)(i \<mapsto> t\<lparr>tr_remaining_qty := q\<rparr>)\<rparr>)"
proof -
  have "key_of (t\<lparr>tr_remaining_qty := q\<rparr>) = key_of t" by (simp add: key_of_def)
  then have "tracked_with_key key ((sp_tracked st)(i \<mapsto> t\<lparr>tr_remaining_qty := q\<rparr>)) =
      tracked_with_key key (sp_tracked st)" for key
    using assms(2) by (auto simp: tracked_with_key_def)
  then show ?thesis using assms(1) by (simp add: counts_ok_def)
qed

text \<open>A New order, or the replacement order, has an id that is not tracked at that time.\<close>

fun places_fresh :: "event \<Rightarrow> spoofing_layering_state \<Rightarrow> bool" where
  "places_fresh (ExecutionEvent x) st = True"
| "places_fresh (OrderEvent ord) st =
     (case o_status ord of
        KNew \<Rightarrow> sp_tracked st (o_order_id ord) = None
      | KCancelled \<Rightarrow> True
      | KReplaced \<Rightarrow> o_order_id ord = o_orig_order_id ord \<or> sp_tracked st (o_order_id ord) = None)"

lemma erase_tracked_map: "sp_tracked (fst (erase_tracked i st)) = (sp_tracked st)(i := None)"
  by (auto simp: erase_tracked_def Let_def split: option.split)

lemma counts_step:
  assumes "counts_ok st" and "places_fresh e st"
  shows "counts_ok (fst (spoofing_layering_evaluate config accounts book e st))"
proof (cases e)
  case (ExecutionEvent x)
  let ?st = "update_ambient config book (x_instrument_id x) (x_timestamp_ns x) st"
  show ?thesis
    using assms(1) counts_requantify [of ?st "x_order_id x"]
    by (auto simp: ExecutionEvent spoofing_handle_execution_def Let_def split: option.split
        intro!: counts_erase_tracked counts_requantify)
next
  case (OrderEvent ord)
  let ?st = "update_ambient config book (o_instrument_id ord) (o_timestamp_ns ord) st"
  have ok: "counts_ok ?st" using assms(1) by simp
  show ?thesis
  proof (cases "o_status ord")
    case KNew
    with assms(2) OrderEvent show ?thesis by (auto simp: Let_def intro!: counts_track_new ok)
  next
    case KCancelled
    have "fst (spoofing_handle_cancel config book ord ?st) = fst (erase_tracked (o_orig_order_id ord) ?st)"
      by (auto simp: spoofing_handle_cancel_def Let_def split: prod.split option.split)
    with KCancelled OrderEvent counts_erase_tracked [OF ok] show ?thesis by simp
  next
    case KReplaced
    with assms(2) OrderEvent show ?thesis
      by (auto simp: Let_def spoofing_handle_replace_def erase_tracked_map
          intro!: counts_track_new counts_erase_tracked ok)
  qed
qed

lemma counts_empty: "counts_ok empty_spoofing_state"
  by (simp add: counts_ok_def empty_spoofing_state_def tracked_with_key_def)

abbreviation spoofing_run where
  "spoofing_run config accounts evs \<equiv>
     run_detector (spoofing_layering_evaluate config accounts) evs empty_spoofing_state"

section \<open>Where tracked orders come from\<close>

fun places :: "event \<Rightarrow> order option" where
  "places (ExecutionEvent _) = None"
| "places (OrderEvent ord) = (if o_status ord = KCancelled then None else Some ord)"

text \<open>The placing events of a history.\<close>

definition placed :: "(order_book \<times> event) list \<Rightarrow> order list" where
  "placed evs = List.map_filter (\<lambda>(_, e). places e) evs"

lemma placed_snoc: "placed (evs @ [(b, e)]) = placed evs @ (case places e of None \<Rightarrow> [] | Some ord \<Rightarrow> [ord])"
  by (simp add: placed_def map_filter_def split: option.split)

definition comes_from :: "order list \<Rightarrow> string \<Rightarrow> tracked_order \<Rightarrow> bool" where
  "comes_from ords i t \<longleftrightarrow> (\<exists>ord \<in> set ords. o_order_id ord = i \<and>
     tr_account_id t = o_account_id ord \<and> tr_instrument_id t = o_instrument_id ord \<and>
     tr_side t = o_side ord \<and> tr_placed_ts t = o_timestamp_ns ord)"

lemma comes_from_mono: "comes_from ords i t \<Longrightarrow> comes_from (ords @ ords2) i t"
  by (auto simp: comes_from_def)

lemma comes_from_requantify [simp]:
  "comes_from ords i (t\<lparr>tr_remaining_qty := q\<rparr>) = comes_from ords i t"
  by (simp add: comes_from_def)

lemma comes_from_new: "ord \<in> set ords \<Longrightarrow> comes_from ords (o_order_id ord) (tracked_of book ord)"
  by (auto simp: comes_from_def tracked_of_def Let_def)

lemma track_new_map: "sp_tracked (track_new book ord st) = (sp_tracked st)(o_order_id ord \<mapsto> tracked_of book ord)"
  by (simp add: track_new_def Let_def)

lemma spoofing_step_tracked:
  assumes "sp_tracked (fst (spoofing_layering_evaluate config accounts book e st)) i = Some t"
  shows "(\<exists>t0 q. sp_tracked st i = Some t0 \<and> t = t0\<lparr>tr_remaining_qty := q\<rparr>) \<or>
    (\<exists>ord. places e = Some ord \<and> i = o_order_id ord \<and> t = tracked_of book ord)"
proof -
  have keep: "\<exists>q. t = t\<lparr>tr_remaining_qty := q\<rparr>" by (intro exI [of _ "tr_remaining_qty t"]) simp
  show ?thesis
  proof (cases e)
    case (ExecutionEvent x)
    with assms keep show ?thesis
      by (auto simp: spoofing_handle_execution_def Let_def erase_tracked_map split: option.splits if_splits)
  next
    case (OrderEvent ord)
    then show ?thesis
    proof (cases "o_status ord")
      case KCancelled
      then have "sp_tracked (fst (spoofing_layering_evaluate config accounts book e st)) =
          (sp_tracked st)(o_orig_order_id ord := None)"
        using OrderEvent erase_tracked_map [of "o_orig_order_id ord"
            "update_ambient config book (o_instrument_id ord) (o_timestamp_ns ord) st"]
        by (auto simp: spoofing_handle_cancel_def Let_def split: prod.split option.split)
      with assms keep show ?thesis by (auto split: if_splits)
    qed (use assms keep OrderEvent in \<open>auto simp: Let_def track_new_map spoofing_handle_replace_def
        erase_tracked_map split: if_splits\<close>)
  qed
qed

lemma tracked_comes_from:
  "sp_tracked (fst (spoofing_run config accounts evs)) i = Some t \<Longrightarrow> comes_from (placed evs) i t"
proof (induction evs arbitrary: i t rule: rev_induct)
  case Nil
  then show ?case by (simp add: empty_spoofing_state_def)
next
  case (snoc be evs)
  obtain b e where be: "be = (b, e)" by fastforce
  from snoc.prems spoofing_step_tracked [of config accounts b e "fst (spoofing_run config accounts evs)" i t]
  consider t0 q where "sp_tracked (fst (spoofing_run config accounts evs)) i = Some t0"
      "t = t0\<lparr>tr_remaining_qty := q\<rparr>"
    | ord where "places e = Some ord" "i = o_order_id ord" "t = tracked_of b ord"
    unfolding be run_detector_snoc by blast
  then show ?case
  proof cases
    case 1
    with snoc.IH show ?thesis by (simp add: be placed_snoc comes_from_mono)
  next
    case 2
    then show ?thesis by (simp add: be placed_snoc comes_from_new)
  qed
qed

section \<open>Scores\<close>

lemma depth_score_unit: "0 \<le> depth_score t \<and> depth_score t \<le> 1"
  by (simp add: depth_score_def clamp_unit)

lemma speed_score_unit: "0 \<le> speed_score config d \<and> speed_score config d \<le> 1"
  by (simp add: speed_score_def clamp_unit)

lemma move_score_unit: "0 \<le> move_score config book t d st \<and> move_score config book t d st \<le> 1"
  by (simp add: move_score_def clamp_unit Let_def)

lemma layering_score_unit: "0 \<le> layering_score config t c st \<and> layering_score config t c st \<le> 1"
  by (simp add: layering_score_def clamp_unit)

lemma clamp_le_self: "0 \<le> x \<Longrightarrow> clamp x 0 1 \<le> x"
  by (simp add: clamp_def)

lemma primary_score_nonneg: "0 \<le> primary_score config book t d st"
  unfolding primary_score_def
  using depth_score_unit speed_score_unit move_score_unit
  by (intro fdiv_nonneg fadd_nonneg) simp_all

lemma speed_score_antimono: "d \<le> d' \<Longrightarrow> speed_score config d' \<le> speed_score config d"
  unfolding speed_score_def
  by (auto intro!: clamp_mono fsub_mono fdiv_mono to_double_mono to_double_pos [THEN order.strict_trans2 [rotated]])

lemma recent_move_rate_nonneg: "0 \<le> recent_move_rate config t st"
  by (auto simp: recent_move_rate_def Let_def giga_def split: option.split
      intro!: fdiv_nonneg to_double_nonneg)

lemma move_score_antimono:
  assumes "d \<le> d'"
  shows "move_score config book t d' st \<le> move_score config book t d st"
proof -
  have "fdiv (to_double d) giga \<le> fdiv (to_double d') giga"
    using assms by (intro fdiv_mono to_double_mono) (simp_all add: giga_def)
  then have "fmul (recent_move_rate config t st) (min (fdiv (to_double d) giga) c) \<le>
      fmul (recent_move_rate config t st) (min (fdiv (to_double d') giga) c)" for c
    unfolding fmul_def
    by (intro rnd64_mono mult_left_mono recent_move_rate_nonneg) (simp add: min_def)
  then show ?thesis
    unfolding move_score_def Let_def by (auto intro!: clamp_mono fsub_mono)
qed

lemma primary_score_antimono:
  "d \<le> d' \<Longrightarrow> primary_score config book t d' st \<le> primary_score config book t d st"
  unfolding primary_score_def
  by (intro fdiv_mono fadd_mono speed_score_antimono move_score_antimono) simp_all

section \<open>Properties\<close>

text \<open>
  C23: the concurrency counters.  Along any history in which a New order or a replacement never
  takes the id of an order that is still tracked, the counter kept per account, instrument and
  side is the number of tracked orders with that key, and keys with no tracked order have no
  counter, so what the layering signal reads for an account, instrument and side is exactly the
  number of orders tracked under their key.  An order is tracked from the event that placed it until
  an event that names its id ends it: a cancellation on another instrument that quotes the id ends the
  tracking too, although the order is still in its book (spoofing_cross_instrument_alert).
\<close>

theorem spoofing_counts:
  assumes "holds_along (spoofing_layering_evaluate config accounts) places_fresh evs empty_spoofing_state"
  shows "counts_ok (fst (spoofing_run config accounts evs)) \<and>
    count_concurrent_same_account_same_side account instrument side (fst (spoofing_run config accounts evs)) =
      int (card (tracked_with_key (concurrency_key account instrument side)
        (sp_tracked (fst (spoofing_run config accounts evs)))))"
proof -
  have "counts_ok (fst (spoofing_run config accounts evs))"
    using holds_along_invariant [where I = counts_ok, OF counts_step assms counts_empty] .
  then show ?thesis by (simp add: count_concurrent_same_account_same_side_def count_at_ok)
qed

definition spoof_order :: "string \<Rightarrow> string \<Rightarrow> order_status \<Rightarrow> string \<Rightarrow> int \<Rightarrow> event" where
  "spoof_order oid instr st orig ts = OrderEvent (default_order\<lparr>o_order_id := oid,
     o_account_id := ''acct'', o_instrument_id := instr, o_price := 100, o_qty := 10,
     o_status := st, o_orig_order_id := orig, o_timestamp_ns := ts\<rparr>)"

theorem spoofing_counts_witness:
  "counts_ok (fst (spoofing_run default_spoofing_layering_config empty_registry
     [(empty_book ''ES'', spoof_order ''1'' ''ES'' KNew '''' 1),
      (empty_book ''ES'', spoof_order ''2'' ''ES'' KReplaced ''1'' 2)]))"
  by (rule conjunct1 [OF spoofing_counts])
    (simp add: spoof_order_def default_order_def empty_spoofing_state_def Let_def track_new_map)

text \<open>
  Without that condition the counters drift.  When an order id that is still tracked is
  placed again, here on another instrument, cancelling the id afterwards leaves a counter of 1 for
  the first instrument although no order is tracked any more, and nothing can lower it.
\<close>

theorem spoofing_counter_drift:
  "let st = fst (spoofing_run default_spoofing_layering_config empty_registry
       [(empty_book ''ES'', spoof_order ''1'' ''ES'' KNew '''' 1),
        (empty_book ''NQ'', spoof_order ''1'' ''NQ'' KNew '''' 2),
        (empty_book ''NQ'', spoof_order ''9'' ''NQ'' KCancelled ''1'' 3)])
   in sp_tracked st = Map.empty \<and>
      count_concurrent_same_account_same_side ''acct'' ''ES'' KBuy st = 1"
proof -
  have neq: "concurrency_key ''acct'' ''ES'' KBuy \<noteq> concurrency_key ''acct'' ''NQ'' KBuy"
    by (simp add: concurrency_key_def)
  show ?thesis
    using neq by (simp add: Let_def spoof_order_def default_order_def empty_spoofing_state_def
        spoofing_handle_cancel_def erase_tracked_def track_new_def tracked_of_def key_of_def count_at_def
        count_concurrent_same_account_same_side_def fun_eq_iff)
qed

text \<open>
  Spoofing alerts have their evidence.  An alert raised after any history is raised by a
  cancellation, names an order that an earlier New or replacement event placed, with the
  account, instrument and placement time of that event, covers a window that does not end
  before it starts, and scores at least the configured threshold.
\<close>

theorem spoofing_alert_sound:
  assumes "a \<in> set (snd (spoofing_layering_evaluate config accounts book e (fst (spoofing_run config accounts evs))))"
  shows "\<exists>cancel. e = OrderEvent cancel \<and> o_status cancel = KCancelled \<and>
    (\<exists>ord \<in> set (placed evs). o_order_id ord = o_orig_order_id cancel \<and>
       al_order_ids a = [o_order_id ord] \<and> al_account_ids a = [o_account_id ord] \<and>
       al_instrument_id a = o_instrument_id ord \<and> al_window_start_ns a = o_timestamp_ns ord \<and>
       al_window_end_ns a = o_timestamp_ns cancel \<and> o_timestamp_ns ord \<le> o_timestamp_ns cancel) \<and>
    sl_alert_threshold config \<le> al_score a"
proof -
  let ?st = "fst (spoofing_run config accounts evs)"
  obtain cancel where e: "e = OrderEvent cancel" "o_status cancel = KCancelled"
    using assms by (cases e) (auto simp: Let_def split: order_status.splits)
  let ?st1 = "update_ambient config book (o_instrument_id cancel) (o_timestamp_ns cancel) ?st"
  from assms e have a: "a \<in> set (snd (spoofing_handle_cancel config book cancel ?st1))"
    by (simp add: Let_def)
  then obtain st2 t where er: "erase_tracked (o_orig_order_id cancel) ?st1 = (st2, Some t)"
    by (auto simp: spoofing_handle_cancel_def split: prod.splits option.splits)
  then have "sp_tracked ?st (o_orig_order_id cancel) = Some t"
    by (auto simp: erase_tracked_def Let_def split: option.splits)
  then have "comes_from (placed evs) (o_orig_order_id cancel) t" by (rule tracked_comes_from)
  with a er e show ?thesis
    by (auto simp: spoofing_handle_cancel_def spoofing_alert_def Let_def comes_from_def split: if_splits)
qed

theorem spoofing_alert_sound_witness:
  "let config = default_spoofing_layering_config\<lparr>sl_alert_threshold := 0\<rparr>;
       placement = [(empty_book ''ES'', spoof_order ''1'' ''ES'' KNew '''' 1)];
       e = spoof_order ''9'' ''ES'' KCancelled ''1'' 3
   in \<exists>a \<in> set (snd (spoofing_layering_evaluate config empty_registry (empty_book ''ES'') e
         (fst (spoofing_run config empty_registry placement)))).
       al_order_ids a = [''1''] \<and> al_window_start_ns a = 1 \<and> al_window_end_ns a = 3 \<and> 0 \<le> al_score a"
proof -
  let ?config = "default_spoofing_layering_config\<lparr>sl_alert_threshold := 0\<rparr>"
  let ?placement = "[(empty_book ''ES'', spoof_order ''1'' ''ES'' KNew '''' 1)]"
  let ?e = "spoof_order ''9'' ''ES'' KCancelled ''1'' 3"
  let ?alerts = "snd (spoofing_layering_evaluate ?config empty_registry (empty_book ''ES'') ?e
    (fst (spoofing_run ?config empty_registry ?placement)))"
  have "?alerts \<noteq> []"
    by (simp add: Let_def spoof_order_def default_order_def empty_spoofing_state_def spoofing_handle_cancel_def
        erase_tracked_def track_new_def tracked_of_def key_of_def spoofing_alert_def
        combined_score_def clamp_unit not_less)
  then obtain a where a: "a \<in> set ?alerts" by (meson last_in_set)
  from spoofing_alert_sound [OF a]
  have "al_order_ids a = [''1''] \<and> al_window_start_ns a = 1 \<and> al_window_end_ns a = 3 \<and> 0 \<le> al_score a"
    by (auto simp: spoof_order_def default_order_def placed_def map_filter_def)
  with a show ?thesis unfolding Let_def by blast
qed

text \<open>
  A quicker cancellation never scores lower: with the same tracked order, book and
  ambient conditions, the score is antitone in the time of the cancellation.
\<close>

theorem spoofing_faster_scores_higher:
  assumes "o_timestamp_ns early \<le> o_timestamp_ns late"
  shows "al_score (spoofing_alert config book late t st) \<le> al_score (spoofing_alert config book early t st)"
  unfolding spoofing_alert_def Let_def combined_score_def
  using assms by (auto intro!: clamp_mono fadd_mono primary_score_antimono)

theorem spoofing_faster_scores_higher_witness:
  "al_score (spoofing_alert default_spoofing_layering_config (empty_book ''ES'')
       (default_order\<lparr>o_timestamp_ns := 9\<rparr>) (tracked_of (empty_book ''ES'') default_order) empty_spoofing_state) \<le>
   al_score (spoofing_alert default_spoofing_layering_config (empty_book ''ES'')
       (default_order\<lparr>o_timestamp_ns := 4\<rparr>) (tracked_of (empty_book ''ES'') default_order) empty_spoofing_state)"
  by (rule spoofing_faster_scores_higher) simp

text \<open>
  Layering alone is not spoofing.  With the default configuration, whatever the number of
  the account's other orders, a cancellation whose averaged depth, speed and price-move signal is
  below 0.4499 scores below the alert threshold.
\<close>

theorem spoofing_layering_not_alone:
  assumes "primary_score default_spoofing_layering_config book t (o_timestamp_ns co - tr_placed_ts t) st
    \<le> 4499 / 10000"
  shows "al_score (spoofing_alert default_spoofing_layering_config book co t st) <
    sl_alert_threshold default_spoofing_layering_config"
proof -
  let ?c = default_spoofing_layering_config
  let ?w = "sl_layering_bonus_weight ?c"
  let ?p = "primary_score ?c book t (o_timestamp_ns co - tr_placed_ts t) st"
  let ?n = "count_concurrent_same_account_same_side (tr_account_id t) (tr_instrument_id t) (tr_side t) st"
  have w: "0 \<le> ?w" by (simp add: default_spoofing_layering_config_def rnd64_nonneg)
  have "fmul ?w (layering_score ?c t ?n st) \<le> fmul ?w 1"
    using w layering_score_unit by (intro fmul_mono) simp_all
  then have "fadd ?p (fmul ?w (layering_score ?c t ?n st)) \<le> fadd (4499 / 10000) (fmul ?w 1)"
    using assms by (intro fadd_mono) simp_all
  moreover have "fadd (4499 / 10000) (fmul ?w 1) < sl_alert_threshold ?c"
    by (simp add: default_spoofing_layering_config_def float_eval)
  moreover have "0 \<le> fadd ?p (fmul ?w (layering_score ?c t ?n st))"
    using primary_score_nonneg layering_score_unit w by (intro fadd_nonneg fmul_nonneg) simp_all
  ultimately show ?thesis
    unfolding spoofing_alert_def Let_def combined_score_def
    using clamp_le_self by (auto intro: order.strict_trans1)
qed

theorem spoofing_layering_not_alone_witness:
  "al_score (spoofing_alert default_spoofing_layering_config (empty_book ''ES'') default_order
     (tracked_of (empty_book ''ES'') default_order) empty_spoofing_state) < rnd64 (6 / 10)"
proof -
  let ?t = "tracked_of (empty_book ''ES'') default_order"
  have t: "tr_placed_ts ?t = 0" "o_timestamp_ns default_order = 0"
    "tr_depth_ratio_at_placement ?t = 0" "tr_opposite_best_at_placement ?t = None"
    by (simp_all add: tracked_of_def default_order_def Let_def qty_at_price_def best_price_def empty_book_def)
  have "primary_score default_spoofing_layering_config (empty_book ''ES'') ?t
      (o_timestamp_ns default_order - tr_placed_ts ?t) empty_spoofing_state = rnd64 (1 / 3)"
    by (simp add: primary_score_def depth_score_def speed_score_def move_score_def moved_favorably_def t
        default_spoofing_layering_config_def clamp_def fdiv_def fsub_def fadd_def)
  also have "\<dots> \<le> 4499 / 10000" by (simp add: float_eval)
  finally show ?thesis
    using spoofing_layering_not_alone [of "empty_book ''ES''" ?t default_order empty_spoofing_state]
    by (simp add: default_spoofing_layering_config_def)
qed

text \<open>
  A cancellation on one instrument can raise an alert about another.  Tracked orders are
  found by order id alone, while each book only knows its own instrument: cancelling, on NQ, an id
  that is open on ES takes the ES order out of tracking and, with a zero threshold, alerts
  about ES with the sequence number of the NQ book, whose best price it also compared.
\<close>

theorem spoofing_cross_instrument_alert:
  "let config = default_spoofing_layering_config\<lparr>sl_alert_threshold := 0\<rparr>;
       st = fst (spoofing_run config empty_registry [(empty_book ''ES'', spoof_order ''1'' ''ES'' KNew '''' 1)]);
       r = spoofing_layering_evaluate config empty_registry ((empty_book ''NQ'')\<lparr>sequence := 7\<rparr>)
             (spoof_order ''9'' ''NQ'' KCancelled ''1'' 3) st
   in map al_instrument_id (snd r) = [''ES''] \<and>
      map al_book_snapshot_sequence (snd r) = [Some 7] \<and> sp_tracked (fst r) = Map.empty"
  by (simp add: Let_def spoof_order_def default_order_def empty_spoofing_state_def spoofing_handle_cancel_def
      erase_tracked_def track_new_def tracked_of_def key_of_def spoofing_alert_def sequence_ref_def
      combined_score_def clamp_unit not_less)

end
