(* ===== verification/Account_Groups.thy ===== *)
theory Account_Groups
  imports Detector "HOL-Library.Multiset"
begin

text \<open>
  The union-find of \<open>cpp/detectors/marking_the_close_detector.cpp\<close>: \<open>group_parent_\<close> with path
  compression, and the accounts seen.  \<open>find_group\<close> follows parent pointers and would not
  return on a cycle, so it is a partial function; \<open>groups_ok\<close> is the invariant under which
  it returns, and under which two accounts have the same representative exactly when they are
  connected by related accounts that have been seen.

  \<open>all_accounts_seen_\<close> is an \<open>std::unordered_set\<close>, whose iteration order the standard leaves
  open: \<open>iter\<close> is the order in which a loop visits the accounts, any permutation of them.
\<close>

type_synonym parents = "string \<rightharpoonup> string"
type_synonym iteration = "string list \<Rightarrow> string list"

record account_groups =
  ag_parent :: parents
  ag_seen :: "string list"

definition empty_groups :: account_groups where
  "empty_groups = \<lparr>ag_parent = Map.empty, ag_seen = []\<rparr>"

partial_function (option) find_group :: "string \<Rightarrow> parents \<Rightarrow> (string \<times> parents) option" where
  "find_group a p =
     (case p a of
        None \<Rightarrow> Some (a, p)
      | Some q \<Rightarrow>
          if q = a then Some (a, p)
          else Option.bind (find_group q p) (\<lambda>(root, p'). Some (root, p'(a \<mapsto> root))))"

definition unite :: "string \<Rightarrow> string \<Rightarrow> parents \<Rightarrow> parents option" where
  "unite a other p =
     Option.bind (find_group a p) (\<lambda>(root_a, p1).
     Option.bind (find_group other p1) (\<lambda>(root_b, p2).
     Some (if root_a \<noteq> root_b then p2(root_a \<mapsto> root_b) else p2)))"

definition register_and_group ::
    "iteration \<Rightarrow> account_registry \<Rightarrow> string \<Rightarrow> account_groups \<Rightarrow> account_groups option" where
  "register_and_group iter accounts a g =
     (if a \<in> set (ag_seen g) then Some g
      else Option.bind
        (ofold (\<lambda>other p. if is_related a other accounts then unite a other p else Some p)
           (iter (ag_seen g)) ((ag_parent g)(a \<mapsto> a)))
        (\<lambda>p. Some \<lparr>ag_parent = p, ag_seen = ag_seen g @ [a]\<rparr>))"

fun members_of :: "string \<Rightarrow> string list \<Rightarrow> parents \<Rightarrow> (string list \<times> parents) option" where
  "members_of rep [] p = Some ([], p)"
| "members_of rep (acc # accs) p =
     Option.bind (find_group acc p) (\<lambda>(r, p1).
     Option.bind (members_of rep accs p1) (\<lambda>(ms, p2).
     Some (if r = rep then acc # ms else ms, p2)))"

definition group_members ::
    "iteration \<Rightarrow> string \<Rightarrow> account_groups \<Rightarrow> (string list \<times> account_groups) option" where
  "group_members iter a g =
     Option.bind (find_group a (ag_parent g)) (\<lambda>(rep, p1).
     Option.bind (members_of rep (iter (ag_seen g)) p1) (\<lambda>(ms, p2).
     Some (ms, g\<lparr>ag_parent := p2\<rparr>)))"

section \<open>Representatives\<close>

inductive rep :: "parents \<Rightarrow> string \<Rightarrow> string \<Rightarrow> bool" for p where
  root: "p a = None \<or> p a = Some a \<Longrightarrow> rep p a a"
| up: "p a = Some q \<Longrightarrow> q \<noteq> a \<Longrightarrow> rep p q r \<Longrightarrow> rep p a r"

lemma rep_root_inv: "rep p a s \<Longrightarrow> p a = None \<or> p a = Some a \<Longrightarrow> s = a"
  by (erule rep.cases) auto

lemma rep_up_inv: "rep p a s \<Longrightarrow> p a = Some q \<Longrightarrow> q \<noteq> a \<Longrightarrow> rep p q s"
  by (erule rep.cases) auto

lemma rep_unique: "rep p a r \<Longrightarrow> rep p a s \<Longrightarrow> r = s"
proof (induction arbitrary: s rule: rep.induct)
  case (root a)
  then show ?case using rep_root_inv by blast
next
  case (up a q r)
  then show ?case using rep_up_inv by blast
qed

lemma rep_root: "rep p a r \<Longrightarrow> p r = None \<or> p r = Some r"
  by (induction rule: rep.induct) auto

lemma rep_self: "rep p a r \<Longrightarrow> rep p r r"
  by (rule rep.root) (rule rep_root)

definition forest :: "parents \<Rightarrow> bool" where
  "forest p \<longleftrightarrow> (\<forall>a. \<exists>r. rep p a r)"

lemma forestD: "forest p \<Longrightarrow> \<exists>r. rep p a r"
  by (simp add: forest_def)

text \<open>Two forests with the same representatives.\<close>

definition same_reps :: "parents \<Rightarrow> parents \<Rightarrow> bool" where
  "same_reps p p' \<longleftrightarrow> (\<forall>a r. rep p a r \<longleftrightarrow> rep p' a r)"

lemma same_repsI:
  assumes "forest p" and "\<And>a r. rep p a r \<Longrightarrow> rep p' a r"
  shows "same_reps p p'"
  unfolding same_reps_def using assms rep_unique forestD by metis

lemma compress_reps:
  assumes "forest p" and "rep p a r" and "r \<noteq> a"
  shows "same_reps p (p(a \<mapsto> r))"
proof (rule same_repsI [OF assms(1)])
  have r: "rep (p(a \<mapsto> r)) r r" using rep_root [OF assms(2)] assms(3) by (intro rep.root) auto
  fix b s
  assume "rep p b s"
  then show "rep (p(a \<mapsto> r)) b s"
  proof (induction rule: rep.induct)
    case (root b)
    have "b \<noteq> a"
    proof
      assume "b = a"
      with root have "rep p a a" by (auto intro: rep.root)
      with assms(2,3) rep_unique show False by blast
    qed
    with root show ?case by (intro rep.root) simp
  next
    case (up b q s)
    show ?case
    proof (cases "b = a")
      case True
      with up.hyps have "rep p a s" by (auto intro: rep.up)
      with assms(2) have "s = r" by (rule rep_unique [rotated])
      have "(p(a \<mapsto> r)) b = Some r" using True by simp
      then show ?thesis using True \<open>s = r\<close> r assms(3) rep.up [of "p(a \<mapsto> r)" b r r] by blast
    next
      case False
      then have "(p(a \<mapsto> r)) b = Some q" using up.hyps(1) by simp
      then show ?thesis using up.hyps(2) up.IH by (rule rep.up)
    qed
  qed
qed

lemma same_reps_trans: "same_reps p p' \<Longrightarrow> same_reps p' p'' \<Longrightarrow> same_reps p p''"
  by (simp add: same_reps_def)

lemma same_reps_forest: "same_reps p p' \<Longrightarrow> forest p \<Longrightarrow> forest p'"
  by (simp add: same_reps_def forest_def)

text \<open>\<open>find_group\<close> returns the representative and compresses without changing any.\<close>

lemma find_group_rep:
  "rep p a r \<Longrightarrow> forest p \<Longrightarrow> \<exists>p'. find_group a p = Some (r, p') \<and> same_reps p p'"
proof (induction rule: rep.induct)
  case (root a)
  then have "find_group a p = Some (a, p)" by (subst find_group.simps) auto
  then show ?case by (auto simp: same_reps_def)
next
  case (up a q r)
  then obtain p' where p': "find_group q p = Some (r, p')" "same_reps p p'" by blast
  then have "find_group a p = Some (r, p'(a \<mapsto> r))"
    using up.hyps by (subst find_group.simps) simp
  moreover have "rep p a r" by (rule rep.up [OF up.hyps])
  moreover have "r \<noteq> a" using rep_root [OF up.hyps(3)] up.hyps(1,2) by auto
  ultimately show ?case
    using p' up.prems compress_reps same_reps_trans same_reps_forest
    by (metis same_reps_def)
qed

lemma find_group_total:
  assumes "forest p"
  obtains r p' where "find_group a p = Some (r, p')" "rep p a r" "same_reps p p'"
  using assms forestD find_group_rep by metis

definition together :: "parents \<Rightarrow> string \<Rightarrow> string \<Rightarrow> bool" where
  "together p a b \<longleftrightarrow> (\<exists>r. rep p a r \<and> rep p b r)"

lemma together_same_reps: "same_reps p p' \<Longrightarrow> together p a b = together p' a b"
  by (simp add: together_def same_reps_def)

lemma together_refl [simp]: "forest p \<Longrightarrow> together p a a"
  using forestD by (auto simp: together_def)

lemma together_sym: "together p a b \<Longrightarrow> together p b a"
  by (auto simp: together_def)

lemma together_trans: "together p a b \<Longrightarrow> together p b c \<Longrightarrow> together p a c"
  by (auto simp: together_def dest: rep_unique)

text \<open>Linking one root below another merges exactly their two groups.\<close>

lemma link_reps:
  assumes "rep p a ra" and "rep p b rb" and "ra \<noteq> rb" and "rep p x r"
  shows "rep (p(ra \<mapsto> rb)) x (if r = ra then rb else r)"
  using assms(4)
proof (induction rule: rep.induct)
  case (root x)
  have rb: "rep (p(ra \<mapsto> rb)) rb rb"
    using rep_root [OF assms(2)] assms(3) by (intro rep.root) auto
  show ?case
  proof (cases "x = ra")
    case True
    have "rep (p(ra \<mapsto> rb)) ra rb"
      by (rule rep.up [of _ _ rb]) (use rb assms(3) in auto)
    with True show ?thesis by (simp del: fun_upd_apply)
  next
    case False
    with root show ?thesis by (auto intro: rep.root)
  qed
next
  case (up x q r)
  have "x \<noteq> ra" using up.hyps(1,2) rep_root [OF assms(1)] by auto
  then have "(p(ra \<mapsto> rb)) x = Some q" using up.hyps(1) by simp
  then show ?case using up.hyps(2) up.IH by (rule rep.up)
qed

lemma link_forest:
  assumes "forest p" and "rep p a ra" and "rep p b rb" and "ra \<noteq> rb"
  shows "forest (p(ra \<mapsto> rb))"
  unfolding forest_def using link_reps [OF assms(2-4)] forestD [OF assms(1)] by blast

lemma link_together:
  assumes "forest p" and "rep p a ra" and "rep p b rb" and "ra \<noteq> rb"
  shows "together (p(ra \<mapsto> rb)) x y \<longleftrightarrow>
    together p x y \<or> together p x a \<and> together p y b \<or> together p x b \<and> together p y a"
proof -
  obtain rx ry where r: "rep p x rx" "rep p y ry" using forestD [OF assms(1)] by metis
  have new: "rep (p(ra \<mapsto> rb)) x (if rx = ra then rb else rx)"
    "rep (p(ra \<mapsto> rb)) y (if ry = ra then rb else ry)"
    using link_reps [OF assms(2-4)] r by blast+
  have tog: "together q u v \<longleftrightarrow> ru = rv" if "rep q u ru" "rep q v rv" for q u v ru rv
    using that rep_unique unfolding together_def by metis
  show ?thesis
    unfolding tog [OF new] tog [OF r] tog [OF r(1) assms(2)] tog [OF r(1) assms(3)]
      tog [OF r(2) assms(2)] tog [OF r(2) assms(3)]
    using assms(4) by auto
qed

lemma unite_total:
  assumes "forest p"
  shows "\<exists>p'. unite a b p = Some p' \<and> forest p' \<and>
    (\<forall>x y. together p' x y \<longleftrightarrow>
       together p x y \<or> together p x a \<and> together p y b \<or> together p x b \<and> together p y a)"
proof -
  obtain ra p1 where a: "find_group a p = Some (ra, p1)" "rep p a ra" "same_reps p p1"
    by (rule find_group_total [OF assms])
  have f1: "forest p1" by (rule same_reps_forest [OF a(3) assms])
  obtain rb p2 where b: "find_group b p1 = Some (rb, p2)" "rep p1 b rb" "same_reps p1 p2"
    by (rule find_group_total [OF f1])
  have s: "same_reps p p2" by (rule same_reps_trans [OF a(3) b(3)])
  have f2: "forest p2" by (rule same_reps_forest [OF s assms])
  have reps: "rep p2 a ra" "rep p2 b rb" using a(2) s b(2,3) by (simp_all add: same_reps_def)
  show ?thesis
  proof (cases "ra = rb")
    case True
    then have "together p a b" using reps s by (auto simp: together_def same_reps_def)
    then have "together p x y \<longleftrightarrow> together p x y \<or> together p x a \<and> together p y b \<or> together p x b \<and> together p y a"
      for x y using together_trans together_sym by metis
    with True a(1) b(1) f2 show ?thesis
      by (auto simp: unite_def simp flip: together_same_reps [OF s])
  next
    case False
    with a(1) b(1) link_forest [OF f2 reps False] link_together [OF f2 reps False] show ?thesis
      by (simp add: unite_def together_same_reps [OF s])
  qed
qed

section \<open>The groups are the connected components of the relation\<close>

abbreviation grouped :: "account_registry \<Rightarrow> string list \<Rightarrow> string \<Rightarrow> string \<Rightarrow> bool" where
  "grouped entities seen \<equiv> accounts.linked_within entities (set seen)"

definition groups_ok :: "account_registry \<Rightarrow> account_groups \<Rightarrow> bool" where
  "groups_ok entities g \<longleftrightarrow> forest (ag_parent g) \<and> distinct (ag_seen g) \<and>
     (\<forall>x y. together (ag_parent g) x y \<longleftrightarrow> x = y \<or> grouped entities (ag_seen g) x y)"

definition permutes :: "iteration \<Rightarrow> bool" where
  "permutes iter \<longleftrightarrow> (\<forall>xs. mset (iter xs) = mset xs)"

lemma permutes_set [simp]: "permutes iter \<Longrightarrow> set (iter xs) = set xs"
  unfolding permutes_def by (metis set_mset_mset)

lemma permutes_distinct [simp]: "permutes iter \<Longrightarrow> distinct (iter xs) = distinct xs"
  unfolding permutes_def by (metis mset_eq_imp_distinct_iff)

lemma permutes_id [simp]: "permutes (\<lambda>xs. xs)"
  by (simp add: permutes_def)

lemma grouped_mono:
  "grouped entities xs a b \<Longrightarrow> set xs \<subseteq> set ys \<Longrightarrow> grouped entities ys a b"
proof (induction rule: accounts.linked_within.induct)
  case (here a)
  then show ?case by (blast intro: accounts.linked_within.here)
next
  case (there a b c)
  then show ?case by (blast intro: accounts.linked_within.there)
qed

definition linked_or_eq :: "account_registry \<Rightarrow> string list \<Rightarrow> parents \<Rightarrow> bool" where
  "linked_or_eq entities seen p \<longleftrightarrow> (\<forall>x y. together p x y \<longrightarrow> x = y \<or> grouped entities seen x y)"

lemma unite_linked:
  assumes "linked_or_eq entities seen p" and "a \<in> set seen" and "b \<in> set seen"
    and "is_related a b entities"
    and "\<And>x y. together p' x y \<Longrightarrow>
      together p x y \<or> together p x a \<and> together p y b \<or> together p x b \<and> together p y a"
  shows "linked_or_eq entities seen p'"
proof -
  have ab: "grouped entities seen a b" by (rule accounts.linked_within_step [OF assms(2-4)])
  have to_a: "grouped entities seen x a" if "together p x a" for x
    using that assms(1,2) accounts.linked_within.here unfolding linked_or_eq_def by blast
  have to_b: "grouped entities seen x b" if "together p x b" for x
    using that assms(1,3) accounts.linked_within.here unfolding linked_or_eq_def by blast
  have "x = y \<or> grouped entities seen x y" if tog: "together p' x y" for x y
  proof -
    from assms(5) [OF tog] consider "together p x y" | "together p x a" "together p y b"
      | "together p x b" "together p y a" by blast
    then show ?thesis
    proof cases
      case 1
      with assms(1) show ?thesis unfolding linked_or_eq_def by blast
    next
      case 2
      then show ?thesis
        using accounts.linked_within_trans [OF accounts.linked_within_sym [OF to_b]
            accounts.linked_within_trans [OF ab to_a]] by blast
    next
      case 3
      then show ?thesis
        using accounts.linked_within_trans [OF accounts.linked_within_sym [OF to_a]
            accounts.linked_within_trans [OF accounts.linked_within_sym [OF ab] to_b]] by blast
    qed
  qed
  then show ?thesis by (simp add: linked_or_eq_def)
qed

text \<open>The loop of \<open>register_and_group\<close>, over any of the accounts seen.\<close>

lemma group_loop:
  assumes "set others \<subseteq> set seen" and "a \<in> set seen" and "forest p" and "linked_or_eq entities seen p"
  shows "\<exists>p'. ofold (\<lambda>other p. if is_related a other entities then unite a other p else Some p) others p
      = Some p' \<and> forest p' \<and> linked_or_eq entities seen p' \<and>
    (\<forall>x y. together p x y \<longrightarrow> together p' x y) \<and>
    (\<forall>b \<in> set others. is_related a b entities \<longrightarrow> together p' a b)"
  using assms
proof (induction others arbitrary: p)
  case (Cons b others)
  show ?case
  proof (cases "is_related a b entities")
    case False
    with Cons show ?thesis by auto
  next
    case True
    obtain p1 where p1: "unite a b p = Some p1" "forest p1"
      "\<And>x y. together p1 x y \<longleftrightarrow> together p x y \<or> together p x a \<and> together p y b \<or> together p x b \<and> together p y a"
      using unite_total [OF Cons.prems(3)] by metis
    have "linked_or_eq entities seen p1"
      by (rule unite_linked [OF Cons.prems(4,2) _ True]) (use Cons.prems(1) p1(3) in auto)
    with Cons.IH [of p1] Cons.prems(1,2) p1(2) obtain p' where p':
      "ofold (\<lambda>other p. if is_related a other entities then unite a other p else Some p) others p1 = Some p'"
      "forest p'" "linked_or_eq entities seen p'" "\<forall>x y. together p1 x y \<longrightarrow> together p' x y"
      "\<forall>b \<in> set others. is_related a b entities \<longrightarrow> together p' a b" by auto
    have "together p1 a b" using p1(3) Cons.prems(3) by simp
    with p' p1 True show ?thesis by auto
  qed
qed simp

lemma singleton_reps:
  assumes "rep p a a" and "forest p"
  shows "same_reps p (p(a \<mapsto> a))"
proof (rule same_repsI [OF assms(2)])
  fix b s
  assume "rep p b s"
  then show "rep (p(a \<mapsto> a)) b s"
  proof (induction rule: rep.induct)
    case (root b)
    then show ?case by (intro rep.root) auto
  next
    case (up b q s)
    have "b \<noteq> a" using rep_root [OF assms(1)] up.hyps(1,2) by auto
    then have "(p(a \<mapsto> a)) b = Some q" using up.hyps(1) by simp
    then show ?case using up.hyps(2) up.IH by (rule rep.up)
  qed
qed

lemma register_groups:
  assumes "permutes iter" and "groups_ok entities g"
  shows "\<exists>g'. register_and_group iter entities a g = Some g' \<and> groups_ok entities g' \<and>
    ag_seen g' = (if a \<in> set (ag_seen g) then ag_seen g else ag_seen g @ [a])"
proof (cases "a \<in> set (ag_seen g)")
  case True
  with assms(2) show ?thesis by (simp add: register_and_group_def)
next
  case False
  let ?seen = "ag_seen g @ [a]" and ?p = "ag_parent g"
  have forest: "forest ?p" and tog: "\<And>x y. together ?p x y \<longleftrightarrow> x = y \<or> grouped entities (ag_seen g) x y"
    using assms(2) by (simp_all add: groups_ok_def)
  obtain r where r: "rep ?p a r" using forestD [OF forest] by blast
  have "together ?p a r" using r rep_self by (auto simp: together_def)
  then have "a = r \<or> grouped entities (ag_seen g) a r" using tog by blast
  then have "r = a" using accounts.linked_within_mem [of entities "set (ag_seen g)" a r] False by auto
  with r have s: "same_reps ?p (?p(a \<mapsto> a))" using singleton_reps forest by blast
  have start: "forest (?p(a \<mapsto> a))" "linked_or_eq entities ?seen (?p(a \<mapsto> a))"
    using same_reps_forest [OF s forest] tog grouped_mono [of entities "ag_seen g" _ _ ?seen]
    by (auto simp: linked_or_eq_def simp flip: together_same_reps [OF s])
  obtain p' where p':
    "ofold (\<lambda>other p. if is_related a other entities then unite a other p else Some p)
       (iter (ag_seen g)) (?p(a \<mapsto> a)) = Some p'"
    "forest p'" "linked_or_eq entities ?seen p'" "\<And>x y. together ?p x y \<Longrightarrow> together p' x y"
    "\<And>b. b \<in> set (ag_seen g) \<Longrightarrow> is_related a b entities \<Longrightarrow> together p' a b"
    using group_loop [OF _ _ start, of "iter (ag_seen g)" a] assms(1)
    by (auto simp: subset_insertI simp flip: together_same_reps [OF s])
  have complete: "together p' x y" if "grouped entities ?seen x y" for x y
    using that
  proof (induction rule: accounts.linked_within.induct)
    case (here x)
    then show ?case using p'(2) by simp
  next
    case (there x b c)
    have b: "b \<in> set ?seen" using accounts.linked_within_mem there.hyps(1) by blast
    have "together p' b c"
    proof (cases "b = a \<or> c = a")
      case True
      then show ?thesis
        using p'(2,5) there.hyps(2,3) b accounts.related_sym [of b c] together_sym
        by (cases "b = c") auto
    next
      case False
      then have "grouped entities (ag_seen g) b c"
        using b there.hyps(2,3) by (intro accounts.linked_within_step) auto
      then show ?thesis using p'(4) tog by blast
    qed
    with there.IH together_trans show ?case by blast
  qed
  have "groups_ok entities \<lparr>ag_parent = p', ag_seen = ?seen\<rparr>"
    using p'(2,3) complete False assms(2) by (auto simp: groups_ok_def linked_or_eq_def)
  with p'(1) False show ?thesis by (simp add: register_and_group_def)
qed

lemma members_of_total:
  assumes "forest p"
  shows "\<exists>p'. members_of r accs p = Some (filter (\<lambda>x. rep p x r) accs, p') \<and> same_reps p p'"
  using assms
proof (induction accs arbitrary: p)
  case Nil
  then show ?case by (simp add: same_reps_def)
next
  case (Cons acc accs)
  obtain s p1 where s: "find_group acc p = Some (s, p1)" "rep p acc s" "same_reps p p1"
    by (rule find_group_total [OF Cons.prems])
  obtain p2 where p2: "members_of r accs p1 = Some (filter (\<lambda>x. rep p1 x r) accs, p2)" "same_reps p1 p2"
    using Cons.IH [OF same_reps_forest [OF s(3) Cons.prems]] by blast
  have "rep p acc r \<longleftrightarrow> s = r" using s(2) rep_unique by blast
  with s p2 same_reps_trans [OF s(3) p2(2)] show ?case by (simp add: same_reps_def)
qed

lemma group_members_total:
  assumes "groups_ok entities g"
  shows "\<exists>g'. group_members iter a g =
      Some (filter (\<lambda>x. x = a \<or> grouped entities (ag_seen g) a x) (iter (ag_seen g)), g') \<and>
    groups_ok entities g' \<and> ag_seen g' = ag_seen g"
proof -
  have forest: "forest (ag_parent g)" and tog: "\<And>x y. together (ag_parent g) x y \<longleftrightarrow>
      x = y \<or> grouped entities (ag_seen g) x y" using assms by (simp_all add: groups_ok_def)
  obtain r p1 where r: "find_group a (ag_parent g) = Some (r, p1)" "rep (ag_parent g) a r"
    "same_reps (ag_parent g) p1" by (rule find_group_total [OF forest])
  obtain p2 where p2: "members_of r (iter (ag_seen g)) p1 = Some (filter (\<lambda>x. rep p1 x r) (iter (ag_seen g)), p2)"
    "same_reps p1 p2" using members_of_total [OF same_reps_forest [OF r(3) forest]] by blast
  have s: "same_reps (ag_parent g) p2" by (rule same_reps_trans [OF r(3) p2(2)])
  have "rep p1 x r \<longleftrightarrow> x = a \<or> grouped entities (ag_seen g) a x" for x
  proof -
    have "rep p1 x r \<longleftrightarrow> together (ag_parent g) x a"
      using r(2,3) rep_unique unfolding together_def same_reps_def by metis
    also have "\<dots> \<longleftrightarrow> x = a \<or> grouped entities (ag_seen g) a x"
      using tog accounts.linked_within_sym by blast
    finally show ?thesis .
  qed
  moreover have "groups_ok entities (g\<lparr>ag_parent := p2\<rparr>)"
    using assms same_reps_forest [OF s forest] tog
    by (simp add: groups_ok_def flip: together_same_reps [OF s])
  ultimately show ?thesis using r(1) p2(1) by (simp add: group_members_def)
qed

end
