(* ===== verification/Marking_The_Close.thy ===== *)
theory Marking_The_Close
  imports Account_Groups
begin

text \<open>
  \<open>cpp/detectors/marking_the_close_detector.cpp\<close>: the volume of each account in the closing
  window of an instrument, its concentration in a group of related accounts, and one alert per
  instrument and group.  The counters are \<open>std::unordered_map\<close>s read with \<open>operator[]\<close>,
  so an absent key reads as zero and they are total functions here.

  \<open>check_account\<close> may not return if \<open>find_group\<close> does not, so it is a partial function;
  \<open>marking_total\<close> shows that it returns in every reachable state, and
  \<open>marking_the_close_evaluate\<close> is the evaluation the pipeline calls.
\<close>

record marking_the_close_config =
  mk_close_time_ns_by_instrument :: "string \<rightharpoonup> int"
  mk_window_duration_ns :: int
  mk_concentration_threshold :: double
  mk_min_account_qty_threshold :: int
  mk_min_total_window_qty_threshold :: int

definition default_marking_config :: "(string \<rightharpoonup> int) \<Rightarrow> marking_the_close_config" where
  "default_marking_config close_times =
     \<lparr>mk_close_time_ns_by_instrument = close_times, mk_window_duration_ns = 300000000000,
      mk_concentration_threshold = rnd64 (4 / 10), mk_min_account_qty_threshold = 100,
      mk_min_total_window_qty_threshold = 500\<rparr>"

record marking_state =
  mk_total_window_qty :: "string \<Rightarrow> int"
  mk_account_window_qty :: "string \<Rightarrow> int"
  mk_alerted :: "string set"
  mk_trade_ids_by_key :: "string \<Rightarrow> string list"
  mk_groups :: account_groups

definition empty_marking_state :: marking_state where
  "empty_marking_state = \<lparr>mk_total_window_qty = (\<lambda>_. 0), mk_account_window_qty = (\<lambda>_. 0),
     mk_alerted = {}, mk_trade_ids_by_key = (\<lambda>_. []), mk_groups = empty_groups\<rparr>"

definition marking_the_close_name :: string where
  "marking_the_close_name = ''MarkingTheCloseDetector''"

definition window_key :: "string \<Rightarrow> string \<Rightarrow> string" where
  "window_key instrument account = instrument @ ''|'' @ account"

definition group_qty :: "string \<Rightarrow> string list \<Rightarrow> marking_state \<Rightarrow> int" where
  "group_qty instrument members st =
     foldl (\<lambda>qty m. qty + mk_account_window_qty st (window_key instrument m)) 0 members"

definition group_trade_ids :: "string \<Rightarrow> string list \<Rightarrow> marking_state \<Rightarrow> string list" where
  "group_trade_ids instrument members st =
     foldl (\<lambda>ids m. ids @ mk_trade_ids_by_key st (window_key instrument m)) [] members"

definition marking_alert ::
    "string \<Rightarrow> string list \<Rightarrow> int \<Rightarrow> int \<Rightarrow> int \<Rightarrow> marking_state \<Rightarrow> alert" where
  "marking_alert instrument members window_start_ns event_ts seq_ref st =
     (let qty = group_qty instrument members st;
          total = mk_total_window_qty st instrument;
          share = fdiv (to_double qty) (to_double total)
      in \<lparr>al_detector_name = marking_the_close_name,
          al_score = min share 1,
          al_instrument_id = instrument,
          al_account_ids = members,
          al_order_ids = group_trade_ids instrument members st,
          al_window_start_ns = window_start_ns,
          al_window_end_ns = event_ts,
          al_evidence = ''account-group closing-window volume='' @ show_int qty @ '' / total='' @
            show_int total @ '' (share='' @ to_string_double share @ '', group_size='' @
            show_nat (length members) @ '')'',
          al_model_version = None,
          al_book_snapshot_sequence = Some seq_ref\<rparr>)"

definition check_account ::
    "iteration \<Rightarrow> marking_the_close_config \<Rightarrow> account_registry \<Rightarrow> string \<Rightarrow> string \<Rightarrow> int \<Rightarrow> int \<Rightarrow> int
     \<Rightarrow> marking_state \<Rightarrow> (marking_state \<times> alert option) option" where
  "check_account iter config accounts instrument account window_start_ns event_ts seq_ref st =
     Option.bind (register_and_group iter accounts account (mk_groups st)) (\<lambda>g1.
     Option.bind (group_members iter account g1) (\<lambda>(members, g2).
       let st = st\<lparr>mk_groups := g2\<rparr>;
           qty = group_qty instrument members st;
           total = mk_total_window_qty st instrument
       in Some
         (if list_ex (\<lambda>m. window_key instrument m \<in> mk_alerted st) members then (st, None)
          else if qty < mk_min_account_qty_threshold config then (st, None)
          else if total < mk_min_total_window_qty_threshold config then (st, None)
          else if fdiv (to_double qty) (to_double total) < mk_concentration_threshold config then (st, None)
          else (st\<lparr>mk_alerted := insert (window_key instrument account) (mk_alerted st)\<rparr>,
                Some (marking_alert instrument members window_start_ns event_ts seq_ref st)))))"

definition credit :: "string \<Rightarrow> string \<Rightarrow> int \<Rightarrow> string \<Rightarrow> marking_state \<Rightarrow> marking_state" where
  "credit instrument account qty trade_id st =
     (let key = window_key instrument account
      in st\<lparr>mk_account_window_qty :=
             (mk_account_window_qty st)(key := mk_account_window_qty st key + qty),
            mk_trade_ids_by_key :=
             (mk_trade_ids_by_key st)(key := mk_trade_ids_by_key st key @ [trade_id])\<rparr>)"

definition has_other_side :: "execution \<Rightarrow> bool" where
  "has_other_side x \<longleftrightarrow> x_counterparty_account_id x \<noteq> [] \<and>
     x_counterparty_account_id x \<noteq> x_account_id x"

definition record_volume :: "execution \<Rightarrow> marking_state \<Rightarrow> marking_state" where
  "record_volume x st =
     (let instrument = x_instrument_id x;
          st1 = st\<lparr>mk_total_window_qty := (mk_total_window_qty st)
                     (instrument := mk_total_window_qty st instrument + x_qty x)\<rparr>;
          st2 = credit instrument (x_account_id x) (x_qty x) (x_trade_id x) st1
      in if has_other_side x
         then credit instrument (x_counterparty_account_id x) (x_qty x) (x_trade_id x) st2
         else st2)"

definition marking_handle_execution ::
    "iteration \<Rightarrow> marking_the_close_config \<Rightarrow> account_registry \<Rightarrow> execution \<Rightarrow> int
     \<Rightarrow> marking_state \<Rightarrow> (marking_state \<times> alert list) option" where
  "marking_handle_execution iter config accounts x seq_ref st =
     (case mk_close_time_ns_by_instrument config (x_instrument_id x) of
        None \<Rightarrow> Some (st, [])
      | Some close_ts \<Rightarrow>
          let window_start_ns = close_ts - mk_window_duration_ns config
          in if x_timestamp_ns x < window_start_ns \<or> close_ts < x_timestamp_ns x then Some (st, [])
             else
               let check = (\<lambda>account st. check_account iter config accounts (x_instrument_id x) account
                              window_start_ns (x_timestamp_ns x) seq_ref st);
                   alert_list = (\<lambda>a. case a of None \<Rightarrow> [] | Some alert \<Rightarrow> [alert])
               in Option.bind (check (x_account_id x) (record_volume x st)) (\<lambda>(st1, a1).
                  if has_other_side x
                  then Option.bind (check (x_counterparty_account_id x) st1) (\<lambda>(st2, a2).
                         Some (st2, alert_list a1 @ alert_list a2))
                  else Some (st1, alert_list a1)))"

fun marking_evaluate_opt ::
    "iteration \<Rightarrow> marking_the_close_config \<Rightarrow> account_registry \<Rightarrow> order_book \<Rightarrow> event
     \<Rightarrow> marking_state \<Rightarrow> (marking_state \<times> alert list) option" where
  "marking_evaluate_opt iter config accounts book (OrderEvent order) st = Some (st, [])"
| "marking_evaluate_opt iter config accounts book (ExecutionEvent execution) st =
     marking_handle_execution iter config accounts execution (sequence_ref book) st"

definition marking_the_close_evaluate ::
    "iteration \<Rightarrow> marking_the_close_config \<Rightarrow> account_registry \<Rightarrow> marking_state evaluation" where
  "marking_the_close_evaluate iter config accounts book incoming st =
     (case marking_evaluate_opt iter config accounts book incoming st of
        None \<Rightarrow> (st, [])
      | Some r \<Rightarrow> r)"

section \<open>Every check returns\<close>

definition in_group :: "account_registry \<Rightarrow> marking_state \<Rightarrow> string \<Rightarrow> string \<Rightarrow> bool" where
  "in_group accounts st a x \<longleftrightarrow> x \<in> set (ag_seen (mk_groups st)) \<and>
     grouped accounts (ag_seen (mk_groups st)) a x"

lemma grouped_mem: "grouped accounts xs a x \<Longrightarrow> a \<in> set xs \<and> x \<in> set xs"
  by (rule accounts.linked_within_mem)

lemma grouped_self: "a \<in> set xs \<Longrightarrow> grouped accounts xs a a"
  by (rule accounts.linked_within.here)

text \<open>The two lookups of a check: the state they leave, and the members they find.\<close>

lemma check_lookups:
  assumes "permutes iter" and "groups_ok accounts g"
  obtains g1 g2 where "register_and_group iter accounts a g = Some g1"
    "group_members iter a g1 = Some (filter (\<lambda>x. grouped accounts (ag_seen g2) a x) (iter (ag_seen g2)), g2)"
    "groups_ok accounts g2" "set (ag_seen g2) = insert a (set (ag_seen g))"
proof -
  obtain g1 where g1: "register_and_group iter accounts a g = Some g1" "groups_ok accounts g1"
    "ag_seen g1 = (if a \<in> set (ag_seen g) then ag_seen g else ag_seen g @ [a])"
    using register_groups [OF assms] by blast
  then have a: "a \<in> set (ag_seen g1)" "set (ag_seen g1) = insert a (set (ag_seen g))" by auto
  obtain g2 where g2: "group_members iter a g1 =
      Some (filter (\<lambda>x. x = a \<or> grouped accounts (ag_seen g1) a x) (iter (ag_seen g1)), g2)"
    "groups_ok accounts g2" "ag_seen g2 = ag_seen g1" using group_members_total [OF g1(2)] by blast
  have eq: "filter (\<lambda>x. x = a \<or> grouped accounts (ag_seen g1) a x) (iter (ag_seen g1)) =
      filter (\<lambda>x. grouped accounts (ag_seen g2) a x) (iter (ag_seen g2))"
    using a(1) grouped_self by (auto simp: g2(3) intro!: filter_cong)
  show ?thesis
    by (rule that [OF g1(1) g2(1) [unfolded eq] g2(2)]) (use a g2(3) in simp_all)
qed

definition group_list :: "iteration \<Rightarrow> account_registry \<Rightarrow> account_groups \<Rightarrow> string \<Rightarrow> string list" where
  "group_list iter accounts g a = filter (\<lambda>x. grouped accounts (ag_seen g) a x) (iter (ag_seen g))"

text \<open>The outcome of a check, in terms of the group.\<close>

lemma check_account_outcome:
  assumes "permutes iter" and "groups_ok accounts (mk_groups st)"
  obtains g st2 al where
    "check_account iter config accounts instr a ws ts seq st = Some (st2, al)"
    "groups_ok accounts g" "set (ag_seen g) = insert a (set (ag_seen (mk_groups st)))"
    "al = None \<and> st2 = st\<lparr>mk_groups := g\<rparr> \<or>
     al = Some (marking_alert instr (group_list iter accounts g a) ws ts seq (st\<lparr>mk_groups := g\<rparr>)) \<and>
     st2 = st\<lparr>mk_groups := g, mk_alerted := insert (window_key instr a) (mk_alerted st)\<rparr> \<and>
     (\<forall>m \<in> set (group_list iter accounts g a). window_key instr m \<notin> mk_alerted st) \<and>
     mk_min_account_qty_threshold config \<le> group_qty instr (group_list iter accounts g a) st \<and>
     mk_min_total_window_qty_threshold config \<le> mk_total_window_qty st instr \<and>
     mk_concentration_threshold config \<le>
       fdiv (to_double (group_qty instr (group_list iter accounts g a) st))
         (to_double (mk_total_window_qty st instr))"
proof -
  obtain g1 g where g: "register_and_group iter accounts a (mk_groups st) = Some g1"
    "group_members iter a g1 = Some (group_list iter accounts g a, g)"
    "groups_ok accounts g" "set (ag_seen g) = insert a (set (ag_seen (mk_groups st)))"
    unfolding group_list_def by (rule check_lookups [OF assms])
  let ?r = "check_account iter config accounts instr a ws ts seq st"
  have "\<exists>st2 al. ?r = Some (st2, al) \<and> (al = None \<and> st2 = st\<lparr>mk_groups := g\<rparr> \<or>
     al = Some (marking_alert instr (group_list iter accounts g a) ws ts seq (st\<lparr>mk_groups := g\<rparr>)) \<and>
     st2 = st\<lparr>mk_groups := g, mk_alerted := insert (window_key instr a) (mk_alerted st)\<rparr> \<and>
     (\<forall>m \<in> set (group_list iter accounts g a). window_key instr m \<notin> mk_alerted st) \<and>
     mk_min_account_qty_threshold config \<le> group_qty instr (group_list iter accounts g a) st \<and>
     mk_min_total_window_qty_threshold config \<le> mk_total_window_qty st instr \<and>
     mk_concentration_threshold config \<le>
       fdiv (to_double (group_qty instr (group_list iter accounts g a) st))
         (to_double (mk_total_window_qty st instr)))"
    by (auto simp: check_account_def g(1,2) Let_def list_ex_iff group_qty_def not_less)
  with that g(3-4) show ?thesis by blast
qed

section \<open>What the state records of a history\<close>

text \<open>The executions of a history that fall in the closing window of their instrument.\<close>

definition in_window :: "marking_the_close_config \<Rightarrow> execution \<Rightarrow> bool" where
  "in_window config x =
     (case mk_close_time_ns_by_instrument config (x_instrument_id x) of
        None \<Rightarrow> False
      | Some close_ts \<Rightarrow> close_ts - mk_window_duration_ns config \<le> x_timestamp_ns x \<and>
          x_timestamp_ns x \<le> close_ts)"

fun window_execution :: "marking_the_close_config \<Rightarrow> event \<Rightarrow> execution option" where
  "window_execution config (OrderEvent _) = None"
| "window_execution config (ExecutionEvent x) = (if in_window config x then Some x else None)"

definition window_executions :: "marking_the_close_config \<Rightarrow> (order_book \<times> event) list \<Rightarrow> execution list" where
  "window_executions config evs = List.map_filter (\<lambda>(_, e). window_execution config e) evs"

lemma window_executions_snoc: "window_executions config (evs @ [(b, e)]) =
    window_executions config evs @ (case window_execution config e of None \<Rightarrow> [] | Some x \<Rightarrow> [x])"
  by (simp add: window_executions_def map_filter_def split: option.split)

definition participants :: "execution \<Rightarrow> string set" where
  "participants x = insert (x_account_id x)
     (if has_other_side x then {x_counterparty_account_id x} else {})"

definition seen_accounts :: "execution list \<Rightarrow> string set" where
  "seen_accounts W = (\<Union>x \<in> set W. participants x)"

definition total_volume :: "execution list \<Rightarrow> string \<Rightarrow> int" where
  "total_volume W i = sum_list (map (\<lambda>x. if x_instrument_id x = i then x_qty x else 0) W)"

definition credited :: "string \<Rightarrow> execution \<Rightarrow> int" where
  "credited k x = (if window_key (x_instrument_id x) (x_account_id x) = k then x_qty x else 0) +
     (if has_other_side x \<and> window_key (x_instrument_id x) (x_counterparty_account_id x) = k
      then x_qty x else 0)"

definition account_volume :: "execution list \<Rightarrow> string \<Rightarrow> int" where
  "account_volume W k = sum_list (map (credited k) W)"

definition records :: "account_registry \<Rightarrow> execution list \<Rightarrow> marking_state \<Rightarrow> bool" where
  "records accounts W st \<longleftrightarrow> groups_ok accounts (mk_groups st) \<and>
     mk_total_window_qty st = total_volume W \<and> mk_account_window_qty st = account_volume W"

lemma record_volume_fields:
  "mk_groups (record_volume x st) = mk_groups st" "mk_alerted (record_volume x st) = mk_alerted st"
  by (simp_all add: record_volume_def credit_def Let_def)

lemma record_volume_records:
  assumes "mk_total_window_qty st = total_volume W" and "mk_account_window_qty st = account_volume W"
  shows "mk_total_window_qty (record_volume x st) = total_volume (W @ [x])"
    and "mk_account_window_qty (record_volume x st) = account_volume (W @ [x])"
  using assms by (auto simp: record_volume_def credit_def Let_def total_volume_def account_volume_def
      credited_def fun_eq_iff)

text \<open>The alerts raised so far: no two about one instrument share an account.\<close>

definition apart :: "alert \<Rightarrow> alert \<Rightarrow> bool" where
  "apart a b \<longleftrightarrow> al_instrument_id a \<noteq> al_instrument_id b \<or> set (al_account_ids a) \<inter> set (al_account_ids b) = {}"

definition flagged :: "account_registry \<Rightarrow> marking_state \<Rightarrow> alert \<Rightarrow> bool" where
  "flagged accounts st a \<longleftrightarrow> (\<exists>r. window_key (al_instrument_id a) r \<in> mk_alerted st \<and>
     (\<forall>m \<in> set (al_account_ids a). grouped accounts (ag_seen (mk_groups st)) r m))"

definition alerts_apart :: "account_registry \<Rightarrow> marking_state \<Rightarrow> alert list \<Rightarrow> bool" where
  "alerts_apart accounts st as \<longleftrightarrow> groups_ok accounts (mk_groups st) \<and>
     (\<forall>a \<in> set as. flagged accounts st a) \<and> sorted_wrt apart as"

lemma flagged_mono:
  assumes "flagged accounts st a" and "set (ag_seen (mk_groups st)) \<subseteq> set (ag_seen (mk_groups st'))"
    and "mk_alerted st \<subseteq> mk_alerted st'"
  shows "flagged accounts st' a"
  using assms grouped_mono [OF _ assms(2)] unfolding flagged_def by blast

lemma marking_alert_fields [simp]:
  "al_instrument_id (marking_alert i ms ws ts seq st) = i"
  "al_account_ids (marking_alert i ms ws ts seq st) = ms"
  "al_window_start_ns (marking_alert i ms ws ts seq st) = ws"
  "al_window_end_ns (marking_alert i ms ws ts seq st) = ts"
  "al_detector_name (marking_alert i ms ws ts seq st) = marking_the_close_name"
  "al_book_snapshot_sequence (marking_alert i ms ws ts seq st) = Some seq"
  by (simp_all add: marking_alert_def Let_def)

lemma group_list_set:
  "permutes iter \<Longrightarrow> set (group_list iter accounts g a) = {x. grouped accounts (ag_seen g) a x}"
  by (auto simp: group_list_def dest: grouped_mem)

definition opt_list :: "'a option \<Rightarrow> 'a list" where
  "opt_list a = (case a of None \<Rightarrow> [] | Some x \<Rightarrow> [x])"

lemma opt_list_simps [simp]: "opt_list None = []" "opt_list (Some x) = [x]"
  by (simp_all add: opt_list_def)

text \<open>One check keeps the record, adds the account to those seen, and its alert is apart.\<close>

lemma check_account_step:
  assumes "permutes iter" and "groups_ok accounts (mk_groups st)"
  obtains g st2 al where
    "check_account iter config accounts instr a ws ts seq st = Some (st2, al)"
    "mk_groups st2 = g" "groups_ok accounts g"
    "set (ag_seen g) = insert a (set (ag_seen (mk_groups st)))"
    "mk_total_window_qty st2 = mk_total_window_qty st"
    "mk_account_window_qty st2 = mk_account_window_qty st"
    "\<And>as. alerts_apart accounts st as \<Longrightarrow> alerts_apart accounts st2 (as @ opt_list al)"
    "al = None \<or> al = Some (marking_alert instr (group_list iter accounts g a) ws ts seq (st\<lparr>mk_groups := g\<rparr>)) \<and>
       mk_min_account_qty_threshold config \<le> group_qty instr (group_list iter accounts g a) st \<and>
       mk_min_total_window_qty_threshold config \<le> mk_total_window_qty st instr \<and>
       mk_concentration_threshold config \<le>
         fdiv (to_double (group_qty instr (group_list iter accounts g a) st))
           (to_double (mk_total_window_qty st instr))"
proof -
  obtain g st2 al where c: "check_account iter config accounts instr a ws ts seq st = Some (st2, al)"
    "groups_ok accounts g" and seen: "set (ag_seen g) = insert a (set (ag_seen (mk_groups st)))"
    and out: "al = None \<and> st2 = st\<lparr>mk_groups := g\<rparr> \<or>
     al = Some (marking_alert instr (group_list iter accounts g a) ws ts seq (st\<lparr>mk_groups := g\<rparr>)) \<and>
     st2 = st\<lparr>mk_groups := g, mk_alerted := insert (window_key instr a) (mk_alerted st)\<rparr> \<and>
     (\<forall>m \<in> set (group_list iter accounts g a). window_key instr m \<notin> mk_alerted st) \<and>
     mk_min_account_qty_threshold config \<le> group_qty instr (group_list iter accounts g a) st \<and>
     mk_min_total_window_qty_threshold config \<le> mk_total_window_qty st instr \<and>
     mk_concentration_threshold config \<le>
       fdiv (to_double (group_qty instr (group_list iter accounts g a) st))
         (to_double (mk_total_window_qty st instr))"
    by (rule check_account_outcome [OF assms])
  then have c3: "a \<in> set (ag_seen g)" and c4: "set (ag_seen (mk_groups st)) \<subseteq> set (ag_seen g)" by auto
  have fields: "mk_groups st2 = g" "mk_total_window_qty st2 = mk_total_window_qty st"
    "mk_account_window_qty st2 = mk_account_window_qty st" "mk_alerted st \<subseteq> mk_alerted st2"
    using out by auto
  have apart: "alerts_apart accounts st2 (as @ opt_list al)" if as: "alerts_apart accounts st as" for as
  proof -
    have old: "flagged accounts st2 b" if "b \<in> set as" for b
      using as that fields c4 by (intro flagged_mono [of accounts st b st2]) (auto simp: alerts_apart_def)
    have new: "flagged accounts st2 b \<and> (\<forall>o' \<in> set as. apart o' b)" if b: "al = Some b" for b
    proof -
      let ?G = "set (group_list iter accounts g a)"
      from out b have b_def: "al_instrument_id b = instr" "set (al_account_ids b) = ?G"
        "window_key instr a \<in> mk_alerted st2"
        and fresh: "\<forall>m \<in> ?G. window_key instr m \<notin> mk_alerted st" by auto
      have "flagged accounts st2 b"
        using b_def by (auto simp: flagged_def fields(1) group_list_set [OF assms(1)])
      moreover have "apart o' b" if o': "o' \<in> set as" for o'
      proof (rule ccontr)
        assume "\<not> apart o' b"
        then obtain m where m: "al_instrument_id o' = instr" "m \<in> set (al_account_ids o')" "m \<in> ?G"
          by (auto simp: apart_def b_def)
        from as o' have "flagged accounts st o'" by (simp add: alerts_apart_def)
        then obtain r where r: "window_key instr r \<in> mk_alerted st"
          "grouped accounts (ag_seen (mk_groups st)) r m" using m by (auto simp: flagged_def)
        have "grouped accounts (ag_seen g) m r"
          using grouped_mono [OF r(2) c4] accounts.linked_within_sym by blast
        moreover have "grouped accounts (ag_seen g) a m"
          using m(3) group_list_set [OF assms(1)] by auto
        ultimately have "grouped accounts (ag_seen g) a r" by (rule accounts.linked_within_trans)
        then have "r \<in> ?G" by (simp add: group_list_set [OF assms(1)])
        with fresh r(1) show False by blast
      qed
      ultimately show ?thesis by blast
    qed
    show ?thesis
      using as old new fields(1) c(2) unfolding alerts_apart_def
      by (cases al) (auto simp: sorted_wrt_append)
  qed
  show ?thesis
    by (rule that [OF c(1) fields(1) c(2) seen fields(2,3) apart]) (use out in blast)+
qed

section \<open>Executions and histories\<close>

text \<open>
  What an alert about a group says: the group is a connected component of the accounts seen,
  its volume and the instrument's total are those of the window, and both floors and the
  concentration threshold are met.
\<close>

definition justified :: "marking_the_close_config \<Rightarrow> account_registry \<Rightarrow> execution list \<Rightarrow> execution \<Rightarrow> alert \<Rightarrow> bool" where
  "justified config accounts W x al \<longleftrightarrow>
     (\<exists>acct \<in> participants x. \<exists>S. seen_accounts W \<subseteq> S \<and> S \<subseteq> seen_accounts W \<union> participants x \<and>
        set (al_account_ids al) = {y. accounts.linked_within accounts S acct y}) \<and>
     (let qty = sum_list (map (\<lambda>m. account_volume (W @ [x]) (window_key (x_instrument_id x) m)) (al_account_ids al));
          total = total_volume (W @ [x]) (x_instrument_id x);
          share = fdiv (to_double qty) (to_double total)
      in mk_min_account_qty_threshold config \<le> qty \<and> mk_min_total_window_qty_threshold config \<le> total \<and>
         mk_concentration_threshold config \<le> share \<and> al_score al = min share 1) \<and>
     al_instrument_id al = x_instrument_id x \<and> al_detector_name al = marking_the_close_name \<and>
     distinct (al_account_ids al) \<and>
     al_window_start_ns al \<le> al_window_end_ns al \<and> al_window_end_ns al = x_timestamp_ns x"

lemma group_qty_sum: "group_qty i ms st = sum_list (map (\<lambda>m. mk_account_window_qty st (window_key i m)) ms)"
proof -
  have "foldl (\<lambda>q m. q + f m) z ms = z + sum_list (map f ms)" for f :: "string \<Rightarrow> int" and z
    by (induction ms arbitrary: z) simp_all
  then show ?thesis by (simp add: group_qty_def)
qed

lemma marking_alert_score: "al_score (marking_alert i ms ws ts seq st) =
    min (fdiv (to_double (group_qty i ms st)) (to_double (mk_total_window_qty st i))) 1"
  by (simp add: marking_alert_def Let_def)

lemma group_qty_groups [simp]: "group_qty i ms (st\<lparr>mk_groups := g\<rparr>) = group_qty i ms st"
  by (simp add: group_qty_def)

lemma justifiedI:
  assumes perm: "permutes iter" and ok: "groups_ok accounts g"
    and vol: "mk_total_window_qty st = total_volume (W @ [x])" "mk_account_window_qty st = account_volume (W @ [x])"
    and acct: "acct \<in> participants x"
    and seen: "seen_accounts W \<subseteq> set (ag_seen g)" "set (ag_seen g) \<subseteq> seen_accounts W \<union> participants x"
    and al: "al = marking_alert (x_instrument_id x) (group_list iter accounts g acct) ws (x_timestamp_ns x) seq (st\<lparr>mk_groups := g\<rparr>)"
    and bars: "mk_min_account_qty_threshold config \<le> group_qty (x_instrument_id x) (group_list iter accounts g acct) st"
      "mk_min_total_window_qty_threshold config \<le> mk_total_window_qty st (x_instrument_id x)"
      "mk_concentration_threshold config \<le>
         fdiv (to_double (group_qty (x_instrument_id x) (group_list iter accounts g acct) st))
           (to_double (mk_total_window_qty st (x_instrument_id x)))"
    and ws: "ws \<le> x_timestamp_ns x"
  shows "justified config accounts W x al"
proof -
  have "set (al_account_ids al) = {y. accounts.linked_within accounts (set (ag_seen g)) acct y}"
    using group_list_set [OF perm] by (simp add: al)
  moreover have "distinct (al_account_ids al)"
    using ok perm by (simp add: al group_list_def groups_ok_def)
  ultimately show ?thesis
    using acct seen bars ws vol unfolding justified_def
    by (auto simp: al marking_alert_score group_qty_sum Let_def)
qed

lemma marking_execution_step:
  assumes perm: "permutes iter" and rec: "records accounts W st"
    and seen: "set (ag_seen (mk_groups st)) = seen_accounts W" and inw: "in_window config x"
  shows "\<exists>st' as'. marking_handle_execution iter config accounts x seq st = Some (st', as') \<and>
    records accounts (W @ [x]) st' \<and> set (ag_seen (mk_groups st')) = seen_accounts (W @ [x]) \<and>
    (\<forall>as. alerts_apart accounts st as \<longrightarrow> alerts_apart accounts st' (as @ as')) \<and>
    (\<forall>al \<in> set as'. justified config accounts W x al \<and> al_book_snapshot_sequence al = Some seq)"
proof -
  from inw obtain close_ts where close: "mk_close_time_ns_by_instrument config (x_instrument_id x) = Some close_ts"
    and bounds: "close_ts - mk_window_duration_ns config \<le> x_timestamp_ns x" "x_timestamp_ns x \<le> close_ts"
    by (auto simp: in_window_def split: option.splits)
  define ws where "ws = close_ts - mk_window_duration_ns config"
  define st0 where "st0 = record_volume x st"
  define i where "i = x_instrument_id x"
  have vol: "mk_total_window_qty st0 = total_volume (W @ [x])" "mk_account_window_qty st0 = account_volume (W @ [x])"
    and grp: "mk_groups st0 = mk_groups st" "mk_alerted st0 = mk_alerted st"
    using rec record_volume_records [of st W x] by (simp_all add: st0_def records_def record_volume_fields)
  have ok0: "groups_ok accounts (mk_groups st0)" using rec by (simp add: grp records_def)
  have ap0: "alerts_apart accounts st0 as = alerts_apart accounts st as" for as
    by (simp add: alerts_apart_def flagged_def grp)
  let ?check = "\<lambda>a. check_account iter config accounts i a ws (x_timestamp_ns x) seq"
  obtain g1 st1 a1 where c1: "?check (x_account_id x) st0 = Some (st1, a1)" "mk_groups st1 = g1"
    "groups_ok accounts g1" "set (ag_seen g1) = insert (x_account_id x) (seen_accounts W)"
    "mk_total_window_qty st1 = mk_total_window_qty st0" "mk_account_window_qty st1 = mk_account_window_qty st0"
    "\<And>as. alerts_apart accounts st0 as \<Longrightarrow> alerts_apart accounts st1 (as @ opt_list a1)"
    and j1: "\<And>al. a1 = Some al \<Longrightarrow> justified config accounts W x al \<and> al_book_snapshot_sequence al = Some seq"
  proof (rule check_account_step [OF perm ok0, where config = config and instr = i and a = "x_account_id x"
        and ws = ws and ts = "x_timestamp_ns x" and seq = seq], goal_cases)
    case (1 g st2 al)
    have "justified config accounts W x al' \<and> al_book_snapshot_sequence al' = Some seq" if "al = Some al'" for al'
      using 1(9) that
      by (auto intro!: justifiedI [OF perm 1(4) vol, of "x_account_id x"]
          simp: participants_def 1(5) grp seen i_def ws_def bounds)
    with 1 show ?case using that grp seen by metis
  qed
  have code: "marking_handle_execution iter config accounts x seq st =
      (if has_other_side x
       then Option.bind (?check (x_counterparty_account_id x) st1) (\<lambda>(st2, a2). Some (st2, opt_list a1 @ opt_list a2))
       else Some (st1, opt_list a1))"
    using bounds c1(1)
    by (simp add: marking_handle_execution_def close Let_def ws_def st0_def i_def opt_list_def not_less)
  show ?thesis
  proof (cases "has_other_side x")
    case False
    then have p: "participants x = {x_account_id x}" by (simp add: participants_def)
    from False c1 j1 vol rec p show ?thesis
      by (auto simp: code records_def ap0 seen_accounts_def opt_list_def split: option.splits)
  next
    case True
    then have p: "participants x = {x_account_id x, x_counterparty_account_id x}" by (simp add: participants_def)
    have ok1: "groups_ok accounts (mk_groups st1)" using c1(2,3) by simp
    have vol1: "mk_total_window_qty st1 = total_volume (W @ [x])" "mk_account_window_qty st1 = account_volume (W @ [x])"
      using c1(5,6) vol by simp_all
    obtain g2 st2 a2 where c2: "?check (x_counterparty_account_id x) st1 = Some (st2, a2)" "mk_groups st2 = g2"
      "groups_ok accounts g2" "set (ag_seen g2) = insert (x_counterparty_account_id x) (set (ag_seen g1))"
      "mk_total_window_qty st2 = mk_total_window_qty st1" "mk_account_window_qty st2 = mk_account_window_qty st1"
      "\<And>as. alerts_apart accounts st1 as \<Longrightarrow> alerts_apart accounts st2 (as @ opt_list a2)"
      and j2: "\<And>al. a2 = Some al \<Longrightarrow> justified config accounts W x al \<and> al_book_snapshot_sequence al = Some seq"
    proof (rule check_account_step [OF perm ok1, where config = config and instr = i
          and a = "x_counterparty_account_id x" and ws = ws and ts = "x_timestamp_ns x" and seq = seq], goal_cases)
      case (1 g st2 al)
      have "justified config accounts W x al' \<and> al_book_snapshot_sequence al' = Some seq" if "al = Some al'" for al'
        using 1(9) that
        by (auto intro!: justifiedI [OF perm 1(4) vol1, of "x_counterparty_account_id x"]
            simp: p 1(5) c1(2,4) i_def ws_def bounds)
      with 1 show ?case using that c1(2) by metis
    qed
    have "seen_accounts (W @ [x]) = set (ag_seen g2)" by (auto simp: seen_accounts_def p c1(4) c2(4))
    moreover have "alerts_apart accounts st2 (as @ opt_list a1 @ opt_list a2)" if "alerts_apart accounts st as" for as
      using c2(7) [OF c1(7)] that by (simp add: ap0)
    ultimately show ?thesis
      using True c2(1-6) j1 j2 vol1
      by (auto simp: code records_def opt_list_def split: option.splits)
  qed
qed

abbreviation marking_run where
  "marking_run iter config accounts evs \<equiv>
     run_detector (marking_the_close_evaluate iter config accounts) evs empty_marking_state"

lemma marking_foreign: "window_execution config e = None \<Longrightarrow>
    marking_evaluate_opt iter config accounts book e st = Some (st, [])"
  by (cases e) (auto simp: marking_handle_execution_def in_window_def Let_def split: option.splits if_splits)

text \<open>The invariant of a run, and what the next event does.\<close>

definition run_ok :: "iteration \<Rightarrow> marking_the_close_config \<Rightarrow> account_registry \<Rightarrow> (order_book \<times> event) list \<Rightarrow> bool" where
  "run_ok iter config accounts evs \<longleftrightarrow>
     (let (st, as) = marking_run iter config accounts evs; W = window_executions config evs
      in records accounts W st \<and> set (ag_seen (mk_groups st)) = seen_accounts W \<and> alerts_apart accounts st as)"

lemma run_ok_next:
  assumes "permutes iter" and "run_ok iter config accounts evs"
  obtains st' as' where
    "marking_evaluate_opt iter config accounts book e (fst (marking_run iter config accounts evs)) = Some (st', as')"
    "run_ok iter config accounts (evs @ [(book, e)])"
    "\<And>al. al \<in> set as' \<Longrightarrow> \<exists>x. window_execution config e = Some x \<and>
       justified config accounts (window_executions config evs) x al \<and>
       al_book_snapshot_sequence al = Some (sequence_ref book)"
proof -
  obtain st as where run: "marking_run iter config accounts evs = (st, as)" by fastforce
  let ?W = "window_executions config evs"
  from assms(2) have ok: "records accounts ?W st" "set (ag_seen (mk_groups st)) = seen_accounts ?W"
    "alerts_apart accounts st as" by (simp_all add: run_ok_def run Let_def)
  have next_run: "marking_run iter config accounts (evs @ [(book, e)]) = (st', as @ as')"
    if "marking_evaluate_opt iter config accounts book e st = Some (st', as')" for st' as'
    using that by (simp add: run_detector_append run marking_the_close_evaluate_def)
  show ?thesis
  proof (cases "window_execution config e")
    case None
    note ev = marking_foreign [OF None, of iter accounts book st]
    show ?thesis
      by (rule that [of st "[]"])
        (use ev ok next_run [OF ev] in \<open>simp_all add: run run_ok_def window_executions_snoc None\<close>)
  next
    case (Some x)
    then have x: "e = ExecutionEvent x" "in_window config x" by (cases e; auto split: if_splits)+
    obtain st' as' where st': "marking_handle_execution iter config accounts x (sequence_ref book) st = Some (st', as')"
      "records accounts (?W @ [x]) st'" "set (ag_seen (mk_groups st')) = seen_accounts (?W @ [x])"
      "\<forall>as. alerts_apart accounts st as \<longrightarrow> alerts_apart accounts st' (as @ as')"
      "\<forall>al \<in> set as'. justified config accounts ?W x al \<and> al_book_snapshot_sequence al = Some (sequence_ref book)"
      using marking_execution_step [OF assms(1) ok(1,2) x(2)] by blast
    have ev: "marking_evaluate_opt iter config accounts book e st = Some (st', as')"
      using st'(1) x(1) by simp
    show ?thesis
      by (rule that [of st' as'])
        (use ev st' ok(3) next_run [OF ev] Some in \<open>auto simp: run run_ok_def window_executions_snoc\<close>)
  qed
qed

lemma run_ok_all: "permutes iter \<Longrightarrow> run_ok iter config accounts evs"
proof (induction evs rule: rev_induct)
  case Nil
  have "rep Map.empty a r \<longleftrightarrow> r = a" for a r :: string
    using rep.root [of Map.empty a] rep_root_inv [of Map.empty a r] by auto
  then have "groups_ok accounts empty_groups"
    by (auto simp: groups_ok_def empty_groups_def forest_def together_def dest: accounts.linked_within_mem)
  then show ?case
    by (simp add: run_ok_def empty_marking_state_def records_def alerts_apart_def seen_accounts_def
        window_executions_def map_filter_def empty_groups_def total_volume_def account_volume_def fun_eq_iff)
next
  case (snoc be evs)
  then show ?case by (cases be) (metis run_ok_next)
qed

section \<open>The detector contract\<close>

definition sensible :: "marking_the_close_config \<Rightarrow> bool" where
  "sensible config \<longleftrightarrow> 0 \<le> mk_min_account_qty_threshold config \<and> 0 < mk_min_total_window_qty_threshold config"

lemma check_account_alert:
  assumes "check_account iter config accounts i a ws ts seq st = Some (st2, Some al)"
  obtains ms st' where "al = marking_alert i ms ws ts seq st'"
    "mk_min_account_qty_threshold config \<le> group_qty i ms st'"
    "mk_min_total_window_qty_threshold config \<le> mk_total_window_qty st' i"
  using assms by (auto simp: check_account_def Let_def bind_eq_Some_conv split: if_splits)

lemma check_account_conforms:
  assumes "check_account iter config accounts i a ws ts (sequence_ref book) st = Some (st2, Some al)"
    and "sensible config" and "ws \<le> ts" and "ts = timestamp_of incoming"
  shows "conforms marking_the_close_name book incoming al"
proof -
  obtain ms st' where al: "al = marking_alert i ms ws ts (sequence_ref book) st'"
    "mk_min_account_qty_threshold config \<le> group_qty i ms st'"
    "mk_min_total_window_qty_threshold config \<le> mk_total_window_qty st' i"
    by (rule check_account_alert [OF assms(1)])
  have "0 \<le> fdiv (to_double (group_qty i ms st')) (to_double (mk_total_window_qty st' i))"
    using al(2,3) assms(2) by (intro fdiv_nonneg to_double_nonneg) (simp_all add: sensible_def)
  with assms(3,4) show ?thesis by (simp add: al(1) conforms_def marking_alert_score)
qed

lemma marking_alerts_conform:
  assumes "sensible config" and "al \<in> set (snd (marking_the_close_evaluate iter config accounts book incoming st))"
  shows "conforms marking_the_close_name book incoming al"
proof -
  obtain x where x: "incoming = ExecutionEvent x"
    using assms(2) by (cases incoming) (auto simp: marking_the_close_evaluate_def)
  obtain st' as' where h: "marking_handle_execution iter config accounts x (sequence_ref book) st = Some (st', as')"
    "al \<in> set as'"
    using assms(2) by (auto simp: x marking_the_close_evaluate_def split: option.splits)
  then obtain ws a st1 st2 where "ws \<le> x_timestamp_ns x"
    "check_account iter config accounts (x_instrument_id x) a ws (x_timestamp_ns x) (sequence_ref book) st1 = Some (st2, Some al)"
    by (auto simp: marking_handle_execution_def Let_def bind_eq_Some_conv not_less
        split: option.splits if_splits prod.splits)
  then show ?thesis using check_account_conforms assms(1) x by (metis timestamp_of.simps(2))
qed

interpretation marking_the_close: detector "marking_the_close_evaluate iter config accounts"
    marking_the_close_name "\<lambda>_. sensible config" for iter config accounts
  by unfold_locales (auto intro: marking_alerts_conform)

section \<open>Properties\<close>

text \<open>
  C25: the grouping returns.  Whatever the order in which the unordered set is iterated, no
  history of events builds a parent cycle: evaluating the next event always returns, although
  \<open>find_group\<close> recurses along parent pointers without a bound.
\<close>

theorem marking_total:
  assumes "permutes iter"
  shows "marking_evaluate_opt iter config accounts book e (fst (marking_run iter config accounts evs)) =
    Some (marking_the_close_evaluate iter config accounts book e (fst (marking_run iter config accounts evs)))"
proof -
  obtain st' as' where
    "marking_evaluate_opt iter config accounts book e (fst (marking_run iter config accounts evs)) = Some (st', as')"
    by (rule run_ok_next [OF assms run_ok_all [OF assms]])
  then show ?thesis by (simp add: marking_the_close_evaluate_def)
qed

definition wash_pair :: "string \<Rightarrow> string \<Rightarrow> int \<Rightarrow> event" where
  "wash_pair acct cp q = ExecutionEvent (default_execution\<lparr>x_instrument_id := ''ES'', x_trade_id := ''t'',
     x_account_id := acct, x_counterparty_account_id := cp, x_qty := q, x_timestamp_ns := 1\<rparr>)"

definition close_config :: marking_the_close_config where
  "close_config = default_marking_config [''ES'' \<mapsto> 5]"

theorem marking_total_witness:
  "marking_evaluate_opt rev close_config empty_registry (empty_book ''ES'') (wash_pair ''A'' ''B'' 300)
     (fst (marking_run rev close_config empty_registry [(empty_book ''ES'', wash_pair ''A'' ''C'' 300)])) =
   Some (marking_the_close_evaluate rev close_config empty_registry (empty_book ''ES'') (wash_pair ''A'' ''B'' 300)
     (fst (marking_run rev close_config empty_registry [(empty_book ''ES'', wash_pair ''A'' ''C'' 300)])))"
  by (rule marking_total) (simp add: permutes_def)

text \<open>
  C24: marking-the-close alerts are justified.  An alert names, without repetition, one connected
  component of the accounts seen in closing windows so far under the relatedness relation, a
  component of one of the execution's parties; its volume is the sum of what the window's
  executions credited to those accounts, and that volume, the instrument's total and their
  ratio reach the configured floors and threshold.
\<close>

theorem marking_alert_justified:
  assumes "permutes iter"
    and "al \<in> set (snd (marking_the_close_evaluate iter config accounts book e (fst (marking_run iter config accounts evs))))"
  shows "\<exists>x. window_execution config e = Some x \<and>
    justified config accounts (window_executions config evs) x al"
proof -
  have ok: "run_ok iter config accounts evs" by (rule run_ok_all [OF assms(1)])
  obtain st' as' where r:
    "marking_evaluate_opt iter config accounts book e (fst (marking_run iter config accounts evs)) = Some (st', as')"
    "\<And>al. al \<in> set as' \<Longrightarrow> \<exists>x. window_execution config e = Some x \<and>
       justified config accounts (window_executions config evs) x al \<and>
       al_book_snapshot_sequence al = Some (sequence_ref book)"
    by (rule run_ok_next [OF assms(1) ok, where book = book and e = e]) blast
  with assms(2) have "al \<in> set as'" by (simp add: marking_the_close_evaluate_def)
  with r(2) show ?thesis by blast
qed

text \<open>
  One alert per group.  In the alerts of any history no account is named twice for the same
  instrument, even where groups that were separate have been found to be related and merged
  in between.
\<close>

theorem marking_alerts_disjoint:
  assumes "permutes iter"
  shows "sorted_wrt (\<lambda>a b. al_instrument_id a \<noteq> al_instrument_id b \<or>
      set (al_account_ids a) \<inter> set (al_account_ids b) = {})
    (snd (marking_run iter config accounts evs))"
  using run_ok_all [OF assms, of config accounts evs]
  by (auto simp: run_ok_def alerts_apart_def apart_def [abs_def] Let_def split: prod.splits)

theorem marking_alerts_disjoint_witness:
  "sorted_wrt (\<lambda>a b. al_instrument_id a \<noteq> al_instrument_id b \<or>
      set (al_account_ids a) \<inter> set (al_account_ids b) = {})
    (snd (marking_run rev close_config empty_registry
      [(empty_book ''ES'', wash_pair ''A'' ''A'' 600), (empty_book ''ES'', wash_pair ''A'' ''A'' 600)]))"
  by (rule marking_alerts_disjoint) (simp add: permutes_def)

theorem marking_alert_justified_witness:
  "\<exists>al. al \<in> set (snd (marking_the_close_evaluate (\<lambda>xs. xs) close_config empty_registry (empty_book ''ES'')
      (wash_pair ''A'' ''A'' 600) (fst (marking_run (\<lambda>xs. xs) close_config empty_registry [])))) \<and>
    al_account_ids al = [''A''] \<and>
    (\<exists>x. window_execution close_config (wash_pair ''A'' ''A'' 600) = Some x \<and>
       justified close_config empty_registry [] x al)"
proof -
  have out: "map al_account_ids (snd (marking_the_close_evaluate (\<lambda>xs. xs) close_config empty_registry (empty_book ''ES'')
      (wash_pair ''A'' ''A'' 600) (fst (marking_run (\<lambda>xs. xs) close_config empty_registry [])))) = [[''A'']]"
    by (simp add: marking_the_close_evaluate_def wash_pair_def close_config_def default_marking_config_def
        default_execution_def marking_handle_execution_def Let_def check_account_def register_and_group_def
        empty_marking_state_def empty_groups_def record_volume_def credit_def has_other_side_def
        group_members_def find_group.simps group_qty_def window_key_def float_eval)
  then obtain al where al: "al \<in> set (snd (marking_the_close_evaluate (\<lambda>xs. xs) close_config empty_registry
      (empty_book ''ES'') (wash_pair ''A'' ''A'' 600) (fst (marking_run (\<lambda>xs. xs) close_config empty_registry []))))"
    "al_account_ids al = [''A'']" by auto
  from marking_alert_justified [OF permutes_id al(1)] al show ?thesis
    by (auto simp: window_executions_def map_filter_def)
qed

end
