(* ===== verification/Ring_Buffer.thy ===== *)
theory Ring_Buffer
  imports Fix_Types "HOL-Library.Sublist"
begin

unbundle bit_operations_syntax

text \<open>
  \<open>cpp/ingestion/spsc_ring_buffer.hpp\<close>: the drop-oldest ring buffer with one sequence number
  per cell, as the two threads run it.  A step is one access to shared memory; \<open>claim\<close> is
  the program counter, with the local variables, of \<open>try_claim_front\<close>, which the consumer runs
  for \<open>pop\<close> and the producer for the reclaim of a full buffer.  Steps of the two threads
  interleave arbitrarily and are sequentially consistent: the weaker orderings of the source are
  not modelled, nor is the moved-from content of a cell, which nothing reads again.
  Positions, sequence numbers and counters are 64-bit and wrap.
\<close>

record 'a ring =
  rb_capacity :: u64
  rb_sequence :: "u64 list"
  rb_data :: "'a list"
  rb_head :: u64
  rb_tail :: u64
  rb_dropped :: u64

text \<open>Construction, refused unless the capacity is a power of two and at least two.\<close>

definition new_ring :: "u64 \<Rightarrow> 'a \<Rightarrow> 'a ring option" where
  "new_ring capacity dflt =
     (if capacity < 2 \<or> capacity AND (capacity - 1) \<noteq> 0 then None
      else Some \<lparr>rb_capacity = capacity, rb_sequence = map of_nat [0..<unat capacity],
                 rb_data = replicate (unat capacity) dflt, rb_head = 0, rb_tail = 0, rb_dropped = 0\<rparr>)"

definition cell_index :: "'a ring \<Rightarrow> u64 \<Rightarrow> nat" where
  "cell_index r pos = unat (pos AND (rb_capacity r - 1))"

definition seq_at :: "'a ring \<Rightarrow> u64 \<Rightarrow> u64" where
  "seq_at r pos = rb_sequence r ! cell_index r pos"

definition set_seq :: "u64 \<Rightarrow> u64 \<Rightarrow> 'a ring \<Rightarrow> 'a ring" where
  "set_seq pos v r = r\<lparr>rb_sequence := (rb_sequence r)[cell_index r pos := v]\<rparr>"

definition size_approx :: "'a ring \<Rightarrow> u64" where
  "size_approx r = rb_tail r - rb_head r"

section \<open>The two threads\<close>

datatype 'a claim =
    Load_Head
  | Load_Seq u64
  | Cas u64
  | Take u64
  | Release u64 'a
  | Claimed 'a
  | Empty

text \<open>
  One step of \<open>try_claim_front\<close>.  \<open>compare_exchange_weak\<close> may fail spuriously; when it fails
  it reloads the position.
\<close>

fun claim_step :: "bool \<Rightarrow> 'a claim \<Rightarrow> 'a ring \<Rightarrow> 'a claim \<times> 'a ring" where
  "claim_step spurious Load_Head r = (Load_Seq (rb_head r), r)"
| "claim_step spurious (Load_Seq pos) r =
     (if seq_at r pos = pos + 1 then Cas pos
      else if seq_at r pos = pos then Empty
      else Load_Head, r)"
| "claim_step spurious (Cas pos) r =
     (if rb_head r = pos \<and> \<not> spurious then (Take pos, r\<lparr>rb_head := pos + 1\<rparr>)
      else (Load_Seq (rb_head r), r))"
| "claim_step spurious (Take pos) r = (Release pos (rb_data r ! cell_index r pos), r)"
| "claim_step spurious (Release pos out) r = (Claimed out, set_seq pos (pos + rb_capacity r) r)"
| "claim_step spurious c r = (c, r)"

datatype 'a producer =
    P_Idle
  | P_Check u64 'a bool
  | P_Claim u64 'a bool "'a claim"
  | P_Write u64 'a bool
  | P_Publish u64 'a bool
  | P_Tail u64 bool

datatype 'a consumer =
    K_Idle
  | K_Claim "'a claim"

fun push_step :: "bool \<Rightarrow> 'a producer \<Rightarrow> 'a ring \<Rightarrow> 'a producer \<times> 'a ring" where
  "push_step spurious P_Idle r = (P_Idle, r)"
| "push_step spurious (P_Check pos item dropped) r =
     (if seq_at r pos = pos then P_Write pos item dropped else P_Claim pos item dropped Load_Head, r)"
| "push_step spurious (P_Claim pos item dropped c) r =
     (case c of
        Claimed discarded \<Rightarrow> (P_Check pos item True, r\<lparr>rb_dropped := rb_dropped r + 1\<rparr>)
      | Empty \<Rightarrow> (P_Check pos item dropped, r)
      | _ \<Rightarrow> let (c', r') = claim_step spurious c r in (P_Claim pos item dropped c', r'))"
| "push_step spurious (P_Write pos item dropped) r =
     (P_Publish pos item dropped, r\<lparr>rb_data := (rb_data r)[cell_index r pos := item]\<rparr>)"
| "push_step spurious (P_Publish pos item dropped) r = (P_Tail pos dropped, set_seq pos (pos + 1) r)"
| "push_step spurious (P_Tail pos dropped) r = (P_Idle, r\<lparr>rb_tail := pos + 1\<rparr>)"

text \<open>
  The whole system.  \<open>sy_published\<close>, \<open>sy_owners\<close> and \<open>sy_popped\<close> are history: the items
  published, in order; for each position claimed, in order, whether the producer reclaimed it;
  and the items \<open>pop\<close> has returned.
\<close>

record 'a system =
  sy_ring :: "'a ring"
  sy_producer :: "'a producer"
  sy_consumer :: "'a consumer"
  sy_published :: "'a list"
  sy_owners :: "bool list"
  sy_popped :: "'a list"

fun wins :: "'a claim \<Rightarrow> 'a claim \<Rightarrow> bool" where
  "wins (Cas _) (Take _) = True"
| "wins _ _ = False"

definition producer_turn :: "bool \<Rightarrow> 'a system \<Rightarrow> 'a system" where
  "producer_turn spurious s =
     (let (p', r') = push_step spurious (sy_producer s) (sy_ring s)
      in s\<lparr>sy_ring := r', sy_producer := p',
           sy_published := sy_published s @
             (case sy_producer s of P_Publish _ item _ \<Rightarrow> [item] | _ \<Rightarrow> []),
           sy_owners := sy_owners s @
             (case (sy_producer s, p') of
                (P_Claim _ _ _ c, P_Claim _ _ _ c') \<Rightarrow> if wins c c' then [True] else []
              | _ \<Rightarrow> [])\<rparr>)"

definition consumer_turn :: "bool \<Rightarrow> 'a system \<Rightarrow> 'a system" where
  "consumer_turn spurious s =
     (case sy_consumer s of
        K_Idle \<Rightarrow> s
      | K_Claim (Claimed _) \<Rightarrow> s\<lparr>sy_consumer := K_Idle\<rparr>
      | K_Claim Empty \<Rightarrow> s\<lparr>sy_consumer := K_Idle\<rparr>
      | K_Claim c \<Rightarrow>
          let (c', r') = claim_step spurious c (sy_ring s)
          in s\<lparr>sy_ring := r', sy_consumer := K_Claim c',
               sy_owners := sy_owners s @ (if wins c c' then [False] else []),
               sy_popped := sy_popped s @ (case c' of Claimed out \<Rightarrow> [out] | _ \<Rightarrow> [])\<rparr>)"

inductive ring_step :: "'a system \<Rightarrow> 'a system \<Rightarrow> bool" where
  call_push: "sy_producer s = P_Idle \<Longrightarrow>
    ring_step s (s\<lparr>sy_producer := P_Check (rb_tail (sy_ring s)) item False\<rparr>)"
| call_pop: "sy_consumer s = K_Idle \<Longrightarrow> ring_step s (s\<lparr>sy_consumer := K_Claim Load_Head\<rparr>)"
| producer: "sy_producer s \<noteq> P_Idle \<Longrightarrow> ring_step s (producer_turn spurious s)"
| consumer: "sy_consumer s \<noteq> K_Idle \<Longrightarrow> ring_step s (consumer_turn spurious s)"

definition start :: "'a ring \<Rightarrow> 'a system" where
  "start r = \<lparr>sy_ring = r, sy_producer = P_Idle, sy_consumer = K_Idle, sy_published = [],
     sy_owners = [], sy_popped = []\<rparr>"

definition reachable :: "u64 \<Rightarrow> 'a \<Rightarrow> 'a system \<Rightarrow> bool" where
  "reachable capacity dflt s \<longleftrightarrow> (\<exists>r. new_ring capacity dflt = Some r \<and> ring_step\<^sup>*\<^sup>* (start r) s)"

section \<open>Positions and cells\<close>

text \<open>The capacity as a natural number, a power of two that is at least two.\<close>

definition cap_ok :: "'a ring \<Rightarrow> nat \<Rightarrow> bool" where
  "cap_ok r C \<longleftrightarrow> 2 \<le> C \<and> (\<exists>k<64. C = 2 ^ k) \<and> rb_capacity r = of_nat C \<and>
     length (rb_sequence r) = C \<and> length (rb_data r) = C"

lemma unat_of_nat_u64 [simp]: "n < 2 ^ 64 \<Longrightarrow> unat (of_nat n :: u64) = n"
  by (simp add: unsigned_of_nat take_bit_nat_eq_self)

lemma of_nat_eq_u64: "a < 2 ^ 64 \<Longrightarrow> b < 2 ^ 64 \<Longrightarrow> (of_nat a :: u64) = of_nat b \<longleftrightarrow> a = b"
  by (metis unat_of_nat_u64)

lemma cell_index_mod:
  assumes "cap_ok r C" and "n < 2 ^ 64"
  shows "cell_index r (of_nat n) = n mod C"
proof -
  obtain k where k: "k < 64" "C = 2 ^ k" "rb_capacity r = of_nat C" using assms(1) by (auto simp: cap_ok_def)
  have "rb_capacity r - 1 = mask k" by (simp add: k mask_eq_exp_minus_1)
  then have "cell_index r (of_nat n) = unat (take_bit k (of_nat n :: u64))"
    by (simp add: cell_index_def take_bit_eq_mask)
  also have "\<dots> = take_bit k (unat (of_nat n :: u64))" by (rule unsigned_take_bit_eq)
  also have "\<dots> = n mod C" using assms(2) k by (simp add: take_bit_eq_mod)
  finally show ?thesis .
qed

section \<open>The cells\<close>

text \<open>
  Logical position \<open>n\<close> lives in cell \<open>n mod C\<close>.  With \<open>t\<close> items published and \<open>h\<close>
  claimed, the cell for a position \<open>n\<close> not yet published holds \<open>n\<close> when it has been
  vacated, and the publication mark of the previous occupant \<open>n - C\<close> when it has not: because
  that item is unclaimed, or because a claim of it has not finished (\<open>busy\<close>).  The items
  of unclaimed positions, and of those claimed but not yet read (\<open>taking\<close>), are in their cells.
\<close>

definition vacated :: "nat \<Rightarrow> nat \<Rightarrow> nat set \<Rightarrow> nat \<Rightarrow> bool" where
  "vacated C h busy n \<longleftrightarrow> n < C \<or> n - C < h \<and> n - C \<notin> busy"

definition ring_inv :: "'a ring \<Rightarrow> nat \<Rightarrow> 'a list \<Rightarrow> bool list \<Rightarrow> nat set \<Rightarrow> nat set \<Rightarrow> bool" where
  "ring_inv r C pub owners busy taking \<longleftrightarrow>
     cap_ok r C \<and> rb_head r = of_nat (length owners) \<and>
     length owners \<le> length pub \<and> length pub \<le> length owners + C \<and> taking \<subseteq> busy \<and>
     (\<forall>n \<in> busy. n < length owners \<and> length pub \<le> n + C) \<and>
     (\<forall>n. length pub \<le> n \<and> n < length pub + C \<longrightarrow>
        rb_sequence r ! (n mod C) = of_nat (if vacated C (length owners) busy n then n else n - C + 1)) \<and>
     (\<forall>n. n < length pub \<and> length pub \<le> n + C \<and> (length owners \<le> n \<or> n \<in> taking) \<longrightarrow>
        rb_data r ! (n mod C) = pub ! n)"

lemma ring_invD:
  assumes "ring_inv r C pub owners busy taking"
  shows "cap_ok r C" "rb_head r = of_nat (length owners)" "length owners \<le> length pub"
    "length pub \<le> length owners + C" "taking \<subseteq> busy"
    "n \<in> busy \<Longrightarrow> n < length owners" "n \<in> busy \<Longrightarrow> length pub \<le> n + C"
    "length pub \<le> n \<Longrightarrow> n < length pub + C \<Longrightarrow>
      rb_sequence r ! (n mod C) = of_nat (if vacated C (length owners) busy n then n else n - C + 1)"
    "n < length pub \<Longrightarrow> length pub \<le> n + C \<Longrightarrow> length owners \<le> n \<or> n \<in> taking \<Longrightarrow>
      rb_data r ! (n mod C) = pub ! n"
  using assms unfolding ring_inv_def by blast+

lemma cap_okD: "cap_ok r C \<Longrightarrow> 2 \<le> C" "cap_ok r C \<Longrightarrow> C < 2 ^ 64"
  "cap_ok r C \<Longrightarrow> length (rb_sequence r) = C" "cap_ok r C \<Longrightarrow> length (rb_data r) = C"
  "cap_ok r C \<Longrightarrow> rb_capacity r = of_nat C"
proof -
  have "(2::nat) ^ k < 2 ^ 64" if "k < 64" for k using that by (rule power_strict_increasing) simp
  then show "cap_ok r C \<Longrightarrow> C < 2 ^ 64" by (auto simp: cap_ok_def simp del: power_strict_increasing_iff)
qed (auto simp: cap_ok_def)

lemma mod_eq_apart:
  fixes C :: nat
  assumes "m mod C = n mod C" and "m < n"
  shows "m + C \<le> n"
proof -
  have "C dvd n - m" using assms by (metis less_imp_le mod_eq_dvd_iff_nat)
  then have "C \<le> n - m" using assms(2) by (intro dvd_imp_le) simp_all
  with assms(2) show ?thesis by simp
qed

lemma window_mod_inj:
  fixes C :: nat
  assumes "t \<le> m" "m < t + C" "t \<le> n" "n < t + C" "m mod C = n mod C"
  shows "m = n"
  using mod_eq_apart [OF assms(5)] mod_eq_apart [OF assms(5) [symmetric]] assms(1-4)
  by (cases m n rule: linorder_cases) auto

text \<open>Each cell is the cell of exactly one position of the window that is open for publishing.\<close>

lemma window_rep:
  fixes C :: nat
  assumes "0 < C"
  obtains n where "t \<le> n" "n < t + C" "n mod C = m mod C"
proof (rule that [of "t + (m + t * (C - 1)) mod C"])
  have "(t + (m + t * (C - 1)) mod C) mod C = (t + (m + t * (C - 1))) mod C" by (rule mod_add_right_eq)
  also have "t + (m + t * (C - 1)) = m + t * C" using assms by (cases C) simp_all
  finally show "(t + (m + t * (C - 1)) mod C) mod C = m mod C" by simp
qed (use assms in simp_all)

lemma seq_at_mod: "cap_ok r C \<Longrightarrow> n < 2 ^ 64 \<Longrightarrow> seq_at r (of_nat n) = rb_sequence r ! (n mod C)"
  by (simp add: seq_at_def cell_index_mod)

lemma Suc_u64: "(of_nat n :: u64) + 1 = of_nat (Suc n)"
  by (simp add: add.commute)

text \<open>What a claim learns from the sequence number at a position it has read from the head.\<close>

lemma seq_published:
  assumes inv: "ring_inv r C pub owners busy taking" and bound: "length pub + C < 2 ^ 64"
    and "m \<le> length owners" and "seq_at r (of_nat m) = of_nat m + 1"
  shows "m < length pub"
proof (rule ccontr)
  assume "\<not> m < length pub"
  with assms(3) ring_invD(3) [OF inv] have m: "m = length pub" by simp
  note C = cap_okD [OF ring_invD(1) [OF inv]]
  define v where "v = (if vacated C (length owners) busy m then m else m - C + 1)"
  have "seq_at r (of_nat m) = of_nat v"
    using ring_invD(8) [OF inv, of m] C(1) seq_at_mod [OF ring_invD(1) [OF inv], of m] bound
    by (simp add: m v_def)
  then have "(of_nat (Suc m) :: u64) = of_nat v" using assms(4) Suc_u64 by metis
  moreover have "Suc m < 2 ^ 64" "v < 2 ^ 64" using bound C(1) by (auto simp: m v_def)
  ultimately have "Suc m = v" using of_nat_eq_u64 by blast
  with C(1) show False by (auto simp: v_def vacated_def split: if_splits)
qed

lemma seq_unpublished:
  assumes inv: "ring_inv r C pub owners busy taking" and bound: "length pub + C < 2 ^ 64"
    and "m \<le> length owners" and "seq_at r (of_nat m) = of_nat m"
  shows "m = length pub"
proof (rule ccontr)
  assume "m \<noteq> length pub"
  with assms(3) ring_invD(3) [OF inv] have m: "m < length pub" by simp
  note C = cap_okD [OF ring_invD(1) [OF inv]]
  obtain n where n: "length pub \<le> n" "n < length pub + C" "n mod C = m mod C"
    by (rule window_rep [of C "length pub" m]) (use C(1) in simp_all)
  have mn: "m + C \<le> n" using mod_eq_apart [of m C n] n m by simp
  define v where "v = (if vacated C (length owners) busy n then n else n - C + 1)"
  have "seq_at r (of_nat m) = of_nat v"
    using ring_invD(8) [OF inv n(1,2)] seq_at_mod [OF ring_invD(1) [OF inv], of m] bound m n(3)
    by (simp add: v_def)
  then have "(of_nat m :: u64) = of_nat v" using assms(4) by metis
  moreover have "m < 2 ^ 64" "v < 2 ^ 64" using bound m n(2) C(1) by (auto simp: v_def)
  ultimately have "m = v" using of_nat_eq_u64 by blast
  with mn C(1) show False by (auto simp: v_def split: if_splits)
qed

lemma seq_vacated:
  assumes inv: "ring_inv r C pub owners busy taking" and bound: "length pub + C < 2 ^ 64"
  shows "seq_at r (of_nat (length pub)) = of_nat (length pub) \<longleftrightarrow> vacated C (length owners) busy (length pub)"
proof -
  note C = cap_okD [OF ring_invD(1) [OF inv]]
  define v where "v = (if vacated C (length owners) busy (length pub) then length pub else length pub - C + 1)"
  have seq: "seq_at r (of_nat (length pub)) = of_nat v"
    using ring_invD(8) [OF inv, of "length pub"] C(1) seq_at_mod [OF ring_invD(1) [OF inv]] bound
    by (simp add: v_def)
  have "length pub < 2 ^ 64" "v < 2 ^ 64" using bound C(1) by (auto simp: v_def)
  then have "(of_nat v :: u64) = of_nat (length pub) \<longleftrightarrow> v = length pub" by (rule of_nat_eq_u64 [rotated])
  with seq C(1) show ?thesis by (auto simp: v_def vacated_def split: if_splits)
qed

section \<open>The steps on the cells\<close>

lemma cap_ok_update [simp]:
  "cap_ok (r\<lparr>rb_head := v\<rparr>) C = cap_ok r C" "cap_ok (r\<lparr>rb_tail := v\<rparr>) C = cap_ok r C"
  "cap_ok (r\<lparr>rb_dropped := v\<rparr>) C = cap_ok r C" "cap_ok (set_seq p v r) C = cap_ok r C"
  "cap_ok (r\<lparr>rb_data := (rb_data r)[i := x]\<rparr>) C = cap_ok r C"
  by (simp_all add: cap_ok_def set_seq_def)

lemma ring_inv_counters [simp]:
  "ring_inv (r\<lparr>rb_tail := v\<rparr>) C pub owners busy taking = ring_inv r C pub owners busy taking"
  "ring_inv (r\<lparr>rb_dropped := v\<rparr>) C pub owners busy taking = ring_inv r C pub owners busy taking"
  by (simp_all add: ring_inv_def)

lemma ring_inv_claim:
  assumes inv: "ring_inv r C pub owners busy taking" and "length owners < length pub"
  shows "ring_inv (r\<lparr>rb_head := of_nat (length owners) + 1\<rparr>) C pub (owners @ [w])
    (insert (length owners) busy) (insert (length owners) taking)"
proof -
  note C = cap_okD [OF ring_invD(1) [OF inv]]
  have "vacated C (length owners + 1) (insert (length owners) busy) n = vacated C (length owners) busy n" for n
    by (auto simp: vacated_def)
  then show ?thesis
    using inv assms(2) unfolding ring_inv_def
    by (auto simp: less_SucI add.commute)
qed

lemma ring_inv_take:
  assumes inv: "ring_inv r C pub owners busy taking" and "n \<in> taking" and "length pub + C < 2 ^ 64"
  shows "ring_inv r C pub owners busy (taking - {n})"
    and "rb_data r ! cell_index r (of_nat n) = pub ! n" 
proof -
  show "ring_inv r C pub owners busy (taking - {n})" using inv unfolding ring_inv_def by blast
  have "n \<in> busy" using ring_invD(5) [OF inv] assms(2) by blast
  then have n: "n < length owners" "length pub \<le> n + C" using ring_invD(6,7) [OF inv] by blast+
  then have "n < length pub" using ring_invD(3) [OF inv] by simp
  then show "rb_data r ! cell_index r (of_nat n) = pub ! n"
    using ring_invD(9) [OF inv] n assms(2,3) cell_index_mod [OF ring_invD(1) [OF inv], of n] by simp
qed

lemma ring_inv_release:
  assumes inv: "ring_inv r C pub owners busy taking" and n: "n \<in> busy" "n \<notin> taking"
    and bound: "length pub + C < 2 ^ 64"
  shows "ring_inv (set_seq (of_nat n) (of_nat n + rb_capacity r) r) C pub owners (busy - {n}) taking"
proof -
  note cap = ring_invD(1) [OF inv] and C = cap_okD [OF ring_invD(1) [OF inv]]
  have nb: "n < length owners" "length pub \<le> n + C" "n < length pub"
    using ring_invD(3,6,7) [OF inv] n(1) by fastforce+
  let ?r = "set_seq (of_nat n) (of_nat n + rb_capacity r) r"
  have seq: "rb_sequence ?r = (rb_sequence r)[n mod C := of_nat (n + C)]"
    using cell_index_mod [OF cap, of n] nb bound C(5) by (simp add: set_seq_def)
  have "rb_sequence ?r ! (m mod C) =
      of_nat (if vacated C (length owners) (busy - {n}) m then m else m - C + 1)"
    if m: "length pub \<le> m" "m < length pub + C" for m
  proof (cases "m = n + C")
    case True
    then show ?thesis using C(1,3) nb by (simp add: seq vacated_def)
  next
    case False
    then have "m mod C \<noteq> n mod C" using window_mod_inj [OF m, of "n + C"] nb by auto
    moreover have "vacated C (length owners) (busy - {n}) m = vacated C (length owners) busy m"
      using False by (auto simp: vacated_def)
    ultimately show ?thesis using ring_invD(8) [OF inv m] by (simp add: seq)
  qed
  moreover have "rb_head ?r = rb_head r" "rb_data ?r = rb_data r" by (simp_all add: set_seq_def)
  moreover have "taking \<subseteq> busy - {n}" using ring_invD(5) [OF inv] n(2) by blast
  ultimately show ?thesis
    using ring_invD(1-4,6,7,9) [OF inv] unfolding ring_inv_def by simp
qed

lemma ring_inv_write:
  assumes inv: "ring_inv r C pub owners busy taking"
    and vac: "vacated C (length owners) busy (length pub)" and bound: "length pub + C < 2 ^ 64"
  shows "ring_inv (r\<lparr>rb_data := (rb_data r)[cell_index r (of_nat (length pub)) := x]\<rparr>) C pub owners busy taking"
proof -
  note cap = ring_invD(1) [OF inv] and C = cap_okD [OF ring_invD(1) [OF inv]]
  have "(rb_data r)[length pub mod C := x] ! (n mod C) = pub ! n"
    if n: "n < length pub" "length pub \<le> n + C" "length owners \<le> n \<or> n \<in> taking" for n
  proof -
    have "n mod C \<noteq> length pub mod C"
    proof
      assume "n mod C = length pub mod C"
      then have eq: "length pub = n + C" using mod_eq_apart [of n C "length pub"] n by simp
      have "n < length owners" "n \<notin> busy" using vac unfolding eq by (auto simp: vacated_def)
      with n(3) ring_invD(5) [OF inv] show False by auto
    qed
    then show ?thesis using ring_invD(9) [OF inv n] by simp
  qed
  moreover have "cell_index r (of_nat (length pub)) = length pub mod C"
    using cell_index_mod [OF cap] bound by simp
  ultimately show ?thesis
    using ring_invD(1-8) [OF inv] unfolding ring_inv_def by simp
qed

lemma ring_inv_publish:
  assumes inv: "ring_inv r C pub owners busy taking"
    and vac: "vacated C (length owners) busy (length pub)"
    and data: "rb_data r ! (length pub mod C) = x" and bound: "length pub + C < 2 ^ 64"
  shows "ring_inv (set_seq (of_nat (length pub)) (of_nat (length pub) + 1) r) C (pub @ [x]) owners busy taking"
proof -
  note cap = ring_invD(1) [OF inv] and C = cap_okD [OF ring_invD(1) [OF inv]]
  let ?t = "length pub" and ?h = "length owners"
  let ?r = "set_seq (of_nat ?t) (of_nat ?t + 1) r"
  have seq: "rb_sequence ?r = (rb_sequence r)[?t mod C := of_nat (Suc ?t)]"
    using cell_index_mod [OF cap, of ?t] bound by (simp add: set_seq_def Suc_u64 del: of_nat_Suc)
  have busy: "Suc ?t \<le> n + C" if "n \<in> busy" for n
  proof (rule ccontr)
    assume "\<not> Suc ?t \<le> n + C"
    with ring_invD(7) [OF inv that] have "?t = n + C" by simp
    with vac that show False unfolding vacated_def by (metis add_diff_cancel_right' not_add_less2)
  qed
  have room: "Suc ?t \<le> ?h + C" using vac C(1) by (auto simp: vacated_def)
  have "rb_sequence ?r ! (m mod C) = of_nat (if vacated C ?h busy m then m else m - C + 1)"
    if m: "Suc ?t \<le> m" "m < Suc ?t + C" for m
  proof (cases "m = ?t + C")
    case True
    have "\<not> vacated C ?h busy m" using True ring_invD(3) [OF inv] by (simp add: vacated_def)
    with True C(1,3) show ?thesis by (simp add: seq)
  next
    case False
    then have "m mod C \<noteq> ?t mod C" using window_mod_inj [of ?t m C ?t] m by auto
    with False m show ?thesis using ring_invD(8) [OF inv, of m] by (simp add: seq)
  qed
  moreover have "rb_data ?r ! (n mod C) = (pub @ [x]) ! n"
    if n: "n < Suc ?t" "Suc ?t \<le> n + C" "?h \<le> n \<or> n \<in> taking" for n
  proof (cases "n = ?t")
    case True
    then show ?thesis using data by (simp add: set_seq_def)
  next
    case False
    with n show ?thesis using ring_invD(9) [OF inv, of n] by (simp add: set_seq_def nth_append)
  qed
  moreover have "rb_head ?r = rb_head r" by (simp add: set_seq_def)
  ultimately show ?thesis
    using ring_invD(1-3,5,6) [OF inv] busy room unfolding ring_inv_def by simp
qed

section \<open>Claims in progress\<close>

fun busy_of :: "'a claim \<Rightarrow> nat set" where
  "busy_of (Take pos) = {unat pos}"
| "busy_of (Release pos out) = {unat pos}"
| "busy_of c = {}"

fun taking_of :: "'a claim \<Rightarrow> nat set" where
  "taking_of (Take pos) = {unat pos}"
| "taking_of c = {}"

text \<open>What a thread (\<open>True\<close> for the producer) may rely on at each point of a claim.\<close>

fun claim_ok :: "bool \<Rightarrow> 'a list \<Rightarrow> bool list \<Rightarrow> 'a claim \<Rightarrow> bool" where
  "claim_ok w pub owners (Load_Seq pos) = (\<exists>m \<le> length owners. pos = of_nat m)"
| "claim_ok w pub owners (Cas pos) = (\<exists>m \<le> length owners. m < length pub \<and> pos = of_nat m)"
| "claim_ok w pub owners (Take pos) = (\<exists>m < length owners. pos = of_nat m \<and> owners ! m = w)"
| "claim_ok w pub owners (Release pos out) =
     (\<exists>m < length owners. pos = of_nat m \<and> owners ! m = w \<and> out = pub ! m)"
| "claim_ok w pub owners c = True"

lemma claim_ok_owners:
  assumes "claim_ok w pub owners c" shows "claim_ok w pub (owners @ os) c"
proof (cases c)
  case (Load_Seq pos)
  with assms obtain m where "m \<le> length owners" "pos = of_nat m" by auto
  then show ?thesis using Load_Seq by (auto intro!: exI [of _ m])
next
  case (Cas pos)
  with assms obtain m where "m \<le> length owners" "m < length pub" "pos = of_nat m" by auto
  then show ?thesis using Cas by (auto intro!: exI [of _ m])
next
  case (Take pos)
  with assms obtain m where "m < length owners" "pos = of_nat m" "owners ! m = w" by auto
  then show ?thesis using Take by (auto intro!: exI [of _ m] simp: nth_append)
next
  case (Release pos out)
  with assms obtain m where "m < length owners" "pos = of_nat m" "owners ! m = w" "out = pub ! m" by auto
  then show ?thesis using Release by (auto intro!: exI [of _ m] simp: nth_append)
qed simp_all

lemma claim_ok_pub:
  assumes "claim_ok w pub owners c" and "length owners \<le> length pub"
  shows "claim_ok w (pub @ xs) owners c"
proof (cases c)
  case (Cas pos)
  with assms obtain m where "m \<le> length owners" "m < length pub" "pos = of_nat m" by auto
  then show ?thesis using Cas by (auto intro!: exI [of _ m])
next
  case (Release pos out)
  with assms obtain m where "m < length owners" "pos = of_nat m" "owners ! m = w" "out = pub ! m" by auto
  then show ?thesis using Release assms(2) by (auto intro!: exI [of _ m] simp: nth_append)
qed (use assms in auto)

lemma claim_ok_busy:
  assumes "claim_ok w pub owners c" and "length owners < 2 ^ 64" and "n \<in> busy_of c"
  shows "n < length owners" and "owners ! n = w"
  using assms by (cases c; auto)+

lemma claim_step_inv:
  assumes inv: "ring_inv r C pub owners (busy_of c \<union> B) (taking_of c \<union> T)"
    and ok: "claim_ok w pub owners c" and bound: "length pub + C < 2 ^ 64"
    and other: "T \<subseteq> B" "\<And>n. n \<in> B \<Longrightarrow> n < length owners \<and> owners ! n \<noteq> w"
    and step: "claim_step spurious c r = (c', r')"
  shows "ring_inv r' C pub (owners @ (if wins c c' then [w] else [])) (busy_of c' \<union> B) (taking_of c' \<union> T)"
    and "claim_ok w pub (owners @ (if wins c c' then [w] else [])) c'"
    and "rb_tail r' = rb_tail r" and "rb_dropped r' = rb_dropped r" and "rb_data r' = rb_data r"
proof -
  note D = ring_invD [OF inv]
  have h: "length owners < 2 ^ 64" using D(3) bound by simp
  have "ring_inv r' C pub (owners @ (if wins c c' then [w] else [])) (busy_of c' \<union> B) (taking_of c' \<union> T) \<and>
    claim_ok w pub (owners @ (if wins c c' then [w] else [])) c' \<and>
    rb_tail r' = rb_tail r \<and> rb_dropped r' = rb_dropped r \<and> rb_data r' = rb_data r"
  proof (cases c)
    case Load_Head
    with step inv D(2) show ?thesis by auto
  next
    case (Load_Seq pos)
    then obtain m where m: "m \<le> length owners" "pos = of_nat m" using ok by auto
    then show ?thesis
      using step inv Load_Seq seq_published [OF inv bound m(1)] by (auto split: if_splits)
  next
    case (Cas pos)
    then obtain m where m: "m \<le> length owners" "m < length pub" "pos = of_nat m" using ok by auto
    show ?thesis
    proof (cases "rb_head r = pos \<and> \<not> spurious")
      case True
      then have "m = length owners" using D(2) m h bound of_nat_eq_u64 [of "length owners" m] by auto
      then show ?thesis
        using ring_inv_claim [OF inv, of w] True step Cas m h
        by (auto simp: insert_commute nth_append intro!: exI [of _ "length owners"])
    next
      case False
      then have "c' = Load_Seq (rb_head r)" "r' = r" using step Cas by auto
      with inv D(2) Cas show ?thesis by auto
    qed
  next
    case (Take pos)
    then obtain m where m: "m < length owners" "pos = of_nat m" "owners ! m = w" using ok by auto
    have um: "unat pos = m" using m h by simp
    have "m \<notin> T" using other m(3) by auto
    then have eq: "taking_of c \<union> T - {m} = T" "busy_of c \<union> B = insert m B" using Take um by auto
    have tk: "m \<in> taking_of c \<union> T" using Take um by simp
    from ring_inv_take [OF inv tk bound] show ?thesis
      using step Take m um unfolding eq by auto
  next
    case (Release pos out)
    then obtain m where m: "m < length owners" "pos = of_nat m" "owners ! m = w" using ok by auto
    have um: "unat pos = m" using m h by simp
    have "m \<notin> B" using other(2) m(3) by blast
    then have eq: "busy_of c \<union> B - {m} = B" "taking_of c \<union> T = T" "m \<notin> T" "m \<in> busy_of c \<union> B"
      using Release um other(1) by auto
    from ring_inv_release [OF inv eq(4) _ bound] show ?thesis
      using step Release m um unfolding eq(1,2) by (auto simp: eq(3) set_seq_def)
  qed (use step inv in auto)
  then show "ring_inv r' C pub (owners @ (if wins c c' then [w] else [])) (busy_of c' \<union> B) (taking_of c' \<union> T)"
    and "claim_ok w pub (owners @ (if wins c c' then [w] else [])) c'"
    and "rb_tail r' = rb_tail r" and "rb_dropped r' = rb_dropped r" and "rb_data r' = rb_data r"
    by simp_all
qed

section \<open>The system\<close>

text \<open>The items whose position was claimed by one of the threads, in order.\<close>

definition taken :: "bool \<Rightarrow> 'a list \<Rightarrow> bool list \<Rightarrow> 'a list" where
  "taken w pub owners = map fst (filter (\<lambda>(x, o'). o' = w) (zip pub owners))"

lemma taken_publish: "length owners \<le> length pub \<Longrightarrow> taken w (pub @ [x]) owners = taken w pub owners"
  by (simp add: taken_def zip_append1)

lemma taken_claim:
  assumes "length owners < length pub"
  shows "taken w pub (owners @ [v]) = taken w pub owners @ (if v = w then [pub ! length owners] else [])"
proof -
  have "zip pub (owners @ [v]) = zip pub owners @ [(pub ! length owners, v)]"
    using assms zip_append2 [of pub owners "[]"] by (simp add: zip_append2 Cons_nth_drop_Suc [symmetric])
  then show ?thesis by (simp add: taken_def)
qed

fun producer_claim :: "'a producer \<Rightarrow> 'a claim" where
  "producer_claim (P_Claim pos item dropped c) = c"
| "producer_claim p = Load_Head"

fun consumer_claim :: "'a consumer \<Rightarrow> 'a claim" where
  "consumer_claim (K_Claim c) = c"
| "consumer_claim K_Idle = Load_Head"

text \<open>A claim the thread has won but not accounted for yet.\<close>

fun unaccounted :: "'a claim \<Rightarrow> nat" where
  "unaccounted (Take pos) = 1"
| "unaccounted (Release pos out) = 1"
| "unaccounted (Claimed out) = 1"
| "unaccounted c = 0"

fun in_flight :: "'a list \<Rightarrow> 'a claim \<Rightarrow> 'a list" where
  "in_flight pub (Take pos) = [pub ! unat pos]"
| "in_flight pub (Release pos out) = [out]"
| "in_flight pub c = []"

fun producer_ok :: "nat \<Rightarrow> 'a ring \<Rightarrow> nat \<Rightarrow> nat \<Rightarrow> nat set \<Rightarrow> 'a producer \<Rightarrow> bool" where
  "producer_ok C r t h busy P_Idle \<longleftrightarrow> rb_tail r = of_nat t"
| "producer_ok C r t h busy (P_Check pos item dropped) \<longleftrightarrow> rb_tail r = of_nat t \<and> pos = of_nat t"
| "producer_ok C r t h busy (P_Claim pos item dropped c) \<longleftrightarrow> rb_tail r = of_nat t \<and> pos = of_nat t"
| "producer_ok C r t h busy (P_Write pos item dropped) \<longleftrightarrow>
     rb_tail r = of_nat t \<and> pos = of_nat t \<and> vacated C h busy t"
| "producer_ok C r t h busy (P_Publish pos item dropped) \<longleftrightarrow>
     rb_tail r = of_nat t \<and> pos = of_nat t \<and> vacated C h busy t \<and> rb_data r ! (t mod C) = item"
| "producer_ok C r t h busy (P_Tail pos dropped) \<longleftrightarrow> of_nat t = pos + 1"

definition system_inv :: "nat \<Rightarrow> 'a system \<Rightarrow> bool" where
  "system_inv C s \<longleftrightarrow>
     (let r = sy_ring s; pub = sy_published s; owners = sy_owners s;
          pc = producer_claim (sy_producer s); kc = consumer_claim (sy_consumer s)
      in ring_inv r C pub owners (busy_of pc \<union> busy_of kc) (taking_of pc \<union> taking_of kc) \<and>
         claim_ok True pub owners pc \<and> claim_ok False pub owners kc \<and>
         producer_ok C r (length pub) (length owners) (busy_of pc \<union> busy_of kc) (sy_producer s) \<and>
         of_nat (length (taken True pub owners)) = rb_dropped r + of_nat (unaccounted pc) \<and>
         taken False pub owners = sy_popped s @ in_flight pub kc)"

lemma system_invD:
  assumes "system_inv C s"
  shows "ring_inv (sy_ring s) C (sy_published s) (sy_owners s)
      (busy_of (producer_claim (sy_producer s)) \<union> busy_of (consumer_claim (sy_consumer s)))
      (taking_of (producer_claim (sy_producer s)) \<union> taking_of (consumer_claim (sy_consumer s)))"
    and "claim_ok True (sy_published s) (sy_owners s) (producer_claim (sy_producer s))"
    and "claim_ok False (sy_published s) (sy_owners s) (consumer_claim (sy_consumer s))"
    and "producer_ok C (sy_ring s) (length (sy_published s)) (length (sy_owners s))
      (busy_of (producer_claim (sy_producer s)) \<union> busy_of (consumer_claim (sy_consumer s))) (sy_producer s)"
    and "of_nat (length (taken True (sy_published s) (sy_owners s))) =
      rb_dropped (sy_ring s) + of_nat (unaccounted (producer_claim (sy_producer s)))"
    and "taken False (sy_published s) (sy_owners s) =
      sy_popped s @ in_flight (sy_published s) (consumer_claim (sy_consumer s))"
  using assms by (simp_all add: system_inv_def Let_def)

lemma taking_busy: "taking_of c \<subseteq> busy_of c"
  by (cases c) auto

section \<open>Construction\<close>

lemma power_of_two_and: "0 < n \<Longrightarrow> n AND (n - 1) = (0::nat) \<Longrightarrow> \<exists>k. n = 2 ^ k"
proof (induction n rule: less_induct)
  case (less n)
  show ?case
  proof (cases "even n")
    case True
    then obtain m where m: "n = 2 * m" by blast
    have m0: "0 < m" using less.prems(1) m by simp
    have "m AND (m - 1) = 0"
    proof (rule bit_eqI)
      fix i
      have "\<not> (bit n (Suc i) \<and> bit (n - 1) (Suc i))"
        using less.prems(2) bit_and_iff [of n "n - 1" "Suc i"] by simp
      moreover have "(n - 1) div 2 = m - 1" "n div 2 = m" using m m0 by simp_all
      ultimately show "bit (m AND (m - 1)) i = bit (0::nat) i"
        by (simp add: bit_and_iff bit_Suc)
    qed
    then obtain k where "m = 2 ^ k" using less.IH [of m] m m0 by auto
    then show ?thesis using m by (metis power_Suc)
  next
    case False
    then obtain m where m: "n = 2 * m + 1" by (metis oddE)
    have "m = 0"
    proof -
      have "m AND m = 0"
      proof (rule bit_eqI)
        fix i
        have "\<not> (bit n (Suc i) \<and> bit (n - 1) (Suc i))"
          using less.prems(2) bit_and_iff [of n "n - 1" "Suc i"] by simp
        moreover have "(n - 1) div 2 = m" "n div 2 = m" using m by simp_all
        ultimately show "bit (m AND m) i = bit (0::nat) i" by (simp add: bit_and_iff bit_Suc)
      qed
      then show ?thesis by simp
    qed
    then show ?thesis using m by (intro exI [of _ 0]) simp
  qed
qed
lemma new_ring_cap:
  assumes "new_ring capacity dflt = Some r"
  shows "cap_ok r (unat capacity)"
proof -
  have c: "2 \<le> capacity" "capacity AND (capacity - 1) = 0"
    using assms by (auto simp: new_ring_def not_less split: if_splits)
  define C where "C = unat capacity"
  have C: "2 \<le> C" "C < 2 ^ 64"
    using c(1) unsigned_less [of capacity] by (simp_all add: C_def word_le_nat_alt)
  have "capacity \<noteq> 0" using c(1) by auto
  then have "C AND (C - 1) = unat (capacity AND (capacity - 1))"
    by (simp add: unsigned_and_eq C_def unat_minus_one)
  then have "C AND (C - 1) = 0" using c(2) by simp
  then obtain k where k: "C = 2 ^ k" using power_of_two_and [of C] C(1) by auto
  have "k < 64"
  proof (rule ccontr)
    assume "\<not> k < 64"
    then have "(2::nat) ^ 64 \<le> 2 ^ k" by (intro power_increasing) simp_all
    with C(2) k show False by simp
  qed
  then have "\<exists>k<64. C = 2 ^ k" using k by blast
  moreover have "rb_capacity r = capacity" "length (rb_sequence r) = C" "length (rb_data r) = C"
    using assms by (auto simp: new_ring_def C_def split: if_splits)
  moreover have "capacity = of_nat C" by (simp add: C_def)
  ultimately show ?thesis using C by (simp add: cap_ok_def flip: C_def)
qed

lemma start_inv:
  assumes "new_ring capacity dflt = Some r"
  shows "system_inv (unat capacity) (start r)"
proof -
  have cap: "cap_ok r (unat capacity)" by (rule new_ring_cap [OF assms])
  have "rb_sequence r = map of_nat [0..<unat capacity]" "rb_head r = 0" "rb_tail r = 0" "rb_dropped r = 0"
    using assms by (auto simp: new_ring_def split: if_splits)
  with cap show ?thesis
    by (simp add: system_inv_def start_def ring_inv_def vacated_def taken_def)
qed

section \<open>Every step keeps the invariant\<close>

lemma call_push_inv:
  assumes "system_inv C s" and "sy_producer s = P_Idle"
  shows "system_inv C (s\<lparr>sy_producer := P_Check (rb_tail (sy_ring s)) item False\<rparr>)"
  using assms by (simp add: system_inv_def Let_def)

lemma call_pop_inv:
  assumes "system_inv C s" and "sy_consumer s = K_Idle"
  shows "system_inv C (s\<lparr>sy_consumer := K_Claim Load_Head\<rparr>)"
  using assms by (simp add: system_inv_def Let_def)

lemma ring_inv_length: "ring_inv r C pub owners B T \<Longrightarrow> length pub + C < 2 ^ 64 \<Longrightarrow> length owners < 2 ^ 64"
  using ring_invD(3) by fastforce

text \<open>The claims that a thread still runs, and the effect of a step on the history.\<close>

fun running :: "'a claim \<Rightarrow> bool" where
  "running (Claimed out) = False"
| "running Empty = False"
| "running c = True"

lemma claim_step_accounts:
  assumes "claim_step spurious c r = (c', r')" and "running c" and "claim_ok w pub owners c"
    and "length owners < 2 ^ 64" and "rb_head r = of_nat (length owners)" and "length owners \<le> length pub"
    and "length pub < 2 ^ 64"
    and "\<And>n. n \<in> taking_of c \<Longrightarrow> rb_data r ! cell_index r (of_nat n) = pub ! n"
  shows "unaccounted c' = unaccounted c + (if wins c c' then 1 else 0)"
    and "in_flight pub c @ (if wins c c' then [pub ! length owners] else []) =
      (case c' of Claimed out \<Rightarrow> [out] | _ \<Rightarrow> []) @ in_flight pub c'"
    and "wins c c' \<Longrightarrow> length owners < length pub"
proof -
  have head: "m = length owners" if "m \<le> length owners" "of_nat m = rb_head r" for m
    using that assms(4,5) of_nat_eq_u64 [of m "length owners"] by simp
  show "unaccounted c' = unaccounted c + (if wins c c' then 1 else 0)"
    using assms(1,2) by (cases c) (auto split: if_splits)
  show "in_flight pub c @ (if wins c c' then [pub ! length owners] else []) =
      (case c' of Claimed out \<Rightarrow> [out] | _ \<Rightarrow> []) @ in_flight pub c'"
  proof (cases c)
    case (Cas pos)
    show ?thesis
    proof (cases "rb_head r = pos \<and> \<not> spurious")
      case True
      moreover have "unat (rb_head r) = length owners" using assms(4,5) by simp
      ultimately show ?thesis using assms(1) by (auto simp: Cas)
    next
      case False
      then show ?thesis using assms(1) by (auto simp: Cas)
    qed
  next
    case (Take pos)
    then have "pos = of_nat (unat pos)" by simp
    then have "rb_data r ! cell_index r pos = pub ! unat pos" using assms(8) [of "unat pos"] Take by simp
    with assms(1) show ?thesis by (auto simp: Take)
  qed (use assms(1,2) in \<open>auto split: if_splits\<close>)
  show "wins c c' \<Longrightarrow> length owners < length pub"
    using assms(1-3) head by (cases c) (auto split: if_splits)
qed

lemma claim_step_busy:
  assumes "claim_step spurious c r = (c', r')" and "rb_head r = of_nat (length owners)"
    and "length owners < 2 ^ 64"
  shows "busy_of c' \<subseteq> insert (length owners) (busy_of c)"
proof -
  have "unat (rb_head r) = length owners" using assms(2,3) by simp
  with assms(1) show ?thesis by (cases c) (auto split: if_splits)
qed

lemma vacated_mono:
  assumes "vacated C h B n" and "h \<le> h'" and "\<And>m. m \<in> B' \<Longrightarrow> m \<in> B \<or> h \<le> m"
  shows "vacated C h' B' n"
  using assms by (fastforce simp: vacated_def)

lemma producer_ok_mono:
  assumes "producer_ok C r t h B p" and "h \<le> h'" and "\<And>m. m \<in> B' \<Longrightarrow> m \<in> B \<or> h \<le> m"
    and "rb_tail r' = rb_tail r" and "rb_data r' = rb_data r"
  shows "producer_ok C r' t h' B' p"
  using assms(1,4,5) vacated_mono [OF _ assms(2,3)] by (cases p) auto

lemma consumer_turn_inv:
  assumes inv: "system_inv C s" and bound: "length (sy_published s) + C < 2 ^ 64"
  shows "system_inv C (consumer_turn spurious s)"
proof -
  note D = system_invD [OF inv]
  let ?pub = "sy_published s" and ?owners = "sy_owners s"
  let ?pc = "producer_claim (sy_producer s)"
  have h: "length ?owners < 2 ^ 64" by (rule ring_inv_length [OF D(1) bound])
  consider "sy_consumer s = K_Idle" | out where "sy_consumer s = K_Claim (Claimed out)"
    | "sy_consumer s = K_Claim Empty" | c where "sy_consumer s = K_Claim c" "running c"
    by (metis consumer.exhaust running.elims(3))
  then show ?thesis
  proof cases
    case (4 c)
    obtain c' r' where step: "claim_step spurious c (sy_ring s) = (c', r')" by fastforce
    let ?o = "?owners @ (if wins c c' then [False] else [])"
    have kc: "consumer_claim (sy_consumer s) = c" using 4 by simp
    have inv_c: "ring_inv (sy_ring s) C ?pub ?owners (busy_of c \<union> busy_of ?pc) (taking_of c \<union> taking_of ?pc)"
      using D(1) by (simp add: kc Un_commute)
    have other: "\<And>n. n \<in> busy_of ?pc \<Longrightarrow> n < length ?owners \<and> ?owners ! n \<noteq> False"
      using claim_ok_busy [OF D(2) h] by blast
    have ok: "claim_ok False ?pub ?owners c" using D(3) kc by simp
    note S = claim_step_inv [OF inv_c ok bound taking_busy other step]
    have data: "\<And>n. n \<in> taking_of c \<Longrightarrow> rb_data (sy_ring s) ! cell_index (sy_ring s) (of_nat n) = ?pub ! n"
      using ring_inv_take(2) [OF inv_c _ bound] by blast
    note A = claim_step_accounts [OF step 4(2) ok h ring_invD(2,3) [OF inv_c] _ data]
    have turn: "consumer_turn spurious s = s\<lparr>sy_ring := r', sy_consumer := K_Claim c',
        sy_owners := ?o, sy_popped := sy_popped s @ (case c' of Claimed out \<Rightarrow> [out] | _ \<Rightarrow> [])\<rparr>"
      using 4 step by (cases c) (simp_all add: consumer_turn_def del: claim_step.simps)
    have busy: "m \<in> busy_of ?pc \<union> busy_of c \<or> length ?owners \<le> m" if "m \<in> busy_of ?pc \<union> busy_of c'" for m
      using that claim_step_busy [OF step ring_invD(2) [OF inv_c] h] by auto
    have prod: "producer_ok C r' (length ?pub) (length ?o) (busy_of ?pc \<union> busy_of c') (sy_producer s)"
      by (rule producer_ok_mono [OF D(4)]) (use busy S(3,5) kc in simp_all)
    have tk: "taken True ?pub ?o = taken True ?pub ?owners"
      "taken False ?pub ?o = taken False ?pub ?owners @ (if wins c c' then [?pub ! length ?owners] else [])"
      using A(3) bound by (auto simp: taken_claim)
    show ?thesis
      unfolding turn system_inv_def Let_def
      using S(1,2,4) prod claim_ok_owners [OF D(2)] D(5,6) A(2) bound tk kc
      by (simp add: Un_commute)
  qed (use inv in \<open>simp_all add: consumer_turn_def system_inv_def Let_def\<close>)
qed

lemma running_cases: "running c \<or> c = Empty \<or> (\<exists>out. c = Claimed out)"
  by (cases c) auto

lemma producer_turn_claim:
  assumes inv: "system_inv C s" and bound: "length (sy_published s) + C < 2 ^ 64"
    and p: "sy_producer s = P_Claim pos item dropped c" and run: "running c"
  shows "system_inv C (producer_turn spurious s)"
proof -
  note D = system_invD [OF inv]
  let ?pub = "sy_published s" and ?owners = "sy_owners s"
  let ?kc = "consumer_claim (sy_consumer s)"
  have h: "length ?owners < 2 ^ 64" by (rule ring_inv_length [OF D(1) bound])
  obtain c' r' where step: "claim_step spurious c (sy_ring s) = (c', r')" by fastforce
  let ?o = "?owners @ (if wins c c' then [True] else [])"
  have inv_c: "ring_inv (sy_ring s) C ?pub ?owners (busy_of c \<union> busy_of ?kc) (taking_of c \<union> taking_of ?kc)"
    using D(1) by (simp add: p)
  have other: "\<And>n. n \<in> busy_of ?kc \<Longrightarrow> n < length ?owners \<and> ?owners ! n \<noteq> True"
    using claim_ok_busy [OF D(3) h] by blast
  have ok: "claim_ok True ?pub ?owners c" using D(2) p by simp
  note S = claim_step_inv [OF inv_c ok bound taking_busy other step]
  have data: "\<And>n. n \<in> taking_of c \<Longrightarrow> rb_data (sy_ring s) ! cell_index (sy_ring s) (of_nat n) = ?pub ! n"
    using ring_inv_take(2) [OF inv_c _ bound] by blast
  note A = claim_step_accounts [OF step run ok h ring_invD(2,3) [OF inv_c] _ data]
  have turn: "producer_turn spurious s = s\<lparr>sy_ring := r', sy_producer := P_Claim pos item dropped c',
      sy_owners := ?o\<rparr>"
  proof -
    have "push_step spurious (P_Claim pos item dropped c) (sy_ring s) = (P_Claim pos item dropped c', r')"
      using run step by (cases c) (simp_all del: claim_step.simps)
    then show ?thesis by (simp add: producer_turn_def p)
  qed
  have tk: "taken False ?pub ?o = taken False ?pub ?owners"
    "taken True ?pub ?o = taken True ?pub ?owners @ (if wins c c' then [?pub ! length ?owners] else [])"
    using A(3) bound by (auto simp: taken_claim)
  show ?thesis
    unfolding turn system_inv_def Let_def
    using S(1-4) claim_ok_owners [OF D(3)] D(4-6) A(1) bound tk p by (auto simp: ac_simps)
qed

lemma producer_turn_inv:
  assumes inv: "system_inv C s" and bound: "length (sy_published s) + C < 2 ^ 64"
  shows "system_inv C (producer_turn spurious s)"
proof -
  note D = system_invD [OF inv]
  let ?pub = "sy_published s" and ?owners = "sy_owners s" and ?r = "sy_ring s"
  let ?kc = "consumer_claim (sy_consumer s)"
  have cap: "cap_ok ?r C" by (rule ring_invD(1) [OF D(1)])
  have idx: "cell_index ?r (of_nat (length ?pub)) = length ?pub mod C" using cell_index_mod [OF cap] bound by simp
  show ?thesis
  proof (cases "sy_producer s")
    case P_Idle
    then show ?thesis using inv by (simp add: producer_turn_def system_inv_def Let_def)
  next
    case (P_Check pos item dropped)
    then have pos: "rb_tail ?r = of_nat (length ?pub)" "pos = of_nat (length ?pub)" using D(4) by simp_all
    have busy: "busy_of (producer_claim (sy_producer s)) = {}" using P_Check by simp
    have "seq_at ?r pos = pos \<longleftrightarrow> vacated C (length ?owners) (busy_of ?kc) (length ?pub)"
      using seq_vacated [OF D(1) bound] by (simp add: pos busy)
    with inv P_Check pos show ?thesis
      by (auto simp: producer_turn_def system_inv_def Let_def)
  next
    case (P_Claim pos item dropped c)
    from running_cases [of c] show ?thesis
    proof (elim disjE exE)
      assume "running c" then show ?thesis by (rule producer_turn_claim [OF inv bound P_Claim])
    next
      assume "c = Empty" then show ?thesis
        using inv P_Claim by (simp add: producer_turn_def system_inv_def Let_def)
    next
      fix out assume "c = Claimed out" then show ?thesis
        using inv P_Claim by (simp add: producer_turn_def system_inv_def Let_def)
    qed
  next
    case (P_Write pos item dropped)
    then have pos: "rb_tail ?r = of_nat (length ?pub)" "pos = of_nat (length ?pub)"
      and vac: "vacated C (length ?owners) (busy_of ?kc) (length ?pub)" using D(4) by simp_all
    have len: "length ?pub mod C < length (rb_data ?r)" using cap_okD(1,4) [OF cap] by simp
    have "ring_inv (?r\<lparr>rb_data := (rb_data ?r)[cell_index ?r pos := item]\<rparr>) C ?pub ?owners (busy_of ?kc) (taking_of ?kc)"
      using ring_inv_write [OF _ vac bound, of ?r "taking_of ?kc" item] D(1) P_Write by (simp add: pos)
    then show ?thesis
      using D(3,5,6) P_Write pos vac len by (simp add: producer_turn_def system_inv_def Let_def idx)
  next
    case (P_Publish pos item dropped)
    then have pos: "rb_tail ?r = of_nat (length ?pub)" "pos = of_nat (length ?pub)"
      and vac: "vacated C (length ?owners) (busy_of ?kc) (length ?pub)"
      and data: "rb_data ?r ! (length ?pub mod C) = item" using D(4) by simp_all
    have "ring_inv (set_seq pos (pos + 1) ?r) C (?pub @ [item]) ?owners (busy_of ?kc) (taking_of ?kc)"
      using ring_inv_publish [OF _ vac data bound, of "taking_of ?kc"] D(1) P_Publish by (simp add: pos)
    moreover have le: "length ?owners \<le> length ?pub" by (rule ring_invD(3) [OF D(1)])
    moreover have "in_flight (?pub @ [item]) ?kc = in_flight ?pub ?kc"
      using D(3) le ring_inv_length [OF D(1) bound] by (cases ?kc) (auto simp: nth_append)
    moreover have "rb_dropped (set_seq pos (pos + 1) ?r) = rb_dropped ?r" by (simp add: set_seq_def)
    ultimately show ?thesis
      using D(5,6) P_Publish pos claim_ok_pub [OF D(3) le, of "[item]"]
      by (simp add: producer_turn_def system_inv_def Let_def taken_publish)
  next
    case (P_Tail pos dropped)
    then show ?thesis
      using inv by (simp add: producer_turn_def system_inv_def Let_def)
  qed
qed

text \<open>The published items only grow, so a bound on them at the end bounds them throughout.\<close>

lemma consumer_turn_published [simp]: "sy_published (consumer_turn spurious s) = sy_published s"
proof (cases "sy_consumer s")
  case (K_Claim c)
  then show ?thesis
    by (cases c) (simp_all add: consumer_turn_def split_beta Let_def del: claim_step.simps)
qed (simp add: consumer_turn_def)

lemma published_grows: "ring_step s s' \<Longrightarrow> length (sy_published s) \<le> length (sy_published s')"
proof (induction rule: ring_step.induct)
  case (producer s spurious)
  then show ?case by (simp add: producer_turn_def Let_def split: prod.split)
qed simp_all

lemma ring_step_inv:
  assumes "ring_step s s'" and "system_inv C s" and "length (sy_published s') + C < 2 ^ 64"
  shows "system_inv C s'"
proof -
  have bound: "length (sy_published s) + C < 2 ^ 64" using published_grows [OF assms(1)] assms(3) by simp
  from assms(1) show ?thesis
  proof cases
    case (call_push item)
    then show ?thesis using call_push_inv [OF assms(2)] by simp
  next
    case call_pop
    then show ?thesis using call_pop_inv [OF assms(2)] by simp
  next
    case (producer spurious)
    then show ?thesis using producer_turn_inv [OF assms(2) bound] by simp
  next
    case (consumer spurious)
    then show ?thesis using consumer_turn_inv [OF assms(2) bound] by simp
  qed
qed

lemma reachable_inv:
  assumes "reachable capacity dflt s" and "length (sy_published s) + unat capacity < 2 ^ 64"
  shows "system_inv (unat capacity) s"
proof -
  obtain r where r: "new_ring capacity dflt = Some r" "ring_step\<^sup>*\<^sup>* (start r) s"
    using assms(1) by (auto simp: reachable_def)
  from r(2) assms(2) show ?thesis
  proof (induction rule: rtranclp_induct)
    case base
    show ?case by (rule start_inv [OF r(1)])
  next
    case (step y z)
    then have "length (sy_published y) + unat capacity < 2 ^ 64"
      using published_grows [OF step.hyps(2)] by simp
    with step show ?case using ring_step_inv by blast
  qed
qed

end
