(* ===== verification/Ring_Properties.thy ===== *)
theory Ring_Properties
  imports Ring_Buffer
begin

text \<open>
  What the interleaved ring buffer guarantees: no data race on a cell's payload, first-in
  first-out delivery, and exact accounting; and where its description does not hold: a push can
  wait for a suspended pop.
\<close>

section \<open>Schedules\<close>

text \<open>A schedule names the thread that moves next, or starts a call.\<close>

datatype 'a act = Push 'a | Pop | P | K

fun act_step :: "'a act \<Rightarrow> 'a system \<Rightarrow> 'a system" where
  "act_step (Push item) s =
     (if sy_producer s = P_Idle then s\<lparr>sy_producer := P_Check (rb_tail (sy_ring s)) item False\<rparr> else s)"
| "act_step Pop s = (if sy_consumer s = K_Idle then s\<lparr>sy_consumer := K_Claim Load_Head\<rparr> else s)"
| "act_step P s = (if sy_producer s = P_Idle then s else producer_turn False s)"
| "act_step K s = (if sy_consumer s = K_Idle then s else consumer_turn False s)"

definition run_schedule :: "'a act list \<Rightarrow> 'a system \<Rightarrow> 'a system" where
  "run_schedule acts s = fold act_step acts s"

lemma act_step_reaches: "ring_step\<^sup>*\<^sup>* s (act_step a s)"
  by (cases a) (auto intro: ring_step.intros)

lemma run_schedule_reaches: "ring_step\<^sup>*\<^sup>* s (run_schedule acts s)"
proof (induction acts arbitrary: s)
  case (Cons a acts)
  from rtranclp_trans [OF act_step_reaches Cons.IH] show ?case by (simp add: run_schedule_def)
qed (simp add: run_schedule_def)

definition small_ring :: "nat ring" where
  "small_ring = \<lparr>rb_capacity = 2, rb_sequence = [0, 1], rb_data = [0, 0], rb_head = 0, rb_tail = 0, rb_dropped = 0\<rparr>"

lemma small_ring_new: "new_ring 2 (0::nat) = Some small_ring"
proof -
  have "[0..<(2::nat)] = [0, 1]" "replicate (2::nat) (0::nat) = [0, 0]"
    by (simp_all add: upt_rec numeral_2_eq_2)
  then show ?thesis by (simp add: new_ring_def small_ring_def)
qed

lemma small_schedule_reachable: "reachable 2 (0::nat) (run_schedule acts (start small_ring))"
  using small_ring_new run_schedule_reaches by (auto simp: reachable_def)

lemmas ring_eval = run_schedule_def start_def small_ring_def producer_turn_def consumer_turn_def
  seq_at_def set_seq_def cell_index_def

lemma funpow_alternates: "f a = b \<Longrightarrow> f b = a \<Longrightarrow> (f ^^ n) a = a \<or> (f ^^ n) a = b"
  by (induction n) auto

section \<open>Properties\<close>

lemma taken_subseq: "subseq (taken w pub owners) pub"
proof (induction pub arbitrary: owners)
  case Nil
  then show ?case by (simp add: taken_def)
next
  case (Cons x pub)
  show ?case
  proof (cases owners)
    case Nil
    then show ?thesis by (simp add: taken_def)
  next
    case (Cons o' os)
    have "subseq (taken w pub os) (x # pub)" using Cons.IH by (rule list_emb.list_emb_Cons)
    with Cons.IH Cons show ?thesis by (auto simp: taken_def)
  qed
qed

lemma taken_lengths:
  "length owners \<le> length pub \<Longrightarrow> length (taken True pub owners) + length (taken False pub owners) = length owners"
proof (induction pub owners rule: list_induct2')
  case (4 x pub o' os)
  then show ?case by (cases o') (simp_all add: taken_def)
qed (simp_all add: taken_def)

text \<open>
  C12: no data race.  In every state of every interleaving (with fewer than \<open>2^64\<close> positions
  used), when the producer is about to write a cell's payload, the consumer is not about to read
  the same cell.
\<close>

theorem ring_race_free:
  assumes "reachable capacity dflt s" and "length (sy_published s) + unat capacity < 2 ^ 64"
    and "sy_producer s = P_Write pos item dropped" and "sy_consumer s = K_Claim (Take pos')"
  shows "cell_index (sy_ring s) pos \<noteq> cell_index (sy_ring s) pos'"
proof
  assume eq: "cell_index (sy_ring s) pos = cell_index (sy_ring s) pos'"
  let ?C = "unat capacity" and ?t = "length (sy_published s)"
  note inv = reachable_inv [OF assms(1,2)] and D = system_invD [OF reachable_inv [OF assms(1,2)]]
  from D(4) have pos: "pos = of_nat ?t" and vac: "vacated ?C (length (sy_owners s)) {unat pos'} ?t"
    by (simp_all add: assms(3,4))
  from D(3) obtain m where m: "m < length (sy_owners s)" "pos' = of_nat m" by (auto simp: assms(4))
  have mt: "m < ?t" using m(1) ring_invD(3) [OF D(1)] by simp
  then have um: "unat pos' = m" using m(2) assms(2) by simp
  have "?t mod ?C = m mod ?C"
    using eq cell_index_mod [OF ring_invD(1) [OF D(1)]] assms(2) mt by (simp add: pos m(2))
  then have "m + ?C \<le> ?t" using mod_eq_apart [of m ?C ?t] mt by simp
  moreover have "?t \<le> m + ?C" using ring_invD(7) [OF D(1), of m] by (simp add: assms(3,4) um)
  ultimately have "?t = m + ?C" by simp
  with vac um show False by (auto simp: vacated_def)
qed

theorem ring_race_free_witness:
  "\<exists>(s :: nat system) item dropped. reachable 2 0 s \<and> sy_producer s = P_Write 1 item dropped \<and>
     sy_consumer s = K_Claim (Take 0) \<and> cell_index (sy_ring s) 1 \<noteq> cell_index (sy_ring s) 0"
proof -
  let ?s = "run_schedule [Push 5, P, P, P, P, Pop, K, K, K, Push 6, P] (start small_ring)"
  have s: "sy_producer ?s = P_Write 1 6 False" "sy_consumer ?s = K_Claim (Take 0)"
    "length (sy_published ?s) = 1" by (simp_all add: ring_eval)
  have "cell_index (sy_ring ?s) 1 \<noteq> cell_index (sy_ring ?s) 0"
    by (rule ring_race_free [OF small_schedule_reachable _ s(1,2)]) (simp add: s(3))
  with small_schedule_reachable s(1,2) show ?thesis by blast
qed

text \<open>
  C14: first in, first out.  In every state of every interleaving the items \<open>pop\<close> has
  returned are a subsequence, in order and without duplicates of a position, of the items
  published: exactly those whose position the consumer claimed, less the one whose claim is in
  progress.
\<close>

theorem ring_fifo:
  assumes "reachable capacity dflt s" and "length (sy_published s) + unat capacity < 2 ^ 64"
  shows "subseq (sy_popped s) (sy_published s) \<and>
    taken False (sy_published s) (sy_owners s) =
      sy_popped s @ in_flight (sy_published s) (consumer_claim (sy_consumer s))"
proof -
  have tk: "taken False (sy_published s) (sy_owners s) =
      sy_popped s @ in_flight (sy_published s) (consumer_claim (sy_consumer s))"
    by (rule system_invD(6) [OF reachable_inv [OF assms]])
  moreover have "subseq (sy_popped s) (taken False (sy_published s) (sy_owners s))"
    unfolding tk by (rule prefix_imp_subseq) simp
  ultimately show ?thesis using taken_subseq subseq_order.order_trans by metis
qed

theorem ring_fifo_witness:
  "\<exists>s :: nat system. reachable 2 0 s \<and> sy_popped s = [5] \<and> subseq (sy_popped s) (sy_published s)"
proof -
  let ?s = "run_schedule [Push 5, P, P, P, P, Pop, K, K, K, K, K, K] (start small_ring)"
  have s: "sy_popped ?s = [5]" "length (sy_published ?s) = 1" by (simp_all add: ring_eval)
  have "subseq (sy_popped ?s) (sy_published ?s)"
    using ring_fifo [OF small_schedule_reachable, of "[Push 5, P, P, P, P, Pop, K, K, K, K, K, K]"]
    by (simp add: s(2))
  with small_schedule_reachable s(1) show ?thesis by blast
qed

text \<open>
  C15: accounting.  Whenever both threads are between calls, every published item is one of:
  returned by \<open>pop\<close>, counted by \<open>dropped_count\<close>, or still in the buffer, whose size is
  \<open>size_approx\<close> and at most the capacity.
\<close>

theorem ring_accounting:
  assumes "reachable capacity dflt s" and "length (sy_published s) + unat capacity < 2 ^ 64"
    and "sy_producer s = P_Idle" and "sy_consumer s = K_Idle"
  shows "length (sy_published s) =
      length (sy_popped s) + unat (rb_dropped (sy_ring s)) + unat (size_approx (sy_ring s)) \<and>
    unat (size_approx (sy_ring s)) \<le> unat capacity"
proof -
  note D = system_invD [OF reachable_inv [OF assms(1,2)]]
  let ?t = "length (sy_published s)" and ?h = "length (sy_owners s)"
  have le: "?h \<le> ?t" "?t \<le> ?h + unat capacity" using ring_invD(3,4) [OF D(1)] by simp_all
  have len: "length (taken True (sy_published s) (sy_owners s)) +
      length (taken False (sy_published s) (sy_owners s)) = ?h" by (rule taken_lengths [OF le(1)])
  have drp: "unat (rb_dropped (sy_ring s)) = length (taken True (sy_published s) (sy_owners s))"
  proof -
    have "rb_dropped (sy_ring s) = of_nat (length (taken True (sy_published s) (sy_owners s)))"
      using D(5) by (simp add: assms(3))
    moreover have "length (taken True (sy_published s) (sy_owners s)) < 2 ^ 64"
      using len le(1) assms(2) by simp
    ultimately show ?thesis by simp
  qed
  have "size_approx (sy_ring s) = of_nat ?t - of_nat ?h"
    using D(4) ring_invD(2) [OF D(1)] by (simp add: size_approx_def assms(3))
  also have "(of_nat ?t :: u64) - of_nat ?h = of_nat (?t - ?h)" using le(1) by (rule of_nat_diff [symmetric])
  finally have "unat (size_approx (sy_ring s)) = unat (of_nat (?t - ?h) :: u64)" by (rule arg_cong)
  also have "\<dots> = ?t - ?h" using assms(2) by (intro unat_of_nat_u64) simp
  finally have size: "unat (size_approx (sy_ring s)) = ?t - ?h" .
  have "length (taken False (sy_published s) (sy_owners s)) = length (sy_popped s)"
    using D(6) by (simp add: assms(4))
  with len le show ?thesis unfolding drp size by linarith
qed

theorem ring_accounting_witness:
  "\<exists>s :: nat system. reachable 2 0 s \<and> length (sy_published s) = 3 \<and> sy_popped s = [] \<and>
     length (sy_published s) = length (sy_popped s) + unat (rb_dropped (sy_ring s)) + unat (size_approx (sy_ring s))"
proof -
  let ?acts = "[Push 5, P, P, P, P, Push 6, P, P, P, P, Push 7] @ replicate 11 P"
  let ?s = "run_schedule ?acts (start small_ring)"
  have s: "sy_producer ?s = P_Idle" "sy_consumer ?s = K_Idle" "length (sy_published ?s) = 3" "sy_popped ?s = []"
    by (simp_all add: ring_eval numeral_eq_Suc)
  from ring_accounting [OF small_schedule_reachable _ s(1,2)] s small_schedule_reachable show ?thesis
    by fastforce
qed

text \<open>
  A push can wait.  There is a reachable state of a buffer of capacity 2 in which the
  consumer is in the middle of a pop, the producer has discarded an unconsumed item although only
  one was left, and from which the producer, however many steps it takes while the consumer does
  not move, never completes its push.
\<close>

theorem ring_push_can_wait:
  "\<exists>s :: nat system. reachable 2 0 s \<and> rb_dropped (sy_ring s) = 1 \<and> sy_consumer s = K_Claim (Take 0) \<and>
     (\<forall>n. sy_producer ((producer_turn False ^^ n) s) \<noteq> P_Idle)"
proof -
  let ?acts = "[Push 5, P, P, P, P, Push 6, P, P, P, P, Pop, K, K, K, Push 7] @ replicate 8 P"
  let ?s = "run_schedule ?acts (start small_ring)"
  have s: "sy_producer ?s = P_Claim 2 7 True Load_Head" "sy_consumer ?s = K_Claim (Take 0)"
    "rb_dropped (sy_ring ?s) = 1"
    by (simp_all add: ring_eval numeral_eq_Suc)
  define s1 where "s1 = producer_turn False ?s"
  have s1: "sy_producer s1 = P_Claim 2 7 True (Load_Seq 2)" "producer_turn False s1 = ?s"
    by (simp_all add: s1_def ring_eval numeral_eq_Suc)
  have "(producer_turn False ^^ n) ?s = ?s \<or> (producer_turn False ^^ n) ?s = s1" for n
    by (rule funpow_alternates) (rule s1_def [symmetric], rule s1(2))
  then have "sy_producer ((producer_turn False ^^ n) ?s) \<noteq> P_Idle" for n
    using s(1) s1(1) by (metis producer.distinct(3))
  with s small_schedule_reachable show ?thesis by blast
qed

end
