(* ===== verification/Decimal.thy ===== *)
theory Decimal
  imports Float64
begin

text \<open>
  Decimal text of numbers: \<open>operator<<\<close> of a \<open>double\<close> with a precision set and the default
  notation (the \<open>%.*g\<close> of \<open>printf\<close>), and the readers \<open>std::stod\<close> and \<open>std::stoll\<close>.
  The readers take the longest prefix that is a number, after white space, and throw when
  there is none or it is out of range.  Hexadecimal floats, infinities and not-a-number
  are outside the model, and every result below the least normal number counts as underflow,
  for which \<open>std::stod\<close> throws.  The main fact is that 17 significant digits determine a
  \<open>double\<close>.
\<close>

section \<open>Powers of ten\<close>

definition pow10 :: "int \<Rightarrow> rat" where
  "pow10 k = (if 0 \<le> k then 10 ^ nat k else 1 / 10 ^ nat (- k))"

lemma pow10_powi: "pow10 k = 10 powi k"
  by (simp add: pow10_def power_int_def field_simps)

lemma pow10_pos [simp]: "0 < pow10 k"
  by (simp add: pow10_def)

lemma pow10_neq0 [simp]: "pow10 k \<noteq> 0"
  using pow10_pos [of k] by linarith

lemma pow10_add: "pow10 (a + b) = pow10 a * pow10 b"
  by (simp add: pow10_powi power_int_add)

lemma pow10_diff: "pow10 (a - b) = pow10 a / pow10 b"
  by (simp add: pow10_powi power_int_diff)

lemma pow10_mono: "a \<le> b \<Longrightarrow> pow10 a \<le> pow10 b"
  by (simp add: pow10_powi power_int_increasing)

lemma pow10_nat: "pow10 (int n) = 10 ^ n"
  by (simp add: pow10_def)

lemma pow10_0 [simp]: "pow10 0 = 1"
  by (simp add: pow10_def)

text \<open>The number of decimal digits, and the exponent of the leading digit of a positive \<open>x\<close>.\<close>

definition ndigits :: "int \<Rightarrow> int" where
  "ndigits n = int (length (show_nat (nat n)))"

definition ilog10 :: "rat \<Rightarrow> int" where
  "ilog10 x = (case quotient_of x of (n, d) \<Rightarrow>
     let k = ndigits n - ndigits d in if pow10 k \<le> x then k else k - 1)"

lemma show_nat_length: "0 < n \<Longrightarrow> 10 ^ (length (show_nat n) - 1) \<le> n \<and> n < 10 ^ length (show_nat n)"
proof (induction n rule: show_nat.induct)
  case (1 n)
  show ?case
  proof (cases "n < 10")
    case True
    then show ?thesis using "1.prems" by (simp add: show_nat.simps [of n])
  next
    case False
    define l where "l = length (show_nat (n div 10))"
    have l: "length (show_nat n) = Suc l" using False by (simp add: show_nat.simps [of n] l_def)
    have "0 < l" by (simp add: l_def)
    have IH: "10 ^ (l - 1) \<le> n div 10" "n div 10 < 10 ^ l"
      using "1.IH" [OF False] False by (auto simp: l_def)
    have "10 * 10 ^ (l - 1) \<le> n" using IH(1) by linarith
    moreover have "(10::nat) * 10 ^ (l - 1) = 10 ^ l" using \<open>0 < l\<close> by (cases l) simp_all
    moreover have "n < 10 * 10 ^ l" using IH(2) by linarith
    ultimately show ?thesis by (simp add: l)
  qed
qed

lemma ndigits_bounds:
  assumes "0 < n"
  shows "pow10 (ndigits n - 1) \<le> of_int n" and "of_int n < pow10 (ndigits n)"
proof -
  define l where "l = length (show_nat (nat n))"
  have l: "0 < l" "ndigits n = int l" by (simp_all add: l_def ndigits_def)
  have b: "10 ^ (l - 1) \<le> nat n" "nat n < 10 ^ l"
    using show_nat_length [of "nat n"] assms by (simp_all add: l_def)
  have n: "(of_int n :: rat) = of_nat (nat n)" using assms by simp
  have "pow10 (ndigits n - 1) = of_nat (10 ^ (l - 1))"
    using l pow10_nat [of "l - 1"] by (simp add: of_nat_diff)
  then show "pow10 (ndigits n - 1) \<le> of_int n" using b(1) unfolding n by (metis of_nat_le_iff)
  have "pow10 (ndigits n) = of_nat (10 ^ l)" using l pow10_nat [of l] by simp
  then show "of_int n < pow10 (ndigits n)" using b(2) unfolding n by (metis of_nat_less_iff)
qed

lemma ilog10_bounds:
  assumes "0 < x"
  shows "pow10 (ilog10 x) \<le> x" and "x < pow10 (ilog10 x + 1)"
proof -
  obtain n d where q: "quotient_of x = (n, d)" by fastforce
  have d: "0 < d" using quotient_of_denom_pos [OF q] .
  have x: "x = of_int n / of_int d" using quotient_of_div [OF q] .
  have n: "0 < n" using assms d by (simp add: x zero_less_divide_iff)
  let ?k = "ndigits n - ndigits d"
  note bn = ndigits_bounds [OF n] and bd = ndigits_bounds [OF d]
  have dpos: "(0::rat) < of_int d" using d by simp
  have "of_int n < pow10 (?k + 1) * pow10 (ndigits d - 1)" using bn(2) by (simp flip: pow10_add)
  also have "\<dots> \<le> pow10 (?k + 1) * of_int d" using bd(1) by (simp add: mult_left_mono less_imp_le)
  finally have up: "x < pow10 (?k + 1)" using dpos by (simp add: x field_simps)
  have "pow10 (?k - 1) * of_int d \<le> pow10 (?k - 1) * pow10 (ndigits d)"
    using bd(2) by (simp add: mult_left_mono less_imp_le)
  also have "\<dots> = pow10 (ndigits n - 1)" by (simp flip: pow10_add)
  also have "\<dots> \<le> of_int n" by (rule bn(1))
  finally have lo: "pow10 (?k - 1) \<le> x" using dpos by (simp add: x field_simps)
  show "pow10 (ilog10 x) \<le> x" "x < pow10 (ilog10 x + 1)"
    using up lo by (auto simp: ilog10_def q Let_def)
qed


lemma show_nat_length_eq:
  assumes "10 ^ k \<le> n" and "n < 10 ^ Suc k"
  shows "length (show_nat n) = Suc k"
proof -
  define l where "l = length (show_nat n)"
  have "0 < n" using assms(1) by (metis gr0I le_0_eq power_eq_0_iff zero_neq_numeral)
  then have b: "10 ^ (l - 1) \<le> n" "n < 10 ^ l" using show_nat_length l_def by simp_all
  have "(10::nat) ^ k < 10 ^ l" "(10::nat) ^ (l - 1) < 10 ^ Suc k" using assms b by linarith+
  then have "k < l" "l - 1 < Suc k" by (auto simp only: power_strict_increasing_iff)
  then show ?thesis by (simp add: l_def)
qed

section \<open>Writing\<close>

text \<open>
  \<open>sig_digits p x\<close> is the significand of \<open>p\<close> digits and the exponent of a positive \<open>x\<close>,
  rounded to nearest, ties to even.
\<close>

definition sig_digits :: "nat \<Rightarrow> rat \<Rightarrow> nat \<times> int" where
  "sig_digits p x =
     (let e = ilog10 x; m = nat (round_half_even (x / pow10 (e - int p + 1)))
      in if m = 10 ^ p then (10 ^ (p - 1), e + 1) else (m, e))"

definition strip_zeros :: "string \<Rightarrow> string" where
  "strip_zeros s = rev (dropWhile (\<lambda>c. c = CHR ''0'') (rev s))"

definition fraction_part :: "string \<Rightarrow> string" where
  "fraction_part s = (if strip_zeros s = [] then [] else CHR ''.'' # strip_zeros s)"

definition exponent_part :: "int \<Rightarrow> string" where
  "exponent_part e = CHR ''e'' # (if e < 0 then CHR ''-'' else CHR ''+'') # pad_left 2 (show_nat (nat \<bar>e\<bar>))"

definition show_magnitude :: "nat \<Rightarrow> nat \<times> int \<Rightarrow> string" where
  "show_magnitude p = (\<lambda>(m, e).
     let ds = show_nat m
     in if e < - 4 \<or> int p \<le> e then hd ds # fraction_part (tl ds) @ exponent_part e
        else if 0 \<le> e then take (Suc (nat e)) ds @ fraction_part (drop (Suc (nat e)) ds)
        else ''0.'' @ replicate (nat (- e) - 1) (CHR ''0'') @ strip_zeros ds)"

definition show_g :: "nat \<Rightarrow> double \<Rightarrow> string" where
  "show_g p x =
     (if x = 0 then ''0''
      else (if x < 0 then ''-'' else []) @ show_magnitude p (sig_digits p \<bar>x\<bar>))"

section \<open>Reading\<close>

datatype number_error = Invalid_Number | Number_Out_Of_Range

definition is_digit :: "char \<Rightarrow> bool" where
  "is_digit c \<longleftrightarrow> digit_of c \<noteq> None"

definition is_space :: "char \<Rightarrow> bool" where
  "is_space c \<longleftrightarrow> (let k = of_char c :: nat in k = 32 \<or> 9 \<le> k \<and> k \<le> 13)"

definition nat_of_digits :: "string \<Rightarrow> nat" where
  "nat_of_digits s = (case digits_value 0 s of None \<Rightarrow> 0 | Some n \<Rightarrow> n)"

definition scan_sign :: "string \<Rightarrow> bool \<times> string" where
  "scan_sign s = (case s of [] \<Rightarrow> (False, [])
     | c # r \<Rightarrow> if c = CHR ''-'' then (True, r) else if c = CHR ''+'' then (False, r) else (False, s))"

definition scan_fraction :: "string \<Rightarrow> string \<times> string" where
  "scan_fraction s = (case s of [] \<Rightarrow> ([], [])
     | c # r \<Rightarrow> if c = CHR ''.'' then (takeWhile is_digit r, dropWhile is_digit r) else ([], s))"

definition scan_exponent :: "string \<Rightarrow> int" where
  "scan_exponent s = (case s of [] \<Rightarrow> 0
     | c # r \<Rightarrow>
         if c = CHR ''e'' \<or> c = CHR ''E''
         then let (neg, ds) = scan_sign r; n = int (nat_of_digits (takeWhile is_digit ds))
              in if neg then - n else n
         else 0)"

definition decimal_value :: "string \<Rightarrow> string \<Rightarrow> int \<Rightarrow> rat" where
  "decimal_value ip fp e = of_nat (nat_of_digits (ip @ fp)) * pow10 (e - int (length fp))"

definition to_range :: "bool \<Rightarrow> rat \<Rightarrow> number_error + double" where
  "to_range neg v =
     (if v = 0 then Inr 0
      else if rnd64 v < pow2 (- 1022) \<or> pow2 1024 \<le> rnd64 v then Inl Number_Out_Of_Range
      else Inr (if neg then - rnd64 v else rnd64 v))"

definition stod :: "string \<Rightarrow> number_error + double" where
  "stod s =
     (let (neg, s1) = scan_sign (dropWhile is_space s);
          ip = takeWhile is_digit s1;
          (fp, s2) = scan_fraction (dropWhile is_digit s1)
      in if ip = [] \<and> fp = [] then Inl Invalid_Number
         else to_range neg (decimal_value ip fp (scan_exponent s2)))"

definition stoll :: "string \<Rightarrow> number_error + int" where
  "stoll s =
     (let (neg, s1) = scan_sign (dropWhile is_space s);
          ds = takeWhile is_digit s1;
          n = (if neg then - int (nat_of_digits ds) else int (nat_of_digits ds))
      in if ds = [] then Inl Invalid_Number
         else if n < - (2 ^ 63) \<or> 2 ^ 63 \<le> n then Inl Number_Out_Of_Range
         else Inr n)"

section \<open>What the readers make of what the writer writes\<close>

abbreviation digits :: "string \<Rightarrow> bool" where
  "digits s \<equiv> list_all is_digit s"

lemma is_digit_char [simp]: "d < 10 \<Longrightarrow> is_digit (digit_char d)"
  by (simp add: is_digit_def)

lemma digits_show_nat [simp]: "digits (show_nat n)"
  using show_nat_digits [of _ n] by (fastforce simp: list_all_iff)

lemma is_digit_0 [simp]: "is_digit (CHR ''0'')"
  by (simp add: is_digit_def digit_of_def)

lemma not_digit [simp]:
  "\<not> is_digit (CHR ''.'')" "\<not> is_digit (CHR ''e'')" "\<not> is_digit (CHR ''-'')" "\<not> is_digit (CHR ''+'')"
  by (simp_all add: is_digit_def digit_of_def)

lemma digits_value_digits: "digits s \<Longrightarrow> \<exists>n. digits_value a s = Some n"
  by (induction s arbitrary: a) (auto simp: is_digit_def)

lemma digits_value_shift:
  "digits_value (a + b) s = map_option (\<lambda>k. a * 10 ^ length s + k) (digits_value b s)"
proof (induction s arbitrary: a b)
  case (Cons c s)
  show ?case
  proof (cases "digit_of c")
    case (Some d)
    then show ?thesis using Cons.IH [of "10 * a" "10 * b + d"] by (simp add: algebra_simps)
  qed simp
qed simp

lemma nat_of_digits_append:
  assumes "digits xs" and "digits ys"
  shows "nat_of_digits (xs @ ys) = nat_of_digits xs * 10 ^ length ys + nat_of_digits ys"
proof -
  obtain m n where "digits_value 0 xs = Some m" "digits_value 0 ys = Some n"
    using digits_value_digits assms by meson
  then show ?thesis using digits_value_shift [of m 0 ys] by (simp add: nat_of_digits_def digits_value_append)
qed

lemma nat_of_digits_show [simp]: "nat_of_digits (show_nat n) = n"
  by (simp add: nat_of_digits_def digits_value_show_nat)

lemma digits_zeros [simp]: "digits (replicate k (CHR ''0''))"
  by (simp add: list_all_iff)

lemma nat_of_digits_zeros [simp]: "nat_of_digits (replicate k (CHR ''0'')) = 0"
proof (induction k)
  case (Suc k)
  then show ?case using nat_of_digits_append [of "[CHR ''0'']" "replicate k (CHR ''0'')"]
    by (simp add: nat_of_digits_def digit_of_def)
qed (simp add: nat_of_digits_def)

lemma strip_zeros_split: "\<exists>k. s = strip_zeros s @ replicate k (CHR ''0'')"
proof -
  have "s = rev (takeWhile (\<lambda>c. c = CHR ''0'') (rev s) @ dropWhile (\<lambda>c. c = CHR ''0'') (rev s))"
    by (metis rev_rev_ident takeWhile_dropWhile_id)
  also have "\<dots> = strip_zeros s @ rev (takeWhile (\<lambda>c. c = CHR ''0'') (rev s))"
    by (simp only: strip_zeros_def rev_append)
  also have "rev (takeWhile (\<lambda>c. c = CHR ''0'') (rev s)) =
      replicate (length (takeWhile (\<lambda>c. c = CHR ''0'') (rev s))) (CHR ''0'')"
    by (rule replicate_eqI) (auto dest: set_takeWhileD)
  finally show ?thesis by blast
qed

lemma digits_strip [simp]: "digits s \<Longrightarrow> digits (strip_zeros s)"
  using strip_zeros_split [of s] by (metis list_all_append)

lemma decimal_value_strip:
  assumes "digits ip" and "digits fp"
  shows "decimal_value ip (strip_zeros fp) e = decimal_value ip fp e"
proof -
  obtain k where k: "fp = strip_zeros fp @ replicate k (CHR ''0'')" using strip_zeros_split by blast
  define f where "f = strip_zeros fp"
  have f: "digits f" "fp = f @ replicate k (CHR ''0'')" using assms(2) k by (simp_all add: f_def)
  have "nat_of_digits (ip @ fp) = nat_of_digits (ip @ f) * 10 ^ k"
    using nat_of_digits_append [of "ip @ f" "replicate k (CHR ''0'')"] assms(1) f
    by simp
  moreover have "pow10 (e - int (length f)) = pow10 (e - int (length fp)) * 10 ^ k"
    using pow10_add [of "e - int (length fp)" "int k"] by (simp add: f(2) pow10_nat)
  ultimately show ?thesis by (simp add: decimal_value_def flip: f_def)
qed

lemma takeWhile_digits: "digits ds \<Longrightarrow> takeWhile is_digit (ds @ r) = ds @ takeWhile is_digit r"
  by (induction ds) simp_all

lemma takeWhile_all_digits: "digits ds \<Longrightarrow> takeWhile is_digit ds = ds"
  by (induction ds) simp_all

lemma dropWhile_digits: "digits ds \<Longrightarrow> dropWhile is_digit (ds @ r) = dropWhile is_digit r"
  by (induction ds) simp_all

text \<open>The text after the digits: nothing, or an exponent.\<close>

definition ends_number :: "string \<Rightarrow> bool" where
  "ends_number r \<longleftrightarrow> r = [] \<or> (\<exists>t. r = CHR ''e'' # t)"

lemma ends_numberD:
  "ends_number r \<Longrightarrow> takeWhile is_digit r = []" "ends_number r \<Longrightarrow> dropWhile is_digit r = r"
  "ends_number r \<Longrightarrow> scan_fraction r = ([], r)"
  by (auto simp: ends_number_def scan_fraction_def)

lemma scan_fraction_part:
  assumes "digits fp" and "ends_number r"
  shows "scan_fraction (fraction_part fp @ r) = (strip_zeros fp, r)"
proof (cases "strip_zeros fp = []")
  case True
  then show ?thesis using ends_numberD(3) [OF assms(2)] by (simp add: fraction_part_def)
next
  case False
  then show ?thesis
    using ends_numberD(1,2) [OF assms(2)] digits_strip [OF assms(1)]
    by (simp add: fraction_part_def scan_fraction_def takeWhile_digits dropWhile_digits)
qed

lemma scan_sign_digits: "digits ip \<Longrightarrow> ip \<noteq> [] \<Longrightarrow> scan_sign (ip @ r) = (False, ip @ r)"
  by (cases ip) (auto simp: scan_sign_def)

lemma not_space: "is_digit c \<Longrightarrow> \<not> is_space c"
  by (auto simp: is_digit_def is_space_def digit_of_def Let_def split: if_splits)

lemma stod_parts:
  assumes "digits ip" and "ip \<noteq> []" and "digits fp" and "ends_number r"
  shows "stod ((if neg then ''-'' else []) @ ip @ fraction_part fp @ r) =
    to_range neg (decimal_value ip fp (scan_exponent r))"
proof -
  have "\<not> is_digit c" if "fraction_part fp @ r = c # t" for c t
    using that assms(4) by (auto simp: fraction_part_def ends_number_def split: if_splits)
  then have d: "takeWhile is_digit (fraction_part fp @ r) = []"
    "dropWhile is_digit (fraction_part fp @ r) = fraction_part fp @ r"
    by (cases "fraction_part fp @ r"; simp)+
  have sp: "dropWhile is_space (ip @ t) = ip @ t" for t
    using assms(1,2) by (cases ip) (simp_all add: not_space)
  have m: "\<not> is_space (CHR ''-'')" by (simp add: is_space_def)
  have sg: "scan_sign (dropWhile is_space ((if neg then ''-'' else []) @ ip @ fraction_part fp @ r)) =
      (neg, ip @ fraction_part fp @ r)"
    using scan_sign_digits [OF assms(1,2)] by (cases neg) (simp_all add: sp m scan_sign_def)
  show ?thesis
    using assms(2)
    by (simp add: stod_def sg Let_def takeWhile_digits dropWhile_digits d
        scan_fraction_part assms decimal_value_strip)
qed

lemma exponent_part_ends [simp]: "ends_number (exponent_part e)"
  by (simp add: ends_number_def exponent_part_def)

lemma scan_exponent_part [simp]: "scan_exponent (exponent_part e) = e"
proof -
  let ?ds = "show_nat (nat \<bar>e\<bar>)"
  define z where "z = replicate (2 - length ?ds) (CHR ''0'')"
  have z: "digits z" "nat_of_digits (z @ ?ds) = nat \<bar>e\<bar>"
    by (simp_all add: z_def nat_of_digits_append)
  have "takeWhile is_digit (z @ ?ds) = z @ ?ds" using z(1) by (simp add: takeWhile_all_digits)
  moreover have "pad_left 2 ?ds = z @ ?ds" by (simp add: z_def)
  ultimately have "nat_of_digits (takeWhile is_digit (pad_left 2 ?ds)) = nat \<bar>e\<bar>"
    using z(2) by (simp only:)
  then show ?thesis by (cases "e < 0") (simp_all add: scan_exponent_def exponent_part_def scan_sign_def)
qed

lemma decimal_value_split:
  assumes "digits ds" and "k \<le> length ds"
  shows "decimal_value (take k ds) (drop k ds) e = of_nat (nat_of_digits ds) * pow10 (e - int (length ds - k))"
  by (simp add: decimal_value_def)

lemma strip_zeros_positive:
  assumes "digits ds" and "0 < nat_of_digits ds"
  shows "strip_zeros ds \<noteq> []"
proof
  assume "strip_zeros ds = []"
  then obtain k where "ds = replicate k (CHR ''0'')" using strip_zeros_split [of ds] by auto
  with assms(2) show False by simp
qed

lemma strip_zeros_append:
  assumes "strip_zeros ds \<noteq> []"
  shows "strip_zeros (zs @ ds) = zs @ strip_zeros ds"
  using assms by (auto simp: strip_zeros_def dropWhile_append)

text \<open>The magnitude of \<open>p\<close> digits reads back as the decimal it stands for.\<close>

lemma stod_magnitude:
  assumes "10 ^ (p - 1) \<le> m" and "m < 10 ^ p" and "0 < p"
  shows "stod ((if neg then ''-'' else []) @ show_magnitude p (m, e)) =
    to_range neg (of_nat m * pow10 (e - int p + 1))"
proof -
  define ds where "ds = show_nat m"
  have len: "length ds = p" using show_nat_length_eq [of "p - 1" m] assms by (simp add: ds_def)
  have m: "0 < m" using assms(1) by (metis gr0I le_0_eq power_eq_0_iff zero_neq_numeral)
  have dd: "digits ds" "nat_of_digits ds = m" "ds \<noteq> []" by (simp_all add: ds_def)
  consider (sci) "e < - 4 \<or> int p \<le> e" | (fixed) "0 \<le> e" "e < int p" | (small) "e < 0" "- 4 \<le> e" by linarith
  then show ?thesis
  proof cases
    case sci
    have split: "[hd ds] = take 1 ds" "tl ds = drop 1 ds" using dd(3) by (cases ds; simp)+
    have val: "decimal_value [hd ds] (tl ds) e = of_nat m * pow10 (e - int p + 1)"
      unfolding split using decimal_value_split [OF dd(1), of 1 e] dd(3) len
      by (simp add: dd(2) Suc_le_eq of_nat_diff algebra_simps assms(3))
    have "digits [hd ds]" "digits (tl ds)" using dd(1,3) by (cases ds; simp)+
    from stod_parts [OF this(1) _ this(2) exponent_part_ends] sci show ?thesis
      by (simp add: show_magnitude_def Let_def val flip: ds_def)
  next
    case fixed
    let ?k = "Suc (nat e)"
    have k: "?k \<le> length ds" using fixed len by linarith
    have val: "decimal_value (take ?k ds) (drop ?k ds) 0 = of_nat m * pow10 (e - int p + 1)"
      unfolding decimal_value_split [OF dd(1) k] using k fixed by (simp add: dd(2) len of_nat_diff algebra_simps)
    have "digits (take ?k ds)" "digits (drop ?k ds)" "take ?k ds \<noteq> []" "ends_number []"
      using dd(1,3) append_take_drop_id [of ?k ds] by (metis list_all_append, metis list_all_append, simp, simp add: ends_number_def)
    from stod_parts [OF this(1,3,2,4), of neg] fixed show ?thesis
      by (simp add: show_magnitude_def Let_def val scan_exponent_def flip: ds_def)
  next
    case small
    define zs where "zs = replicate (nat (- e) - Suc 0) (CHR ''0'')"
    have z: "digits (zs @ ds)" "nat_of_digits (zs @ ds) = m"
      using dd nat_of_digits_append [of zs ds] by (simp_all add: zs_def)
    have strip: "strip_zeros (zs @ ds) = zs @ strip_zeros ds" "strip_zeros ds \<noteq> []"
      using strip_zeros_positive [OF dd(1)] m dd(2) strip_zeros_append by auto
    have "length (zs @ ds) = nat (- e) - 1 + p" by (simp add: zs_def len)
    then have val: "decimal_value ''0'' (zs @ ds) 0 = of_nat m * pow10 (e - int p + 1)"
      using z small nat_of_digits_append [of "''0''" "zs @ ds"]
      by (simp add: decimal_value_def nat_of_digits_def digit_of_def of_nat_diff algebra_simps)
    from stod_parts [of "''0''" "zs @ ds" "[]" neg] z(1) small strip show ?thesis
      by (cases neg) (simp_all add: show_magnitude_def Let_def val scan_exponent_def ends_number_def
          fraction_part_def flip: ds_def zs_def)
  qed
qed

section \<open>Seventeen digits determine a double\<close>

lemma round_half_even_close:
  assumes "\<bar>x - of_int k\<bar> < 1 / 2"
  shows "round_half_even x = k"
proof -
  have "\<bar>x - of_int (round_half_even x)\<bar> \<le> 1 / 2" by (rule round_half_even_error)
  with assms have "\<bar>(of_int (round_half_even x) :: rat) - of_int k\<bar> < 1" by linarith
  then show ?thesis by linarith
qed

lemma sig_digits_spec:
  assumes "0 < x" and "0 < p" and "sig_digits p x = (m, e)"
  shows "10 ^ (p - 1) \<le> m" and "m < 10 ^ p"
    and "\<bar>x - of_nat m * pow10 (e - int p + 1)\<bar> \<le> pow10 (ilog10 x - int p + 1) / 2"
proof -
  define k where "k = ilog10 x"
  define u where "u = pow10 (k - int p + 1)"
  define q where "q = round_half_even (x / u)"
  have u: "0 < u" by (simp add: u_def)
  have scale: "pow10 k = of_nat (10 ^ (p - 1)) * u"
    using assms(2) pow10_add [of "int (p - 1)" "k - int p + 1"] pow10_nat [of "p - 1"]
    by (simp add: u_def of_nat_diff)
  have scale': "pow10 (k + 1) = of_nat (10 ^ p) * u"
    using assms(2) pow10_add [of "int p" "k - int p + 1"] pow10_nat [of p] by (simp add: u_def)
  note b = ilog10_bounds [OF assms(1), folded k_def]
  have "of_int (10 ^ (p - 1)) \<le> x / u" using b(1) u by (simp add: scale pos_le_divide_eq)
  then have lo: "10 ^ (p - 1) \<le> q"
    using round_half_even_mono [of "of_int (10 ^ (p - 1))" "x / u"] by (simp only: q_def round_half_even_of_int)
  have "x / u \<le> of_int (10 ^ p)" using b(2) u by (simp add: scale' pos_divide_le_eq less_imp_le)
  then have hi: "q \<le> 10 ^ p"
    using round_half_even_mono [of "x / u" "of_int (10 ^ p)"] by (simp only: q_def round_half_even_of_int)
  have "\<bar>x / u - of_int q\<bar> \<le> 1 / 2" unfolding q_def by (rule round_half_even_error)
  then have "\<bar>x / u - of_int q\<bar> * u \<le> 1 / 2 * u" using u by (intro mult_right_mono) simp_all
  moreover have "\<bar>x / u - of_int q\<bar> * u = \<bar>x - of_int q * u\<bar>"
    using u abs_mult [of "x / u - of_int q" u] by (simp add: left_diff_distrib)
  ultimately have err: "\<bar>x - of_int q * u\<bar> \<le> u / 2" by simp
  have q0: "0 \<le> q" using lo by (meson order.trans zero_le_numeral zero_le_power)
  have sd: "(m, e) = (if nat q = 10 ^ p then (10 ^ (p - 1), k + 1) else (nat q, k))"
    using assms(3) unfolding sig_digits_def Let_def k_def q_def u_def by (rule sym)
  show "10 ^ (p - 1) \<le> m" "m < 10 ^ p"
    using sd lo hi assms(2) by (auto split: if_splits simp: le_nat_iff nat_less_iff order_le_less)
  show "\<bar>x - of_nat m * pow10 (e - int p + 1)\<bar> \<le> pow10 (ilog10 x - int p + 1) / 2"
  proof (cases "nat q = 10 ^ p")
    case True
    then have "q = 10 ^ p" using q0 by (metis int_nat_eq of_nat_numeral of_nat_power)
    moreover have "of_nat m * pow10 (e - int p + 1) = of_nat (10 ^ p) * u"
      using sd True assms(2) pow10_add [of "int (p - 1)" "k + 1 - int p + 1"] pow10_nat [of "p - 1"] scale'
      by (simp add: of_nat_diff add.commute)
    ultimately show ?thesis using err by (simp flip: k_def u_def)
  next
    case False
    with sd have "of_nat m = (of_int q :: rat)" "e = k" using q0 by simp_all
    with err show ?thesis by (simp flip: k_def u_def)
  qed
qed

text \<open>A value near enough to a normal \<open>double\<close> rounds to it.\<close>

lemma rnd64_near:
  assumes x: "0 < x" "is_double x" "pow2 (- 1022) \<le> x" and d: "\<bar>d - x\<bar> * (2 * 10 ^ 16) \<le> x"
  shows "rnd64 d = x"
proof -
  define E where "E = ilog2 x - 52"
  define u where "u = pow2 E"
  have u: "0 < u" by (simp add: u_def)
  have lx: "pow2 (E + 52) \<le> x" "x < pow2 (E + 53)" using ilog2_bounds [OF x(1)] by (simp_all add: E_def add.commute)
  have "- 1022 \<le> ilog2 x" using ilog2_mono [OF _ x(3)] ilog2_unique [of "- 1022"] pow2_strict_mono [of "- 1022" "- 1021"] by simp
  then have E: "- 1074 \<le> E" "ulp_exp x = E" using x(1) by (simp_all add: E_def ulp_exp_def)
  define k where "k = round_half_even (x / u)"
  have xk: "x = of_int k * u"
    using x(1,2) E(2) by (simp add: is_double_def rnd64_def k_def u_def)
  have p: "pow2 (E + 52) = 2 ^ 52 * u" "pow2 (E + 53) = 2 ^ 53 * u" "pow2 (E + 51) = 2 ^ 51 * u"
    using pow2_add [of E 52] pow2_add [of E 53] pow2_add [of E 51] by (simp_all add: u_def pow2_def)
  have k: "2 ^ 52 \<le> k" "k < 2 ^ 53"
  proof -
    have "of_int (2 ^ 52) \<le> (of_int k :: rat)" "(of_int k :: rat) < of_int (2 ^ 53)"
      using lx u by (simp_all add: p xk)
    then show "2 ^ 52 \<le> k" "k < 2 ^ 53" by (simp_all only: of_int_le_iff of_int_less_iff)
  qed
  define A where "A = \<bar>d - x\<bar>"
  have A: "A * 20000000000000000 \<le> x" using d by (simp add: A_def)
  have "A * 20000000000000000 < u / 2 * 20000000000000000" using A lx(2) u by (simp add: p(2))
  then have close1: "\<bar>d - x\<bar> < u / 2" by (simp add: A_def)
  have close2: "\<bar>d - x\<bar> < u / 4" if "k = 2 ^ 52"
  proof -
    have "x = 4503599627370496 * u" by (simp add: xk that)
    then have "A * 20000000000000000 < u / 4 * 20000000000000000" using A u by simp
    then show ?thesis by (simp add: A_def)
  qed
  note close = close1 close2
  have dpos: "0 < d" using d x(1) by (auto simp: abs_if split: if_splits)
  have main: "rnd64 d = x" if ud: "ulp_exp d = E"
  proof -
    have "d / u - of_int k = (d - x) / u" using u by (simp add: xk diff_divide_distrib)
    then have "\<bar>d / u - of_int k\<bar> = \<bar>d - x\<bar> / u" using u by (simp add: abs_divide)
    then have "\<bar>d / u - of_int k\<bar> < 1 / 2" using close(1) u by (simp add: pos_divide_less_eq)
    then have "round_half_even (d / u) = k" by (rule round_half_even_close)
    with dpos show ?thesis by (simp add: rnd64_def ud xk flip: u_def)
  qed
  show ?thesis
  proof (cases "pow2 (E + 52) \<le> d")
    case True
    have "of_int (k + 1) \<le> (of_int (2 ^ 53) :: rat)" using k(2) by (simp only: of_int_le_iff)
    then have "(of_int k + 1) * u \<le> 2 ^ 53 * u" using u by (intro mult_right_mono) simp_all
    then have "x + u \<le> pow2 (E + 53)" by (simp add: p(2) xk algebra_simps)
    then have "d < pow2 (E + 53)" using close(1) u by linarith
    with True have "ilog2 d = E + 52" by (intro ilog2_unique) (simp_all add: add.commute)
    with E(1) dpos have "ulp_exp d = E" by (simp add: ulp_exp_def)
    then show ?thesis by (rule main)
  next
    case False
    have "k = 2 ^ 52"
    proof (rule ccontr)
      assume "k \<noteq> 2 ^ 52"
      with k(1) have "of_int (2 ^ 52 + 1) \<le> (of_int k :: rat)" by (simp only: of_int_le_iff)
      then have "(2 ^ 52 + 1) * u \<le> x" using u by (simp add: xk)
      then have "pow2 (E + 52) + u \<le> x" by (simp add: p(1) algebra_simps)
      with close(1) False u show False by linarith
    qed
    note k' = this close(2) [OF this]
    have "x = 2 * pow2 (E + 51)" "u \<le> pow2 (E + 51)" using k'(1) u by (simp_all add: p(3) xk)
    then have "pow2 (E + 51) \<le> d" using k'(2) u by linarith
    with False have l: "ilog2 d = E + 51" by (intro ilog2_unique) (simp_all add: add.commute)
    show ?thesis
    proof (cases "E = - 1074")
      case True
      then have "ulp_exp d = E" using l dpos by (simp add: ulp_exp_def)
      then show ?thesis by (rule main)
    next
      case F: False
      then have ud: "ulp_exp d = E - 1" using l dpos E(1) by (simp add: ulp_exp_def)
      have h: "pow2 (E - 1) = u / 2" using pow2_diff [of E 1] by (simp add: u_def pow2_def)
      have "d / (u / 2) - of_int (2 ^ 53) = (d - x) / (u / 2)"
        using u k'(1) by (simp add: xk diff_divide_distrib)
      then have "\<bar>d / (u / 2) - of_int (2 ^ 53)\<bar> = \<bar>(d - x) / (u / 2)\<bar>" by (simp only:)
      also have "\<dots> = \<bar>d - x\<bar> / (u / 2)" using abs_div_pos [of "u / 2" "d - x"] u by (simp only:)
      also have "\<dots> < 1 / 2" using k'(2) u by (simp add: pos_divide_less_eq)
      finally have "round_half_even (d / (u / 2)) = 2 ^ 53" by (rule round_half_even_close)
      with dpos k'(1) show ?thesis by (simp add: rnd64_def ud h xk)
    qed
  qed
qed

text \<open>The doubles that \<open>std::stod\<close> reads back: zero and the normal numbers.\<close>

definition normal_double :: "double \<Rightarrow> bool" where
  "normal_double x \<longleftrightarrow> is_double x \<and> (x = 0 \<or> pow2 (- 1022) \<le> \<bar>x\<bar> \<and> \<bar>x\<bar> < pow2 1024)"

lemma to_range_rnd64:
  assumes "rnd64 v = y" and "0 < v" and "pow2 (- 1022) \<le> y" and "y < pow2 1024"
  shows "to_range neg v = Inr (if neg then - y else y)"
  using assms by (simp add: to_range_def not_less not_le)

lemma sig_digits_17:
  assumes "0 < x" and "is_double x" and "pow2 (- 1022) \<le> x" and "sig_digits 17 x = (m, e)"
  shows "rnd64 (of_nat m * pow10 (e - 16)) = x"
proof (rule rnd64_near [OF assms(1-3)])
  have "\<bar>x - of_nat m * pow10 (e - 16)\<bar> \<le> pow10 (ilog10 x - 16) / 2"
    using sig_digits_spec(3) [OF assms(1) _ assms(4)] by simp
  moreover have "pow10 (ilog10 x - 16) * 10 ^ 16 \<le> x"
    using ilog10_bounds(1) [OF assms(1)] pow10_diff [of "ilog10 x" 16] pow10_nat [of 16] by simp
  ultimately show "\<bar>of_nat m * pow10 (e - 16) - x\<bar> * (2 * 10 ^ 16) \<le> x"
    by (simp add: abs_minus_commute)
qed

lemma stod_show_g [simp]:
  assumes "normal_double x"
  shows "stod (show_g 17 x) = Inr x"
proof (cases "x = 0")
  case True
  then show ?thesis
    by (simp add: show_g_def stod_def scan_sign_def is_space_def is_digit_def digit_of_def scan_fraction_def
        decimal_value_def nat_of_digits_def scan_exponent_def to_range_def)
next
  case False
  then have x: "0 < \<bar>x\<bar>" "pow2 (- 1022) \<le> \<bar>x\<bar>" "\<bar>x\<bar> < pow2 1024" using assms by (auto simp: normal_double_def)
  have d: "is_double \<bar>x\<bar>" using assms by (cases "0 \<le> x") (simp_all add: normal_double_def is_double_def rnd64_minus)
  obtain m e where me: "sig_digits 17 \<bar>x\<bar> = (m, e)" by fastforce
  note S = sig_digits_spec [OF x(1) _ me]
  have m: "0 < m" using S(1) by (cases m) simp_all
  have "rnd64 (of_nat m * pow10 (e - 16)) = \<bar>x\<bar>" by (rule sig_digits_17 [OF x(1) d x(2) me])
  then have "to_range (x < 0) (of_nat m * pow10 (e - 16)) = Inr (if x < 0 then - \<bar>x\<bar> else \<bar>x\<bar>)"
    using m x(2,3) by (intro to_range_rnd64) simp_all
  moreover have "stod (show_g 17 x) = to_range (x < 0) (of_nat m * pow10 (e - 16))"
    using stod_magnitude [OF S(1,2), of "x < 0" e] False by (simp add: show_g_def me)
  ultimately show ?thesis by simp
qed

lemma stoll_show_int [simp]:
  assumes "- (2 ^ 63) \<le> n" and "n < 2 ^ 63"
  shows "stoll (show_int n) = Inr n"
proof -
  have sp: "\<not> is_space (CHR ''-'')" by (simp add: is_space_def)
  have s: "scan_sign (dropWhile is_space (show_int n)) = (n < 0, show_nat (nat \<bar>n\<bar>))"
    using scan_sign_digits [of "show_nat (nat \<bar>n\<bar>)" "[]"] digits_show_nat [of "nat n"]
    by (cases "show_nat (nat n)") (auto simp: show_int_def sp scan_sign_def not_space)
  then show ?thesis using assms by (simp add: stoll_def takeWhile_all_digits Let_def)
qed

text \<open>The characters a written number consists of.\<close>

definition number_char :: "char \<Rightarrow> bool" where
  "number_char c \<longleftrightarrow> is_digit c \<or> c \<in> {CHR ''-'', CHR ''+'', CHR ''.'', CHR ''e'', CHR ''E''}"

lemma number_chars_digits: "digits s \<Longrightarrow> list_all number_char s"
  by (auto simp: list_all_iff number_char_def)

lemma number_chars_take_drop [simp]:
  "list_all P s \<Longrightarrow> list_all P (take k s)" "list_all P s \<Longrightarrow> list_all P (drop k s)"
  by (metis append_take_drop_id list_all_append)+

lemma number_chars_fraction: "digits s \<Longrightarrow> list_all number_char (fraction_part s)"
  using number_chars_digits [OF digits_strip] by (auto simp: fraction_part_def number_char_def)

lemma number_chars_show_g: "list_all number_char (show_g p x)" "show_g p x \<noteq> []"
proof -
  have mag: "list_all number_char (show_magnitude p (m, e)) \<and> show_magnitude p (m, e) \<noteq> []" for m e
  proof -
    have "digits (tl (show_nat m))" "is_digit (hd (show_nat m))"
      using digits_show_nat [of m] by (cases "show_nat m"; simp)+
    moreover have "list_all number_char (exponent_part e)"
      using number_chars_digits [of "pad_left 2 (show_nat (nat \<bar>e\<bar>))"]
      by (simp add: exponent_part_def number_char_def)
    ultimately show ?thesis
      using number_chars_digits [of "show_nat m"] number_chars_digits [OF digits_strip [of "show_nat m"]]
        number_chars_fraction [of "tl (show_nat m)"] number_chars_fraction [of "drop (Suc (nat e)) (show_nat m)"]
        number_chars_digits [of "replicate (nat (- e) - 1) (CHR ''0'')"]
      by (simp add: show_magnitude_def Let_def number_char_def)
  qed
  obtain m e where "sig_digits p \<bar>x\<bar> = (m, e)" by fastforce
  with mag [of m e] show "list_all number_char (show_g p x)" "show_g p x \<noteq> []"
    by (auto simp: show_g_def number_char_def)
qed

lemma number_chars_show_int: "list_all number_char (show_int n)" "show_int n \<noteq> []"
  using number_chars_digits [OF digits_show_nat] by (auto simp: show_int_def number_char_def)

end
