(* ===== verification/Event_Codec.thy ===== *)
theory Event_Codec
  imports Fix_Types Decimal
begin

text \<open>
  \<open>cpp/ingestion/event_codec.cpp\<close>: the JSON text of an event, as it is written to Kafka, and the
  parser that reads it back.  The position of the parser is the text that is left.  Every exception
  is a value: the parser's own, the one for a missing field or an unknown type, and those that
  the conversions of \<open>types.cpp\<close>, \<open>std::stod\<close> and \<open>std::stoll\<close> throw.
\<close>

datatype codec_error =
    Unexpected_End
  | Expected_Char char
  | Expected_Number
  | Missing_Field string
  | Unrecognized_Type string
  | Bad_Enum string
  | Bad_Number number_error

type_synonym 'a parsed = "codec_error + 'a \<times> string"

definition quote :: char where "quote = CHR 0x22"
definition backslash :: char where "backslash = CHR 0x5C"
definition newline :: char where "newline = CHR 0x0A"

lemma special_chars [simp]:
  "quote \<noteq> backslash" "backslash \<noteq> quote" "newline \<noteq> quote" "newline \<noteq> backslash"
  "quote \<noteq> newline" "backslash \<noteq> newline" "CHR ''n'' \<noteq> quote" "CHR ''n'' \<noteq> backslash"
  by (simp_all add: quote_def backslash_def newline_def)

section \<open>Writing\<close>

definition escape_char :: "char \<Rightarrow> string" where
  "escape_char c =
     (if c = quote then [backslash, quote]
      else if c = backslash then [backslash, backslash]
      else if c = newline then [backslash, CHR ''n'']
      else [c])"

definition escape_json :: "string \<Rightarrow> string" where
  "escape_json value = concat (map escape_char value)"

definition write_key :: "string \<Rightarrow> string" where
  "write_key key = quote # key @ [quote, CHR '':'']"

definition write_string_field :: "string \<Rightarrow> string \<Rightarrow> bool \<Rightarrow> string" where
  "write_string_field key value comma =
     write_key key @ quote # escape_json value @ quote # (if comma then '','' else [])"

definition write_number_field :: "string \<Rightarrow> string \<Rightarrow> string" where
  "write_number_field key text = write_key key @ text @ '',''"

definition encode_order :: "order \<Rightarrow> string" where
  "encode_order order =
     ''{'' @ write_string_field ''type'' ''order'' True @
     write_string_field ''order_id'' (o_order_id order) True @
     write_string_field ''account_id'' (o_account_id order) True @
     write_string_field ''instrument_id'' (o_instrument_id order) True @
     write_string_field ''side'' (side_to_string (o_side order)) True @
     write_number_field ''price'' (show_g 17 (o_price order)) @
     write_number_field ''qty'' (show_int (o_qty order)) @
     write_string_field ''order_type'' (order_type_to_string (o_order_type order)) True @
     write_number_field ''timestamp_ns'' (show_int (o_timestamp_ns order)) @
     write_string_field ''status'' (order_status_to_string (o_status order)) True @
     write_string_field ''venue'' (o_venue order) True @
     write_string_field ''orig_order_id'' (o_orig_order_id order) False @ ''}''"

definition encode_execution :: "execution \<Rightarrow> string" where
  "encode_execution execution =
     ''{'' @ write_string_field ''type'' ''execution'' True @
     write_string_field ''trade_id'' (x_trade_id execution) True @
     write_string_field ''order_id'' (x_order_id execution) True @
     write_string_field ''account_id'' (x_account_id execution) True @
     write_string_field ''instrument_id'' (x_instrument_id execution) True @
     write_string_field ''side'' (side_to_string (x_side execution)) True @
     write_number_field ''price'' (show_g 17 (x_price execution)) @
     write_number_field ''qty'' (show_int (x_qty execution)) @
     write_number_field ''timestamp_ns'' (show_int (x_timestamp_ns execution)) @
     write_string_field ''counterparty_account_id'' (x_counterparty_account_id execution) True @
     write_string_field ''venue'' (x_venue execution) False @ ''}''"

fun encode :: "event \<Rightarrow> string" where
  "encode (OrderEvent order) = encode_order order"
| "encode (ExecutionEvent execution) = encode_execution execution"

section \<open>The parser\<close>

definition skip_ws :: "string \<Rightarrow> string" where
  "skip_ws s = dropWhile is_space s"

definition peek :: "string \<Rightarrow> char parsed" where
  "peek s = (case skip_ws s of [] \<Rightarrow> Inl Unexpected_End | c # r \<Rightarrow> Inr (c, c # r))"

definition expect :: "char \<Rightarrow> string \<Rightarrow> codec_error + string" where
  "expect c s = (case skip_ws s of [] \<Rightarrow> Inl Unexpected_End
     | d # r \<Rightarrow> if d = c then Inr r else Inl (Expected_Char c))"

text \<open>The body of a string, up to the closing quotation mark or the end of the text.\<close>

fun raw_chars :: "string \<Rightarrow> string \<times> string" where
  "raw_chars [] = ([], [])"
| "raw_chars [c] = (if c = quote then ([], [c]) else ([c], []))"
| "raw_chars (c # next # t) =
     (if c = quote then ([], c # next # t)
      else if c = backslash \<and> (next = quote \<or> next = backslash) then apfst (Cons next) (raw_chars t)
      else if c = backslash \<and> next = CHR ''n'' then apfst (Cons newline) (raw_chars t)
      else apfst (Cons c) (raw_chars (next # t)))"

definition parse_raw_string :: "string \<Rightarrow> string parsed" where
  "parse_raw_string s =
     (case expect quote s of
        Inl e \<Rightarrow> Inl e
      | Inr r \<Rightarrow>
          (case expect quote (snd (raw_chars r)) of
             Inl e \<Rightarrow> Inl e
           | Inr r' \<Rightarrow> Inr (fst (raw_chars r), r')))"

definition parse_raw_number :: "string \<Rightarrow> string parsed" where
  "parse_raw_number s =
     (if takeWhile number_char s = [] then Inl Expected_Number
      else Inr (takeWhile number_char s, dropWhile number_char s))"

text \<open>One \<open>key : value\<close> of the loop of \<open>parse_object\<close>.\<close>

definition parse_value :: "string \<Rightarrow> string parsed" where
  "parse_value s =
     (case peek (skip_ws s) of
        Inl e \<Rightarrow> Inl e
      | Inr (c, r) \<Rightarrow> if c = quote then parse_raw_string r else parse_raw_number r)"

definition parse_member :: "string \<Rightarrow> (string \<times> string) parsed" where
  "parse_member s =
     (case parse_raw_string (skip_ws s) of
        Inl e \<Rightarrow> Inl e
      | Inr (key, r) \<Rightarrow>
          (case expect (CHR '':'') (skip_ws r) of
             Inl e \<Rightarrow> Inl e
           | Inr r1 \<Rightarrow>
               (case parse_value r1 of
                  Inl e \<Rightarrow> Inl e
                | Inr (val, r2) \<Rightarrow> Inr ((key, val), r2))))"

lemma skip_ws_length: "length (skip_ws s) \<le> length s"
  by (simp add: skip_ws_def length_dropWhile_le)

lemma expect_length: "expect c s = Inr r \<Longrightarrow> length r < length s"
  using skip_ws_length [of s] by (auto simp: expect_def split: list.splits if_splits)

lemma peek_length: "peek s = Inr (c, r) \<Longrightarrow> length r \<le> length s"
  using skip_ws_length [of s] by (cases "skip_ws s") (auto simp: peek_def)

lemma raw_chars_length: "length (snd (raw_chars s)) \<le> length s"
  by (induction s rule: raw_chars.induct) auto

lemma parse_raw_string_length:
  assumes "parse_raw_string s = Inr (x, r)"
  shows "length r < length s"
proof -
  obtain r0 where r0: "expect quote s = Inr r0" "expect quote (snd (raw_chars r0)) = Inr r"
    using assms by (auto simp: parse_raw_string_def split: sum.splits)
  have "length r < length (snd (raw_chars r0))" by (rule expect_length [OF r0(2)])
  also have "\<dots> \<le> length r0" by (rule raw_chars_length)
  also have "\<dots> < length s" by (rule expect_length [OF r0(1)])
  finally show ?thesis .
qed

lemma parse_raw_number_length: "parse_raw_number s = Inr (x, r) \<Longrightarrow> length r \<le> length s"
  by (auto simp: parse_raw_number_def length_dropWhile_le split: if_splits)

lemma parse_value_length:
  assumes "parse_value s = Inr (x, r)"
  shows "length r \<le> length s"
proof -
  obtain c r0 where r0: "peek (skip_ws s) = Inr (c, r0)"
    "parse_raw_string r0 = Inr (x, r) \<or> parse_raw_number r0 = Inr (x, r)"
    using assms by (auto simp: parse_value_def split: sum.splits if_splits)
  have "length r \<le> length r0" using r0(2) parse_raw_string_length parse_raw_number_length by fastforce
  also have "\<dots> \<le> length s" using peek_length [OF r0(1)] skip_ws_length [of s] by linarith
  finally show ?thesis .
qed

lemma parse_member_length:
  assumes "parse_member s = Inr (kv, r)"
  shows "length r < length s"
proof -
  obtain k v r0 r1 where r: "parse_raw_string (skip_ws s) = Inr (k, r0)" "expect (CHR '':'') (skip_ws r0) = Inr r1"
    "parse_value r1 = Inr (v, r)"
    using assms by (auto simp: parse_member_def split: sum.splits)
  show ?thesis
    using parse_raw_string_length [OF r(1)] expect_length [OF r(2)] parse_value_length [OF r(3)]
      skip_ws_length [of s] skip_ws_length [of r0] by linarith
qed

text \<open>The loop over the members; a repeated key overwrites, as \<open>fields[key] = value\<close> does.\<close>

function parse_members :: "(string \<rightharpoonup> string) \<Rightarrow> string \<Rightarrow> (string \<rightharpoonup> string) parsed" where
  "parse_members members s =
     (case parse_member s of
        Inl e \<Rightarrow> Inl e
      | Inr ((key, val), r) \<Rightarrow>
          (case peek (skip_ws r) of
             Inl e \<Rightarrow> Inl e
           | Inr (c, r1) \<Rightarrow>
               if c = CHR '','' then parse_members (members(key \<mapsto> val)) (tl r1)
               else (case expect (CHR ''}'') r1 of
                       Inl e \<Rightarrow> Inl e
                     | Inr r2 \<Rightarrow> Inr (members(key \<mapsto> val), r2))))"
  by pat_completeness auto

termination
proof (relation "measure (\<lambda>(members, s). length s)")
  fix members :: "string \<rightharpoonup> string" and s b a ba key val b' aa r1
  assume "parse_member s = Inr b" "(a, ba) = b" "(key, val) = a" "peek (skip_ws ba) = Inr b'" "(aa, r1) = b'"
  then show "((members(key \<mapsto> val), tl r1), members, s) \<in> measure (\<lambda>(members, s). length s)"
    using parse_member_length [of s a ba] peek_length [of "skip_ws ba" aa r1] skip_ws_length [of ba] by auto
qed simp

declare parse_members.simps [simp del]

definition parse_object :: "string \<Rightarrow> (string \<rightharpoonup> string) parsed" where
  "parse_object s =
     (case expect (CHR ''{'') s of
        Inl e \<Rightarrow> Inl e
      | Inr r \<Rightarrow>
          (case peek r of
             Inl e \<Rightarrow> Inl e
           | Inr (c, r1) \<Rightarrow>
               if c = CHR ''}'' then Inr (Map.empty, tl r1) else parse_members Map.empty r1))"

section \<open>Decoding\<close>

definition require :: "(string \<rightharpoonup> string) \<Rightarrow> string \<Rightarrow> codec_error + string" where
  "require members key = (case members key of None \<Rightarrow> Inl (Missing_Field key) | Some v \<Rightarrow> Inr v)"

definition and_then :: "'e + 'a \<Rightarrow> ('a \<Rightarrow> 'e + 'b) \<Rightarrow> 'e + 'b" where
  "and_then r f = (case r of Inl e \<Rightarrow> Inl e | Inr x \<Rightarrow> f x)"

lemma and_then_simps [simp]: "and_then (Inl e) f = Inl e" "and_then (Inr x) f = f x"
  by (simp_all add: and_then_def)

definition number_of :: "(string \<Rightarrow> number_error + 'a) \<Rightarrow> string \<Rightarrow> codec_error + 'a" where
  "number_of conv text = map_sum Bad_Number id (conv text)"

definition enum_of :: "(string \<Rightarrow> string + 'a) \<Rightarrow> string \<Rightarrow> codec_error + 'a" where
  "enum_of conv text = map_sum Bad_Enum id (conv text)"

definition decode_order :: "(string \<rightharpoonup> string) \<Rightarrow> codec_error + order" where
  "decode_order members =
     and_then (require members ''order_id'') (\<lambda>order_id.
     and_then (require members ''account_id'') (\<lambda>account_id.
     and_then (require members ''instrument_id'') (\<lambda>instrument.
     and_then (and_then (require members ''side'') (enum_of side_from_string)) (\<lambda>side.
     and_then (and_then (require members ''price'') (number_of stod)) (\<lambda>price.
     and_then (and_then (require members ''qty'') (number_of stoll)) (\<lambda>qty.
     and_then (and_then (require members ''order_type'') (enum_of order_type_from_string)) (\<lambda>order_type.
     and_then (and_then (require members ''timestamp_ns'') (number_of stoll)) (\<lambda>timestamp_ns.
     and_then (and_then (require members ''status'') (enum_of order_status_from_string)) (\<lambda>status.
     and_then (require members ''venue'') (\<lambda>venue.
     and_then (require members ''orig_order_id'') (\<lambda>orig_order_id.
     Inr \<lparr>o_order_id = order_id, o_account_id = account_id, o_instrument_id = instrument, o_side = side,
          o_price = price, o_qty = qty, o_order_type = order_type, o_timestamp_ns = timestamp_ns,
          o_status = status, o_venue = venue, o_orig_order_id = orig_order_id\<rparr>)))))))))))"

definition decode_execution :: "(string \<rightharpoonup> string) \<Rightarrow> codec_error + execution" where
  "decode_execution members =
     and_then (require members ''trade_id'') (\<lambda>trade_id.
     and_then (require members ''order_id'') (\<lambda>order_id.
     and_then (require members ''account_id'') (\<lambda>account_id.
     and_then (require members ''instrument_id'') (\<lambda>instrument.
     and_then (and_then (require members ''side'') (enum_of side_from_string)) (\<lambda>side.
     and_then (and_then (require members ''price'') (number_of stod)) (\<lambda>price.
     and_then (and_then (require members ''qty'') (number_of stoll)) (\<lambda>qty.
     and_then (and_then (require members ''timestamp_ns'') (number_of stoll)) (\<lambda>timestamp_ns.
     and_then (require members ''counterparty_account_id'') (\<lambda>counterparty.
     and_then (require members ''venue'') (\<lambda>venue.
     Inr \<lparr>x_trade_id = trade_id, x_order_id = order_id, x_account_id = account_id,
          x_instrument_id = instrument, x_side = side, x_price = price, x_qty = qty,
          x_timestamp_ns = timestamp_ns, x_counterparty_account_id = counterparty,
          x_venue = venue\<rparr>))))))))))"

definition decode :: "string \<Rightarrow> codec_error + event" where
  "decode json =
     and_then (parse_object json) (\<lambda>(members, _).
     and_then (require members ''type'') (\<lambda>type.
       if type = ''order'' then map_sum id OrderEvent (decode_order members)
       else if type = ''execution'' then map_sum id ExecutionEvent (decode_execution members)
       else Inl (Unrecognized_Type type)))"

section \<open>Reading back what was written\<close>

lemma not_space_special [simp]:
  "\<not> is_space quote" "\<not> is_space (CHR '':'')" "\<not> is_space (CHR '','')" "\<not> is_space (CHR ''}'')"
  "\<not> is_space (CHR ''{'')"
  by (simp_all add: is_space_def quote_def)

lemma skip_ws_Cons [simp]: "\<not> is_space c \<Longrightarrow> skip_ws (c # s) = c # s"
  by (simp add: skip_ws_def)

lemma expect_Cons [simp]: "\<not> is_space c \<Longrightarrow> expect c (c # s) = Inr s"
  by (simp add: expect_def)

lemma peek_Cons [simp]: "\<not> is_space c \<Longrightarrow> peek (c # s) = Inr (c, c # s)"
  by (simp add: peek_def)

lemma raw_chars_quote [simp]: "raw_chars (quote # t) = ([], quote # t)"
  by (cases t) simp_all

lemma raw_chars_plain: "c \<noteq> quote \<Longrightarrow> c \<noteq> backslash \<Longrightarrow> raw_chars (c # t) = apfst (Cons c) (raw_chars t)"
  by (cases t) simp_all

lemma raw_chars_escape: "raw_chars (escape_json v @ quote # r) = (v, quote # r)"
proof (induction v)
  case (Cons c v)
  have "escape_json (c # v) = escape_char c @ escape_json v" by (simp add: escape_json_def)
  then show ?case
    using Cons.IH by (cases "c = quote \<or> c = backslash \<or> c = newline")
      (auto simp: escape_char_def raw_chars_plain)
qed (simp add: escape_json_def)

lemma parse_raw_string_escape [simp]: "parse_raw_string (quote # escape_json v @ quote # r) = Inr (v, r)"
  by (simp add: parse_raw_string_def raw_chars_escape)

text \<open>Keys need no escaping.\<close>

definition plain :: "string \<Rightarrow> bool" where
  "plain key \<longleftrightarrow> list_all (\<lambda>c. c \<noteq> quote \<and> c \<noteq> backslash \<and> c \<noteq> newline) key"

lemma escape_plain: "plain key \<Longrightarrow> escape_json key = key"
  by (induction key) (auto simp: plain_def escape_json_def escape_char_def)

lemma parse_key [simp]: "plain key \<Longrightarrow> parse_raw_string (quote # key @ quote # r) = Inr (key, r)"
  using parse_raw_string_escape [of key r] by (simp add: escape_plain)

lemma parse_member_string:
  "plain key \<Longrightarrow> parse_member (write_key key @ quote # escape_json v @ quote # r) = Inr ((key, v), r)"
  by (simp add: parse_member_def write_key_def parse_value_def)

lemma number_char_head:
  "number_char c \<Longrightarrow> \<not> is_space c \<and> c \<noteq> quote"
  by (auto simp: number_char_def not_space) (auto simp: is_space_def quote_def is_digit_def digit_of_def)

lemma parse_raw_number_chars:
  assumes "list_all number_char num" and "num \<noteq> []" and "\<not> number_char c"
  shows "parse_raw_number (num @ c # r) = Inr (num, c # r)"
proof -
  have "takeWhile number_char (num @ c # r) = num" "dropWhile number_char (num @ c # r) = c # r"
    using assms(1,3) by (induction num) simp_all
  with assms(2) show ?thesis by (simp add: parse_raw_number_def)
qed

lemma not_number_comma [simp]: "\<not> number_char (CHR '','')"
  by (simp add: number_char_def is_digit_def digit_of_def)

lemma parse_member_number:
  assumes "plain key" and "list_all number_char num" and "num \<noteq> []"
  shows "parse_member (write_key key @ num @ CHR '','' # r) = Inr ((key, num), CHR '','' # r)"
proof -
  obtain c t where num: "num = c # t" "number_char c" using assms(2,3) by (cases num) auto
  have "parse_raw_number (num @ CHR '','' # r) = Inr (num, CHR '','' # r)"
    using parse_raw_number_chars [OF assms(2,3)] by simp
  with num number_char_head [OF num(2)] assms(1) show ?thesis
    by (simp add: parse_member_def write_key_def parse_value_def)
qed

lemma parse_string_field:
  "plain key \<Longrightarrow> parse_members m (write_string_field key v True @ r) = parse_members (m(key \<mapsto> v)) r"
  by (subst parse_members.simps) (simp add: write_string_field_def parse_member_string)

lemma parse_number_field:
  "plain key \<Longrightarrow> list_all number_char num \<Longrightarrow> num \<noteq> [] \<Longrightarrow>
   parse_members m (write_number_field key num @ r) = parse_members (m(key \<mapsto> num)) r"
  by (subst parse_members.simps) (simp add: write_number_field_def parse_member_number)

lemma parse_last_field:
  "plain key \<Longrightarrow> parse_members m (write_string_field key v False @ ''}'') = Inr (m(key \<mapsto> v), [])"
  by (subst parse_members.simps) (simp add: write_string_field_def parse_member_string)

lemma parse_object_fields:
  "parse_object (CHR ''{'' # write_string_field key v comma @ r) =
   parse_members Map.empty (write_string_field key v comma @ r)"
proof -
  have "quote \<noteq> CHR ''}''" by (simp add: quote_def)
  then show ?thesis by (simp add: parse_object_def write_string_field_def write_key_def)
qed

lemma plain_keys [simp]:
  "plain ''type''" "plain ''order_id''" "plain ''trade_id''" "plain ''account_id''" "plain ''instrument_id''"
  "plain ''side''" "plain ''price''" "plain ''qty''" "plain ''order_type''" "plain ''timestamp_ns''"
  "plain ''status''" "plain ''venue''" "plain ''orig_order_id''" "plain ''counterparty_account_id''"
  by (simp_all add: plain_def quote_def backslash_def newline_def)

lemmas parse_fields = parse_string_field parse_number_field parse_last_field parse_object_fields
  number_chars_show_g number_chars_show_int

text \<open>The events whose numbers are in range; the strings are arbitrary.\<close>

definition in_int64 :: "int \<Rightarrow> bool" where
  "in_int64 n \<longleftrightarrow> - (2 ^ 63) \<le> n \<and> n < 2 ^ 63"

fun encodable :: "event \<Rightarrow> bool" where
  "encodable (OrderEvent order) \<longleftrightarrow>
     normal_double (o_price order) \<and> in_int64 (o_qty order) \<and> in_int64 (o_timestamp_ns order)"
| "encodable (ExecutionEvent x) \<longleftrightarrow>
     normal_double (x_price x) \<and> in_int64 (x_qty x) \<and> in_int64 (x_timestamp_ns x)"

lemma decode_encode_order:
  assumes "encodable (OrderEvent order)"
  shows "decode (encode_order order) = Inr (OrderEvent order)"
  using assms unfolding decode_def encode_order_def in_int64_def encodable.simps
  by (simp add: parse_fields decode_order_def require_def enum_of_def number_of_def)

lemma decode_encode_execution:
  assumes "encodable (ExecutionEvent x)"
  shows "decode (encode_execution x) = Inr (ExecutionEvent x)"
  using assms unfolding decode_def encode_execution_def in_int64_def encodable.simps
  by (simp add: parse_fields decode_execution_def require_def enum_of_def number_of_def)

section \<open>The contract of a codec\<close>

text \<open>What a log of encoded events relies on.\<close>

locale codec =
  fixes enc :: "'e \<Rightarrow> string" and dec :: "string \<Rightarrow> 'err + 'e" and writable :: "'e \<Rightarrow> bool"
  assumes dec_enc: "writable e \<Longrightarrow> dec (enc e) = Inr e"
begin

lemma enc_inj: "writable d \<Longrightarrow> writable e \<Longrightarrow> enc d = enc e \<longleftrightarrow> d = e"
  by (metis dec_enc sum.inject(2))

lemma dec_log: "list_all writable es \<Longrightarrow> map dec (map enc es) = map Inr es"
  by (induction es) (simp_all add: dec_enc)

end

interpretation event_codec: codec encode decode encodable
proof
  fix e assume "encodable e"
  then show "decode (encode e) = Inr e"
    using decode_encode_order decode_encode_execution by (cases e) simp_all
qed

text \<open>
  C27: round trip.  Decoding the JSON text of an order or execution gives back exactly that event:
  every character of its strings, quotes, backslashes and newlines included, its price (zero or a normal
  \<open>double\<close>) bit for bit and its 64-bit integers; so different events have different texts.
\<close>

theorem event_roundtrip:
  assumes "encodable e" and "encodable e'"
  shows "decode (encode e) = Inr e \<and> (encode e = encode e' \<longleftrightarrow> e = e')"
  using event_codec.dec_enc [OF assms(1)] event_codec.enc_inj [OF assms] by simp

definition awkward_order :: order where
  "awkward_order = default_order\<lparr>o_order_id := [quote, backslash, CHR ''n'', newline, CHR '',''],
     o_price := rnd64 (1 / 10), o_qty := - (2 ^ 63), o_timestamp_ns := 2 ^ 63 - 1\<rparr>"

lemma awkward_encodable: "encodable (OrderEvent awkward_order)"
proof -
  have v: "rnd64 (1 / 10) = 3602879701896397 / 36028797018963968" by (simp add: float_eval)
  have "is_double (rnd64 (1 / 10))" by (simp add: is_double_def)
  moreover have "pow2 (- 1022) \<le> pow2 (- 4)" "pow2 0 < pow2 1024" by (rule pow2_mono pow2_strict_mono, simp)+
  ultimately have "normal_double (rnd64 (1 / 10))"
    by (auto simp: normal_double_def v pow2_def)
  then show ?thesis by (simp add: awkward_order_def default_order_def in_int64_def)
qed

theorem event_roundtrip_witness:
  "decode (encode (OrderEvent awkward_order)) = Inr (OrderEvent awkward_order)"
  using event_roundtrip [OF awkward_encodable awkward_encodable] by simp

text \<open>
  The header of the codec promises \<open>std::runtime_error\<close> for malformed input.  The conversions
  it calls throw others.
\<close>

datatype exception_class = Runtime_Error | Invalid_Argument | Out_Of_Range

fun thrown_as :: "codec_error \<Rightarrow> exception_class" where
  "thrown_as (Bad_Enum v) = Invalid_Argument"
| "thrown_as (Bad_Number Invalid_Number) = Invalid_Argument"
| "thrown_as (Bad_Number Number_Out_Of_Range) = Out_Of_Range"
| "thrown_as _ = Runtime_Error"

lemma expect_error: "expect c s = Inl e \<Longrightarrow> thrown_as e = Runtime_Error"
  by (auto simp: expect_def split: list.splits if_splits)

lemma peek_error: "peek s = Inl e \<Longrightarrow> thrown_as e = Runtime_Error"
  by (auto simp: peek_def split: list.splits)

lemma parse_raw_string_error: "parse_raw_string s = Inl e \<Longrightarrow> thrown_as e = Runtime_Error"
  by (auto simp: parse_raw_string_def dest: expect_error split: sum.splits)

lemma parse_value_error: "parse_value s = Inl e \<Longrightarrow> thrown_as e = Runtime_Error"
  by (auto simp: parse_value_def parse_raw_number_def dest: peek_error parse_raw_string_error
      split: sum.splits if_splits)

lemma parse_member_error: "parse_member s = Inl e \<Longrightarrow> thrown_as e = Runtime_Error"
  by (auto simp: parse_member_def dest: parse_raw_string_error expect_error parse_value_error split: sum.splits)

lemma parse_members_error: "parse_members m s = Inl e \<Longrightarrow> thrown_as e = Runtime_Error"
proof (induction m s rule: parse_members.induct)
  case (1 m s)
  show ?case
  proof (cases "parse_member s")
    case (Inl e')
    with "1.prems" show ?thesis by (subst (asm) parse_members.simps) (auto dest: parse_member_error)
  next
    case (Inr b)
    obtain k v r where b: "b = ((k, v), r)" by (metis surj_pair)
    show ?thesis
    proof (cases "peek (skip_ws r)")
      case (Inl e')
      with "1.prems" Inr b show ?thesis by (subst (asm) parse_members.simps) (auto dest: peek_error)
    next
      case F: (Inr c)
      obtain d r1 where c: "c = (d, r1)" by fastforce
      note IH = "1.IH" [OF Inr b [symmetric] refl F c [symmetric]]
      have "parse_members m s = (if d = CHR '','' then parse_members (m(k \<mapsto> v)) (tl r1)
          else case expect (CHR ''}'') r1 of Inl e \<Rightarrow> Inl e | Inr r2 \<Rightarrow> Inr (m(k \<mapsto> v), r2))"
        by (subst parse_members.simps) (simp add: Inr b F c)
      note eq = trans [OF this [symmetric] "1.prems"]
      show ?thesis
      proof (cases "d = CHR '',''")
        case True
        have "parse_members (m(k \<mapsto> v)) (tl r1) = Inl e" using eq unfolding if_P [OF True] .
        then show ?thesis by (rule IH [OF True])
      next
        case False
        then show ?thesis using eq by (auto dest: expect_error split: sum.splits)
      qed
    qed
  qed
qed

lemma parse_object_error: "parse_object s = Inl e \<Longrightarrow> thrown_as e = Runtime_Error"
  by (auto simp: parse_object_def dest: expect_error peek_error parse_members_error split: sum.splits if_splits)

text \<open>
  Errors.  Text that is not a flat object is refused with the documented
  \<open>std::runtime_error\<close>, by a parser that always returns; but an order whose side is neither
  \<open>Buy\<close> nor \<open>Sell\<close> throws \<open>std::invalid_argument\<close>, which is not one.
\<close>

theorem decode_exceptions:
  assumes "parse_object json = Inr (m, r)" and "m ''type'' = Some ''order''"
    and "m ''order_id'' \<noteq> None" and "m ''account_id'' \<noteq> None" and "m ''instrument_id'' \<noteq> None"
    and "m ''side'' = Some v" and "v \<notin> {''Buy'', ''Sell''}"
  shows "map_sum thrown_as id (decode json) = Inl Invalid_Argument \<and>
    (case parse_object other of Inl e \<Rightarrow> map_sum thrown_as id (decode other) = Inl Runtime_Error | Inr _ \<Rightarrow> True)"
proof
  show "map_sum thrown_as id (decode json) = Inl Invalid_Argument"
    using assms by (auto simp: decode_def decode_order_def require_def enum_of_def side_from_string_def)
  show "case parse_object other of Inl e \<Rightarrow> map_sum thrown_as id (decode other) = Inl Runtime_Error | Inr _ \<Rightarrow> True"
    using parse_object_error by (auto simp: decode_def split: sum.split)
qed

theorem decode_exceptions_witness:
  "map_sum thrown_as id (decode (''{'' @ write_string_field ''type'' ''order'' True @
     write_string_field ''order_id'' ''1'' True @ write_string_field ''account_id'' ''A'' True @
     write_string_field ''instrument_id'' ''ES'' True @ write_string_field ''side'' ''buy'' False @ ''}'')) =
   Inl Invalid_Argument"
  by (rule decode_exceptions [where r = "[]" and v = "''buy''" and
        m = "[''type'' \<mapsto> ''order'', ''order_id'' \<mapsto> ''1'', ''account_id'' \<mapsto> ''A'',
          ''instrument_id'' \<mapsto> ''ES'', ''side'' \<mapsto> ''buy'']", THEN conjunct1])
    (simp_all add: parse_fields)

end
