(* ===== verification/Kafka_Log.thy ===== *)
theory Kafka_Log
  imports Event_Codec
begin

text \<open>
  \<open>cpp/ingestion/kafka_producer.cpp\<close> and \<open>kafka_consumer.cpp\<close>: publishing events to a topic and
  replaying it from the beginning.  librdkafka is not modelled: what \<open>produce\<close> and \<open>consume\<close>
  answer is an argument of the operations, and the topic is the list of the payloads produced
  so far.
\<close>

datatype produce_answer = Produced | Queue_Full | Produce_Error string

definition publish :: "produce_answer \<Rightarrow> event \<Rightarrow> string list \<Rightarrow> (string + bool) \<times> string list" where
  "publish answer event topic =
     (let payload = encode event
      in case answer of
           Queue_Full \<Rightarrow> (Inr False, topic)
         | Produce_Error msg \<Rightarrow> (Inl (''KafkaProducer: produce() failed: '' @ msg), topic)
         | Produced \<Rightarrow> (Inr True, topic @ [payload]))"

datatype consume_answer = Message string | Timed_Out | Partition_Eof | Consume_Error string

datatype poll_error = Consume_Failed string | Bad_Payload codec_error

definition poll :: "consume_answer \<Rightarrow> poll_error + event option" where
  "poll answer =
     (case answer of
        Message payload \<Rightarrow> map_sum Bad_Payload Some (decode payload)
      | Timed_Out \<Rightarrow> Inr None
      | Partition_Eof \<Rightarrow> Inr None
      | Consume_Error msg \<Rightarrow> Inl (Consume_Failed (''KafkaReplayConsumer: consume() failed: '' @ msg)))"

text \<open>A topic after some calls of \<open>publish\<close>, and what polling it to its end returns.\<close>

definition publish_all :: "(produce_answer \<times> event) list \<Rightarrow> string list \<Rightarrow> string list" where
  "publish_all calls topic = fold (\<lambda>(answer, event) topic. snd (publish answer event topic)) calls topic"

definition replay_topic :: "string list \<Rightarrow> (poll_error + event option) list" where
  "replay_topic topic = map (\<lambda>payload. poll (Message payload)) topic @ [poll Partition_Eof]"

definition accepted :: "(produce_answer \<times> event) list \<Rightarrow> event list" where
  "accepted calls = map snd (filter (\<lambda>(answer, event). answer = Produced) calls)"

lemma publish_all_topic: "publish_all calls topic = topic @ map encode (accepted calls)"
  by (induction calls arbitrary: topic)
    (auto simp: publish_all_def accepted_def publish_def split: produce_answer.splits)

text \<open>
  Replay.  Polling a topic from its beginning returns exactly the events whose publication was
  accepted, in the order they were published and unchanged, and then reports the end; an event
  that met a full queue is not in it.
\<close>

theorem kafka_replay:
  assumes "list_all (\<lambda>(answer, event). encodable event) calls"
  shows "replay_topic (publish_all calls []) = map (\<lambda>e. Inr (Some e)) (accepted calls) @ [Inr None]"
proof -
  have "list_all encodable (accepted calls)" using assms by (auto simp: accepted_def list_all_iff)
  then have "map decode (map encode (accepted calls)) = map Inr (accepted calls)" by (rule event_codec.dec_log)
  then show ?thesis by (simp add: replay_topic_def publish_all_topic poll_def comp_def)
qed

theorem kafka_replay_witness:
  "replay_topic (publish_all [(Produced, OrderEvent awkward_order), (Queue_Full, OrderEvent awkward_order)] []) =
     [Inr (Some (OrderEvent awkward_order)), Inr None]"
  by (subst kafka_replay) (use awkward_encodable in \<open>simp_all add: accepted_def\<close>)

end
