(* ===== verification/Ml_Client.thy ===== *)
theory Ml_Client
  imports Detector Event_Codec "HOL-Library.Signed_Division"
begin

text \<open>
  \<open>cpp/ml_client/\<close>: the detector that keeps the statistics of a tumbling window per account and
  instrument and submits scoring requests, the worker that has them scored, and the client's JSON.
  The HTTP library is a parameter, the answer to a POST.  \<open>window_features\<close> is an
  \<open>std::unordered_map\<close>, whose iteration order is open: the encoder is given the order in which
  its loop visits the keys.
\<close>

section \<open>The detector\<close>

record ml_anomaly_config =
  mc_window_duration_ns :: int
  mc_min_orders_before_submit :: int
  mc_submit_every_n_orders :: int

definition default_ml_config :: ml_anomaly_config where
  "default_ml_config = \<lparr>mc_window_duration_ns = 60000000000, mc_min_orders_before_submit = 5,
     mc_submit_every_n_orders = 5\<rparr>"

record window_stats =
  ws_window_start_ns :: int
  ws_order_count :: int
  ws_total_qty :: int
  ws_cancel_count :: int

definition empty_window :: window_stats where
  "empty_window = \<lparr>ws_window_start_ns = 0, ws_order_count = 0, ws_total_qty = 0, ws_cancel_count = 0\<rparr>"

record scoring_request =
  sr_account_id :: string
  sr_instrument_id :: string
  sr_window_features :: "string \<rightharpoonup> double"
  sr_timestamp_ns :: int
  sr_book_snapshot_sequence :: int

text \<open>The statistics by key, and the requests handed to the worker so far.\<close>

record ml_detector_state =
  ml_stats_by_key :: "string \<rightharpoonup> window_stats"
  ml_submitted :: "scoring_request list"

definition empty_ml_state :: ml_detector_state where
  "empty_ml_state = \<lparr>ml_stats_by_key = Map.empty, ml_submitted = []\<rparr>"

definition ml_key :: "order \<Rightarrow> string" where
  "ml_key order = o_account_id order @ ''|'' @ o_instrument_id order"

definition stale :: "ml_anomaly_config \<Rightarrow> int \<Rightarrow> window_stats \<Rightarrow> bool" where
  "stale config ts stats \<longleftrightarrow> ws_window_start_ns stats = 0 \<or> ts < ws_window_start_ns stats \<or>
     mc_window_duration_ns config < ts - ws_window_start_ns stats"

definition count_order :: "order \<Rightarrow> window_stats \<Rightarrow> window_stats" where
  "count_order order stats =
     (case o_status order of
        KNew \<Rightarrow> stats\<lparr>ws_order_count := ws_order_count stats + 1,
                      ws_total_qty := ws_total_qty stats + o_qty order\<rparr>
      | KCancelled \<Rightarrow> stats\<lparr>ws_cancel_count := ws_cancel_count stats + 1\<rparr>
      | KReplaced \<Rightarrow> stats)"

definition update_window :: "ml_anomaly_config \<Rightarrow> order \<Rightarrow> window_stats \<Rightarrow> window_stats" where
  "update_window config order stats =
     count_order order
       (if stale config (o_timestamp_ns order) stats
        then empty_window\<lparr>ws_window_start_ns := o_timestamp_ns order\<rparr> else stats)"

definition submits :: "ml_anomaly_config \<Rightarrow> window_stats \<Rightarrow> bool" where
  "submits config stats \<longleftrightarrow> \<not> ws_order_count stats < mc_min_orders_before_submit config \<and>
     ws_order_count stats mod mc_submit_every_n_orders config = 0"

definition window_features :: "ml_anomaly_config \<Rightarrow> window_stats \<Rightarrow> string \<rightharpoonup> double" where
  "window_features config stats =
     (let n = ws_order_count stats;
          window_duration_sec = fdiv (to_double (mc_window_duration_ns config)) 1000000000;
          ratio = (\<lambda>k. if 0 < n then fdiv (to_double k) (to_double n) else 0)
      in [''order_count'' \<mapsto> to_double n,
          ''total_qty'' \<mapsto> to_double (ws_total_qty stats),
          ''avg_qty'' \<mapsto> ratio (ws_total_qty stats),
          ''cancel_ratio'' \<mapsto> ratio (ws_cancel_count stats),
          ''orders_per_second'' \<mapsto> fdiv (to_double n) window_duration_sec])"

definition scoring_request_for :: "ml_anomaly_config \<Rightarrow> order \<Rightarrow> int \<Rightarrow> window_stats \<Rightarrow> scoring_request" where
  "scoring_request_for config order seq_ref stats =
     \<lparr>sr_account_id = o_account_id order, sr_instrument_id = o_instrument_id order,
      sr_window_features = window_features config stats, sr_timestamp_ns = o_timestamp_ns order,
      sr_book_snapshot_sequence = seq_ref\<rparr>"

definition ml_handle_order :: "ml_anomaly_config \<Rightarrow> order \<Rightarrow> int \<Rightarrow> ml_detector_state \<Rightarrow> ml_detector_state" where
  "ml_handle_order config order seq_ref st =
     (let key = ml_key order;
          stats = update_window config order
            (case ml_stats_by_key st key of None \<Rightarrow> empty_window | Some s \<Rightarrow> s);
          st1 = st\<lparr>ml_stats_by_key := (ml_stats_by_key st)(key \<mapsto> stats)\<rparr>
      in if submits config stats
         then st1\<lparr>ml_submitted := ml_submitted st1 @ [scoring_request_for config order seq_ref stats]\<rparr>
         else st1)"

definition ml_detector_name :: string where
  "ml_detector_name = ''MlAnomalyDetector''"

fun ml_evaluate :: "ml_anomaly_config \<Rightarrow> account_registry \<Rightarrow> ml_detector_state evaluation" where
  "ml_evaluate config accounts book (OrderEvent order) st =
     (ml_handle_order config order (sequence_ref book) st, [])"
| "ml_evaluate config accounts book (ExecutionEvent execution) st = (st, [])"

interpretation ml_anomaly: detector "ml_evaluate config accounts" ml_detector_name "\<lambda>_. True"
  for config accounts
proof
  fix s :: ml_detector_state and a book incoming
  assume "a \<in> set (snd (ml_evaluate config accounts book incoming s))"
  then show "conforms ml_detector_name book incoming a" by (cases incoming) simp_all
qed simp

section \<open>The client\<close>

record scoring_result =
  so_anomaly_score :: double
  so_model_version :: string

definition escape_json_string :: "string \<Rightarrow> string" where
  "escape_json_string value = concat (map escape_char value)"

fun write_features :: "(string \<rightharpoonup> double) \<Rightarrow> string list \<Rightarrow> bool \<Rightarrow> string" where
  "write_features features [] first = []"
| "write_features features (key # keys) first =
     (if first then [] else '','') @ quote # escape_json_string key @ [quote, CHR '':''] @
     show_g 17 (case features key of None \<Rightarrow> 0 | Some v \<Rightarrow> v) @ write_features features keys False"

definition encode_scoring_request :: "string list \<Rightarrow> scoring_request \<Rightarrow> string" where
  "encode_scoring_request keys request =
     ''{'' @ write_key ''account_id'' @ quote # escape_json_string (sr_account_id request) @ quote # '','' @
     write_key ''instrument_id'' @ quote # escape_json_string (sr_instrument_id request) @ quote # '','' @
     write_key ''window_features'' @ ''{'' @ write_features (sr_window_features request) keys True @ ''}}''"

text \<open>\<open>std::string::find\<close>: the text after the first occurrence.\<close>

fun after_first :: "string \<Rightarrow> string \<Rightarrow> string option" where
  "after_first needle [] = (if needle = [] then Some [] else None)"
| "after_first needle (c # s) =
     (if take (length needle) (c # s) = needle then Some (drop (length needle) (c # s))
      else after_first needle s)"

definition find_value_start :: "string \<Rightarrow> string \<Rightarrow> string option" where
  "find_value_start body key =
     Option.bind (after_first (quote # key @ [quote]) body) (\<lambda>r.
     Option.bind (after_first '':'' r) (\<lambda>r1. Some (dropWhile is_space r1)))"

definition extract_number_field :: "string \<Rightarrow> string \<Rightarrow> double option" where
  "extract_number_field body key =
     Option.bind (find_value_start body key) (\<lambda>start.
       let num = takeWhile number_char start
       in if num = [] then None else case stod num of Inl _ \<Rightarrow> None | Inr v \<Rightarrow> Some v)"

definition extract_string_field :: "string \<Rightarrow> string \<Rightarrow> string option" where
  "extract_string_field body key =
     Option.bind (find_value_start body key) (\<lambda>start.
       case start of
         [] \<Rightarrow> None
       | c # r \<Rightarrow>
           if c \<noteq> quote then None
           else let (result, rest) = raw_chars r in if rest = [] then None else Some result)"

definition decode_scoring_response :: "string \<Rightarrow> scoring_result option" where
  "decode_scoring_response body =
     (case (extract_number_field body ''anomaly_score'', extract_string_field body ''model_version'') of
        (Some score, Some version) \<Rightarrow> Some \<lparr>so_anomaly_score = score, so_model_version = version\<rparr>
      | _ \<Rightarrow> None)"

datatype http_answer = No_Response | Response int string

definition client_score :: "(string \<Rightarrow> string \<Rightarrow> http_answer) \<Rightarrow> string list \<Rightarrow> scoring_request \<Rightarrow> scoring_result option" where
  "client_score post keys request =
     (case post ''/score'' (encode_scoring_request keys request) of
        No_Response \<Rightarrow> None
      | Response status body \<Rightarrow> if status \<noteq> 200 then None else decode_scoring_response body)"

text \<open>What the constructor makes of the timeouts, in the two units that httplib takes.\<close>

definition to_sec_usec :: "int \<Rightarrow> int \<times> int" where
  "to_sec_usec timeout_ms = (timeout_ms sdiv 1000, (timeout_ms smod 1000) * 1000)"

lemma to_sec_usec_exact: "to_sec_usec timeout_ms = (sec, usec) \<Longrightarrow> sec * 1000000 + usec = timeout_ms * 1000"
  using mult_sdiv_smod_eq [of 1000 timeout_ms] by (auto simp: to_sec_usec_def)

definition health_check :: "(string \<Rightarrow> http_answer) \<Rightarrow> bool" where
  "health_check get = (case get ''/health'' of No_Response \<Rightarrow> False | Response status body \<Rightarrow> status = 200)"

section \<open>The worker\<close>

record ml_worker =
  mw_alert_threshold :: double
  mw_alert_sink :: "alert list option"
  mw_scored :: u64
  mw_alerted :: u64
  mw_failed :: u64

definition new_worker :: "double \<Rightarrow> alert list option \<Rightarrow> ml_worker" where
  "new_worker threshold sink =
     \<lparr>mw_alert_threshold = threshold, mw_alert_sink = sink, mw_scored = 0, mw_alerted = 0, mw_failed = 0\<rparr>"

definition ml_alert :: "scoring_request \<Rightarrow> scoring_result \<Rightarrow> alert" where
  "ml_alert request result =
     \<lparr>al_detector_name = ml_detector_name, al_score = so_anomaly_score result,
      al_instrument_id = sr_instrument_id request, al_account_ids = [sr_account_id request],
      al_order_ids = [], al_window_start_ns = sr_timestamp_ns request,
      al_window_end_ns = sr_timestamp_ns request,
      al_evidence = ''Isolation Forest anomaly_score='' @ to_string_double (so_anomaly_score result) @
        '' model_version='' @ so_model_version result,
      al_model_version = Some (so_model_version result),
      al_book_snapshot_sequence = Some (sr_book_snapshot_sequence request)\<rparr>"

definition worker_process_one :: "scoring_result option \<Rightarrow> scoring_request \<Rightarrow> ml_worker \<Rightarrow> ml_worker" where
  "worker_process_one answer request w =
     (case answer of
        None \<Rightarrow> w\<lparr>mw_failed := mw_failed w + 1\<rparr>
      | Some result \<Rightarrow>
          let w1 = w\<lparr>mw_scored := mw_scored w + 1\<rparr>
          in if so_anomaly_score result < mw_alert_threshold w then w1
             else w1\<lparr>mw_alerted := mw_alerted w + 1,
                     mw_alert_sink := map_option (\<lambda>alerts. alerts @ [ml_alert request result]) (mw_alert_sink w)\<rparr>)"

section \<open>The window, as a list of orders\<close>

text \<open>
  The reference: the orders of the current window of a key, oldest first.  An order starts a new
  window when there is none, or it is earlier than the window's first order or more than the
  duration later; a window that starts at time 0 is not recognised as one.
\<close>

definition window_step :: "ml_anomaly_config \<Rightarrow> order \<Rightarrow> order list \<Rightarrow> order list" where
  "window_step config order w =
     (if w = [] \<or> o_timestamp_ns (hd w) = 0 \<or> o_timestamp_ns order < o_timestamp_ns (hd w) \<or>
         mc_window_duration_ns config < o_timestamp_ns order - o_timestamp_ns (hd w)
      then [order] else w @ [order])"

definition orders_with_key :: "string \<Rightarrow> (order_book \<times> event) list \<Rightarrow> order list" where
  "orders_with_key key evs =
     List.map_filter (\<lambda>(book, e). case e of OrderEvent order \<Rightarrow> if ml_key order = key then Some order else None
                                 | ExecutionEvent x \<Rightarrow> None) evs"

definition current_window :: "ml_anomaly_config \<Rightarrow> string \<Rightarrow> (order_book \<times> event) list \<Rightarrow> order list" where
  "current_window config key evs = fold (window_step config) (orders_with_key key evs) []"

definition with_status :: "order_status \<Rightarrow> order list \<Rightarrow> order list" where
  "with_status status w = filter (\<lambda>order. o_status order = status) w"

definition summary :: "order list \<Rightarrow> window_stats" where
  "summary w = \<lparr>ws_window_start_ns = (if w = [] then 0 else o_timestamp_ns (hd w)),
     ws_order_count = int (length (with_status KNew w)),
     ws_total_qty = sum_list (map o_qty (with_status KNew w)),
     ws_cancel_count = int (length (with_status KCancelled w))\<rparr>"

lemma summary_Nil [simp]: "summary [] = empty_window"
  by (simp add: summary_def empty_window_def with_status_def)

lemma summary_snoc: "w \<noteq> [] \<Longrightarrow> summary (w @ [order]) = count_order order (summary w)"
  by (cases "o_status order") (simp_all add: summary_def count_order_def with_status_def)

lemma summary_single:
  "summary [order] = count_order order (empty_window\<lparr>ws_window_start_ns := o_timestamp_ns order\<rparr>)"
  by (cases "o_status order") (simp_all add: summary_def count_order_def with_status_def empty_window_def)

lemma stale_summary:
  "stale config ts (summary w) \<longleftrightarrow> w = [] \<or> o_timestamp_ns (hd w) = 0 \<or> ts < o_timestamp_ns (hd w) \<or>
     mc_window_duration_ns config < ts - o_timestamp_ns (hd w)"
  by (auto simp: stale_def summary_def)

lemma update_window_step: "update_window config order (summary w) = summary (window_step config order w)"
  by (auto simp: update_window_def stale_summary window_step_def summary_snoc summary_single)

lemma update_window_first: "update_window config order empty_window = summary (window_step config order [])"
  using update_window_step [of config order "[]"] by simp

lemma window_step_nonempty [simp]: "window_step config order w \<noteq> []"
  by (simp add: window_step_def)

lemma current_window_snoc:
  "current_window config key (evs @ [(book, OrderEvent order)]) =
     (if ml_key order = key then window_step config order (current_window config key evs)
      else current_window config key evs)"
  "current_window config key (evs @ [(book, ExecutionEvent x)]) = current_window config key evs"
  by (simp_all add: current_window_def orders_with_key_def map_filter_def)

abbreviation ml_run :: "ml_anomaly_config \<Rightarrow> account_registry \<Rightarrow> (order_book \<times> event) list
    \<Rightarrow> ml_detector_state \<times> alert list" where
  "ml_run config accounts evs \<equiv> run_detector (ml_evaluate config accounts) evs empty_ml_state"

lemma ml_stats_window:
  "ml_stats_by_key (fst (ml_run config accounts evs)) key =
     (let w = current_window config key evs in if w = [] then None else Some (summary w))"
proof (induction evs rule: rev_induct)
  case (snoc be evs)
  obtain book e where be: "be = (book, e)" by fastforce
  show ?case
  proof (cases e)
    case (OrderEvent order)
    have "(case ml_stats_by_key (fst (ml_run config accounts evs)) key of None \<Rightarrow> empty_window | Some s \<Rightarrow> s) =
        summary (current_window config key evs)"
      by (simp add: snoc.IH Let_def)
    then show ?thesis
      using snoc.IH
      by (simp add: be OrderEvent run_detector_snoc ml_handle_order_def Let_def current_window_snoc
          update_window_step update_window_first split: option.splits if_splits)
  qed (use snoc.IH in \<open>simp add: be run_detector_snoc current_window_snoc\<close>)
qed (simp add: empty_ml_state_def current_window_def orders_with_key_def map_filter_def)

lemma current_window_span:
  "order \<in> set (current_window config key evs) \<Longrightarrow>
   let start = o_timestamp_ns (hd (current_window config key evs))
   in start \<le> o_timestamp_ns order \<and> o_timestamp_ns order \<le> start + max 0 (mc_window_duration_ns config)"
proof (induction evs arbitrary: order rule: rev_induct)
  case (snoc be evs)
  obtain book e where be: "be = (book, e)" by fastforce
  show ?case
    using snoc
    by (cases e) (fastforce simp: be current_window_snoc window_step_def Let_def split: if_splits)+
qed (simp add: current_window_def orders_with_key_def map_filter_def)

lemma ml_submitted_snoc:
  "ml_submitted (fst (ml_run config accounts (evs @ [(book, OrderEvent next_order)]))) =
     ml_submitted (fst (ml_run config accounts evs)) @
     (let stats = summary (window_step config next_order (current_window config (ml_key next_order) evs))
      in if submits config stats
         then [scoring_request_for config next_order (sequence_ref book) stats] else [])"
proof -
  have "(case ml_stats_by_key (fst (ml_run config accounts evs)) (ml_key next_order) of
      None \<Rightarrow> empty_window | Some s \<Rightarrow> s) = summary (current_window config (ml_key next_order) evs)"
    by (simp add: ml_stats_window Let_def)
  then show ?thesis by (simp add: run_detector_snoc ml_handle_order_def Let_def update_window_step)
qed

text \<open>
  C35: the statistics behind a scoring request.  After any history, what is kept for an account
  and instrument summarises exactly the orders of its current window: the time of the first, the
  number and total quantity of the New ones and the number of cancellations; every order of that
  window lies within one window duration of the first; and the next order submits the features
  of the window it becomes part of, or nothing.
\<close>

theorem ml_window_exact:
  "(let w = current_window config key evs; st = fst (ml_run config accounts evs)
    in ml_stats_by_key st key = (if w = [] then None else Some (summary w)) \<and>
       list_all (\<lambda>order. o_timestamp_ns (hd w) \<le> o_timestamp_ns order \<and>
         o_timestamp_ns order \<le> o_timestamp_ns (hd w) + max 0 (mc_window_duration_ns config)) w) \<and>
   ml_submitted (fst (ml_run config accounts (evs @ [(book, OrderEvent next_order)]))) =
     ml_submitted (fst (ml_run config accounts evs)) @
     (let stats = summary (window_step config next_order (current_window config (ml_key next_order) evs))
      in if submits config stats
         then [scoring_request_for config next_order (sequence_ref book) stats] else [])"
proof
  show "let w = current_window config key evs; st = fst (ml_run config accounts evs)
    in ml_stats_by_key st key = (if w = [] then None else Some (summary w)) \<and>
       list_all (\<lambda>order. o_timestamp_ns (hd w) \<le> o_timestamp_ns order \<and>
         o_timestamp_ns order \<le> o_timestamp_ns (hd w) + max 0 (mc_window_duration_ns config)) w"
    using ml_stats_window [of config accounts evs key] current_window_span [of _ config key evs]
    by (auto simp: Let_def list_all_iff)
qed (rule ml_submitted_snoc)

section \<open>The worker's books\<close>

definition worker_run :: "(scoring_request \<Rightarrow> scoring_result option) \<Rightarrow> scoring_request list \<Rightarrow> ml_worker \<Rightarrow> ml_worker" where
  "worker_run score requests w = fold (\<lambda>r w. worker_process_one (score r) r w) requests w"

definition alerting :: "double \<Rightarrow> scoring_result option \<Rightarrow> bool" where
  "alerting threshold answer = (case answer of None \<Rightarrow> False | Some r \<Rightarrow> threshold \<le> so_anomaly_score r)"

lemma worker_run_snoc:
  "worker_run score (requests @ [r]) w = worker_process_one (score r) r (worker_run score requests w)"
  by (simp add: worker_run_def)

text \<open>
  The worker fails open and loses nothing.  Whatever the service answers, after any requests
  the failed and scored counters together count them all, the alerted counter those whose score
  reached the threshold, and the sink holds one alert for each of these, in order, and nothing
  else; a request without an answer changes nothing but the failed counter.
\<close>

theorem ml_worker_accounting:
  "let w = worker_run score requests (new_worker threshold (Some []));
       hits = filter (\<lambda>r. alerting threshold (score r)) requests
   in mw_scored w + mw_failed w = of_nat (length requests) \<and>
      mw_failed w = of_nat (length (filter (\<lambda>r. score r = None) requests)) \<and>
      mw_alerted w = of_nat (length hits) \<and>
      mw_alert_sink w = Some (map (\<lambda>r. ml_alert r (the (score r))) hits)"
proof -
  define P where "P = (\<lambda>requests (w :: ml_worker). mw_alert_threshold w = threshold \<and>
    mw_scored w + mw_failed w = of_nat (length requests) \<and>
    mw_failed w = of_nat (length (filter (\<lambda>r. score r = None) requests)) \<and>
    mw_alerted w = of_nat (length (filter (\<lambda>r. alerting threshold (score r)) requests)) \<and>
    mw_alert_sink w = Some (map (\<lambda>r. ml_alert r (the (score r))) (filter (\<lambda>r. alerting threshold (score r)) requests)))"
  have "P requests (worker_run score requests (new_worker threshold (Some [])))"
  proof (induction requests rule: rev_induct)
    case (snoc r requests)
    then show ?case
      unfolding worker_run_snoc
      by (cases "score r") (auto simp: P_def worker_process_one_def alerting_def Let_def not_less algebra_simps)
  qed (simp add: P_def worker_run_def new_worker_def)
  then show ?thesis unfolding P_def Let_def by blast
qed

text \<open>
  Submissions are not periodic.  The order count of the window, which decides whether an
  order submits, does not move on a cancellation or replacement: after an order at which the
  window submits, every further one of these in the window submits another request.
\<close>

theorem ml_cancel_resubmits:
  assumes "w = current_window config (ml_key ord) evs" and "submits config (summary w)"
    and "o_status ord \<noteq> KNew" and "\<not> stale config (o_timestamp_ns ord) (summary w)"
  shows "ml_submitted (fst (ml_run config accounts (evs @ [(book, OrderEvent ord)]))) =
    ml_submitted (fst (ml_run config accounts evs)) @
    [scoring_request_for config ord (sequence_ref book) (summary (w @ [ord]))]"
proof -
  have w: "w \<noteq> []" "window_step config ord w = w @ [ord]"
    using assms(4) by (auto simp: stale_summary window_step_def)
  have "submits config (summary (w @ [ord]))"
    using assms(2,3) summary_snoc [OF w(1)] by (cases "o_status ord") (simp_all add: submits_def count_order_def)
  then show ?thesis unfolding ml_submitted_snoc using w(2) by (simp add: Let_def flip: assms(1))
qed

definition ml_order :: "order_status \<Rightarrow> int \<Rightarrow> order" where
  "ml_order status ts = default_order\<lparr>o_account_id := ''A'', o_instrument_id := ''ES'', o_qty := 1,
     o_status := status, o_timestamp_ns := ts\<rparr>"

theorem ml_cancel_resubmits_witness:
  "let evs = map (\<lambda>ts. (empty_book ''ES'', OrderEvent (ml_order KNew ts))) [1, 2, 3, 4, 5];
       cancel_event = (empty_book ''ES'', OrderEvent (ml_order KCancelled 6))
   in length (ml_submitted (fst (ml_run default_ml_config empty_registry (evs @ [cancel_event])))) =
      Suc (length (ml_submitted (fst (ml_run default_ml_config empty_registry evs))))"
proof -
  let ?evs = "map (\<lambda>ts. (empty_book ''ES'', OrderEvent (ml_order KNew ts))) [1, 2, 3, 4, 5]"
  have w: "current_window default_ml_config (ml_key (ml_order KCancelled 6)) ?evs = map (ml_order KNew) [1, 2, 3, 4, 5]"
    by (simp add: current_window_def orders_with_key_def map_filter_def ml_key_def ml_order_def
        default_order_def default_ml_config_def window_step_def)
  show ?thesis
    using ml_cancel_resubmits [OF w [symmetric], of empty_registry "empty_book ''ES''"]
    by (simp add: submits_def summary_def stale_def with_status_def default_ml_config_def ml_order_def
        default_order_def Let_def)
qed

section \<open>Reading the service's answer\<close>

lemma after_first_skip:
  assumes "c \<notin> set pre"
  shows "after_first (c # needle) (pre @ s) = after_first (c # needle) s"
  using assms by (induction pre) auto

lemma after_first_here: "after_first needle (needle @ s) = Some s"
proof (cases "needle @ s")
  case (Cons a list)
  then have "take (length needle) (a # list) = needle" "drop (length needle) (a # list) = s"
    by (metis append_eq_conv_conj)+
  with Cons show ?thesis by simp
qed simp

lemma number_char_not_quote: "list_all number_char num \<Longrightarrow> quote \<notin> set num"
  using number_char_head by (auto simp: list_all_iff)

text \<open>The body the service sends: \<open>{"anomaly_score":\<dots>,"model_version":"\<dots>"}\<close>.\<close>

definition service_body :: "string \<Rightarrow> string \<Rightarrow> string" where
  "service_body num version =
     ''{'' @ write_number_field ''anomaly_score'' num @ write_string_field ''model_version'' version False @ ''}''"

lemma find_score:
  "find_value_start (service_body num version) ''anomaly_score'' =
     Some (dropWhile is_space (num @ '','' @ write_string_field ''model_version'' version False @ ''}''))"
proof -
  have "after_first (quote # ''anomaly_score'' @ [quote]) (service_body num version) =
      Some ('':'' @ num @ '','' @ write_string_field ''model_version'' version False @ ''}'')"
    using after_first_skip [of quote "''{''" "''anomaly_score'' @ [quote]"
        "quote # ''anomaly_score'' @ quote # '':'' @ num @ '','' @ write_string_field ''model_version'' version False @ ''}''"]
      after_first_here [of "quote # ''anomaly_score'' @ [quote]"
        "'':'' @ num @ '','' @ write_string_field ''model_version'' version False @ ''}''"]
    by (simp add: service_body_def write_number_field_def write_key_def quote_def)
  then show ?thesis by (simp add: find_value_start_def)
qed

lemma find_version:
  assumes "quote \<notin> set num"
  shows "find_value_start (service_body num version) ''model_version'' =
     Some (quote # escape_json version @ quote # ''}'')"
proof -
  let ?tail = "'':'' @ quote # escape_json version @ quote # ''}''"
  have "service_body num version = ''{'' @ (quote # ''anomaly_score'') @ (quote # '':'' @ num @ '','') @
      quote # ''model_version'' @ quote # ?tail"
    by (simp add: service_body_def write_number_field_def write_string_field_def write_key_def)
  moreover have "after_first (quote # ''model_version'' @ [quote]) \<dots> = Some ?tail"
  proof -
    have skip: "after_first (quote # ''model_version'' @ [quote]) (quote # c # pre @ s) =
        after_first (quote # ''model_version'' @ [quote]) s"
      if "c \<noteq> CHR ''m''" "quote \<notin> set (c # pre)" for c pre s
      using that after_first_skip [of quote "c # pre" "''model_version'' @ [quote]" s] by simp
    show ?thesis
      using skip [of "CHR ''a''" "''nomaly_score''"] skip [of "CHR '':''" "num @ '',''"] assms
        after_first_here [of "quote # ''model_version'' @ [quote]" ?tail]
        after_first_skip [of quote "''{''" "''model_version'' @ [quote]"]
      by (simp add: quote_def)
  qed
  ultimately show ?thesis by (simp add: find_value_start_def)
qed

text \<open>
  The client reads what the service writes: any score text that \<open>std::stod\<close> accepts and any
  model version, quotes, backslashes and newlines included, come back from the response body.
\<close>

theorem ml_response_roundtrip:
  assumes "list_all number_char num" and "stod num = Inr x"
  shows "decode_scoring_response (service_body num version) =
    Some \<lparr>so_anomaly_score = x, so_model_version = version\<rparr>"
proof -
  have ne: "num \<noteq> []" using assms(2) by (auto simp: stod_def scan_sign_def scan_fraction_def)
  obtain c t where ct: "num = c # t" "number_char c" using ne assms(1) by (cases num) auto
  have tw: "takeWhile number_char (num @ CHR '','' # r) = num" for r
    using assms(1) by (induction num) simp_all
  have "extract_number_field (service_body num version) ''anomaly_score'' = Some x"
    using tw ct number_char_head [OF ct(2)] assms(2)
    by (simp add: extract_number_field_def find_score Let_def)
  moreover have "extract_string_field (service_body num version) ''model_version'' = Some version"
    using find_version [OF number_char_not_quote [OF assms(1)]]
    by (simp add: extract_string_field_def raw_chars_escape)
  ultimately show ?thesis by (simp add: decode_scoring_response_def)
qed

theorem ml_response_roundtrip_witness:
  "decode_scoring_response (service_body (show_g 17 0) [quote, backslash, newline]) =
     Some \<lparr>so_anomaly_score = 0, so_model_version = [quote, backslash, newline]\<rparr>"
  by (rule ml_response_roundtrip)
    (simp_all add: number_chars_show_g normal_double_def is_double_def)

end
