(* ===== verification/Ring_Queue.thy ===== *)
theory Ring_Queue
  imports Ring_Buffer
begin

text \<open>
  The ring buffer as a queue: what one call of \<open>push\<close> or \<open>pop\<close> does when the other thread is
  between calls.  The interface is the locale \<open>drop_oldest_queue\<close>; the buffer of
  \<open>Ring_Buffer\<close>, each call run step by step to its end, implements it as long as fewer than
  \<open>2^64\<close> positions have been used.
\<close>

section \<open>The interface\<close>

locale drop_oldest_queue =
  fixes push :: "'a \<Rightarrow> 'q \<Rightarrow> 'q" and pop :: "'q \<Rightarrow> 'q \<times> 'a option"
    and contents :: "'q \<Rightarrow> 'a list" and drops pushes :: "'q \<Rightarrow> nat"
    and invar :: "'q \<Rightarrow> bool" and capacity limit :: nat
  assumes push_contents: "invar q \<Longrightarrow> pushes q < limit \<Longrightarrow>
      contents (push x q) = (if length (contents q) = capacity then tl (contents q) else contents q) @ [x]"
    and push_drops: "invar q \<Longrightarrow> pushes q < limit \<Longrightarrow>
      drops (push x q) = drops q + (if length (contents q) = capacity then 1 else 0)"
    and push_pushes: "invar q \<Longrightarrow> pushes q < limit \<Longrightarrow> pushes (push x q) = Suc (pushes q)"
    and push_invar: "invar q \<Longrightarrow> pushes q < limit \<Longrightarrow> invar (push x q)"
    and pop_contents: "invar q \<Longrightarrow> contents (fst (pop q)) = tl (contents q)"
    and pop_result: "invar q \<Longrightarrow> snd (pop q) = (case contents q of [] \<Rightarrow> None | x # _ \<Rightarrow> Some x)"
    and pop_drops: "invar q \<Longrightarrow> drops (fst (pop q)) = drops q"
    and pop_pushes: "invar q \<Longrightarrow> pushes (fst (pop q)) = pushes q"
    and pop_invar: "invar q \<Longrightarrow> invar (fst (pop q))"
    and capacity_pos: "invar q \<Longrightarrow> 0 < capacity"
begin

lemma pop_empty: "invar q \<Longrightarrow> snd (pop q) = None \<longleftrightarrow> contents q = []"
  by (simp add: pop_result split: list.split)

lemma pop_some: "invar q \<Longrightarrow> snd (pop q) = Some x \<Longrightarrow> contents q = x # contents (fst (pop q))"
  by (simp add: pop_result pop_contents split: list.splits)

end

section \<open>Calls that run alone\<close>

definition call_push :: "'a \<Rightarrow> 'a system \<Rightarrow> 'a system" where
  "call_push item s = s\<lparr>sy_producer := P_Check (rb_tail (sy_ring s)) item False\<rparr>"

definition call_pop :: "'a system \<Rightarrow> 'a system" where
  "call_pop s = s\<lparr>sy_consumer := K_Claim Load_Head\<rparr>"

text \<open>A call takes at most eleven steps, or six; a thread between calls stays there.\<close>

definition push_alone :: "'a \<Rightarrow> 'a system \<Rightarrow> 'a system" where
  "push_alone item s = (producer_turn False ^^ 11) (call_push item s)"

definition pop_alone :: "'a system \<Rightarrow> 'a system \<times> 'a option" where
  "pop_alone s =
     (let s' = (consumer_turn False ^^ 6) (call_pop s)
      in (s', case drop (length (sy_popped s)) (sy_popped s') of [] \<Rightarrow> None | x # _ \<Rightarrow> Some x))"

definition ring_contents :: "'a system \<Rightarrow> 'a list" where
  "ring_contents s = drop (length (sy_owners s)) (sy_published s)"

definition ring_drops :: "'a system \<Rightarrow> nat" where
  "ring_drops s = length (filter id (sy_owners s))"

definition ring_pushes :: "'a system \<Rightarrow> nat" where
  "ring_pushes s = length (sy_published s)"

definition quiet :: "nat \<Rightarrow> 'a system \<Rightarrow> bool" where
  "quiet C s \<longleftrightarrow> system_inv C s \<and> sy_producer s = P_Idle \<and> sy_consumer s = K_Idle \<and>
     length (sy_published s) + C < 2 ^ 64"

lemma quietD:
  assumes "quiet C s"
  shows "ring_inv (sy_ring s) C (sy_published s) (sy_owners s) {} {}"
    and "sy_producer s = P_Idle" and "sy_consumer s = K_Idle"
    and "rb_tail (sy_ring s) = of_nat (length (sy_published s))"
    and "rb_head (sy_ring s) = of_nat (length (sy_owners s))"
    and "length (sy_owners s) \<le> length (sy_published s)" "length (sy_published s) \<le> length (sy_owners s) + C"
    and "taken False (sy_published s) (sy_owners s) = sy_popped s"
    and "length (sy_published s) + C < 2 ^ 64"
proof -
  have q: "system_inv C s" "sy_producer s = P_Idle" "sy_consumer s = K_Idle" "length (sy_published s) + C < 2 ^ 64"
    using assms by (simp_all add: quiet_def)
  show i: "ring_inv (sy_ring s) C (sy_published s) (sy_owners s) {} {}" using system_invD(1) [OF q(1)] q by simp
  show "sy_producer s = P_Idle" "sy_consumer s = K_Idle" "length (sy_published s) + C < 2 ^ 64" by (fact q)+
  show "rb_tail (sy_ring s) = of_nat (length (sy_published s))" using system_invD(4) [OF q(1)] q by simp
  show "rb_head (sy_ring s) = of_nat (length (sy_owners s))" "length (sy_owners s) \<le> length (sy_published s)"
    "length (sy_published s) \<le> length (sy_owners s) + C" using ring_invD(2-4) [OF i] by simp_all
  show "taken False (sy_published s) (sy_owners s) = sy_popped s" using system_invD(6) [OF q(1)] q by simp
qed

lemma ring_contents_length: "quiet C s \<Longrightarrow> length (ring_contents s) = length (sy_published s) - length (sy_owners s)"
  by (simp add: ring_contents_def)

lemma ring_full: "quiet C s \<Longrightarrow> length (ring_contents s) = C \<longleftrightarrow> length (sy_published s) = length (sy_owners s) + C"
  using quietD(6,7) [of C s] by (auto simp: ring_contents_def)

text \<open>The drops of the interface are the count that \<open>dropped_count\<close> returns.\<close>

lemma length_taken:
  "length owners \<le> length pub \<Longrightarrow> length (taken w pub owners) = length (filter (\<lambda>v. v = w) owners)"
proof (induction owners arbitrary: pub)
  case Nil
  show ?case by (simp add: taken_def)
next
  case (Cons v owners)
  then obtain x pub' where "pub = x # pub'" by (cases pub) auto
  with Cons show ?case by (simp add: taken_def)
qed

lemma ring_drops_counted:
  assumes q: "quiet C s"
  shows "ring_drops s = unat (rb_dropped (sy_ring s))"
proof -
  note D = quietD [OF q]
  have "rb_dropped (sy_ring s) = of_nat (length (taken True (sy_published s) (sy_owners s)))"
    using system_invD(5) q D(2) by (fastforce simp: quiet_def)
  moreover have "length (taken True (sy_published s) (sy_owners s)) = ring_drops s"
    using D(6) by (simp add: length_taken ring_drops_def id_def)
  moreover have "ring_drops s < 2 ^ 64"
    unfolding ring_drops_def using D(6,9) length_filter_le [of id "sy_owners s"] by linarith
  ultimately show ?thesis by simp
qed

text \<open>What a claim reads at the head.\<close>

lemma seq_head_published:
  assumes inv: "ring_inv r C pub owners {} {}" and "length pub + C < 2 ^ 64" and "length owners < length pub"
  shows "seq_at r (of_nat (length owners)) = of_nat (length owners) + 1"
proof -
  let ?h = "length owners"
  have "rb_sequence r ! ((?h + C) mod C) = of_nat (if vacated C ?h {} (?h + C) then ?h + C else ?h + C - C + 1)"
    by (rule ring_invD(8) [OF inv]) (use ring_invD(4) [OF inv] assms(3) in simp_all)
  then have "rb_sequence r ! (?h mod C) = of_nat (Suc ?h)" by (simp add: vacated_def)
  then show ?thesis
    using seq_at_mod [OF ring_invD(1) [OF inv], of ?h] assms(2,3) by (simp add: add.commute)
qed

lemma seq_tail:
  assumes inv: "ring_inv r C pub owners {} {}" and "length pub + C < 2 ^ 64"
  shows "seq_at r (of_nat (length pub)) = of_nat (length pub) \<longleftrightarrow> length pub < length owners + C"
  using seq_vacated [OF assms] ring_invD(4) [OF inv] by (auto simp: vacated_def)

lemma idle_producer_turns: "sy_producer s = P_Idle \<Longrightarrow> (producer_turn sp ^^ n) s = s"
  by (induction n) (simp_all add: producer_turn_def)

lemma idle_consumer_turns: "sy_consumer s = K_Idle \<Longrightarrow> (consumer_turn sp ^^ n) s = s"
  by (induction n) (simp_all add: consumer_turn_def)

lemma producer_turn_grows: "length (sy_published s) \<le> length (sy_published (producer_turn sp s))"
  by (simp add: producer_turn_def Let_def split: prod.split)

lemma producer_turns_inv:
  assumes "system_inv C s" and "length (sy_published ((producer_turn sp ^^ n) s)) + C < 2 ^ 64"
  shows "system_inv C ((producer_turn sp ^^ n) s)"
  using assms
proof (induction n)
  case (Suc n)
  have "length (sy_published ((producer_turn sp ^^ n) s)) + C < 2 ^ 64"
    using Suc.prems(2) producer_turn_grows [of "(producer_turn sp ^^ n) s" sp] by simp
  with Suc show ?case using producer_turn_inv by simp
qed simp

lemma consumer_turns_inv:
  assumes "system_inv C s" and "length (sy_published s) + C < 2 ^ 64"
  shows "system_inv C ((consumer_turn sp ^^ n) s) \<and> sy_published ((consumer_turn sp ^^ n) s) = sy_published s"
  using assms by (induction n) (simp_all add: consumer_turn_inv)

section \<open>Push\<close>

text \<open>Once the cell is free, four steps write, publish and advance the tail.\<close>

lemma push_free_cell:
  assumes "sy_producer s = P_Check pos item d" and "seq_at (sy_ring s) pos = pos"
  shows "sy_producer ((producer_turn False ^^ 4) s) = P_Idle"
    and "sy_consumer ((producer_turn False ^^ 4) s) = sy_consumer s"
    and "sy_published ((producer_turn False ^^ 4) s) = sy_published s @ [item]"
    and "sy_owners ((producer_turn False ^^ 4) s) = sy_owners s"
    and "sy_popped ((producer_turn False ^^ 4) s) = sy_popped s"
  using assms by (simp_all add: numeral_eq_Suc producer_turn_def)

text \<open>A full buffer: seven steps claim the oldest item and count it.\<close>

lemma push_reclaims:
  assumes "sy_producer s = P_Check pos item d" and "seq_at (sy_ring s) pos \<noteq> pos"
    and "seq_at (sy_ring s) (rb_head (sy_ring s)) = rb_head (sy_ring s) + 1"
  shows "sy_producer ((producer_turn False ^^ 7) s) = P_Check pos item True"
    and "sy_consumer ((producer_turn False ^^ 7) s) = sy_consumer s"
    and "sy_published ((producer_turn False ^^ 7) s) = sy_published s"
    and "sy_owners ((producer_turn False ^^ 7) s) = sy_owners s @ [True]"
    and "sy_popped ((producer_turn False ^^ 7) s) = sy_popped s"
  using assms by (simp_all add: numeral_eq_Suc producer_turn_def)

lemma quiet_call_push:
  assumes "quiet C s"
  shows "system_inv C (call_push item s)"
  using assms by (simp add: quiet_def call_push_def call_push_inv)

text \<open>The history after a push alone.\<close>

lemma push_alone_history:
  assumes q: "quiet C s"
  shows "sy_producer (push_alone item s) = P_Idle \<and> sy_consumer (push_alone item s) = K_Idle \<and>
    sy_published (push_alone item s) = sy_published s @ [item] \<and>
    sy_owners (push_alone item s) = sy_owners s @ (if length (ring_contents s) = C then [True] else []) \<and>
    sy_popped (push_alone item s) = sy_popped s"
proof -
  note D = quietD [OF q]
  let ?c = "call_push item s"
  let ?t = "of_nat (length (sy_published s)) :: u64"
  have c: "sy_producer ?c = P_Check ?t item False" "sy_ring ?c = sy_ring s" "sy_consumer ?c = K_Idle"
    "sy_published ?c = sy_published s" "sy_owners ?c = sy_owners s" "sy_popped ?c = sy_popped s"
    using D(3,4) by (simp_all add: call_push_def)
  have free: "seq_at (sy_ring ?c) ?t = ?t \<longleftrightarrow> length (sy_published s) < length (sy_owners s) + C"
    using seq_tail [OF D(1,9)] by (simp add: c(2))
  have split_turns: "(producer_turn False ^^ (m + n)) ?c = (producer_turn False ^^ m) ((producer_turn False ^^ n) ?c)"
    for m n by (simp add: funpow_add)
  show ?thesis
  proof (cases "length (sy_published s) < length (sy_owners s) + C")
    case True
    note P = push_free_cell [OF c(1) free [THEN iffD2, OF True]]
    have "push_alone item s = (producer_turn False ^^ 7) ((producer_turn False ^^ 4) ?c)"
      using split_turns [of 7 4] unfolding push_alone_def by simp
    also have "\<dots> = (producer_turn False ^^ 4) ?c" by (rule idle_producer_turns [OF P(1)])
    finally show ?thesis using P c True ring_full [OF q] by simp
  next
    case False
    then have full: "length (sy_published s) = length (sy_owners s) + C" using D(7) by simp
    have C: "0 < C" using cap_okD(1) [OF ring_invD(1) [OF D(1)]] by simp
    have head: "seq_at (sy_ring ?c) (rb_head (sy_ring ?c)) = rb_head (sy_ring ?c) + 1"
      using seq_head_published [OF D(1,9)] full C D(5) by (simp add: c(2))
    have "seq_at (sy_ring ?c) ?t \<noteq> ?t" using free False by blast
    note P = push_reclaims [OF c(1) this head]
    let ?d = "(producer_turn False ^^ 7) ?c"
    have "system_inv C ?d" by (rule producer_turns_inv [OF quiet_call_push [OF q]]) (use P(3) c D(9) in simp)
    then have "ring_inv (sy_ring ?d) C (sy_published ?d) (sy_owners ?d) {} {}"
      using system_invD(1) P(1,2) c(3) by fastforce
    then have "seq_at (sy_ring ?d) ?t = ?t"
      using seq_tail [of "sy_ring ?d" C "sy_published ?d" "sy_owners ?d"] P(3,4) c full D(9) by simp
    note Q = push_free_cell [OF P(1) this]
    have "push_alone item s = (producer_turn False ^^ 4) ?d"
      using split_turns [of 4 7] unfolding push_alone_def by simp
    then show ?thesis using P Q c full ring_full [OF q] by simp
  qed
qed

lemma push_alone_quiet:
  assumes q: "quiet C s" and "length (sy_published s) + C + 1 < 2 ^ 64"
  shows "quiet C (push_alone item s)"
proof -
  note H = push_alone_history [OF q, of item]
  have "system_inv C (push_alone item s)"
    unfolding push_alone_def
    by (rule producer_turns_inv [OF quiet_call_push [OF q]]) (use H assms(2) in \<open>simp flip: push_alone_def\<close>)
  then show ?thesis using H assms(2) by (simp add: quiet_def)
qed

section \<open>Pop\<close>

lemma pop_takes:
  assumes "sy_consumer s = K_Claim Load_Head"
    and "seq_at (sy_ring s) (rb_head (sy_ring s)) = rb_head (sy_ring s) + 1"
  shows "sy_consumer ((consumer_turn False ^^ 6) s) = K_Idle"
    and "sy_producer ((consumer_turn False ^^ 6) s) = sy_producer s"
    and "sy_owners ((consumer_turn False ^^ 6) s) = sy_owners s @ [False]"
  using assms by (simp_all add: numeral_eq_Suc consumer_turn_def)

lemma pop_finds_nothing:
  assumes "sy_consumer s = K_Claim Load_Head"
    and "seq_at (sy_ring s) (rb_head (sy_ring s)) = rb_head (sy_ring s)"
  shows "(consumer_turn False ^^ 6) s = s\<lparr>sy_consumer := K_Idle\<rparr>"
  using assms by (simp add: numeral_eq_Suc consumer_turn_def)

lemma quiet_call_pop:
  assumes "quiet C s"
  shows "system_inv C (call_pop s)"
  using assms by (simp add: quiet_def call_pop_def call_pop_inv)

lemma pop_alone_history:
  assumes q: "quiet C s"
  shows "quiet C (fst (pop_alone s)) \<and> sy_published (fst (pop_alone s)) = sy_published s \<and>
    sy_owners (fst (pop_alone s)) = sy_owners s @ (if ring_contents s = [] then [] else [False]) \<and>
    snd (pop_alone s) = (case ring_contents s of [] \<Rightarrow> None | x # _ \<Rightarrow> Some x)"
proof -
  note D = quietD [OF q]
  let ?c = "call_pop s" and ?s = "fst (pop_alone s)"
  have c: "sy_consumer ?c = K_Claim Load_Head" "sy_ring ?c = sy_ring s" "sy_producer ?c = P_Idle"
    "sy_published ?c = sy_published s" "sy_owners ?c = sy_owners s" "sy_popped ?c = sy_popped s"
    using D(2) by (simp_all add: call_pop_def)
  have s: "?s = (consumer_turn False ^^ 6) ?c" by (simp add: pop_alone_def Let_def)
  have res: "snd (pop_alone s) = (case drop (length (sy_popped s)) (sy_popped ?s) of [] \<Rightarrow> None | x # _ \<Rightarrow> Some x)"
    by (simp only: pop_alone_def Let_def fst_conv snd_conv)
  have inv: "system_inv C ?s \<and> sy_published ?s = sy_published s"
    using consumer_turns_inv [OF quiet_call_pop [OF q]] D(9) c(4) by (simp add: s)
  show ?thesis
  proof (cases "ring_contents s = []")
    case True
    then have t: "length (sy_published s) = length (sy_owners s)" using D(6) by (simp add: ring_contents_def)
    have C: "0 < C" using cap_okD(1) [OF ring_invD(1) [OF D(1)]] by simp
    have "seq_at (sy_ring ?c) (rb_head (sy_ring ?c)) = rb_head (sy_ring ?c)"
      using seq_tail [OF D(1,9)] t C D(5) by (simp add: c(2))
    note P = pop_finds_nothing [OF c(1) this]
    have "?s = s" unfolding s P using D(3) by (simp add: call_pop_def)
    moreover have "snd (pop_alone s) = None"
      using \<open>?s = s\<close> by (simp add: res)
    ultimately show ?thesis using True q by simp
  next
    case False
    then have lt: "length (sy_owners s) < length (sy_published s)" by (simp add: ring_contents_def)
    have "seq_at (sy_ring ?c) (rb_head (sy_ring ?c)) = rb_head (sy_ring ?c) + 1"
      using seq_head_published [OF D(1,9) lt] D(5) by (simp add: c(2))
    note P = pop_takes [OF c(1) this, folded s]
    have quiet: "quiet C ?s" using inv P c D(9) by (simp add: quiet_def)
    have "sy_popped ?s = taken False (sy_published s) (sy_owners s @ [False])"
      using quietD(8) [OF quiet] inv P(3) c(5) by simp
    also have "\<dots> = sy_popped s @ [sy_published s ! length (sy_owners s)]"
      using taken_claim [OF lt] D(8) by simp
    finally have popped: "sy_popped ?s = sy_popped s @ [sy_published s ! length (sy_owners s)]" .
    have rc: "ring_contents s = sy_published s ! length (sy_owners s) # drop (Suc (length (sy_owners s))) (sy_published s)"
      using Cons_nth_drop_Suc [OF lt] by (simp add: ring_contents_def)
    have "(case ring_contents s of [] \<Rightarrow> None | x # _ \<Rightarrow> Some x) = Some (sy_published s ! length (sy_owners s))"
      unfolding rc by simp
    moreover have "snd (pop_alone s) = Some (sy_published s ! length (sy_owners s))"
      unfolding res popped by simp
    moreover have "sy_owners ?s = sy_owners s @ (if ring_contents s = [] then [] else [False])"
      using P(3) c(5) False by simp
    ultimately show ?thesis using quiet inv by (intro conjI) simp_all
  qed
qed

section \<open>The buffer implements the interface\<close>

lemma push_alone_contents:
  assumes q: "quiet C s"
  shows "ring_contents (push_alone x s) =
      (if length (ring_contents s) = C then tl (ring_contents s) else ring_contents s) @ [x]"
    and "ring_drops (push_alone x s) = ring_drops s + (if length (ring_contents s) = C then 1 else 0)"
    and "ring_pushes (push_alone x s) = Suc (ring_pushes s)"
proof -
  note H = push_alone_history [OF q, of x] and D = quietD [OF q]
  have "0 < C" using cap_okD(1) [OF ring_invD(1) [OF D(1)]] by simp
  then have lt: "length (sy_owners s) < length (sy_published s)" if "length (ring_contents s) = C"
    using that by (simp add: ring_contents_def)
  show "ring_contents (push_alone x s) =
      (if length (ring_contents s) = C then tl (ring_contents s) else ring_contents s) @ [x]"
    using H D(6) lt by (auto simp: ring_contents_def drop_Suc tl_drop)
  show "ring_drops (push_alone x s) = ring_drops s + (if length (ring_contents s) = C then 1 else 0)"
    "ring_pushes (push_alone x s) = Suc (ring_pushes s)"
    using H by (simp_all add: ring_drops_def ring_pushes_def)
qed

lemma pop_alone_contents:
  assumes q: "quiet C s"
  shows "ring_contents (fst (pop_alone s)) = tl (ring_contents s)"
    and "ring_drops (fst (pop_alone s)) = ring_drops s"
    and "ring_pushes (fst (pop_alone s)) = ring_pushes s"
proof -
  note H = pop_alone_history [OF q]
  show "ring_contents (fst (pop_alone s)) = tl (ring_contents s)"
    using H by (auto simp: ring_contents_def drop_Suc tl_drop)
  show "ring_drops (fst (pop_alone s)) = ring_drops s" "ring_pushes (fst (pop_alone s)) = ring_pushes s"
    using H by (simp_all add: ring_drops_def ring_pushes_def)
qed

interpretation ring_queue: drop_oldest_queue push_alone pop_alone ring_contents ring_drops ring_pushes
    "quiet C" C "2 ^ 64 - 1 - C" for C
proof
  fix q :: "'a system" and x
  assume q: "quiet C q"
  show "0 < C" using cap_okD(1) [OF ring_invD(1) [OF quietD(1) [OF q]]] by simp
  show "ring_contents (fst (pop_alone q)) = tl (ring_contents q)" "ring_drops (fst (pop_alone q)) = ring_drops q"
    "ring_pushes (fst (pop_alone q)) = ring_pushes q"
    by (rule pop_alone_contents [OF q])+
  show "snd (pop_alone q) = (case ring_contents q of [] \<Rightarrow> None | x # _ \<Rightarrow> Some x)" "quiet C (fst (pop_alone q))"
    using pop_alone_history [OF q] by blast+
  assume "ring_pushes q < 2 ^ 64 - 1 - C"
  then show "quiet C (push_alone x q)" by (intro push_alone_quiet [OF q]) (simp add: ring_pushes_def)
  show "ring_contents (push_alone x q) =
      (if length (ring_contents q) = C then tl (ring_contents q) else ring_contents q) @ [x]"
    "ring_drops (push_alone x q) = ring_drops q + (if length (ring_contents q) = C then 1 else 0)"
    "ring_pushes (push_alone x q) = Suc (ring_pushes q)"
    by (rule push_alone_contents [OF q])+
qed

lemma start_quiet:
  assumes "new_ring capacity dflt = Some r" and "unat capacity < 2 ^ 63"
  shows "quiet (unat capacity) (start r)"
  using start_inv [OF assms(1)] assms(2) by (simp add: quiet_def start_def)

end
