(* ===== verification/Consumer_Loop.thy ===== *)
theory Consumer_Loop
  imports Ring_Queue
begin

text \<open>
  The loop of \<open>LiveConsumer::run\<close> (\<open>cpp/pipeline/live_consumer.cpp\<close>) and
  \<open>MlScoringWorker::run\<close> (\<open>cpp/ml_client/ml_scoring_worker.cpp\<close>), the same code around two
  handlers: pop and handle until the done flag has been seen and a further pop finds nothing.  A
  producer pushes its items and then raises the flag.  A step is one call on the queue, or one
  read or write of the flag; the calls are atomic here, and \<open>Ring_Buffer\<close> has their
  interleaving.
\<close>

datatype loop_pc = Top | Saw_Empty | Saw_Done | Stopped

record ('a, 'q, 'c) loop_system =
  ls_todo :: "'a list"
  ls_done :: bool
  ls_queue :: 'q
  ls_pc :: loop_pc
  ls_client :: 'c
  ls_handled :: "'a list"

definition pop_and_handle ::
    "('q \<Rightarrow> 'q \<times> 'a option) \<Rightarrow> ('a \<Rightarrow> 'c \<Rightarrow> 'c) \<Rightarrow> loop_pc \<Rightarrow> ('a, 'q, 'c) loop_system \<Rightarrow> ('a, 'q, 'c) loop_system" where
  "pop_and_handle pop handle if_empty s =
     (case pop (ls_queue s) of
        (q, Some x) \<Rightarrow> s\<lparr>ls_queue := q, ls_pc := Top, ls_client := handle x (ls_client s),
                          ls_handled := ls_handled s @ [x]\<rparr>
      | (q, None) \<Rightarrow> s\<lparr>ls_queue := q, ls_pc := if_empty\<rparr>)"

definition loop_turn ::
    "('q \<Rightarrow> 'q \<times> 'a option) \<Rightarrow> ('a \<Rightarrow> 'c \<Rightarrow> 'c) \<Rightarrow> ('a, 'q, 'c) loop_system \<Rightarrow> ('a, 'q, 'c) loop_system" where
  "loop_turn pop handle s =
     (case ls_pc s of
        Top \<Rightarrow> pop_and_handle pop handle Saw_Empty s
      | Saw_Empty \<Rightarrow> s\<lparr>ls_pc := if ls_done s then Saw_Done else Top\<rparr>
      | Saw_Done \<Rightarrow> pop_and_handle pop handle Stopped s
      | Stopped \<Rightarrow> s)"

inductive loop_step ::
    "('a \<Rightarrow> 'q \<Rightarrow> 'q) \<Rightarrow> ('q \<Rightarrow> 'q \<times> 'a option) \<Rightarrow> ('a \<Rightarrow> 'c \<Rightarrow> 'c)
     \<Rightarrow> ('a, 'q, 'c) loop_system \<Rightarrow> ('a, 'q, 'c) loop_system \<Rightarrow> bool"
  for push pop handle where
  produce: "ls_todo s = x # xs \<Longrightarrow>
    loop_step push pop handle s (s\<lparr>ls_todo := xs, ls_queue := push x (ls_queue s)\<rparr>)"
| raise_done: "ls_todo s = [] \<Longrightarrow> loop_step push pop handle s (s\<lparr>ls_done := True\<rparr>)"
| consume: "loop_step push pop handle s (loop_turn pop handle s)"

definition loop_start :: "'a list \<Rightarrow> 'q \<Rightarrow> 'c \<Rightarrow> ('a, 'q, 'c) loop_system" where
  "loop_start input q c =
     \<lparr>ls_todo = input, ls_done = False, ls_queue = q, ls_pc = Top, ls_client = c, ls_handled = []\<rparr>"

context drop_oldest_queue begin

definition loop_inv :: "'a list \<Rightarrow> ('a \<Rightarrow> 'c \<Rightarrow> 'c) \<Rightarrow> 'c \<Rightarrow> ('a, 'q, 'c) loop_system \<Rightarrow> bool" where
  "loop_inv input handle c s \<longleftrightarrow>
     (\<exists>pushed. input = pushed @ ls_todo s \<and> pushes (ls_queue s) = length pushed \<and>
        subseq (ls_handled s @ contents (ls_queue s)) pushed \<and>
        length (ls_handled s) + length (contents (ls_queue s)) + drops (ls_queue s) = length pushed) \<and>
     invar (ls_queue s) \<and> ls_client s = fold handle (ls_handled s) c \<and>
     (ls_done s \<longrightarrow> ls_todo s = []) \<and> (ls_pc s = Saw_Done \<longrightarrow> ls_done s) \<and>
     (ls_pc s = Stopped \<longrightarrow> ls_done s \<and> contents (ls_queue s) = [])"

lemma loop_start_inv:
  assumes "invar q" and "contents q = []" and "drops q = 0" and "pushes q = 0"
  shows "loop_inv input handle c (loop_start input q c)"
  using assms by (simp add: loop_inv_def loop_start_def)

lemma subseq_drop_oldest: "subseq (h @ cs) p \<Longrightarrow> subseq (h @ tl cs @ [x]) (p @ [x])"
proof -
  assume "subseq (h @ cs) p"
  moreover have "subseq (tl cs) cs" by (cases cs) (auto intro: list_emb.list_emb_Cons)
  then have "subseq (h @ tl cs) (h @ cs)" using list_emb_append_mono [of "(=)" h h "tl cs" cs] by simp
  ultimately have "subseq (h @ tl cs) p" using subseq_order.order_trans by blast
  then show ?thesis using list_emb_append_mono [of "(=)" "h @ tl cs" p "[x]" "[x]"] by simp
qed

lemma produce_inv:
  assumes inv: "loop_inv input handle c s" and todo: "ls_todo s = x # xs" and "length input \<le> limit"
  shows "loop_inv input handle c (s\<lparr>ls_todo := xs, ls_queue := push x (ls_queue s)\<rparr>)"
proof -
  let ?q = "ls_queue s"
  obtain p where p: "input = p @ x # xs" "pushes ?q = length p" "subseq (ls_handled s @ contents ?q) p"
    "length (ls_handled s) + length (contents ?q) + drops ?q = length p"
    using inv todo by (auto simp: loop_inv_def)
  have q: "invar ?q" "pushes ?q < limit" using inv p assms(3) by (auto simp: loop_inv_def)
  have cap: "0 < capacity" by (rule capacity_pos [OF q(1)])
  have "subseq (ls_handled s @ contents (push x ?q)) (p @ [x])"
    using subseq_drop_oldest [OF p(3)] list_emb_append_mono [OF p(3), of "[x]" "[x]"] push_contents [OF q] by simp
  moreover have "length (ls_handled s) + length (contents (push x ?q)) + drops (push x ?q) = length (p @ [x])"
    using p(4) cap by (simp add: push_contents [OF q] push_drops [OF q])
  ultimately have "\<exists>p. input = p @ xs \<and> pushes (push x ?q) = length p \<and>
      subseq (ls_handled s @ contents (push x ?q)) p \<and>
      length (ls_handled s) + length (contents (push x ?q)) + drops (push x ?q) = length p"
    using p(1,2) push_pushes [OF q] by (intro exI [of _ "p @ [x]"]) simp
  then show ?thesis using inv push_invar [OF q] todo by (auto simp: loop_inv_def)
qed

lemma pop_and_handle_inv:
  assumes inv: "loop_inv input handle c s" and e: "e = Saw_Empty \<or> e = Stopped \<and> ls_done s"
  shows "loop_inv input handle c (pop_and_handle pop handle e s)"
proof -
  let ?q = "ls_queue s"
  have q: "invar ?q" using inv by (simp add: loop_inv_def)
  obtain q' r where pop: "pop ?q = (q', r)" by fastforce
  have q': "invar q'" "drops q' = drops ?q" "pushes q' = pushes ?q"
    using pop_invar [OF q] pop_drops [OF q] pop_pushes [OF q] by (simp_all add: pop)
  show ?thesis
  proof (cases r)
    case None
    then have "contents ?q = []" "contents q' = []"
      using pop_empty [OF q] pop_contents [OF q] by (simp_all add: pop)
    then show ?thesis using inv q' e None by (auto simp: pop_and_handle_def pop loop_inv_def)
  next
    case (Some x)
    then have "contents ?q = x # contents q'" using pop_some [OF q] by (simp add: pop)
    then show ?thesis using inv q' Some by (auto simp: pop_and_handle_def pop loop_inv_def)
  qed
qed

lemma loop_step_inv:
  assumes "loop_step push pop handle s s'" and inv: "loop_inv input handle c s" and "length input \<le> limit"
  shows "loop_inv input handle c s'"
  using assms(1)
proof cases
  case (produce x xs)
  then show ?thesis using produce_inv [OF inv] assms(3) by simp
next
  case raise_done
  then show ?thesis using inv by (auto simp: loop_inv_def)
next
  case consume
  show ?thesis
  proof (cases "ls_pc s")
    case Top
    then show ?thesis using pop_and_handle_inv [OF inv, of Saw_Empty] by (simp add: consume loop_turn_def)
  next
    case Saw_Done
    then have "ls_done s" using inv by (simp add: loop_inv_def)
    then show ?thesis using Saw_Done pop_and_handle_inv [OF inv, of Stopped] by (simp add: consume loop_turn_def)
  next
    case Saw_Empty
    have "loop_inv input handle c (s\<lparr>ls_pc := v\<rparr>)" if "v = Top \<or> v = Saw_Done \<and> ls_done s" for v
      using inv that unfolding loop_inv_def by auto
    then show ?thesis using Saw_Empty by (simp add: consume loop_turn_def)
  next
    case Stopped
    then show ?thesis using inv by (simp add: consume loop_turn_def)
  qed
qed

lemma loop_reachable_inv:
  assumes "(loop_step push pop handle)\<^sup>*\<^sup>* (loop_start input q c) s" and "length input \<le> limit"
    and "invar q" and "contents q = []" and "drops q = 0" and "pushes q = 0"
  shows "loop_inv input handle c s"
  using assms(1)
proof (induction rule: rtranclp_induct)
  case base
  show ?case by (rule loop_start_inv [OF assms(3-6)])
next
  case (step s s')
  show ?case by (rule loop_step_inv [OF step.hyps(2) step.IH assms(2)])
qed

text \<open>When the loop has stopped, everything pushed has been handled, in order, or dropped.\<close>

lemma loop_stopped:
  assumes "loop_inv input handle c s" and "ls_pc s = Stopped"
  shows "subseq (ls_handled s) input \<and> length (ls_handled s) + drops (ls_queue s) = length input \<and>
    ls_client s = fold handle (ls_handled s) c"
  using assms by (auto simp: loop_inv_def)

text \<open>A buffer with room for the whole input drops nothing.\<close>

lemma loop_step_drops:
  assumes "loop_step push pop handle s s'" and inv: "loop_inv input handle c s"
    and "length input \<le> limit" and "length input \<le> capacity"
  shows "drops (ls_queue s') = drops (ls_queue s)"
  using assms(1)
proof cases
  case (produce x xs)
  obtain p where p: "input = p @ x # xs" "pushes (ls_queue s) = length p"
    "length (ls_handled s) + length (contents (ls_queue s)) + drops (ls_queue s) = length p"
    using inv produce(2) by (auto simp: loop_inv_def)
  have q: "invar (ls_queue s)" "pushes (ls_queue s) < limit" using inv p assms(3) by (auto simp: loop_inv_def)
  have "length (contents (ls_queue s)) < capacity" using p(1,3) assms(4) by simp
  then show ?thesis using produce(1) push_drops [OF q, of x] by simp
next
  case raise_done
  then show ?thesis by simp
next
  case consume
  have "drops (fst (pop (ls_queue s))) = drops (ls_queue s)" using inv pop_drops by (simp add: loop_inv_def)
  then show ?thesis
    by (auto simp: consume loop_turn_def pop_and_handle_def split: loop_pc.split prod.splits option.split)
qed

lemma loop_no_drops:
  assumes run: "(loop_step push pop handle)\<^sup>*\<^sup>* (loop_start input q c) s"
    and len: "length input \<le> limit" "length input \<le> capacity"
    and q: "invar q" "contents q = []" "drops q = 0" "pushes q = 0"
  shows "drops (ls_queue s) = 0"
  using run
proof (induction rule: rtranclp_induct)
  case base
  show ?case by (simp add: loop_start_def q(3))
next
  case (step s s')
  show ?case
    using loop_step_drops [OF step.hyps(2) loop_reachable_inv [OF step.hyps(1) len(1) q] len] step.IH by simp
qed

text \<open>The steps the loop still takes on its own once the flag is up.\<close>

definition turns_left :: "('a, 'q, 'c) loop_system \<Rightarrow> nat" where
  "turns_left s =
     (let n = length (contents (ls_queue s))
      in case ls_pc s of Top \<Rightarrow> n + 3 | Saw_Empty \<Rightarrow> if n = 0 then 2 else n + 4
         | Saw_Done \<Rightarrow> if n = 0 then 1 else n + 3 | Stopped \<Rightarrow> 0)"

lemma loop_turn_progress:
  assumes "invar (ls_queue s)" and "ls_done s"
  shows "invar (ls_queue (loop_turn pop handle s)) \<and> ls_done (loop_turn pop handle s) \<and>
    turns_left (loop_turn pop handle s) = turns_left s - 1"
proof -
  obtain q' r where pop: "pop (ls_queue s) = (q', r)" by fastforce
  show ?thesis
    using assms pop_invar [OF assms(1)] pop_contents [OF assms(1)] pop_result [OF assms(1)]
    by (cases "ls_pc s")
      (auto simp: loop_turn_def pop_and_handle_def pop turns_left_def Let_def split: option.splits list.splits)
qed

lemma loop_terminates:
  assumes "invar (ls_queue s)" and "ls_done s"
  shows "ls_pc ((loop_turn pop handle ^^ turns_left s) s) = Stopped"
proof -
  have "invar (ls_queue ((loop_turn pop handle ^^ n) s)) \<and> ls_done ((loop_turn pop handle ^^ n) s) \<and>
      turns_left ((loop_turn pop handle ^^ n) s) = turns_left s - n" for n
  proof (induction n)
    case (Suc n)
    then show ?case by (simp add: loop_turn_progress)
  qed (use assms in simp)
  then have "turns_left ((loop_turn pop handle ^^ turns_left s) s) = 0" by simp
  then show ?thesis by (auto simp: turns_left_def Let_def split: loop_pc.splits if_splits)
qed

lemma turns_left_bound: "turns_left s \<le> length (contents (ls_queue s)) + 4"
  by (simp add: turns_left_def Let_def split: loop_pc.split)

text \<open>A run in which the producer is fast: it pushes everything, and then the loop empties the queue.\<close>

lemma produce_all:
  assumes "invar q" and "pushes q + length xs \<le> limit"
  shows "(loop_step push pop handle)\<^sup>*\<^sup>* (loop_start xs q c) (loop_start [] (fold push xs q) c) \<and>
    invar (fold push xs q)"
  using assms
proof (induction xs arbitrary: q)
  case (Cons x xs)
  have q: "invar (push x q)" "pushes (push x q) = Suc (pushes q)"
    using Cons.prems push_invar push_pushes by simp_all
  then have run: "(loop_step push pop handle)\<^sup>*\<^sup>* (loop_start xs (push x q) c) (loop_start [] (fold push xs (push x q)) c) \<and>
      invar (fold push xs (push x q))"
    using Cons by simp
  have "loop_step push pop handle (loop_start (x # xs) q c)
      ((loop_start (x # xs) q c)\<lparr>ls_todo := xs, ls_queue := push x (ls_queue (loop_start (x # xs) q c))\<rparr>)"
    by (rule loop_step.produce) (simp add: loop_start_def)
  then have "loop_step push pop handle (loop_start (x # xs) q c) (loop_start xs (push x q) c)"
    by (simp add: loop_start_def)
  then show ?case using run by (auto intro: converse_rtranclp_into_rtranclp)
qed simp

lemma turns_are_steps: "(loop_step push pop handle)\<^sup>*\<^sup>* s ((loop_turn pop handle ^^ n) s)"
  by (induction n) (auto intro: rtranclp.rtrancl_into_rtrancl loop_step.consume)

lemma loop_can_stop:
  assumes "invar q" and "pushes q + length xs \<le> limit"
  shows "\<exists>s. (loop_step push pop handle)\<^sup>*\<^sup>* (loop_start xs q c) s \<and> ls_pc s = Stopped"
proof -
  let ?s = "loop_start [] (fold push xs q) c" and ?step = "loop_step push pop handle"
  have run: "?step\<^sup>*\<^sup>* (loop_start xs q c) ?s" and inv: "invar (fold push xs q)"
    using produce_all [OF assms, where handle = handle and c = c] by blast+
  have "?step ?s (?s\<lparr>ls_done := True\<rparr>)" by (rule loop_step.raise_done) (simp add: loop_start_def)
  then have "?step\<^sup>*\<^sup>* (loop_start xs q c) (?s\<lparr>ls_done := True\<rparr>)" using run by (meson rtranclp.rtrancl_into_rtrancl)
  moreover have "ls_pc ((loop_turn pop handle ^^ turns_left (?s\<lparr>ls_done := True\<rparr>)) (?s\<lparr>ls_done := True\<rparr>)) = Stopped"
    by (rule loop_terminates) (use inv in \<open>simp_all add: loop_start_def\<close>)
  ultimately show ?thesis using turns_are_steps by (meson rtranclp_trans)
qed

end

end
