(* ===== verification/Live_Pipeline.thy ===== *)
theory Live_Pipeline
  imports Book_Properties Wash_Trade Front_Running Statistical_Baseline Spoofing_Layering
    Marking_The_Close Ml_Client Kafka_Log Consumer_Loop
begin

text \<open>
  \<open>cpp/pipeline/\<close>: the pipeline that routes each event to the book of its instrument and, unless
  the book refuses it, to the detectors in order; the consumer around it; and the sinks.  The
  detectors are a list of values whose \<open>evaluate\<close> is the dispatch to the six classes.
  \<open>std::chrono::steady_clock::now()\<close> is a function of the number of times it has been read.
  A dangling iterator in a book would be undefined behaviour and not an exception; it is treated
  as one here, and the books' invariant shows that it does not occur.
\<close>

section \<open>The detectors of the pipeline\<close>

datatype any_detector =
    Wash_Trade_Detector
  | Front_Running_Detector front_running_config front_running_state
  | Statistical_Baseline_Detector statistical_baseline_config statistical_baseline_state
  | Spoofing_Layering_Detector spoofing_layering_config spoofing_layering_state
  | Marking_The_Close_Detector iteration marking_the_close_config marking_state
  | Ml_Anomaly_Detector ml_anomaly_config ml_detector_state

fun detector_name :: "any_detector \<Rightarrow> string" where
  "detector_name Wash_Trade_Detector = wash_trade_name"
| "detector_name (Front_Running_Detector config s) = front_running_name"
| "detector_name (Statistical_Baseline_Detector config s) = statistical_baseline_name"
| "detector_name (Spoofing_Layering_Detector config s) = spoofing_layering_name"
| "detector_name (Marking_The_Close_Detector iter config s) = marking_the_close_name"
| "detector_name (Ml_Anomaly_Detector config s) = ml_detector_name"

fun evaluate_any :: "account_registry \<Rightarrow> any_detector evaluation" where
  "evaluate_any accounts book incoming Wash_Trade_Detector =
     (Wash_Trade_Detector, snd (wash_trade_evaluate accounts book incoming ()))"
| "evaluate_any accounts book incoming (Front_Running_Detector config s) =
     apfst (Front_Running_Detector config) (front_running_evaluate config accounts book incoming s)"
| "evaluate_any accounts book incoming (Statistical_Baseline_Detector config s) =
     apfst (Statistical_Baseline_Detector config) (statistical_baseline_evaluate config accounts book incoming s)"
| "evaluate_any accounts book incoming (Spoofing_Layering_Detector config s) =
     apfst (Spoofing_Layering_Detector config) (spoofing_layering_evaluate config accounts book incoming s)"
| "evaluate_any accounts book incoming (Marking_The_Close_Detector iter config s) =
     apfst (Marking_The_Close_Detector iter config) (marking_the_close_evaluate iter config accounts book incoming s)"
| "evaluate_any accounts book incoming (Ml_Anomaly_Detector config s) =
     apfst (Ml_Anomaly_Detector config) (ml_evaluate config accounts book incoming s)"

text \<open>The configurations under which the marking-the-close score is a proportion.\<close>

fun configured :: "any_detector \<Rightarrow> bool" where
  "configured (Marking_The_Close_Detector iter config s) = sensible config"
| "configured _ = True"

section \<open>Processing an event\<close>

record 'd live_pipeline =
  lp_detectors :: "'d list"
  lp_accounts :: account_registry
  lp_books :: "string \<rightharpoonup> order_book"
  lp_inconsistent_events_skipped :: u64
  lp_ticks :: nat

record process_result =
  pr_alerts :: "alert list"
  pr_book_apply_ns :: int
  pr_detectors_ns :: int
  pr_skipped_inconsistent :: bool

definition new_pipeline :: "'d list \<Rightarrow> account_registry \<Rightarrow> 'd live_pipeline" where
  "new_pipeline detectors accounts =
     \<lparr>lp_detectors = detectors, lp_accounts = accounts, lp_books = Map.empty,
      lp_inconsistent_events_skipped = 0, lp_ticks = 0\<rparr>"

definition duration_ns :: "int \<Rightarrow> int \<Rightarrow> int" where
  "duration_ns start_ns end_ns = end_ns - start_ns"

definition book_for :: "string \<Rightarrow> 'd live_pipeline \<Rightarrow> order_book option" where
  "book_for i p = lp_books p i"

definition detector_count :: "'d live_pipeline \<Rightarrow> nat" where
  "detector_count p = length (lp_detectors p)"

text \<open>The loop over the detectors: each sees the same book and event.\<close>

fun run_detectors :: "'d evaluation \<Rightarrow> order_book \<Rightarrow> event \<Rightarrow> 'd list \<Rightarrow> 'd list \<times> alert list" where
  "run_detectors evaluate book event [] = ([], [])"
| "run_detectors evaluate book event (d # ds) =
     (let (d', found) = evaluate book event d;
          (ds', rest) = run_detectors evaluate book event ds
      in (d' # ds', found @ rest))"

definition process ::
    "(account_registry \<Rightarrow> 'd evaluation) \<Rightarrow> (nat \<Rightarrow> int) \<Rightarrow> event \<Rightarrow> 'd live_pipeline
     \<Rightarrow> 'd live_pipeline \<times> process_result" where
  "process dispatch clock event p =
     (let i = instrument_id_of event;
          book = (case lp_books p i of None \<Rightarrow> empty_book i | Some b \<Rightarrow> b);
          t = lp_ticks p;
          (book', failure) = apply_event event book;
          p1 = p\<lparr>lp_books := (lp_books p)(i \<mapsto> book')\<rparr>
      in case failure of
           Some e \<Rightarrow>
             (p1\<lparr>lp_inconsistent_events_skipped := lp_inconsistent_events_skipped p + 1, lp_ticks := t + 1\<rparr>,
              \<lparr>pr_alerts = [], pr_book_apply_ns = 0, pr_detectors_ns = 0, pr_skipped_inconsistent = True\<rparr>)
         | None \<Rightarrow>
             let (ds, alerts) = run_detectors (dispatch (lp_accounts p)) book' event (lp_detectors p)
             in (p1\<lparr>lp_detectors := ds, lp_ticks := t + 4\<rparr>,
                 \<lparr>pr_alerts = alerts, pr_book_apply_ns = duration_ns (clock t) (clock (t + 1)),
                  pr_detectors_ns = duration_ns (clock (t + 2)) (clock (t + 3)),
                  pr_skipped_inconsistent = False\<rparr>))"

definition process_all ::
    "(account_registry \<Rightarrow> 'd evaluation) \<Rightarrow> (nat \<Rightarrow> int) \<Rightarrow> event list \<Rightarrow> 'd live_pipeline \<Rightarrow> 'd live_pipeline" where
  "process_all dispatch clock es p = fold (\<lambda>e p. fst (process dispatch clock e p)) es p"

section \<open>The consumer and the sinks\<close>

record latency_sample =
  la_book_apply_ns :: int
  la_detectors_ns :: int

record 'd live_consumer =
  lc_pipeline :: "'d live_pipeline"
  lc_alert_sink :: "alert list option"
  lc_latency_samples :: "latency_sample list"
  lc_events_processed :: u64
  lc_events_skipped_inconsistent :: u64

definition new_consumer :: "'d live_pipeline \<Rightarrow> alert list option \<Rightarrow> 'd live_consumer" where
  "new_consumer p sink = \<lparr>lc_pipeline = p, lc_alert_sink = sink, lc_latency_samples = [],
     lc_events_processed = 0, lc_events_skipped_inconsistent = 0\<rparr>"

definition on_alert :: "alert \<Rightarrow> alert list \<Rightarrow> alert list" where
  "on_alert a alerts = alerts @ [a]"

definition process_one ::
    "(account_registry \<Rightarrow> 'd evaluation) \<Rightarrow> (nat \<Rightarrow> int) \<Rightarrow> event \<Rightarrow> 'd live_consumer \<Rightarrow> 'd live_consumer" where
  "process_one dispatch clock event c =
     (let (p, result) = process dispatch clock event (lc_pipeline c);
          c1 = c\<lparr>lc_pipeline := p, lc_events_processed := lc_events_processed c + 1\<rparr>
      in if pr_skipped_inconsistent result
         then c1\<lparr>lc_events_skipped_inconsistent := lc_events_skipped_inconsistent c + 1\<rparr>
         else c1\<lparr>lc_latency_samples := lc_latency_samples c @
                   [\<lparr>la_book_apply_ns = pr_book_apply_ns result, la_detectors_ns = pr_detectors_ns result\<rparr>],
                 lc_alert_sink := map_option (\<lambda>alerts. fold on_alert (pr_alerts result) alerts) (lc_alert_sink c)\<rparr>)"

text \<open>
  \<open>PipelineEventSink::publish\<close>: to Kafka first, if there is a producer, then to the ring buffer.
  An exception of the producer leaves before the push; a full producer queue is not looked at.
\<close>

definition sink_publish ::
    "(event \<Rightarrow> 'q \<Rightarrow> 'q) \<Rightarrow> produce_answer option \<Rightarrow> event \<Rightarrow> string list \<times> 'q \<Rightarrow> (string + string list \<times> 'q)" where
  "sink_publish push kafka event = (\<lambda>(topic, q).
     case kafka of
       None \<Rightarrow> Inr (topic, push event q)
     | Some answer \<Rightarrow>
         (case publish answer event topic of
            (Inl msg, topic') \<Rightarrow> Inl msg
          | (Inr _, topic') \<Rightarrow> Inr (topic', push event q)))"

section \<open>The books of the pipeline\<close>

text \<open>What a book would be if its instrument's events alone had been applied to a fresh one.\<close>

definition own_book :: "event list \<Rightarrow> string \<Rightarrow> order_book" where
  "own_book es i = run_book (filter (\<lambda>e. instrument_id_of e = i) es) (empty_book i)"

definition accepts :: "event list \<Rightarrow> event \<Rightarrow> bool" where
  "accepts past e \<longleftrightarrow> snd (apply_event e (own_book past (instrument_id_of e))) = None"

text \<open>The stream the detectors see: the accepted events, each with the book that has applied it.\<close>

fun accepted_from :: "event list \<Rightarrow> event list \<Rightarrow> (order_book \<times> event) list" where
  "accepted_from past [] = []"
| "accepted_from past (e # es) =
     (if accepts past e then [(own_book (past @ [e]) (instrument_id_of e), e)] else []) @
     accepted_from (past @ [e]) es"

lemma accepted_from_snoc:
  "accepted_from past (es @ [e]) = accepted_from past es @
     (if accepts (past @ es) e then [(own_book (past @ es @ [e]) (instrument_id_of e), e)] else [])"
  by (induction past es rule: accepted_from.induct) simp_all

lemma own_book_snoc:
  "own_book (es @ [e]) i = (if instrument_id_of e = i then fst (apply_event e (own_book es i)) else own_book es i)"
  by (simp add: own_book_def run_book_def)

definition has_instrument :: "string \<Rightarrow> event list \<Rightarrow> bool" where
  "has_instrument i es \<longleftrightarrow> list_ex (\<lambda>e. instrument_id_of e = i) es"

lemma own_book_fresh: "\<not> has_instrument i es \<Longrightarrow> own_book es i = empty_book i"
  by (simp add: own_book_def has_instrument_def list_ex_iff run_book_def)

definition books_ok :: "event list \<Rightarrow> 'd live_pipeline \<Rightarrow> bool" where
  "books_ok es p \<longleftrightarrow> (\<forall>i. lp_books p i = (if has_instrument i es then Some (own_book es i) else None))"

lemma books_ok_look:
  "books_ok es p \<Longrightarrow> (case lp_books p i of None \<Rightarrow> empty_book i | Some b \<Rightarrow> b) = own_book es i"
  by (simp add: books_ok_def own_book_fresh)

lemma process_unfold:
  assumes "books_ok es p"
  shows "lp_books (fst (process dispatch clock e p)) =
      (lp_books p)(instrument_id_of e \<mapsto> own_book (es @ [e]) (instrument_id_of e))"
    and "lp_accounts (fst (process dispatch clock e p)) = lp_accounts p"
    and "pr_skipped_inconsistent (snd (process dispatch clock e p)) \<longleftrightarrow> \<not> accepts es e"
    and "lp_inconsistent_events_skipped (fst (process dispatch clock e p)) =
      lp_inconsistent_events_skipped p + (if accepts es e then 0 else 1)"
    and "(lp_detectors (fst (process dispatch clock e p)), pr_alerts (snd (process dispatch clock e p))) =
      (if accepts es e
       then run_detectors (dispatch (lp_accounts p)) (own_book (es @ [e]) (instrument_id_of e)) e (lp_detectors p)
       else (lp_detectors p, []))"
proof -
  obtain b' f where ap: "apply_event e (own_book es (instrument_id_of e)) = (b', f)" by fastforce
  have b': "own_book (es @ [e]) (instrument_id_of e) = b'" by (simp add: own_book_snoc ap)
  have acc: "accepts es e \<longleftrightarrow> f = None" by (simp add: accepts_def ap)
  note look = books_ok_look [OF assms, of "instrument_id_of e"]
  show "lp_books (fst (process dispatch clock e p)) =
      (lp_books p)(instrument_id_of e \<mapsto> own_book (es @ [e]) (instrument_id_of e))"
    "lp_accounts (fst (process dispatch clock e p)) = lp_accounts p"
    "pr_skipped_inconsistent (snd (process dispatch clock e p)) \<longleftrightarrow> \<not> accepts es e"
    "lp_inconsistent_events_skipped (fst (process dispatch clock e p)) =
      lp_inconsistent_events_skipped p + (if accepts es e then 0 else 1)"
    "(lp_detectors (fst (process dispatch clock e p)), pr_alerts (snd (process dispatch clock e p))) =
      (if accepts es e
       then run_detectors (dispatch (lp_accounts p)) (own_book (es @ [e]) (instrument_id_of e)) e (lp_detectors p)
       else (lp_detectors p, []))"
    by (cases f; simp add: process_def Let_def look ap b' acc split_beta)+
qed

lemma process_books_ok: "books_ok es p \<Longrightarrow> books_ok (es @ [e]) (fst (process dispatch clock e p))"
  unfolding books_ok_def [of "es @ [e]"] process_unfold(1)
  by (auto simp: books_ok_def own_book_snoc has_instrument_def)

lemma process_all_snoc:
  "process_all dispatch clock (es @ [e]) p = fst (process dispatch clock e (process_all dispatch clock es p))"
  by (simp add: process_all_def)

lemma process_all_books_ok: "books_ok es (process_all dispatch clock es (new_pipeline ds accounts))"
proof (induction es rule: rev_induct)
  case Nil
  show ?case by (simp add: books_ok_def process_all_def new_pipeline_def has_instrument_def)
next
  case (snoc e es)
  then show ?case unfolding process_all_snoc by (rule process_books_ok)
qed

end
