(* ===== verification/Pipeline_Properties.thy ===== *)
theory Pipeline_Properties
  imports Live_Pipeline
begin

text \<open>
  What the live pipeline guarantees: every book is the one its own instrument's events would have
  built, every detector runs on exactly the accepted events as if it were alone, alerts carry
  the right name, score, time and book sequence, and the consumer's loop over the ring buffer
  stops having handled or dropped everything.
\<close>

section \<open>A step of the pipeline\<close>

lemma process_all_accounts [simp]:
  "lp_accounts (process_all dispatch clock es (new_pipeline ds accounts)) = accounts"
proof (induction es rule: rev_induct)
  case (snoc e es)
  then show ?case by (simp add: process_all_snoc process_unfold(2) [OF process_all_books_ok])
qed (simp add: process_all_def new_pipeline_def)

lemma process_all_Nil [simp]: "process_all dispatch clock [] p = p"
  by (simp add: process_all_def)

lemma new_pipeline_detectors [simp]: "lp_detectors (new_pipeline ds accounts) = ds"
  by (simp add: new_pipeline_def)

lemma process_step:
  fixes dispatch :: "account_registry \<Rightarrow> 'd evaluation" and ds :: "'d list"
  shows "lp_detectors (process_all dispatch clock (es @ [e]) (new_pipeline ds accounts)) =
      (if accepts es e then fst (run_detectors (dispatch accounts) (own_book (es @ [e]) (instrument_id_of e)) e
         (lp_detectors (process_all dispatch clock es (new_pipeline ds accounts))))
       else lp_detectors (process_all dispatch clock es (new_pipeline ds accounts)))"
    and "pr_alerts (snd (process dispatch clock e (process_all dispatch clock es (new_pipeline ds accounts)))) =
      (if accepts es e then snd (run_detectors (dispatch accounts) (own_book (es @ [e]) (instrument_id_of e)) e
         (lp_detectors (process_all dispatch clock es (new_pipeline ds accounts)))) else [])"
proof -
  let ?p = "process_all dispatch clock es (new_pipeline ds accounts)"
  have both: "(lp_detectors (fst (process dispatch clock e ?p)), pr_alerts (snd (process dispatch clock e ?p))) =
      (if accepts es e then run_detectors (dispatch accounts) (own_book (es @ [e]) (instrument_id_of e)) e
         (lp_detectors ?p) else (lp_detectors ?p, []))"
    using process_unfold(5) [OF process_all_books_ok, where dispatch = dispatch and clock = clock and e = e] by simp
  show "lp_detectors (process_all dispatch clock (es @ [e]) (new_pipeline ds accounts)) =
      (if accepts es e then fst (run_detectors (dispatch accounts) (own_book (es @ [e]) (instrument_id_of e)) e
         (lp_detectors ?p)) else lp_detectors ?p)"
    using arg_cong [OF both, where f = fst] by (simp add: process_all_snoc split: if_splits)
  show "pr_alerts (snd (process dispatch clock e ?p)) =
      (if accepts es e then snd (run_detectors (dispatch accounts) (own_book (es @ [e]) (instrument_id_of e)) e
         (lp_detectors ?p)) else [])"
    using arg_cong [OF both, where f = snd] by (simp split: if_splits)
qed

lemma run_detectors_map:
  "run_detectors evaluate book e ds =
     (map (\<lambda>d. fst (evaluate book e d)) ds, concat (map (\<lambda>d. snd (evaluate book e d)) ds))"
  by (induction ds) (simp_all add: split_beta Let_def)

section \<open>The contract of the dispatch\<close>

locale detector_dispatch =
  fixes evaluate :: "account_registry \<Rightarrow> 'd evaluation" and name :: "'d \<Rightarrow> string" and invar :: "'d \<Rightarrow> bool"
  assumes dispatch_invar: "invar d \<Longrightarrow> invar (fst (evaluate accounts book incoming d))"
    and dispatch_name: "name (fst (evaluate accounts book incoming d)) = name d"
    and dispatch_conforms:
      "invar d \<Longrightarrow> a \<in> set (snd (evaluate accounts book incoming d)) \<Longrightarrow> conforms (name d) book incoming a"
begin

lemma run_detectors_conform:
  "list_all invar ds \<Longrightarrow> a \<in> set (snd (run_detectors (evaluate accounts) book incoming ds)) \<Longrightarrow>
   \<exists>n \<in> name ` set ds. conforms n book incoming a"
  by (induction ds) (auto simp: split_beta Let_def dest: dispatch_conforms)

lemma run_detectors_invar:
  "list_all invar ds \<Longrightarrow> list_all invar (fst (run_detectors (evaluate accounts) book incoming ds))"
  by (induction ds) (auto simp: split_beta Let_def dispatch_invar)

lemma run_detectors_names:
  "map name (fst (run_detectors (evaluate accounts) book incoming ds)) = map name ds"
  by (induction ds) (auto simp: split_beta Let_def dispatch_name)

lemma process_all_detectors:
  assumes "list_all invar ds"
  shows "list_all invar (lp_detectors (process_all evaluate clock es (new_pipeline ds accounts))) \<and>
    map name (lp_detectors (process_all evaluate clock es (new_pipeline ds accounts))) = map name ds"
  using assms
  by (induction es rule: rev_induct)
    (simp_all add: process_step(1) run_detectors_invar run_detectors_names)

end

interpretation any_dispatch: detector_dispatch evaluate_any detector_name configured
proof
  fix d accounts book incoming a
  show "configured d \<Longrightarrow> configured (fst (evaluate_any accounts book incoming d))" by (cases d) simp_all
  show "detector_name (fst (evaluate_any accounts book incoming d)) = detector_name d" by (cases d) simp_all
  assume "configured d" "a \<in> set (snd (evaluate_any accounts book incoming d))"
  then show "conforms (detector_name d) book incoming a"
    using wash_trade.alerts_conform front_running.alerts_conform statistical_baseline.alerts_conform
      spoofing_layering.alerts_conform marking_the_close.alerts_conform ml_anomaly.alerts_conform
    by (cases d) auto
qed

section \<open>Properties\<close>

text \<open>
  C17: routing.  After any events, whatever the detectors do, the book of an instrument exists
  exactly if an event of it has arrived and is the book that its own events alone would have
  built from an empty one; the skip counter is the number of refused events, modulo
  \<open>2^64\<close>; and an event is refused for a documented exception, never for a dangling iterator.
\<close>

theorem pipeline_books_exact:
  "let p = process_all evaluate_any clock es (new_pipeline ds accounts)
   in book_for i p = (if has_instrument i es then Some (own_book es i) else None) \<and>
      lp_inconsistent_events_skipped p = of_nat (length es - length (accepted_from [] es)) \<and>
      snd (apply_event e (own_book es (instrument_id_of e))) \<noteq> Some Dangling_Iterator"
proof -
  let ?p = "\<lambda>es. process_all evaluate_any clock es (new_pipeline ds accounts)"
  have "length (accepted_from [] es) \<le> length es \<and>
      lp_inconsistent_events_skipped (?p es) = of_nat (length es - length (accepted_from [] es))"
  proof (induction es rule: rev_induct)
    case Nil
    show ?case by (simp add: process_all_def new_pipeline_def)
  next
    case (snoc e es)
    then show ?case
      by (auto simp: process_all_snoc process_unfold(4) [OF process_all_books_ok] accepted_from_snoc Suc_diff_le)
  qed
  moreover have "book_for i (?p es) = (if has_instrument i es then Some (own_book es i) else None)"
    using process_all_books_ok [of es evaluate_any clock ds accounts] by (simp add: books_ok_def book_for_def)
  moreover have "snd (apply_event e (own_book es (instrument_id_of e))) \<noteq> Some Dangling_Iterator"
    using apply_event_good [OF run_book_wf] by (simp add: own_book_def good_outcome_def run_book_wf)
  ultimately show ?thesis by (simp add: Let_def)
qed

text \<open>
  C16: the detectors are independent.  However many detectors a pipeline has, each is in the
  state it would have had if it had been run alone on the accepted events, each with the
  book just after it, and the alerts of an event are those each would then have raised alone,
  in the order of the detectors.
\<close>

theorem pipeline_detectors_alone:
  "let p = process_all evaluate_any clock es (new_pipeline ds accounts);
       alone = (\<lambda>d. fst (run_detector (evaluate_any accounts) (accepted_from [] es) d))
   in lp_detectors p = map alone ds \<and>
      pr_alerts (snd (process evaluate_any clock e p)) =
        (if accepts es e
         then concat (map (\<lambda>d. snd (evaluate_any accounts (own_book (es @ [e]) (instrument_id_of e)) e (alone d))) ds)
         else [])"
proof -
  have "lp_detectors (process_all evaluate_any clock es (new_pipeline ds accounts)) =
      map (\<lambda>d. fst (run_detector (evaluate_any accounts) (accepted_from [] es) d)) ds"
  proof (induction es rule: rev_induct)
    case Nil
    show ?case by (simp add: process_all_def new_pipeline_def)
  next
    case (snoc e es)
    then show ?case
      by (simp add: process_step(1) run_detectors_map accepted_from_snoc run_detector_snoc comp_def)
  qed
  then show ?thesis by (simp add: Let_def process_step(2) run_detectors_map comp_def)
qed

text \<open>
  The alerts of the pipeline.  Every alert an event raises bears the name of one of the
  pipeline's detectors, a score between 0 and 1, a window that ends at the event's time and does
  not end before it starts, and the sequence number of the book of the event's own instrument
  as it is just after the event, which that book has accepted.
\<close>

theorem pipeline_alerts_conform:
  assumes "list_all configured ds"
    and "a \<in> set (pr_alerts (snd (process evaluate_any clock e
           (process_all evaluate_any clock es (new_pipeline ds accounts)))))"
  shows "accepts es e \<and>
    (\<exists>d \<in> set ds. conforms (detector_name d) (own_book (es @ [e]) (instrument_id_of e)) e a)"
proof -
  let ?ds = "lp_detectors (process_all evaluate_any clock es (new_pipeline ds accounts))"
  have ok: "list_all configured ?ds" "map detector_name ?ds = map detector_name ds"
    using any_dispatch.process_all_detectors [OF assms(1)] by blast+
  have acc: "accepts es e" "a \<in> set (snd (run_detectors (evaluate_any accounts)
      (own_book (es @ [e]) (instrument_id_of e)) e ?ds))"
    using assms(2) by (auto simp: process_step(2) split: if_splits)
  have "detector_name ` set ?ds = detector_name ` set ds" using ok(2) by (metis list.set_map)
  then show ?thesis using any_dispatch.run_detectors_conform [OF ok(1) acc(2)] acc(1) by auto
qed

text \<open>A self-trade of one lot, against an order that rests.\<close>

definition self_trade :: "event list" where
  "self_trade = [plain_order ''1'' ''ES'' KBuy 100 10 KNew '''']"

definition self_fill :: event where
  "self_fill = ExecutionEvent (default_execution\<lparr>x_order_id := ''1'', x_instrument_id := ''ES'', x_price := 100,
     x_qty := 1, x_account_id := ''A'', x_counterparty_account_id := ''A''\<rparr>)"

theorem pipeline_alerts_conform_witness:
  "\<exists>a. a \<in> set (pr_alerts (snd (process evaluate_any (\<lambda>n. int n) self_fill
         (process_all evaluate_any (\<lambda>n. int n) self_trade (new_pipeline [Wash_Trade_Detector] empty_registry))))) \<and>
       conforms wash_trade_name (own_book (self_trade @ [self_fill]) ''ES'') self_fill a"
proof -
  let ?r = "snd (process evaluate_any (\<lambda>n. int n) self_fill
    (process_all evaluate_any (\<lambda>n. int n) self_trade (new_pipeline [Wash_Trade_Detector] empty_registry)))"
  have acc: "accepts self_trade self_fill"
    by (simp add: accepts_def own_book_def self_trade_def self_fill_def book_eval)
  have "lp_detectors (process_all evaluate_any (\<lambda>n. int n) self_trade (new_pipeline [Wash_Trade_Detector] empty_registry)) =
      [Wash_Trade_Detector]"
    using process_step(1) [where es = "[]" and dispatch = evaluate_any and ds = "[Wash_Trade_Detector]"]
    by (simp add: self_trade_def run_detectors_map)
  then have "pr_alerts ?r \<noteq> []"
    using acc by (simp add: process_step(2) run_detectors_map) (simp add: self_fill_def default_execution_def
        is_related_def)
  then obtain a where a: "a \<in> set (pr_alerts ?r)" by (meson last_in_set)
  from pipeline_alerts_conform [OF _ a] have "conforms wash_trade_name (own_book (self_trade @ [self_fill]) ''ES'') self_fill a"
    by (simp add: self_fill_def)
  with a show ?thesis by blast
qed

end
