(* ===== verification/Consumer_Properties.thy ===== *)
theory Consumer_Properties
  imports Pipeline_Properties
begin

text \<open>
  \<open>LiveConsumer\<close> around the pipeline and the ring buffer: what it counts and delivers for the
  events it has handled, and that its loop stops having handled every event that the buffer has
  not dropped.
\<close>

section \<open>What a run of the consumer delivers\<close>

definition delivered :: "alert list \<Rightarrow> any_detector list \<Rightarrow> account_registry \<Rightarrow> event list \<Rightarrow> alert multiset" where
  "delivered earlier ds accounts es =
     mset earlier + (\<Sum>d\<leftarrow>ds. mset (snd (run_detector (evaluate_any accounts) (accepted_from [] es) d)))"

lemma fold_on_alert [simp]: "fold on_alert found = (\<lambda>earlier. earlier @ found)"
  by (induction found) (simp_all add: on_alert_def fun_eq_iff)

lemma mset_concat_map: "mset (concat (map f ds)) = (\<Sum>d\<leftarrow>ds. mset (f d))"
  by (induction ds) simp_all

lemma run_detector_alerts_snoc:
  "snd (run_detector ev (xs @ [(b, e)]) s) =
     snd (run_detector ev xs s) @ snd (ev b e (fst (run_detector ev xs s)))"
  by (simp add: run_detector_append split_beta Let_def)

definition consumer_run :: "any_detector list \<Rightarrow> account_registry \<Rightarrow> (nat \<Rightarrow> int) \<Rightarrow> alert list \<Rightarrow> event list
     \<Rightarrow> any_detector live_consumer" where
  "consumer_run ds accounts clock earlier es =
     fold (process_one evaluate_any clock) es (new_consumer (new_pipeline ds accounts) (Some earlier))"

lemma consumer_run_snoc:
  "consumer_run ds accounts clock earlier (es @ [e]) =
     process_one evaluate_any clock e (consumer_run ds accounts clock earlier es)"
  by (simp add: consumer_run_def)

lemma process_one_parts:
  "lc_pipeline (process_one dispatch clock e c) = fst (process dispatch clock e (lc_pipeline c))"
  "lc_events_processed (process_one dispatch clock e c) = lc_events_processed c + 1"
  by (simp_all add: process_one_def split_beta Let_def)

lemma consumer_run_pipeline:
  "lc_pipeline (consumer_run ds accounts clock earlier es) =
     process_all evaluate_any clock es (new_pipeline ds accounts)"
proof (induction es rule: rev_induct)
  case Nil
  show ?case by (simp add: consumer_run_def new_consumer_def)
next
  case (snoc e es)
  then show ?case by (simp add: consumer_run_snoc process_one_parts process_all_snoc)
qed

lemma pipeline_detector_states:
  "lp_detectors (process_all evaluate_any clock es (new_pipeline ds accounts)) =
     map (\<lambda>d. fst (run_detector (evaluate_any accounts) (accepted_from [] es) d)) ds"
proof (induction es rule: rev_induct)
  case (snoc e es)
  then show ?case
    by (simp add: process_step(1) run_detectors_map accepted_from_snoc run_detector_snoc comp_def)
qed simp

lemma consumer_run_step:
  fixes ds accounts clock earlier es
  defines "c \<equiv> consumer_run ds accounts clock earlier es"
  shows "length (lc_latency_samples (process_one evaluate_any clock e c)) =
      length (lc_latency_samples c) + (if accepts es e then 1 else 0)"
    and "lc_events_skipped_inconsistent (process_one evaluate_any clock e c) =
      lc_events_skipped_inconsistent c + (if accepts es e then 0 else 1)"
    and "lc_alert_sink (process_one evaluate_any clock e c) =
      map_option (\<lambda>alerts. alerts @ (if accepts es e
        then concat (map (\<lambda>d. snd (evaluate_any accounts (own_book (es @ [e]) (instrument_id_of e)) e
               (fst (run_detector (evaluate_any accounts) (accepted_from [] es) d)))) ds)
        else [])) (lc_alert_sink c)"
proof -
  have pipe: "lc_pipeline c = process_all evaluate_any clock es (new_pipeline ds accounts)"
    by (simp add: c_def consumer_run_pipeline)
  obtain p r where run: "process evaluate_any clock e (lc_pipeline c) = (p, r)" by fastforce
  have "pr_skipped_inconsistent r \<longleftrightarrow> \<not> accepts es e"
    using process_unfold(3) [OF process_all_books_ok, where dispatch = evaluate_any and clock = clock and e = e] run
    by (metis pipe snd_conv)
  moreover have "pr_alerts r = (if accepts es e
      then concat (map (\<lambda>d. snd (evaluate_any accounts (own_book (es @ [e]) (instrument_id_of e)) e
             (fst (run_detector (evaluate_any accounts) (accepted_from [] es) d)))) ds)
      else [])"
    using process_step(2) [of evaluate_any clock e es ds accounts] run
    by (simp add: pipe run_detectors_map pipeline_detector_states comp_def)
  ultimately show "length (lc_latency_samples (process_one evaluate_any clock e c)) =
      length (lc_latency_samples c) + (if accepts es e then 1 else 0)"
    "lc_events_skipped_inconsistent (process_one evaluate_any clock e c) =
      lc_events_skipped_inconsistent c + (if accepts es e then 0 else 1)"
    "lc_alert_sink (process_one evaluate_any clock e c) =
      map_option (\<lambda>alerts. alerts @ (if accepts es e
        then concat (map (\<lambda>d. snd (evaluate_any accounts (own_book (es @ [e]) (instrument_id_of e)) e
               (fst (run_detector (evaluate_any accounts) (accepted_from [] es) d)))) ds)
        else [])) (lc_alert_sink c)"
    by (simp_all add: process_one_def run Let_def option.map_ident)
qed

lemma accepted_length: "length (accepted_from [] es) \<le> length es"
  by (induction es rule: rev_induct) (simp_all add: accepted_from_snoc)

lemma consumer_run_result:
  "lc_events_processed (consumer_run ds accounts clock earlier es) = of_nat (length es) \<and>
   lc_events_skipped_inconsistent (consumer_run ds accounts clock earlier es) =
     of_nat (length es - length (accepted_from [] es)) \<and>
   length (lc_latency_samples (consumer_run ds accounts clock earlier es)) = length (accepted_from [] es) \<and>
   (\<exists>alerts. lc_alert_sink (consumer_run ds accounts clock earlier es) = Some alerts \<and>
      mset alerts = delivered earlier ds accounts es)"
proof (induction es rule: rev_induct)
  case Nil
  show ?case by (simp add: consumer_run_def new_consumer_def delivered_def)
next
  case (snoc e es)
  then obtain alerts where sink: "lc_alert_sink (consumer_run ds accounts clock earlier es) = Some alerts"
    "mset alerts = delivered earlier ds accounts es" by blast
  have "\<exists>alerts. lc_alert_sink (consumer_run ds accounts clock earlier (es @ [e])) = Some alerts \<and>
      mset alerts = delivered earlier ds accounts (es @ [e])"
    by (simp add: consumer_run_snoc consumer_run_step(3) sink delivered_def accepted_from_snoc
        run_detector_alerts_snoc mset_concat_map sum_list_addf)
  moreover have "length es - length (accepted_from [] es) + 1 = Suc (length es) - length (accepted_from [] es)"
    using accepted_length [of es] by simp
  ultimately show ?case
    using snoc.IH accepted_length [of es]
    by (simp add: consumer_run_snoc consumer_run_step(1,2) process_one_parts accepted_from_snoc Suc_diff_le)
qed

section \<open>Properties\<close>

text \<open>
  The consumer's accounts.  After any events, the consumer has counted every event and every
  refused one (modulo \<open>2^64\<close>), has a latency sample for each accepted one, and has delivered to
  the sink, besides what was there, exactly the alerts that its detectors raise when each is
  run alone over the accepted events: none is lost and none is duplicated.
\<close>

theorem live_consumer_accounting:
  "let c = consumer_run ds accounts clock earlier es
   in lc_events_processed c = of_nat (length es) \<and>
      lc_events_skipped_inconsistent c = of_nat (length es - length (accepted_from [] es)) \<and>
      length (lc_latency_samples c) = length (accepted_from [] es) \<and>
      (\<exists>alerts. lc_alert_sink c = Some alerts \<and> mset alerts = delivered earlier ds accounts es)"
  unfolding Let_def by (rule consumer_run_result)

text \<open>
  C28: the consumer drains the buffer and stops.  However the producer's pushes and the
  consumer's turns interleave over a buffer of any capacity, once the producer has
  pushed everything and raised its flag, the loop stops after at most as many turns as there are
  items in the buffer, and four more; and when it has stopped, the events it has processed are a subsequence of the
  input, in order, and with the drops the buffer has counted make up all of it.
\<close>

theorem live_consumer_drains:
  fixes s :: "(event, event system, any_detector live_consumer) loop_system"
  assumes "new_ring capacity dflt = Some r" and "unat capacity < 2 ^ 63"
    and "length input \<le> 2 ^ 64 - 1 - unat capacity"
    and "(loop_step push_alone pop_alone (process_one evaluate_any clock))\<^sup>*\<^sup>* (loop_start input (start r) c) s"
  shows "(ls_done s \<longrightarrow> (\<exists>n \<le> length (ring_contents (ls_queue s)) + 4.
           ls_pc ((loop_turn pop_alone (process_one evaluate_any clock) ^^ n) s) = Stopped)) \<and>
    (ls_pc s = Stopped \<longrightarrow>
       subseq (ls_handled s) input \<and>
       length (ls_handled s) + unat (rb_dropped (sy_ring (ls_queue s))) = length input \<and>
       ls_client s = fold (process_one evaluate_any clock) (ls_handled s) c)"
proof -
  have start: "ring_contents (start r) = []" "ring_drops (start r) = 0" "ring_pushes (start r) = 0"
    by (simp_all add: ring_contents_def ring_drops_def ring_pushes_def start_def)
  have inv: "ring_queue.loop_inv (unat capacity) input (process_one evaluate_any clock) c s"
    by (rule ring_queue.loop_reachable_inv [OF assms(4,3) start_quiet [OF assms(1,2)] start])
  then have q: "quiet (unat capacity) (ls_queue s)" by (simp add: ring_queue.loop_inv_def)
  have "\<exists>n \<le> length (ring_contents (ls_queue s)) + 4.
      ls_pc ((loop_turn pop_alone (process_one evaluate_any clock) ^^ n) s) = Stopped" if "ls_done s"
    using ring_queue.loop_terminates [OF q that] ring_queue.turns_left_bound by blast
  then show ?thesis using ring_queue.loop_stopped [OF inv] ring_drops_counted [OF q] by simp
qed

theorem live_consumer_drains_witness:
  "\<exists>r s. new_ring 2 self_fill = Some r \<and>
     (loop_step push_alone pop_alone (process_one evaluate_any (\<lambda>n. int n)))\<^sup>*\<^sup>*
       (loop_start self_trade (start r) (new_consumer (new_pipeline [Wash_Trade_Detector] empty_registry) None)) s \<and>
     ls_done s \<and> (\<exists>n \<le> length (ring_contents (ls_queue s)) + 4.
       ls_pc ((loop_turn pop_alone (process_one evaluate_any (\<lambda>n. int n)) ^^ n) s) = Stopped)"
proof -
  let ?step = "loop_step push_alone pop_alone (process_one evaluate_any (\<lambda>n. int n))"
  obtain r where r: "new_ring 2 self_fill = Some r" by (simp add: new_ring_def)
  let ?c = "new_consumer (new_pipeline [Wash_Trade_Detector] empty_registry) None"
  let ?s0 = "loop_start self_trade (start r) ?c"
  let ?s1 = "?s0\<lparr>ls_todo := [], ls_queue := push_alone (hd self_trade) (start r)\<rparr>"
  have "?step ?s0 (?s0\<lparr>ls_todo := [], ls_queue := push_alone (hd self_trade) (ls_queue ?s0)\<rparr>)"
    by (rule loop_step.produce) (simp add: loop_start_def self_trade_def)
  then have one: "?step ?s0 ?s1" by (simp add: loop_start_def)
  have two: "?step ?s1 (?s1\<lparr>ls_done := True\<rparr>)" by (rule loop_step.raise_done) simp
  have run: "?step\<^sup>*\<^sup>* ?s0 (?s1\<lparr>ls_done := True\<rparr>)"
    by (rule converse_rtranclp_into_rtranclp [where r = ?step, OF one r_into_rtranclp [where r = ?step, OF two]])
  have "ls_done (?s1\<lparr>ls_done := True\<rparr>)" by simp
  moreover have "unat (2 :: u64) < 2 ^ 63" "length self_trade \<le> 2 ^ 64 - 1 - unat (2 :: u64)"
    by (simp_all add: self_trade_def)
  note live_consumer_drains [OF r this run]
  ultimately show ?thesis using r run by blast
qed

end
