(* ===== verification/Sim_Types.thy ===== *)
theory Sim_Types
  imports Fix_Types
begin

text \<open>
  The simulator's data model, \<open>cpp/simulator/types.hpp\<close> and \<open>.cpp\<close>: its own enumerations with
  their string conversions, instruments, accounts, and the orders and executions that carry the
  ground truth of the scenario that produced them.  The namespace has the same names as
  \<open>cpp/fix/types.hpp\<close>; here they bear the prefix \<open>sim\<close>.
\<close>

datatype asset_class = Equity | Fx | Fixed_Income
datatype sim_side = SBuy | SSell
datatype sim_order_type = SLimit | SMarket
datatype sim_order_status = SNew | SCancelled | SReplaced
datatype entity_type = Client | Proprietary
datatype abuse_pattern =
  Baseline | Wash_Trade_Pattern | Spoofing_Layering_Pattern | Marking_The_Close_Pattern | Front_Running_Pattern

fun asset_class_to_string :: "asset_class \<Rightarrow> string" where
  "asset_class_to_string Equity = ''Equity''"
| "asset_class_to_string Fx = ''FX''"
| "asset_class_to_string Fixed_Income = ''FixedIncome''"

fun sim_side_to_string :: "sim_side \<Rightarrow> string" where
  "sim_side_to_string SBuy = ''Buy''"
| "sim_side_to_string SSell = ''Sell''"

fun sim_order_type_to_string :: "sim_order_type \<Rightarrow> string" where
  "sim_order_type_to_string SLimit = ''Limit''"
| "sim_order_type_to_string SMarket = ''Market''"

fun sim_order_status_to_string :: "sim_order_status \<Rightarrow> string" where
  "sim_order_status_to_string SNew = ''New''"
| "sim_order_status_to_string SCancelled = ''Cancelled''"
| "sim_order_status_to_string SReplaced = ''Replaced''"

fun entity_type_to_string :: "entity_type \<Rightarrow> string" where
  "entity_type_to_string Client = ''Client''"
| "entity_type_to_string Proprietary = ''Proprietary''"

fun abuse_pattern_to_string :: "abuse_pattern \<Rightarrow> string" where
  "abuse_pattern_to_string Baseline = ''Baseline''"
| "abuse_pattern_to_string Wash_Trade_Pattern = ''WashTrade''"
| "abuse_pattern_to_string Spoofing_Layering_Pattern = ''SpoofingLayering''"
| "abuse_pattern_to_string Marking_The_Close_Pattern = ''MarkingTheClose''"
| "abuse_pattern_to_string Front_Running_Pattern = ''FrontRunning''"

text \<open>\<open>std::invalid_argument\<close> is \<open>Inl\<close> of the rejected text.\<close>

definition sim_side_from_string :: "string \<Rightarrow> string + sim_side" where
  "sim_side_from_string v = (if v = ''Buy'' then Inr SBuy else if v = ''Sell'' then Inr SSell else Inl v)"

definition sim_order_type_from_string :: "string \<Rightarrow> string + sim_order_type" where
  "sim_order_type_from_string v =
     (if v = ''Limit'' then Inr SLimit else if v = ''Market'' then Inr SMarket else Inl v)"

definition sim_order_status_from_string :: "string \<Rightarrow> string + sim_order_status" where
  "sim_order_status_from_string v =
     (if v = ''New'' then Inr SNew else if v = ''Cancelled'' then Inr SCancelled
      else if v = ''Replaced'' then Inr SReplaced else Inl v)"

definition abuse_pattern_from_string :: "string \<Rightarrow> string + abuse_pattern" where
  "abuse_pattern_from_string v =
     (if v = ''Baseline'' then Inr Baseline
      else if v = ''WashTrade'' then Inr Wash_Trade_Pattern
      else if v = ''SpoofingLayering'' then Inr Spoofing_Layering_Pattern
      else if v = ''MarkingTheClose'' then Inr Marking_The_Close_Pattern
      else if v = ''FrontRunning'' then Inr Front_Running_Pattern
      else Inl v)"

lemma sim_strings_roundtrip [simp]:
  "sim_side_from_string (sim_side_to_string s) = Inr s"
  "sim_order_type_from_string (sim_order_type_to_string t) = Inr t"
  "sim_order_status_from_string (sim_order_status_to_string u) = Inr u"
  "abuse_pattern_from_string (abuse_pattern_to_string p) = Inr p"
  by (cases s, simp_all add: sim_side_from_string_def, cases t, simp_all add: sim_order_type_from_string_def,
      cases u, simp_all add: sim_order_status_from_string_def, cases p, simp_all add: abuse_pattern_from_string_def)

record instrument =
  i_instrument_id :: string
  i_symbol :: string
  i_asset_class :: asset_class
  i_tick_size :: double
  i_avg_daily_volume :: int
  i_session_close_ns :: int

record sim_account =
  a_account_id :: string
  a_beneficial_owner_id :: string
  a_entity_type :: entity_type
  a_linked_account_ids :: "string list"

record ground_truth_label =
  gt_pattern :: abuse_pattern
  gt_scenario_id :: string
  gt_severity :: double

definition baseline_label :: ground_truth_label where
  "baseline_label = \<lparr>gt_pattern = Baseline, gt_scenario_id = [], gt_severity = 0\<rparr>"

definition is_abuse :: "ground_truth_label \<Rightarrow> bool" where
  "is_abuse label \<longleftrightarrow> gt_pattern label \<noteq> Baseline"

record sim_order =
  so_order_id :: string
  so_account_id :: string
  so_instrument_id :: string
  so_side :: sim_side
  so_price :: double
  so_qty :: int
  so_order_type :: sim_order_type
  so_timestamp_ns :: int
  so_status :: sim_order_status
  so_venue :: string
  so_label :: ground_truth_label

record sim_execution =
  sx_trade_id :: string
  sx_order_id :: string
  sx_account_id :: string
  sx_instrument_id :: string
  sx_price :: double
  sx_qty :: int
  sx_timestamp_ns :: int
  sx_counterparty_account_id :: string
  sx_venue :: string
  sx_label :: ground_truth_label

definition strip_order_label :: "sim_order \<Rightarrow> sim_order" where
  "strip_order_label order = order\<lparr>so_label := baseline_label\<rparr>"

definition strip_execution_label :: "sim_execution \<Rightarrow> sim_execution" where
  "strip_execution_label execution = execution\<lparr>sx_label := baseline_label\<rparr>"

record simulation_output =
  sim_instruments :: "instrument list"
  sim_accounts :: "sim_account list"
  sim_orders :: "sim_order list"
  sim_executions :: "sim_execution list"

end
