(* ===== verification/Labeled_Json.thy ===== *)
theory Labeled_Json
  imports Sim_Types Event_Codec
begin

text \<open>
  \<open>cpp/simulator/serialization/json_writer.cpp\<close>: the labelled JSON document of a simulation, and
  the recursive-descent parser that reads it back.  The text of the parser that is left is its
  position.  Its three mutually recursive functions take fuel, which is \<open>None\<close> when it runs out;
  \<open>parse_json_total\<close> shows that twice the length of the text, and two more, is always enough.
  The scanner's functions are the same code as the event codec's and are shared with it.
\<close>

section \<open>Writing\<close>

definition write_label :: "ground_truth_label \<Rightarrow> string" where
  "write_label label =
     ''{'' @ write_string_field ''pattern'' (abuse_pattern_to_string (gt_pattern label)) True @
     write_string_field ''scenario_id'' (gt_scenario_id label) True @
     write_key ''severity'' @ show_g 17 (gt_severity label) @ ''}''"

definition write_order :: "sim_order \<Rightarrow> string" where
  "write_order order =
     ''{'' @ write_string_field ''order_id'' (so_order_id order) True @
     write_string_field ''account_id'' (so_account_id order) True @
     write_string_field ''instrument_id'' (so_instrument_id order) True @
     write_string_field ''side'' (sim_side_to_string (so_side order)) True @
     write_number_field ''price'' (show_g 17 (so_price order)) @
     write_number_field ''qty'' (show_int (so_qty order)) @
     write_string_field ''order_type'' (sim_order_type_to_string (so_order_type order)) True @
     write_number_field ''timestamp_ns'' (show_int (so_timestamp_ns order)) @
     write_string_field ''status'' (sim_order_status_to_string (so_status order)) True @
     write_string_field ''venue'' (so_venue order) True @
     write_key ''ground_truth_label'' @ write_label (so_label order) @ ''}''"

definition write_execution :: "sim_execution \<Rightarrow> string" where
  "write_execution execution =
     ''{'' @ write_string_field ''trade_id'' (sx_trade_id execution) True @
     write_string_field ''order_id'' (sx_order_id execution) True @
     write_string_field ''account_id'' (sx_account_id execution) True @
     write_string_field ''instrument_id'' (sx_instrument_id execution) True @
     write_number_field ''price'' (show_g 17 (sx_price execution)) @
     write_number_field ''qty'' (show_int (sx_qty execution)) @
     write_number_field ''timestamp_ns'' (show_int (sx_timestamp_ns execution)) @
     write_string_field ''counterparty_account_id'' (sx_counterparty_account_id execution) True @
     write_string_field ''venue'' (sx_venue execution) True @
     write_key ''ground_truth_label'' @ write_label (sx_label execution) @ ''}''"

text \<open>The loops over the orders and over the executions, with a comma before all but the first.\<close>

fun write_items :: "('a \<Rightarrow> string) \<Rightarrow> 'a list \<Rightarrow> string" where
  "write_items write [] = []"
| "write_items write [x] = write x"
| "write_items write (x # y # xs) = write x @ '','' @ write_items write (y # xs)"

definition to_labeled_json :: "sim_order list \<Rightarrow> sim_execution list \<Rightarrow> string" where
  "to_labeled_json orders executions =
     ''{'' @ write_key ''orders'' @ ''['' @ write_items write_order orders @ ''],'' @
     write_key ''executions'' @ ''['' @ write_items write_execution executions @ '']}''"

section \<open>Parsing\<close>

datatype json =
    JString string
  | JNumber string
  | JObject "(string \<times> json) list"
  | JArray "json list"

definition then_parse :: "'a parsed option \<Rightarrow> ('a \<Rightarrow> string \<Rightarrow> 'b parsed option) \<Rightarrow> 'b parsed option" where
  "then_parse m f =
     (case m of None \<Rightarrow> None | Some (Inl e) \<Rightarrow> Some (Inl e) | Some (Inr (x, r)) \<Rightarrow> f x r)"

definition char_then :: "char \<Rightarrow> string \<Rightarrow> (string \<Rightarrow> 'b parsed option) \<Rightarrow> 'b parsed option" where
  "char_then c s f = (case expect c s of Inl e \<Rightarrow> Some (Inl e) | Inr r \<Rightarrow> f r)"

definition returns :: "'a \<Rightarrow> string \<Rightarrow> 'a parsed option" where
  "returns x r = Some (Inr (x, r))"

fun parse_json :: "nat \<Rightarrow> string \<Rightarrow> json parsed option"
  and parse_entries :: "nat \<Rightarrow> string \<Rightarrow> (string \<times> json) list parsed option"
  and parse_elements :: "nat \<Rightarrow> string \<Rightarrow> json list parsed option" where
  "parse_json 0 s = None"
| "parse_json (Suc n) s =
     then_parse (Some (peek s)) (\<lambda>c r.
       if c = quote then then_parse (Some (parse_raw_string r)) (\<lambda>v. returns (JString v))
       else if c = CHR ''{'' then
         char_then (CHR ''{'') r (\<lambda>r1. then_parse (Some (peek r1)) (\<lambda>d r2.
           if d = CHR ''}'' then returns (JObject []) (tl r2)
           else then_parse (parse_entries n r2) (\<lambda>kvs. returns (JObject kvs))))
       else if c = CHR ''['' then
         char_then (CHR ''['') r (\<lambda>r1. then_parse (Some (peek r1)) (\<lambda>d r2.
           if d = CHR '']'' then returns (JArray []) (tl r2)
           else then_parse (parse_elements n r2) (\<lambda>vs. returns (JArray vs))))
       else then_parse (Some (parse_raw_number (skip_ws r))) (\<lambda>v. returns (JNumber v)))"
| "parse_entries 0 s = None"
| "parse_entries (Suc n) s =
     then_parse (Some (parse_raw_string (skip_ws s))) (\<lambda>key r.
     char_then (CHR '':'') (skip_ws r) (\<lambda>r1.
     then_parse (parse_json n r1) (\<lambda>v r2.
     then_parse (Some (peek (skip_ws r2))) (\<lambda>d r3.
       if d = CHR '','' then then_parse (parse_entries n (tl r3)) (\<lambda>kvs. returns ((key, v) # kvs))
       else char_then (CHR ''}'') r3 (returns [(key, v)])))))"
| "parse_elements 0 s = None"
| "parse_elements (Suc n) s =
     then_parse (parse_json n s) (\<lambda>v r.
     then_parse (Some (peek (skip_ws r))) (\<lambda>d r1.
       if d = CHR '','' then then_parse (parse_elements n (tl r1)) (\<lambda>vs. returns (v # vs))
       else char_then (CHR '']'') r1 (returns [v])))"

definition parse_document :: "string \<Rightarrow> json parsed option" where
  "parse_document text = parse_json (2 * length text + 2) text"

section \<open>Reading the values\<close>

fun json_at :: "json \<Rightarrow> string \<Rightarrow> codec_error + json" where
  "json_at (JObject kvs) key = (case find (\<lambda>(k, v). k = key) kvs of None \<Rightarrow> Inl (Missing_Field key) | Some (k, v) \<Rightarrow> Inr v)"
| "json_at _ key = Inl (Missing_Field key)"

fun str_value :: "json \<Rightarrow> string" where
  "str_value (JString s) = s"
| "str_value (JNumber s) = s"
| "str_value _ = []"

fun array_value :: "json \<Rightarrow> json list" where
  "array_value (JArray vs) = vs"
| "array_value _ = []"

definition as_double :: "json \<Rightarrow> codec_error + double" where
  "as_double v = number_of stod (str_value v)"

definition as_int64 :: "json \<Rightarrow> codec_error + int" where
  "as_int64 v = number_of stoll (str_value v)"

definition str_at :: "json \<Rightarrow> string \<Rightarrow> codec_error + string" where
  "str_at v key = map_sum id str_value (json_at v key)"

definition label_from_json :: "json \<Rightarrow> codec_error + ground_truth_label" where
  "label_from_json v =
     and_then (and_then (str_at v ''pattern'') (enum_of abuse_pattern_from_string)) (\<lambda>pattern.
     and_then (str_at v ''scenario_id'') (\<lambda>scenario_id.
     and_then (and_then (json_at v ''severity'') as_double) (\<lambda>severity.
     Inr \<lparr>gt_pattern = pattern, gt_scenario_id = scenario_id, gt_severity = severity\<rparr>)))"

definition order_from_json :: "json \<Rightarrow> codec_error + sim_order" where
  "order_from_json v =
     and_then (str_at v ''order_id'') (\<lambda>order_id.
     and_then (str_at v ''account_id'') (\<lambda>account_id.
     and_then (str_at v ''instrument_id'') (\<lambda>instrument.
     and_then (and_then (str_at v ''side'') (enum_of sim_side_from_string)) (\<lambda>side.
     and_then (and_then (json_at v ''price'') as_double) (\<lambda>price.
     and_then (and_then (json_at v ''qty'') as_int64) (\<lambda>qty.
     and_then (and_then (str_at v ''order_type'') (enum_of sim_order_type_from_string)) (\<lambda>order_type.
     and_then (and_then (json_at v ''timestamp_ns'') as_int64) (\<lambda>timestamp_ns.
     and_then (and_then (str_at v ''status'') (enum_of sim_order_status_from_string)) (\<lambda>status.
     and_then (str_at v ''venue'') (\<lambda>venue.
     and_then (and_then (json_at v ''ground_truth_label'') label_from_json) (\<lambda>label.
     Inr \<lparr>so_order_id = order_id, so_account_id = account_id, so_instrument_id = instrument, so_side = side,
          so_price = price, so_qty = qty, so_order_type = order_type, so_timestamp_ns = timestamp_ns,
          so_status = status, so_venue = venue, so_label = label\<rparr>)))))))))))"

definition execution_from_json :: "json \<Rightarrow> codec_error + sim_execution" where
  "execution_from_json v =
     and_then (str_at v ''trade_id'') (\<lambda>trade_id.
     and_then (str_at v ''order_id'') (\<lambda>order_id.
     and_then (str_at v ''account_id'') (\<lambda>account_id.
     and_then (str_at v ''instrument_id'') (\<lambda>instrument.
     and_then (and_then (json_at v ''price'') as_double) (\<lambda>price.
     and_then (and_then (json_at v ''qty'') as_int64) (\<lambda>qty.
     and_then (and_then (json_at v ''timestamp_ns'') as_int64) (\<lambda>timestamp_ns.
     and_then (str_at v ''counterparty_account_id'') (\<lambda>counterparty.
     and_then (str_at v ''venue'') (\<lambda>venue.
     and_then (and_then (json_at v ''ground_truth_label'') label_from_json) (\<lambda>label.
     Inr \<lparr>sx_trade_id = trade_id, sx_order_id = order_id, sx_account_id = account_id,
          sx_instrument_id = instrument, sx_price = price, sx_qty = qty, sx_timestamp_ns = timestamp_ns,
          sx_counterparty_account_id = counterparty, sx_venue = venue, sx_label = label\<rparr>))))))))))"

fun all_of :: "('a \<Rightarrow> 'e + 'b) \<Rightarrow> 'a list \<Rightarrow> 'e + 'b list" where
  "all_of f [] = Inr []"
| "all_of f (x # xs) = and_then (f x) (\<lambda>y. and_then (all_of f xs) (\<lambda>ys. Inr (y # ys)))"

definition parse_labeled_json :: "string \<Rightarrow> (codec_error + sim_order list \<times> sim_execution list) option" where
  "parse_labeled_json json = map_option (\<lambda>doc.
     and_then doc (\<lambda>(root, r).
     and_then (and_then (json_at root ''orders'') (\<lambda>v. all_of order_from_json (array_value v))) (\<lambda>orders.
     and_then (and_then (json_at root ''executions'') (\<lambda>v. all_of execution_from_json (array_value v))) (\<lambda>executions.
     Inr (orders, executions))))) (parse_document json)"

section \<open>The parser always returns\<close>

lemma then_parse_simps [simp]:
  "then_parse None f = None" "then_parse (Some (Inl e)) f = Some (Inl e)" "then_parse (Some (Inr (x, r))) f = f x r"
  "then_parse (returns x r) f = f x r"
  by (simp_all add: then_parse_def returns_def)

lemma skip_ws_idem [simp]: "skip_ws (skip_ws s) = skip_ws s"
  unfolding skip_ws_def by (induction s) simp_all

lemma scan_skip_ws [simp]:
  "peek (skip_ws s) = peek s" "expect c (skip_ws s) = expect c s" "parse_raw_string (skip_ws s) = parse_raw_string s"
  "char_then c (skip_ws s) f = char_then c s f"
  by (simp_all add: peek_def expect_def parse_raw_string_def char_then_def)

lemma raw_number_shorter: "parse_raw_number s = Inr (v, r) \<Longrightarrow> length r < length s"
  by (cases s) (auto simp: parse_raw_number_def length_dropWhile_le le_imp_less_Suc split: if_splits)

lemma peek_tl_length: "peek s = Inr (c, r) \<Longrightarrow> length (tl r) < length s"
  using skip_ws_length [of s] by (cases "skip_ws s") (auto simp: peek_def)

text \<open>A parser returns, and leaves less than \<open>L\<close> of the text if it succeeds.\<close>

definition consumes :: "nat \<Rightarrow> 'a parsed option \<Rightarrow> bool" where
  "consumes L m \<longleftrightarrow> m \<noteq> None \<and> (\<forall>x r. m = Some (Inr (x, r)) \<longrightarrow> length r < L)"

lemma consumes_returns: "length r < L \<Longrightarrow> consumes L (returns x r)"
  by (simp add: consumes_def returns_def)

lemma consumes_then:
  assumes "consumes k m" and "\<And>x r. length r < k \<Longrightarrow> consumes L (f x r)"
  shows "consumes L (then_parse m f)"
  using assms by (cases m) (auto simp: consumes_def then_parse_def split: sum.splits)

lemma consumes_char:
  "(\<And>r. length r < length s \<Longrightarrow> consumes L (f r)) \<Longrightarrow> consumes L (char_then c s f)"
  using expect_length [of c s] by (auto simp: consumes_def char_then_def split: sum.splits)

lemma consumes_peek:
  "(\<And>c r. length r \<le> length s \<Longrightarrow> length (tl r) < length s \<Longrightarrow> consumes L (f c r)) \<Longrightarrow>
   consumes L (then_parse (Some (peek s)) f)"
  using peek_length [of s] peek_tl_length [of s] by (cases "peek s") (auto simp: consumes_def)

lemma consumes_string: "consumes (length s) (Some (parse_raw_string s))"
  using parse_raw_string_length [of s] by (simp add: consumes_def)

lemma consumes_number: "consumes (length s) (Some (parse_raw_number (skip_ws s)))"
  using raw_number_shorter [of "skip_ws s"] skip_ws_length [of s] by (auto simp: consumes_def)

lemma consumes_if:
  "(P \<Longrightarrow> consumes L a) \<Longrightarrow> (\<not> P \<Longrightarrow> consumes L b) \<Longrightarrow> consumes L (if P then a else b)"
  by simp

lemmas consumes_rules = consumes_if consumes_returns consumes_char consumes_peek consumes_then [OF consumes_string]
  consumes_then [OF consumes_number]

lemma parse_json_consumes:
  "(\<forall>s. 2 * length s < n \<longrightarrow> consumes (length s) (parse_json n s)) \<and>
   (\<forall>s. 2 * length s + 1 < n \<longrightarrow> consumes (length s) (parse_entries n s)) \<and>
   (\<forall>s. 2 * length s + 1 < n \<longrightarrow> consumes (length s) (parse_elements n s))"
proof (induction n)
  case (Suc n)
  have IH: "2 * length s < n \<Longrightarrow> consumes (length s) (parse_json n s)"
    "2 * length s + 1 < n \<Longrightarrow> consumes (length s) (parse_entries n s)"
    "2 * length s + 1 < n \<Longrightarrow> consumes (length s) (parse_elements n s)" for s
    using Suc.IH by simp_all
  note rules = consumes_rules consumes_then [OF IH(1)] consumes_then [OF IH(2)] consumes_then [OF IH(3)]
  have "consumes (length s) (parse_json (Suc n) s)" if "2 * length s < Suc n" for s
    using that unfolding parse_json.simps by (auto intro!: rules)
  moreover have "consumes (length s) (parse_entries (Suc n) s)" if "2 * length s + 1 < Suc n" for s
    using that unfolding parse_entries.simps scan_skip_ws by (auto intro!: rules)
  moreover have "consumes (length s) (parse_elements (Suc n) s)" if "2 * length s + 1 < Suc n" for s
    using that unfolding parse_elements.simps scan_skip_ws by (auto intro!: rules)
  ultimately show ?case by blast
qed simp

section \<open>Reading back what was written\<close>

lemma write_items_cong [fundef_cong]:
  "xs = ys \<Longrightarrow> (\<And>x. x \<in> set ys \<Longrightarrow> f x = g x) \<Longrightarrow> write_items f xs = write_items g ys"
proof (induction g ys arbitrary: xs rule: write_items.induct)
  case (3 g x y xs')
  then have "write_items f (y # xs') = write_items g (y # xs')" by simp
  with 3 show ?case by simp
qed simp_all

text \<open>The text of a value, as the writers lay it out.\<close>

fun json_text :: "json \<Rightarrow> string" where
  "json_text (JString v) = quote # escape_json v @ [quote]"
| "json_text (JNumber v) = v"
| "json_text (JObject kvs) = CHR ''{'' # write_items (\<lambda>(k, v). write_key k @ json_text v) kvs @ ''}''"
| "json_text (JArray vs) = CHR ''['' # write_items json_text vs @ '']''"

fun well_formed :: "json \<Rightarrow> bool" where
  "well_formed (JString v) = True"
| "well_formed (JNumber v) = (list_all number_char v \<and> v \<noteq> [])"
| "well_formed (JObject kvs) = list_all (\<lambda>(k, v). plain k \<and> well_formed v) kvs"
| "well_formed (JArray vs) = list_all well_formed vs"

definition stops :: "string \<Rightarrow> bool" where
  "stops r \<longleftrightarrow> r = [] \<or> \<not> number_char (hd r)"

lemma stops_simps [simp]: "stops []" "stops (CHR '','' # r)" "stops (CHR ''}'' # r)" "stops (CHR '']'' # r)"
  by (simp_all add: stops_def number_char_def is_digit_def digit_of_def)

lemma more_not_space [simp]: "\<not> is_space (CHR ''['')" "\<not> is_space (CHR '']'')"
  by (simp_all add: is_space_def)

lemma json_chars [simp]:
  "quote \<noteq> CHR ''{''" "quote \<noteq> CHR ''[''" "quote \<noteq> CHR ''}''" "quote \<noteq> CHR '']''"
  "CHR ''{'' \<noteq> quote" "CHR ''['' \<noteq> quote" "CHR ''}'' \<noteq> quote" "CHR '']'' \<noteq> quote"
  by (simp_all add: quote_def)

lemma number_not_bracket: "number_char c \<Longrightarrow> c \<noteq> CHR ''{'' \<and> c \<noteq> CHR ''['' \<and> c \<noteq> CHR ''}'' \<and> c \<noteq> CHR '']''"
  by (auto simp: number_char_def is_digit_def digit_of_def)

lemma parse_raw_number_stops:
  assumes "list_all number_char v" and "v \<noteq> []" and "stops r"
  shows "parse_raw_number (v @ r) = Inr (v, r)"
proof (cases r)
  case Nil
  have tw: "takeWhile number_char v = v" and dw: "dropWhile number_char v = []"
    using assms(1) by (simp_all add: takeWhile_eq_all_conv list_all_iff)
  show ?thesis unfolding parse_raw_number_def Nil append_Nil2 tw dw using assms(2) by simp
next
  case (Cons c t)
  then show ?thesis using assms parse_raw_number_chars by (simp add: stops_def)
qed

text \<open>How a value begins.\<close>

lemma json_text_head:
  assumes "well_formed v"
  obtains c t where "json_text v = c # t" and "\<not> is_space c" and "c \<noteq> CHR ''}''" and "c \<noteq> CHR '']''"
proof (cases v)
  case (JNumber n)
  then obtain c t where "n = c # t" "number_char c" using assms by (cases n) auto
  then show ?thesis using that JNumber number_char_head number_not_bracket by simp
qed (use that in simp_all)

definition reads_back :: "json \<Rightarrow> bool" where
  "reads_back v \<longleftrightarrow> (\<forall>n r. stops r \<longrightarrow> 2 * length (json_text v) < n \<longrightarrow>
     parse_json n (json_text v @ r) = returns v r)"

lemma reads_backD: "reads_back v \<Longrightarrow> stops r \<Longrightarrow> 2 * length (json_text v) < n \<Longrightarrow>
    parse_json n (json_text v @ r) = returns v r"
  by (simp add: reads_back_def)

lemma char_then_Cons [simp]: "\<not> is_space c \<Longrightarrow> char_then c (c # r) f = f r"
  by (simp add: char_then_def)

lemma parse_entries_text:
  assumes "kvs \<noteq> []" and "\<forall>(k, v) \<in> set kvs. plain k \<and> reads_back v"
    and "2 * length (write_items (\<lambda>(k, v). write_key k @ json_text v) kvs) + 1 < n"
  shows "parse_entries n (write_items (\<lambda>(k, v). write_key k @ json_text v) kvs @ CHR ''}'' # r) = returns kvs r"
  using assms
proof (induction "\<lambda>(k, v). write_key k @ json_text v" kvs arbitrary: n rule: write_items.induct)
  case (2 kv)
  obtain k v where kv: "kv = (k, v)" by fastforce
  obtain m where n: "n = Suc m" using "2.prems"(3) by (cases n) auto
  have "parse_json m (json_text v @ CHR ''}'' # r) = returns v (CHR ''}'' # r)"
    by (rule reads_backD) (use "2.prems" in \<open>auto simp: kv n write_key_def\<close>)
  then show ?case using "2.prems"(2) by (simp add: n kv write_key_def)
next
  case (3 kv kv' kvs)
  obtain k v where kv: "kv = (k, v)" by fastforce
  obtain m where n: "n = Suc m" using "3.prems"(3) by (cases n) auto
  let ?rest = "write_items (\<lambda>(k, v). write_key k @ json_text v) (kv' # kvs)"
  have "parse_entries m (?rest @ CHR ''}'' # r) = returns (kv' # kvs) r"
    by (rule "3.hyps") (use "3.prems" in \<open>auto simp: n\<close>)
  moreover have "parse_json m (json_text v @ CHR '','' # ?rest @ CHR ''}'' # r) =
      returns v (CHR '','' # ?rest @ CHR ''}'' # r)"
    by (rule reads_backD) (use "3.prems" in \<open>auto simp: kv n write_key_def\<close>)
  ultimately show ?case using "3.prems"(2) by (simp add: n kv write_key_def)
qed simp

lemma parse_elements_text:
  assumes "vs \<noteq> []" and "\<forall>v \<in> set vs. reads_back v" and "2 * length (write_items json_text vs) + 1 < n"
  shows "parse_elements n (write_items json_text vs @ CHR '']'' # r) = returns vs r"
  using assms
proof (induction json_text vs arbitrary: n rule: write_items.induct)
  case (2 v)
  obtain m where n: "n = Suc m" using "2.prems"(3) by (cases n) auto
  have "parse_json m (json_text v @ CHR '']'' # r) = returns v (CHR '']'' # r)"
    by (rule reads_backD) (use "2.prems" in \<open>auto simp: n\<close>)
  then show ?case by (simp add: n)
next
  case (3 v v' vs)
  obtain m where n: "n = Suc m" using "3.prems"(3) by (cases n) auto
  let ?rest = "write_items json_text (v' # vs)"
  have "parse_elements m (?rest @ CHR '']'' # r) = returns (v' # vs) r"
    by (rule "3.hyps") (use "3.prems" in \<open>auto simp: n\<close>)
  moreover have "parse_json m (json_text v @ CHR '','' # ?rest @ CHR '']'' # r) =
      returns v (CHR '','' # ?rest @ CHR '']'' # r)"
    by (rule reads_backD) (use "3.prems" in \<open>auto simp: n\<close>)
  ultimately show ?case by (simp add: n)
qed simp

lemma write_items_head: "xs \<noteq> [] \<Longrightarrow> \<exists>r. write_items f xs = f (hd xs) @ r"
  by (induction f xs rule: write_items.induct) auto

lemma json_reads_back: "well_formed v \<Longrightarrow> reads_back v"
proof (induction v)
  case (JString s)
  then show ?case by (auto simp: reads_back_def gr0_conv_Suc dest!: less_imp_Suc_add)
next
  case (JNumber s)
  then obtain c t where s: "s = c # t" "number_char c" by (cases s) auto
  have "parse_json (Suc n) (s @ r) = returns (JNumber s) r" if "stops r" for n r
    using parse_raw_number_stops [OF _ _ that, of s] JNumber number_char_head [OF s(2)] number_not_bracket [OF s(2)]
    by (simp add: s)
  then show ?case by (auto simp: reads_back_def dest!: less_imp_Suc_add)
next
  case (JObject kvs)
  let ?text = "write_items (\<lambda>(k, v). write_key k @ json_text v) kvs"
  have kvs: "\<forall>(k, v) \<in> set kvs. plain k \<and> reads_back v"
    using JObject by (fastforce simp: list_all_iff)
  have "parse_json n (CHR ''{'' # ?text @ CHR ''}'' # r) = returns (JObject kvs) r" if big: "2 * length ?text + 4 < n" for n r
  proof -
    obtain m where n: "n = Suc m" using big by (cases n) auto
    show ?thesis
    proof (cases "kvs = []")
      case False
      then obtain t where t: "?text = quote # t"
        using write_items_head [OF False, of "\<lambda>(k, v). write_key k @ json_text v"] by (cases "hd kvs") (auto simp: write_key_def)
      have "parse_entries m (?text @ CHR ''}'' # r) = returns kvs r"
        by (rule parse_entries_text [OF False kvs]) (use big n in simp)
      then show ?thesis by (simp add: n t)
    qed (simp add: n)
  qed
  then show ?case by (simp add: reads_back_def)
next
  case (JArray vs)
  let ?text = "write_items json_text vs"
  have vs: "\<forall>v \<in> set vs. reads_back v" using JArray by (fastforce simp: list_all_iff)
  have "parse_json n (CHR ''['' # ?text @ CHR '']'' # r) = returns (JArray vs) r" if big: "2 * length ?text + 4 < n" for n r
  proof -
    obtain m where n: "n = Suc m" using big by (cases n) auto
    show ?thesis
    proof (cases "vs = []")
      case False
      then have "well_formed (hd vs)" using JArray.prems by (cases vs) simp_all
      then obtain c t where t: "?text = c # t" "\<not> is_space c" "c \<noteq> CHR '']''"
        using json_text_head [of "hd vs"] write_items_head [OF False, of json_text] by (metis append_Cons)
      have "parse_elements m (?text @ CHR '']'' # r) = returns vs r"
        by (rule parse_elements_text [OF False vs]) (use big n in simp)
      then show ?thesis using t by (simp add: n)
    qed (simp add: n)
  qed
  then show ?case by (simp add: reads_back_def)
qed

section \<open>The document of a simulation\<close>

definition label_json :: "ground_truth_label \<Rightarrow> json" where
  "label_json label = JObject
     [(''pattern'', JString (abuse_pattern_to_string (gt_pattern label))),
      (''scenario_id'', JString (gt_scenario_id label)),
      (''severity'', JNumber (show_g 17 (gt_severity label)))]"

definition order_json :: "sim_order \<Rightarrow> json" where
  "order_json order = JObject
     [(''order_id'', JString (so_order_id order)), (''account_id'', JString (so_account_id order)),
      (''instrument_id'', JString (so_instrument_id order)),
      (''side'', JString (sim_side_to_string (so_side order))),
      (''price'', JNumber (show_g 17 (so_price order))), (''qty'', JNumber (show_int (so_qty order))),
      (''order_type'', JString (sim_order_type_to_string (so_order_type order))),
      (''timestamp_ns'', JNumber (show_int (so_timestamp_ns order))),
      (''status'', JString (sim_order_status_to_string (so_status order))),
      (''venue'', JString (so_venue order)), (''ground_truth_label'', label_json (so_label order))]"

definition execution_json :: "sim_execution \<Rightarrow> json" where
  "execution_json x = JObject
     [(''trade_id'', JString (sx_trade_id x)), (''order_id'', JString (sx_order_id x)),
      (''account_id'', JString (sx_account_id x)), (''instrument_id'', JString (sx_instrument_id x)),
      (''price'', JNumber (show_g 17 (sx_price x))), (''qty'', JNumber (show_int (sx_qty x))),
      (''timestamp_ns'', JNumber (show_int (sx_timestamp_ns x))),
      (''counterparty_account_id'', JString (sx_counterparty_account_id x)),
      (''venue'', JString (sx_venue x)), (''ground_truth_label'', label_json (sx_label x))]"

definition document_json :: "sim_order list \<Rightarrow> sim_execution list \<Rightarrow> json" where
  "document_json orders executions = JObject
     [(''orders'', JArray (map order_json orders)), (''executions'', JArray (map execution_json executions))]"

lemma plain_label_keys [simp]:
  "plain ''pattern''" "plain ''scenario_id''" "plain ''severity''" "plain ''ground_truth_label''"
  "plain ''orders''" "plain ''executions''"
  by (simp_all add: plain_def quote_def backslash_def newline_def)

lemma escape_enums [simp]:
  "escape_json (abuse_pattern_to_string p) = abuse_pattern_to_string p"
  by (rule escape_plain, cases p) (simp_all add: plain_def quote_def backslash_def newline_def)

lemma write_label_text: "write_label label = json_text (label_json label)"
  by (simp add: write_label_def label_json_def write_string_field_def)

lemma write_order_text: "write_order order = json_text (order_json order)"
  by (simp add: write_order_def order_json_def write_string_field_def write_number_field_def write_label_text)

lemma write_execution_text: "write_execution x = json_text (execution_json x)"
  by (simp add: write_execution_def execution_json_def write_string_field_def write_number_field_def write_label_text)

lemma write_items_map: "write_items f (map g xs) = write_items (\<lambda>x. f (g x)) xs"
  by (induction "\<lambda>x. f (g x)" xs rule: write_items.induct) simp_all

lemma to_labeled_json_text: "to_labeled_json orders executions = json_text (document_json orders executions)"
  by (simp add: to_labeled_json_def document_json_def write_items_map write_order_text [abs_def]
      write_execution_text [abs_def])

lemma document_well_formed: "well_formed (document_json orders executions)"
proof -
  have "well_formed (label_json label)" for label by (simp add: label_json_def number_chars_show_g)
  then have "well_formed (order_json order)" "well_formed (execution_json x)" for order x
    by (simp_all add: order_json_def execution_json_def number_chars_show_g number_chars_show_int)
  then show ?thesis by (simp add: document_json_def list_all_iff)
qed

text \<open>The numbers that fit; the strings are arbitrary.\<close>

definition sim_order_encodable :: "sim_order \<Rightarrow> bool" where
  "sim_order_encodable order \<longleftrightarrow> normal_double (so_price order) \<and> in_int64 (so_qty order) \<and>
     in_int64 (so_timestamp_ns order) \<and> normal_double (gt_severity (so_label order))"

definition sim_execution_encodable :: "sim_execution \<Rightarrow> bool" where
  "sim_execution_encodable x \<longleftrightarrow> normal_double (sx_price x) \<and> in_int64 (sx_qty x) \<and>
     in_int64 (sx_timestamp_ns x) \<and> normal_double (gt_severity (sx_label x))"

lemmas json_reading = str_at_def as_double_def as_int64_def enum_of_def number_of_def in_int64_def

lemma label_from_json_inverse [simp]:
  "normal_double (gt_severity label) \<Longrightarrow> label_from_json (label_json label) = Inr label"
  by (simp add: label_from_json_def label_json_def json_reading)

lemma order_from_json_inverse:
  "sim_order_encodable order \<Longrightarrow> order_from_json (order_json order) = Inr order"
  by (simp add: sim_order_encodable_def order_from_json_def order_json_def json_reading)

lemma execution_from_json_inverse:
  "sim_execution_encodable x \<Longrightarrow> execution_from_json (execution_json x) = Inr x"
  by (simp add: sim_execution_encodable_def execution_from_json_def execution_json_def json_reading)

lemma orders_from_json:
  "list_all sim_order_encodable orders \<Longrightarrow> all_of order_from_json (map order_json orders) = Inr orders"
  by (induction orders) (simp_all add: order_from_json_inverse)

lemma executions_from_json:
  "list_all sim_execution_encodable xs \<Longrightarrow> all_of execution_from_json (map execution_json xs) = Inr xs"
  by (induction xs) (simp_all add: execution_from_json_inverse)

lemma parse_document_total: "parse_document text \<noteq> None"
  using parse_json_consumes [of "2 * length text + 2"] by (simp add: parse_document_def consumes_def)

section \<open>Properties\<close>

text \<open>
  C40: the labelled document.  The parser returns for every text, and reads back exactly the
  orders and executions that were written, prices and severities (zero or normal \<open>double\<close>s) bit for
  bit, 64-bit integers, labels, and every character of the strings.
\<close>

theorem labeled_json_roundtrip:
  assumes "list_all sim_order_encodable orders" and "list_all sim_execution_encodable executions"
  shows "parse_labeled_json (to_labeled_json orders executions) = Some (Inr (orders, executions)) \<and>
    parse_labeled_json text \<noteq> None"
proof -
  have "parse_document (to_labeled_json orders executions) = returns (document_json orders executions) []"
    unfolding parse_document_def to_labeled_json_text
    by (rule reads_backD [OF json_reads_back [OF document_well_formed], of "[]", unfolded append_Nil2]) simp_all
  then have "parse_labeled_json (to_labeled_json orders executions) = Some (Inr (orders, executions))"
    by (simp add: parse_labeled_json_def returns_def document_json_def
        orders_from_json [OF assms(1)] executions_from_json [OF assms(2)])
  then show ?thesis by (simp add: parse_labeled_json_def parse_document_total)
qed

definition labelled_order :: sim_order where
  "labelled_order = \<lparr>so_order_id = [quote, newline], so_account_id = ''A'', so_instrument_id = ''ES'',
     so_side = SSell, so_price = rnd64 (1 / 10), so_qty = 5, so_order_type = SLimit,
     so_timestamp_ns = 2 ^ 63 - 1, so_status = SCancelled, so_venue = ''SIM'',
     so_label = \<lparr>gt_pattern = Wash_Trade_Pattern, gt_scenario_id = ''SCN'', gt_severity = 0\<rparr>\<rparr>"

theorem labeled_json_roundtrip_witness:
  "parse_labeled_json (to_labeled_json [labelled_order, labelled_order] []) =
     Some (Inr ([labelled_order, labelled_order], []))"
proof -
  have "sim_order_encodable labelled_order"
    using awkward_encodable
    by (simp add: sim_order_encodable_def labelled_order_def awkward_order_def default_order_def in_int64_def
        normal_double_def is_double_def)
  then show ?thesis using labeled_json_roundtrip [of "[labelled_order, labelled_order]" "[]"] by simp
qed

end
