(* ===== verification/Fixed_Decimal.thy ===== *)
theory Fixed_Decimal
  imports Decimal
begin

text \<open>
  Fixed notation: what \<open>std::stod\<close> reads of a \<open>double\<close> written with \<open>n\<close> decimals is the
  \<open>double\<close> nearest to it rounded to a multiple of \<open>10^-n\<close>, and the \<open>double\<close> itself when it was the
  nearest to such a multiple.
\<close>

definition fixed_value :: "nat \<Rightarrow> double \<Rightarrow> rat" where
  "fixed_value n x = of_int (round_half_even (x * 10 ^ n)) / 10 ^ n"

lemma fixed_value_error: "\<bar>fixed_value n x - x\<bar> \<le> 1 / (2 * 10 ^ n)"
proof -
  have "\<bar>x * 10 ^ n - of_int (round_half_even (x * 10 ^ n))\<bar> \<le> 1 / 2" by (rule round_half_even_error)
  moreover have "(fixed_value n x - x) * 10 ^ n = - (x * 10 ^ n - of_int (round_half_even (x * 10 ^ n)))"
    by (simp add: fixed_value_def left_diff_distrib)
  then have "\<bar>fixed_value n x - x\<bar> * 10 ^ n = \<bar>x * 10 ^ n - of_int (round_half_even (x * 10 ^ n))\<bar>"
    using abs_mult [of "fixed_value n x - x" "10 ^ n"] by simp
  ultimately show ?thesis by (simp add: field_simps)
qed

text \<open>The rounding error of a normal number.\<close>

lemma rnd64_relative:
  assumes "pow2 (- 1022) \<le> y"
  shows "\<bar>rnd64 y - y\<bar> * 2 ^ 53 \<le> y"
proof -
  have y: "0 < y" using assms pow2_pos [of "- 1022"] by linarith
  have "- 1022 \<le> ilog2 y"
    using ilog2_mono [OF _ assms] ilog2_unique [of "- 1022"] pow2_strict_mono [of "- 1022" "- 1021"] by simp
  then have e: "ulp_exp y = ilog2 y - 52" using y by (simp add: ulp_exp_def)
  define u where "u = pow2 (ulp_exp y)"
  have u: "0 < u" by (simp add: u_def)
  have "u * 2 ^ 52 = pow2 (ilog2 y)" using pow2_add [of "ulp_exp y" 52] by (simp add: u_def e pow2_def)
  then have big: "u * 2 ^ 52 \<le> y" using ilog2_bounds(1) [OF y] by simp
  have "\<bar>y / u - of_int (round_half_even (y / u))\<bar> * u \<le> 1 / 2 * u"
    using round_half_even_error [of "y / u"] u by (intro mult_right_mono) simp_all
  moreover have "\<bar>y / u - of_int (round_half_even (y / u))\<bar> * u = \<bar>y - rnd64 y\<bar>"
    using u abs_mult [of "y / u - of_int (round_half_even (y / u))" u] y
    by (simp add: left_diff_distrib rnd64_def flip: u_def)
  ultimately have "\<bar>y - rnd64 y\<bar> \<le> u / 2" by simp
  with big show ?thesis by (simp add: abs_minus_commute)
qed

lemma rnd64_relative_abs:
  assumes "y = 0 \<or> pow2 (- 1022) \<le> \<bar>y\<bar>"
  shows "\<bar>rnd64 y - y\<bar> * 2 ^ 53 \<le> \<bar>y\<bar>"
  using rnd64_relative [of y] rnd64_relative [of "- y"] assms
  by (cases "0 \<le> y") (auto simp: rnd64_minus abs_minus_commute)

text \<open>A multiple of \<open>10^-n\<close> is no subnormal number.\<close>

lemma tiny: "n \<le> 15 \<Longrightarrow> pow2 (- 1022) \<le> 1 / 10 ^ n"
proof -
  assume "n \<le> 15"
  then have "(10 :: rat) ^ n \<le> 10 ^ 15" by (intro power_increasing) simp_all
  moreover have "(10 :: rat) ^ 15 \<le> 2 ^ 50" by simp
  moreover have "(2 :: rat) ^ 50 \<le> 2 ^ 1022" by (rule power_increasing) simp_all
  ultimately have "(10 :: rat) ^ n \<le> 2 ^ 1022" by linarith
  then show ?thesis by (simp add: pow2_def frac_le)
qed

lemma fixed_value_decimal:
  assumes "\<bar>k\<bar> < 2 ^ 52" and "n \<le> 15" and "x = rnd64 (of_int k / 10 ^ n)"
  shows "fixed_value n x = of_int k / 10 ^ n"
proof -
  define y where "y = (of_int k :: rat) / 10 ^ n"
  have "y = 0 \<or> 1 / 10 ^ n \<le> \<bar>y\<bar>"
  proof (cases "k = 0")
    case False
    then have "(1 :: rat) \<le> \<bar>of_int k\<bar>" by (metis of_int_1_le_iff of_int_abs zero_less_abs_iff int_one_le_iff_zero_less)
    then show ?thesis by (simp add: y_def divide_right_mono)
  qed (simp add: y_def)
  then have "y = 0 \<or> pow2 (- 1022) \<le> \<bar>y\<bar>" using tiny [OF assms(2)] by linarith
  from rnd64_relative_abs [OF this] have "\<bar>x - y\<bar> * 2 ^ 53 \<le> \<bar>y\<bar>" by (simp only: assms(3) y_def)
  then have "\<bar>x - y\<bar> * 2 ^ 53 * 10 ^ n \<le> \<bar>y\<bar> * 10 ^ n" by (intro mult_right_mono) simp_all
  moreover have "\<bar>y\<bar> * 10 ^ n = of_int \<bar>k\<bar>" by (simp add: y_def abs_divide)
  moreover have "\<bar>x - y\<bar> * 10 ^ n = \<bar>x * 10 ^ n - of_int k\<bar>"
    using abs_mult [of "x - y" "10 ^ n"] by (simp add: y_def left_diff_distrib)
  moreover have "(of_int \<bar>k\<bar> :: rat) < 2 ^ 52" using assms(1) by (metis of_int_less_iff of_int_numeral of_int_power)
  ultimately have "\<bar>x * 10 ^ n - of_int k\<bar> * 2 ^ 53 < 2 ^ 52" by (simp add: mult_ac)
  then have "\<bar>x * 10 ^ n - of_int k\<bar> < 1 / 2" by simp
  then show ?thesis by (simp add: fixed_value_def round_half_even_close)
qed

section \<open>Reading fixed notation\<close>

lemma stod_point:
  assumes "digits ip" and "ip \<noteq> []" and "digits fp"
  shows "stod ((if neg then ''-'' else []) @ ip @ CHR ''.'' # fp) = to_range neg (decimal_value ip fp 0)"
proof -
  have sp: "dropWhile is_space (ip @ t) = ip @ t" for t
    using assms(1,2) by (cases ip) (simp_all add: not_space)
  have m: "\<not> is_space (CHR ''-'')" by (simp add: is_space_def)
  have sg: "scan_sign (dropWhile is_space ((if neg then ''-'' else []) @ ip @ CHR ''.'' # fp)) =
      (neg, ip @ CHR ''.'' # fp)"
    using scan_sign_digits [OF assms(1,2)] by (cases neg) (simp_all add: sp m scan_sign_def)
  have tw: "takeWhile is_digit fp = fp" and dw: "dropWhile is_digit fp = []"
    using assms(3) by (simp_all add: takeWhile_all_digits list_all_iff)
  show ?thesis
    using assms(2) by (simp add: tw dw stod_def sg Let_def takeWhile_digits dropWhile_digits assms(1)
        scan_fraction_def scan_exponent_def)
qed

lemma show_nat_short: "k < 10 ^ n \<Longrightarrow> 0 < n \<Longrightarrow> length (show_nat k) \<le> n"
proof (cases "k = 0")
  case False
  assume "k < 10 ^ n"
  have "10 ^ (length (show_nat k) - 1) \<le> k" using show_nat_length [of k] False by simp
  then have "10 ^ (length (show_nat k) - 1) < (10 :: nat) ^ n" using \<open>k < 10 ^ n\<close> by linarith
  then have "length (show_nat k) - 1 < n" by (simp only: power_strict_increasing_iff)
  then show ?thesis by simp
qed (simp add: show_nat.simps)

lemma decimal_value_fixed:
  assumes "0 < n"
  shows "decimal_value (show_nat (k div 10 ^ n)) (pad_left n (show_nat (k mod 10 ^ n))) 0 = of_nat k / 10 ^ n"
proof -
  let ?f = "pad_left n (show_nat (k mod 10 ^ n))"
  have "length (show_nat (k mod 10 ^ n)) \<le> n" using show_nat_short assms by simp
  then have len: "length ?f = n" by simp
  have f: "digits ?f" "nat_of_digits ?f = k mod 10 ^ n" by (simp_all add: nat_of_digits_append)
  have "nat_of_digits (show_nat (k div 10 ^ n) @ ?f) = k div 10 ^ n * 10 ^ n + k mod 10 ^ n"
    using nat_of_digits_append [OF digits_show_nat f(1), of "k div 10 ^ n"] by (simp only: len f(2) nat_of_digits_show)
  then have "nat_of_digits (show_nat (k div 10 ^ n) @ ?f) = k" by (simp only: div_mult_mod_eq)
  moreover have "pow10 (- int n) = 1 / 10 ^ n" by (simp add: pow10_def)
  ultimately show ?thesis by (simp only: decimal_value_def len) simp
qed

lemma stod_show_fixed:
  assumes "0 < n" and "n \<le> 15" and "\<bar>x\<bar> \<le> 2 ^ 53"
  shows "stod (show_fixed n x) = Inr (rnd64 (fixed_value n x))"
proof -
  define k where "k = nat (round_half_even (\<bar>x\<bar> * 10 ^ n))"
  define v where "v = (of_nat k :: rat) / 10 ^ n"
  have k: "int k = round_half_even (\<bar>x\<bar> * 10 ^ n)"
    using round_half_even_mono [of 0 "\<bar>x\<bar> * 10 ^ n"] round_half_even_of_int [of 0] by (simp add: k_def)
  have vf: "v = fixed_value n \<bar>x\<bar>" unfolding v_def fixed_value_def k [symmetric] by simp
  have val: "(if x < 0 then - rnd64 v else rnd64 v) = rnd64 (fixed_value n x)"
    by (simp add: vf fixed_value_def abs_if round_half_even_minus rnd64_minus flip: minus_divide_left)
  have "digits (pad_left n (show_nat (k mod 10 ^ n)))" by simp
  from stod_point [OF digits_show_nat _ this]
  have "stod (show_fixed n x) = to_range (x < 0) v"
    by (simp add: show_fixed_def Let_def decimal_value_fixed assms(1) v_def del: pad_left.simps flip: k_def)
  also have "\<dots> = Inr (rnd64 (fixed_value n x))"
  proof (cases "v = 0")
    case True
    then have "rnd64 (fixed_value n x) = 0" using val by (simp split: if_splits)
    with True show ?thesis by (simp add: to_range_def)
  next
    case False
    then have "1 \<le> (of_nat k :: rat)" by (cases k) (simp_all add: v_def)
    then have "1 / 10 ^ n \<le> v" by (simp add: v_def divide_right_mono)
    then have lo: "pow2 (- 1022) \<le> v" using tiny [OF assms(2)] by linarith
    have "rnd64 (pow2 (- 1022)) = pow2 (- 1022)" by (rule rnd64_exact [of _ 1 "- 1022"]) simp_all
    then have "pow2 (- 1022) \<le> rnd64 v" using rnd64_mono [OF lo] by simp
    have "(1 :: rat) \<le> 10 ^ n" by (rule one_le_power) simp
    then have "(1 :: rat) \<le> 2 * 10 ^ n" by linarith
    then have "(1 :: rat) / (2 * 10 ^ n) \<le> 1" by simp
    then have "v \<le> 2 ^ 53 + 1" using fixed_value_error [of n "\<bar>x\<bar>"] assms(3) unfolding vf by linarith
    then have hi: "v \<le> pow2 54" by (simp add: pow2_def)
    have "rnd64 (pow2 54) = pow2 54" by (rule rnd64_exact [of _ 1 54]) simp_all
    then have "rnd64 v \<le> pow2 54" using rnd64_mono [OF hi] by simp
    also have "\<dots> < pow2 1024" by (rule pow2_strict_mono) simp
    finally show ?thesis using False \<open>pow2 (- 1022) \<le> rnd64 v\<close> val by (simp add: to_range_def not_less not_le)
  qed
  finally show ?thesis .
qed

text \<open>The numbers that fixed notation with \<open>n\<close> decimals keeps.\<close>

definition decimals :: "nat \<Rightarrow> double \<Rightarrow> bool" where
  "decimals n x \<longleftrightarrow> (\<exists>k. \<bar>k\<bar> < 2 ^ 52 \<and> x = rnd64 (of_int k / 10 ^ n))"

lemma stod_show_fixed_decimals:
  assumes "decimals n x" and "0 < n" and "n \<le> 15"
  shows "stod (show_fixed n x) = Inr x"
proof -
  obtain k where k: "\<bar>k\<bar> < 2 ^ 52" "x = rnd64 (of_int k / 10 ^ n)" using assms(1) by (auto simp: decimals_def)
  have "(1 :: rat) \<le> 10 ^ n" by (rule one_le_power) simp
  then have "\<bar>of_int k\<bar> / 10 ^ n \<le> (\<bar>of_int k\<bar> :: rat)" by (simp add: divide_le_eq mult_le_cancel_left1)
  moreover have "(\<bar>of_int k\<bar> :: rat) \<le> of_int (2 ^ 52)" using k(1) by (simp only: of_int_le_iff flip: of_int_abs)
  moreover have "\<bar>of_int k / 10 ^ n\<bar> = (\<bar>of_int k\<bar> / 10 ^ n :: rat)" by (simp add: abs_divide)
  ultimately have y: "of_int k / 10 ^ n \<le> (of_int (2 ^ 52) :: rat)" "- of_int (2 ^ 52) \<le> (of_int k / 10 ^ n :: rat)"
    by (simp_all only: abs_le_iff) linarith+
  have "rnd64 (of_int (2 ^ 52)) = of_int (2 ^ 52)" by (rule rnd64_of_int) simp
  then have "x \<le> of_int (2 ^ 52)" "- of_int (2 ^ 52) \<le> x"
    using rnd64_mono [OF y(1)] rnd64_mono [OF y(2)] by (simp_all only: k(2) rnd64_minus)
  then have "\<bar>x\<bar> \<le> 2 ^ 53" by (simp add: abs_le_iff)
  from stod_show_fixed [OF assms(2,3) this] show ?thesis
    by (simp add: fixed_value_decimal [OF k(1) assms(3) k(2)] flip: k(2))
qed

end
