(* ===== verification/Csv_Writer.thy ===== *)
theory Csv_Writer
  imports Labeled_Json Fixed_Decimal
begin

text \<open>
  \<open>cpp/simulator/serialization/csv_writer.cpp\<close>: the CSV of labelled orders and executions, and the
  parser of the same layout.  Prices and severities are written with eight decimals, so what comes
  back is the nearest multiple of \<open>10^-8\<close>, as a \<open>double\<close>.
\<close>

section \<open>Fields and lines\<close>

definition csv_escape :: "string \<Rightarrow> string" where
  "csv_escape value =
     (if CHR '','' \<in> set value \<or> quote \<in> set value \<or> newline \<in> set value
      then quote # concat (map (\<lambda>c. if c = quote then [quote, quote] else [c]) value) @ [quote]
      else value)"

text \<open>The text inside the quotation marks, and what follows them.\<close>

fun quoted_field :: "string \<Rightarrow> string \<times> string" where
  "quoted_field [] = ([], [])"
| "quoted_field [c] = (if c = quote then ([], []) else ([c], []))"
| "quoted_field (c # d # t) =
     (if c = quote
      then if d = quote then apfst (Cons quote) (quoted_field t) else ([], d # t)
      else apfst (Cons c) (quoted_field (d # t)))"

definition csv_field :: "string \<Rightarrow> string \<times> string" where
  "csv_field s =
     (case s of [] \<Rightarrow> ([], [])
      | c # t \<Rightarrow> if c = quote then quoted_field t
                 else (takeWhile (\<lambda>c. c \<noteq> CHR '','') s, dropWhile (\<lambda>c. c \<noteq> CHR '','') s))"

lemma quoted_field_length: "length (snd (quoted_field s)) \<le> length s"
  by (induction s rule: quoted_field.induct) auto

lemma csv_field_length: "length (snd (csv_field s)) \<le> length s"
  using quoted_field_length [of "tl s"] length_dropWhile_le [of "\<lambda>c. c \<noteq> CHR '',''" s]
  by (cases s) (simp_all add: csv_field_def)

function parse_csv_line :: "string \<Rightarrow> string list" where
  "parse_csv_line s =
     (case csv_field s of (field, r) \<Rightarrow>
        (case r of [] \<Rightarrow> [field]
         | c # t \<Rightarrow> if c = CHR '','' then field # parse_csv_line t else [field]))"
  by pat_completeness auto

termination
proof (relation "measure length")
  fix s field r c t
  assume "(field, r) = csv_field s" "r = c # t"
  then show "(t, s) \<in> measure length" using csv_field_length [of s] by (metis in_measure length_Cons less_eq_Suc_le order.trans snd_conv lessI less_le_trans)
qed simp

declare parse_csv_line.simps [simp del]

text \<open>\<open>std::getline\<close> until the end of the text; empty lines are skipped.\<close>

function get_lines :: "string \<Rightarrow> string list" where
  "get_lines [] = []"
| "get_lines (c # s) =
     takeWhile (\<lambda>c. c \<noteq> newline) (c # s) # get_lines (tl (dropWhile (\<lambda>c. c \<noteq> newline) (c # s)))"
  by pat_completeness auto

termination
proof (relation "measure length")
  fix c s
  have "length (dropWhile (\<lambda>c. c \<noteq> newline) s) \<le> length s" by (rule length_dropWhile_le)
  then show "(tl (dropWhile (\<lambda>c. c \<noteq> newline) (c # s)), c # s) \<in> measure length" by simp arith
qed simp

definition split_lines :: "string \<Rightarrow> string list" where
  "split_lines csv = filter (\<lambda>line. line \<noteq> []) (get_lines csv)"

section \<open>Writing\<close>

fun join_commas :: "string list \<Rightarrow> string" where
  "join_commas [] = []"
| "join_commas [f] = f"
| "join_commas (f # g # fs) = f @ '','' @ join_commas (g # fs)"

definition orders_header :: string where
  "orders_header = ''order_id,account_id,instrument_id,side,price,qty,order_type,timestamp_ns,status,venue,gt_pattern,gt_scenario_id,gt_severity''"

definition executions_header :: string where
  "executions_header = ''trade_id,order_id,account_id,instrument_id,price,qty,timestamp_ns,counterparty_account_id,venue,gt_pattern,gt_scenario_id,gt_severity''"

definition order_line :: "sim_order \<Rightarrow> string" where
  "order_line order = join_commas
     [csv_escape (so_order_id order), csv_escape (so_account_id order), csv_escape (so_instrument_id order),
      sim_side_to_string (so_side order), show_fixed 8 (so_price order), show_int (so_qty order),
      sim_order_type_to_string (so_order_type order), show_int (so_timestamp_ns order),
      sim_order_status_to_string (so_status order), csv_escape (so_venue order),
      abuse_pattern_to_string (gt_pattern (so_label order)), csv_escape (gt_scenario_id (so_label order)),
      show_fixed 8 (gt_severity (so_label order))]"

definition execution_line :: "sim_execution \<Rightarrow> string" where
  "execution_line x = join_commas
     [csv_escape (sx_trade_id x), csv_escape (sx_order_id x), csv_escape (sx_account_id x),
      csv_escape (sx_instrument_id x), show_fixed 8 (sx_price x), show_int (sx_qty x),
      show_int (sx_timestamp_ns x), csv_escape (sx_counterparty_account_id x), csv_escape (sx_venue x),
      abuse_pattern_to_string (gt_pattern (sx_label x)), csv_escape (gt_scenario_id (sx_label x)),
      show_fixed 8 (gt_severity (sx_label x))]"

definition orders_to_csv :: "sim_order list \<Rightarrow> string" where
  "orders_to_csv orders = orders_header @ [newline] @ concat (map (\<lambda>order. order_line order @ [newline]) orders)"

definition executions_to_csv :: "sim_execution list \<Rightarrow> string" where
  "executions_to_csv executions =
     executions_header @ [newline] @ concat (map (\<lambda>x. execution_line x @ [newline]) executions)"

section \<open>Reading\<close>

datatype csv_error = Wrong_Columns nat | Bad_Csv_Field codec_error

definition csv_read :: "codec_error + 'a \<Rightarrow> csv_error + 'a" where
  "csv_read r = map_sum Bad_Csv_Field id r"

definition order_from_line :: "string \<Rightarrow> csv_error + sim_order" where
  "order_from_line line =
     (let f = parse_csv_line line
      in if length f \<noteq> 13 then Inl (Wrong_Columns (length f))
         else
           and_then (csv_read (enum_of sim_side_from_string (f ! 3))) (\<lambda>side.
           and_then (csv_read (number_of stod (f ! 4))) (\<lambda>price.
           and_then (csv_read (number_of stoll (f ! 5))) (\<lambda>qty.
           and_then (csv_read (enum_of sim_order_type_from_string (f ! 6))) (\<lambda>order_type.
           and_then (csv_read (number_of stoll (f ! 7))) (\<lambda>timestamp_ns.
           and_then (csv_read (enum_of sim_order_status_from_string (f ! 8))) (\<lambda>status.
           and_then (csv_read (enum_of abuse_pattern_from_string (f ! 10))) (\<lambda>pattern.
           and_then (csv_read (number_of stod (f ! 12))) (\<lambda>severity.
           Inr \<lparr>so_order_id = f ! 0, so_account_id = f ! 1, so_instrument_id = f ! 2, so_side = side,
                so_price = price, so_qty = qty, so_order_type = order_type, so_timestamp_ns = timestamp_ns,
                so_status = status, so_venue = f ! 9,
                so_label = \<lparr>gt_pattern = pattern, gt_scenario_id = f ! 11, gt_severity = severity\<rparr>\<rparr>)))))))))"

definition execution_from_line :: "string \<Rightarrow> csv_error + sim_execution" where
  "execution_from_line line =
     (let f = parse_csv_line line
      in if length f \<noteq> 12 then Inl (Wrong_Columns (length f))
         else
           and_then (csv_read (number_of stod (f ! 4))) (\<lambda>price.
           and_then (csv_read (number_of stoll (f ! 5))) (\<lambda>qty.
           and_then (csv_read (number_of stoll (f ! 6))) (\<lambda>timestamp_ns.
           and_then (csv_read (enum_of abuse_pattern_from_string (f ! 9))) (\<lambda>pattern.
           and_then (csv_read (number_of stod (f ! 11))) (\<lambda>severity.
           Inr \<lparr>sx_trade_id = f ! 0, sx_order_id = f ! 1, sx_account_id = f ! 2, sx_instrument_id = f ! 3,
                sx_price = price, sx_qty = qty, sx_timestamp_ns = timestamp_ns,
                sx_counterparty_account_id = f ! 7, sx_venue = f ! 8,
                sx_label = \<lparr>gt_pattern = pattern, gt_scenario_id = f ! 10, gt_severity = severity\<rparr>\<rparr>))))))"

definition parse_orders_csv :: "string \<Rightarrow> csv_error + sim_order list" where
  "parse_orders_csv csv = all_of order_from_line (tl (split_lines csv))"

definition parse_executions_csv :: "string \<Rightarrow> csv_error + sim_execution list" where
  "parse_executions_csv csv = all_of execution_from_line (tl (split_lines csv))"

section \<open>Reading back a line\<close>

lemma quoted_field_plain: "c \<noteq> quote \<Longrightarrow> quoted_field (c # t) = apfst (Cons c) (quoted_field t)"
  by (cases t) simp_all

lemma quoted_field_end: "r = [] \<or> hd r \<noteq> quote \<Longrightarrow> quoted_field (quote # r) = ([], r)"
  by (cases r) auto

lemma quoted_field_escape:
  assumes "quoted_field (quote # r) = ([], r)"
  shows "quoted_field (concat (map (\<lambda>c. if c = quote then [quote, quote] else [c]) v) @ quote # r) = (v, r)"
proof (induction v)
  case (Cons c v)
  then show ?case by (cases "c = quote") (simp_all add: quoted_field_plain)
qed (simp add: assms)

lemma csv_field_escape:
  assumes "r = [] \<or> hd r = CHR '',''"
  shows "csv_field (csv_escape v @ r) = (v, r)"
proof (cases "CHR '','' \<in> set v \<or> quote \<in> set v \<or> newline \<in> set v")
  case True
  have "quoted_field (quote # r) = ([], r)" using assms by (intro quoted_field_end) (auto simp: quote_def)
  with True show ?thesis by (simp add: csv_escape_def csv_field_def quoted_field_escape)
next
  case False
  have "takeWhile (\<lambda>c. c \<noteq> CHR '','') (v @ r) = v" "dropWhile (\<lambda>c. c \<noteq> CHR '','') (v @ r) = r"
  proof -
    have c: "c \<noteq> CHR '',''" if "c \<in> set v" for c using False that by auto
    have "takeWhile (\<lambda>c. c \<noteq> CHR '','') r = []" "dropWhile (\<lambda>c. c \<noteq> CHR '','') r = r"
      using assms by (cases r; simp)+
    then show "takeWhile (\<lambda>c. c \<noteq> CHR '','') (v @ r) = v" "dropWhile (\<lambda>c. c \<noteq> CHR '','') (v @ r) = r"
      using takeWhile_append2 [of v "\<lambda>c. c \<noteq> CHR '',''" r] dropWhile_append2 [of v "\<lambda>c. c \<noteq> CHR '',''" r] c
      by simp_all
  qed
  moreover have "\<exists>c t. v @ r = c # t \<and> c \<noteq> quote" if "v @ r \<noteq> []"
    using False assms that by (cases v) (auto simp: quote_def neq_Nil_conv)
  ultimately show ?thesis using False by (cases "v @ r") (auto simp: csv_escape_def csv_field_def)
qed

lemma parse_csv_join:
  "fs \<noteq> [] \<Longrightarrow> parse_csv_line (join_commas (map csv_escape fs)) = fs"
proof (induction fs rule: join_commas.induct)
  case (2 f)
  then show ?case using csv_field_escape [of "[]" f] by (subst parse_csv_line.simps) simp
next
  case (3 f g fs)
  show ?case using csv_field_escape [of "CHR '','' # join_commas (map csv_escape (g # fs))" f]
    by (subst parse_csv_line.simps) (simp add: "3.IH" [simplified])
qed simp

section \<open>Reading back a file\<close>

text \<open>The fields that need no quotation marks.\<close>

definition bare :: "string \<Rightarrow> bool" where
  "bare s \<longleftrightarrow> list_all (\<lambda>c. c \<noteq> CHR '','' \<and> c \<noteq> quote \<and> c \<noteq> newline) s"

lemma csv_escape_bare: "bare s \<Longrightarrow> csv_escape s = s"
  by (auto simp: bare_def csv_escape_def list_all_iff)

lemma bare_number: "list_all number_char s \<Longrightarrow> bare s"
  by (auto simp: bare_def list_all_iff number_char_def quote_def newline_def is_digit_def digit_of_def)

lemma number_chars_show_fixed: "list_all number_char (show_fixed n x)"
  using number_chars_digits [of "show_nat k" for k] number_chars_digits [of "pad_left n (show_nat k)" for k]
  by (simp add: show_fixed_def Let_def number_char_def)

lemma bare_enums:
  "bare (sim_side_to_string a)" "bare (sim_order_type_to_string b)" "bare (sim_order_status_to_string c)"
  "bare (abuse_pattern_to_string p)"
  by (cases a, simp_all add: bare_def quote_def newline_def, cases b, simp_all, cases c, simp_all, cases p, simp_all)

lemmas csv_plain = csv_escape_bare [OF bare_number [OF number_chars_show_fixed]]
  csv_escape_bare [OF bare_number [OF number_chars_show_int(1)]] bare_enums [THEN csv_escape_bare]

lemma get_lines_line: "newline \<notin> set l \<Longrightarrow> get_lines (l @ newline # r) = l # get_lines r"
proof (cases l)
  case (Cons c t)
  assume l: "newline \<notin> set l"
  have "takeWhile (\<lambda>c. c \<noteq> newline) (l @ newline # r) = l" "dropWhile (\<lambda>c. c \<noteq> newline) (l @ newline # r) = newline # r"
  proof -
    have "c \<noteq> newline" if "c \<in> set l" for c using l that by auto
    then show "takeWhile (\<lambda>c. c \<noteq> newline) (l @ newline # r) = l"
      "dropWhile (\<lambda>c. c \<noteq> newline) (l @ newline # r) = newline # r"
      using takeWhile_append2 [of l "\<lambda>c. c \<noteq> newline" "newline # r"]
        dropWhile_append2 [of l "\<lambda>c. c \<noteq> newline" "newline # r"] by simp_all
  qed
  then show ?thesis unfolding Cons append_Cons get_lines.simps by simp
qed simp

lemma get_lines_file:
  "list_all (\<lambda>x. newline \<notin> set (f x)) xs \<Longrightarrow> get_lines (concat (map (\<lambda>x. f x @ [newline]) xs)) = map f xs"
  by (induction xs) (simp_all add: get_lines_line)

lemma split_lines_file:
  assumes "newline \<notin> set header" and "header \<noteq> []" and "list_all (\<lambda>x. newline \<notin> set (f x) \<and> f x \<noteq> []) xs"
  shows "tl (split_lines (header @ [newline] @ concat (map (\<lambda>x. f x @ [newline]) xs))) = map f xs"
proof -
  have "get_lines (concat (map (\<lambda>x. f x @ [newline]) xs)) = map f xs"
    by (rule get_lines_file) (use assms(3) in \<open>simp add: list_all_iff\<close>)
  moreover have "filter (\<lambda>l. l \<noteq> []) (map f xs) = map f xs"
    using assms(3) by (simp add: filter_id_conv list_all_iff)
  ultimately show ?thesis using assms(1,2) by (simp add: split_lines_def get_lines_line)
qed

text \<open>The strings that survive: no newline in them.  The numbers: as fixed notation keeps them.\<close>

definition one_line :: "string \<Rightarrow> bool" where
  "one_line s \<longleftrightarrow> newline \<notin> set s"

lemma one_line_escape: "one_line s \<Longrightarrow> newline \<notin> set (csv_escape s)"
  by (auto simp: one_line_def csv_escape_def)

lemma one_line_join: "list_all (\<lambda>f. newline \<notin> set f) fs \<Longrightarrow> newline \<notin> set (join_commas fs)"
  by (induction fs rule: join_commas.induct) (auto simp: newline_def)

definition csv_order :: "sim_order \<Rightarrow> bool" where
  "csv_order order \<longleftrightarrow>
     list_all one_line [so_order_id order, so_account_id order, so_instrument_id order, so_venue order,
       gt_scenario_id (so_label order)] \<and>
     \<bar>so_price order\<bar> \<le> 2 ^ 53 \<and> \<bar>gt_severity (so_label order)\<bar> \<le> 2 ^ 53 \<and>
     in_int64 (so_qty order) \<and> in_int64 (so_timestamp_ns order)"

definition csv_execution :: "sim_execution \<Rightarrow> bool" where
  "csv_execution x \<longleftrightarrow>
     list_all one_line [sx_trade_id x, sx_order_id x, sx_account_id x, sx_instrument_id x,
       sx_counterparty_account_id x, sx_venue x, gt_scenario_id (sx_label x)] \<and>
     \<bar>sx_price x\<bar> \<le> 2 ^ 53 \<and> \<bar>gt_severity (sx_label x)\<bar> \<le> 2 ^ 53 \<and>
     in_int64 (sx_qty x) \<and> in_int64 (sx_timestamp_ns x)"

definition order_to_8_decimals :: "sim_order \<Rightarrow> sim_order" where
  "order_to_8_decimals order = order\<lparr>so_price := rnd64 (fixed_value 8 (so_price order)),
     so_label := (so_label order)\<lparr>gt_severity := rnd64 (fixed_value 8 (gt_severity (so_label order)))\<rparr>\<rparr>"

definition execution_to_8_decimals :: "sim_execution \<Rightarrow> sim_execution" where
  "execution_to_8_decimals x = x\<lparr>sx_price := rnd64 (fixed_value 8 (sx_price x)),
     sx_label := (sx_label x)\<lparr>gt_severity := rnd64 (fixed_value 8 (gt_severity (sx_label x)))\<rparr>\<rparr>"

text \<open>The fields of a line, before they are escaped.\<close>

definition order_fields :: "sim_order \<Rightarrow> string list" where
  "order_fields order = [so_order_id order, so_account_id order, so_instrument_id order,
     sim_side_to_string (so_side order), show_fixed 8 (so_price order), show_int (so_qty order),
     sim_order_type_to_string (so_order_type order), show_int (so_timestamp_ns order),
     sim_order_status_to_string (so_status order), so_venue order,
     abuse_pattern_to_string (gt_pattern (so_label order)), gt_scenario_id (so_label order),
     show_fixed 8 (gt_severity (so_label order))]"

definition execution_fields :: "sim_execution \<Rightarrow> string list" where
  "execution_fields x = [sx_trade_id x, sx_order_id x, sx_account_id x, sx_instrument_id x,
     show_fixed 8 (sx_price x), show_int (sx_qty x), show_int (sx_timestamp_ns x),
     sx_counterparty_account_id x, sx_venue x, abuse_pattern_to_string (gt_pattern (sx_label x)),
     gt_scenario_id (sx_label x), show_fixed 8 (gt_severity (sx_label x))]"

lemma line_fields:
  "order_line order = join_commas (map csv_escape (order_fields order))"
  "execution_line x = join_commas (map csv_escape (execution_fields x))"
  by (simp_all only: order_line_def order_fields_def execution_line_def execution_fields_def list.map csv_plain)

lemma parse_line_fields:
  "parse_csv_line (order_line order) = order_fields order"
  "parse_csv_line (execution_line x) = execution_fields x"
  by (simp_all add: line_fields parse_csv_join order_fields_def execution_fields_def del: join_commas.simps list.map)

lemma order_from_line_inverse:
  assumes "csv_order order"
  shows "order_from_line (order_line order) = Inr (order_to_8_decimals order)"
proof -
  have "stod (show_fixed 8 (so_price order)) = Inr (rnd64 (fixed_value 8 (so_price order)))"
    "stod (show_fixed 8 (gt_severity (so_label order))) = Inr (rnd64 (fixed_value 8 (gt_severity (so_label order))))"
    using assms by (simp_all add: csv_order_def stod_show_fixed)
  with assms show ?thesis
    by (simp add: order_from_line_def parse_line_fields order_fields_def csv_read_def enum_of_def number_of_def
        order_to_8_decimals_def csv_order_def in_int64_def numeral_eq_Suc)
qed

lemma execution_from_line_inverse:
  assumes "csv_execution x"
  shows "execution_from_line (execution_line x) = Inr (execution_to_8_decimals x)"
proof -
  have "stod (show_fixed 8 (sx_price x)) = Inr (rnd64 (fixed_value 8 (sx_price x)))"
    "stod (show_fixed 8 (gt_severity (sx_label x))) = Inr (rnd64 (fixed_value 8 (gt_severity (sx_label x))))"
    using assms by (simp_all add: csv_execution_def stod_show_fixed)
  with assms show ?thesis
    by (simp add: execution_from_line_def parse_line_fields execution_fields_def csv_read_def enum_of_def
        number_of_def execution_to_8_decimals_def csv_execution_def in_int64_def numeral_eq_Suc)
qed

lemma bareD: "bare s \<Longrightarrow> newline \<notin> set s"
  by (auto simp: bare_def list_all_iff)

lemmas bare_newline = bareD [OF bare_number [OF number_chars_show_fixed]]
  bareD [OF bare_number [OF number_chars_show_int(1)]] bare_enums [THEN bareD]

lemma newline_comma [simp]: "newline \<noteq> CHR '',''"
  by (simp add: newline_def)

lemma order_line_one_line: "csv_order order \<Longrightarrow> newline \<notin> set (order_line order) \<and> order_line order \<noteq> []"
  by (auto simp: order_line_def csv_order_def one_line_escape bare_newline intro!: one_line_join)

lemma execution_line_one_line: "csv_execution x \<Longrightarrow> newline \<notin> set (execution_line x) \<and> execution_line x \<noteq> []"
  by (auto simp: execution_line_def csv_execution_def one_line_escape bare_newline intro!: one_line_join)

lemma headers [simp]:
  "newline \<notin> set orders_header" "orders_header \<noteq> []" "newline \<notin> set executions_header" "executions_header \<noteq> []"
  by (simp_all add: orders_header_def executions_header_def newline_def)

lemma parse_orders_file:
  assumes "list_all csv_order orders"
  shows "parse_orders_csv (orders_to_csv orders) = Inr (map order_to_8_decimals orders)"
proof -
  have "tl (split_lines (orders_to_csv orders)) = map order_line orders"
    unfolding orders_to_csv_def using assms order_line_one_line by (intro split_lines_file) (simp_all add: list_all_iff)
  moreover have "all_of order_from_line (map order_line orders) = Inr (map order_to_8_decimals orders)"
    using assms by (induction orders) (simp_all add: order_from_line_inverse)
  ultimately show ?thesis by (simp add: parse_orders_csv_def)
qed

lemma parse_executions_file:
  assumes "list_all csv_execution xs"
  shows "parse_executions_csv (executions_to_csv xs) = Inr (map execution_to_8_decimals xs)"
proof -
  have "tl (split_lines (executions_to_csv xs)) = map execution_line xs"
    unfolding executions_to_csv_def using assms execution_line_one_line
    by (intro split_lines_file) (simp_all add: list_all_iff)
  moreover have "all_of execution_from_line (map execution_line xs) = Inr (map execution_to_8_decimals xs)"
    using assms by (induction xs) (simp_all add: execution_from_line_inverse)
  ultimately show ?thesis by (simp add: parse_executions_csv_def)
qed

lemma decimals_fixed:
  assumes "decimals 8 x"
  shows "rnd64 (fixed_value 8 x) = x"
proof -
  obtain k where k: "\<bar>k\<bar> < 2 ^ 52" "x = rnd64 (of_int k / 10 ^ 8)" using assms by (auto simp: decimals_def)
  have "fixed_value 8 x = of_int k / 10 ^ 8" by (rule fixed_value_decimal [OF k(1) _ k(2)]) simp
  then show ?thesis by (simp only: k(2))
qed

definition eight_decimals :: "sim_order \<Rightarrow> bool" where
  "eight_decimals order \<longleftrightarrow> decimals 8 (so_price order) \<and> decimals 8 (gt_severity (so_label order))"

lemma eight_decimals_kept: "list_all eight_decimals orders \<Longrightarrow> map order_to_8_decimals orders = orders"
  by (induction orders) (simp_all add: eight_decimals_def order_to_8_decimals_def decimals_fixed)

section \<open>Properties\<close>

text \<open>
  C39: the CSV files.  If no string has a newline in it, commas and quotation marks
  notwithstanding, and prices and severities are at most \<open>2^53\<close> in absolute value, both parsers read back every record that was written, with each price and
  severity replaced by the \<open>double\<close> nearest to it rounded to eight decimals; and orders whose
  prices and severities have at most eight decimals come back unchanged.
\<close>

theorem csv_roundtrip:
  assumes "list_all csv_order orders" and "list_all csv_execution executions"
  shows "parse_orders_csv (orders_to_csv orders) = Inr (map order_to_8_decimals orders) \<and>
    parse_executions_csv (executions_to_csv executions) = Inr (map execution_to_8_decimals executions) \<and>
    (list_all eight_decimals orders \<longrightarrow> parse_orders_csv (orders_to_csv orders) = Inr orders)"
  using parse_orders_file [OF assms(1)] parse_executions_file [OF assms(2)] eight_decimals_kept by auto

definition csv_example :: sim_order where
  "csv_example = \<lparr>so_order_id = [quote, CHR '',''], so_account_id = ''A'', so_instrument_id = ''ES'',
     so_side = SSell, so_price = rnd64 (1 / 10), so_qty = 5, so_order_type = SLimit,
     so_timestamp_ns = 2 ^ 63 - 1, so_status = SCancelled, so_venue = ''SIM'',
     so_label = \<lparr>gt_pattern = Wash_Trade_Pattern, gt_scenario_id = ''SCN'', gt_severity = 0\<rparr>\<rparr>"

theorem csv_roundtrip_witness:
  "parse_orders_csv (orders_to_csv [csv_example]) = Inr [csv_example]"
proof -
  have ok: "csv_order csv_example"
    by (simp add: csv_order_def csv_example_def one_line_def quote_def newline_def in_int64_def float_eval)
  have "rnd64 (1 / 10) = rnd64 (of_int 10000000 / 10 ^ 8)" by simp
  then have "decimals 8 (rnd64 (1 / 10))" unfolding decimals_def by (intro exI [of _ 10000000]) simp
  moreover have "decimals 8 0" unfolding decimals_def by (intro exI [of _ 0]) simp
  ultimately have "eight_decimals csv_example" by (simp add: eight_decimals_def csv_example_def)
  then have "list_all csv_order [csv_example]" "list_all eight_decimals [csv_example]" using ok by simp_all
  with csv_roundtrip [of "[csv_example]" "[]"] show ?thesis by (metis list.pred_inject(1))
qed

text \<open>
  Newlines.  The writer puts a field with a newline in quotation marks, but the reader
  cuts the text into lines before it looks at quotation marks: of a file whose first order has a
  newline in its id, the parser rejects the first line, for having one column.
\<close>

theorem csv_newline_rejected:
  assumes "so_order_id order = a @ newline # b" and "newline \<notin> set a"
  shows "parse_orders_csv (orders_to_csv (order # rest)) = Inl (Wrong_Columns 1)"
proof -
  let ?esc = "concat (map (\<lambda>c. if c = quote then [quote, quote] else [c]) a)"
  have esc: "newline \<notin> set (quote # ?esc)" using assms(2) by auto
  obtain r where "order_line order = csv_escape (so_order_id order) @ r" by (auto simp: order_line_def)
  then obtain r' where line: "order_line order = quote # ?esc @ newline # r'"
    by (simp add: csv_escape_def assms(1))
  have "quoted_field ?esc = (a, [])"
  proof (induction a)
    case (Cons c a)
    then show ?case by (cases "c = quote") (simp_all add: quoted_field_plain)
  qed simp
  then have one: "parse_csv_line (quote # ?esc) = [a]"
    by (subst parse_csv_line.simps) (simp add: csv_field_def)
  have "\<exists>ls. tl (split_lines (orders_to_csv (order # rest))) = (quote # ?esc) # ls"
    using get_lines_line [OF esc] by (simp add: orders_to_csv_def split_lines_def get_lines_line line)
  then show ?thesis by (auto simp: parse_orders_csv_def order_from_line_def one)
qed

theorem csv_newline_rejected_witness:
  "parse_orders_csv (orders_to_csv [csv_example\<lparr>so_order_id := [newline]\<rparr>]) = Inl (Wrong_Columns 1)"
  by (rule csv_newline_rejected [where a = "[]" and b = "[]"]) simp_all

end
