(* ===== verification/Fix_Writer.thy ===== *)
theory Fix_Writer
  imports Sim_Types Fixed_Decimal "HOL-Library.Signed_Division" "HOL-Library.Multiset"
begin

text \<open>
  \<open>cpp/simulator/serialization/fix_writer.cpp\<close>: FIX 4.2 messages as text, with their body length
  and checksum, and the merge of orders and executions into a stream of them.  \<open>gmtime_r\<close> is
  the proleptic Gregorian calendar in UTC; \<open>int64_t\<close> division truncates towards zero.
\<close>

section \<open>Times and prices\<close>

definition soh :: char where "soh = CHR 0x01"

text \<open>\<open>gmtime_r\<close>: year, month and day from the days since 1970.\<close>

definition civil_from_days :: "int \<Rightarrow> int \<times> nat \<times> nat" where
  "civil_from_days days =
     (let z = days + 719468;
          era = z div 146097;
          doe = z mod 146097;
          yoe = (doe - doe div 1460 + doe div 36524 - doe div 146096) div 365;
          doy = doe - (365 * yoe + yoe div 4 - yoe div 100);
          mp = (5 * doy + 2) div 153;
          month = (if mp < 10 then mp + 3 else mp - 9)
      in (yoe + era * 400 + (if month \<le> 2 then 1 else 0), nat month, nat (doy - (153 * mp + 2) div 5 + 1)))"

definition two_digits :: "nat \<Rightarrow> string" where
  "two_digits n = pad_left 2 (show_nat n)"

definition put_time_utc :: "int \<Rightarrow> string" where
  "put_time_utc t =
     (let (year, month, day) = civil_from_days (t div 86400); s = nat (t mod 86400)
      in show_int year @ two_digits month @ two_digits day @ ''-'' @
         two_digits (s div 3600) @ '':'' @ two_digits (s mod 3600 div 60) @ '':'' @ two_digits (s mod 60))"

definition format_utc_timestamp :: "int \<Rightarrow> string" where
  "format_utc_timestamp timestamp_ns =
     (let whole_seconds = timestamp_ns sdiv 1000000000;
          millis = (timestamp_ns smod 1000000000) sdiv 1000000;
          millis' = (if millis < 0 then millis + 1000 else millis)
      in put_time_utc whole_seconds @ ''.'' @ pad_left 3 (show_nat (nat millis')))"

definition format_price :: "double \<Rightarrow> string" where
  "format_price price = show_fixed 6 price"

definition fix_side :: "sim_side \<Rightarrow> string" where
  "fix_side side = (if side = SBuy then ''1'' else ''2'')"

definition fix_ord_type :: "sim_order_type \<Rightarrow> string" where
  "fix_ord_type type = (if type = SMarket then ''1'' else ''2'')"

section \<open>Messages\<close>

record fix_builder =
  fb_sender_comp_id :: string
  fb_target_comp_id :: string
  fb_seq_num :: int

definition new_builder :: "string \<Rightarrow> string \<Rightarrow> fix_builder" where
  "new_builder sender target = \<lparr>fb_sender_comp_id = sender, fb_target_comp_id = target, fb_seq_num = 1\<rparr>"

definition fix_field :: "string \<Rightarrow> string \<Rightarrow> string" where
  "fix_field tag value = tag @ ''='' @ value @ [soh]"

text \<open>The loop over \<open>unsigned char\<close>s into an \<open>unsigned int\<close>.\<close>

definition checksum :: "string \<Rightarrow> nat" where
  "checksum s = unat (foldl (\<lambda>sum c. sum + of_nat (of_char c)) (0 :: 32 word) s mod 256)"

definition assemble :: "string \<Rightarrow> string \<Rightarrow> int \<Rightarrow> fix_builder \<Rightarrow> string \<times> fix_builder" where
  "assemble msg_type body_fields timestamp_ns b =
     (let header = fix_field ''35'' msg_type @ fix_field ''49'' (fb_sender_comp_id b) @
            fix_field ''56'' (fb_target_comp_id b) @ fix_field ''34'' (show_int (fb_seq_num b)) @
            fix_field ''52'' (format_utc_timestamp timestamp_ns) @ body_fields;
          full = fix_field ''8'' ''FIX.4.2'' @ fix_field ''9'' (show_nat (length header)) @ header
      in (full @ fix_field ''10'' (pad_left 3 (show_nat (checksum full))),
          b\<lparr>fb_seq_num := fb_seq_num b + 1\<rparr>))"

definition build_new_order_single :: "sim_order \<Rightarrow> fix_builder \<Rightarrow> string \<times> fix_builder" where
  "build_new_order_single order =
     assemble ''D''
       (fix_field ''11'' (so_order_id order) @ fix_field ''1'' (so_account_id order) @
        fix_field ''55'' (so_instrument_id order) @ fix_field ''54'' (fix_side (so_side order)) @
        fix_field ''38'' (show_int (so_qty order)) @ fix_field ''40'' (fix_ord_type (so_order_type order)) @
        fix_field ''44'' (format_price (so_price order)) @
        fix_field ''60'' (format_utc_timestamp (so_timestamp_ns order)) @ fix_field ''100'' (so_venue order))
       (so_timestamp_ns order)"

definition build_order_cancel_request :: "sim_order \<Rightarrow> fix_builder \<Rightarrow> string \<times> fix_builder" where
  "build_order_cancel_request order =
     assemble ''F''
       (fix_field ''11'' (so_order_id order) @ fix_field ''41'' (so_order_id order) @
        fix_field ''1'' (so_account_id order) @ fix_field ''55'' (so_instrument_id order) @
        fix_field ''54'' (fix_side (so_side order)) @ fix_field ''38'' (show_int (so_qty order)) @
        fix_field ''60'' (format_utc_timestamp (so_timestamp_ns order)))
       (so_timestamp_ns order)"

definition build_execution_report :: "sim_execution \<Rightarrow> fix_builder \<Rightarrow> string \<times> fix_builder" where
  "build_execution_report x =
     assemble ''8''
       (fix_field ''37'' (sx_order_id x) @ fix_field ''17'' (sx_trade_id x) @
        fix_field ''1'' (sx_account_id x) @ fix_field ''55'' (sx_instrument_id x) @
        fix_field ''150'' ''F'' @ fix_field ''39'' ''2'' @
        fix_field ''32'' (show_int (sx_qty x)) @ fix_field ''31'' (format_price (sx_price x)) @
        fix_field ''14'' (show_int (sx_qty x)) @ fix_field ''151'' ''0'' @
        fix_field ''6'' (format_price (sx_price x)) @
        fix_field ''60'' (format_utc_timestamp (sx_timestamp_ns x)) @ fix_field ''100'' (sx_venue x))
       (sx_timestamp_ns x)"

section \<open>The stream\<close>

datatype fix_item = Order_Item sim_order | Execution_Item sim_execution

fun item_time :: "fix_item \<Rightarrow> int" where
  "item_time (Order_Item order) = so_timestamp_ns order"
| "item_time (Execution_Item x) = sx_timestamp_ns x"

definition fix_items :: "sim_order list \<Rightarrow> sim_execution list \<Rightarrow> fix_item list" where
  "fix_items orders executions = sort_key item_time
     (map Order_Item (filter (\<lambda>order. so_status order \<noteq> SReplaced) orders) @ map Execution_Item executions)"

fun build_item :: "fix_item \<Rightarrow> fix_builder \<Rightarrow> string list \<times> fix_builder" where
  "build_item (Execution_Item x) b = apfst (\<lambda>m. [m]) (build_execution_report x b)"
| "build_item (Order_Item order) b =
     (if so_status order = SNew then apfst (\<lambda>m. [m]) (build_new_order_single order b)
      else if so_status order = SCancelled then apfst (\<lambda>m. [m]) (build_order_cancel_request order b)
      else ([], b))"

fun build_items :: "fix_item list \<Rightarrow> fix_builder \<Rightarrow> string list" where
  "build_items [] b = []"
| "build_items (item # items) b = (let (ms, b') = build_item item b in ms @ build_items items b')"

definition to_fix_messages :: "sim_order list \<Rightarrow> sim_execution list \<Rightarrow> string list" where
  "to_fix_messages orders executions =
     build_items (fix_items orders executions) (new_builder ''TSE-SIM'' ''TSE-EXCH'')"

section \<open>What a receiver checks\<close>

text \<open>The fields of a message, as a receiver cuts them: tag and value up to each delimiter.\<close>

function split_fields :: "string \<Rightarrow> (string \<times> string) list" where
  "split_fields [] = []"
| "split_fields (c # s) =
     (let f = takeWhile (\<lambda>c. c \<noteq> soh) (c # s)
      in (takeWhile (\<lambda>c. c \<noteq> CHR ''='') f, tl (dropWhile (\<lambda>c. c \<noteq> CHR ''='') f)) #
         split_fields (tl (dropWhile (\<lambda>c. c \<noteq> soh) (c # s))))"
  by pat_completeness auto

termination
proof (relation "measure length")
  fix c s and f :: string
  have "length (dropWhile (\<lambda>c. c \<noteq> soh) s) \<le> length s" by (rule length_dropWhile_le)
  then show "(tl (dropWhile (\<lambda>c. c \<noteq> soh) (c # s)), c # s) \<in> measure length" by simp arith
qed simp

definition fields_text :: "(string \<times> string) list \<Rightarrow> string" where
  "fields_text fs = concat (map (\<lambda>(tag, value). fix_field tag value) fs)"

definition byte_sum :: "string \<Rightarrow> nat" where
  "byte_sum s = sum_list (map of_char s)"

text \<open>
  A valid message: the version, the length of everything between the length field and the
  checksum field, the rest of the message, and the sum of all bytes before the checksum field.
\<close>

definition valid_fix :: "string \<Rightarrow> bool" where
  "valid_fix m \<longleftrightarrow>
     (case split_fields m of
        version # len # rest \<Rightarrow>
          version = (''8'', ''FIX.4.2'') \<and> rest \<noteq> [] \<and>
          len = (''9'', show_nat (length (fields_text (butlast rest)))) \<and>
          last rest = (''10'', pad_left 3 (show_nat (byte_sum (fields_text (version # len # butlast rest)) mod 256))) \<and>
          m = fields_text (version # len # rest)
      | _ \<Rightarrow> False)"

definition field_value :: "string \<Rightarrow> string \<Rightarrow> string option" where
  "field_value tag m = map_of (split_fields m) tag"

section \<open>Lemmas\<close>

lemma checksum_byte_sum: "checksum s = byte_sum s mod 256"
proof -
  have "foldl (\<lambda>sum c. sum + of_nat (of_char c)) (a :: 32 word) s = a + of_nat (byte_sum s)" for a
    by (induction s arbitrary: a) (simp_all add: byte_sum_def add.assoc)
  then have "checksum s = unat ((of_nat (byte_sum s) :: 32 word) mod 256)" by (simp add: checksum_def)
  also have "\<dots> = (byte_sum s mod 2 ^ 32) mod 256" by (simp add: unat_mod unat_of_nat)
  also have "\<dots> = byte_sum s mod 256" by (rule mod_mod_cancel, rule dvdI [of _ _ 16777216]) simp
  finally show ?thesis .
qed

definition clean_value :: "string \<Rightarrow> bool" where
  "clean_value s \<longleftrightarrow> soh \<notin> set s"

definition clean_tag :: "string \<Rightarrow> bool" where
  "clean_tag s \<longleftrightarrow> s \<noteq> [] \<and> soh \<notin> set s \<and> CHR ''='' \<notin> set s"

lemma split_fields_nonempty:
  "s \<noteq> [] \<Longrightarrow> split_fields s =
     (let f = takeWhile (\<lambda>c. c \<noteq> soh) s
      in (takeWhile (\<lambda>c. c \<noteq> CHR ''='') f, tl (dropWhile (\<lambda>c. c \<noteq> CHR ''='') f)) #
         split_fields (tl (dropWhile (\<lambda>c. c \<noteq> soh) s)))"
  by (cases s) (simp_all only: split_fields.simps, simp)

lemma split_fields_field:
  assumes "clean_tag tag" and "clean_value value"
  shows "split_fields (fix_field tag value @ r) = (tag, value) # split_fields r"
proof -
  have eq: "soh \<noteq> CHR ''=''" by (simp add: soh_def)
  define f where "f = tag @ ''='' @ value"
  have f: "c \<noteq> soh" if "c \<in> set f" for c
    using assms that eq by (auto simp: f_def clean_tag_def clean_value_def)
  have tw: "takeWhile (\<lambda>c. c \<noteq> soh) (f @ soh # r) = f" "dropWhile (\<lambda>c. c \<noteq> soh) (f @ soh # r) = soh # r"
    using takeWhile_append2 [of f "\<lambda>c. c \<noteq> soh" "soh # r"] dropWhile_append2 [of f "\<lambda>c. c \<noteq> soh" "soh # r"] f
    by simp_all
  have t: "c \<noteq> CHR ''=''" if "c \<in> set tag" for c using assms(1) that by (auto simp: clean_tag_def)
  have te: "takeWhile (\<lambda>c. c \<noteq> CHR ''='') f = tag" "dropWhile (\<lambda>c. c \<noteq> CHR ''='') f = CHR ''='' # value"
    using takeWhile_append2 [of tag "\<lambda>c. c \<noteq> CHR ''=''" "CHR ''='' # value"]
      dropWhile_append2 [of tag "\<lambda>c. c \<noteq> CHR ''=''" "CHR ''='' # value"] t
    by (simp_all add: f_def)
  have "fix_field tag value @ r = f @ soh # r" by (simp add: fix_field_def f_def)
  moreover have "f @ soh # r \<noteq> []" by simp
  note split_fields_nonempty [OF this]
  ultimately show ?thesis by (simp add: tw te del: split_fields.simps)
qed

lemma split_fields_text:
  "list_all (\<lambda>(tag, value). clean_tag tag \<and> clean_value value) fs \<Longrightarrow> split_fields (fields_text fs) = fs"
  by (induction fs) (auto simp: fields_text_def split_fields_field)

lemma fields_text_simps:
  "fields_text [] = []" "fields_text ((tag, value) # fs) = fix_field tag value @ fields_text fs"
  "fields_text (fs @ gs) = fields_text fs @ fields_text gs"
  by (simp_all add: fields_text_def)

lemma clean_digits: "digits s \<Longrightarrow> clean_value s"
  by (auto simp: clean_value_def list_all_iff soh_def is_digit_def digit_of_def)

lemma clean_append [simp]: "clean_value (a @ b) \<longleftrightarrow> clean_value a \<and> clean_value b"
  "clean_value (c # s) \<longleftrightarrow> c \<noteq> soh \<and> clean_value s" "clean_value []"
  by (auto simp: clean_value_def)

lemma clean_show_nat [simp]: "clean_value (show_nat n)"
  by (rule clean_digits) simp

lemma clean_show_int [simp]: "clean_value (show_int i)"
  by (simp add: show_int_def soh_def)

lemma clean_pad [simp]: "clean_value s \<Longrightarrow> clean_value (pad_left n s)"
  by (auto simp: clean_value_def soh_def)

lemma clean_two_digits [simp]: "clean_value (two_digits n)"
  unfolding two_digits_def by (rule clean_pad) simp

lemma clean_timestamp [simp]: "clean_value (format_utc_timestamp t)"
  by (simp add: format_utc_timestamp_def put_time_utc_def split_beta Let_def soh_def del: pad_left.simps)

lemma clean_price [simp]: "clean_value (format_price x)"
  by (simp add: format_price_def show_fixed_def Let_def soh_def del: pad_left.simps)

text \<open>What \<open>assemble\<close> makes of a list of clean fields.\<close>

definition fix_header :: "string \<Rightarrow> int \<Rightarrow> fix_builder \<Rightarrow> (string \<times> string) list" where
  "fix_header msg_type t b = [(''35'', msg_type), (''49'', fb_sender_comp_id b), (''56'', fb_target_comp_id b),
     (''34'', show_int (fb_seq_num b)), (''52'', format_utc_timestamp t)]"

definition clean_fields :: "(string \<times> string) list \<Rightarrow> bool" where
  "clean_fields fs \<longleftrightarrow> list_all (\<lambda>(tag, value). clean_tag tag \<and> clean_value value) fs"

lemma clean_tags [simp]:
  "clean_tag ''8''" "clean_tag ''9''" "clean_tag ''10''" "clean_tag ''35''" "clean_tag ''49''" "clean_tag ''56''"
  "clean_tag ''34''" "clean_tag ''52''" "clean_tag ''11''" "clean_tag ''41''" "clean_tag ''1''" "clean_tag ''55''"
  "clean_tag ''54''" "clean_tag ''38''" "clean_tag ''40''" "clean_tag ''44''" "clean_tag ''60''" "clean_tag ''100''"
  "clean_tag ''37''" "clean_tag ''17''" "clean_tag ''150''" "clean_tag ''39''" "clean_tag ''32''" "clean_tag ''31''"
  "clean_tag ''14''" "clean_tag ''151''" "clean_tag ''6''"
  by (simp_all add: clean_tag_def soh_def)

lemma assemble_valid:
  assumes "clean_fields fs" and "clean_value msg_type" and "clean_value (fb_sender_comp_id b)"
    and "clean_value (fb_target_comp_id b)"
  shows "valid_fix (fst (assemble msg_type (fields_text fs) t b)) \<and>
    split_fields (fst (assemble msg_type (fields_text fs) t b)) =
      (let m = fst (assemble msg_type (fields_text fs) t b); body = fix_header msg_type t b @ fs
       in [(''8'', ''FIX.4.2''), (''9'', show_nat (length (fields_text body)))] @ body @
          [(''10'', pad_left 3 (show_nat (byte_sum (fields_text ([(''8'', ''FIX.4.2''),
             (''9'', show_nat (length (fields_text body)))] @ body)) mod 256)))])"
proof -
  define body where "body = fix_header msg_type t b @ fs"
  define pre where "pre = [(''8'', ''FIX.4.2''), (''9'', show_nat (length (fields_text body)))] @ body"
  define m where "m = pre @ [(''10'', pad_left 3 (show_nat (byte_sum (fields_text pre) mod 256)))]"
  have msg: "fst (assemble msg_type (fields_text fs) t b) = fields_text m"
    by (simp add: assemble_def Let_def m_def pre_def body_def fix_header_def fields_text_simps checksum_byte_sum
        del: pad_left.simps)
  have clean: "clean_fields m"
    using assms unfolding clean_fields_def m_def pre_def body_def fix_header_def
    by (simp add: soh_def del: pad_left.simps)
  have split: "split_fields (fields_text m) = m"
    by (rule split_fields_text) (use clean in \<open>simp add: clean_fields_def\<close>)
  have "valid_fix (fields_text m)"
    unfolding valid_fix_def split by (simp add: m_def pre_def butlast_append)
  with split show ?thesis by (simp add: msg m_def pre_def body_def Let_def)
qed

section \<open>The messages of the stream\<close>

definition new_order_fields :: "sim_order \<Rightarrow> (string \<times> string) list" where
  "new_order_fields order = [(''11'', so_order_id order), (''1'', so_account_id order),
     (''55'', so_instrument_id order), (''54'', fix_side (so_side order)), (''38'', show_int (so_qty order)),
     (''40'', fix_ord_type (so_order_type order)), (''44'', format_price (so_price order)),
     (''60'', format_utc_timestamp (so_timestamp_ns order)), (''100'', so_venue order)]"

definition cancel_fields :: "sim_order \<Rightarrow> (string \<times> string) list" where
  "cancel_fields order = [(''11'', so_order_id order), (''41'', so_order_id order), (''1'', so_account_id order),
     (''55'', so_instrument_id order), (''54'', fix_side (so_side order)), (''38'', show_int (so_qty order)),
     (''60'', format_utc_timestamp (so_timestamp_ns order))]"

definition report_fields :: "sim_execution \<Rightarrow> (string \<times> string) list" where
  "report_fields x = [(''37'', sx_order_id x), (''17'', sx_trade_id x), (''1'', sx_account_id x),
     (''55'', sx_instrument_id x), (''150'', ''F''), (''39'', ''2''), (''32'', show_int (sx_qty x)),
     (''31'', format_price (sx_price x)), (''14'', show_int (sx_qty x)), (''151'', ''0''),
     (''6'', format_price (sx_price x)), (''60'', format_utc_timestamp (sx_timestamp_ns x)), (''100'', sx_venue x)]"

fun item_type :: "fix_item \<Rightarrow> string" where
  "item_type (Execution_Item x) = ''8''"
| "item_type (Order_Item order) = (if so_status order = SNew then ''D'' else ''F'')"

fun item_fields :: "fix_item \<Rightarrow> (string \<times> string) list" where
  "item_fields (Execution_Item x) = report_fields x"
| "item_fields (Order_Item order) = (if so_status order = SNew then new_order_fields order else cancel_fields order)"

fun item_clean :: "fix_item \<Rightarrow> bool" where
  "item_clean (Order_Item order) \<longleftrightarrow> so_status order \<noteq> SReplaced \<and>
     list_all clean_value [so_order_id order, so_account_id order, so_instrument_id order, so_venue order]"
| "item_clean (Execution_Item x) \<longleftrightarrow>
     list_all clean_value [sx_order_id x, sx_trade_id x, sx_account_id x, sx_instrument_id x, sx_venue x]"

lemma build_item_assemble:
  assumes "item_clean item"
  shows "build_item item b = apfst (\<lambda>m. [m]) (assemble (item_type item) (fields_text (item_fields item)) (item_time item) b)"
proof (cases item)
  case (Order_Item order)
  then show ?thesis using assms
    by (cases "so_status order") (simp_all add: build_new_order_single_def build_order_cancel_request_def
        new_order_fields_def cancel_fields_def fields_text_simps)
qed (simp add: build_execution_report_def report_fields_def fields_text_simps)

lemma item_fields_clean: "item_clean item \<Longrightarrow> clean_fields (item_fields item) \<and> clean_value (item_type item)"
  by (cases item) (auto simp: clean_fields_def new_order_fields_def cancel_fields_def report_fields_def
      fix_side_def fix_ord_type_def soh_def)

definition session :: "int \<Rightarrow> fix_builder" where
  "session n = (new_builder ''TSE-SIM'' ''TSE-EXCH'')\<lparr>fb_seq_num := n\<rparr>"

lemma session_simps [simp]:
  "fb_seq_num (session n) = n" "fb_sender_comp_id (session n) = ''TSE-SIM''" "fb_target_comp_id (session n) = ''TSE-EXCH''"
  "(session n)\<lparr>fb_seq_num := k\<rparr> = session k" "new_builder ''TSE-SIM'' ''TSE-EXCH'' = session 1"
  by (simp_all add: session_def new_builder_def)

definition item_message :: "fix_item \<Rightarrow> int \<Rightarrow> string" where
  "item_message item n = fst (assemble (item_type item) (fields_text (item_fields item)) (item_time item) (session n))"

lemma build_item_session:
  "item_clean item \<Longrightarrow> build_item item (session n) = ([item_message item n], session (n + 1))"
  by (simp add: build_item_assemble item_message_def assemble_def Let_def)

lemma build_items_session:
  "list_all item_clean items \<Longrightarrow>
   build_items items (session n) = map (\<lambda>k. item_message (items ! k) (n + int k)) [0..<length items]"
proof (induction items arbitrary: n)
  case (Cons item items)
  then show ?case
    by (simp add: build_item_session map_upt_Suc add.assoc del: upt_Suc)
qed simp

definition item_text_fields :: "fix_item \<Rightarrow> int \<Rightarrow> (string \<times> string) list" where
  "item_text_fields item n = fix_header (item_type item) (item_time item) (session n) @ item_fields item"

lemma item_tags_distinct: "distinct (map fst (item_text_fields item n)) \<and>
    {''8'', ''9'', ''10''} \<inter> fst ` set (item_text_fields item n) = {}"
  by (cases item) (simp_all add: item_text_fields_def fix_header_def report_fields_def new_order_fields_def cancel_fields_def)

lemma item_message_valid:
  assumes "item_clean item"
  shows "valid_fix (item_message item n) \<and> field_value ''34'' (item_message item n) = Some (show_int n) \<and>
    field_value ''35'' (item_message item n) = Some (item_type item) \<and>
    (\<forall>(tag, value) \<in> set (item_fields item). field_value tag (item_message item n) = Some value)"
proof -
  have "clean_value ''TSE-SIM''" "clean_value ''TSE-EXCH''" by (simp_all add: soh_def)
  then have V: "valid_fix (item_message item n)"
    "\<exists>v l c. split_fields (item_message item n) = [(''8'', v), (''9'', l)] @ item_text_fields item n @ [(''10'', c)]"
    using assemble_valid [of "item_fields item" "item_type item" "session n" "item_time item", folded item_message_def]
      item_fields_clean [OF assms] by (simp_all add: Let_def item_text_fields_def)
  then obtain v l c where split:
    "split_fields (item_message item n) = [(''8'', v), (''9'', l)] @ item_text_fields item n @ [(''10'', c)]" by blast
  have "distinct (map fst (split_fields (item_message item n)))"
    using item_tags_distinct [of item n] by (simp add: split)
  then have "field_value tag (item_message item n) = Some val" if "(tag, val) \<in> set (item_text_fields item n)" for tag val
    unfolding field_value_def using that by (intro map_of_is_SomeI) (simp_all add: split)
  moreover have "set (item_fields item) \<subseteq> set (item_text_fields item n)" by (simp add: item_text_fields_def)
  moreover have "(''34'', show_int n) \<in> set (item_text_fields item n)" "(''35'', item_type item) \<in> set (item_text_fields item n)"
    by (simp_all add: item_text_fields_def fix_header_def)
  ultimately show ?thesis using V(1) by blast
qed

section \<open>Properties\<close>

definition clean_order :: "sim_order \<Rightarrow> bool" where
  "clean_order order \<longleftrightarrow>
     list_all clean_value [so_order_id order, so_account_id order, so_instrument_id order, so_venue order]"

definition clean_execution :: "sim_execution \<Rightarrow> bool" where
  "clean_execution x \<longleftrightarrow>
     list_all clean_value [sx_order_id x, sx_trade_id x, sx_account_id x, sx_instrument_id x, sx_venue x]"

lemma fix_items_clean:
  "list_all clean_order orders \<Longrightarrow> list_all clean_execution executions \<Longrightarrow> list_all item_clean (fix_items orders executions)"
  by (auto simp: fix_items_def list_all_iff clean_order_def clean_execution_def)

text \<open>
  The FIX stream.  If no string has the delimiter in it, every message is accepted by a
  receiver that checks its body length and checksum; the messages are those of the orders that
  are not replacements and of the executions, in order of time, numbered from 1; and each
  has the type of its item and, in their tags, exactly its values.
\<close>

theorem fix_stream_valid:
  assumes "list_all clean_order orders" and "list_all clean_execution executions"
  shows "let ms = to_fix_messages orders executions; items = fix_items orders executions
    in length ms = length items \<and> sorted (map item_time items) \<and>
       mset items = image_mset Order_Item (mset (filter (\<lambda>o'. so_status o' \<noteq> SReplaced) orders)) +
         image_mset Execution_Item (mset executions) \<and>
       (\<forall>k < length ms. valid_fix (ms ! k) \<and> field_value ''34'' (ms ! k) = Some (show_int (int k + 1)) \<and>
          field_value ''35'' (ms ! k) = Some (item_type (items ! k)) \<and>
          (\<forall>(tag, value) \<in> set (item_fields (items ! k)). field_value tag (ms ! k) = Some value))"
proof -
  define items where "items = fix_items orders executions"
  note clean = fix_items_clean [OF assms, folded items_def]
  have ms: "to_fix_messages orders executions = map (\<lambda>k. item_message (items ! k) (1 + int k)) [0..<length items]"
    using build_items_session [OF clean, of 1] by (simp add: to_fix_messages_def items_def)
  have "sorted (map item_time items)" by (simp add: items_def fix_items_def)
  moreover have "mset items = image_mset Order_Item (mset (filter (\<lambda>o'. so_status o' \<noteq> SReplaced) orders)) +
      image_mset Execution_Item (mset executions)" by (simp add: items_def fix_items_def)
  moreover have "item_clean (items ! k)" if "k < length items" for k
    using clean that by (simp add: list_all_length)
  ultimately show ?thesis using item_message_valid by (simp add: ms add.commute flip: items_def)
qed

definition fix_example :: sim_order where
  "fix_example = \<lparr>so_order_id = ''1'', so_account_id = ''A'', so_instrument_id = ''ES'', so_side = SSell, so_price = 1,
     so_qty = 5, so_order_type = SLimit, so_timestamp_ns = 3, so_status = SCancelled, so_venue = ''SIM'',
     so_label = baseline_label\<rparr>"

theorem fix_stream_valid_witness:
  "list_all valid_fix (to_fix_messages [fix_example, fix_example] [])"
proof -
  have clean: "list_all clean_order [fix_example, fix_example]" by (simp add: clean_order_def fix_example_def soh_def)
  show ?thesis
    using fix_stream_valid [OF clean, of "[]"] unfolding Let_def list_all_length by simp
qed

text \<open>The label of an item does not matter to what is built of it.\<close>

fun relabel_item :: "(sim_order \<Rightarrow> ground_truth_label) \<Rightarrow> (sim_execution \<Rightarrow> ground_truth_label) \<Rightarrow> fix_item \<Rightarrow> fix_item" where
  "relabel_item f g (Order_Item order) = Order_Item (order\<lparr>so_label := f order\<rparr>)"
| "relabel_item f g (Execution_Item x) = Execution_Item (x\<lparr>sx_label := g x\<rparr>)"

lemma build_item_relabel: "build_item (relabel_item f g item) b = build_item item b"
  by (cases item) (simp_all add: build_new_order_single_def build_order_cancel_request_def build_execution_report_def)

lemma build_items_relabel: "build_items (map (relabel_item f g) items) b = build_items items b"
  by (induction items arbitrary: b) (simp_all add: build_item_relabel split_beta Let_def)

lemma sort_key_map_same: "(\<And>x. k (h x) = k x) \<Longrightarrow> sort_key k (map h xs) = map h (sort_key k xs)"
  by (simp add: sort_key_map comp_def)

lemma item_time_relabel: "item_time (relabel_item f g item) = item_time item"
  by (cases item) simp_all

text \<open>
  No ground truth in the live text.  However the orders and executions are labelled, the
  FIX messages are the same, character for character.
\<close>

theorem fix_no_label_leak:
  "to_fix_messages (map (\<lambda>order. order\<lparr>so_label := f order\<rparr>) orders) (map (\<lambda>x. x\<lparr>sx_label := g x\<rparr>) executions) =
   to_fix_messages orders executions"
proof -
  let ?h = "relabel_item f g"
  have "map Order_Item (filter (\<lambda>o'. so_status o' \<noteq> SReplaced) (map (\<lambda>order. order\<lparr>so_label := f order\<rparr>) orders)) @
      map Execution_Item (map (\<lambda>x. x\<lparr>sx_label := g x\<rparr>) executions) =
      map ?h (map Order_Item (filter (\<lambda>o'. so_status o' \<noteq> SReplaced) orders) @ map Execution_Item executions)"
    by (simp add: filter_map comp_def)
  then have "fix_items (map (\<lambda>order. order\<lparr>so_label := f order\<rparr>) orders) (map (\<lambda>x. x\<lparr>sx_label := g x\<rparr>) executions) =
      map ?h (fix_items orders executions)"
    by (simp only: fix_items_def sort_key_map_same [where k = item_time and h = "relabel_item f g", OF item_time_relabel])
  then show ?thesis by (simp add: to_fix_messages_def build_items_relabel)
qed

text \<open>
  Before 1970 the seconds are truncated towards zero but the milliseconds are made positive, so
  that two instants a second apart have the same text.
\<close>

lemma negative_timestamp_collides:
  assumes "0 < k" and "k < 1000"
  shows "format_utc_timestamp (- k * 1000000) = format_utc_timestamp ((1000 - k) * 1000000)"
proof -
  have small: "a sdiv m = 0 \<and> a smod m = a" if "\<bar>a\<bar> < m" for a m :: int
    using that by (simp add: signed_divide_int_def signed_modulo_int_def sgn_if)
  have "(- (k * 1000000)) sdiv 1000000 = - k" "((1000 - k) * 1000000) sdiv 1000000 = 1000 - k"
    using assms by (simp_all add: signed_divide_int_def sgn_mult)
  then show ?thesis
    using assms small [of "- (k * 1000000)" 1000000000] small [of "(1000 - k) * 1000000" 1000000000]
    by (simp add: format_utc_timestamp_def Let_def)
qed

end
