(* ===== verification/Evaluation.thy ===== *)
theory Evaluation
  imports Sim_Types Detector Wash_Trade Spoofing_Layering Marking_The_Close Front_Running
    Statistical_Baseline Ml_Client
begin

text \<open>
  \<open>cpp/harness/evaluation.cpp\<close>, \<open>ground_truth.cpp\<close> and \<open>json_output.cpp\<close>: the labels of a
  simulation, the event ids a detector can be scored on, the confusion matrix of its alerts at a
  threshold, and the same for the scored windows of the ML detector.  An \<open>unordered_set\<close> is a
  set and an \<open>unordered_map\<close> a partial function, since no result depends on their order; counters
  are \<open>uint64_t\<close>, and not-a-number is \<open>None\<close>.
\<close>

section \<open>Confusion matrices\<close>

record confusion_matrix =
  cm_tp :: u64
  cm_fp :: u64
  cm_fn :: u64
  cm_tn :: u64

definition empty_matrix :: confusion_matrix where
  "empty_matrix = \<lparr>cm_tp = 0, cm_fp = 0, cm_fn = 0, cm_tn = 0\<rparr>"

definition precision :: "confusion_matrix \<Rightarrow> double option" where
  "precision m =
     (if 0 < cm_tp m + cm_fp m
      then Some (fdiv (to_double (uint (cm_tp m))) (to_double (uint (cm_tp m + cm_fp m)))) else None)"

definition recall :: "confusion_matrix \<Rightarrow> double option" where
  "recall m =
     (if 0 < cm_tp m + cm_fn m
      then Some (fdiv (to_double (uint (cm_tp m))) (to_double (uint (cm_tp m + cm_fn m)))) else None)"

definition f1 :: "confusion_matrix \<Rightarrow> double option" where
  "f1 m =
     (case (precision m, recall m) of
        (Some p, Some r) \<Rightarrow>
          if fadd p r = 0 then None else Some (fdiv (fmul (fmul 2 p) r) (fadd p r))
      | _ \<Rightarrow> None)"

section \<open>Universes\<close>

record detector_universe =
  du_event_ids :: "string set"
  du_ids_by_pattern :: "abuse_pattern \<rightharpoonup> string set"

record universes =
  un_new_orders :: detector_universe
  un_cancel_orders :: detector_universe
  un_executions :: detector_universe

definition empty_universe :: detector_universe where
  "empty_universe = \<lparr>du_event_ids = {}, du_ids_by_pattern = Map.empty\<rparr>"

definition add_event :: "string \<Rightarrow> abuse_pattern \<Rightarrow> detector_universe \<Rightarrow> detector_universe" where
  "add_event event_id p u =
     u\<lparr>du_event_ids := insert event_id (du_event_ids u),
       du_ids_by_pattern := (du_ids_by_pattern u)
         (p \<mapsto> insert event_id (case du_ids_by_pattern u p of None \<Rightarrow> {} | Some ids \<Rightarrow> ids))\<rparr>"

definition universe_order :: "sim_order \<Rightarrow> universes \<Rightarrow> universes" where
  "universe_order order us =
     (case so_status order of
        SNew \<Rightarrow> us\<lparr>un_new_orders := add_event (so_order_id order) (gt_pattern (so_label order)) (un_new_orders us)\<rparr>
      | SCancelled \<Rightarrow>
          us\<lparr>un_cancel_orders := add_event (so_order_id order) (gt_pattern (so_label order)) (un_cancel_orders us)\<rparr>
      | SReplaced \<Rightarrow> us)"

definition universe_execution :: "sim_execution \<Rightarrow> universes \<Rightarrow> universes" where
  "universe_execution x us =
     us\<lparr>un_executions := add_event (sx_trade_id x) (gt_pattern (sx_label x)) (un_executions us)\<rparr>"

definition build_universes :: "simulation_output \<Rightarrow> universes" where
  "build_universes sim =
     fold universe_execution (sim_executions sim)
       (fold universe_order (sim_orders sim)
          \<lparr>un_new_orders = empty_universe, un_cancel_orders = empty_universe, un_executions = empty_universe\<rparr>)"

definition positive_ids_for :: "detector_universe \<Rightarrow> abuse_pattern \<Rightarrow> string set" where
  "positive_ids_for u p = (case du_ids_by_pattern u p of None \<Rightarrow> {} | Some ids \<Rightarrow> ids)"

definition any_abuse_ids :: "detector_universe \<Rightarrow> string set" where
  "any_abuse_ids u =
     fold (\<lambda>p result. if p = Baseline then result
           else case du_ids_by_pattern u p of None \<Rightarrow> result | Some ids \<Rightarrow> result \<union> ids)
       [Baseline, Wash_Trade_Pattern, Spoofing_Layering_Pattern, Marking_The_Close_Pattern, Front_Running_Pattern] {}"

section \<open>Scoring a detector\<close>

definition predicted_ids :: "alert list \<Rightarrow> string \<Rightarrow> double \<Rightarrow> string set \<Rightarrow> string set" where
  "predicted_ids alerts name threshold universe =
     fold (\<lambda>a predicted.
        if al_detector_name a \<noteq> name then predicted
        else if al_score a < threshold then predicted
        else fold (\<lambda>id predicted. if id \<in> universe then insert id predicted else predicted) (al_order_ids a) predicted)
       alerts {}"

definition compute_confusion_matrix ::
    "alert list \<Rightarrow> string \<Rightarrow> double \<Rightarrow> string set \<Rightarrow> string set \<Rightarrow> confusion_matrix" where
  "compute_confusion_matrix alerts name threshold universe positive =
     (let predicted = predicted_ids alerts name threshold universe
      in \<lparr>cm_tp = of_nat (card (Set.filter (\<lambda>id. id \<in> positive) predicted)),
          cm_fp = of_nat (card (Set.filter (\<lambda>id. id \<notin> positive) predicted)),
          cm_fn = of_nat (card (Set.filter (\<lambda>id. id \<notin> predicted) positive)),
          cm_tn = of_nat (card (Set.filter (\<lambda>id. id \<notin> positive \<and> id \<notin> predicted) universe))\<rparr>)"

definition threshold_sweep ::
    "alert list \<Rightarrow> string \<Rightarrow> string set \<Rightarrow> string set \<Rightarrow> double list \<Rightarrow> (double \<times> confusion_matrix) list" where
  "threshold_sweep alerts name universe positive thresholds =
     map (\<lambda>t. (t, compute_confusion_matrix alerts name t universe positive)) thresholds"

definition pattern_aware_detector_specs :: "(string \<times> abuse_pattern) list" where
  "pattern_aware_detector_specs =
     [(''WashTradeDetector'', Wash_Trade_Pattern), (''SpoofingLayeringDetector'', Spoofing_Layering_Pattern),
      (''MarkingTheCloseDetector'', Marking_The_Close_Pattern), (''FrontRunningDetector'', Front_Running_Pattern)]"

datatype universe_kind = New_Order_Universe | Cancel_Order_Universe | Execution_Universe

definition detector_universe_kind :: "string \<Rightarrow> string + universe_kind" where
  "detector_universe_kind name =
     (if name = ''WashTradeDetector'' then Inr Execution_Universe
      else if name = ''SpoofingLayeringDetector'' then Inr Cancel_Order_Universe
      else if name = ''MarkingTheCloseDetector'' then Inr Execution_Universe
      else if name = ''FrontRunningDetector'' then Inr New_Order_Universe
      else if name = ''StatisticalBaselineDetector'' then Inr New_Order_Universe
      else Inl name)"

fun select_universe :: "universes \<Rightarrow> universe_kind \<Rightarrow> detector_universe" where
  "select_universe us New_Order_Universe = un_new_orders us"
| "select_universe us Cancel_Order_Universe = un_cancel_orders us"
| "select_universe us Execution_Universe = un_executions us"

section \<open>Scoring the windows of the ML detector\<close>

type_synonym ml_ground_truth = "string \<rightharpoonup> int list"

definition add_abuse_time :: "sim_order \<Rightarrow> ml_ground_truth \<Rightarrow> ml_ground_truth" where
  "add_abuse_time order m =
     (if gt_pattern (so_label order) = Baseline then m
      else let key = so_account_id order @ ''|'' @ so_instrument_id order
           in m(key \<mapsto> (case m key of None \<Rightarrow> [] | Some ts \<Rightarrow> ts) @ [so_timestamp_ns order]))"

definition build_ml_anomaly_ground_truth :: "simulation_output \<Rightarrow> ml_ground_truth" where
  "build_ml_anomaly_ground_truth sim =
     (\<lambda>key. map_option sort (fold add_abuse_time (sim_orders sim) Map.empty key))"

text \<open>\<open>std::lower_bound\<close> on a sorted range: the first element that is not less.\<close>

definition ml_anomaly_window_is_positive :: "ml_ground_truth \<Rightarrow> alert \<Rightarrow> int \<Rightarrow> bool" where
  "ml_anomaly_window_is_positive truth a window_duration_ns =
     (case al_account_ids a of
        [] \<Rightarrow> False
      | account # _ \<Rightarrow>
          (case truth (account @ ''|'' @ al_instrument_id a) of
             None \<Rightarrow> False
           | Some timestamps \<Rightarrow>
               let window_hi = al_window_start_ns a; window_lo = window_hi - window_duration_ns
               in (case dropWhile (\<lambda>t. t < window_lo) timestamps of [] \<Rightarrow> False | t # _ \<Rightarrow> t \<le> window_hi)))"

definition count_ml_alert :: "double \<Rightarrow> ml_ground_truth \<Rightarrow> int \<Rightarrow> alert \<Rightarrow> confusion_matrix \<Rightarrow> confusion_matrix" where
  "count_ml_alert threshold truth window_duration_ns a m =
     (if al_detector_name a \<noteq> ''MlAnomalyDetector'' then m
      else let positive = ml_anomaly_window_is_positive truth a window_duration_ns;
               predicted = (threshold \<le> al_score a)
           in if predicted \<and> positive then m\<lparr>cm_tp := cm_tp m + 1\<rparr>
              else if predicted \<and> \<not> positive then m\<lparr>cm_fp := cm_fp m + 1\<rparr>
              else if \<not> predicted \<and> positive then m\<lparr>cm_fn := cm_fn m + 1\<rparr>
              else m\<lparr>cm_tn := cm_tn m + 1\<rparr>)"

definition compute_ml_anomaly_confusion_matrix ::
    "alert list \<Rightarrow> double \<Rightarrow> ml_ground_truth \<Rightarrow> int \<Rightarrow> confusion_matrix" where
  "compute_ml_anomaly_confusion_matrix alerts threshold truth window_duration_ns =
     fold (count_ml_alert threshold truth window_duration_ns) alerts empty_matrix"

definition ml_anomaly_threshold_sweep ::
    "alert list \<Rightarrow> ml_ground_truth \<Rightarrow> int \<Rightarrow> double list \<Rightarrow> (double \<times> confusion_matrix) list" where
  "ml_anomaly_threshold_sweep alerts truth window_duration_ns thresholds =
     map (\<lambda>t. (t, compute_ml_anomaly_confusion_matrix alerts t truth window_duration_ns)) thresholds"

section \<open>Labels by id\<close>

record ground_truth_index =
  gi_label_by_order_id :: "string \<rightharpoonup> ground_truth_label"
  gi_label_by_trade_id :: "string \<rightharpoonup> ground_truth_label"

definition lookup_order :: "string \<Rightarrow> ground_truth_index \<Rightarrow> ground_truth_label option" where
  "lookup_order order_id index = gi_label_by_order_id index order_id"

definition lookup_trade :: "string \<Rightarrow> ground_truth_index \<Rightarrow> ground_truth_label option" where
  "lookup_trade trade_id index = gi_label_by_trade_id index trade_id"

definition build_ground_truth_index :: "simulation_output \<Rightarrow> ground_truth_index" where
  "build_ground_truth_index sim =
     \<lparr>gi_label_by_order_id = fold (\<lambda>order m. m(so_order_id order \<mapsto> so_label order)) (sim_orders sim) Map.empty,
      gi_label_by_trade_id = fold (\<lambda>x m. m(sx_trade_id x \<mapsto> sx_label x)) (sim_executions sim) Map.empty\<rparr>"

section \<open>The JSON of a matrix\<close>

definition json_string :: "string \<Rightarrow> string" where
  "json_string s = [quote] @ escape_json s @ [quote]"

text \<open>\<open>snprintf\<close> into a buffer of 32 bytes.\<close>

definition json_number :: "double option \<Rightarrow> string" where
  "json_number v = (case v of None \<Rightarrow> ''null'' | Some x \<Rightarrow> take 31 (show_fixed 6 x))"

definition json_uint :: "u64 \<Rightarrow> string" where
  "json_uint n = show_nat (unat n)"

text \<open>\<open>JsonWriter\<close>: the text so far, with a comma before every field but the first.\<close>

definition json_field :: "string \<Rightarrow> string \<Rightarrow> string \<times> bool \<Rightarrow> string \<times> bool" where
  "json_field key raw w =
     (fst w @ (if snd w then [] else '','') @ json_string key @ '':'' @ raw, False)"

definition confusion_matrix_json :: "confusion_matrix \<Rightarrow> string" where
  "confusion_matrix_json m =
     ''{'' @ fst (json_field ''f1'' (json_number (f1 m))
       (json_field ''recall'' (json_number (recall m))
       (json_field ''precision'' (json_number (precision m))
       (json_field ''tn'' (json_uint (cm_tn m))
       (json_field ''fn'' (json_uint (cm_fn m))
       (json_field ''fp'' (json_uint (cm_fp m))
       (json_field ''tp'' (json_uint (cm_tp m)) ([], True)))))))) @ ''}''"

section \<open>What the loops compute\<close>

lemma fold_insert_universe:
  "fold (\<lambda>i predicted. if i \<in> universe then insert i predicted else predicted) ids acc = acc \<union> (set ids \<inter> universe)"
  by (induction ids arbitrary: acc) auto

lemma predicted_ids_set:
  "predicted_ids alerts name threshold universe =
     {i \<in> universe. \<exists>a \<in> set alerts. al_detector_name a = name \<and> threshold \<le> al_score a \<and> i \<in> set (al_order_ids a)}"
proof -
  have "fold (\<lambda>a predicted.
        if al_detector_name a \<noteq> name then predicted
        else if al_score a < threshold then predicted
        else fold (\<lambda>i predicted. if i \<in> universe then insert i predicted else predicted) (al_order_ids a) predicted)
      alerts acc = acc \<union> {i \<in> universe. \<exists>a \<in> set alerts. al_detector_name a = name \<and> threshold \<le> al_score a \<and>
        i \<in> set (al_order_ids a)}" for acc
    by (induction alerts arbitrary: acc) (auto simp: fold_insert_universe not_less)
  then show ?thesis by (simp add: predicted_ids_def)
qed

lemma unat_of_nat_card: "finite B \<Longrightarrow> card B < 2 ^ 64 \<Longrightarrow> A \<subseteq> B \<Longrightarrow> unat (of_nat (card A) :: u64) = card A"
  using card_mono [of B A] by (simp add: unat_of_nat)

lemma matrix_counts:
  fixes alerts name threshold universe positive
  assumes "finite universe" and "card universe < 2 ^ 64" and "positive \<subseteq> universe"
  defines "m \<equiv> compute_confusion_matrix alerts name threshold universe positive"
    and "p \<equiv> predicted_ids alerts name threshold universe"
  shows "unat (cm_tp m) = card (p \<inter> positive)" and "unat (cm_fp m) = card (p - positive)"
    and "unat (cm_fn m) = card (positive - p)" and "unat (cm_tn m) = card (universe - positive - p)"
proof -
  have p: "p \<subseteq> universe" by (auto simp: p_def predicted_ids_set)
  have sets: "Set.filter (\<lambda>i. i \<in> positive) p = p \<inter> positive" "Set.filter (\<lambda>i. i \<notin> positive) p = p - positive"
    "Set.filter (\<lambda>i. i \<notin> p) positive = positive - p"
    "Set.filter (\<lambda>i. i \<notin> positive \<and> i \<notin> p) universe = universe - positive - p" by auto
  have m: "m = \<lparr>cm_tp = of_nat (card (p \<inter> positive)), cm_fp = of_nat (card (p - positive)),
      cm_fn = of_nat (card (positive - p)), cm_tn = of_nat (card (universe - positive - p))\<rparr>"
    unfolding m_def compute_confusion_matrix_def Let_def p_def [symmetric] sets ..
  have sub: "p \<inter> positive \<subseteq> universe" "p - positive \<subseteq> universe" "positive - p \<subseteq> universe"
    "universe - positive - p \<subseteq> universe" using p assms(3) by auto
  note c = unat_of_nat_card [OF assms(1,2)]
  show "unat (cm_tp m) = card (p \<inter> positive)" "unat (cm_fp m) = card (p - positive)"
    "unat (cm_fn m) = card (positive - p)" "unat (cm_tn m) = card (universe - positive - p)"
    by (simp_all add: m c [OF sub(1)] c [OF sub(2)] c [OF sub(3)] c [OF sub(4)])
qed

text \<open>The universes of a simulation.\<close>

definition universe_of :: "(string \<times> abuse_pattern) list \<Rightarrow> detector_universe" where
  "universe_of evs = fold (\<lambda>(i, p). add_event i p) evs empty_universe"

lemma universe_of_snoc: "universe_of (evs @ [(i, p)]) = add_event i p (universe_of evs)"
  by (simp add: universe_of_def)

lemma universe_of_sets:
  "du_event_ids (universe_of evs) = fst ` set evs \<and>
   positive_ids_for (universe_of evs) q = {i. (i, q) \<in> set evs}"
proof (induction evs rule: rev_induct)
  case (snoc e evs)
  obtain i p where e: "e = (i, p)" by fastforce
  show ?case using snoc by (auto simp: e universe_of_snoc add_event_def positive_ids_for_def split: option.splits)
qed (simp add: universe_of_def empty_universe_def positive_ids_for_def)

lemma any_abuse_ids_set: "any_abuse_ids u = (\<Union>p \<in> - {Baseline}. positive_ids_for u p)"
proof -
  have "(- {Baseline}) = {Wash_Trade_Pattern, Spoofing_Layering_Pattern, Marking_The_Close_Pattern, Front_Running_Pattern}"
  proof (rule set_eqI)
    fix p show "p \<in> - {Baseline} \<longleftrightarrow> p \<in> {Wash_Trade_Pattern, Spoofing_Layering_Pattern, Marking_The_Close_Pattern, Front_Running_Pattern}"
      by (cases p) simp_all
  qed
  then show ?thesis by (auto simp: any_abuse_ids_def positive_ids_for_def split: option.splits)
qed

definition order_events :: "sim_order_status \<Rightarrow> simulation_output \<Rightarrow> (string \<times> abuse_pattern) list" where
  "order_events status sim =
     map (\<lambda>order. (so_order_id order, gt_pattern (so_label order))) (filter (\<lambda>order. so_status order = status) (sim_orders sim))"

definition execution_events :: "simulation_output \<Rightarrow> (string \<times> abuse_pattern) list" where
  "execution_events sim = map (\<lambda>x. (sx_trade_id x, gt_pattern (sx_label x))) (sim_executions sim)"

lemma fold_universe_orders:
  "fold universe_order orders us =
     us\<lparr>un_new_orders := fold (\<lambda>(i, p). add_event i p) (map (\<lambda>order. (so_order_id order, gt_pattern (so_label order)))
          (filter (\<lambda>order. so_status order = SNew) orders)) (un_new_orders us),
        un_cancel_orders := fold (\<lambda>(i, p). add_event i p) (map (\<lambda>order. (so_order_id order, gt_pattern (so_label order)))
          (filter (\<lambda>order. so_status order = SCancelled) orders)) (un_cancel_orders us)\<rparr>"
  by (induction orders arbitrary: us) (auto simp: universe_order_def split: sim_order_status.split)

lemma fold_universe_executions:
  "fold universe_execution xs us =
     us\<lparr>un_executions := fold (\<lambda>(i, p). add_event i p) (map (\<lambda>x. (sx_trade_id x, gt_pattern (sx_label x))) xs) (un_executions us)\<rparr>"
  by (induction xs arbitrary: us) (simp_all add: universe_execution_def)

lemma build_universes_parts:
  "un_new_orders (build_universes sim) = universe_of (order_events SNew sim)"
  "un_cancel_orders (build_universes sim) = universe_of (order_events SCancelled sim)"
  "un_executions (build_universes sim) = universe_of (execution_events sim)"
  by (simp_all add: build_universes_def fold_universe_orders fold_universe_executions universe_of_def
      order_events_def execution_events_def)

fun kind_events :: "universe_kind \<Rightarrow> simulation_output \<Rightarrow> (string \<times> abuse_pattern) list" where
  "kind_events New_Order_Universe sim = order_events SNew sim"
| "kind_events Cancel_Order_Universe sim = order_events SCancelled sim"
| "kind_events Execution_Universe sim = execution_events sim"

lemma select_universe_of: "select_universe (build_universes sim) kind = universe_of (kind_events kind sim)"
  by (cases kind) (simp_all add: build_universes_parts)

text \<open>The names the harness looks for are those of the detectors.\<close>

lemma specs_names:
  "map fst pattern_aware_detector_specs =
     [wash_trade_name, spoofing_layering_name, marking_the_close_name, front_running_name]"
  "detector_universe_kind statistical_baseline_name = Inr New_Order_Universe"
  "detector_universe_kind ml_detector_name = Inl ml_detector_name"
  by (simp_all add: pattern_aware_detector_specs_def wash_trade_name_def spoofing_layering_name_def
      marking_the_close_name_def front_running_name_def statistical_baseline_name_def ml_detector_name_def
      detector_universe_kind_def)

definition positives :: "detector_universe \<Rightarrow> abuse_pattern option \<Rightarrow> string set" where
  "positives u target = (case target of None \<Rightarrow> any_abuse_ids u | Some p \<Rightarrow> positive_ids_for u p)"

lemma positives_universe:
  "positives (universe_of evs) target =
     {i. \<exists>q. (i, q) \<in> set evs \<and> (case target of None \<Rightarrow> q \<noteq> Baseline | Some p \<Rightarrow> q = p)}"
  using universe_of_sets [of evs] by (auto simp: positives_def any_abuse_ids_set split: option.split)

section \<open>Properties\<close>

text \<open>
  C36: the confusion matrix counts every event once.  For the universe that belongs to a
  detector, and for one pattern or for any abuse as the target, the four counters add up to
  the number of distinct event ids, true positives and false negatives to the number of ids
  labelled with the target, and true and false positives to the number of ids named by an alert of
  that detector with a score at least the threshold.
\<close>

theorem evaluation_partition:
  assumes "detector_universe_kind name = Inr kind" and "u = select_universe (build_universes sim) kind"
    and "card (du_event_ids u) < 2 ^ 64"
  shows "let m = compute_confusion_matrix alerts name threshold (du_event_ids u) (positives u target)
    in unat (cm_tp m) + unat (cm_fp m) + unat (cm_fn m) + unat (cm_tn m) = card (fst ` set (kind_events kind sim)) \<and>
       unat (cm_tp m) + unat (cm_fn m) =
         card {i. \<exists>q. (i, q) \<in> set (kind_events kind sim) \<and> (case target of None \<Rightarrow> q \<noteq> Baseline | Some p \<Rightarrow> q = p)} \<and>
       unat (cm_tp m) + unat (cm_fp m) =
         card {i \<in> fst ` set (kind_events kind sim).
           \<exists>a \<in> set alerts. al_detector_name a = name \<and> threshold \<le> al_score a \<and> i \<in> set (al_order_ids a)}"
proof -
  define U P where "U = du_event_ids u" and "P = positives u target"
  define p where "p = predicted_ids alerts name threshold U"
  have u: "u = universe_of (kind_events kind sim)" by (simp add: assms(2) select_universe_of)
  have U: "U = fst ` set (kind_events kind sim)" using universe_of_sets by (simp add: U_def u)
  have P: "P = {i. \<exists>q. (i, q) \<in> set (kind_events kind sim) \<and> (case target of None \<Rightarrow> q \<noteq> Baseline | Some p \<Rightarrow> q = p)}"
    by (simp add: P_def u positives_universe)
  have fin: "finite U" and PU: "P \<subseteq> U" by (simp add: U) (force simp: U P)
  have pU: "p \<subseteq> U" by (auto simp: p_def predicted_ids_set)
  note C = matrix_counts [OF fin _ PU, of alerts name threshold, folded p_def]
  have finp: "finite p" "finite P" using fin pU PU finite_subset by auto
  have "card (p \<inter> P) + card (p - P) = card p" "card (p \<inter> P) + card (P - p) = card P"
    using finp card_Int_Diff [of p P] card_Int_Diff [of P p] by (simp_all add: Int_commute)
  moreover have "card (U - P - p) = card U - card (p \<union> P)"
  proof -
    have "U - P - p = U - (p \<union> P)" by auto
    then show ?thesis using finp pU PU by (simp add: card_Diff_subset)
  qed
  moreover have "card (p \<union> P) = card p + card (P - p)" using card_Un_disjoint [of p "P - p"] finp by (simp add: Un_Diff_cancel)
  moreover have "card (p \<union> P) \<le> card U" using fin pU PU by (intro card_mono) auto
  ultimately have "card (p \<inter> P) + card (p - P) + card (P - p) + card (U - P - p) = card U \<and>
      card (p \<inter> P) + card (P - p) = card P \<and> card (p \<inter> P) + card (p - P) = card p" by linarith
  moreover have "p = {i \<in> U. \<exists>a \<in> set alerts. al_detector_name a = name \<and> threshold \<le> al_score a \<and> i \<in> set (al_order_ids a)}"
    by (simp add: p_def predicted_ids_set)
  ultimately show ?thesis
    using C assms(3) unfolding Let_def U_def [symmetric] P_def [symmetric] U [symmetric] P [symmetric] by simp
qed

definition wash_example :: simulation_output where
  "wash_example = \<lparr>sim_instruments = [], sim_accounts = [], sim_orders = [],
     sim_executions = [\<lparr>sx_trade_id = ''T1'', sx_order_id = ''1'', sx_account_id = ''A'', sx_instrument_id = ''ES'',
       sx_price = 1, sx_qty = 5, sx_timestamp_ns = 3, sx_counterparty_account_id = ''B'', sx_venue = ''SIM'',
       sx_label = \<lparr>gt_pattern = Wash_Trade_Pattern, gt_scenario_id = ''S'', gt_severity = 1\<rparr>\<rparr>]\<rparr>"

theorem evaluation_partition_witness:
  "let u = un_executions (build_universes wash_example);
      m = compute_confusion_matrix [] ''WashTradeDetector'' 0 (du_event_ids u) (positives u (Some Wash_Trade_Pattern))
   in unat (cm_tp m) + unat (cm_fp m) + unat (cm_fn m) + unat (cm_tn m) = 1 \<and> unat (cm_tp m) + unat (cm_fn m) = 1"
proof -
  have events: "kind_events Execution_Universe wash_example = [(''T1'', Wash_Trade_Pattern)]"
    by (simp add: execution_events_def wash_example_def)
  have ids: "du_event_ids (un_executions (build_universes wash_example)) = {''T1''}"
    using universe_of_sets [of "execution_events wash_example"] events by (simp add: build_universes_parts)
  show ?thesis
    using evaluation_partition [of "''WashTradeDetector''" Execution_Universe "un_executions (build_universes wash_example)"
        wash_example "[]" 0 "Some Wash_Trade_Pattern"]
    by (simp add: detector_universe_kind_def Let_def events ids del: kind_events.simps)
qed

text \<open>
  Raising the threshold.  A higher threshold never adds a true or a false positive and
  never removes a negative, so the recall, where there are positives to recall, does not rise.
\<close>

theorem sweep_monotone:
  assumes "finite universe" and "card universe < 2 ^ 64" and "positive \<subseteq> universe" and "positive \<noteq> {}"
    and "low \<le> high"
  shows "let m = compute_confusion_matrix alerts name low universe positive;
      m' = compute_confusion_matrix alerts name high universe positive
    in cm_tp m' \<le> cm_tp m \<and> cm_fp m' \<le> cm_fp m \<and> cm_fn m \<le> cm_fn m' \<and> cm_tn m \<le> cm_tn m' \<and>
       (\<exists>r r'. recall m = Some r \<and> recall m' = Some r' \<and> 0 \<le> r' \<and> r' \<le> r \<and> r \<le> 1)"
proof -
  define p where "p = (\<lambda>t. predicted_ids alerts name t universe)"
  define M where "M = (\<lambda>t. compute_confusion_matrix alerts name t universe positive)"
  have sub: "p high \<subseteq> p low" using assms(5) by (auto simp: p_def predicted_ids_set)
  have C: "unat (cm_tp (M t)) = card (p t \<inter> positive)" "unat (cm_fp (M t)) = card (p t - positive)"
    "unat (cm_fn (M t)) = card (positive - p t)" "unat (cm_tn (M t)) = card (universe - positive - p t)" for t
    by (simp_all add: M_def p_def matrix_counts [OF assms(1-3)])
  have fin: "finite (p low)" "finite positive"
    using assms(1,3) finite_subset by (auto simp: p_def predicted_ids_set)
  have finU: "finite (universe - positive - p t)" for t using assms(1) by simp
  have le: "cm_tp (M high) \<le> cm_tp (M low)" "cm_fp (M high) \<le> cm_fp (M low)" "cm_fn (M low) \<le> cm_fn (M high)"
    "cm_tn (M low) \<le> cm_tn (M high)"
    unfolding word_le_nat_alt C using sub fin finU by (auto intro!: card_mono)
  have total: "uint (cm_tp (M t) + cm_fn (M t)) = int (card positive)" for t
  proof -
    have "card (p t \<inter> positive) + card (positive - p t) = card positive"
      using fin(2) card_Int_Diff [of positive "p t"] by (simp add: Int_commute)
    moreover have "card positive < 2 ^ 64" using card_mono [OF assms(1,3)] assms(2) by simp
    ultimately have "unat (cm_tp (M t) + cm_fn (M t)) = card positive"
      using C(1,3) [of t] unat_add_lem [of "cm_tp (M t)" "cm_fn (M t)"] by simp
    then show ?thesis by (simp add: uint_nat)
  qed
  have pos: "0 < card positive" using fin(2) assms(4) by (simp add: card_gt_0_iff)
  have "recall (M t) = Some (fdiv (to_double (uint (cm_tp (M t)))) (to_double (int (card positive))))" for t
  proof -
    have "0 < cm_tp (M t) + cm_fn (M t)" using total [of t] pos by (simp add: word_less_def)
    then show ?thesis by (simp add: recall_def total)
  qed
  moreover have "0 < to_double (int (card positive))" using to_double_pos [of "int (card positive)"] pos by simp
  moreover have "to_double (uint (cm_tp (M high))) \<le> to_double (uint (cm_tp (M low)))"
    using le(1) by (intro to_double_mono) (simp add: word_le_def)
  moreover have "to_double (uint (cm_tp (M low))) \<le> to_double (int (card positive))"
    using C(1) [of low] card_mono [of positive "p low \<inter> positive"] fin by (intro to_double_mono) (simp add: uint_nat)
  moreover have "0 \<le> to_double (uint (cm_tp (M t)))" for t by (rule to_double_nonneg) simp
  ultimately show ?thesis
    using le fdiv_mono fdiv_nonneg fdiv_le_1 by (simp add: Let_def M_def)
qed

theorem sweep_monotone_witness:
  "\<exists>r r'. recall (compute_confusion_matrix [] ''D'' 0 {''a'', ''b''} {''a''}) = Some r \<and>
     recall (compute_confusion_matrix [] ''D'' 1 {''a'', ''b''} {''a''}) = Some r' \<and> r' \<le> r"
  using sweep_monotone [of "{''a'', ''b''}" "{''a''}" 0 1 "[]" "''D''"] by (auto simp: Let_def card_insert_if)

lemma fold_abuse_times:
  "fold add_abuse_time orders m key =
     (let ts = map so_timestamp_ns (filter (\<lambda>order. gt_pattern (so_label order) \<noteq> Baseline \<and>
            so_account_id order @ ''|'' @ so_instrument_id order = key) orders)
      in if ts = [] then m key else Some ((case m key of None \<Rightarrow> [] | Some old \<Rightarrow> old) @ ts))"
  by (induction orders arbitrary: m) (auto simp: add_abuse_time_def Let_def split: option.splits)

lemma lower_bound_in_range:
  "sorted ts \<Longrightarrow> (case dropWhile (\<lambda>t. t < lo) ts of [] \<Rightarrow> False | t # _ \<Rightarrow> t \<le> hi) \<longleftrightarrow> (\<exists>t \<in> set ts. lo \<le> t \<and> t \<le> hi)"
  by (induction ts) (auto split: list.split)

text \<open>
  A positive window.  A scored window counts as positive exactly if the simulation has an
  order that is not baseline, of the same account and instrument, in the window that ends at the
  alert and is one window duration long.
\<close>

theorem ml_window_positive_iff:
  "ml_anomaly_window_is_positive (build_ml_anomaly_ground_truth sim) a duration \<longleftrightarrow>
     al_account_ids a \<noteq> [] \<and>
     (\<exists>order \<in> set (sim_orders sim). is_abuse (so_label order) \<and>
        so_account_id order @ ''|'' @ so_instrument_id order = hd (al_account_ids a) @ ''|'' @ al_instrument_id a \<and>
        al_window_start_ns a - duration \<le> so_timestamp_ns order \<and> so_timestamp_ns order \<le> al_window_start_ns a)"
proof (cases "al_account_ids a")
  case (Cons account rest)
  define ts where "ts = map so_timestamp_ns (filter (\<lambda>order. gt_pattern (so_label order) \<noteq> Baseline \<and>
    so_account_id order @ ''|'' @ so_instrument_id order = account @ ''|'' @ al_instrument_id a) (sim_orders sim))"
  have "build_ml_anomaly_ground_truth sim (account @ ''|'' @ al_instrument_id a) = (if ts = [] then None else Some (sort ts))"
    by (simp add: build_ml_anomaly_ground_truth_def fold_abuse_times Let_def ts_def)
  then have "ml_anomaly_window_is_positive (build_ml_anomaly_ground_truth sim) a duration \<longleftrightarrow>
      (\<exists>t \<in> set ts. al_window_start_ns a - duration \<le> t \<and> t \<le> al_window_start_ns a)"
    by (simp add: ml_anomaly_window_is_positive_def Cons Let_def lower_bound_in_range)
  then show ?thesis by (auto simp: ts_def Cons is_abuse_def)
qed (simp add: ml_anomaly_window_is_positive_def)

end
