(* ===== verification/Message_Translator.thy ===== *)
theory Message_Translator
  imports Fix_Types "HOL-Library.Signed_Division"
begin

text \<open>
  \<open>cpp/fix/message_translator.cpp\<close>: orders and executions to and from FIX 4.2 messages.  The
  message object belongs to QuickFIX and is a parameter: a record of its operations, of which
  \<open>lawful\<close> states what the code relies on.  A missing field is the library's
  \<open>FieldNotFound\<close>; a field that does not hold a value of the type asked for is its
  \<open>IncorrectDataFormat\<close>; the translator's own \<open>std::invalid_argument\<close> is a third error.
\<close>

section \<open>The library\<close>

datatype fix_value = Text string | Letter char | Number double | Instant int int

datatype fix_error = Field_Not_Found nat | Incorrect_Data_Format nat | Unrecognized_Value char

record 'm fix_library =
  fl_blank :: "string \<Rightarrow> 'm"
  fl_type :: "'m \<Rightarrow> string"
  fl_set :: "nat \<Rightarrow> fix_value \<Rightarrow> 'm \<Rightarrow> 'm"
  fl_get :: "nat \<Rightarrow> 'm \<Rightarrow> fix_value option"
  fl_add_group :: "nat \<Rightarrow> nat \<Rightarrow> fix_value \<Rightarrow> 'm \<Rightarrow> 'm"
  fl_get_group :: "nat \<Rightarrow> nat \<Rightarrow> 'm \<Rightarrow> fix_value option"

text \<open>
  A floating-point field goes through a decimal text: \<open>wire x\<close> is what the text of \<open>x\<close> is read
  as, and \<open>None\<close> if it is not a number to FIX, which has no exponents.  Other values are carried as they are.
\<close>

fun on_wire :: "(double \<Rightarrow> double option) \<Rightarrow> fix_value \<Rightarrow> fix_value option" where
  "on_wire wire (Number x) = map_option Number (wire x)"
| "on_wire wire v = Some v"

text \<open>
  FIX 4.2 lets a float have fifteen significant digits, and that is what QuickFIX writes, so a value
  nearest to a decimal of at most fifteen digits comes back exactly; below \<open>10^15\<close> every value comes back as some number.
\<close>

definition short_decimal :: "double \<Rightarrow> bool" where
  "short_decimal x \<longleftrightarrow> (\<exists>d :: int. \<exists>k \<le> 15. \<bar>d\<bar> < 10 ^ 15 \<and> (d = 0 \<or> 10 ^ k < 10000 * \<bar>d\<bar>) \<and> x = rnd64 (of_int d / 10 ^ k))"

text \<open>
  What QuickFIX promises of a message.  A field that the wire carries reads back, and setting it leaves the
  other fields, the groups of other tags and the type alone.  A message starts without groups.  The first group that
  is added for a tag is the one that is read, and adding it touches the count under its own tag only.
\<close>

definition lawful :: "(double \<Rightarrow> double option) \<Rightarrow> 'm fix_library \<Rightarrow> bool" where
  "lawful wire lib \<longleftrightarrow>
     (\<forall>tag v m. on_wire wire v \<noteq> None \<longrightarrow> fl_get lib tag (fl_set lib tag v m) = on_wire wire v) \<and>
     (\<forall>tag tag' v m. tag' \<noteq> tag \<longrightarrow> fl_get lib tag' (fl_set lib tag v m) = fl_get lib tag' m) \<and>
     (\<forall>tag v m. fl_type lib (fl_set lib tag v m) = fl_type lib m) \<and>
     (\<forall>type. fl_type lib (fl_blank lib type) = type) \<and>
     (\<forall>g tag type. fl_get_group lib g tag (fl_blank lib type) = None) \<and>
     (\<forall>g tag tag' v m. tag' \<noteq> g \<longrightarrow> fl_get_group lib g tag (fl_set lib tag' v m) = fl_get_group lib g tag m) \<and>
     (\<forall>g tag v m. (\<forall>tag'. fl_get_group lib g tag' m = None) \<longrightarrow> on_wire wire v \<noteq> None \<longrightarrow>
        fl_get_group lib g tag (fl_add_group lib g tag v m) = on_wire wire v) \<and>
     (\<forall>g tag tag' v m. tag' \<noteq> g \<longrightarrow> fl_get lib tag' (fl_add_group lib g tag v m) = fl_get lib tag' m) \<and>
     (\<forall>g tag v m. fl_type lib (fl_add_group lib g tag v m) = fl_type lib m) \<and>
     (\<forall>x. \<bar>x\<bar> < 10 ^ 15 \<longrightarrow> wire x \<noteq> None) \<and> (\<forall>x. short_decimal x \<longrightarrow> wire x = Some x)"

lemma lawfulD:
  assumes "lawful wire lib"
  shows "on_wire wire v \<noteq> None \<Longrightarrow> fl_get lib tag (fl_set lib tag v m) = on_wire wire v"
    and "tag' \<noteq> tag \<Longrightarrow> fl_get lib tag' (fl_set lib tag v m) = fl_get lib tag' m"
    and "fl_type lib (fl_set lib tag v m) = fl_type lib m"
    and "fl_type lib (fl_blank lib type) = type"
    and "fl_get_group lib g tag (fl_blank lib type) = None"
    and "tag' \<noteq> g \<Longrightarrow> fl_get_group lib g tag (fl_set lib tag' v m) = fl_get_group lib g tag m"
    and "(\<And>tag'. fl_get_group lib g tag' m = None) \<Longrightarrow> on_wire wire v \<noteq> None \<Longrightarrow>
      fl_get_group lib g tag (fl_add_group lib g tag v m) = on_wire wire v"
    and "tag' \<noteq> g \<Longrightarrow> fl_get lib tag' (fl_add_group lib g tag v m) = fl_get lib tag' m"
    and "fl_type lib (fl_add_group lib g tag v m) = fl_type lib m"
    and "\<bar>x\<bar> < 10 ^ 15 \<Longrightarrow> wire x \<noteq> None" and "short_decimal x \<Longrightarrow> wire x = Some x"
  using assms by (simp_all add: lawful_def)

text \<open>Reading a field as a value of one type.\<close>

fun as_text :: "nat \<Rightarrow> fix_value option \<Rightarrow> fix_error + string" where
  "as_text tag (Some (Text s)) = Inr s"
| "as_text tag None = Inl (Field_Not_Found tag)"
| "as_text tag _ = Inl (Incorrect_Data_Format tag)"

fun as_letter :: "nat \<Rightarrow> fix_value option \<Rightarrow> fix_error + char" where
  "as_letter tag (Some (Letter c)) = Inr c"
| "as_letter tag None = Inl (Field_Not_Found tag)"
| "as_letter tag _ = Inl (Incorrect_Data_Format tag)"

fun as_number :: "nat \<Rightarrow> fix_value option \<Rightarrow> fix_error + double" where
  "as_number tag (Some (Number x)) = Inr x"
| "as_number tag None = Inl (Field_Not_Found tag)"
| "as_number tag _ = Inl (Incorrect_Data_Format tag)"

fun as_instant :: "nat \<Rightarrow> fix_value option \<Rightarrow> fix_error + int \<times> int" where
  "as_instant tag (Some (Instant s n)) = Inr (s, n)"
| "as_instant tag None = Inl (Field_Not_Found tag)"
| "as_instant tag _ = Inl (Incorrect_Data_Format tag)"

section \<open>Values\<close>

definition side_to_fix :: "side \<Rightarrow> char" where
  "side_to_fix side = (if side = KBuy then CHR ''1'' else CHR ''2'')"

definition side_from_fix :: "char \<Rightarrow> fix_error + side" where
  "side_from_fix c =
     (if c = CHR ''1'' then Inr KBuy else if c = CHR ''2'' then Inr KSell else Inl (Unrecognized_Value c))"

definition order_type_to_fix :: "order_type \<Rightarrow> char" where
  "order_type_to_fix type = (if type = KMarket then CHR ''1'' else CHR ''2'')"

definition order_type_from_fix :: "char \<Rightarrow> fix_error + order_type" where
  "order_type_from_fix c =
     (if c = CHR ''1'' then Inr KMarket else if c = CHR ''2'' then Inr KLimit else Inl (Unrecognized_Value c))"

definition to_transact_time :: "int \<Rightarrow> fix_value" where
  "to_transact_time timestamp_ns =
     (let whole_seconds = timestamp_ns sdiv 1000000000; nanos = timestamp_ns smod 1000000000
      in if nanos < 0 then Instant (whole_seconds - 1) (nanos + 1000000000) else Instant whole_seconds nanos)"

definition from_transact_time :: "int \<times> int \<Rightarrow> int" where
  "from_transact_time = (\<lambda>(seconds, nanos). seconds * 1000000000 + nanos)"

definition round_to_int64 :: "double \<Rightarrow> int" where
  "round_to_int64 x = llround x"

section \<open>Orders\<close>

definition to_new_order_single :: "'m fix_library \<Rightarrow> order \<Rightarrow> 'm" where
  "to_new_order_single lib order =
     (fl_set lib 100 (Text (o_venue order)) \<circ> fl_set lib 44 (Number (o_price order)) \<circ>
      fl_set lib 38 (Number (to_double (o_qty order))) \<circ> fl_set lib 1 (Text (o_account_id order)) \<circ>
      fl_set lib 40 (Letter (order_type_to_fix (o_order_type order))) \<circ>
      fl_set lib 60 (to_transact_time (o_timestamp_ns order)) \<circ>
      fl_set lib 54 (Letter (side_to_fix (o_side order))) \<circ> fl_set lib 55 (Text (o_instrument_id order)) \<circ>
      fl_set lib 21 (Letter (CHR ''1'')) \<circ> fl_set lib 11 (Text (o_order_id order)))
     (fl_blank lib ''D'')"

definition bind_error :: "'e + 'a \<Rightarrow> ('a \<Rightarrow> 'e + 'b) \<Rightarrow> 'e + 'b" where
  "bind_error r f = (case r of Inl e \<Rightarrow> Inl e | Inr x \<Rightarrow> f x)"

lemma bind_error_simps [simp]: "bind_error (Inl e) f = Inl e" "bind_error (Inr x) f = f x"
  by (simp_all add: bind_error_def)

definition from_new_order_single :: "'m fix_library \<Rightarrow> 'm \<Rightarrow> fix_error + order" where
  "from_new_order_single lib m =
     bind_error (as_text 11 (fl_get lib 11 m)) (\<lambda>order_id.
     bind_error (as_text 1 (fl_get lib 1 m)) (\<lambda>account.
     bind_error (as_text 55 (fl_get lib 55 m)) (\<lambda>symbol.
     bind_error (bind_error (as_letter 54 (fl_get lib 54 m)) side_from_fix) (\<lambda>side.
     bind_error (as_number 44 (fl_get lib 44 m)) (\<lambda>price.
     bind_error (as_number 38 (fl_get lib 38 m)) (\<lambda>qty.
     bind_error (bind_error (as_letter 40 (fl_get lib 40 m)) order_type_from_fix) (\<lambda>order_type.
     bind_error (as_instant 60 (fl_get lib 60 m)) (\<lambda>time.
     bind_error (as_text 100 (fl_get lib 100 m)) (\<lambda>venue.
     Inr (default_order\<lparr>o_order_id := order_id, o_account_id := account, o_instrument_id := symbol,
            o_side := side, o_price := price, o_qty := round_to_int64 qty, o_order_type := order_type,
            o_timestamp_ns := from_transact_time time, o_venue := venue, o_status := KNew\<rparr>))))))))))"

definition to_order_cancel_request :: "'m fix_library \<Rightarrow> order \<Rightarrow> 'm" where
  "to_order_cancel_request lib order =
     (fl_set lib 38 (Number (to_double (o_qty order))) \<circ> fl_set lib 1 (Text (o_account_id order)) \<circ>
      fl_set lib 60 (to_transact_time (o_timestamp_ns order)) \<circ>
      fl_set lib 54 (Letter (side_to_fix (o_side order))) \<circ> fl_set lib 55 (Text (o_instrument_id order)) \<circ>
      fl_set lib 11 (Text (o_order_id order)) \<circ> fl_set lib 41 (Text (o_orig_order_id order)))
     (fl_blank lib ''F'')"

definition from_order_cancel_request :: "'m fix_library \<Rightarrow> 'm \<Rightarrow> fix_error + order" where
  "from_order_cancel_request lib m =
     bind_error (as_text 11 (fl_get lib 11 m)) (\<lambda>order_id.
     bind_error (as_text 41 (fl_get lib 41 m)) (\<lambda>orig_order_id.
     bind_error (as_text 1 (fl_get lib 1 m)) (\<lambda>account.
     bind_error (as_text 55 (fl_get lib 55 m)) (\<lambda>symbol.
     bind_error (bind_error (as_letter 54 (fl_get lib 54 m)) side_from_fix) (\<lambda>side.
     bind_error (as_number 38 (fl_get lib 38 m)) (\<lambda>qty.
     bind_error (as_instant 60 (fl_get lib 60 m)) (\<lambda>time.
     Inr (default_order\<lparr>o_order_id := order_id, o_orig_order_id := orig_order_id, o_account_id := account,
            o_instrument_id := symbol, o_side := side, o_qty := round_to_int64 qty,
            o_timestamp_ns := from_transact_time time, o_status := KCancelled, o_price := 0,
            o_order_type := KLimit, o_venue := []\<rparr>))))))))"

section \<open>Executions\<close>

definition to_execution_report :: "'m fix_library \<Rightarrow> execution \<Rightarrow> 'm" where
  "to_execution_report lib x =
     (fl_add_group lib 382 375 (Text (x_counterparty_account_id x)) \<circ>
      fl_set lib 60 (to_transact_time (x_timestamp_ns x)) \<circ> fl_set lib 30 (Text (x_venue x)) \<circ>
      fl_set lib 31 (Number (x_price x)) \<circ> fl_set lib 32 (Number (to_double (x_qty x))) \<circ>
      fl_set lib 11 (Text (x_order_id x)) \<circ> fl_set lib 1 (Text (x_account_id x)) \<circ>
      fl_set lib 6 (Number (x_price x)) \<circ> fl_set lib 14 (Number (to_double (x_qty x))) \<circ>
      fl_set lib 151 (Number 0) \<circ> fl_set lib 54 (Letter (side_to_fix (x_side x))) \<circ>
      fl_set lib 55 (Text (x_instrument_id x)) \<circ> fl_set lib 39 (Letter (CHR ''2'')) \<circ>
      fl_set lib 150 (Letter (CHR ''2'')) \<circ> fl_set lib 20 (Letter (CHR ''0'')) \<circ>
      fl_set lib 17 (Text (x_trade_id x)) \<circ> fl_set lib 37 (Text (x_order_id x)))
     (fl_blank lib ''8'')"

definition from_execution_report :: "'m fix_library \<Rightarrow> 'm \<Rightarrow> fix_error + execution" where
  "from_execution_report lib m =
     bind_error (as_text 17 (fl_get lib 17 m)) (\<lambda>trade_id.
     bind_error (as_text 37 (fl_get lib 37 m)) (\<lambda>order_id.
     bind_error (as_text 1 (fl_get lib 1 m)) (\<lambda>account.
     bind_error (as_text 55 (fl_get lib 55 m)) (\<lambda>symbol.
     bind_error (bind_error (as_letter 54 (fl_get lib 54 m)) side_from_fix) (\<lambda>side.
     bind_error (as_number 31 (fl_get lib 31 m)) (\<lambda>price.
     bind_error (as_number 32 (fl_get lib 32 m)) (\<lambda>qty.
     bind_error (as_instant 60 (fl_get lib 60 m)) (\<lambda>time.
     bind_error (as_text 30 (fl_get lib 30 m)) (\<lambda>venue.
     bind_error (as_text 375 (fl_get_group lib 382 375 m)) (\<lambda>counterparty.
     Inr \<lparr>x_trade_id = trade_id, x_order_id = order_id, x_account_id = account, x_instrument_id = symbol,
          x_side = side, x_price = price, x_qty = round_to_int64 qty, x_timestamp_ns = from_transact_time time,
          x_counterparty_account_id = counterparty, x_venue = venue\<rparr>))))))))))"

section \<open>Reading back\<close>

lemma fix_enums [simp]:
  "side_from_fix (side_to_fix s) = Inr s" "order_type_from_fix (order_type_to_fix t) = Inr t"
  by (cases s, simp_all add: side_from_fix_def side_to_fix_def, cases t,
      simp_all add: order_type_from_fix_def order_type_to_fix_def)

lemma transact_time_inverse:
  "\<exists>s n. to_transact_time t = Instant s n \<and> from_transact_time (s, n) = t \<and> 0 \<le> n \<and> n < 1000000000"
proof -
  have "t sdiv 1000000000 * 1000000000 + t smod 1000000000 = t" by (rule sdiv_mult_smod_eq)
  moreover have "- 1000000000 < t smod 1000000000" "t smod 1000000000 < 1000000000"
    using smod_int_compares(1,2) [of 1000000000 t] smod_int_range [of 1000000000 t] by auto
  ultimately show ?thesis by (auto simp: to_transact_time_def from_transact_time_def Let_def)
qed

lemma instant_carried:
  "on_wire wire (to_transact_time t) = Some (to_transact_time t)"
  "\<exists>p. as_instant tag (Some (to_transact_time t)) = Inr p \<and> from_transact_time p = t"
  using transact_time_inverse [of t] by auto

lemma llround_int [simp]: "llround (of_int n) = n"
  by (cases "0 \<le> n") (auto simp: llround_def, linarith+)

text \<open>The price and the quantity that arrive, and the events whose numbers the wire carries.\<close>

definition carried_price :: "(double \<Rightarrow> double option) \<Rightarrow> double \<Rightarrow> double" where
  "carried_price wire price = the (wire price)"

definition carried_qty :: "(double \<Rightarrow> double option) \<Rightarrow> int \<Rightarrow> int" where
  "carried_qty wire qty = round_to_int64 (the (wire (to_double qty)))"

fun carries :: "(double \<Rightarrow> double option) \<Rightarrow> event \<Rightarrow> bool" where
  "carries wire (OrderEvent order) \<longleftrightarrow>
     (o_status order = KCancelled \<or> wire (o_price order) \<noteq> None) \<and> wire (to_double (o_qty order)) \<noteq> None"
| "carries wire (ExecutionEvent x) \<longleftrightarrow> wire (x_price x) \<noteq> None \<and> wire (to_double (x_qty x)) \<noteq> None"

text \<open>Numbers of less than sixteen digits: quantities are exact, and so are prices of a short decimal.\<close>

fun fifteen_digits :: "event \<Rightarrow> bool" where
  "fifteen_digits (OrderEvent order) \<longleftrightarrow> \<bar>o_price order\<bar> < 10 ^ 15 \<and> \<bar>o_qty order\<bar> < 10 ^ 15"
| "fifteen_digits (ExecutionEvent x) \<longleftrightarrow> \<bar>x_price x\<bar> < 10 ^ 15 \<and> \<bar>x_qty x\<bar> < 10 ^ 15"

lemma wire_qty:
  assumes "lawful wire lib" and "\<bar>qty\<bar> < 10 ^ 15"
  shows "wire (to_double qty) = Some (to_double qty)" and "carried_qty wire qty = qty"
proof -
  have "rnd64 (of_int qty / 10 ^ 0) = to_double qty" by (simp add: to_double_def)
  then have "short_decimal (to_double qty)"
    using assms(2) unfolding short_decimal_def by (intro exI [of _ qty] exI [of _ 0]) auto
  then show wire: "wire (to_double qty) = Some (to_double qty)" by (rule lawfulD(11) [OF assms(1)])
  have "to_double qty = of_int qty" using assms(2) by (intro to_double_exact) simp
  then have "llround (to_double qty) = qty" by simp
  then show "carried_qty wire qty = qty" by (simp only: carried_qty_def wire round_to_int64_def option.sel)
qed

lemma wire_price: "lawful wire lib \<Longrightarrow> short_decimal price \<Longrightarrow> carried_price wire price = price"
  by (simp add: carried_price_def lawfulD(11))

lemma fifteen_digits_carried: "lawful wire lib \<Longrightarrow> fifteen_digits e \<Longrightarrow> carries wire e"
  by (cases e) (simp_all add: wire_qty lawfulD(10))

lemma new_order_read:
  assumes "lawful wire lib" and "wire (o_price order) \<noteq> None" and "wire (to_double (o_qty order)) \<noteq> None"
  shows "from_new_order_single lib (to_new_order_single lib order) =
    Inr (order\<lparr>o_price := carried_price wire (o_price order), o_qty := carried_qty wire (o_qty order),
           o_status := KNew, o_orig_order_id := []\<rparr>)"
proof -
  obtain p where "as_instant 60 (Some (to_transact_time (o_timestamp_ns order))) = Inr p"
    "from_transact_time p = o_timestamp_ns order" using instant_carried(2) by blast
  with assms show ?thesis
    by (auto simp: from_new_order_single_def to_new_order_single_def lawfulD instant_carried(1) default_order_def
        carried_price_def carried_qty_def)
qed

lemma cancel_request_read:
  assumes "lawful wire lib" and "wire (to_double (o_qty order)) \<noteq> None"
  shows "from_order_cancel_request lib (to_order_cancel_request lib order) =
    Inr (order\<lparr>o_qty := carried_qty wire (o_qty order), o_status := KCancelled, o_price := 0,
           o_order_type := KLimit, o_venue := []\<rparr>)"
proof -
  obtain p where "as_instant 60 (Some (to_transact_time (o_timestamp_ns order))) = Inr p"
    "from_transact_time p = o_timestamp_ns order" using instant_carried(2) by blast
  with assms show ?thesis
    by (auto simp: from_order_cancel_request_def to_order_cancel_request_def lawfulD instant_carried(1) default_order_def
        carried_qty_def)
qed

lemma execution_report_read:
  assumes "lawful wire lib" and "wire (x_price x) \<noteq> None" and "wire (to_double (x_qty x)) \<noteq> None"
  shows "from_execution_report lib (to_execution_report lib x) =
    Inr (x\<lparr>x_price := carried_price wire (x_price x), x_qty := carried_qty wire (x_qty x)\<rparr>)"
proof -
  obtain p where "as_instant 60 (Some (to_transact_time (x_timestamp_ns x))) = Inr p"
    "from_transact_time p = x_timestamp_ns x" using instant_carried(2) by blast
  moreover have group: "fl_get_group lib 382 375 (to_execution_report lib x) = Some (Text (x_counterparty_account_id x))"
    using assms(1) by (simp add: to_execution_report_def lawfulD)
  ultimately show ?thesis
    using assms unfolding from_execution_report_def group
    by (auto simp: to_execution_report_def lawfulD instant_carried(1) carried_price_def carried_qty_def)
qed

end
