(* ===== verification/Fix_Application.thy ===== *)
theory Fix_Application
  imports Message_Translator Pipeline_Properties
begin

text \<open>
  \<open>cpp/fix/fix_application.cpp\<close>: the session callbacks that QuickFIX calls.  A message is cracked
  by its type, translated, handed to the event sink, if there is one, and then recorded; an
  exception of the translator or of the sink leaves through \<open>fromApp\<close>, and QuickFIX turns it into
  a reject.  \<open>crack\<close> throws \<open>UnsupportedMessageType\<close> for every type that is not overridden.
\<close>

datatype app_error = Fix_Exception fix_error | Unsupported_Message_Type | Sink_Exception string

record 'q fix_application =
  fa_logged_on :: bool
  fa_logged_out :: bool
  fa_received_orders :: "order list"
  fa_received_executions :: "execution list"
  fa_resend_requests_seen :: int
  fa_event_sink :: "'q option"

definition new_application :: "'q option \<Rightarrow> 'q fix_application" where
  "new_application sink = \<lparr>fa_logged_on = False, fa_logged_out = False, fa_received_orders = [],
     fa_received_executions = [], fa_resend_requests_seen = 0, fa_event_sink = sink\<rparr>"

definition on_logon :: "'q fix_application \<Rightarrow> 'q fix_application" where
  "on_logon s = s\<lparr>fa_logged_on := True\<rparr>"

definition on_logout :: "'q fix_application \<Rightarrow> 'q fix_application" where
  "on_logout s = s\<lparr>fa_logged_out := True\<rparr>"

definition from_admin :: "'m fix_library \<Rightarrow> 'm \<Rightarrow> 'q fix_application \<Rightarrow> 'q fix_application" where
  "from_admin lib m s =
     (if fl_type lib m = ''2'' then s\<lparr>fa_resend_requests_seen := fa_resend_requests_seen s + 1\<rparr> else s)"

text \<open>The call of the sink, in front of the lock.\<close>

definition deliver ::
    "(event \<Rightarrow> 'q \<Rightarrow> string + 'q) \<Rightarrow> event \<Rightarrow> ('q fix_application \<Rightarrow> 'q fix_application)
     \<Rightarrow> 'q fix_application \<Rightarrow> 'q fix_application \<times> app_error option" where
  "deliver sink event record_it s =
     (case fa_event_sink s of
        None \<Rightarrow> (record_it s, None)
      | Some q \<Rightarrow>
          (case sink event q of
             Inl msg \<Rightarrow> (s, Some (Sink_Exception msg))
           | Inr q' \<Rightarrow> (record_it (s\<lparr>fa_event_sink := Some q'\<rparr>), None)))"

definition record_order :: "order \<Rightarrow> 'q fix_application \<Rightarrow> 'q fix_application" where
  "record_order order s = s\<lparr>fa_received_orders := fa_received_orders s @ [order]\<rparr>"

definition record_execution :: "execution \<Rightarrow> 'q fix_application \<Rightarrow> 'q fix_application" where
  "record_execution x s = s\<lparr>fa_received_executions := fa_received_executions s @ [x]\<rparr>"

definition on_new_order_single ::
    "'m fix_library \<Rightarrow> (event \<Rightarrow> 'q \<Rightarrow> string + 'q) \<Rightarrow> 'm \<Rightarrow> 'q fix_application \<Rightarrow> 'q fix_application \<times> app_error option" where
  "on_new_order_single lib sink m s =
     (case from_new_order_single lib m of
        Inl e \<Rightarrow> (s, Some (Fix_Exception e))
      | Inr order \<Rightarrow> deliver sink (OrderEvent order) (record_order order) s)"

definition on_order_cancel_request ::
    "'m fix_library \<Rightarrow> (event \<Rightarrow> 'q \<Rightarrow> string + 'q) \<Rightarrow> 'm \<Rightarrow> 'q fix_application \<Rightarrow> 'q fix_application \<times> app_error option" where
  "on_order_cancel_request lib sink m s =
     (case from_order_cancel_request lib m of
        Inl e \<Rightarrow> (s, Some (Fix_Exception e))
      | Inr order \<Rightarrow> deliver sink (OrderEvent order) (record_order order) s)"

definition on_execution_report ::
    "'m fix_library \<Rightarrow> (event \<Rightarrow> 'q \<Rightarrow> string + 'q) \<Rightarrow> 'm \<Rightarrow> 'q fix_application \<Rightarrow> 'q fix_application \<times> app_error option" where
  "on_execution_report lib sink m s =
     (case from_execution_report lib m of
        Inl e \<Rightarrow> (s, Some (Fix_Exception e))
      | Inr x \<Rightarrow> deliver sink (ExecutionEvent x) (record_execution x) s)"

definition from_app ::
    "'m fix_library \<Rightarrow> (event \<Rightarrow> 'q \<Rightarrow> string + 'q) \<Rightarrow> 'm \<Rightarrow> 'q fix_application \<Rightarrow> 'q fix_application \<times> app_error option" where
  "from_app lib sink m s =
     (if fl_type lib m = ''D'' then on_new_order_single lib sink m s
      else if fl_type lib m = ''F'' then on_order_cancel_request lib sink m s
      else if fl_type lib m = ''8'' then on_execution_report lib sink m s
      else (s, Some Unsupported_Message_Type))"

text \<open>The conditions the test harness waits for.\<close>

definition event_count_reached :: "nat \<Rightarrow> nat \<Rightarrow> 'q fix_application \<Rightarrow> bool" where
  "event_count_reached min_orders min_executions s \<longleftrightarrow>
     min_orders \<le> length (fa_received_orders s) \<and> min_executions \<le> length (fa_received_executions s)"

text \<open>
  \<open>wait_for\<close> of the condition variable tests its condition on entry, at each wakeup and at the deadline:
  \<open>seen\<close> are the application's states at these times.
\<close>

definition wait_for_logon :: "'q fix_application list \<Rightarrow> bool" where
  "wait_for_logon seen = list_ex fa_logged_on seen"

definition wait_for_logout :: "'q fix_application list \<Rightarrow> bool" where
  "wait_for_logout seen = list_ex fa_logged_out seen"

definition wait_for_event_count :: "nat \<Rightarrow> nat \<Rightarrow> 'q fix_application list \<Rightarrow> bool" where
  "wait_for_event_count min_orders min_executions seen = list_ex (event_count_reached min_orders min_executions) seen"

definition set_event_sink :: "'q option \<Rightarrow> 'q fix_application \<Rightarrow> 'q fix_application" where
  "set_event_sink sink s = s\<lparr>fa_event_sink := sink\<rparr>"

text \<open>Nothing takes a logon or a logout back, and nothing recorded is forgotten: a wait succeeds exactly if the last look does.\<close>

definition later_state :: "'q fix_application \<Rightarrow> 'q fix_application \<Rightarrow> bool" where
  "later_state s s' \<longleftrightarrow> (fa_logged_on s \<longrightarrow> fa_logged_on s') \<and> (fa_logged_out s \<longrightarrow> fa_logged_out s') \<and>
     prefix (fa_received_orders s) (fa_received_orders s') \<and> prefix (fa_received_executions s) (fa_received_executions s')"

lemma later_state_trans: "later_state s s' \<Longrightarrow> later_state s' s'' \<Longrightarrow> later_state s s''"
  unfolding later_state_def by (elim conjE) (intro conjI impI; simp?; (rule prefix_order.trans, assumption, assumption)?)

lemma deliver_later: "(\<And>s. later_state s (record_it s)) \<Longrightarrow> later_state s (fst (deliver sink event record_it s))"
proof -
  assume rec: "\<And>s. later_state s (record_it s)"
  have "later_state s (s\<lparr>fa_event_sink := q\<rparr>)" for q by (simp add: later_state_def)
  from later_state_trans [OF this rec] have "later_state s (record_it (s\<lparr>fa_event_sink := q\<rparr>))" for q .
  moreover have "later_state s s" by (simp add: later_state_def)
  ultimately show ?thesis using rec by (simp add: deliver_def split: option.split sum.split)
qed

lemma callbacks_later:
  "later_state s (on_logon s)" "later_state s (on_logout s)" "later_state s (from_admin lib m s)"
  "later_state s (fst (from_app lib sink m s))"
proof -
  show "later_state s (on_logon s)" "later_state s (on_logout s)" "later_state s (from_admin lib m s)"
    by (simp_all add: later_state_def on_logon_def on_logout_def from_admin_def)
  have "later_state s (fst (deliver sink e (record_order order) s))" for e order
    by (rule deliver_later) (simp add: later_state_def record_order_def)
  moreover have "later_state s (fst (deliver sink e (record_execution x) s))" for e x
    by (rule deliver_later) (simp add: later_state_def record_execution_def)
  moreover have "later_state s s" by (simp add: later_state_def)
  ultimately show "later_state s (fst (from_app lib sink m s))"
    unfolding from_app_def on_new_order_single_def on_order_cancel_request_def on_execution_report_def
    by (simp split: sum.split)
qed

lemma waits_look_last:
  assumes "sorted_wrt later_state (seen @ [s])"
  shows "wait_for_logon (seen @ [s]) = fa_logged_on s" "wait_for_logout (seen @ [s]) = fa_logged_out s"
    "wait_for_event_count m n (seen @ [s]) = event_count_reached m n s"
proof -
  have later: "later_state s' s" if "s' \<in> set seen" for s' using assms that by (simp add: sorted_wrt_append)
  have "event_count_reached m n s" if "s' \<in> set seen" and "event_count_reached m n s'" for s'
    using later [OF that(1)] that(2)
    by (auto simp: event_count_reached_def later_state_def dest!: prefix_length_le)
  then show "wait_for_event_count m n (seen @ [s]) = event_count_reached m n s"
    by (auto simp: wait_for_event_count_def list_ex_iff)
  show "wait_for_logon (seen @ [s]) = fa_logged_on s" "wait_for_logout (seen @ [s]) = fa_logged_out s"
    using later by (auto simp: wait_for_logon_def wait_for_logout_def list_ex_iff later_state_def)
qed

section \<open>A session\<close>

definition from_app_all ::
    "'m fix_library \<Rightarrow> (event \<Rightarrow> 'q \<Rightarrow> string + 'q) \<Rightarrow> 'm list \<Rightarrow> 'q fix_application \<Rightarrow> 'q fix_application" where
  "from_app_all lib sink ms s = fold (\<lambda>m s. fst (from_app lib sink m s)) ms s"

text \<open>The event that a message stands for, or why it stands for none.\<close>

definition translate :: "'m fix_library \<Rightarrow> 'm \<Rightarrow> app_error + event" where
  "translate lib m =
     (if fl_type lib m = ''D'' then map_sum Fix_Exception OrderEvent (from_new_order_single lib m)
      else if fl_type lib m = ''F'' then map_sum Fix_Exception OrderEvent (from_order_cancel_request lib m)
      else if fl_type lib m = ''8'' then map_sum Fix_Exception ExecutionEvent (from_execution_report lib m)
      else Inl Unsupported_Message_Type)"

definition translated :: "'m fix_library \<Rightarrow> 'm list \<Rightarrow> event list" where
  "translated lib ms = List.map_filter (\<lambda>m. case translate lib m of Inl e \<Rightarrow> None | Inr event \<Rightarrow> Some event) ms"

text \<open>The message of an event, and the event that arrives.\<close>

fun to_message :: "'m fix_library \<Rightarrow> event \<Rightarrow> 'm" where
  "to_message lib (OrderEvent order) =
     (if o_status order = KCancelled then to_order_cancel_request lib order else to_new_order_single lib order)"
| "to_message lib (ExecutionEvent x) = to_execution_report lib x"

fun as_received :: "(double \<Rightarrow> double option) \<Rightarrow> event \<Rightarrow> event" where
  "as_received wire (OrderEvent order) = OrderEvent
     (if o_status order = KCancelled
      then order\<lparr>o_qty := carried_qty wire (o_qty order), o_status := KCancelled, o_price := 0,
             o_order_type := KLimit, o_venue := []\<rparr>
      else order\<lparr>o_price := carried_price wire (o_price order), o_qty := carried_qty wire (o_qty order),
             o_status := KNew, o_orig_order_id := []\<rparr>)"
| "as_received wire (ExecutionEvent x) =
     ExecutionEvent (x\<lparr>x_price := carried_price wire (x_price x), x_qty := carried_qty wire (x_qty x)\<rparr>)"

definition orders_of :: "event list \<Rightarrow> order list" where
  "orders_of es = List.map_filter (\<lambda>e. case e of OrderEvent order \<Rightarrow> Some order | ExecutionEvent _ \<Rightarrow> None) es"

definition executions_of :: "event list \<Rightarrow> execution list" where
  "executions_of es = List.map_filter (\<lambda>e. case e of OrderEvent _ \<Rightarrow> None | ExecutionEvent x \<Rightarrow> Some x) es"

lemma events_of_simps [simp]:
  "orders_of [] = []" "executions_of [] = []"
  "orders_of (OrderEvent order # es) = order # orders_of es" "orders_of (ExecutionEvent x # es) = orders_of es"
  "executions_of (OrderEvent order # es) = executions_of es" "executions_of (ExecutionEvent x # es) = x # executions_of es"
  by (simp_all add: orders_of_def executions_of_def map_filter_simps)

lemma message_types:
  assumes "lawful wire lib"
  shows "fl_type lib (to_new_order_single lib order) = ''D''" "fl_type lib (to_order_cancel_request lib order) = ''F''"
    "fl_type lib (to_execution_report lib x) = ''8''"
  using assms by (simp_all add: to_new_order_single_def to_order_cancel_request_def to_execution_report_def lawfulD)

fun record_received :: "event \<Rightarrow> 'q fix_application \<Rightarrow> 'q fix_application" where
  "record_received (OrderEvent order) s = record_order order s"
| "record_received (ExecutionEvent x) s = record_execution x s"

lemma record_received_eta [simp]:
  "record_received (OrderEvent order) = record_order order" "record_received (ExecutionEvent x) = record_execution x"
  by (simp_all add: fun_eq_iff)

lemma record_received_sink [simp]: "fa_event_sink (record_received e s) = fa_event_sink s"
  by (cases e) (simp_all add: record_order_def record_execution_def)

lemma from_app_translate:
  "from_app lib sink m s =
    (case translate lib m of Inl e \<Rightarrow> (s, Some e) | Inr event \<Rightarrow> deliver sink event (record_received event) s)"
  by (simp add: from_app_def translate_def on_new_order_single_def on_order_cancel_request_def on_execution_report_def
      split: sum.split)

lemma translate_message:
  assumes "lawful wire lib" and "carries wire e"
  shows "translate lib (to_message lib e) = Inr (as_received wire e)"
proof (cases e)
  case (OrderEvent order)
  then show ?thesis using assms message_types [OF assms(1)]
    by (cases "o_status order = KCancelled")
      (simp_all add: translate_def new_order_read [OF assms(1)] cancel_request_read [OF assms(1)] del: not_None_eq)
next
  case (ExecutionEvent x)
  then show ?thesis using assms message_types [OF assms(1)]
    by (simp add: translate_def execution_report_read [OF assms(1)] del: not_None_eq)
qed

lemma from_app_message:
  assumes "lawful wire lib" and "carries wire e"
  shows "from_app lib sink (to_message lib e) s = deliver sink (as_received wire e) (record_received (as_received wire e)) s"
  by (simp add: from_app_translate translate_message [OF assms])

section \<open>Properties\<close>

text \<open>
  C32: translation.  An order or execution whose price and quantity are below \<open>10^15\<close> in absolute value is
  read back from its FIX message exactly, to the nanosecond and the unit of quantity, but for what FIX does
  not carry.  A new order loses its reference to an original; a cancellation its price, type and venue; and a
  price becomes what its decimal text of fifteen digits is read as, which is the price itself when that is the
  double nearest to a decimal of at most fifteen digits.
\<close>

theorem fix_translation_roundtrip:
  assumes "lawful wire lib" and "fifteen_digits (OrderEvent order)" and "fifteen_digits (ExecutionEvent x)"
  shows "from_new_order_single lib (to_new_order_single lib order) =
      Inr (order\<lparr>o_price := carried_price wire (o_price order), o_status := KNew, o_orig_order_id := []\<rparr>) \<and>
    (short_decimal (o_price order) \<longrightarrow> from_new_order_single lib (to_new_order_single lib order) =
      Inr (order\<lparr>o_status := KNew, o_orig_order_id := []\<rparr>)) \<and>
    from_order_cancel_request lib (to_order_cancel_request lib order) =
      Inr (order\<lparr>o_status := KCancelled, o_price := 0, o_order_type := KLimit, o_venue := []\<rparr>) \<and>
    from_execution_report lib (to_execution_report lib x) = Inr (x\<lparr>x_price := carried_price wire (x_price x)\<rparr>) \<and>
    (short_decimal (x_price x) \<longrightarrow> from_execution_report lib (to_execution_report lib x) = Inr x)"
proof -
  have "wire (o_price order) \<noteq> None" "wire (x_price x) \<noteq> None"
    by (rule lawfulD(10) [OF assms(1)], use assms in simp)+
  moreover have "\<bar>o_qty order\<bar> < 10 ^ 15" "\<bar>x_qty x\<bar> < 10 ^ 15" using assms by simp_all
  note qty = this [THEN wire_qty(1) [OF assms(1)]] this [THEN wire_qty(2) [OF assms(1)]]
  ultimately show ?thesis
    using new_order_read [OF assms(1), of order] cancel_request_read [OF assms(1), of order]
      execution_report_read [OF assms(1), of x]
    by (simp add: qty wire_price [OF assms(1)])
qed

text \<open>Messages as maps: a library that satisfies the laws.\<close>

type_synonym map_message = "string \<times> (nat \<rightharpoonup> fix_value) \<times> (nat \<times> nat \<rightharpoonup> fix_value)"

definition map_library :: "map_message fix_library" where
  "map_library =
     \<lparr>fl_blank = \<lambda>type. (type, Map.empty, Map.empty), fl_type = fst,
      fl_set = \<lambda>tag v (t, m, g). (t, m(tag \<mapsto> v), g), fl_get = \<lambda>tag (t, m, g). m tag,
      fl_add_group = \<lambda>grp tag v (t, m, g). (t, m, g((grp, tag) \<mapsto> v)),
      fl_get_group = \<lambda>grp tag (t, m, g). g (grp, tag)\<rparr>"

lemma map_library_lawful: "lawful Some map_library"
proof -
  have "on_wire Some v = Some v" for v by (cases v) simp_all
  then show ?thesis by (auto simp: lawful_def map_library_def)
qed

theorem fix_translation_roundtrip_witness:
  "from_execution_report map_library (to_execution_report map_library default_execution) = Inr default_execution"
proof -
  have "fifteen_digits (OrderEvent default_order)" "fifteen_digits (ExecutionEvent default_execution)"
    by (simp_all add: default_order_def default_execution_def)
  from fix_translation_roundtrip [OF map_library_lawful this] show ?thesis
    by (simp add: carried_price_def default_execution_def)
qed

lemma from_app_all_translated:
  "from_app_all lib (\<lambda>e q. Inr (push e q)) ms s =
    (let r = translated lib ms
     in s\<lparr>fa_received_orders := fa_received_orders s @ orders_of r,
          fa_received_executions := fa_received_executions s @ executions_of r,
          fa_event_sink := map_option (fold push r) (fa_event_sink s)\<rparr>)"
proof (induction ms arbitrary: s)
  case Nil
  show ?case by (cases "fa_event_sink s") (simp_all add: from_app_all_def translated_def map_filter_simps)
next
  case (Cons m ms)
  have rest: "from_app_all lib (\<lambda>e q. Inr (push e q)) (m # ms) s =
      from_app_all lib (\<lambda>e q. Inr (push e q)) ms (fst (from_app lib (\<lambda>e q. Inr (push e q)) m s))"
    by (simp add: from_app_all_def)
  show ?case
  proof (cases "translate lib m")
    case (Inl e)
    then have "translated lib (m # ms) = translated lib ms" by (simp add: translated_def map_filter_simps)
    then show ?thesis by (simp only: rest from_app_translate Inl Cons.IH sum.case fst_conv)
  next
    case (Inr event)
    have same: "s\<lparr>fa_event_sink := None\<rparr> = s" if "fa_event_sink s = None" using that by (cases s) simp
    have "fst (from_app lib (\<lambda>e q. Inr (push e q)) m s) =
        record_received event (s\<lparr>fa_event_sink := map_option (push event) (fa_event_sink s)\<rparr>)"
      by (cases "fa_event_sink s") (simp_all add: from_app_translate Inr deliver_def same)
    moreover have "translated lib (m # ms) = event # translated lib ms" by (simp add: translated_def map_filter_simps Inr)
    ultimately show ?thesis
      unfolding rest Cons.IH
      by (cases event; cases "fa_event_sink s") (simp_all add: record_order_def record_execution_def Let_def)
  qed
qed

lemma translated_messages:
  assumes "lawful wire lib" and "list_all (carries wire) es"
  shows "translated lib (map (to_message lib) es) = map (as_received wire) es"
  using assms(2) by (induction es) (simp_all add: translated_def map_filter_simps translate_message [OF assms(1)])

lemma from_app_session:
  assumes "lawful wire lib" and "list_all (carries wire) es"
  shows "from_app_all lib (\<lambda>e q. Inr (push e q)) (map (to_message lib) es) s =
    (let r = map (as_received wire) es
     in s\<lparr>fa_received_orders := fa_received_orders s @ orders_of r,
          fa_received_executions := fa_received_executions s @ executions_of r,
          fa_event_sink := map_option (fold push r) (fa_event_sink s)\<rparr>)"
  by (simp add: from_app_all_translated translated_messages [OF assms])

text \<open>
  C31: from the session to the ring.  After any sequence of messages, the sink has been given the events of those
  that can be translated, once each and in order of arrival, and the application has recorded the same.  For the
  messages of orders and executions whose numbers the wire carries, these are the events themselves as FIX carries
  them.  A message is rejected, with the translator's exception or because its type is none of the three, and changes
  nothing, exactly when it cannot be translated; every other message is given to the sink.
\<close>

theorem fix_session_delivers:
  assumes "lawful wire lib" and "list_all (carries wire) es"
  shows "(let s = from_app_all lib (\<lambda>e q. Inr (push e q)) ms (new_application (Some q)); r = translated lib ms
     in fa_event_sink s = Some (fold push r q) \<and> fa_received_orders s = orders_of r \<and>
        fa_received_executions s = executions_of r) \<and>
    translated lib (map (to_message lib) es) = map (as_received wire) es \<and>
    (\<forall>sink m s. from_app lib sink m s =
       (case translate lib m of Inl e \<Rightarrow> (s, Some e) | Inr event \<Rightarrow> deliver sink event (record_received event) s))"
  by (intro conjI allI translated_messages [OF assms] from_app_translate)
    (simp add: from_app_all_translated new_application_def Let_def)

theorem fix_session_delivers_witness:
  "fa_event_sink (from_app_all map_library (\<lambda>e q. Inr (q @ [e]))
     (map (to_message map_library) [OrderEvent default_order, ExecutionEvent default_execution]) (new_application (Some []))) =
   Some [OrderEvent default_order, ExecutionEvent default_execution]"
proof -
  let ?es = "[OrderEvent default_order, ExecutionEvent default_execution]"
  have "list_all (carries Some) ?es" by simp
  from fix_session_delivers [OF map_library_lawful this, where push = "\<lambda>e q. q @ [e]" and q = "[]"
      and ms = "map (to_message map_library) ?es"]
  have "fa_event_sink (from_app_all map_library (\<lambda>e q. Inr (q @ [e])) (map (to_message map_library) ?es) (new_application (Some []))) =
    Some (fold (\<lambda>e q. q @ [e]) (map (as_received Some) ?es) [])"
    unfolding Let_def by metis
  moreover have "map (as_received Some) ?es = ?es"
  proof -
    have "to_double 0 = of_int 0" "round_to_int64 (of_int 0) = 0" by (simp_all only: to_double_exact round_to_int64_def llround_int) simp
    then show ?thesis by (simp add: default_order_def default_execution_def carried_price_def carried_qty_def)
  qed
  ultimately show ?thesis by (simp only:) simp
qed

text \<open>
  C33: when Kafka fails.  The sink of the pipeline gives an event to Kafka first.  If the
  producer throws, the event reaches neither the ring buffer nor the records of the application;
  if the producer's queue is full, the event reaches the ring buffer but not the topic, and
  nobody is told.
\<close>

theorem kafka_failure_loses_event:
  assumes "lawful wire lib" and "carries wire e"
  shows "from_app lib (sink_publish push (Some (Produce_Error msg))) (to_message lib e) (new_application (Some (topic, q))) =
      (new_application (Some (topic, q)), Some (Sink_Exception (''KafkaProducer: produce() failed: '' @ msg))) \<and>
    (\<exists>s. from_app lib (sink_publish push (Some Queue_Full)) (to_message lib e) (new_application (Some (topic, q))) = (s, None) \<and>
      fa_event_sink s = Some (topic, push (as_received wire e) q))"
  by (simp add: from_app_message [OF assms] deliver_def new_application_def sink_publish_def publish_def)

theorem kafka_failure_loses_event_witness:
  "snd (from_app map_library (sink_publish (#) (Some (Produce_Error ''down''))) (to_message map_library (OrderEvent default_order))
     (new_application (Some ([], [])))) = Some (Sink_Exception ''KafkaProducer: produce() failed: down'')"
  using kafka_failure_loses_event [OF map_library_lawful, of "OrderEvent default_order" "(#)" "''down''" "[]" "[]"]
  by simp

end
