(* ===== verification/Book_Registry.thy ===== *)
theory Book_Registry
  imports Consumer_Properties
begin

text \<open>
  \<open>cpp/api/live_book_registry.cpp\<close>: the consumer of the API server.  It is the loop of
  \<open>LiveConsumer\<close> with a mutex around every event, so that the threads that answer HTTP requests
  can read a book and the recent messages of an instrument between two events.  Each locked
  region is one step here.
\<close>

section \<open>The code\<close>

record book_event =
  be_timestamp_ns :: int
  be_instrument_id :: string
  be_msg_type :: string
  be_side :: string
  be_price :: double
  be_qty :: int
  be_order_id :: string
  be_account_id :: string

fun to_book_event :: "event \<Rightarrow> book_event" where
  "to_book_event (OrderEvent order) =
     \<lparr>be_timestamp_ns = o_timestamp_ns order, be_instrument_id = o_instrument_id order,
      be_msg_type = (case o_status order of KCancelled \<Rightarrow> ''CANCEL'' | KReplaced \<Rightarrow> ''REPLACE'' | KNew \<Rightarrow> ''NEW''),
      be_side = (if o_side order = KBuy then ''BUY'' else ''SELL''), be_price = o_price order,
      be_qty = o_qty order, be_order_id = o_order_id order, be_account_id = o_account_id order\<rparr>"
| "to_book_event (ExecutionEvent x) =
     \<lparr>be_timestamp_ns = x_timestamp_ns x, be_instrument_id = x_instrument_id x, be_msg_type = ''EXECUTION'',
      be_side = (if x_side x = KBuy then ''BUY'' else ''SELL''), be_price = x_price x,
      be_qty = x_qty x, be_order_id = x_order_id x, be_account_id = x_account_id x\<rparr>"

definition max_events_per_instrument :: nat where
  "max_events_per_instrument = 200"

record 'd book_registry =
  br_pipeline :: "'d live_pipeline"
  br_alert_sink :: "alert list option"
  br_events_processed :: u64
  br_events_skipped_inconsistent :: u64
  br_recent_events :: "string \<rightharpoonup> book_event list"

definition new_registry :: "'d live_pipeline \<Rightarrow> alert list option \<Rightarrow> 'd book_registry" where
  "new_registry p sink = \<lparr>br_pipeline = p, br_alert_sink = sink, br_events_processed = 0,
     br_events_skipped_inconsistent = 0, br_recent_events = Map.empty\<rparr>"

text \<open>\<open>while (events.size() > limit) events.pop_front();\<close>\<close>

fun drop_front_above :: "nat \<Rightarrow> 'a list \<Rightarrow> 'a list" where
  "drop_front_above limit [] = []"
| "drop_front_above limit (x # xs) = (if limit < length (x # xs) then drop_front_above limit xs else x # xs)"

definition record_event :: "event \<Rightarrow> 'd book_registry \<Rightarrow> 'd book_registry" where
  "record_event event s =
     (let recorded = to_book_event event;
          i = be_instrument_id recorded;
          events = (case br_recent_events s i of None \<Rightarrow> [] | Some es \<Rightarrow> es)
      in s\<lparr>br_recent_events := (br_recent_events s)(i \<mapsto> drop_front_above max_events_per_instrument (events @ [recorded]))\<rparr>)"

definition registry_process_one ::
    "(account_registry \<Rightarrow> 'd evaluation) \<Rightarrow> (nat \<Rightarrow> int) \<Rightarrow> event \<Rightarrow> 'd book_registry \<Rightarrow> 'd book_registry" where
  "registry_process_one dispatch clock event s =
     (let (p, result) = process dispatch clock event (br_pipeline s);
          s1 = record_event event (s\<lparr>br_pipeline := p\<rparr>);
          s2 = s1\<lparr>br_events_processed := br_events_processed s1 + 1\<rparr>
      in if pr_skipped_inconsistent result
         then s2\<lparr>br_events_skipped_inconsistent := br_events_skipped_inconsistent s2 + 1\<rparr>
         else s2\<lparr>br_alert_sink := map_option (\<lambda>alerts. fold on_alert (pr_alerts result) alerts) (br_alert_sink s2)\<rparr>)"

definition registry_snapshot :: "string \<Rightarrow> 'd book_registry \<Rightarrow> depth_snapshot option" where
  "registry_snapshot i s = map_option snapshot (book_for i (br_pipeline s))"

definition recent_events :: "string \<Rightarrow> nat \<Rightarrow> 'd book_registry \<Rightarrow> book_event list" where
  "recent_events i limit s =
     (case br_recent_events s i of
        None \<Rightarrow> []
      | Some events \<Rightarrow> (let count = min limit (length events) in drop (length events - count) events))"

section \<open>The recent events are a suffix of the instrument's history\<close>

definition last_n :: "nat \<Rightarrow> 'a list \<Rightarrow> 'a list" where
  "last_n n xs = drop (length xs - n) xs"

lemma drop_front_above_last: "drop_front_above n xs = last_n n xs"
  by (induction xs) (auto simp: last_n_def Suc_diff_le not_le)

lemma last_n_snoc: "last_n n (last_n n xs @ [x]) = last_n n (xs @ [x])"
  by (cases n; cases "length xs < n") (simp_all add: last_n_def Suc_diff_Suc)

lemma last_n_last_n: "last_n m (last_n n xs) = last_n (min m n) xs"
proof -
  have "length xs - n + (length xs - (length xs - n) - m) = length xs - min m n" by linarith
  then show ?thesis by (simp add: last_n_def add.commute)
qed

text \<open>The feed of an instrument: what has arrived, whether or not the book took it.\<close>

definition feed_of :: "string \<Rightarrow> event list \<Rightarrow> book_event list" where
  "feed_of i es = map to_book_event (filter (\<lambda>e. instrument_id_of e = i) es)"

lemma to_book_event_instrument [simp]: "be_instrument_id (to_book_event e) = instrument_id_of e"
  by (cases e) simp_all

definition registry_run :: "any_detector list \<Rightarrow> account_registry \<Rightarrow> (nat \<Rightarrow> int) \<Rightarrow> alert list \<Rightarrow> event list
     \<Rightarrow> any_detector book_registry" where
  "registry_run ds accounts clock earlier es =
     fold (registry_process_one evaluate_any clock) es (new_registry (new_pipeline ds accounts) (Some earlier))"

lemma registry_run_snoc:
  "registry_run ds accounts clock earlier (es @ [e]) =
     registry_process_one evaluate_any clock e (registry_run ds accounts clock earlier es)"
  by (simp add: registry_run_def)

lemma registry_process_one_recent:
  "br_recent_events (registry_process_one dispatch clock e s) =
     (br_recent_events s)(instrument_id_of e \<mapsto> last_n max_events_per_instrument
       ((case br_recent_events s (instrument_id_of e) of None \<Rightarrow> [] | Some es \<Rightarrow> es) @ [to_book_event e]))"
  by (simp add: registry_process_one_def record_event_def Let_def split_beta drop_front_above_last)

lemma registry_recent:
  "br_recent_events (registry_run ds accounts clock earlier es) i =
     (if has_instrument i es then Some (last_n max_events_per_instrument (feed_of i es)) else None)"
proof (induction es rule: rev_induct)
  case Nil
  show ?case by (simp add: registry_run_def new_registry_def has_instrument_def)
next
  case (snoc e es)
  have none: "feed_of i es = []" if "\<not> has_instrument i es"
    using that by (simp add: feed_of_def has_instrument_def list_ex_iff filter_empty_conv)
  have feed: "feed_of i (es @ [e]) = feed_of i es @ (if instrument_id_of e = i then [to_book_event e] else [])"
    "has_instrument i (es @ [e]) \<longleftrightarrow> has_instrument i es \<or> instrument_id_of e = i"
    by (simp_all add: feed_of_def has_instrument_def)
  show ?case
    using snoc none last_n_snoc [of max_events_per_instrument "feed_of i es" "to_book_event e"]
      last_n_snoc [of max_events_per_instrument "[]" "to_book_event e"]
    by (cases "instrument_id_of e = i"; cases "has_instrument i es")
      (simp_all add: registry_run_snoc registry_process_one_recent feed)
qed

section \<open>The registry is the live consumer with a feed\<close>

definition as_consumer :: "'d book_registry \<Rightarrow> 'd live_consumer \<Rightarrow> bool" where
  "as_consumer s c \<longleftrightarrow> br_pipeline s = lc_pipeline c \<and> br_alert_sink s = lc_alert_sink c \<and>
     br_events_processed s = lc_events_processed c \<and>
     br_events_skipped_inconsistent s = lc_events_skipped_inconsistent c"

lemma registry_process_one_consumer:
  "as_consumer s c \<Longrightarrow> as_consumer (registry_process_one dispatch clock e s) (process_one dispatch clock e c)"
  by (auto simp: as_consumer_def registry_process_one_def process_one_def record_event_def Let_def split_beta)

lemma registry_run_consumer:
  "as_consumer (registry_run ds accounts clock earlier es) (consumer_run ds accounts clock earlier es)"
proof (induction es rule: rev_induct)
  case Nil
  show ?case by (simp add: registry_run_def consumer_run_def as_consumer_def new_registry_def new_consumer_def)
next
  case (snoc e es)
  then show ?case by (simp add: registry_run_snoc consumer_run_snoc registry_process_one_consumer)
qed

lemma registry_snapshot_run:
  "registry_snapshot i (registry_run ds accounts clock earlier es) =
     (if has_instrument i es then Some (snapshot (own_book es i)) else None)"
proof -
  have "br_pipeline (registry_run ds accounts clock earlier es) =
      process_all evaluate_any clock es (new_pipeline ds accounts)"
    using registry_run_consumer by (simp add: as_consumer_def consumer_run_pipeline)
  moreover have "books_ok es (process_all evaluate_any clock es (new_pipeline ds accounts))"
    by (rule process_all_books_ok)
  ultimately show ?thesis by (simp add: registry_snapshot_def book_for_def books_ok_def)
qed

section \<open>Properties\<close>

text \<open>
  The API's consumer is the live consumer.  After any events, the registry's pipeline, its
  alerts and its two counters are those of \<open>LiveConsumer\<close> on the same events: every
  event is counted, each refused one is counted as skipped, and the alerts are those of the
  detectors run alone over the accepted events.
\<close>

theorem registry_is_live_consumer:
  "let s = registry_run ds accounts clock earlier es; c = consumer_run ds accounts clock earlier es
   in br_pipeline s = lc_pipeline c \<and> br_alert_sink s = lc_alert_sink c \<and>
      br_events_processed s = of_nat (length es) \<and>
      br_events_skipped_inconsistent s = of_nat (length es - length (accepted_from [] es)) \<and>
      (\<exists>alerts. br_alert_sink s = Some alerts \<and> mset alerts = delivered earlier ds accounts es)"
  using registry_run_consumer [of ds accounts clock earlier es] consumer_run_result [of ds accounts clock earlier es]
  by (simp add: as_consumer_def Let_def)

text \<open>
  C30: what a request sees.  However the producer's pushes, the registry's turns and the
  requests interleave, a request that reads between two steps sees, for every instrument, the
  snapshot of the book that the events handled so far have built, nothing if none of
  them is of the instrument, and as its recent messages the last \<open>limit\<close>, at most 200, of the
  handled events of the instrument, in order, refused ones included; and the handled events are a
  subsequence of the input.
\<close>

theorem registry_reads_consistent:
  fixes s :: "(event, event system, any_detector book_registry) loop_system"
  assumes "new_ring capacity dflt = Some r" and "unat capacity < 2 ^ 63"
    and "length input \<le> 2 ^ 64 - 1 - unat capacity"
    and "(loop_step push_alone pop_alone (registry_process_one evaluate_any clock))\<^sup>*\<^sup>*
           (loop_start input (start r) (new_registry (new_pipeline ds accounts) (Some earlier))) s"
  shows "subseq (ls_handled s) input \<and>
    registry_snapshot i (ls_client s) =
      (if has_instrument i (ls_handled s) then Some (snapshot (own_book (ls_handled s) i)) else None) \<and>
    recent_events i limit (ls_client s) = last_n (min limit 200) (feed_of i (ls_handled s))"
proof -
  have start: "ring_contents (start r) = []" "ring_drops (start r) = 0" "ring_pushes (start r) = 0"
    by (simp_all add: ring_contents_def ring_drops_def ring_pushes_def start_def)
  have inv: "ring_queue.loop_inv (unat capacity) input (registry_process_one evaluate_any clock)
      (new_registry (new_pipeline ds accounts) (Some earlier)) s"
    by (rule ring_queue.loop_reachable_inv [OF assms(4,3) start_quiet [OF assms(1,2)] start])
  have client: "ls_client s = registry_run ds accounts clock earlier (ls_handled s)"
    using inv by (simp add: ring_queue.loop_inv_def registry_run_def)
  have sub: "subseq (ls_handled s) input"
  proof -
    obtain p where "input = p @ ls_todo s" "subseq (ls_handled s @ ring_contents (ls_queue s)) p"
      using inv by (auto simp: ring_queue.loop_inv_def)
    moreover have "subseq (ls_handled s) (ls_handled s @ ring_contents (ls_queue s))" "subseq p (p @ ls_todo s)"
      by (rule prefix_imp_subseq, simp)+
    ultimately show ?thesis using subseq_order.order_trans by metis
  qed
  have "recent_events i limit (ls_client s) = last_n (min limit 200) (feed_of i (ls_handled s))"
  proof (cases "has_instrument i (ls_handled s)")
    case True
    have "recent_events i limit (ls_client s) = last_n limit (last_n 200 (feed_of i (ls_handled s)))"
      by (auto simp: recent_events_def client registry_recent True max_events_per_instrument_def last_n_def Let_def min_def)
    then show ?thesis by (simp add: last_n_last_n)
  next
    case False
    then show ?thesis
      by (simp add: recent_events_def client registry_recent feed_of_def has_instrument_def list_ex_iff last_n_def filter_empty_conv)
  qed
  then show ?thesis using sub by (simp add: client registry_snapshot_run)
qed

theorem registry_reads_consistent_witness:
  "\<exists>s. ls_handled s = self_trade \<and>
     recent_events ''ES'' 5 (ls_client (s :: (event, event system, any_detector book_registry) loop_system)) =
       map to_book_event self_trade \<and>
     registry_snapshot ''FX'' (ls_client s) = None"
proof -
  let ?h = "registry_process_one evaluate_any (\<lambda>n. int n)"
  let ?step = "loop_step push_alone pop_alone ?h"
  obtain r where r: "new_ring 2 self_fill = Some r" by (simp add: new_ring_def)
  let ?s0 = "loop_start self_trade (start r) (new_registry (new_pipeline [Wash_Trade_Detector] empty_registry) (Some []))"
  let ?s1 = "?s0\<lparr>ls_todo := [], ls_queue := push_alone (hd self_trade) (ls_queue ?s0)\<rparr>"
  let ?s2 = "loop_turn pop_alone ?h ?s1"
  have "?step ?s0 ?s1" by (rule loop_step.produce) (simp add: loop_start_def self_trade_def)
  then have run: "?step\<^sup>*\<^sup>* ?s0 ?s2" using loop_step.consume [of push_alone pop_alone ?h ?s1] by (meson converse_rtranclp_into_rtranclp r_into_rtranclp)
  have q: "quiet 2 (start r)" using start_quiet [OF r] by simp
  have e: "ring_contents (start r) = []" "ring_pushes (start r) = 0"
    by (simp_all add: ring_contents_def ring_pushes_def start_def)
  have "ring_contents (push_alone (hd self_trade) (start r)) = self_trade" "quiet 2 (push_alone (hd self_trade) (start r))"
    using ring_queue.push_contents [OF q, of "hd self_trade"] ring_queue.push_invar [OF q, of "hd self_trade"] e
    by (simp_all add: self_trade_def)
  then have "snd (pop_alone (push_alone (hd self_trade) (start r))) = Some (hd self_trade)"
    using ring_queue.pop_result [of 2 "push_alone (hd self_trade) (start r)"] by (simp add: self_trade_def)
  then have handled: "ls_handled ?s2 = self_trade"
    by (simp add: loop_turn_def pop_and_handle_def loop_start_def split_beta self_trade_def)
  have small: "unat (2 :: u64) < 2 ^ 63" "length self_trade \<le> 2 ^ 64 - 1 - unat (2 :: u64)"
    by (simp_all add: self_trade_def)
  note P = registry_reads_consistent [OF r small run, unfolded handled]
  have "recent_events ''ES'' 5 (ls_client ?s2) = map to_book_event self_trade"
    using P [of "''ES''" 5] by (simp add: feed_of_def self_trade_def plain_order_def last_n_def)
  moreover have "registry_snapshot ''FX'' (ls_client ?s2) = None"
    using P [of "''FX''" 5] by (simp add: has_instrument_def self_trade_def plain_order_def)
  ultimately show ?thesis using handled by blast
qed

end
