(* ===== verification/Replay.thy ===== *)
theory Replay
  imports Consumer_Properties Sim_Types
begin

text \<open>
  \<open>cpp/harness/replay_runner.cpp\<close>: the evaluation's replay of a simulation.  Orders and
  executions become one stream in time order, go through a Kafka topic and the ring buffer, and
  are consumed by the live pipeline.  What librdkafka answers is a list of answers; a list
  that runs out while the code still waits is the value \<open>None\<close>.  This is the replay without
  the ML service (\<open>ml_eval == nullptr\<close>, the default); \<open>Ml_Replay\<close> has the one with it.
\<close>

section \<open>The stream of events\<close>

definition to_fix_order :: "sim_order \<Rightarrow> order" where
  "to_fix_order order =
     \<lparr>o_order_id = so_order_id order, o_account_id = so_account_id order, o_instrument_id = so_instrument_id order,
      o_side = (if so_side order = SBuy then KBuy else KSell), o_price = so_price order, o_qty = so_qty order,
      o_order_type = (if so_order_type order = SMarket then KMarket else KLimit),
      o_timestamp_ns = so_timestamp_ns order,
      o_status = (if so_status order = SCancelled then KCancelled else KNew), o_venue = so_venue order,
      o_orig_order_id = so_order_id order\<rparr>"

definition to_fix_execution :: "sim_execution \<Rightarrow> side \<Rightarrow> execution" where
  "to_fix_execution x side =
     \<lparr>x_trade_id = sx_trade_id x, x_order_id = sx_order_id x, x_account_id = sx_account_id x,
      x_instrument_id = sx_instrument_id x, x_side = side, x_price = sx_price x, x_qty = sx_qty x,
      x_timestamp_ns = sx_timestamp_ns x, x_counterparty_account_id = sx_counterparty_account_id x,
      x_venue = sx_venue x\<rparr>"

definition to_entity :: "sim_account \<Rightarrow> entity" where
  "to_entity account =
     \<lparr>e_account_id = a_account_id account, e_beneficial_owner_id = a_beneficial_owner_id account,
      e_entity_type = entity_type_to_string (a_entity_type account),
      e_linked_account_ids = a_linked_account_ids account\<rparr>"

definition side_by_order_id :: "sim_order list \<Rightarrow> (string \<rightharpoonup> side)" where
  "side_by_order_id orders =
     fold (\<lambda>order sides. sides(so_order_id order \<mapsto> (if so_side order = SBuy then KBuy else KSell))) orders Map.empty"

record replay_item =
  it_timestamp_ns :: int
  it_is_execution :: bool
  it_index :: nat

text \<open>The items as they are pushed; \<open>std::stable_sort\<close> by time is \<open>sort_key\<close>.\<close>

definition replay_items :: "simulation_output \<Rightarrow> replay_item list" where
  "replay_items simulation =
     map (\<lambda>i. \<lparr>it_timestamp_ns = so_timestamp_ns (sim_orders simulation ! i), it_is_execution = False, it_index = i\<rparr>)
       [0..<length (sim_orders simulation)] @
     map (\<lambda>i. \<lparr>it_timestamp_ns = sx_timestamp_ns (sim_executions simulation ! i), it_is_execution = True, it_index = i\<rparr>)
       [0..<length (sim_executions simulation)]"

text \<open>\<open>std::out_of_range\<close> of \<open>at\<close> is \<open>Inl\<close> of the order id that is not in the map.\<close>

definition item_event :: "simulation_output \<Rightarrow> (string \<rightharpoonup> side) \<Rightarrow> replay_item \<Rightarrow> string + event" where
  "item_event simulation sides item =
     (if \<not> it_is_execution item then Inr (OrderEvent (to_fix_order (sim_orders simulation ! it_index item)))
      else let x = sim_executions simulation ! it_index item
           in case sides (sx_order_id x) of
                None \<Rightarrow> Inl (sx_order_id x)
              | Some side \<Rightarrow> Inr (ExecutionEvent (to_fix_execution x side)))"

fun item_events :: "simulation_output \<Rightarrow> (string \<rightharpoonup> side) \<Rightarrow> replay_item list \<Rightarrow> string + event list" where
  "item_events simulation sides [] = Inr []"
| "item_events simulation sides (item # items) =
     (case item_event simulation sides item of
        Inl e \<Rightarrow> Inl e
      | Inr event \<Rightarrow> map_sum id (Cons event) (item_events simulation sides items))"

definition to_ingestion_events :: "simulation_output \<Rightarrow> string + event list" where
  "to_ingestion_events simulation =
     item_events simulation (side_by_order_id (sim_orders simulation))
       (sort_key it_timestamp_ns (replay_items simulation))"

definition make_five_detectors :: "iteration \<Rightarrow> simulation_output \<Rightarrow> any_detector list" where
  "make_five_detectors iter simulation =
     [Wash_Trade_Detector,
      Spoofing_Layering_Detector default_spoofing_layering_config empty_spoofing_state,
      Marking_The_Close_Detector iter
        (default_marking_config (fold (\<lambda>i m. m(i_instrument_id i \<mapsto> i_session_close_ns i)) (sim_instruments simulation) Map.empty))
        empty_marking_state,
      Front_Running_Detector default_front_running_config Map.empty,
      Statistical_Baseline_Detector default_statistical_baseline_config Map.empty]"

section \<open>The size of the ring buffer\<close>

text \<open>The loop doubles a \<open>size_t\<close>, which wraps to zero above \<open>2^63\<close> and then stays there.\<close>

partial_function (option) grow_capacity :: "u64 \<Rightarrow> u64 \<Rightarrow> u64 option" where
  "grow_capacity n capacity = (if capacity < n then grow_capacity n (capacity * 2) else Some capacity)"

definition ring_buffer_capacity_for :: "u64 \<Rightarrow> u64 option" where
  "ring_buffer_capacity_for n = grow_capacity n 1024"

section \<open>Through Kafka and the buffer\<close>

fun publish_retrying ::
    "produce_answer list \<Rightarrow> event \<Rightarrow> string list \<Rightarrow> (string + produce_answer list \<times> string list) option" where
  "publish_retrying [] event topic = None"
| "publish_retrying (a # answers) event topic =
     (case publish a event topic of
        (Inl msg, topic') \<Rightarrow> Some (Inl msg)
      | (Inr queued, topic') \<Rightarrow> if queued then Some (Inr (answers, topic')) else publish_retrying answers event topic')"

fun publish_events :: "produce_answer list \<Rightarrow> event list \<Rightarrow> string list \<Rightarrow> (string + string list) option" where
  "publish_events answers [] topic = Some (Inr topic)"
| "publish_events answers (event # events) topic =
     (case publish_retrying answers event topic of
        None \<Rightarrow> None
      | Some (Inl msg) \<Rightarrow> Some (Inl msg)
      | Some (Inr (answers', topic')) \<Rightarrow> publish_events answers' events topic')"

text \<open>The polling loop: what it pushes, and the exception that ends it, if one does.\<close>

fun poll_topic :: "nat \<Rightarrow> nat \<Rightarrow> nat \<Rightarrow> consume_answer list \<Rightarrow> (event list \<times> poll_error option) option" where
  "poll_topic expected replayed misses [] = (if replayed < expected \<and> misses < 10 then None else Some ([], None))"
| "poll_topic expected replayed misses (a # answers) =
     (if replayed < expected \<and> misses < 10
      then (case poll a of
              Inl e \<Rightarrow> Some ([], Some e)
            | Inr (Some event) \<Rightarrow> map_option (apfst (Cons event)) (poll_topic expected (replayed + 1) 0 answers)
            | Inr None \<Rightarrow> poll_topic expected replayed (misses + 1) answers)
      else Some ([], None))"

record replay_result =
  rr_alerts :: "alert list"
  rr_events_total :: u64
  rr_events_replayed_from_kafka :: u64
  rr_events_processed :: u64
  rr_events_skipped_inconsistent :: u64
  rr_ring_buffer_dropped :: u64

datatype replay_error =
    Unknown_Order string
  | Produce_Failed string
  | Flush_Timed_Out
  | Replayed_Only nat nat
  | Ring_Dropped u64
  | Ml_Unreachable
  | Ml_Dropped u64

text \<open>\<open>Terminated\<close>: an exception destroys a joinable \<open>std::thread\<close>, which calls \<open>std::terminate\<close>.\<close>

datatype replay_outcome = Finished replay_result | Thrown replay_error | Terminated

definition replay_publish ::
    "simulation_output \<Rightarrow> produce_answer list \<Rightarrow> bool \<Rightarrow> (replay_error + event list \<times> string list) option" where
  "replay_publish simulation answers flushed =
     (case to_ingestion_events simulation of
        Inl oid \<Rightarrow> Some (Inl (Unknown_Order oid))
      | Inr events \<Rightarrow>
          (case publish_events answers events [] of
             None \<Rightarrow> None
           | Some (Inl msg) \<Rightarrow> Some (Inl (Produce_Failed msg))
           | Some (Inr topic) \<Rightarrow> Some (if flushed then Inr (events, topic) else Inl Flush_Timed_Out)))"

definition registered_accounts :: "simulation_output \<Rightarrow> account_registry" where
  "registered_accounts simulation =
     fold (\<lambda>account accounts. add_entity (to_entity account) accounts) (sim_accounts simulation) empty_registry"

definition replay_consumer :: "iteration \<Rightarrow> simulation_output \<Rightarrow> any_detector live_consumer" where
  "replay_consumer iter simulation =
     new_consumer (new_pipeline (make_five_detectors iter simulation) (registered_accounts simulation)) (Some [])"

text \<open>The checks after both threads have been joined, and the result.\<close>

definition replay_checks :: "nat \<Rightarrow> nat \<Rightarrow> u64 \<Rightarrow> any_detector live_consumer \<Rightarrow> replay_outcome" where
  "replay_checks expected replayed dropped consumer =
     (if replayed \<noteq> expected then Thrown (Replayed_Only replayed expected)
      else if dropped \<noteq> 0 then Thrown (Ring_Dropped dropped)
      else Finished
        \<lparr>rr_alerts = (case lc_alert_sink consumer of None \<Rightarrow> [] | Some alerts \<Rightarrow> alerts),
         rr_events_total = of_nat expected, rr_events_replayed_from_kafka = of_nat replayed,
         rr_events_processed = lc_events_processed consumer,
         rr_events_skipped_inconsistent = lc_events_skipped_inconsistent consumer,
         rr_ring_buffer_dropped = dropped\<rparr>)"

text \<open>
  A run, for what the broker answers to \<open>produce\<close> and \<open>flush\<close>, whether the consumer can be
  created, and what it answers to \<open>consume\<close>.  Any interleaving of the pushes with the
  consumer's thread is possible.
\<close>

inductive replay_through_kafka ::
    "iteration \<Rightarrow> (nat \<Rightarrow> int) \<Rightarrow> simulation_output \<Rightarrow> produce_answer list \<Rightarrow> bool \<Rightarrow> bool \<Rightarrow> consume_answer list
     \<Rightarrow> replay_outcome \<Rightarrow> bool"
  for iter clock simulation produced flushed connected consumed where
  publishing_fails: "replay_publish simulation produced flushed = Some (Inl e) \<Longrightarrow>
    replay_through_kafka iter clock simulation produced flushed connected consumed (Thrown e)"
| no_consumer: "replay_publish simulation produced flushed = Some (Inr (events, topic)) \<Longrightarrow>
    ring_buffer_capacity_for (of_nat (length events)) = Some capacity \<Longrightarrow> \<not> connected \<Longrightarrow>
    replay_through_kafka iter clock simulation produced flushed connected consumed Terminated"
| polling_fails: "replay_publish simulation produced flushed = Some (Inr (events, topic)) \<Longrightarrow>
    ring_buffer_capacity_for (of_nat (length events)) = Some capacity \<Longrightarrow> connected \<Longrightarrow>
    poll_topic (length events) 0 0 consumed = Some (pushed, Some e) \<Longrightarrow>
    replay_through_kafka iter clock simulation produced flushed connected consumed Terminated"
| joined: "replay_publish simulation produced flushed = Some (Inr (events, topic)) \<Longrightarrow>
    ring_buffer_capacity_for (of_nat (length events)) = Some capacity \<Longrightarrow> connected \<Longrightarrow>
    poll_topic (length events) 0 0 consumed = Some (pushed, None) \<Longrightarrow>
    new_ring capacity (OrderEvent default_order) = Some r \<Longrightarrow>
    (loop_step push_alone pop_alone (process_one evaluate_any clock))\<^sup>*\<^sup>*
      (loop_start pushed (start r) (replay_consumer iter simulation)) s \<Longrightarrow>
    ls_pc s = Stopped \<Longrightarrow>
    replay_through_kafka iter clock simulation produced flushed connected consumed
      (replay_checks (length events) (length pushed) (rb_dropped (sy_ring (ls_queue s))) (ls_client s))"

end
