(* ===== verification/Replay_Stream.thy ===== *)
theory Replay_Stream
  imports Replay
begin

text \<open>
  What the replay feeds in: the stream is the stable merge by time of the orders and the
  executions, so an order comes before its cancellation and its executions; it does not depend on the ground truth;
  and the buffer has room for all of it.
\<close>

section \<open>Sorting by a key\<close>

lemma subseq_insort: "subseq xs (insort_key f x xs)"
  by (induction xs) auto

lemma insort_before:
  "y \<in> set ys \<Longrightarrow> f x \<le> f y \<Longrightarrow> sorted (map f ys) \<Longrightarrow> subseq [x, y] (insort_key f x ys)"
  by (induction ys) (auto simp: subseq_singleton_left)

text \<open>What comes first and is not later stays first.\<close>

lemma sort_key_subseq:
  assumes "subseq [x, y] xs" and "f x \<le> f y"
  shows "subseq [x, y] (sort_key f xs)"
  using assms(1)
proof (induction xs rule: list.induct)
  case (Cons z zs)
  show ?case
  proof (cases "subseq [x, y] zs")
    case True
    then have "subseq [x, y] (sort_key f zs)" by (rule Cons.IH)
    from subseq_order.order_trans [OF this subseq_insort] show ?thesis by simp
  next
    case False
    moreover have "if x = z then subseq [y] zs else subseq [x, y] zs"
      using Cons.prems by (simp only: subseq_Cons2_iff)
    ultimately have "z = x" "subseq [y] zs" by presburger+
    then have "z = x" "y \<in> set zs" by (simp_all add: subseq_singleton_left)
    then show ?thesis using insort_before [of y "sort_key f zs" f x] assms(2) by simp
  qed
qed simp

section \<open>The stable merge\<close>

definition order_event :: "sim_order \<Rightarrow> event" where
  "order_event order = OrderEvent (to_fix_order order)"

definition execution_event :: "simulation_output \<Rightarrow> sim_execution \<Rightarrow> event" where
  "execution_event simulation x =
     ExecutionEvent (to_fix_execution x (the (side_by_order_id (sim_orders simulation) (sx_order_id x))))"

definition merged_events :: "simulation_output \<Rightarrow> event list" where
  "merged_events simulation =
     sort_key timestamp_of (map order_event (sim_orders simulation) @
       map (execution_event simulation) (sim_executions simulation))"

definition known_order :: "simulation_output \<Rightarrow> sim_execution \<Rightarrow> bool" where
  "known_order simulation x \<longleftrightarrow> sx_order_id x \<in> so_order_id ` set (sim_orders simulation)"

lemma side_by_order_id_dom: "dom (side_by_order_id orders) = so_order_id ` set orders"
proof -
  have "dom (fold (\<lambda>order sides. sides(so_order_id order \<mapsto> (if so_side order = SBuy then KBuy else KSell))) orders m) =
      dom m \<union> so_order_id ` set orders" for m :: "string \<rightharpoonup> side"
    by (induction orders arbitrary: m) auto
  then show ?thesis by (simp add: side_by_order_id_def)
qed

lemma known_order_side: "known_order simulation x \<longleftrightarrow> side_by_order_id (sim_orders simulation) (sx_order_id x) \<noteq> None"
  using side_by_order_id_dom [of "sim_orders simulation"] by (auto simp: known_order_def)

definition item_value :: "simulation_output \<Rightarrow> replay_item \<Rightarrow> event" where
  "item_value simulation item =
     (if it_is_execution item then execution_event simulation (sim_executions simulation ! it_index item)
      else order_event (sim_orders simulation ! it_index item))"

definition item_unknown :: "simulation_output \<Rightarrow> replay_item \<Rightarrow> bool" where
  "item_unknown simulation item \<longleftrightarrow>
     it_is_execution item \<and> \<not> known_order simulation (sim_executions simulation ! it_index item)"

lemma item_events_eq:
  "item_events simulation (side_by_order_id (sim_orders simulation)) items =
     (case find (item_unknown simulation) items of
        Some item \<Rightarrow> Inl (sx_order_id (sim_executions simulation ! it_index item))
      | None \<Rightarrow> Inr (map (item_value simulation) items))"
proof (induction items)
  case (Cons item items)
  have "item_event simulation (side_by_order_id (sim_orders simulation)) item =
      (if item_unknown simulation item then Inl (sx_order_id (sim_executions simulation ! it_index item))
       else Inr (item_value simulation item))"
    by (auto simp: item_event_def item_unknown_def item_value_def order_event_def execution_event_def Let_def
        known_order_side split: option.split)
  then show ?case using Cons by (simp split: option.split)
qed simp

lemma item_value_time: "it \<in> set (replay_items simulation) \<Longrightarrow> timestamp_of (item_value simulation it) = it_timestamp_ns it"
  by (auto simp: replay_items_def item_value_def order_event_def execution_event_def to_fix_order_def to_fix_execution_def)

lemma map_item_values:
  "map (item_value simulation) (replay_items simulation) =
     map order_event (sim_orders simulation) @ map (execution_event simulation) (sim_executions simulation)"
proof -
  have "map (\<lambda>i. f (xs ! i)) [0..<length xs] = map f xs" for f :: "'a \<Rightarrow> event" and xs
    by (rule nth_equalityI) simp_all
  from this [of order_event] this [of "execution_event simulation"] show ?thesis
    by (simp add: replay_items_def item_value_def comp_def del: upt_Suc)
qed

lemma sort_key_cong: "(\<And>x. x \<in> set xs \<Longrightarrow> f x = g x) \<Longrightarrow> sort_key f xs = sort_key g xs"
proof (induction xs)
  case (Cons x xs)
  have "insort_key f x ys = insort_key g x ys" if "set ys \<subseteq> set xs" for ys
    using that Cons.prems by (induction ys) auto
  then show ?case using Cons by (simp add: set_sort)
qed simp

lemma merged_items: "merged_events simulation = map (item_value simulation) (sort_key it_timestamp_ns (replay_items simulation))"
proof -
  have "merged_events simulation = map (item_value simulation) (sort_key (timestamp_of \<circ> item_value simulation) (replay_items simulation))"
    by (simp add: merged_events_def map_item_values [symmetric] sort_key_map)
  also have "sort_key (timestamp_of \<circ> item_value simulation) (replay_items simulation) = sort_key it_timestamp_ns (replay_items simulation)"
    by (rule sort_key_cong) (simp add: item_value_time)
  finally show ?thesis .
qed

lemma some_item_unknown:
  "(\<exists>it \<in> set (replay_items simulation). item_unknown simulation it) \<longleftrightarrow>
   \<not> list_all (known_order simulation) (sim_executions simulation)"
proof -
  have "(\<exists>it \<in> set (replay_items simulation). item_unknown simulation it) \<longleftrightarrow>
      (\<exists>i < length (sim_executions simulation). \<not> known_order simulation (sim_executions simulation ! i))"
    by (auto simp: replay_items_def item_unknown_def bex_Un)
  then show ?thesis by (auto simp: list_all_length)
qed

lemma to_ingestion_events_eq:
  "to_ingestion_events simulation =
     (case find (item_unknown simulation) (sort_key it_timestamp_ns (replay_items simulation)) of
        Some item \<Rightarrow> Inl (sx_order_id (sim_executions simulation ! it_index item))
      | None \<Rightarrow> Inr (merged_events simulation))"
  unfolding to_ingestion_events_def item_events_eq merged_items ..

lemma to_ingestion_events_Inr:
  "to_ingestion_events simulation = Inr events \<longleftrightarrow>
     list_all (known_order simulation) (sim_executions simulation) \<and> events = merged_events simulation"
proof -
  have "find (item_unknown simulation) (sort_key it_timestamp_ns (replay_items simulation)) = None \<longleftrightarrow>
      list_all (known_order simulation) (sim_executions simulation)"
    using some_item_unknown [of simulation] by (auto simp: find_None_iff)
  then show ?thesis unfolding to_ingestion_events_eq by (auto split: option.split)
qed

text \<open>The labels, and a simulation with other ones.\<close>

definition relabelled ::
    "(sim_order \<Rightarrow> ground_truth_label) \<Rightarrow> (sim_execution \<Rightarrow> ground_truth_label) \<Rightarrow> simulation_output \<Rightarrow> simulation_output" where
  "relabelled f g simulation = simulation
     \<lparr>sim_orders := map (\<lambda>order. order\<lparr>so_label := f order\<rparr>) (sim_orders simulation),
      sim_executions := map (\<lambda>x. x\<lparr>sx_label := g x\<rparr>) (sim_executions simulation)\<rparr>"

lemma side_by_order_id_relabelled:
  "side_by_order_id (map (\<lambda>order. order\<lparr>so_label := f order\<rparr>) orders) = side_by_order_id orders"
  by (simp add: side_by_order_id_def fold_map comp_def)

lemma replay_items_relabelled: "replay_items (relabelled f g simulation) = replay_items simulation"
  by (simp add: replay_items_def relabelled_def)

lemma item_events_relabelled:
  "set items \<subseteq> set (replay_items simulation) \<Longrightarrow>
   item_events (relabelled f g simulation) sides items = item_events simulation sides items"
proof (induction items)
  case (Cons item items)
  have "if it_is_execution item then it_index item < length (sim_executions simulation)
      else it_index item < length (sim_orders simulation)"
    using Cons.prems by (auto simp: replay_items_def)
  then have "item_event (relabelled f g simulation) sides item = item_event simulation sides item"
    by (simp add: item_event_def relabelled_def to_fix_order_def to_fix_execution_def Let_def split: if_splits option.split)
  then show ?case using Cons by (simp split: sum.split)
qed simp

lemma to_ingestion_events_relabelled: "to_ingestion_events (relabelled f g simulation) = to_ingestion_events simulation"
  unfolding to_ingestion_events_def replay_items_relabelled
  by (subst item_events_relabelled) (simp_all add: relabelled_def side_by_order_id_relabelled)

section \<open>Properties of the stream\<close>

text \<open>
  The replayed stream.  If every execution's order is among the orders, the stream is the
  stable merge of the two by time, orders first where times are equal: nothing is lost or
  added, the times do not decrease.  Otherwise \<open>to_ingestion_events\<close> throws
  \<open>out_of_range\<close> for an execution whose order is unknown.  The ground truth has no influence:
  other labels give the same result.
\<close>

theorem replay_stream_exact:
  "to_ingestion_events (relabelled f g simulation) = to_ingestion_events simulation \<and>
   (case to_ingestion_events simulation of
     Inr events \<Rightarrow> list_all (known_order simulation) (sim_executions simulation) \<and>
       events = merged_events simulation \<and> sorted (map timestamp_of events) \<and>
       mset events = image_mset order_event (mset (sim_orders simulation)) +
         image_mset (execution_event simulation) (mset (sim_executions simulation))
   | Inl oid \<Rightarrow> list_ex (\<lambda>x. sx_order_id x = oid \<and> \<not> known_order simulation x) (sim_executions simulation))"
proof (cases "to_ingestion_events simulation")
  case (Inl oid)
  then obtain item where item: "item \<in> set (replay_items simulation)" "item_unknown simulation item"
    "oid = sx_order_id (sim_executions simulation ! it_index item)"
    by (auto simp: to_ingestion_events_eq split: option.splits dest: find_Some_mem)
  then have "it_index item < length (sim_executions simulation)" "\<not> known_order simulation (sim_executions simulation ! it_index item)"
    by (auto simp: item_unknown_def replay_items_def)
  then show ?thesis using Inl item(3) by (auto simp: list_ex_length to_ingestion_events_relabelled)
next
  case (Inr events)
  then have "list_all (known_order simulation) (sim_executions simulation)" "events = merged_events simulation"
    by (simp_all add: to_ingestion_events_Inr)
  then show ?thesis by (simp add: Inr to_ingestion_events_relabelled) (simp add: merged_events_def)
qed

text \<open>
  C37: causality.  In the stream an order precedes every execution that is not earlier than it, and it precedes
  every later or simultaneous order that comes after it in the simulation, such as its own
  cancellation.
\<close>

theorem replay_stream_causal:
  assumes "to_ingestion_events simulation = Inr events"
  shows "(order \<in> set (sim_orders simulation) \<and> x \<in> set (sim_executions simulation) \<and>
      so_timestamp_ns order \<le> sx_timestamp_ns x \<longrightarrow>
      subseq [order_event order, execution_event simulation x] events) \<and>
    (subseq [order, later] (sim_orders simulation) \<and> so_timestamp_ns order \<le> so_timestamp_ns later \<longrightarrow>
      subseq [order_event order, order_event later] events)"
proof -
  let ?os = "map order_event (sim_orders simulation)"
  let ?xs = "map (execution_event simulation) (sim_executions simulation)"
  have events: "events = sort_key timestamp_of (?os @ ?xs)"
    using assms by (simp add: to_ingestion_events_Inr merged_events_def)
  have "subseq [order_event order, execution_event simulation x] (sort_key timestamp_of (?os @ ?xs))"
    if "order \<in> set (sim_orders simulation)" "x \<in> set (sim_executions simulation)"
      "so_timestamp_ns order \<le> sx_timestamp_ns x"
  proof (rule sort_key_subseq)
    have "subseq [order_event order] ?os" "subseq [execution_event simulation x] ?xs"
      using that by (simp_all add: subseq_singleton_left)
    from list_emb_append_mono [OF this]
    show "subseq [order_event order, execution_event simulation x] (?os @ ?xs)" by simp
  qed (use that in \<open>simp add: order_event_def execution_event_def to_fix_order_def to_fix_execution_def\<close>)
  moreover have "subseq [order_event order, order_event later] (sort_key timestamp_of (?os @ ?xs))"
    if "subseq [order, later] (sim_orders simulation)" "so_timestamp_ns order \<le> so_timestamp_ns later"
  proof (rule sort_key_subseq)
    have "subseq (map order_event [order, later]) ?os" by (rule subseq_map [OF that(1)])
    then show "subseq [order_event order, order_event later] (?os @ ?xs)" using list_emb_prefix by auto
  qed (use that in \<open>simp add: order_event_def to_fix_order_def\<close>)
  ultimately show ?thesis by (simp add: events)
qed

text \<open>A cancellation and a fill at the time of the order itself.\<close>

definition tied_order :: sim_order where
  "tied_order = \<lparr>so_order_id = ''1'', so_account_id = ''A'', so_instrument_id = ''ES'', so_side = SSell, so_price = 100,
     so_qty = 5, so_order_type = SLimit, so_timestamp_ns = 7, so_status = SNew, so_venue = ''X'', so_label = baseline_label\<rparr>"

definition tied_execution :: sim_execution where
  "tied_execution = \<lparr>sx_trade_id = ''T'', sx_order_id = ''1'', sx_account_id = ''A'', sx_instrument_id = ''ES'', sx_price = 100,
     sx_qty = 2, sx_timestamp_ns = 7, sx_counterparty_account_id = ''B'', sx_venue = ''X'', sx_label = baseline_label\<rparr>"

definition tied_simulation :: simulation_output where
  "tied_simulation = \<lparr>sim_instruments = [], sim_accounts = [],
     sim_orders = [tied_order, tied_order\<lparr>so_status := SCancelled\<rparr>], sim_executions = [tied_execution]\<rparr>"

theorem replay_stream_causal_witness:
  "\<exists>events. to_ingestion_events tied_simulation = Inr events \<and>
     subseq [order_event tied_order, execution_event tied_simulation tied_execution] events \<and>
     subseq [order_event tied_order, order_event (tied_order\<lparr>so_status := SCancelled\<rparr>)] events"
proof -
  have run: "to_ingestion_events tied_simulation = Inr (merged_events tied_simulation)"
    by (simp add: to_ingestion_events_Inr known_order_def tied_simulation_def tied_order_def tied_execution_def)
  from replay_stream_causal [OF run, of tied_order tied_execution "tied_order\<lparr>so_status := SCancelled\<rparr>"]
  have "subseq [order_event tied_order, execution_event tied_simulation tied_execution] (merged_events tied_simulation)"
    "subseq [order_event tied_order, order_event (tied_order\<lparr>so_status := SCancelled\<rparr>)] (merged_events tied_simulation)"
    by (simp_all add: tied_simulation_def) (simp_all add: tied_order_def tied_execution_def)
  then show ?thesis using run by blast
qed

section \<open>The buffer's capacity\<close>

lemma unat_power [simp]: "k < 64 \<Longrightarrow> unat ((2 :: u64) ^ k) = 2 ^ k"
  using unat_of_nat_u64 [of "2 ^ k"] power_strict_increasing [of k 64 "2 :: nat"] by simp

lemma grow_capacity_reaches:
  assumes "k \<le> m" and "m < 64" and "unat n \<le> 2 ^ m" and "\<And>j. k \<le> j \<Longrightarrow> j < m \<Longrightarrow> 2 ^ j < unat n"
  shows "grow_capacity n (2 ^ k) = Some (2 ^ m)"
  using assms
proof (induction "m - k" arbitrary: k)
  case 0
  then show ?case by (subst grow_capacity.simps) (simp add: word_less_nat_alt)
next
  case (Suc d)
  have "grow_capacity n (2 ^ Suc k) = Some (2 ^ m)" using Suc by (intro Suc.hyps(1)) simp_all
  moreover have "(2 :: u64) ^ k < n" using Suc by (simp add: word_less_nat_alt)
  ultimately show ?case by (subst grow_capacity.simps) (simp add: mult.commute)
qed

lemma grow_capacity_result:
  assumes "grow_capacity n c = Some r"
  shows "n \<le> r \<and> (\<exists>j. r = c * 2 ^ j)"
  using assms
proof (induction rule: grow_capacity.raw_induct [rotated, consumes 1, case_names turn])
  case (turn grow n c r)
  show ?case
  proof (cases "c < n")
    case True
    then obtain j where "n \<le> r" "r = c * 2 * 2 ^ j" using turn(1) [of n "c * 2" r] turn(2) by auto
    then show ?thesis by (auto intro!: exI [of _ "Suc j"])
  next
    case False
    then show ?thesis using turn(2) by (auto intro!: exI [of _ 0])
  qed
qed

lemma ring_capacity_value:
  "ring_buffer_capacity_for n =
     (if unat n \<le> 2 ^ 63 then Some (2 ^ (LEAST k. 10 \<le> k \<and> unat n \<le> 2 ^ k)) else None)"
proof (cases "unat n \<le> 2 ^ 63")
  case True
  define m where "m = (LEAST k. 10 \<le> k \<and> unat n \<le> 2 ^ k)"
  have m: "10 \<le> m \<and> unat n \<le> 2 ^ m" unfolding m_def by (rule LeastI [of _ 63]) (use True in simp)
  have "m \<le> 63" unfolding m_def by (rule Least_le) (use True in simp)
  moreover have "2 ^ j < unat n" if "10 \<le> j" "j < m" for j
    using not_less_Least [of j "\<lambda>k. 10 \<le> k \<and> unat n \<le> 2 ^ k"] that by (simp add: m_def not_le)
  ultimately have "grow_capacity n (2 ^ 10) = Some (2 ^ m)" using m by (intro grow_capacity_reaches) simp_all
  then show ?thesis using True by (simp add: ring_buffer_capacity_for_def m_def)
next
  case False
  have "unat (1024 * 2 ^ j :: u64) \<le> 2 ^ 63" for j
  proof -
    have p: "(1024 * 2 ^ j :: u64) = 2 ^ (10 + j)" by (simp add: power_add)
    show ?thesis
    proof (cases "10 + j < 64")
      case True
      then have "(2 :: nat) ^ (10 + j) \<le> 2 ^ 63" by (intro power_increasing) simp_all
      then show ?thesis unfolding p unat_power [OF True] .
    next
      case False
      then have "(2 :: u64) ^ (10 + j) = 0" by (subst exp_eq_zero_iff) simp
      then have "unat ((2 :: u64) ^ (10 + j)) = 0" by (simp only: unsigned_0)
      then show ?thesis unfolding p by (simp only: le0)
    qed
  qed
  then have "ring_buffer_capacity_for n \<noteq> Some r" for r
    using grow_capacity_result [of n 1024 r] False
    by (auto simp: ring_buffer_capacity_for_def word_le_nat_alt) (meson order_trans)
  then show ?thesis using False by (cases "ring_buffer_capacity_for n") auto
qed

text \<open>
  C38: the buffer's size.  For up to \<open>2^63\<close> events the loop returns the least power of two that is
  at least their number and at least 1024; above that the capacity wraps to zero and the loop
  does not return.
\<close>

theorem ring_capacity_exact:
  "ring_buffer_capacity_for n =
     (if unat n \<le> 2 ^ 63 then Some (2 ^ (LEAST k. 10 \<le> k \<and> unat n \<le> 2 ^ k)) else None)"
  by (rule ring_capacity_value)

end
