(* ===== verification/Replay_Properties.thy ===== *)
theory Replay_Properties
  imports Replay_Stream
begin

text \<open>
  The replay end to end: through the topic, the buffer and the pipeline, whatever the
  interleaving, a replay that finishes has the result of running the consumer over what it has read,
  the buffer drops nothing, and the answers of the broker decide whether it finishes or throws.
\<close>

section \<open>Publishing and polling\<close>

lemma publish_retrying_topic:
  "publish_retrying answers event topic = Some (Inr (rest, topic')) \<Longrightarrow> topic' = topic @ [encode event]"
  by (induction answers event topic rule: publish_retrying.induct)
    (auto simp: publish_def split: produce_answer.splits if_splits)

lemma publish_events_topic:
  "publish_events answers events topic = Some (Inr topic') \<Longrightarrow> topic' = topic @ map encode events"
  by (induction answers events topic rule: publish_events.induct)
    (auto split: option.splits sum.splits prod.splits dest: publish_retrying_topic)

text \<open>What the broker promises: the messages of the one partition, in order, from the beginning.\<close>

definition messages_of :: "consume_answer list \<Rightarrow> string list" where
  "messages_of answers = List.map_filter (\<lambda>a. case a of Message payload \<Rightarrow> Some payload | _ \<Rightarrow> None) answers"

definition broker_reads :: "string list \<Rightarrow> consume_answer list \<Rightarrow> bool" where
  "broker_reads topic answers \<longleftrightarrow> prefix (messages_of answers) topic"

fun consume_fails :: "consume_answer \<Rightarrow> bool" where
  "consume_fails (Consume_Error msg) = True"
| "consume_fails _ = False"

lemma messages_of_simps [simp]:
  "messages_of [] = []" "messages_of (Message payload # answers) = payload # messages_of answers"
  "messages_of (Timed_Out # answers) = messages_of answers" "messages_of (Partition_Eof # answers) = messages_of answers"
  "messages_of (Consume_Error msg # answers) = messages_of answers"
  by (simp_all add: messages_of_def map_filter_simps)

lemma poll_topic_prefix:
  assumes "poll_topic expected replayed misses answers = Some (pushed, failed)"
    and "prefix (messages_of answers) (map encode events)" and "list_all encodable events"
  shows "prefix pushed events \<and>
    (failed \<noteq> None \<longrightarrow> list_ex consume_fails answers)"
  using assms
proof (induction expected replayed misses answers arbitrary: events pushed rule: poll_topic.induct)
  case (1 expected replayed misses)
  then show ?case by (auto split: if_splits)
next
  case (2 expected replayed misses a answers)
  show ?case
  proof (cases "replayed < expected \<and> misses < 10")
    case False
    then show ?thesis using "2.prems"(1) by auto
  next
    case go: True
    show ?thesis
    proof (cases a)
      case (Message payload)
      then obtain e es where events: "events = e # es" "payload = encode e" "prefix (messages_of answers) (map encode es)"
        using "2.prems"(2) by (cases events) auto
      have decoded: "poll a = Inr (Some e)"
        using event_codec.dec_log [of "[e]"] "2.prems"(3) by (simp add: Message poll_def events)
      obtain pushed' where p: "pushed = e # pushed'" "poll_topic expected (replayed + 1) 0 answers = Some (pushed', failed)"
        using "2.prems"(1) go by (auto simp: decoded)
      have "prefix pushed' es \<and> (failed \<noteq> None \<longrightarrow> list_ex consume_fails answers)"
        using "2.prems"(3) events by (intro "2.IH"(2) [OF go decoded refl p(2)]) simp_all
      then show ?thesis using p events by simp
    next
      case (Consume_Error msg)
      then show ?thesis using "2.prems"(1) go by (auto simp: poll_def)
    next
      case Timed_Out
      then have "poll a = Inr None" by (simp add: poll_def)
      with "2.IH"(1) [OF go this refl] "2.prems" go show ?thesis by (simp add: Timed_Out poll_def)
    next
      case Partition_Eof
      then have "poll a = Inr None" by (simp add: poll_def)
      with "2.IH"(1) [OF go this refl] "2.prems" go show ?thesis by (simp add: Partition_Eof poll_def)
    qed
  qed
qed

lemma poll_topic_bound:
  "poll_topic expected replayed misses answers = Some (pushed, failed) \<Longrightarrow> replayed \<le> expected \<Longrightarrow>
    replayed + length pushed \<le> expected"
  by (induction expected replayed misses answers arbitrary: pushed rule: poll_topic.induct)
    (fastforce split: if_splits sum.splits option.splits)+

text \<open>
  A broker seen from its answers.  It accepts each event after as many full queues as \<open>retries\<close> says; and it
  returns the events in order, each after the polls of \<open>gaps\<close> that return nothing.
\<close>

definition accepted_after :: "nat list \<Rightarrow> produce_answer list" where
  "accepted_after retries = concat (map (\<lambda>n. replicate n Queue_Full @ [Produced]) retries)"

definition messages_after :: "consume_answer list list \<Rightarrow> event list \<Rightarrow> consume_answer list" where
  "messages_after gaps events = concat (map2 (\<lambda>gap e. gap @ [Message (encode e)]) gaps events)"

fun is_miss :: "consume_answer \<Rightarrow> bool" where
  "is_miss Timed_Out = True"
| "is_miss Partition_Eof = True"
| "is_miss _ = False"

lemma publish_retrying_after:
  "publish_retrying (replicate n Queue_Full @ Produced # answers) e topic = Some (Inr (answers, topic @ [encode e]))"
  by (induction n) (simp_all add: publish_def)

lemma publish_events_after:
  "length retries = length events \<Longrightarrow>
    publish_events (accepted_after retries @ answers) events topic = Some (Inr (topic @ map encode events))"
  by (induction retries events arbitrary: topic rule: list_induct2)
    (simp_all add: accepted_after_def publish_retrying_after)

lemma poll_topic_misses:
  "list_all is_miss gap \<Longrightarrow> misses + length gap \<le> 10 \<Longrightarrow> replayed < expected \<Longrightarrow>
    poll_topic expected replayed misses (gap @ answers) = poll_topic expected replayed (misses + length gap) answers"
proof (induction gap arbitrary: misses)
  case (Cons a gap)
  then have "poll a = Inr None" by (cases a) (simp_all add: poll_def)
  then show ?case using Cons by simp
qed simp

lemma poll_topic_gaps:
  assumes "list_all (\<lambda>gap. length gap < 10 \<and> list_all is_miss gap) gaps" and "length gaps \<le> length events"
    and "list_all encodable events" and "replayed + length gaps \<le> expected"
  shows "poll_topic expected replayed 0 (messages_after gaps events @ answers) =
    map_option (apfst (append (take (length gaps) events))) (poll_topic expected (replayed + length gaps) 0 answers)"
  using assms
proof (induction gaps arbitrary: events replayed)
  case Nil
  then show ?case by (simp add: messages_after_def apfst_def map_prod_def option.map_ident)
next
  case (Cons gap gaps)
  then obtain e es where events: "events = e # es" by (cases events) auto
  have "poll (Message (encode e)) = Inr (Some e)"
    using event_codec.dec_log [of "[e]"] Cons.prems(3) by (simp add: poll_def events)
  moreover have "poll_topic expected (replayed + 1) 0 (messages_after gaps es @ answers) =
      map_option (apfst (append (take (length gaps) es))) (poll_topic expected (replayed + 1 + length gaps) 0 answers)"
    using Cons.prems by (intro Cons.IH) (simp_all add: events)
  ultimately show ?case
    using Cons.prems poll_topic_misses [of gap 0 replayed expected "Message (encode e) # messages_after gaps es @ answers"]
    by (simp add: events messages_after_def option.map_comp comp_def apfst_def map_prod_def split_beta)
qed

lemma poll_topic_over:
  assumes "replayed = expected \<or> 10 \<le> misses"
  shows "poll_topic expected replayed misses answers = Some ([], None)"
  using assms by (cases answers) auto

section \<open>The run\<close>

lemma ring_capacity_room:
  assumes "ring_buffer_capacity_for (of_nat n) = Some capacity" and "n \<le> 2 ^ 62"
  shows "n \<le> unat capacity" and "unat capacity < 2 ^ 63" and "\<exists>r. new_ring capacity dflt = Some r"
proof -
  let ?m = "LEAST k. 10 \<le> k \<and> n \<le> 2 ^ k"
  have "unat (of_nat n :: u64) = n" using assms(2) by (intro unat_of_nat_u64) simp
  then have cap: "capacity = 2 ^ ?m" using assms by (simp add: ring_capacity_value)
  have m: "10 \<le> ?m \<and> n \<le> 2 ^ ?m" by (rule LeastI [of _ 62]) (use assms(2) in simp)
  have "?m \<le> 62" by (rule Least_le) (use assms(2) in simp)
  then have u: "unat capacity = 2 ^ ?m" by (simp only: cap unat_power)
  show "n \<le> unat capacity" using m u by simp
  have "(2 :: nat) ^ ?m \<le> 2 ^ 62" using \<open>?m \<le> 62\<close> by (intro power_increasing) simp_all
  then show "unat capacity < 2 ^ 63" using u by simp
  have "(2 :: nat) ^ 10 \<le> 2 ^ ?m" using m by (intro power_increasing) simp_all
  then have "2 \<le> capacity" using u by (simp add: word_le_nat_alt)
  moreover have "capacity AND (capacity - 1) = 0"
    unfolding cap by (simp add: bit_eq_iff bit_and_iff flip: mask_eq_exp_minus_1) (auto simp: bit_simps)
  ultimately show "\<exists>r. new_ring capacity dflt = Some r" by (simp add: new_ring_def not_less)
qed

text \<open>What a finished replay returns.\<close>

definition replay_answer :: "iteration \<Rightarrow> (nat \<Rightarrow> int) \<Rightarrow> simulation_output \<Rightarrow> event list \<Rightarrow> replay_result" where
  "replay_answer iter clock simulation events =
     (let ds = make_five_detectors iter simulation; accounts = registered_accounts simulation;
          c = consumer_run ds accounts clock [] events
      in \<lparr>rr_alerts = (case lc_alert_sink c of None \<Rightarrow> [] | Some alerts \<Rightarrow> alerts),
          rr_events_total = of_nat (length events), rr_events_replayed_from_kafka = of_nat (length events),
          rr_events_processed = of_nat (length events),
          rr_events_skipped_inconsistent = of_nat (length events - length (accepted_from [] events)),
          rr_ring_buffer_dropped = 0\<rparr>)"

lemma start_empty:
  "ring_contents (start r) = []" "ring_drops (start r) = 0" "ring_pushes (start r) = 0"
  by (simp_all add: ring_contents_def ring_drops_def ring_pushes_def start_def)

text \<open>A run of the consumer's thread over a buffer with room for everything.\<close>

lemma joined_run:
  fixes s :: "(event, event system, any_detector live_consumer) loop_system"
  assumes ring: "new_ring capacity dflt = Some r" "unat capacity < 2 ^ 63"
    and room: "length pushed \<le> unat capacity"
    and run: "(loop_step push_alone pop_alone (process_one evaluate_any clock))\<^sup>*\<^sup>* (loop_start pushed (start r) c) s"
    and stopped: "ls_pc s = Stopped"
  shows "ls_client s = fold (process_one evaluate_any clock) pushed c \<and> rb_dropped (sy_ring (ls_queue s)) = 0"
proof -
  note q = start_quiet [OF ring]
  have len: "length pushed \<le> 2 ^ 64 - 1 - unat capacity" using room ring(2) by simp
  note inv = ring_queue.loop_reachable_inv [OF run len q start_empty]
  have drops: "ring_drops (ls_queue s) = 0" by (rule ring_queue.loop_no_drops [OF run len room q start_empty])
  note stop = ring_queue.loop_stopped [OF inv stopped]
  then have "ls_handled s = pushed" using drops by (intro subseq_same_length) simp_all
  moreover have "unat (rb_dropped (sy_ring (ls_queue s))) = 0"
    using inv drops ring_drops_counted by (metis ring_queue.loop_inv_def)
  ultimately show ?thesis using stop by (simp add: unat_eq_zero)
qed

lemma replay_published:
  assumes "replay_publish simulation produced flushed = Some (Inr (events, topic))"
  shows "to_ingestion_events simulation = Inr events" and "topic = map encode events"
  using assms publish_events_topic
  by (fastforce simp: replay_publish_def split: sum.splits option.splits if_splits)+

lemma replay_joined:
  assumes "to_ingestion_events simulation = Inr events" and "length events \<le> 2 ^ 62"
    and "publish_events produced events [] = Some (Inr topic)"
    and "poll_topic (length events) 0 0 consumed = Some (pushed, None)"
  shows "replay_through_kafka iter clock simulation produced True True consumed outcome \<longleftrightarrow>
    outcome = (if length pushed = length events then Finished (replay_answer iter clock simulation pushed)
               else Thrown (Replayed_Only (length pushed) (length events)))"
proof -
  let ?outcome = "if length pushed = length events then Finished (replay_answer iter clock simulation pushed)
               else Thrown (Replayed_Only (length pushed) (length events))"
  have pub: "replay_publish simulation produced True = Some (Inr (events, topic))"
    using assms(1,3) by (simp add: replay_publish_def)
  have short: "length pushed \<le> length events" using poll_topic_bound [OF assms(4)] by simp
  have checks: "replay_checks (length events) (length pushed) (rb_dropped (sy_ring (ls_queue s))) (ls_client s) = ?outcome"
    if r: "new_ring capacity (OrderEvent default_order) = Some r" "ring_buffer_capacity_for (of_nat (length events)) = Some capacity"
      and s: "(loop_step push_alone pop_alone (process_one evaluate_any clock))\<^sup>*\<^sup>*
      (loop_start pushed (start r) (replay_consumer iter simulation)) s" "ls_pc s = Stopped" for capacity r s
  proof -
    note room = ring_capacity_room [OF r(2) assms(2)]
    have "length pushed \<le> unat capacity" using short room(1) by simp
    note run = joined_run [OF r(1) room(2) this s]
    then show ?thesis
      using consumer_run_result [of "make_five_detectors iter simulation" "registered_accounts simulation" clock "[]" pushed]
      by (simp add: replay_checks_def replay_answer_def Let_def consumer_run_def replay_consumer_def)
  qed
  have "unat (of_nat (length events) :: u64) = length events" using assms(2) by (intro unat_of_nat_u64) simp
  then obtain capacity where cap: "ring_buffer_capacity_for (of_nat (length events)) = Some capacity"
    using assms(2) by (simp add: ring_capacity_value)
  note room = ring_capacity_room [OF cap assms(2)]
  obtain r where r: "new_ring capacity (OrderEvent default_order) = Some r" using room(3) [of "OrderEvent default_order"] by blast
  have "ring_pushes (start r) + length pushed \<le> 2 ^ 64 - 1 - unat capacity"
    using room(1,2) short by (simp add: start_empty)
  from ring_queue.loop_can_stop [OF start_quiet [OF r room(2)] this,
      where handle = "process_one evaluate_any clock" and c = "replay_consumer iter simulation"]
  obtain s where s: "(loop_step push_alone pop_alone (process_one evaluate_any clock))\<^sup>*\<^sup>*
      (loop_start pushed (start r) (replay_consumer iter simulation)) s" "ls_pc s = Stopped" by blast
  have "replay_through_kafka iter clock simulation produced True True consumed ?outcome"
    using replay_through_kafka.joined [OF pub cap TrueI assms(4) r s] checks [OF r cap s] by simp
  moreover have "outcome = ?outcome" if "replay_through_kafka iter clock simulation produced True True consumed outcome"
    using that
  proof cases
    case (joined events' topic' capacity' pushed' r' s')
    then have "events' = events" "pushed' = pushed" using pub assms(4) by auto
    then show ?thesis using joined checks [of capacity' r' s'] by simp
  qed (use pub assms(4) in auto)
  ultimately show ?thesis by blast
qed

text \<open>
  The replay over any log.  Whatever the topic holds, the replay counts what it reads and compares nothing: it
  finishes exactly on as many messages as it has published, and reports on the events that they encode.
\<close>

lemma replay_reads_log:
  assumes "replay_through_kafka iter clock simulation produced flushed subscribed consumed outcome"
    and "to_ingestion_events simulation = Inr events"
    and "length events \<le> 2 ^ 62" and "list_all encodable stored"
    and "broker_reads (map encode stored) consumed"
  shows "case outcome of
      Finished result \<Rightarrow> length events \<le> length stored \<and>
        result = replay_answer iter clock simulation (take (length events) stored)
    | Thrown (Ring_Dropped n) \<Rightarrow> False
    | Thrown (Unknown_Order oid) \<Rightarrow> False
    | Thrown (Replayed_Only n m) \<Rightarrow> n < m \<and> m = length events
    | Thrown (Produce_Failed msg) \<Rightarrow> True
    | Thrown Flush_Timed_Out \<Rightarrow> \<not> flushed
    | Thrown Ml_Unreachable \<Rightarrow> False
    | Thrown (Ml_Dropped n) \<Rightarrow> False
    | Terminated \<Rightarrow> \<not> subscribed \<or> list_ex consume_fails consumed"
  using assms(1)
proof cases
  case (publishing_fails e)
  then show ?thesis using assms(2) by (auto simp: replay_publish_def split: option.splits sum.splits if_splits)
next
  case no_consumer
  then show ?thesis by simp
next
  case (polling_fails events' topic capacity pushed e)
  then show ?thesis using poll_topic_prefix [of _ 0 0 consumed pushed "Some e" stored] assms(4,5) by (simp add: broker_reads_def)
next
  case (joined events' topic capacity pushed r s)
  have same: "events' = events" using replay_published(1) [OF joined(2)] assms(2) by simp
  obtain topic' where publ: "publish_events produced events [] = Some (Inr topic')" and flush: "flushed"
    using joined(2) assms(2) by (auto simp: replay_publish_def split: option.splits sum.splits if_splits)
  have poll: "poll_topic (length events) 0 0 consumed = Some (pushed, None)" using joined(5) same by simp
  have pre: "prefix pushed stored"
    using poll_topic_prefix [OF poll, of stored] assms(4,5) by (simp add: broker_reads_def)
  have "outcome = (if length pushed = length events then Finished (replay_answer iter clock simulation pushed)
               else Thrown (Replayed_Only (length pushed) (length events)))"
    using assms(1) joined(4) flush replay_joined [OF assms(2,3) publ poll] by simp
  moreover have "length pushed \<le> length events" using poll_topic_bound [OF poll] by simp
  moreover have "pushed = take (length pushed) stored" and "length pushed \<le> length stored"
    using pre by (auto simp: prefix_def)
  ultimately show ?thesis by (cases "length pushed = length events") simp_all
qed

text \<open>
  C2: the replay.  For at most \<open>2^62\<close> encodable events and a broker that returns the messages of the
  topic in order, whatever it answers otherwise and however the threads interleave: a replay
  that finishes returns the alerts and counts of a consumer run directly over the
  stream; the buffer never drops an event; and if polling ends early, the replay throws with a number of events
  that is too small.
\<close>

theorem replay_result_exact:
  assumes "replay_through_kafka iter clock simulation produced flushed subscribed consumed outcome"
    and "to_ingestion_events simulation = Inr events"
    and "list_all encodable events" and "length events \<le> 2 ^ 62"
    and "broker_reads (map encode events) consumed"
  shows "case outcome of
      Finished result \<Rightarrow> result = replay_answer iter clock simulation events
    | Thrown (Ring_Dropped n) \<Rightarrow> False
    | Thrown (Unknown_Order oid) \<Rightarrow> False
    | Thrown (Replayed_Only n m) \<Rightarrow> n < m \<and> m = length events
    | Thrown (Produce_Failed msg) \<Rightarrow> True
    | Thrown Flush_Timed_Out \<Rightarrow> \<not> flushed
    | Thrown Ml_Unreachable \<Rightarrow> False
    | Thrown (Ml_Dropped n) \<Rightarrow> False
    | Terminated \<Rightarrow> \<not> subscribed \<or> list_ex consume_fails consumed"
  using replay_reads_log [OF assms(1,2,4,3,5)] by (cases outcome) simp_all

lemma replay_can_finish:
  assumes "to_ingestion_events simulation = Inr events" and "length events \<le> 2 ^ 62"
    and "publish_events produced events [] = Some (Inr topic)"
    and "poll_topic (length events) 0 0 consumed = Some (events, None)"
  shows "replay_through_kafka iter clock simulation produced True True consumed
    (Finished (replay_answer iter clock simulation events))"
  using replay_joined [OF assms] by simp

text \<open>
  C29: when the replay finishes.  Take a session of at most \<open>2^62\<close> encodable events and a broker that accepts each of them
  after any number of full queues, flushes in time and accepts the consumer.  Let the polls return the first events
  in order, each after fewer than ten polls in a row that time out or reach the end of the partition.  If
  these are all the events, the replay has a run and every run finishes, with the result of running the
  consumer directly over the stream.  If they are not all and ten polls in a row then return nothing, the
  replay has a run and every run throws, with the number that was read.
\<close>

theorem replay_finishes:
  assumes "to_ingestion_events simulation = Inr events"
    and "list_all encodable events" and "length events \<le> 2 ^ 62"
    and "length retries = length events" and "length gaps \<le> length events"
    and "list_all (\<lambda>gap. length gap < 10 \<and> list_all is_miss gap) gaps"
    and "length silence = 10" and "list_all is_miss silence"
  shows "replay_through_kafka iter clock simulation (accepted_after retries) True True
      (messages_after gaps events @ (if length gaps = length events then [] else silence) @ unread) outcome \<longleftrightarrow>
    outcome = (if length gaps = length events then Finished (replay_answer iter clock simulation events)
               else Thrown (Replayed_Only (length gaps) (length events)))"
proof -
  let ?after = "(if length gaps = length events then [] else silence) @ unread"
  have "publish_events (accepted_after retries) events [] = Some (Inr (map encode events))"
    using publish_events_after [OF assms(4), of "[]" "[]"] by simp
  moreover have "poll_topic (length events) (length gaps) 0 ?after = Some ([], None)"
  proof (cases "length gaps = length events")
    case False
    then show ?thesis
      using poll_topic_misses [OF assms(8), of 0 "length gaps" "length events" unread] assms(5,7)
      by (simp add: poll_topic_over)
  qed (simp add: poll_topic_over)
  then have "poll_topic (length events) 0 0 (messages_after gaps events @ ?after) = Some (take (length gaps) events, None)"
    using poll_topic_gaps [OF assms(6,5,2), of 0 "length events" ?after] assms(5) by simp
  ultimately show ?thesis
    using replay_joined [OF assms(1,3)] assms(5) by (auto simp: min_def)
qed

text \<open>A session of three events at the same time.\<close>

definition tied_events :: "event list" where
  "tied_events = [order_event tied_order, order_event (tied_order\<lparr>so_status := SCancelled\<rparr>),
     execution_event tied_simulation tied_execution]"

lemma normal_100: "normal_double 100"
proof -
  have "is_double (100 :: double)" by (simp add: is_double_def float_eval)
  moreover have "pow2 (- 1022) \<le> pow2 0" "pow2 7 < pow2 1024" by (rule pow2_mono pow2_strict_mono, simp)+
  ultimately show ?thesis by (auto simp: normal_double_def pow2_def)
qed

lemma tied_stream: "to_ingestion_events tied_simulation = Inr tied_events" and tied_encodable: "list_all encodable tied_events"
proof -
  show "to_ingestion_events tied_simulation = Inr tied_events"
    by (simp add: to_ingestion_events_Inr known_order_def merged_events_def tied_events_def tied_simulation_def
        order_event_def execution_event_def to_fix_order_def to_fix_execution_def)
      (simp add: tied_order_def tied_execution_def)
  show "list_all encodable tied_events"
    by (simp add: tied_events_def order_event_def execution_event_def to_fix_order_def to_fix_execution_def)
      (simp add: tied_order_def tied_execution_def in_int64_def normal_100)
qed

theorem replay_finishes_witness:
  "replay_through_kafka (\<lambda>xs. xs) (\<lambda>n. int n) tied_simulation (accepted_after [1, 0, 2]) True True
     (messages_after [replicate 9 Timed_Out, replicate 9 Timed_Out, [Partition_Eof]] tied_events @ [] @ [])
     (Finished (replay_answer (\<lambda>xs. xs) (\<lambda>n. int n) tied_simulation tied_events)) \<and>
   replay_through_kafka (\<lambda>xs. xs) (\<lambda>n. int n) tied_simulation (accepted_after [1, 0, 2]) True True
     (messages_after [[Timed_Out]] tied_events @ replicate 10 Partition_Eof @ []) (Thrown (Replayed_Only 1 3))"
proof -
  have three: "length tied_events = 3" "length [1, 0, 2 :: nat] = length tied_events" "length tied_events \<le> 2 ^ 62"
    by (simp_all add: tied_events_def)
  have "list_all is_miss (replicate n Timed_Out)" "list_all is_miss (replicate n Partition_Eof)" for n
    by (induction n) simp_all
  then show ?thesis
    using replay_finishes [OF tied_stream tied_encodable three(3,2), of "[replicate 9 Timed_Out, replicate 9 Timed_Out, [Partition_Eof]]"
        "replicate 10 Partition_Eof" "\<lambda>xs. xs" "\<lambda>n. int n" "[]"]
      replay_finishes [OF tied_stream tied_encodable three(3,2), of "[[Timed_Out]]" "replicate 10 Partition_Eof" "\<lambda>xs. xs" "\<lambda>n. int n" "[]"]
    by (simp add: three(1))
qed

theorem replay_result_exact_witness:
  "\<exists>outcome. replay_through_kafka (\<lambda>xs. xs) (\<lambda>n. int n) tied_simulation [Produced, Produced, Produced] True True
     (replicate 10 Timed_Out) outcome \<and>
     (case outcome of Thrown (Replayed_Only n m) \<Rightarrow> n < m \<and> m = 3 | _ \<Rightarrow> False)"
proof -
  have "\<exists>topic. publish_events [Produced, Produced, Produced] tied_events [] = Some (Inr topic)"
    by (simp add: tied_events_def publish_def)
  then obtain topic where pub: "replay_publish tied_simulation [Produced, Produced, Produced] True = Some (Inr (tied_events, topic))"
    by (auto simp: replay_publish_def tied_stream)
  have three: "length tied_events = 3" by (simp add: tied_events_def)
  have "(3 :: nat) \<le> 2 ^ 62" by simp
  obtain capacity where cap: "ring_buffer_capacity_for (of_nat (length tied_events)) = Some capacity"
    by (simp add: three ring_capacity_value)
  note room = ring_capacity_room [OF cap [unfolded three] \<open>3 \<le> 2 ^ 62\<close>]
  obtain r where r: "new_ring capacity (OrderEvent default_order) = Some r" using room(3) [of "OrderEvent default_order"] by blast
  have poll: "poll_topic (length tied_events) 0 0 (replicate 10 Timed_Out) = Some ([], None)"
    by (simp add: three poll_def numeral_eq_Suc)
  have "ring_pushes (start r) + length [] \<le> 2 ^ 64 - 1 - unat capacity" by (simp add: start_empty)
  from ring_queue.loop_can_stop [OF start_quiet [OF r room(2)] this,
      where handle = "process_one evaluate_any (\<lambda>n. int n)" and c = "replay_consumer (\<lambda>xs. xs) tied_simulation"]
  obtain s where s: "(loop_step push_alone pop_alone (process_one evaluate_any (\<lambda>n. int n)))\<^sup>*\<^sup>*
      (loop_start [] (start r) (replay_consumer (\<lambda>xs. xs) tied_simulation)) s" "ls_pc s = Stopped" by blast
  note run = replay_through_kafka.joined [OF pub cap TrueI poll r s]
  have "length tied_events \<le> 2 ^ 62" using three by simp
  moreover have "broker_reads (map encode tied_events) (replicate 10 Timed_Out)"
    by (simp add: broker_reads_def numeral_eq_Suc)
  note exact = replay_result_exact [OF run tied_stream tied_encodable calculation this]
  have outcome: "replay_checks (length tied_events) (length []) (rb_dropped (sy_ring (ls_queue s))) (ls_client s) =
      Thrown (Replayed_Only 0 3)"
    by (simp add: three replay_checks_def)
  have "case Thrown (Replayed_Only 0 3) of Thrown (Replayed_Only n m) \<Rightarrow> n < m \<and> m = 3 | _ \<Rightarrow> False"
    using exact unfolding outcome three by (simp only: replay_outcome.case replay_error.case simp_thms)
  then show ?thesis using run unfolding outcome by blast
qed

end
