(* ===== verification/Random_Draws.thy ===== *)
theory Random_Draws
  imports Sim_Types Decimal "HOL-Library.State_Monad"
begin

text \<open>
  \<open>cpp/simulator/random_utils.hpp\<close>, \<open>.cpp\<close> and \<open>id_generator.cpp\<close>: the draws of the simulator and its
  ids.  The standard fixes the range of a distribution but not how it is computed, so the engine
  and the distributions are a parameter, a \<open>random_library\<close>, with the ranges as laws.  The generators
  thread the engine and the two id generators through their calls: they are programs of the
  state monad, and \<open>wp\<close> is their weakest precondition.
\<close>

section \<open>The random engine and the ids\<close>

record 'g random_library =
  rl_int :: "'g \<Rightarrow> int \<Rightarrow> int \<Rightarrow> int \<times> 'g"
  rl_real :: "'g \<Rightarrow> double \<Rightarrow> double \<Rightarrow> double \<times> 'g"
  rl_exponential :: "'g \<Rightarrow> double \<Rightarrow> double \<times> 'g"

definition lawful_draws :: "'g random_library \<Rightarrow> bool" where
  "lawful_draws lib \<longleftrightarrow>
     (\<forall>g lo hi. lo \<le> hi \<longrightarrow> lo \<le> fst (rl_int lib g lo hi) \<and> fst (rl_int lib g lo hi) \<le> hi) \<and>
     (\<forall>g lo hi. lo \<le> hi \<longrightarrow> lo \<le> fst (rl_real lib g lo hi) \<and> fst (rl_real lib g lo hi) \<le> hi) \<and>
     (\<forall>g rate. 0 \<le> fst (rl_exponential lib g rate))"

record id_generator =
  ig_prefix :: string
  ig_counter :: int

definition id_text :: "string \<Rightarrow> int \<Rightarrow> string" where
  "id_text prefix counter = prefix @ ''-'' @ pad_left 6 (show_int counter)"

definition next_id :: "id_generator \<Rightarrow> string \<times> id_generator" where
  "next_id ids = (id_text (ig_prefix ids) (ig_counter ids), ids\<lparr>ig_counter := ig_counter ids + 1\<rparr>)"

record 'g sim_state =
  ss_rng :: 'g
  ss_order_ids :: id_generator
  ss_trade_ids :: id_generator

type_synonym ('g, 'a) generator = "('g sim_state, 'a) state"

section \<open>The draws\<close>

definition draw :: "('g \<Rightarrow> 'a \<times> 'g) \<Rightarrow> ('g, 'a) generator" where
  "draw f = State (\<lambda>s. let (x, g) = f (ss_rng s) in (x, s\<lparr>ss_rng := g\<rparr>))"

definition uniform_double :: "'g random_library \<Rightarrow> double \<Rightarrow> double \<Rightarrow> ('g, double) generator" where
  "uniform_double lib lo hi = draw (\<lambda>g. rl_real lib g lo hi)"

definition uniform_int64 :: "'g random_library \<Rightarrow> int \<Rightarrow> int \<Rightarrow> ('g, int) generator" where
  "uniform_int64 lib lo hi = (if hi \<le> lo then State_Monad.return lo else draw (\<lambda>g. rl_int lib g lo hi))"

definition poisson_interarrival_ns :: "'g random_library \<Rightarrow> double \<Rightarrow> ('g, int) generator" where
  "poisson_interarrival_ns lib rate_per_sec = do {
     gap_sec \<leftarrow> draw (\<lambda>g. rl_exponential lib g rate_per_sec);
     State_Monad.return (llround (fmul gap_sec (10 ^ 9)))
   }"

text \<open>The loop over the brackets, for the \<open>u\<close> drawn; \<open>points\<close> has at least two entries.\<close>

fun percentile_value :: "double \<Rightarrow> (double \<times> int) list \<Rightarrow> int" where
  "percentile_value u ((lo_p, lo_v) # (hi_p, hi_v) # points) =
     (if u \<le> hi_p
      then let bracket_width = fsub hi_p lo_p;
               t = (if 0 < bracket_width then fdiv (fsub u lo_p) bracket_width else 0)
           in llround (fadd (to_double lo_v) (fmul t (to_double (hi_v - lo_v))))
      else percentile_value u ((hi_p, hi_v) # points))"
| "percentile_value u [(lo_p, lo_v)] = lo_v"
| "percentile_value u [] = 0"

definition sample_from_percentiles :: "'g random_library \<Rightarrow> (double \<times> int) list \<Rightarrow> ('g, int) generator" where
  "sample_from_percentiles lib points = do {
     u \<leftarrow> uniform_double lib 0 1;
     State_Monad.return (percentile_value u points)
   }"

definition lerp :: "double \<Rightarrow> double \<Rightarrow> double \<Rightarrow> double" where
  "lerp lo hi t = fadd lo (fmul (fsub hi lo) t)"

text \<open>The index is a \<open>size_t\<close>; the callers' vectors are not empty.\<close>

definition pick_random :: "'g random_library \<Rightarrow> 'a list \<Rightarrow> ('g, 'a) generator" where
  "pick_random lib choices = do {
     i \<leftarrow> draw (\<lambda>g. rl_int lib g 0 (int (length choices) - 1));
     State_Monad.return (choices ! nat i)
   }"

definition next_order_id :: "('g, string) generator" where
  "next_order_id = State (\<lambda>s. let (i, ids) = next_id (ss_order_ids s) in (i, s\<lparr>ss_order_ids := ids\<rparr>))"

definition next_trade_id :: "('g, string) generator" where
  "next_trade_id = State (\<lambda>s. let (i, ids) = next_id (ss_trade_ids s) in (i, s\<lparr>ss_trade_ids := ids\<rparr>))"

section \<open>Weakest preconditions\<close>

named_theorems wp_rules

definition wp :: "('s, 'a) state \<Rightarrow> ('a \<Rightarrow> 's \<Rightarrow> bool) \<Rightarrow> 's \<Rightarrow> bool" where
  "wp m Q s \<longleftrightarrow> Q (fst (run_state m s)) (snd (run_state m s))"

lemma wp_return [wp_rules]: "Q x s \<Longrightarrow> wp (State_Monad.return x) Q s"
  by (simp add: wp_def)

lemma wp_bind_eq: "wp (State_Monad.bind m f) Q s = wp m (\<lambda>x. wp (f x) Q) s"
  by (simp add: wp_def split_beta)

lemma wp_bind [wp_rules]: "wp m (\<lambda>x. wp (f x) Q) s \<Longrightarrow> wp (State_Monad.bind m f) Q s"
  by (simp add: wp_bind_eq)

lemma wp_mono: "wp m Q s \<Longrightarrow> (\<And>x s'. Q x s' \<Longrightarrow> R x s') \<Longrightarrow> wp m R s"
  by (simp add: wp_def)

lemma wp_draw: "(\<And>g. Q (fst (f (ss_rng s))) (s\<lparr>ss_rng := g\<rparr>)) \<Longrightarrow> wp (draw f) Q s"
  by (simp add: wp_def draw_def split_beta Let_def)

lemma wp_uniform_int64 [wp_rules]:
  assumes "lawful_draws lib" and "\<And>x g. lo \<le> x \<Longrightarrow> x \<le> max lo hi \<Longrightarrow> Q x (s\<lparr>ss_rng := g\<rparr>)"
  shows "wp (uniform_int64 lib lo hi) Q s"
proof (cases "hi \<le> lo")
  case True
  then show ?thesis using assms(2) [of lo "ss_rng s"] by (simp add: uniform_int64_def wp_def)
next
  case False
  then show ?thesis using assms by (auto simp: uniform_int64_def lawful_draws_def intro!: wp_draw)
qed

lemma wp_uniform_double [wp_rules]:
  assumes "lawful_draws lib" and "\<And>x g. (lo \<le> hi \<Longrightarrow> lo \<le> x \<and> x \<le> hi) \<Longrightarrow> Q x (s\<lparr>ss_rng := g\<rparr>)"
  shows "wp (uniform_double lib lo hi) Q s"
  unfolding uniform_double_def using assms by (auto simp: lawful_draws_def intro!: wp_draw)

lemma wp_poisson [wp_rules]:
  assumes "lawful_draws lib" and "\<And>gap g. 0 \<le> gap \<Longrightarrow> Q gap (s\<lparr>ss_rng := g\<rparr>)"
  shows "wp (poisson_interarrival_ns lib rate) Q s"
proof -
  have "0 \<le> llround (fmul x (10 ^ 9))" if "0 \<le> x" for x
    using fmul_nonneg [OF that, of "10 ^ 9"] by (simp add: llround_def)
  then show ?thesis
    unfolding poisson_interarrival_ns_def using assms
    by (auto simp: lawful_draws_def intro!: wp_bind wp_draw wp_return)
qed

lemma wp_next_order_id [wp_rules]:
  assumes "Q (id_text (ig_prefix (ss_order_ids s)) (ig_counter (ss_order_ids s)))
    (s\<lparr>ss_order_ids := (ss_order_ids s)\<lparr>ig_counter := ig_counter (ss_order_ids s) + 1\<rparr>\<rparr>)"
  shows "wp next_order_id Q s"
  using assms by (simp add: wp_def next_order_id_def next_id_def)

lemma wp_next_trade_id [wp_rules]: "(\<And>i ids. Q i (s\<lparr>ss_trade_ids := ids\<rparr>)) \<Longrightarrow> wp next_trade_id Q s"
  by (simp add: wp_def next_trade_id_def split_beta Let_def)

lemma wp_pick_random [wp_rules]:
  assumes "lawful_draws lib" and "choices \<noteq> []" and "\<And>x g. x \<in> set choices \<Longrightarrow> Q x (s\<lparr>ss_rng := g\<rparr>)"
  shows "wp (pick_random lib choices) Q s"
proof -
  have "0 \<le> int (length choices) - 1" using assms(2) by (cases choices) simp_all
  then have "nat (fst (rl_int lib g 0 (int (length choices) - 1))) < length choices" for g
    using assms(1) unfolding lawful_draws_def by (metis int_nat_eq nat_less_iff zle_diff1_eq)
  then show ?thesis unfolding pick_random_def by (intro wp_bind wp_draw wp_return) (simp add: assms(3))
qed

section \<open>The range of a percentile table\<close>

lemma llround_ge: "0 \<le> m \<Longrightarrow> of_int m \<le> x \<Longrightarrow> m \<le> llround x"
  by (auto simp: llround_def le_floor_iff)

lemma percentile_value_ge:
  assumes "sorted (map snd ((p, v) # points))" and "p \<le> u" and "0 \<le> m" and "m \<le> v" and "m \<le> 2 ^ 53"
  shows "m \<le> percentile_value u ((p, v) # points)"
  using assms
proof (induction points arbitrary: p v)
  case (Cons point points)
  obtain q w where point: "point = (q, w)" by fastforce
  show ?case
  proof (cases "u \<le> q")
    case True
    let ?t = "if 0 < fsub q p then fdiv (fsub u p) (fsub q p) else 0"
    have "0 \<le> fsub u p" using Cons.prems(2) by (simp add: fsub_def rnd64_nonneg)
    then have "0 \<le> ?t" by (simp add: fdiv_nonneg)
    moreover have "0 \<le> to_double (w - v)" using Cons.prems(1) point by (simp add: to_double_nonneg)
    ultimately have "fadd (to_double m) 0 \<le> fadd (to_double v) (fmul ?t (to_double (w - v)))"
      by (intro fadd_mono fmul_nonneg to_double_mono Cons.prems(4))
    moreover have "fadd (to_double m) 0 = of_int m"
      using to_double_exact [of m] Cons.prems(3,5) rnd64_of_int [of m] by (simp add: fadd_def)
    ultimately have "m \<le> llround (fadd (to_double v) (fmul ?t (to_double (w - v))))"
      by (intro llround_ge Cons.prems(3)) simp
    then show ?thesis using True by (simp add: point Let_def)
  next
    case False
    then show ?thesis using Cons by (simp add: point)
  qed
qed simp

lemma wp_percentiles:
  assumes "lawful_draws lib" and "sorted (map snd points)" and "points = (0, m) # points'" and "0 \<le> m" and "m \<le> 2 ^ 53"
    and "\<And>x g. m \<le> x \<Longrightarrow> Q x (s\<lparr>ss_rng := g\<rparr>)"
  shows "wp (sample_from_percentiles lib points) Q s"
  unfolding sample_from_percentiles_def
proof (intro wp_bind wp_uniform_double wp_return assms(1))
  fix u :: double and g
  assume "0 \<le> (1 :: double) \<Longrightarrow> 0 \<le> u \<and> u \<le> 1"
  then have "m \<le> percentile_value u points"
    using assms(2,4,5) unfolding assms(3) by (intro percentile_value_ge) simp_all
  then show "Q (percentile_value u points) (s\<lparr>ss_rng := g\<rparr>)" by (rule assms(6))
qed

section \<open>Ids are distinct\<close>

lemma id_text_inj [simp]: "0 \<le> j \<Longrightarrow> 0 \<le> k \<Longrightarrow> id_text p j = id_text p k \<longleftrightarrow> j = k"
proof -
  assume nonneg: "0 \<le> j" "0 \<le> k"
  have "nat_of_digits (pad_left 6 (show_nat n)) = n" for n
    by (simp add: nat_of_digits_append)
  moreover have "show_int i = show_nat (nat i)" if "0 \<le> i" for i using that by (simp add: show_int_def)
  ultimately show ?thesis using nonneg by (auto simp: id_text_def simp del: pad_left.simps) (metis nat_eq_iff2)
qed

section \<open>Interpolation\<close>

lemma lerp_ge:
  assumes "0 \<le> t" and "t \<le> 1"
  shows "fadd lo (min 0 (fsub hi lo)) \<le> lerp lo hi t"
proof -
  have "min 0 (fsub hi lo) \<le> fmul (fsub hi lo) t"
  proof (cases "0 \<le> fsub hi lo")
    case True
    then show ?thesis using fmul_nonneg assms(1) by simp
  next
    case False
    then have "fsub hi lo * 1 \<le> fsub hi lo * t" using assms(2) by (intro mult_left_mono_neg) simp_all
    then have "rnd64 (fsub hi lo) \<le> fmul (fsub hi lo) t" by (simp add: fmul_def rnd64_mono)
    then show ?thesis by (simp add: fsub_def)
  qed
  then show ?thesis by (simp add: lerp_def fadd_mono)
qed

lemma lerp_antimono:
  assumes "fsub hi lo \<le> 0" and "t \<le> t'"
  shows "lerp lo hi t' \<le> lerp lo hi t"
proof -
  have "fsub hi lo * t' \<le> fsub hi lo * t" using assms by (intro mult_left_mono_neg)
  then show ?thesis by (simp add: lerp_def fmul_def fadd_mono rnd64_mono)
qed

end
