(* ===== verification/Tidy_Output.thy ===== *)
theory Tidy_Output
  imports Random_Draws "HOL-Library.Multiset"
begin

text \<open>
  The contract of the simulator's generators.  An output is tidy for a range of order ids if its
  new orders have different ids from the range, every execution is of one of its new orders, on
  the same instrument, later than it, for no rest than its quantity and the only one of it, and
  every cancellation is of one of its new orders that is not executed.
\<close>

record scenario_output =
  sc_orders :: "sim_order list"
  sc_executions :: "sim_execution list"

definition empty_scenario :: scenario_output where
  "empty_scenario = \<lparr>sc_orders = [], sc_executions = []\<rparr>"

definition add_order :: "sim_order \<Rightarrow> scenario_output \<Rightarrow> scenario_output" where
  "add_order order out = out\<lparr>sc_orders := sc_orders out @ [order]\<rparr>"

definition add_execution :: "sim_execution \<Rightarrow> scenario_output \<Rightarrow> scenario_output" where
  "add_execution x out = out\<lparr>sc_executions := sc_executions out @ [x]\<rparr>"

definition append_output :: "scenario_output \<Rightarrow> scenario_output \<Rightarrow> scenario_output" where
  "append_output out rest =
     \<lparr>sc_orders = sc_orders out @ sc_orders rest, sc_executions = sc_executions out @ sc_executions rest\<rparr>"

lemma scenario_simps [simp]:
  "sc_orders empty_scenario = []" "sc_executions empty_scenario = []"
  "sc_orders (add_order order out) = sc_orders out @ [order]" "sc_executions (add_order order out) = sc_executions out"
  "sc_orders (add_execution x out) = sc_orders out" "sc_executions (add_execution x out) = sc_executions out @ [x]"
  "sc_orders (append_output out rest) = sc_orders out @ sc_orders rest"
  "sc_executions (append_output out rest) = sc_executions out @ sc_executions rest"
  by (simp_all add: empty_scenario_def add_order_def add_execution_def append_output_def)

definition new_ids :: "sim_order list \<Rightarrow> string list" where
  "new_ids orders = map so_order_id (filter (\<lambda>order. so_status order = SNew) orders)"

definition in_range :: "string \<Rightarrow> int \<Rightarrow> int \<Rightarrow> string \<Rightarrow> bool" where
  "in_range p a b i \<longleftrightarrow> (\<exists>k. a \<le> k \<and> k < b \<and> i = id_text p k)"

definition fills :: "sim_order list \<Rightarrow> sim_execution \<Rightarrow> bool" where
  "fills orders x \<longleftrightarrow> (\<exists>order \<in> set orders. so_status order = SNew \<and> so_order_id order = sx_order_id x \<and>
     so_instrument_id order = sx_instrument_id x \<and> so_timestamp_ns order < sx_timestamp_ns x \<and>
     sx_qty x \<le> so_qty order)"

definition tidy :: "string \<Rightarrow> int \<Rightarrow> int \<Rightarrow> sim_order list \<Rightarrow> sim_execution list \<Rightarrow> bool" where
  "tidy p a b orders xs \<longleftrightarrow>
     distinct (new_ids orders) \<and> (\<forall>i \<in> set (new_ids orders). in_range p a b i) \<and>
     (\<forall>order \<in> set orders. so_status order \<noteq> SReplaced) \<and>
     (\<forall>order \<in> set orders. so_status order = SCancelled \<longrightarrow>
        so_order_id order \<in> set (new_ids orders) - sx_order_id ` set xs) \<and>
     distinct (map sx_order_id xs) \<and> (\<forall>x \<in> set xs. fills orders x)"

lemma new_ids_append [simp]: "new_ids (xs @ ys) = new_ids xs @ new_ids ys"
  by (simp add: new_ids_def)

lemma new_ids_simps [simp]:
  "new_ids [] = []"
  "new_ids (order # orders) = (if so_status order = SNew then so_order_id order # new_ids orders else new_ids orders)"
  by (simp_all add: new_ids_def)

lemma in_range_mono:
  assumes "in_range p a b i" and "a' \<le> a" and "b \<le> b'"
  shows "in_range p a' b' i"
proof -
  obtain k where "a \<le> k" "k < b" "i = id_text p k" using assms(1) by (auto simp: in_range_def)
  then show ?thesis using assms(2,3) unfolding in_range_def by (intro exI [of _ k]) simp
qed

lemma in_range_id [simp]: "0 \<le> a \<Longrightarrow> 0 \<le> k \<Longrightarrow> in_range p a b (id_text p k) \<longleftrightarrow> a \<le> k \<and> k < b"
  by (auto simp: in_range_def)

lemma in_range_disjoint: "in_range p a b i \<Longrightarrow> in_range p b c i \<Longrightarrow> 0 \<le> a \<Longrightarrow> a \<le> b \<Longrightarrow> False"
  by (auto simp: in_range_def)

lemma fills_new_id: "fills orders x \<Longrightarrow> sx_order_id x \<in> set (new_ids orders)"
  by (auto simp: fills_def new_ids_def) (metis (mono_tags, lifting) imageI mem_Collect_eq)

lemma fills_append: "fills orders x \<or> fills rest x \<Longrightarrow> fills (orders @ rest) x"
  by (auto simp: fills_def)

lemma tidyD:
  assumes "tidy p a b orders xs"
  shows "distinct (new_ids orders)" and "\<And>i. i \<in> set (new_ids orders) \<Longrightarrow> in_range p a b i"
    and "\<And>order. order \<in> set orders \<Longrightarrow> so_status order \<noteq> SReplaced"
    and "\<And>order. order \<in> set orders \<Longrightarrow> so_status order = SCancelled \<Longrightarrow> so_order_id order \<in> set (new_ids orders)"
    and "\<And>order. order \<in> set orders \<Longrightarrow> so_status order = SCancelled \<Longrightarrow> so_order_id order \<notin> sx_order_id ` set xs"
    and "distinct (map sx_order_id xs)" and "\<And>x. x \<in> set xs \<Longrightarrow> fills orders x"
  using assms by (auto simp: tidy_def)

lemma tidy_nil [simp]: "tidy p a b [] []"
  by (simp add: tidy_def)

lemma tidy_append:
  assumes one: "tidy p a b os xs" and two: "tidy p b c os' xs'" and range: "0 \<le> a" "a \<le> b" "b \<le> c"
  shows "tidy p a c (os @ os') (xs @ xs')"
proof -
  have x1: "sx_order_id ` set xs \<subseteq> set (new_ids os)" and x2: "sx_order_id ` set xs' \<subseteq> set (new_ids os')"
    using tidyD(7) [OF one] tidyD(7) [OF two] fills_new_id by blast+
  have apart: "set (new_ids os) \<inter> set (new_ids os') = {}"
    using tidyD(2) [OF one] tidyD(2) [OF two] in_range_disjoint range by blast
  have "in_range p a c i" if "i \<in> set (new_ids os) \<union> set (new_ids os')" for i
    using that tidyD(2) [OF one] tidyD(2) [OF two] in_range_mono range by (metis UnE order_refl)
  moreover have "so_order_id order \<in> set (new_ids os) \<union> set (new_ids os') - sx_order_id ` (set xs \<union> set xs')"
    if "order \<in> set os \<union> set os'" "so_status order = SCancelled" for order
    using that tidyD(4,5) [OF one] tidyD(4,5) [OF two] x1 x2 apart by blast
  moreover have "distinct (map sx_order_id (xs @ xs'))"
    using tidyD(6) [OF one] tidyD(6) [OF two] x1 x2 apart by auto
  moreover have "\<forall>x \<in> set (xs @ xs'). fills (os @ os') x"
    using tidyD(7) [OF one] tidyD(7) [OF two] fills_append by auto
  moreover have "\<forall>order \<in> set (os @ os'). so_status order \<noteq> SReplaced"
    using tidyD(3) [OF one] tidyD(3) [OF two] by auto
  ultimately show ?thesis
    using tidyD(1) [OF one] tidyD(1) [OF two] apart unfolding tidy_def by simp
qed

text \<open>Sorting changes none of it.\<close>

lemma fills_cong: "set orders = set orders' \<Longrightarrow> fills orders x = fills orders' x"
  by (simp add: fills_def)

lemma tidy_perm:
  assumes "tidy p a b orders xs" and "mset orders' = mset orders" and "mset xs' = mset xs"
  shows "tidy p a b orders' xs'"
proof -
  have sets: "set orders' = set orders" "set xs' = set xs" using assms(2,3) mset_eq_setD by blast+
  have "mset (new_ids orders') = mset (new_ids orders)" "mset (map sx_order_id xs') = mset (map sx_order_id xs)"
    using assms(2,3) by (simp_all add: new_ids_def mset_filter)
  then have "set (new_ids orders') = set (new_ids orders)" "distinct (new_ids orders') = distinct (new_ids orders)"
    "distinct (map sx_order_id xs') = distinct (map sx_order_id xs)"
    using mset_eq_setD mset_eq_imp_distinct_iff by blast+
  then show ?thesis using assms(1) fills_cong [OF sets(1)] by (simp add: tidy_def sets)
qed

text \<open>A generator that advances the order ids and returns a tidy output for those it has used.\<close>

definition order_counter :: "'g sim_state \<Rightarrow> int" where
  "order_counter s = ig_counter (ss_order_ids s)"

definition same_prefix :: "string \<Rightarrow> 'g sim_state \<Rightarrow> bool" where
  "same_prefix p s \<longleftrightarrow> ig_prefix (ss_order_ids s) = p \<and> 0 \<le> order_counter s"

definition tidy_step :: "string \<Rightarrow> 'g sim_state \<Rightarrow> scenario_output \<Rightarrow> 'g sim_state \<Rightarrow> bool" where
  "tidy_step p s out s' \<longleftrightarrow> same_prefix p s' \<and> order_counter s \<le> order_counter s' \<and>
     tidy p (order_counter s) (order_counter s') (sc_orders out) (sc_executions out)"

lemma tidy_step_append:
  assumes "same_prefix p s" and "tidy_step p s out s'" and "tidy_step p s' rest s''"
  shows "tidy_step p s (append_output out rest) s''"
  using assms tidy_append [of p "order_counter s" "order_counter s'" "sc_orders out" "sc_executions out"
      "order_counter s''" "sc_orders rest" "sc_executions rest"]
  by (auto simp: tidy_step_def same_prefix_def)

lemma tidy_step_empty [simp]: "same_prefix p s \<Longrightarrow> tidy_step p s empty_scenario s"
  by (simp add: tidy_step_def)

section \<open>Contracts of generators\<close>

text \<open>
  A contract relates the state before a generator, its output and the state after.  The laws are
  what the loops that run generators and append their outputs need.
\<close>

locale output_contract =
  fixes start :: "'g sim_state \<Rightarrow> bool"
    and met :: "'g sim_state \<Rightarrow> scenario_output \<Rightarrow> 'g sim_state \<Rightarrow> bool"
  assumes met_start: "met s out s' \<Longrightarrow> start s'"
    and met_empty: "start s \<Longrightarrow> met s empty_scenario s"
    and met_append: "start s0 \<Longrightarrow> met s0 out s \<Longrightarrow> met s rest s' \<Longrightarrow> met s0 (append_output out rest) s'"
    and start_draw: "start (s\<lparr>ss_rng := g\<rparr>) = start s"
    and met_draw: "met (s\<lparr>ss_rng := g\<rparr>) = met s" "met s out (s'\<lparr>ss_rng := g\<rparr>) = met s out s'"
begin

lemma then_draw: "start s \<Longrightarrow> (\<And>s. start s \<Longrightarrow> wp m (met s) s) \<Longrightarrow> wp m (met s) (s\<lparr>ss_rng := g\<rparr>)"
  using met_draw(1) start_draw by metis

text \<open>A generator run after others.\<close>

lemma met_next: "start s0 \<Longrightarrow> met s0 out s \<Longrightarrow> wp m (met s) s \<Longrightarrow> wp m (\<lambda>rest. met s0 (append_output out rest)) s"
  by (erule wp_mono) (rule met_append)

end

interpretation tidy_output: output_contract "same_prefix p" "tidy_step p" for p
proof
  fix s0 s s' :: "'g sim_state" and out rest
  show "tidy_step p s out s' \<Longrightarrow> same_prefix p s'" by (simp add: tidy_step_def)
  show "same_prefix p s0 \<Longrightarrow> tidy_step p s0 out s \<Longrightarrow> tidy_step p s rest s' \<Longrightarrow>
    tidy_step p s0 (append_output out rest) s'" by (rule tidy_step_append)
qed (simp_all add: tidy_step_def same_prefix_def order_counter_def fun_eq_iff)

text \<open>
  What an output refers to: accounts and instruments of the session, with positive quantities.  The market's
  synthetic account is not registered.
\<close>

definition synthetic_counterparty :: string where
  "synthetic_counterparty = ''MKT-COUNTERPARTY''"

definition valid_order :: "string set \<Rightarrow> string set \<Rightarrow> string \<Rightarrow> sim_order \<Rightarrow> bool" where
  "valid_order A I venue order \<longleftrightarrow> so_account_id order \<in> insert synthetic_counterparty A \<and>
     so_instrument_id order \<in> I \<and> 1 \<le> so_qty order \<and> so_venue order = venue"

definition valid_execution :: "string set \<Rightarrow> string set \<Rightarrow> string \<Rightarrow> sim_execution \<Rightarrow> bool" where
  "valid_execution A I venue x \<longleftrightarrow> sx_account_id x \<in> A \<and> sx_counterparty_account_id x \<in> insert synthetic_counterparty A \<and>
     sx_instrument_id x \<in> I \<and> 1 \<le> sx_qty x \<and> sx_venue x = venue"

definition valid_output :: "string set \<Rightarrow> string set \<Rightarrow> string \<Rightarrow> scenario_output \<Rightarrow> bool" where
  "valid_output A I venue out \<longleftrightarrow>
     list_all (valid_order A I venue) (sc_orders out) \<and> list_all (valid_execution A I venue) (sc_executions out)"

lemma valid_output_lists: "valid_output A I venue \<lparr>sc_orders = orders, sc_executions = xs\<rparr> \<longleftrightarrow>
    list_all (valid_order A I venue) orders \<and> list_all (valid_execution A I venue) xs"
  by (simp add: valid_output_def)

interpretation valid_output: output_contract "\<lambda>s. True" "\<lambda>s out s'. valid_output A I venue out" for A I venue
  by unfold_locales (simp_all add: valid_output_def)

end
