(* ===== verification/Pair_Scenarios.thy ===== *)
theory Pair_Scenarios
  imports Tidy_Output
begin

text \<open>
  \<open>cpp/simulator/abuse/wash_trade.cpp\<close> and \<open>front_running.cpp\<close>: the scenarios of two linked
  accounts.  \<open>std::round\<close> and \<open>std::llround\<close> are \<open>llround\<close>; a cast to \<open>int64_t\<close> truncates toward
  zero.
\<close>

definition truncate64 :: "double \<Rightarrow> int" where
  "truncate64 x = (if 0 \<le> x then \<lfloor>x\<rfloor> else \<lceil>x\<rceil>)"

definition round_to_tick_of :: "instrument \<Rightarrow> double \<Rightarrow> double" where
  "round_to_tick_of i base_price = fmul (of_int (llround (fdiv base_price (i_tick_size i)))) (i_tick_size i)"

definition plain_sim_order ::
    "string \<Rightarrow> string \<Rightarrow> string \<Rightarrow> sim_side \<Rightarrow> double \<Rightarrow> int \<Rightarrow> int \<Rightarrow> string \<Rightarrow> ground_truth_label \<Rightarrow> sim_order" where
  "plain_sim_order oid account i side price qty ts venue label =
     \<lparr>so_order_id = oid, so_account_id = account, so_instrument_id = i, so_side = side, so_price = price,
      so_qty = qty, so_order_type = SLimit, so_timestamp_ns = ts, so_status = SNew, so_venue = venue, so_label = label\<rparr>"

definition fill_of ::
    "string \<Rightarrow> sim_order \<Rightarrow> double \<Rightarrow> int \<Rightarrow> int \<Rightarrow> string \<Rightarrow> sim_execution" where
  "fill_of tid order price qty ts counterparty =
     \<lparr>sx_trade_id = tid, sx_order_id = so_order_id order, sx_account_id = so_account_id order,
      sx_instrument_id = so_instrument_id order, sx_price = price, sx_qty = qty, sx_timestamp_ns = ts,
      sx_counterparty_account_id = counterparty, sx_venue = so_venue order, sx_label = so_label order\<rparr>"

lemma order_fields [simp]:
  "so_order_id (plain_sim_order oid account i side price qty ts venue label) = oid"
  "so_instrument_id (plain_sim_order oid account i side price qty ts venue label) = i"
  "so_timestamp_ns (plain_sim_order oid account i side price qty ts venue label) = ts"
  "so_qty (plain_sim_order oid account i side price qty ts venue label) = qty"
  "so_status (plain_sim_order oid account i side price qty ts venue label) = SNew"
  "sx_order_id (fill_of tid order price' qty' ts' counterparty) = so_order_id order"
  "sx_instrument_id (fill_of tid order price' qty' ts' counterparty) = so_instrument_id order"
  "sx_timestamp_ns (fill_of tid order price' qty' ts' counterparty) = ts'"
  "sx_qty (fill_of tid order price' qty' ts' counterparty) = qty'"
  by (simp_all add: plain_sim_order_def fill_of_def)

definition generate_wash_trade_scenario ::
    "'g random_library \<Rightarrow> string \<Rightarrow> instrument \<Rightarrow> sim_account \<Rightarrow> sim_account \<Rightarrow> double \<Rightarrow> int \<Rightarrow> double \<Rightarrow> string
     \<Rightarrow> ('g, scenario_output) generator" where
  "generate_wash_trade_scenario lib scenario_id i account_a account_b base_price anchor_time_ns severity venue = do {
     let label = \<lparr>gt_pattern = Wash_Trade_Pattern, gt_scenario_id = scenario_id, gt_severity = severity\<rparr>;
     coin \<leftarrow> uniform_double lib 0 1;
     let a_buys = (coin < 1 / 2);
     let side_a = (if a_buys then SBuy else SSell);
     let side_b = (if a_buys then SSell else SBuy);
     lots \<leftarrow> uniform_int64 lib 2 20;
     let qty_a = lots * 100;
     let qty_noise_frac = lerp (rnd64 (2 / 10)) 0 severity;
     let price_noise_ticks = lerp 3 0 severity;
     gap_jitter \<leftarrow> uniform_int64 lib 0 500000000;
     let leg_gap_ns = truncate64 (lerp 30000000000 200000000 severity) + gap_jitter;
     qty_noise \<leftarrow> uniform_double lib (- qty_noise_frac) qty_noise_frac;
     let qty_b = max 1 (llround (fmul (to_double qty_a) (fadd 1 qty_noise)));
     let price_a = round_to_tick_of i base_price;
     price_noise \<leftarrow> uniform_double lib (- price_noise_ticks) price_noise_ticks;
     let price_b = fadd price_a (fmul price_noise (i_tick_size i));
     id_a \<leftarrow> next_order_id;
     let order_a = plain_sim_order id_a (a_account_id account_a) (i_instrument_id i) side_a price_a qty_a
       anchor_time_ns venue label;
     id_b \<leftarrow> next_order_id;
     let order_b = plain_sim_order id_b (a_account_id account_b) (i_instrument_id i) side_b price_b qty_b
       (anchor_time_ns + leg_gap_ns) venue label;
     trade_delay \<leftarrow> uniform_int64 lib 10000000 200000000;
     let trade_time_ns = so_timestamp_ns order_b + trade_delay;
     let filled_qty = min qty_a qty_b;
     trade_a \<leftarrow> next_trade_id;
     trade_b \<leftarrow> next_trade_id;
     State_Monad.return
       \<lparr>sc_orders = [order_a, order_b],
        sc_executions =
          [fill_of trade_a order_a price_a filled_qty trade_time_ns (a_account_id account_b),
           fill_of trade_b order_b price_a filled_qty trade_time_ns (a_account_id account_a)]\<rparr>
   }"

definition generate_front_running_scenario ::
    "'g random_library \<Rightarrow> string \<Rightarrow> instrument \<Rightarrow> sim_account \<Rightarrow> sim_account \<Rightarrow> double \<Rightarrow> int \<Rightarrow> double \<Rightarrow> string
     \<Rightarrow> ('g, scenario_output) generator" where
  "generate_front_running_scenario lib scenario_id i client related base_price anchor_time_ns severity venue = do {
     let label = \<lparr>gt_pattern = Front_Running_Pattern, gt_scenario_id = scenario_id, gt_severity = severity\<rparr>;
     coin \<leftarrow> uniform_double lib 0 1;
     let side = (if coin < 1 / 2 then SBuy else SSell);
     let direction_sign = (if side = SBuy then 1 else - 1 :: double);
     let reference_price_rounded = round_to_tick_of i base_price;
     client_lots \<leftarrow> uniform_int64 lib 10 40;
     let qty_client = client_lots * 100;
     related_lots \<leftarrow> uniform_int64 lib 1 5;
     let qty_related = related_lots * 100;
     reaction_delay_ns \<leftarrow> uniform_int64 lib 20000000 150000000;
     related_fill_delay_ns \<leftarrow> uniform_int64 lib 10000000 100000000;
     let min_lead_ns = reaction_delay_ns + related_fill_delay_ns + 10000000;
     lead_jitter \<leftarrow> uniform_int64 lib 0 500000000;
     let front_run_lead_ns = max min_lead_ns (truncate64 (lerp 20000000000 300000000 severity) + lead_jitter);
     slip_ticks \<leftarrow> uniform_int64 lib 1 3;
     let related_price = reference_price_rounded;
     let client_price = fadd reference_price_rounded (fmul (fmul direction_sign (to_double slip_ticks)) (i_tick_size i));
     client_id \<leftarrow> next_order_id;
     let client_order = plain_sim_order client_id (a_account_id client) (i_instrument_id i) side client_price qty_client
       anchor_time_ns venue label;
     related_id \<leftarrow> next_order_id;
     let related_order = plain_sim_order related_id (a_account_id related) (i_instrument_id i) side related_price qty_related
       (anchor_time_ns + reaction_delay_ns) venue label;
     related_trade \<leftarrow> next_trade_id;
     let related_execution = fill_of related_trade related_order related_price qty_related
       (so_timestamp_ns related_order + related_fill_delay_ns) synthetic_counterparty;
     let client_fill_ts = anchor_time_ns + front_run_lead_ns;
     client_trade \<leftarrow> next_trade_id;
     let client_execution = fill_of client_trade client_order client_price qty_client client_fill_ts synthetic_counterparty;
     let output = \<lparr>sc_orders = [client_order, related_order], sc_executions = [related_execution, client_execution]\<rparr>;
     if 1 / 2 \<le> severity
     then do {
       let reversal_side = (if side = SBuy then SSell else SBuy);
       reversal_ticks \<leftarrow> uniform_int64 lib 1 2;
       let reversal_price = fadd client_price (fmul (fmul direction_sign (i_tick_size i)) (to_double reversal_ticks));
       reversal_id \<leftarrow> next_order_id;
       reversal_delay \<leftarrow> uniform_int64 lib 50000000 500000000;
       let reversal_order = plain_sim_order reversal_id (a_account_id related) (i_instrument_id i) reversal_side
         reversal_price qty_related (client_fill_ts + reversal_delay) venue label;
       reversal_trade \<leftarrow> next_trade_id;
       reversal_fill_delay \<leftarrow> uniform_int64 lib 10000000 100000000;
       State_Monad.return (add_execution (fill_of reversal_trade reversal_order reversal_price qty_related
           (so_timestamp_ns reversal_order + reversal_fill_delay) synthetic_counterparty)
         (add_order reversal_order output))
     }
     else State_Monad.return output
   }"

section \<open>Both are tidy\<close>

lemma generator_state [simp]:
  "order_counter (s\<lparr>ss_rng := g\<rparr>) = order_counter s" "order_counter (s\<lparr>ss_trade_ids := t\<rparr>) = order_counter s"
  "same_prefix p (s\<lparr>ss_rng := g\<rparr>) = same_prefix p s" "same_prefix p (s\<lparr>ss_trade_ids := t\<rparr>) = same_prefix p s"
  by (simp_all add: order_counter_def same_prefix_def)

lemmas tidy_step_defs = tidy_step_def tidy_def same_prefix_def fills_def order_counter_def

lemma truncate64_nonneg: "0 \<le> x \<Longrightarrow> 0 \<le> truncate64 x"
  by (simp add: truncate64_def)

lemma lerp_gap:
  assumes "0 \<le> t" and "t \<le> 1"
  shows "0 \<le> truncate64 (lerp 30000000000 200000000 t)" and "0 \<le> truncate64 (lerp 20000000000 300000000 t)"
proof -
  have "fadd 30000000000 (min 0 (fsub 200000000 30000000000)) = 200000000"
    "fadd 20000000000 (min 0 (fsub 300000000 20000000000)) = 300000000"
    by (simp_all add: fadd_def fsub_def float_eval)
  then have "0 \<le> lerp 30000000000 200000000 t" "0 \<le> lerp 20000000000 300000000 t"
    using lerp_ge [OF assms, of 30000000000 200000000] lerp_ge [OF assms, of 20000000000 300000000] by simp_all
  then show "0 \<le> truncate64 (lerp 30000000000 200000000 t)" "0 \<le> truncate64 (lerp 20000000000 300000000 t)"
    by (simp_all add: truncate64_nonneg)
qed

lemma wash_trade_tidy:
  assumes "lawful_draws lib" and "same_prefix p s" and "0 \<le> severity" and "severity \<le> 1"
  shows "wp (generate_wash_trade_scenario lib scenario_id i a b base_price anchor severity venue) (tidy_step p s) s"
  unfolding generate_wash_trade_scenario_def Let_def
  by (intro wp_rules assms(1)) (use assms(2) lerp_gap(1) [OF assms(3,4)] in \<open>auto simp: tidy_step_defs\<close>)

lemma front_running_tidy:
  assumes "lawful_draws lib" and "same_prefix p s"
  shows "wp (generate_front_running_scenario lib scenario_id i client related base_price anchor severity venue) (tidy_step p s) s"
  unfolding generate_front_running_scenario_def Let_def
  by (intro wp_rules assms(1)) (use assms(2) in \<open>auto simp: tidy_step_defs intro!: wp_rules assms(1)\<close>)

section \<open>Both refer to the session\<close>

lemma valid_fields [simp]:
  "valid_order A I venue (plain_sim_order oid account i side price qty ts venue' label) \<longleftrightarrow>
     account \<in> insert synthetic_counterparty A \<and> i \<in> I \<and> 1 \<le> qty \<and> venue' = venue"
  "valid_execution A I venue (fill_of tid order price' qty' ts' counterparty) \<longleftrightarrow>
     so_account_id order \<in> A \<and> counterparty \<in> insert synthetic_counterparty A \<and> so_instrument_id order \<in> I \<and>
     1 \<le> qty' \<and> so_venue order = venue"
  "so_account_id (plain_sim_order oid account i side price qty ts venue' label) = account"
  "so_venue (plain_sim_order oid account i side price qty ts venue' label) = venue'"
  by (simp_all add: valid_order_def valid_execution_def plain_sim_order_def fill_of_def)

lemma wash_trade_valid:
  assumes "lawful_draws lib" and "a_account_id a \<in> A" and "a_account_id b \<in> A" and "i_instrument_id i \<in> I"
  shows "wp (generate_wash_trade_scenario lib scenario_id i a b base_price anchor severity venue)
    (\<lambda>out s'. valid_output A I venue out) s"
  unfolding generate_wash_trade_scenario_def Let_def
  by (intro wp_rules assms(1)) (use assms(2-4) in \<open>auto simp: valid_output_def\<close>)

lemma front_running_valid:
  assumes "lawful_draws lib" and "a_account_id client \<in> A" and "a_account_id related \<in> A" and "i_instrument_id i \<in> I"
  shows "wp (generate_front_running_scenario lib scenario_id i client related base_price anchor severity venue)
    (\<lambda>out s'. valid_output A I venue out) s"
  unfolding generate_front_running_scenario_def Let_def
  by (intro wp_rules assms(1)) (use assms(2-4) in \<open>auto simp: valid_output_def intro!: wp_rules assms(1)\<close>)

end
