(* ===== verification/Spoofing_Scenario.thy ===== *)
theory Spoofing_Scenario
  imports Pair_Scenarios "HOL-Library.Signed_Division"
begin

text \<open>
  \<open>cpp/simulator/abuse/spoofing_layering.cpp\<close>: layers of orders on one side that are cancelled
  again, a genuine order that executes on the other, and an anchor order that is withdrawn in
  between so that the best price of the genuine side moves away.
\<close>

definition layer_stagger_ns :: int where "layer_stagger_ns = 20000000"
definition speed_score_anchor_ns :: int where "speed_score_anchor_ns = 5000000000"
definition anchor_safe_zone_ticks :: double where "anchor_safe_zone_ticks = 8"
definition dominant_anchor_offset_ticks :: double where "dominant_anchor_offset_ticks = 7"
definition fallback_anchor_offset_ticks :: double where "fallback_anchor_offset_ticks = 1"
definition anchor_qty :: int where "anchor_qty = 300"

definition num_layers :: "double \<Rightarrow> int" where
  "num_layers severity = 3 + llround (fmul severity 3)"

definition dwell_base_ns :: "double \<Rightarrow> int" where
  "dwell_base_ns severity =
     truncate64 (lerp (fmul (rnd64 (18 / 10)) (to_double speed_score_anchor_ns))
       (fmul (rnd64 (2 / 10)) (to_double speed_score_anchor_ns)) severity)"

definition cancel_cluster_jitter_ns :: "double \<Rightarrow> int" where
  "cancel_cluster_jitter_ns severity = truncate64 (lerp 5000000000 50000000 severity)"

text \<open>The two loops over the layers.\<close>

fun place_layers :: "(int \<Rightarrow> string \<Rightarrow> sim_order) \<Rightarrow> int \<Rightarrow> nat \<Rightarrow> ('g, sim_order list) generator" where
  "place_layers layer i 0 = State_Monad.return []"
| "place_layers layer i (Suc n) = do {
     oid \<leftarrow> next_order_id;
     rest \<leftarrow> place_layers layer (i + 1) n;
     State_Monad.return (layer i oid # rest)
   }"

fun cancel_layers :: "'g random_library \<Rightarrow> int \<Rightarrow> int \<Rightarrow> sim_order list \<Rightarrow> ('g, sim_order list) generator" where
  "cancel_layers lib cancel_anchor_ts jitter [] = State_Monad.return []"
| "cancel_layers lib cancel_anchor_ts jitter (layer # layers) = do {
     offset \<leftarrow> uniform_int64 lib ((- jitter) sdiv 2) (jitter sdiv 2);
     rest \<leftarrow> cancel_layers lib cancel_anchor_ts jitter layers;
     State_Monad.return
       (layer\<lparr>so_status := SCancelled,
              so_timestamp_ns := max (so_timestamp_ns layer + 1000000) (cancel_anchor_ts + offset)\<rparr> # rest)
   }"

text \<open>When the anchor is withdrawn: halfway, but after the last layer and before any cancellation.\<close>

definition anchor_move_time :: "int \<Rightarrow> int \<Rightarrow> int \<Rightarrow> int \<Rightarrow> int" where
  "anchor_move_time anchor_time_ns dwell_ns jitter last_layer_ts =
     (let earliest = anchor_time_ns + dwell_ns - jitter sdiv 2;
          t = anchor_time_ns + dwell_ns sdiv 2;
          t1 = (if t \<le> last_layer_ts then last_layer_ts + 1000000 else t)
      in if earliest \<le> t1 then earliest - 1000000 else t1)"

definition generate_spoofing_layering_scenario ::
    "'g random_library \<Rightarrow> string \<Rightarrow> instrument \<Rightarrow> sim_account \<Rightarrow> double \<Rightarrow> int \<Rightarrow> double \<Rightarrow> string
     \<Rightarrow> ('g, scenario_output) generator" where
  "generate_spoofing_layering_scenario lib scenario_id i account base_price anchor_time_ns severity venue = do {
     let label = \<lparr>gt_pattern = Spoofing_Layering_Pattern, gt_scenario_id = scenario_id, gt_severity = severity\<rparr>;
     let qty_multiplier = lerp (3 / 2) 10 severity;
     lots \<leftarrow> uniform_int64 lib 2 10;
     let layer_qty = llround (fmul (to_double (lots * 100)) qty_multiplier);
     dwell_jitter \<leftarrow> uniform_int64 lib (- 500000000) 500000000;
     let dwell_ns = dwell_base_ns severity + dwell_jitter;
     let jitter = cancel_cluster_jitter_ns severity;
     coin \<leftarrow> uniform_double lib 0 1;
     let spoof_sells = (coin < 1 / 2);
     let side_spoof = (if spoof_sells then SSell else SBuy);
     let side_genuine = (if spoof_sells then SBuy else SSell);
     let away_sign = (if spoof_sells then 1 else - 1 :: double);
     let reference = round_to_tick_of i base_price;
     let tick = i_tick_size i;
     layers \<leftarrow> place_layers (\<lambda>k oid. plain_sim_order oid (a_account_id account) (i_instrument_id i) side_spoof
       (fadd reference (fmul (fmul away_sign (fadd anchor_safe_zone_ticks (to_double (k + 1)))) tick))
       layer_qty (anchor_time_ns + k * layer_stagger_ns) venue label) 0 (nat (num_layers severity));
     let last_layer_ts = so_timestamp_ns (last layers);
     dominant_id \<leftarrow> next_order_id;
     let anchor_dominant = plain_sim_order dominant_id synthetic_counterparty (i_instrument_id i) side_genuine
       (fadd reference (fmul (fmul away_sign dominant_anchor_offset_ticks) tick)) anchor_qty anchor_time_ns venue
       baseline_label;
     let cancel_anchor_ts = anchor_time_ns + dwell_ns;
     let anchor_move_ts = anchor_move_time anchor_time_ns dwell_ns jitter last_layer_ts;
     let anchor_dominant_cancel = anchor_dominant\<lparr>so_status := SCancelled, so_timestamp_ns := anchor_move_ts\<rparr>;
     fallback_id \<leftarrow> next_order_id;
     let anchor_fallback = plain_sim_order fallback_id synthetic_counterparty (i_instrument_id i) side_genuine
       (fsub reference (fmul (fmul away_sign fallback_anchor_offset_ticks) tick)) anchor_qty
       (anchor_move_ts + 1000000) venue baseline_label;
     genuine_lead \<leftarrow> uniform_int64 lib 50000000 300000000;
     let t = anchor_time_ns + dwell_ns - genuine_lead;
     let genuine_ts = (if t \<le> last_layer_ts then last_layer_ts + 10000000 else t);
     genuine_id \<leftarrow> next_order_id;
     genuine_lots \<leftarrow> uniform_int64 lib 1 5;
     let genuine = plain_sim_order genuine_id (a_account_id account) (i_instrument_id i) side_genuine
       (fsub reference (fmul away_sign tick)) (genuine_lots * 100) genuine_ts venue label;
     genuine_trade \<leftarrow> next_trade_id;
     fill_delay \<leftarrow> uniform_int64 lib 10000000 100000000;
     let genuine_execution = fill_of genuine_trade genuine (so_price genuine) (so_qty genuine) (genuine_ts + fill_delay)
       synthetic_counterparty;
     cancels \<leftarrow> cancel_layers lib cancel_anchor_ts jitter layers;
     State_Monad.return
       \<lparr>sc_orders = layers @ [anchor_dominant, anchor_dominant_cancel, anchor_fallback, genuine] @ cancels,
        sc_executions = [genuine_execution]\<rparr>
   }"

section \<open>The loops\<close>

definition placed_layers :: "(int \<Rightarrow> string \<Rightarrow> sim_order) \<Rightarrow> int \<Rightarrow> string \<Rightarrow> int \<Rightarrow> nat \<Rightarrow> sim_order list \<Rightarrow> bool" where
  "placed_layers layer i p c n layers \<longleftrightarrow>
     layers = map (\<lambda>k. layer (i + int k) (id_text p (c + int k))) [0..<n]"

lemma placed_layers_Suc:
  assumes "placed_layers layer (i + 1) p (c + 1) n rest"
  shows "placed_layers layer i p c (Suc n) (layer i (id_text p c) # rest)"
proof -
  have "map f [0..<Suc n] = f 0 # map (\<lambda>k. f (Suc k)) [0..<n]" for f :: "nat \<Rightarrow> sim_order"
    by (simp add: map_upt_Suc del: upt_Suc)
  then show ?thesis using assms by (simp add: placed_layers_def algebra_simps del: upt_Suc)
qed

lemma wp_place_layers:
  assumes "\<And>layers. placed_layers layer i (ig_prefix (ss_order_ids s)) (order_counter s) n layers \<Longrightarrow>
     Q layers (s\<lparr>ss_order_ids := (ss_order_ids s)\<lparr>ig_counter := order_counter s + int n\<rparr>\<rparr>)"
  shows "wp (place_layers layer i n) Q s"
  using assms
proof (induction n arbitrary: i s Q)
  case 0
  then show ?case by (simp add: wp_def order_counter_def placed_layers_def)
next
  case (Suc n)
  show ?case
    unfolding place_layers.simps
  proof (intro wp_bind wp_next_order_id Suc.IH wp_return)
    fix rest
    let ?s = "s\<lparr>ss_order_ids := (ss_order_ids s)\<lparr>ig_counter := ig_counter (ss_order_ids s) + 1\<rparr>\<rparr>"
    assume "placed_layers layer (i + 1) (ig_prefix (ss_order_ids ?s)) (order_counter ?s) n rest"
    then have "placed_layers layer i (ig_prefix (ss_order_ids s)) (order_counter s) (Suc n)
        (layer i (id_text (ig_prefix (ss_order_ids s)) (order_counter s)) # rest)"
      by (intro placed_layers_Suc) (simp add: order_counter_def)
    from Suc.prems [OF this]
    show "Q (layer i (id_text (ig_prefix (ss_order_ids s)) (ig_counter (ss_order_ids s))) # rest)
        (?s\<lparr>ss_order_ids := (ss_order_ids ?s)\<lparr>ig_counter := order_counter ?s + int n\<rparr>\<rparr>)"
      by (simp add: order_counter_def algebra_simps)
  qed
qed

definition cancels_of :: "int \<Rightarrow> sim_order list \<Rightarrow> sim_order list \<Rightarrow> bool" where
  "cancels_of earliest layers cancels \<longleftrightarrow>
     list_all2 (\<lambda>layer c. so_order_id c = so_order_id layer \<and> so_status c = SCancelled \<and>
       so_timestamp_ns layer < so_timestamp_ns c \<and> earliest \<le> so_timestamp_ns c) layers cancels"

lemma wp_cancel_layers:
  assumes "lawful_draws lib"
    and "\<And>cancels g. cancels_of (cancel_anchor_ts + (- jitter) sdiv 2) layers cancels \<Longrightarrow> Q cancels (s\<lparr>ss_rng := g\<rparr>)"
  shows "wp (cancel_layers lib cancel_anchor_ts jitter layers) Q s"
  using assms(2)
proof (induction layers arbitrary: s Q)
  case Nil
  then show ?case using Nil [of "[]" "ss_rng s"] by (simp add: wp_def cancels_of_def)
next
  case (Cons layer layers)
  show ?case
    unfolding cancel_layers.simps
  proof (intro wp_bind wp_uniform_int64 assms(1) Cons.IH wp_return)
    fix offset rest g g'
    let ?c = "layer\<lparr>so_status := SCancelled,
      so_timestamp_ns := max (so_timestamp_ns layer + 1000000) (cancel_anchor_ts + offset)\<rparr>"
    assume "(- jitter) sdiv 2 \<le> offset" and "cancels_of (cancel_anchor_ts + (- jitter) sdiv 2) layers rest"
    then have "cancels_of (cancel_anchor_ts + (- jitter) sdiv 2) (layer # layers) (?c # rest)"
      by (auto simp: cancels_of_def less_max_iff_disj le_max_iff_disj)
    from Cons.prems [OF this, of g'] show "Q (?c # rest) (s\<lparr>ss_rng := g\<rparr>\<lparr>ss_rng := g'\<rparr>)" by simp
  qed
qed

section \<open>The scenario is tidy\<close>

lemma cancels_of_fields:
  assumes "cancels_of e layers cancels"
  shows "map so_order_id cancels = map so_order_id layers \<and> (\<forall>c \<in> set cancels. so_status c = SCancelled)"
  using assms unfolding cancels_of_def by (induction rule: list_all2_induct) simp_all

lemma layers_tidy:
  assumes "0 \<le> c" and ids: "map so_order_id layers = map (\<lambda>k. id_text p (c + int k)) [0..<n]"
    and new: "\<And>layer. layer \<in> set layers \<Longrightarrow> so_status layer = SNew"
    and cancels: "cancels_of e layers cancels"
  shows "tidy p c (c + int n) (layers @ cancels) []"
proof -
  note each = cancels_of_fields [OF cancels]
  have layers: "new_ids layers = map so_order_id layers" using new by (simp add: new_ids_def)
  have none: "new_ids cancels = []" using each by (simp add: new_ids_def filter_empty_conv)
  have "so_order_id x \<in> set (new_ids layers)" if "x \<in> set cancels" for x
    using that each layers by (metis image_eqI list.set_map)
  moreover have "distinct (new_ids layers)" using assms(1) by (auto simp: ids layers distinct_map inj_on_def)
  moreover have "in_range p c (c + int n) i" if "i \<in> set (new_ids layers)" for i
    using that assms(1) by (auto simp: ids layers)
  ultimately show ?thesis using new each by (auto simp: tidy_def none)
qed

lemma scenario_tidy:
  assumes "0 \<le> c" and "map so_order_id layers = map (\<lambda>k. id_text p (c + int k)) [0..<n]"
    and "\<And>layer. layer \<in> set layers \<Longrightarrow> so_status layer = SNew" and "cancels_of e layers cancels"
    and "tidy p (c + int n) d tail xs" and "c + int n \<le> d"
  shows "tidy p c d (layers @ tail @ cancels) xs"
proof (rule tidy_perm)
  show "tidy p c d ((layers @ cancels) @ tail) ([] @ xs)"
    by (rule tidy_append [OF layers_tidy [OF assms(1-4)] assms(5)]) (use assms(1,6) in simp_all)
qed simp_all

section \<open>Timing\<close>

lemma truncate64_mono: "0 \<le> x \<Longrightarrow> x \<le> y \<Longrightarrow> truncate64 x \<le> truncate64 y"
  by (simp add: truncate64_def floor_mono)

lemma dwell_jitter_antimono:
  assumes "t \<le> t'" and "t' \<le> 1"
  shows "dwell_base_ns t' \<le> dwell_base_ns t" and "cancel_cluster_jitter_ns t' \<le> cancel_cluster_jitter_ns t"
    and "0 \<le> cancel_cluster_jitter_ns t'"
proof -
  have ends: "dwell_base_ns = (\<lambda>t. truncate64 (lerp 9000000000 1000000000 t))"
    by (simp add: dwell_base_ns_def fun_eq_iff speed_score_anchor_ns_def fmul_def float_eval)
  have neg: "fsub 1000000000 9000000000 \<le> 0" "fsub 50000000 5000000000 \<le> 0" by (simp_all add: fsub_def float_eval)
  have one: "lerp 9000000000 1000000000 1 = 1000000000" "lerp 5000000000 50000000 1 = 50000000"
    by (simp_all add: lerp_def fadd_def fsub_def fmul_def float_eval)
  note mono = lerp_antimono [OF neg(1)] lerp_antimono [OF neg(2)]
  have pos: "0 \<le> lerp 9000000000 1000000000 t'" "0 \<le> lerp 5000000000 50000000 t'"
    using mono(1) [OF assms(2)] mono(2) [OF assms(2)] one by simp_all
  show "dwell_base_ns t' \<le> dwell_base_ns t" "cancel_cluster_jitter_ns t' \<le> cancel_cluster_jitter_ns t"
    "0 \<le> cancel_cluster_jitter_ns t'"
    using mono(1) [OF assms(1)] mono(2) [OF assms(1)] pos
    by (simp_all add: ends cancel_cluster_jitter_ns_def truncate64_mono truncate64_nonneg)
qed

text \<open>The severity by eighths: the dwell at the upper end against the jitter at the lower.\<close>

lemma dwell_exceeds_jitter:
  assumes "0 \<le> t" and "t \<le> 1"
  shows "650000000 \<le> dwell_base_ns t - cancel_cluster_jitter_ns t sdiv 2"
proof -
  have half: "x sdiv 2 \<le> y sdiv 2" if "0 \<le> x" "x \<le> y" for x y :: int
    using that by (simp add: signed_divide_int_def sgn_if zdiv_mono1)
  have step: "dwell_base_ns b - cancel_cluster_jitter_ns a sdiv 2 \<le> dwell_base_ns t - cancel_cluster_jitter_ns t sdiv 2"
    if "a \<le> t" "t \<le> b" "b \<le> 1" for a b
    using dwell_jitter_antimono [OF that(2,3)] dwell_jitter_antimono [OF that(1) assms(2)] half by fastforce
  have ev: "650000000 \<le> dwell_base_ns (of_int (k + 1) / 8) - cancel_cluster_jitter_ns (of_int k / 8) sdiv 2"
    if "k \<in> {0, 1, 2, 3, 4, 5, 6, 7}" for k
    using that
    by (elim insertE emptyE) (simp_all add: dwell_base_ns_def cancel_cluster_jitter_ns_def speed_score_anchor_ns_def
        lerp_def fadd_def fsub_def fmul_def float_eval truncate64_def signed_divide_int_def)
  define k where "k = (if t = 1 then 7 else \<lfloor>t * 8\<rfloor>)"
  have "0 \<le> k \<and> k \<le> 7 \<and> of_int k / 8 \<le> t \<and> t \<le> of_int (k + 1) / 8"
  proof (cases "t = 1")
    case False
    then have "0 \<le> \<lfloor>t * 8\<rfloor>" "\<lfloor>t * 8\<rfloor> < 8" using assms by (simp_all add: floor_less_iff)
    moreover have "of_int \<lfloor>t * 8\<rfloor> \<le> t * 8" "t * 8 \<le> of_int (\<lfloor>t * 8\<rfloor> + 1)" by linarith+
    ultimately show ?thesis using False by (simp add: k_def field_simps)
  qed (simp add: k_def)
  then have k: "k \<in> {0, 1, 2, 3, 4, 5, 6, 7 :: int}" "of_int k / 8 \<le> t" "t \<le> of_int (k + 1) / 8" by auto
  have "of_int (k + 1) / 8 \<le> (1 :: rat)" using k(1) by auto
  from order_trans [OF ev [OF k(1)] step [OF k(2,3) this]] show ?thesis .
qed

lemma num_layers_bounds:
  assumes "0 \<le> t" and "t \<le> 1"
  shows "3 \<le> num_layers t" and "num_layers t \<le> 6"
proof -
  have "0 \<le> fmul t 3" "fmul t 3 \<le> fmul 1 3"
    using assms by (simp add: fmul_nonneg, simp add: fmul_def rnd64_mono)
  moreover have "fmul 1 3 = 3" by (simp add: fmul_def float_eval)
  ultimately have "0 \<le> fmul t 3" "fmul t 3 \<le> 3" by simp_all
  then have "0 \<le> llround (fmul t 3)" "llround (fmul t 3) \<le> 3" by (simp_all add: llround_def floor_le_iff)
  then show "3 \<le> num_layers t" "num_layers t \<le> 6" by (simp_all add: num_layers_def)
qed

lemma move_time_between:
  assumes "last_ts + 1000000 < anchor + w - j sdiv 2"
  shows "last_ts < anchor_move_time anchor w j last_ts" and "anchor_move_time anchor w j last_ts < anchor + w - j sdiv 2"
  using assms by (simp_all add: anchor_move_time_def Let_def)

lemma anchor_move_between:
  assumes "0 \<le> t" and "t \<le> 1" and "- 500000000 \<le> d"
    and "last_ts \<le> anchor + (num_layers t - 1) * layer_stagger_ns"
  shows "last_ts < anchor_move_time anchor (dwell_base_ns t + d) (cancel_cluster_jitter_ns t) last_ts"
    and "anchor_move_time anchor (dwell_base_ns t + d) (cancel_cluster_jitter_ns t) last_ts <
      anchor + (dwell_base_ns t + d) - cancel_cluster_jitter_ns t sdiv 2"
proof -
  have "last_ts \<le> anchor + 100000000" using assms(4) num_layers_bounds [OF assms(1,2)] by (simp add: layer_stagger_ns_def)
  then show "last_ts < anchor_move_time anchor (dwell_base_ns t + d) (cancel_cluster_jitter_ns t) last_ts"
    "anchor_move_time anchor (dwell_base_ns t + d) (cancel_cluster_jitter_ns t) last_ts <
      anchor + (dwell_base_ns t + d) - cancel_cluster_jitter_ns t sdiv 2"
    using dwell_exceeds_jitter [OF assms(1,2)] assms(3) by (intro move_time_between; simp)+
qed

text \<open>The anchor, and its withdrawal between the last layer and the first cancellation.\<close>

definition withdrawn_between :: "sim_order list \<Rightarrow> sim_order list \<Rightarrow> sim_order \<Rightarrow> bool" where
  "withdrawn_between layers cancels withdrawal \<longleftrightarrow>
     list_all (\<lambda>layer. so_timestamp_ns layer < so_timestamp_ns withdrawal) layers \<and>
     list_all (\<lambda>c. so_timestamp_ns withdrawal < so_timestamp_ns c) cancels"

definition spoofing_shape :: "scenario_output \<Rightarrow> bool" where
  "spoofing_shape out \<longleftrightarrow> (\<exists>layers dominant fallback genuine cancels move_ts.
     sc_orders out = layers @ [dominant, dominant\<lparr>so_status := SCancelled, so_timestamp_ns := move_ts\<rparr>, fallback, genuine] @ cancels \<and>
     3 \<le> length layers \<and> length layers \<le> 6 \<and> map so_order_id cancels = map so_order_id layers \<and>
     withdrawn_between layers cancels (dominant\<lparr>so_status := SCancelled, so_timestamp_ns := move_ts\<rparr>))"

section \<open>The scenario\<close>

lemma placed_layers_facts:
  assumes "placed_layers (\<lambda>k oid. plain_sim_order oid a i side (price k) qty (anchor + k * layer_stagger_ns) venue label)
    0 p c (nat n) layers" and "1 \<le> n"
  shows "map so_order_id layers = map (\<lambda>k. id_text p (c + int k)) [0..<nat n]"
    and "\<And>layer. layer \<in> set layers \<Longrightarrow> so_status layer = SNew"
    and "length layers = nat n"
    and "so_timestamp_ns (last layers) = anchor + (n - 1) * layer_stagger_ns"
    and "\<And>layer. layer \<in> set layers \<Longrightarrow> so_timestamp_ns layer \<le> so_timestamp_ns (last layers)"
proof -
  have layers: "layers = map (\<lambda>k. plain_sim_order (id_text p (c + int k)) a i side (price (int k)) qty
      (anchor + int k * layer_stagger_ns) venue label) [0..<nat n]"
    using assms(1) by (simp add: placed_layers_def)
  show "map so_order_id layers = map (\<lambda>k. id_text p (c + int k)) [0..<nat n]" "length layers = nat n"
    "\<And>layer. layer \<in> set layers \<Longrightarrow> so_status layer = SNew"
    by (auto simp: layers)
  show last: "so_timestamp_ns (last layers) = anchor + (n - 1) * layer_stagger_ns"
    using assms(2) by (simp add: layers last_map last_upt of_nat_diff)
  show "so_timestamp_ns layer \<le> so_timestamp_ns (last layers)" if "layer \<in> set layers" for layer
    using that assms(2) unfolding last by (auto simp: layers layer_stagger_ns_def)
qed

lemma cancels_of_times:
  assumes "cancels_of e layers cancels" and "t < e"
  shows "list_all (\<lambda>c. t < so_timestamp_ns c) cancels"
  using assms(1) unfolding cancels_of_def by (induction rule: list_all2_induct) (use assms(2) in auto)

lemma spoofing_shapeI:
  assumes "3 \<le> length layers" and "length layers \<le> 6" and "cancels_of e layers cancels" and "move_ts < e"
    and "\<And>layer. layer \<in> set layers \<Longrightarrow> so_timestamp_ns layer < move_ts"
  shows "spoofing_shape \<lparr>sc_orders = layers @ [d, d\<lparr>so_status := SCancelled, so_timestamp_ns := move_ts\<rparr>, f, g] @ cancels,
    sc_executions = xs\<rparr>"
proof -
  have "withdrawn_between layers cancels (d\<lparr>so_status := SCancelled, so_timestamp_ns := move_ts\<rparr>)"
    using assms(5) cancels_of_times [OF assms(3,4)] by (simp add: withdrawn_between_def list_all_iff)
  then show ?thesis
    unfolding spoofing_shape_def using assms(1,2) cancels_of_fields [OF assms(3)]
    by (intro exI [of _ layers] exI [of _ d] exI [of _ f] exI [of _ g] exI [of _ cancels] exI [of _ move_ts] conjI) simp_all
qed

lemma spoofing_tidy:
  assumes "lawful_draws lib" and "same_prefix p s" and "0 \<le> severity" and "severity \<le> 1"
  shows "wp (generate_spoofing_layering_scenario lib scenario_id i account base_price anchor severity venue)
    (\<lambda>out s'. tidy_step p s out s' \<and> spoofing_shape out) s"
  unfolding generate_spoofing_layering_scenario_def Let_def
proof (intro wp_bind wp_uniform_int64 wp_uniform_double wp_place_layers wp_cancel_layers wp_next_order_id
    wp_next_trade_id wp_return assms(1), goal_cases)
  case 1
  note n = num_layers_bounds [OF assms(3,4)]
  have "1 \<le> num_layers severity" using n by simp
  note L = placed_layers_facts [OF 1(6) this]
  note move = anchor_move_between [OF assms(3,4) 1(3) eq_refl [OF L(4)]]
  show ?case
    apply (rule conjI)
    subgoal
      unfolding tidy_step_def scenario_output.select_convs
      apply (intro conjI)
        apply (rule_tac [3] scenario_tidy [OF _ _ L(2) 1(13)])
      using assms(2) 1(1-5) 1(7-12) L(1)
            apply (simp_all add: same_prefix_def order_counter_def)
       apply (auto simp: tidy_def fills_def)
      done
    subgoal
      by (rule spoofing_shapeI [OF _ _ 1(13)]) (use n L(3,5) move in \<open>auto intro: le_less_trans\<close>)
    done
qed

section \<open>The scenario refers to the session\<close>

lemma llround_1: "1 \<le> x \<Longrightarrow> 1 \<le> llround x"
  using llround_ge [of 1 x] by simp

lemma layer_qty_pos:
  assumes "0 \<le> t" and "t \<le> 1" and "2 \<le> lots"
  shows "1 \<le> llround (fmul (to_double (lots * 100)) (lerp (3 / 2) 10 t))"
proof -
  have "fadd (3 / 2) (min 0 (fsub 10 (3 / 2))) = 3 / 2" by (simp add: fadd_def fsub_def float_eval)
  then have "1 \<le> lerp (3 / 2) 10 t" using lerp_ge [OF assms(1,2), of "3 / 2" 10] by simp
  moreover have "1 \<le> to_double (lots * 100)" using assms(3) by (intro to_double_pos) simp
  ultimately have "1 * 1 \<le> to_double (lots * 100) * lerp (3 / 2) 10 t" by (intro mult_mono) simp_all
  then show ?thesis by (intro llround_1) (simp add: fmul_def rnd64_ge_1)
qed

text \<open>The layers and their cancellations differ only in status and time.\<close>

definition like_layers :: "sim_order list \<Rightarrow> sim_order list \<Rightarrow> bool" where
  "like_layers layers cancels \<longleftrightarrow> list_all2 (\<lambda>layer c. \<exists>ts. c = layer\<lparr>so_status := SCancelled, so_timestamp_ns := ts\<rparr>) layers cancels"

lemma valid_restatus [simp]: "valid_order A I venue (order\<lparr>so_status := u, so_timestamp_ns := ts\<rparr>) = valid_order A I venue order"
  by (simp add: valid_order_def)

lemma wp_cancel_layers_like:
  assumes "lawful_draws lib" and "\<And>cancels g. like_layers layers cancels \<Longrightarrow> Q cancels (s\<lparr>ss_rng := g\<rparr>)"
  shows "wp (cancel_layers lib cancel_anchor_ts jitter layers) Q s"
  using assms(2)
proof (induction layers arbitrary: s Q)
  case Nil
  then show ?case using Nil [of "[]" "ss_rng s"] by (simp add: wp_def like_layers_def)
next
  case (Cons layer layers)
  show ?case
    unfolding cancel_layers.simps
  proof (intro wp_bind wp_uniform_int64 assms(1) Cons.IH wp_return)
    fix offset rest g g'
    let ?c = "layer\<lparr>so_status := SCancelled,
      so_timestamp_ns := max (so_timestamp_ns layer + 1000000) (cancel_anchor_ts + offset)\<rparr>"
    assume "like_layers layers rest"
    then have "like_layers (layer # layers) (?c # rest)" by (auto simp: like_layers_def)
    from Cons.prems [OF this, of g'] show "Q (?c # rest) (s\<lparr>ss_rng := g\<rparr>\<lparr>ss_rng := g'\<rparr>)" by simp
  qed
qed

lemma like_layers_valid:
  assumes "like_layers layers cancels" and "list_all (valid_order A I venue) layers"
  shows "list_all (valid_order A I venue) cancels"
  using assms unfolding like_layers_def by (induction rule: list_all2_induct) auto

lemma placed_layers_valid:
  assumes "placed_layers (\<lambda>k oid. plain_sim_order oid a i side (price k) qty (anchor + k * layer_stagger_ns) venue label)
      0 p c n layers"
    and "a \<in> A" and "i \<in> I" and "1 \<le> qty"
  shows "list_all (valid_order A I venue) layers"
  using assms by (auto simp: placed_layers_def list_all_iff)

lemma spoofing_valid:
  assumes "lawful_draws lib" and "0 \<le> severity" and "severity \<le> 1" and "a_account_id account \<in> A" and "i_instrument_id i \<in> I"
  shows "wp (generate_spoofing_layering_scenario lib scenario_id i account base_price anchor severity venue)
    (\<lambda>out s'. valid_output A I venue out) s"
  unfolding generate_spoofing_layering_scenario_def Let_def
proof (intro wp_bind wp_uniform_int64 wp_uniform_double wp_place_layers wp_cancel_layers_like wp_next_order_id
    wp_next_trade_id wp_return assms(1), goal_cases)
  case 1
  note layers = placed_layers_valid [OF 1(6) assms(4,5) layer_qty_pos [OF assms(2,3) 1(1)]]
  show ?case
    using like_layers_valid [OF 1(13) layers] layers 1(9) assms(4,5)
    by (simp add: valid_output_def anchor_qty_def)
qed

end
