(* ===== verification/Marking_Scenario.thy ===== *)
theory Marking_Scenario
  imports Pair_Scenarios
begin

text \<open>
  \<open>cpp/simulator/abuse/marking_the_close.cpp\<close>: a run of filled orders of one or two accounts
  toward the close, each at a price a step further than the last.
\<close>

definition mtc_window_seconds_anchor :: double where "mtc_window_seconds_anchor = 300"
definition mean_baseline_execution_qty :: double where "mean_baseline_execution_qty = rnd64 (4795 / 100)"
definition baseline_execution_probability :: double where "baseline_execution_probability = 3 / 4"

definition marking_qty_per_trade :: "double \<Rightarrow> double \<Rightarrow> int \<Rightarrow> int \<Rightarrow> int" where
  "marking_qty_per_trade severity orders_per_second instrument_count num_trades =
     (let instruments_for_rate = to_double (max 1 instrument_count);
          expected_ambient_qty = fmul (fmul (fmul (fdiv orders_per_second instruments_for_rate) baseline_execution_probability)
            mean_baseline_execution_qty) mtc_window_seconds_anchor;
          target_share = lerp (rnd64 (15 / 100)) (rnd64 (65 / 100)) severity;
          total_scenario_qty = fmul (fdiv target_share (fsub 1 target_share)) expected_ambient_qty
      in max 1 (llround (fdiv total_scenario_qty (to_double num_trades))))"

text \<open>What the turns of the loop share.\<close>

record marking_plan =
  mp_window_ns :: double
  mp_num_trades :: int
  mp_step_ticks :: double
  mp_pool :: "sim_account list"
  mp_qty :: int
  mp_push_up :: bool
  mp_reference :: double
  mp_label :: ground_truth_label

definition marking_trade ::
    "'g random_library \<Rightarrow> instrument \<Rightarrow> string \<Rightarrow> marking_plan \<Rightarrow> nat \<Rightarrow> ('g, scenario_output) generator" where
  "marking_trade lib i venue plan k = do {
     let close_time = i_session_close_ns i;
     let window_start = close_time - truncate64 (mp_window_ns plan);
     let frac = fdiv (to_double (int k + 1)) (to_double (mp_num_trades plan));
     back \<leftarrow> uniform_int64 lib 0 (truncate64 (fdiv (mp_window_ns plan) (fmul 2 (to_double (mp_num_trades plan)))) + 1);
     let ts = min (window_start + truncate64 (fmul frac (mp_window_ns plan)) - back) (close_time - 1000000);
     let account = mp_pool plan ! (k mod length (mp_pool plan));
     let direction_sign = (if mp_push_up plan then 1 else - 1);
     let price = fadd (mp_reference plan)
       (fmul (fmul (fmul direction_sign (to_double (int k + 1))) (mp_step_ticks plan)) (i_tick_size i));
     oid \<leftarrow> next_order_id;
     let order = plain_sim_order oid (a_account_id account) (i_instrument_id i) (if mp_push_up plan then SBuy else SSell)
       price (mp_qty plan) ts venue (mp_label plan);
     tid \<leftarrow> next_trade_id;
     delay \<leftarrow> uniform_int64 lib 1000000 20000000;
     State_Monad.return
       \<lparr>sc_orders = [order], sc_executions = [fill_of tid order price (mp_qty plan) (ts + delay) synthetic_counterparty]\<rparr>
   }"

fun marking_trades ::
    "'g random_library \<Rightarrow> instrument \<Rightarrow> string \<Rightarrow> marking_plan \<Rightarrow> nat list \<Rightarrow> scenario_output \<Rightarrow> ('g, scenario_output) generator" where
  "marking_trades lib i venue plan [] out = State_Monad.return out"
| "marking_trades lib i venue plan (k # ks) out = do {
     trade \<leftarrow> marking_trade lib i venue plan k;
     marking_trades lib i venue plan ks (append_output out trade)
   }"

text \<open>The accounts used are the first of the pool, one or two of them.\<close>

definition marking_accounts_used :: "double \<Rightarrow> nat" where
  "marking_accounts_used severity = nat (max 1 (llround (lerp 2 1 severity)))"

definition generate_marking_the_close_scenario ::
    "'g random_library \<Rightarrow> string \<Rightarrow> instrument \<Rightarrow> sim_account list \<Rightarrow> double \<Rightarrow> double \<Rightarrow> double \<Rightarrow> int \<Rightarrow> string
     \<Rightarrow> ('g, scenario_output) generator" where
  "generate_marking_the_close_scenario lib scenario_id i accounts base_price severity orders_per_second
     instrument_count venue =
     (if accounts = [] then State_Monad.return empty_scenario
      else do {
        let num_trades = 3 + llround (fmul severity 7);
        coin \<leftarrow> uniform_double lib 0 1;
        let plan = \<lparr>mp_window_ns = lerp 300000000000 8000000000 severity, mp_num_trades = num_trades,
          mp_step_ticks = lerp (1 / 2) 4 severity,
          mp_pool = take (marking_accounts_used severity) accounts,
          mp_qty = marking_qty_per_trade severity orders_per_second instrument_count num_trades,
          mp_push_up = (coin < 1 / 2),
          mp_reference = round_to_tick_of i base_price,
          mp_label = \<lparr>gt_pattern = Marking_The_Close_Pattern, gt_scenario_id = scenario_id, gt_severity = severity\<rparr>\<rparr>;
        marking_trades lib i venue plan [0..<nat num_trades] empty_scenario
      })"

lemma marking_trade_tidy:
  assumes "lawful_draws lib" and "same_prefix p s"
  shows "wp (marking_trade lib i venue plan k) (tidy_step p s) s"
  unfolding marking_trade_def Let_def
  by (intro wp_rules assms(1)) (use assms(2) in \<open>auto simp: tidy_step_defs\<close>)

context output_contract
begin

lemma marking_trades_met:
  assumes "\<And>k s. start s \<Longrightarrow> wp (marking_trade lib i venue plan k) (met s) s" and "start s0" and "met s0 out s"
  shows "wp (marking_trades lib i venue plan ks out) (met s0) s"
  using assms(3)
proof (induction ks arbitrary: out s)
  case Nil
  then show ?case by (simp add: wp_return)
next
  case (Cons k ks)
  note one = met_next [OF assms(2) Cons.prems assms(1) [OF met_start [OF Cons.prems]]]
  show ?case unfolding marking_trades.simps by (rule wp_bind, rule wp_mono [OF one]) (rule Cons.IH)
qed

end

lemma marking_tidy:
  assumes "lawful_draws lib" and "same_prefix p s"
  shows "wp (generate_marking_the_close_scenario lib scenario_id i accounts base_price severity orders_per_second
    instrument_count venue) (tidy_step p s) s"
proof (cases "accounts = []")
  case True
  then show ?thesis using assms(2) by (simp add: generate_marking_the_close_scenario_def wp_return)
next
  case False
  have first: "tidy_step p s empty_scenario (s\<lparr>ss_rng := g\<rparr>)" for g
    using assms(2) by (simp add: tidy_step_def)
  show ?thesis
    using False unfolding generate_marking_the_close_scenario_def Let_def
    by simp (intro wp_bind wp_uniform_double assms tidy_output.marking_trades_met marking_trade_tidy first)
qed

lemma marking_trade_valid:
  assumes "lawful_draws lib" and "a_account_id ` set (mp_pool plan) \<subseteq> A" and "mp_pool plan \<noteq> []" and "i_instrument_id i \<in> I"
    and "1 \<le> mp_qty plan"
  shows "wp (marking_trade lib i venue plan k) (\<lambda>out s'. valid_output A I venue out) s"
proof -
  have "mp_pool plan ! (k mod length (mp_pool plan)) \<in> set (mp_pool plan)" using assms(3) by simp
  then have "a_account_id (mp_pool plan ! (k mod length (mp_pool plan))) \<in> A" using assms(2) by blast
  then show ?thesis
    unfolding marking_trade_def Let_def
    by (intro wp_rules assms(1)) (use assms(4,5) in \<open>auto simp: valid_output_def\<close>)
qed

lemma marking_valid:
  assumes "lawful_draws lib" and "a_account_id ` set accounts \<subseteq> A" and "i_instrument_id i \<in> I"
  shows "wp (generate_marking_the_close_scenario lib scenario_id i accounts base_price severity orders_per_second
    instrument_count venue) (\<lambda>out s'. valid_output A I venue out) s"
proof (cases "accounts = []")
  case True
  then show ?thesis by (simp add: generate_marking_the_close_scenario_def wp_return valid_output_def)
next
  case False
  have pool: "a_account_id ` set (take n accounts) \<subseteq> A" for n
    using assms(2) set_take_subset [of n accounts] by blast
  have used: "marking_accounts_used severity \<noteq> 0" by (simp add: marking_accounts_used_def)
  show ?thesis
    using False unfolding generate_marking_the_close_scenario_def Let_def
    by simp (intro wp_bind wp_uniform_double assms(1) valid_output.marking_trades_met marking_trade_valid assms(3);
      simp add: pool used valid_output_def marking_qty_per_trade_def Let_def)
qed

end
