(* ===== verification/Sim_Registry.thy ===== *)
theory Sim_Registry
  imports Random_Draws
begin

text \<open>
  \<open>cpp/simulator/account_registry.cpp\<close> and \<open>instrument_universe.cpp\<close>: the accounts and the
  instruments of a simulation, and \<open>accounts_related\<close> of \<open>baseline_generator.cpp\<close>, which repeats
  the detectors' \<open>is_related\<close>.  \<open>std::hash\<close> is a parameter; \<open>std::logic_error\<close> is \<open>Inl\<close> of its
  message.
\<close>

section \<open>The accounts\<close>

record sim_registry =
  sr_accounts :: "sim_account list"
  sr_independent_indices :: "nat list"
  sr_linked_pair_indices :: "(nat \<times> nat) list"

definition new_id_generator :: "string \<Rightarrow> id_generator" where
  "new_id_generator p = \<lparr>ig_prefix = p, ig_counter = 1\<rparr>"

fun add_independents :: "nat \<Rightarrow> id_generator \<Rightarrow> id_generator \<Rightarrow> sim_registry \<Rightarrow> id_generator \<times> id_generator \<times> sim_registry" where
  "add_independents 0 account_ids owner_ids r = (account_ids, owner_ids, r)"
| "add_independents (Suc n) account_ids owner_ids r =
     (let (account_id, account_ids') = next_id account_ids;
          (owner_id, owner_ids') = next_id owner_ids;
          account = \<lparr>a_account_id = account_id, a_beneficial_owner_id = owner_id, a_entity_type = Client,
            a_linked_account_ids = []\<rparr>
      in add_independents n account_ids' owner_ids'
           (r\<lparr>sr_independent_indices := sr_independent_indices r @ [length (sr_accounts r)],
              sr_accounts := sr_accounts r @ [account]\<rparr>))"

fun add_linked_pairs :: "nat \<Rightarrow> id_generator \<Rightarrow> id_generator \<Rightarrow> sim_registry \<Rightarrow> sim_registry" where
  "add_linked_pairs 0 account_ids owner_ids r = r"
| "add_linked_pairs (Suc n) account_ids owner_ids r =
     (let (owner_id, owner_ids') = next_id owner_ids;
          (client_id, account_ids') = next_id account_ids;
          (related_id, account_ids'') = next_id account_ids';
          client = \<lparr>a_account_id = client_id, a_beneficial_owner_id = owner_id, a_entity_type = Client,
            a_linked_account_ids = [related_id]\<rparr>;
          related = \<lparr>a_account_id = related_id, a_beneficial_owner_id = owner_id, a_entity_type = Proprietary,
            a_linked_account_ids = [client_id]\<rparr>;
          client_index = length (sr_accounts r)
      in add_linked_pairs n account_ids'' owner_ids'
           (r\<lparr>sr_accounts := sr_accounts r @ [client, related],
              sr_linked_pair_indices := sr_linked_pair_indices r @ [(client_index, client_index + 1)]\<rparr>))"

definition build_sim_registry :: "int \<Rightarrow> int \<Rightarrow> sim_registry" where
  "build_sim_registry num_independent_accounts num_linked_pairs =
     (let r = \<lparr>sr_accounts = [], sr_independent_indices = [], sr_linked_pair_indices = []\<rparr>;
          (account_ids, owner_ids, r') =
            add_independents (nat num_independent_accounts) (new_id_generator ''ACC'') (new_id_generator ''OWN'') r
      in add_linked_pairs (nat num_linked_pairs) account_ids owner_ids r')"

definition random_independent :: "'g random_library \<Rightarrow> sim_registry \<Rightarrow> ('g, string + sim_account) generator" where
  "random_independent lib r =
     (if sr_independent_indices r = []
      then State_Monad.return (Inl ''AccountRegistry: no independent accounts configured'')
      else do {
        i \<leftarrow> pick_random lib (sr_independent_indices r);
        State_Monad.return (Inr (sr_accounts r ! i))
      })"

definition random_linked_pair :: "'g random_library \<Rightarrow> sim_registry \<Rightarrow> ('g, string + sim_account \<times> sim_account) generator" where
  "random_linked_pair lib r =
     (if sr_linked_pair_indices r = []
      then State_Monad.return (Inl ''AccountRegistry: no linked account pairs configured'')
      else do {
        pair \<leftarrow> pick_random lib (sr_linked_pair_indices r);
        State_Monad.return (Inr (sr_accounts r ! fst pair, sr_accounts r ! snd pair))
      })"

definition accounts_related :: "sim_account \<Rightarrow> sim_account \<Rightarrow> bool" where
  "accounts_related a b =
     (if a_account_id a = a_account_id b then True
      else if a_beneficial_owner_id a \<noteq> [] \<and> a_beneficial_owner_id a = a_beneficial_owner_id b then True
      else if a_account_id b \<in> set (a_linked_account_ids a) then True
      else a_account_id a \<in> set (a_linked_account_ids b))"

section \<open>The instruments\<close>

definition equity_symbols :: "string list" where
  "equity_symbols = [''ACME'', ''GLBX'', ''NDEX'', ''ORCA'', ''PLTX'', ''QTRX'', ''RHNO'', ''STLR'']"

definition fx_symbols :: "string list" where
  "fx_symbols = [''EURUSD'', ''USDJPY'', ''GBPUSD'', ''AUDUSD'', ''USDCHF'']"

definition fixed_income_symbols :: "string list" where
  "fixed_income_symbols = [''UST2Y'', ''UST5Y'', ''UST10Y'', ''UST30Y'', ''BUND10Y'']"

definition make_instrument :: "string \<Rightarrow> asset_class \<Rightarrow> double \<Rightarrow> int \<Rightarrow> int \<Rightarrow> instrument" where
  "make_instrument symbol asset_class tick_size avg_daily_volume session_close_ns =
     \<lparr>i_instrument_id = symbol, i_symbol = symbol, i_asset_class = asset_class, i_tick_size = tick_size,
      i_avg_daily_volume = avg_daily_volume, i_session_close_ns = session_close_ns\<rparr>"

definition build_instrument_universe :: "int \<Rightarrow> int \<Rightarrow> int \<Rightarrow> int \<Rightarrow> instrument list" where
  "build_instrument_universe num_equity num_fx num_fixed_income session_close_ns =
     map (\<lambda>symbol. make_instrument symbol Equity (rnd64 (1 / 100)) 1000000 session_close_ns)
       (take (nat num_equity) equity_symbols) @
     map (\<lambda>symbol. make_instrument symbol Fx (rnd64 (1 / 10000)) 100000000 session_close_ns)
       (take (nat num_fx) fx_symbols) @
     map (\<lambda>symbol. make_instrument symbol Fixed_Income (rnd64 (1 / 100)) 200000 session_close_ns)
       (take (nat num_fixed_income) fixed_income_symbols)"

definition reference_price :: "(string \<Rightarrow> u64) \<Rightarrow> instrument \<Rightarrow> double" where
  "reference_price hash i =
     (let jitter = fdiv (to_double (uint (hash (i_instrument_id i) mod 1000))) 1000
      in case i_asset_class i of
           Equity \<Rightarrow> fadd 50 (fmul jitter 150)
         | Fx \<Rightarrow> fadd (rnd64 (8 / 10)) (fmul jitter (rnd64 (8 / 10)))
         | Fixed_Income \<Rightarrow> fadd 95 (fmul jitter 10))"

section \<open>The accounts in closed form\<close>

text \<open>The account at an index, for \<open>n\<close> independent accounts.\<close>

definition account_at :: "nat \<Rightarrow> nat \<Rightarrow> sim_account" where
  "account_at n k =
     \<lparr>a_account_id = id_text ''ACC'' (int k + 1),
      a_beneficial_owner_id = id_text ''OWN'' (int (if k < n then k else n + (k - n) div 2) + 1),
      a_entity_type = (if k < n \<or> even (k - n) then Client else Proprietary),
      a_linked_account_ids = (if k < n then [] else if even (k - n) then [id_text ''ACC'' (int k + 2)]
        else [id_text ''ACC'' (int k)])\<rparr>"

definition ids_from :: "string \<Rightarrow> nat \<Rightarrow> id_generator" where
  "ids_from p k = \<lparr>ig_prefix = p, ig_counter = int k + 1\<rparr>"

lemma next_id_from [simp]: "next_id (ids_from p k) = (id_text p (int k + 1), ids_from p (Suc k))"
  by (simp add: next_id_def ids_from_def)

lemma independent_account:
  "k < n \<Longrightarrow> account_at n k = \<lparr>a_account_id = id_text ''ACC'' (int k + 1), a_beneficial_owner_id = id_text ''OWN'' (int k + 1),
     a_entity_type = Client, a_linked_account_ids = []\<rparr>"
  by (simp add: account_at_def)

lemma linked_accounts:
  "account_at n (n + 2 * k) =
     \<lparr>a_account_id = id_text ''ACC'' (int (n + 2 * k) + 1), a_beneficial_owner_id = id_text ''OWN'' (int (n + k) + 1),
      a_entity_type = Client, a_linked_account_ids = [id_text ''ACC'' (int (Suc (n + 2 * k)) + 1)]\<rparr>"
  "account_at n (Suc (n + 2 * k)) =
     \<lparr>a_account_id = id_text ''ACC'' (int (Suc (n + 2 * k)) + 1), a_beneficial_owner_id = id_text ''OWN'' (int (n + k) + 1),
      a_entity_type = Proprietary, a_linked_account_ids = [id_text ''ACC'' (int (n + 2 * k) + 1)]\<rparr>"
  by (simp_all add: account_at_def Suc_diff_le)

lemma add_independents_eq:
  assumes "k + m \<le> n"
  shows "add_independents m (ids_from ''ACC'' k) (ids_from ''OWN'' k)
      \<lparr>sr_accounts = map (account_at n) [0..<k], sr_independent_indices = [0..<k], sr_linked_pair_indices = P\<rparr> =
    (ids_from ''ACC'' (k + m), ids_from ''OWN'' (k + m),
     \<lparr>sr_accounts = map (account_at n) [0..<k + m], sr_independent_indices = [0..<k + m], sr_linked_pair_indices = P\<rparr>)"
  using assms
proof (induction m arbitrary: k)
  case (Suc m)
  from Suc.IH [of "Suc k"] Suc.prems show ?case by (simp add: independent_account)
qed simp

lemma add_linked_pairs_eq:
  "add_linked_pairs m (ids_from ''ACC'' (n + 2 * k)) (ids_from ''OWN'' (n + k))
      \<lparr>sr_accounts = map (account_at n) [0..<n + 2 * k], sr_independent_indices = I,
       sr_linked_pair_indices = map (\<lambda>j. (n + 2 * j, n + 2 * j + 1)) [0..<k]\<rparr> =
    \<lparr>sr_accounts = map (account_at n) [0..<n + 2 * (k + m)], sr_independent_indices = I,
     sr_linked_pair_indices = map (\<lambda>j. (n + 2 * j, n + 2 * j + 1)) [0..<k + m]\<rparr>"
proof (induction m arbitrary: k)
  case (Suc m)
  have pair: "map (account_at n) [0..<n + 2 * Suc k] =
      map (account_at n) [0..<n + 2 * k] @ [account_at n (n + 2 * k), account_at n (Suc (n + 2 * k))]" by simp
  have more: "[0..<Suc k] = [0..<k] @ [k]" "n + 2 * Suc k = Suc (Suc (n + 2 * k))" "n + Suc k = Suc (n + k)"
    "Suc k + m = k + Suc m" by simp_all
  show ?case
    using Suc.IH [of "Suc k"] unfolding pair linked_accounts unfolding more
    by (simp only: add_linked_pairs.simps next_id_from Let_def prod.case sim_registry.simps length_map length_upt
        map_append list.map append.simps Suc_eq_plus1 [symmetric] diff_zero)
qed simp

lemma build_sim_registry_eq:
  "build_sim_registry n m =
     \<lparr>sr_accounts = map (account_at (nat n)) [0..<nat n + 2 * nat m], sr_independent_indices = [0..<nat n],
      sr_linked_pair_indices = map (\<lambda>j. (nat n + 2 * j, nat n + 2 * j + 1)) [0..<nat m]\<rparr>"
proof -
  have ids: "new_id_generator p = ids_from p 0" for p by (simp add: new_id_generator_def ids_from_def)
  show ?thesis
    using add_independents_eq [of 0 "nat n" "nat n" "[]"] add_linked_pairs_eq [of "nat m" "nat n" 0]
    by (simp add: build_sim_registry_def ids)
qed

lemma account_at_id [simp]: "a_account_id (account_at n j) = a_account_id (account_at n k) \<longleftrightarrow> j = k"
  by (simp add: account_at_def)

section \<open>Two accounts are related when they are a pair\<close>

lemma id_text_not_Nil [simp]: "id_text p k \<noteq> []"
  by (simp add: id_text_def)

lemma related_at:
  "accounts_related (account_at n j) (account_at n k) \<longleftrightarrow>
     j = k \<or> n \<le> j \<and> n \<le> k \<and> (j - n) div 2 = (k - n) div 2"
proof -
  define owner where "owner k = (if k < n then k else n + (k - n) div 2)" for k
  define link where "link j k \<longleftrightarrow> n \<le> j \<and> (if even (j - n) then k = Suc j else Suc k = j)" for j k
  have "a_beneficial_owner_id (account_at n j) \<noteq> []"
    "a_beneficial_owner_id (account_at n j) = a_beneficial_owner_id (account_at n k) \<longleftrightarrow> owner j = owner k"
    by (simp_all add: account_at_def owner_def del: of_nat_add)
  moreover have "a_account_id (account_at n k) \<in> set (a_linked_account_ids (account_at n j)) \<longleftrightarrow> link j k" for j k
    by (auto simp: account_at_def link_def)
  ultimately have "accounts_related (account_at n j) (account_at n k) \<longleftrightarrow>
      j = k \<or> owner j = owner k \<or> link j k \<or> link k j"
    by (simp add: accounts_related_def)
  moreover have "n \<le> k \<and> (j - n) div 2 = (k - n) div 2" if "link j k" for j k
  proof (cases "even (j - n)")
    case True
    then show ?thesis using that by (simp add: link_def Suc_diff_le)
  next
    case False
    then have "n \<noteq> j" by auto
    moreover have "n \<le> j" "Suc k = j" using that False by (simp_all add: link_def)
    ultimately have "n \<le> k" "j - n = Suc (k - n)" by simp_all
    then show ?thesis using False by simp
  qed
  moreover have "owner j = owner k \<longleftrightarrow> j = k \<or> n \<le> j \<and> n \<le> k \<and> (j - n) div 2 = (k - n) div 2"
    by (auto simp: owner_def split: if_splits)
  ultimately show ?thesis by (metis link_def)
qed

end
