(* ===== verification/Baseline_Flow.thy ===== *)
theory Baseline_Flow
  imports Pair_Scenarios Sim_Registry "HOL-Library.Signed_Division"
begin

text \<open>
  \<open>cpp/simulator/baseline_generator.cpp\<close>: the ordinary flow.  An arrival moves the instrument's
  mid price, places an order around it and has it filled, filled in part, cancelled or left open.
  The loop ends when the arrival times pass the end of the session; as nothing in the code bounds
  the number of arrivals, a flow that does not end is \<open>None\<close>.
\<close>

definition sim_venue :: string where
  "sim_venue = ''SIM''"

definition trade_size_percentiles :: "(double \<times> int) list" where
  "trade_size_percentiles =
     [(0, 1), (rnd64 (10 / 100), 1), (1 / 4, 4), (1 / 2, 20), (3 / 4, 50), (rnd64 (90 / 100), 100),
      (rnd64 (99 / 100), 460), (1, 460)]"

definition price_move_magnitude_percentiles :: "(double \<times> int) list" where
  "price_move_magnitude_percentiles =
     [(0, 0), (rnd64 (10 / 100), 0), (1 / 4, 0), (1 / 2, 0), (3 / 4, 1), (rnd64 (90 / 100), 4),
      (rnd64 (99 / 100), 28), (1, 28)]"

definition spread_offset_percentiles :: "(double \<times> int) list" where
  "spread_offset_percentiles =
     [(0, 0), (rnd64 (10 / 100), 0), (1 / 4, 1), (1 / 2, 1), (3 / 4, 2), (rnd64 (90 / 100), 3),
      (rnd64 (99 / 100), 10), (1, 10)]"

definition round_to_tick :: "double \<Rightarrow> double \<Rightarrow> double" where
  "round_to_tick price tick_size =
     (if tick_size \<le> 0 then price else fmul (of_int (llround (fdiv price tick_size))) tick_size)"

text \<open>The redraws of a counterparty that is related to the account.\<close>

fun redraw_related ::
    "'g random_library \<Rightarrow> sim_account list \<Rightarrow> sim_account \<Rightarrow> nat \<Rightarrow> sim_account \<Rightarrow> ('g, sim_account) generator" where
  "redraw_related lib accounts account 0 counterparty = State_Monad.return counterparty"
| "redraw_related lib accounts account (Suc attempts) counterparty =
     (if accounts_related counterparty account
      then do {
        next \<leftarrow> pick_random lib accounts;
        redraw_related lib accounts account attempts next
      }
      else State_Monad.return counterparty)"

definition pick_counterparty ::
    "'g random_library \<Rightarrow> sim_account list \<Rightarrow> sim_account \<Rightarrow> ('g, sim_account) generator" where
  "pick_counterparty lib accounts account = do {
     first \<leftarrow> pick_random lib accounts;
     redraw_related lib accounts account 5 first
   }"

text \<open>What follows the order: nothing, a fill, a partial fill or a cancellation.\<close>

definition baseline_fill ::
    "'g random_library \<Rightarrow> sim_account list \<Rightarrow> sim_account \<Rightarrow> sim_order \<Rightarrow> (int \<Rightarrow> int) \<Rightarrow> ('g, scenario_output) generator" where
  "baseline_fill lib accounts account order filled = do {
     fill_delay_ns \<leftarrow> uniform_int64 lib 10000000 2000000000;
     counterparty \<leftarrow> pick_counterparty lib accounts account;
     tid \<leftarrow> next_trade_id;
     State_Monad.return
       \<lparr>sc_orders = [order],
        sc_executions = [fill_of tid order (so_price order) (filled (so_qty order)) (so_timestamp_ns order + fill_delay_ns)
          (a_account_id counterparty)]\<rparr>
   }"

definition baseline_outcome ::
    "'g random_library \<Rightarrow> sim_account list \<Rightarrow> sim_account \<Rightarrow> sim_order \<Rightarrow> ('g, scenario_output) generator" where
  "baseline_outcome lib accounts account order = do {
     outcome \<leftarrow> uniform_double lib 0 1;
     if outcome < rnd64 (60 / 100) then baseline_fill lib accounts account order (\<lambda>qty. qty)
     else if outcome < 3 / 4 then baseline_fill lib accounts account order (\<lambda>qty. max 1 (qty sdiv 2))
     else if outcome < rnd64 (90 / 100)
     then do {
       dwell_ns \<leftarrow> uniform_int64 lib 500000000 30000000000;
       State_Monad.return
         \<lparr>sc_orders = [order, order\<lparr>so_status := SCancelled, so_timestamp_ns := so_timestamp_ns order + dwell_ns\<rparr>],
          sc_executions = []\<rparr>
     }
     else State_Monad.return \<lparr>sc_orders = [order], sc_executions = []\<rparr>
   }"

text \<open>\<open>mid_price[id]\<close> creates a missing entry with the value 0.\<close>

type_synonym mid_prices = "string \<rightharpoonup> double"

definition baseline_arrival ::
    "'g random_library \<Rightarrow> instrument list \<Rightarrow> sim_account list \<Rightarrow> int \<Rightarrow> mid_prices
     \<Rightarrow> ('g, mid_prices \<times> scenario_output) generator" where
  "baseline_arrival lib instruments accounts t mids = do {
     i \<leftarrow> pick_random lib instruments;
     account \<leftarrow> pick_random lib accounts;
     move_ticks \<leftarrow> sample_from_percentiles lib price_move_magnitude_percentiles;
     move_coin \<leftarrow> uniform_double lib 0 1;
     let move_sign = (if move_coin < 1 / 2 then - 1 else 1);
     let old_mid = (case mids (i_instrument_id i) of None \<Rightarrow> 0 | Some m \<Rightarrow> m);
     let mid = max (i_tick_size i) (fadd old_mid (fmul (fmul move_sign (to_double move_ticks)) (i_tick_size i)));
     side_coin \<leftarrow> uniform_double lib 0 1;
     let side = (if side_coin < 1 / 2 then SBuy else SSell);
     offset_ticks \<leftarrow> sample_from_percentiles lib spread_offset_percentiles;
     let away = (if side = SBuy then - 1 else 1);
     let price = round_to_tick (fadd mid (fmul (fmul away (to_double offset_ticks)) (i_tick_size i))) (i_tick_size i);
     qty \<leftarrow> sample_from_percentiles lib trade_size_percentiles;
     type_coin \<leftarrow> uniform_double lib 0 1;
     let order_type = (if type_coin < rnd64 (1 / 10) then SMarket else SLimit);
     oid \<leftarrow> next_order_id;
     let order = (plain_sim_order oid (a_account_id account) (i_instrument_id i) side price qty t sim_venue baseline_label)
       \<lparr>so_order_type := order_type\<rparr>;
     out \<leftarrow> baseline_outcome lib accounts account order;
     State_Monad.return (mids(i_instrument_id i \<mapsto> mid), out)
   }"

partial_function (option) baseline_loop ::
    "'g random_library \<Rightarrow> instrument list \<Rightarrow> sim_account list \<Rightarrow> double \<Rightarrow> int \<Rightarrow> int \<Rightarrow> mid_prices \<Rightarrow> scenario_output
     \<Rightarrow> 'g sim_state \<Rightarrow> (scenario_output \<times> 'g sim_state) option" where
  "baseline_loop lib instruments accounts orders_per_second end_time_ns t mids out s =
     (let (gap, s1) = run_state (poisson_interarrival_ns lib orders_per_second) s;
          t' = t + gap
      in if end_time_ns \<le> t' then Some (out, s1)
         else let ((mids', rest), s2) = run_state (baseline_arrival lib instruments accounts t' mids) s1
              in baseline_loop lib instruments accounts orders_per_second end_time_ns t' mids' (append_output out rest) s2)"

definition generate_baseline_flow ::
    "'g random_library \<Rightarrow> (string \<Rightarrow> u64) \<Rightarrow> double \<Rightarrow> int \<Rightarrow> int \<Rightarrow> instrument list \<Rightarrow> sim_account list
     \<Rightarrow> 'g sim_state \<Rightarrow> (scenario_output \<times> 'g sim_state) option" where
  "generate_baseline_flow lib hash orders_per_second start_time_ns end_time_ns instruments accounts s =
     (if instruments = [] \<or> accounts = [] then Some (empty_scenario, s)
      else baseline_loop lib instruments accounts orders_per_second end_time_ns start_time_ns
        (fold (\<lambda>i mids. mids(i_instrument_id i \<mapsto> reference_price hash i)) instruments Map.empty) empty_scenario s)"

section \<open>An arrival is tidy\<close>

lemma tables:
  "sorted (map snd trade_size_percentiles)" "sorted (map snd price_move_magnitude_percentiles)"
  "sorted (map snd spread_offset_percentiles)"
  by (simp_all add: trade_size_percentiles_def price_move_magnitude_percentiles_def spread_offset_percentiles_def)

lemma wp_trade_size [wp_rules]:
  assumes "lawful_draws lib" and "\<And>x g. 1 \<le> x \<Longrightarrow> Q x (s\<lparr>ss_rng := g\<rparr>)"
  shows "wp (sample_from_percentiles lib trade_size_percentiles) Q s"
  using assms by (intro wp_percentiles [OF _ tables(1)]) (auto simp: trade_size_percentiles_def)

lemma wp_price_move [wp_rules]:
  assumes "lawful_draws lib" and "\<And>x g. 0 \<le> x \<Longrightarrow> Q x (s\<lparr>ss_rng := g\<rparr>)"
  shows "wp (sample_from_percentiles lib price_move_magnitude_percentiles) Q s"
  using assms by (intro wp_percentiles [OF _ tables(2)]) (auto simp: price_move_magnitude_percentiles_def)

lemma wp_spread_offset [wp_rules]:
  assumes "lawful_draws lib" and "\<And>x g. 0 \<le> x \<Longrightarrow> Q x (s\<lparr>ss_rng := g\<rparr>)"
  shows "wp (sample_from_percentiles lib spread_offset_percentiles) Q s"
  using assms by (intro wp_percentiles [OF _ tables(3)]) (auto simp: spread_offset_percentiles_def)

lemma wp_redraw_related:
  assumes "lawful_draws lib" and "accounts \<noteq> []" and "counterparty \<in> set accounts"
    and "\<And>x g. x \<in> set accounts \<Longrightarrow> Q x (s\<lparr>ss_rng := g\<rparr>)"
  shows "wp (redraw_related lib accounts account n counterparty) Q s"
  using assms(3,4)
proof (induction n arbitrary: counterparty s)
  case 0
  have "s = s\<lparr>ss_rng := ss_rng s\<rparr>" by simp
  then show ?case using 0(2) [OF 0(1), of "ss_rng s"] by (simp add: wp_return)
next
  case (Suc n)
  have "s = s\<lparr>ss_rng := ss_rng s\<rparr>" by simp
  then have "Q counterparty s" using Suc.prems(2) [OF Suc.prems(1), of "ss_rng s"] by simp
  moreover have "wp (do { next \<leftarrow> pick_random lib accounts; redraw_related lib accounts account n next }) Q s"
    by (intro wp_bind wp_pick_random assms(1,2) Suc.IH) (use Suc.prems in simp_all)
  ultimately show ?case by (simp add: wp_return)
qed

lemma wp_pick_counterparty [wp_rules]:
  assumes "lawful_draws lib" and "accounts \<noteq> []" and "\<And>x g. x \<in> set accounts \<Longrightarrow> Q x (s\<lparr>ss_rng := g\<rparr>)"
  shows "wp (pick_counterparty lib accounts account) Q s"
  unfolding pick_counterparty_def
  by (intro wp_bind wp_pick_random wp_redraw_related assms(1,2)) (use assms(3) in simp_all)

text \<open>An order that has just drawn its id, and what a fill of it may take.\<close>

definition fresh_order :: "string \<Rightarrow> 'g sim_state \<Rightarrow> sim_order \<Rightarrow> 'g sim_state \<Rightarrow> bool" where
  "fresh_order p s order s' \<longleftrightarrow> same_prefix p s \<and> same_prefix p s' \<and> order_counter s' = order_counter s + 1 \<and>
     so_order_id order = id_text p (order_counter s) \<and> so_status order = SNew \<and> 1 \<le> so_qty order"

lemma fresh_order_tidy:
  assumes "fresh_order p s order s'"
  shows "tidy_step p s \<lparr>sc_orders = [order], sc_executions = []\<rparr> s'"
    and "0 \<le> d \<Longrightarrow> tidy_step p s \<lparr>sc_orders = [order, order\<lparr>so_status := SCancelled, so_timestamp_ns := so_timestamp_ns order + d\<rparr>],
      sc_executions = []\<rparr> s'"
    and "0 < d \<Longrightarrow> q \<le> so_qty order \<Longrightarrow>
      tidy_step p s \<lparr>sc_orders = [order], sc_executions = [fill_of tid order price q (so_timestamp_ns order + d) c]\<rparr> s'"
  using assms by (auto simp: fresh_order_def tidy_step_defs)

lemma fresh_order_state [simp]:
  "fresh_order p s order (s'\<lparr>ss_rng := g\<rparr>) = fresh_order p s order s'"
  "fresh_order p s order (s'\<lparr>ss_trade_ids := t\<rparr>) = fresh_order p s order s'"
  by (simp_all add: fresh_order_def)

lemma baseline_fill_tidy:
  assumes "lawful_draws lib" and "accounts \<noteq> []" and "fresh_order p s0 order s" and "filled (so_qty order) \<le> so_qty order"
  shows "wp (baseline_fill lib accounts account order filled) (tidy_step p s0) s"
  unfolding baseline_fill_def
  by (intro wp_rules assms(1,2) fresh_order_tidy(3)) (use assms(3,4) in simp_all)

lemma baseline_outcome_tidy:
  assumes "lawful_draws lib" and "accounts \<noteq> []" and "fresh_order p s0 order s"
  shows "wp (baseline_outcome lib accounts account order) (tidy_step p s0) s"
proof -
  have "1 \<le> so_qty order" using assms(3) by (simp add: fresh_order_def)
  moreover from this have "so_qty order div 2 \<le> so_qty order" by linarith
  ultimately have "max 1 (so_qty order sdiv 2) \<le> so_qty order" by (simp add: signed_divide_int_def)
  then show ?thesis
    unfolding baseline_outcome_def
    by (intro wp_bind wp_uniform_double assms(1))
      (auto intro!: wp_rules baseline_fill_tidy fresh_order_tidy(1,2) assms simp: assms)
qed

lemma baseline_arrival_tidy:
  assumes "lawful_draws lib" and "instruments \<noteq> []" and "accounts \<noteq> []" and "same_prefix p s"
  shows "wp (baseline_arrival lib instruments accounts t mids) (\<lambda>(mids', out). tidy_step p s out) s"
  unfolding baseline_arrival_def Let_def
  by (intro wp_rules baseline_outcome_tidy wp_mono [OF baseline_outcome_tidy] assms(1-3))
    (use assms(4) in \<open>auto simp: fresh_order_def order_counter_def same_prefix_def intro!: wp_return\<close>)

section \<open>The flow is tidy, and it ends\<close>

context output_contract
begin

lemma baseline_loop_met:
  assumes "baseline_loop lib instruments accounts rate end_time_ns t mids out s = Some r"
    and "lawful_draws lib" and "start s0" and "met s0 out s"
    and "\<And>t mids s. start s \<Longrightarrow> wp (baseline_arrival lib instruments accounts t mids) (\<lambda>(mids', out). met s out) s"
  shows "met s0 (fst r) (snd r)"
  using assms
proof (induction arbitrary: s0 rule: baseline_loop.raw_induct [rotated, consumes 1, case_names turn])
  case (turn loop lib instruments accounts rate end_time_ns t mids out s r)
  obtain gap s1 where gap: "run_state (poisson_interarrival_ns lib rate) s = (gap, s1)" by fastforce
  have "wp (poisson_interarrival_ns lib rate) (\<lambda>gap s1. \<exists>g. s1 = s\<lparr>ss_rng := g\<rparr>) s"
    by (intro wp_rules turn.prems(1)) blast
  then obtain g where s1: "s1 = s\<lparr>ss_rng := g\<rparr>" by (auto simp: wp_def gap)
  have here: "met s0 out s1" using turn.prems(3) by (simp add: met_draw(2) s1)
  show ?case
  proof (cases "end_time_ns \<le> t + gap")
    case True
    then show ?thesis using turn.hyps here by (auto simp: gap)
  next
    case False
    obtain mids' rest s2 where arrival: "run_state (baseline_arrival lib instruments accounts (t + gap) mids) s1 = ((mids', rest), s2)"
      by (metis surj_pair)
    from turn.prems(4) [OF met_start [OF here], of "t + gap" mids]
    have "met s1 rest s2" by (simp add: wp_def arrival)
    from met_append [OF turn.prems(2) here this] show ?thesis
      using turn.IH turn.hyps False turn.prems by (auto simp: gap arrival)
  qed
qed

lemma baseline_flow_met:
  assumes "generate_baseline_flow lib hash rate start_ns end_ns instruments accounts s = Some r"
    and "lawful_draws lib" and "start s"
    and "\<And>t mids s. instruments \<noteq> [] \<Longrightarrow> accounts \<noteq> [] \<Longrightarrow> start s \<Longrightarrow>
      wp (baseline_arrival lib instruments accounts t mids) (\<lambda>(mids', out). met s out) s"
  shows "met s (fst r) (snd r)"
proof (cases "instruments = [] \<or> accounts = []")
  case True
  then show ?thesis using assms(1) met_empty [OF assms(3)] by (auto simp: generate_baseline_flow_def)
next
  case False
  show ?thesis
    by (rule baseline_loop_met [OF _ assms(2,3) met_empty [OF assms(3)] assms(4)])
      (use assms(1) False in \<open>auto simp: generate_baseline_flow_def\<close>)
qed

end

text \<open>
  The arrivals end when the gaps add up to the session.  The standard does not promise that: a
  draw below half a nanosecond is rounded to a gap of 0.  So the properties of a session start from a
  simulator that has returned; a library whose gaps are all at least a nanosecond, as in the
  examples, does make it return.
\<close>

lemma baseline_loop_ends:
  assumes "\<And>g. 1 \<le> llround (fmul (fst (rl_exponential lib g rate)) (10 ^ 9))"
  shows "\<exists>r. baseline_loop lib instruments accounts rate end_time_ns t mids out s = Some r"
proof (induction "nat (end_time_ns - t)" arbitrary: t mids out s rule: less_induct)
  case less
  obtain gap s1 where gap: "run_state (poisson_interarrival_ns lib rate) s = (gap, s1)" by fastforce
  have "1 \<le> gap"
    using assms gap by (auto simp: poisson_interarrival_ns_def draw_def split_beta Let_def)
  show ?case
  proof (cases "end_time_ns \<le> t + gap")
    case False
    then have "nat (end_time_ns - (t + gap)) < nat (end_time_ns - t)" using \<open>1 \<le> gap\<close> by simp
    from less [OF this] show ?thesis
      using False by (subst baseline_loop.simps) (simp add: gap split_beta Let_def)
  qed (subst baseline_loop.simps, simp add: gap)
qed

lemma baseline_flow_ends:
  "(\<And>g. 1 \<le> llround (fmul (fst (rl_exponential lib g rate)) (10 ^ 9))) \<Longrightarrow>
    \<exists>r. generate_baseline_flow lib hash rate start_ns end_ns instruments accounts s = Some r"
  using baseline_loop_ends [of lib rate instruments accounts end_ns start_ns] unfolding generate_baseline_flow_def
  by (cases "instruments = [] \<or> accounts = []") (simp_all only: simp_thms if_True if_False, blast)

section \<open>The flow refers to the session\<close>

lemma baseline_fill_valid:
  assumes "lawful_draws lib" and "accounts \<noteq> []" and "a_account_id ` set accounts \<subseteq> A"
    and "valid_order A I venue order" and "so_account_id order \<in> A" and "1 \<le> filled (so_qty order)"
  shows "wp (baseline_fill lib accounts account order filled) (\<lambda>out s'. valid_output A I venue out) s"
  unfolding baseline_fill_def
  by (intro wp_rules assms(1,2)) (use assms(3-6) in \<open>auto simp: valid_output_def valid_order_def\<close>)

lemma baseline_outcome_valid:
  assumes "lawful_draws lib" and "accounts \<noteq> []" and "a_account_id ` set accounts \<subseteq> A"
    and "valid_order A I venue order" and "so_account_id order \<in> A"
  shows "wp (baseline_outcome lib accounts account order) (\<lambda>out s'. valid_output A I venue out) s"
proof -
  have "1 \<le> so_qty order" using assms(4) by (simp add: valid_order_def)
  moreover have "valid_order A I venue (order\<lparr>so_status := u, so_timestamp_ns := ts\<rparr>)" for u ts
    using assms(4) by (simp add: valid_order_def)
  ultimately show ?thesis
    unfolding baseline_outcome_def
    by (intro wp_bind wp_uniform_double assms(1))
      (auto intro!: wp_rules baseline_fill_valid assms simp: valid_output_lists assms(4))
qed

lemma baseline_arrival_valid:
  assumes "lawful_draws lib" and "instruments \<noteq> []" and "accounts \<noteq> []" and "a_account_id ` set accounts \<subseteq> A"
    and "i_instrument_id ` set instruments \<subseteq> I"
  shows "wp (baseline_arrival lib instruments accounts t mids) (\<lambda>(mids', out) s'. valid_output A I sim_venue out) s"
  unfolding baseline_arrival_def Let_def
  by (intro wp_rules wp_mono [OF baseline_outcome_valid] assms(1-4))
    (use assms(4,5) in \<open>auto simp: valid_order_def plain_sim_order_def intro!: wp_return\<close>)

end
