(* ===== verification/Simulator.thy ===== *)
theory Simulator
  imports Spoofing_Scenario Marking_Scenario Baseline_Flow
begin

text \<open>
  \<open>cpp/simulator/simulator.cpp\<close>: a session is the ordinary flow and the configured scenarios of
  each kind, sorted by time.  The two engines of the code draw one after the other, so one state
  carries them; the order and trade ids are shared.  An exception of the account registry is
  \<open>Inl\<close>, and a flow that does not end is \<open>None\<close>.
\<close>

record abuse_pattern_config =
  ap_count :: int
  ap_severity :: double

record simulator_config =
  sg_random_seed :: u64
  sg_session_start_ns :: int
  sg_session_duration_ns :: int
  sg_num_equity_instruments :: int
  sg_num_fx_instruments :: int
  sg_num_fixed_income_instruments :: int
  sg_baseline_orders_per_second :: double
  sg_num_independent_accounts :: int
  sg_num_linked_account_pairs :: int
  sg_wash_trade :: abuse_pattern_config
  sg_spoofing_layering :: abuse_pattern_config
  sg_marking_the_close :: abuse_pattern_config
  sg_front_running :: abuse_pattern_config

definition scenario_margin_ns :: int where
  "scenario_margin_ns = 300 * 1000000000"

section \<open>The scenarios\<close>

text \<open>A loop over the scenarios of one kind; an exception in the body ends it.\<close>

fun run_scenarios ::
    "nat \<Rightarrow> id_generator \<Rightarrow> (string \<Rightarrow> ('g, string + scenario_output) generator) \<Rightarrow> scenario_output
     \<Rightarrow> ('g, string + scenario_output) generator" where
  "run_scenarios 0 ids body out = State_Monad.return (Inr out)"
| "run_scenarios (Suc n) ids body out = do {
     let (scenario_id, ids') = next_id ids;
     scenario \<leftarrow> body scenario_id;
     case scenario of
       Inl e \<Rightarrow> State_Monad.return (Inl e)
     | Inr rest \<Rightarrow> run_scenarios n ids' body (append_output out rest)
   }"

definition with_pair ::
    "'g random_library \<Rightarrow> sim_registry \<Rightarrow> (sim_account \<Rightarrow> sim_account \<Rightarrow> ('g, scenario_output) generator)
     \<Rightarrow> ('g, string + scenario_output) generator" where
  "with_pair lib registry body = do {
     pair \<leftarrow> random_linked_pair lib registry;
     case pair of
       Inl e \<Rightarrow> State_Monad.return (Inl e)
     | Inr (a, b) \<Rightarrow> do { out \<leftarrow> body a b; State_Monad.return (Inr out) }
   }"

definition with_account ::
    "'g random_library \<Rightarrow> sim_registry \<Rightarrow> (sim_account \<Rightarrow> ('g, scenario_output) generator)
     \<Rightarrow> ('g, string + scenario_output) generator" where
  "with_account lib registry body = do {
     account \<leftarrow> random_independent lib registry;
     case account of
       Inl e \<Rightarrow> State_Monad.return (Inl e)
     | Inr a \<Rightarrow> do { out \<leftarrow> body a; State_Monad.return (Inr out) }
   }"

definition random_anchor :: "'g random_library \<Rightarrow> simulator_config \<Rightarrow> ('g, int) generator" where
  "random_anchor lib config =
     (let session_end_ns = sg_session_start_ns config + sg_session_duration_ns config;
          anchor_hi = max (sg_session_start_ns config) (session_end_ns - scenario_margin_ns)
      in uniform_int64 lib (sg_session_start_ns config) anchor_hi)"

definition instrument_count :: "simulator_config \<Rightarrow> int" where
  "instrument_count config =
     sg_num_equity_instruments config + sg_num_fx_instruments config + sg_num_fixed_income_instruments config"

definition wash_trade_body ::
    "'g random_library \<Rightarrow> (string \<Rightarrow> u64) \<Rightarrow> simulator_config \<Rightarrow> instrument list \<Rightarrow> sim_registry \<Rightarrow> string
     \<Rightarrow> ('g, string + scenario_output) generator" where
  "wash_trade_body lib hash config instruments registry scenario_id = do {
     i \<leftarrow> pick_random lib instruments;
     with_pair lib registry (\<lambda>a b. do {
       anchor \<leftarrow> random_anchor lib config;
       generate_wash_trade_scenario lib scenario_id i a b (reference_price hash i) anchor
         (ap_severity (sg_wash_trade config)) sim_venue
     })
   }"

definition spoofing_layering_body ::
    "'g random_library \<Rightarrow> (string \<Rightarrow> u64) \<Rightarrow> simulator_config \<Rightarrow> instrument list \<Rightarrow> sim_registry \<Rightarrow> string
     \<Rightarrow> ('g, string + scenario_output) generator" where
  "spoofing_layering_body lib hash config instruments registry scenario_id = do {
     i \<leftarrow> pick_random lib instruments;
     with_account lib registry (\<lambda>a. do {
       anchor \<leftarrow> random_anchor lib config;
       generate_spoofing_layering_scenario lib scenario_id i a (reference_price hash i) anchor
         (ap_severity (sg_spoofing_layering config)) sim_venue
     })
   }"

definition marking_the_close_body ::
    "'g random_library \<Rightarrow> (string \<Rightarrow> u64) \<Rightarrow> simulator_config \<Rightarrow> instrument list \<Rightarrow> sim_registry \<Rightarrow> string
     \<Rightarrow> ('g, string + scenario_output) generator" where
  "marking_the_close_body lib hash config instruments registry scenario_id = do {
     i \<leftarrow> pick_random lib instruments;
     with_pair lib registry (\<lambda>a b.
       generate_marking_the_close_scenario lib scenario_id i [a, b] (reference_price hash i)
         (ap_severity (sg_marking_the_close config)) (sg_baseline_orders_per_second config) (instrument_count config)
         sim_venue)
   }"

definition front_running_body ::
    "'g random_library \<Rightarrow> (string \<Rightarrow> u64) \<Rightarrow> simulator_config \<Rightarrow> instrument list \<Rightarrow> sim_registry \<Rightarrow> string
     \<Rightarrow> ('g, string + scenario_output) generator" where
  "front_running_body lib hash config instruments registry scenario_id = do {
     i \<leftarrow> pick_random lib instruments;
     with_pair lib registry (\<lambda>a b. do {
       anchor \<leftarrow> random_anchor lib config;
       generate_front_running_scenario lib scenario_id i a b (reference_price hash i) anchor
         (ap_severity (sg_front_running config)) sim_venue
     })
   }"

text \<open>The four loops in order.\<close>

fun run_kinds ::
    "(int \<times> string \<times> (string \<Rightarrow> ('g, string + scenario_output) generator)) list \<Rightarrow> scenario_output
     \<Rightarrow> ('g, string + scenario_output) generator" where
  "run_kinds [] out = State_Monad.return (Inr out)"
| "run_kinds ((instances, id_prefix, body) # kinds) out = do {
     done_so_far \<leftarrow> run_scenarios (nat instances) (new_id_generator id_prefix) body out;
     case done_so_far of
       Inl e \<Rightarrow> State_Monad.return (Inl e)
     | Inr out' \<Rightarrow> run_kinds kinds out'
   }"

definition scenario_kinds ::
    "'g random_library \<Rightarrow> (string \<Rightarrow> u64) \<Rightarrow> simulator_config \<Rightarrow> instrument list \<Rightarrow> sim_registry
     \<Rightarrow> (int \<times> string \<times> (string \<Rightarrow> ('g, string + scenario_output) generator)) list" where
  "scenario_kinds lib hash config instruments registry =
     [(ap_count (sg_wash_trade config), ''SCN-WASH'', wash_trade_body lib hash config instruments registry),
      (ap_count (sg_spoofing_layering config), ''SCN-SPOOF'', spoofing_layering_body lib hash config instruments registry),
      (ap_count (sg_marking_the_close config), ''SCN-MTC'', marking_the_close_body lib hash config instruments registry),
      (ap_count (sg_front_running config), ''SCN-FR'', front_running_body lib hash config instruments registry)]"

unbundle bit_operations_syntax

section \<open>The session\<close>

definition registry_of :: "simulator_config \<Rightarrow> sim_registry" where
  "registry_of config = build_sim_registry (sg_num_independent_accounts config) (sg_num_linked_account_pairs config)"

definition instruments_of :: "simulator_config \<Rightarrow> instrument list" where
  "instruments_of config = build_instrument_universe (sg_num_equity_instruments config) (sg_num_fx_instruments config)
     (sg_num_fixed_income_instruments config) (sg_session_start_ns config + sg_session_duration_ns config)"

text \<open>\<open>engine\<close> is the constructor of \<open>std::mt19937_64\<close> from a seed.\<close>

definition generate_simulation ::
    "'g random_library \<Rightarrow> (string \<Rightarrow> u64) \<Rightarrow> (u64 \<Rightarrow> 'g) \<Rightarrow> simulator_config \<Rightarrow> (string + simulation_output) option" where
  "generate_simulation lib hash engine config =
     (let session_end_ns = sg_session_start_ns config + sg_session_duration_ns config;
          instruments = instruments_of config;
          registry = registry_of config;
          s = \<lparr>ss_rng = engine (sg_random_seed config), ss_order_ids = new_id_generator ''ORD'',
               ss_trade_ids = new_id_generator ''EXE''\<rparr>
      in case generate_baseline_flow lib hash (sg_baseline_orders_per_second config) (sg_session_start_ns config)
                session_end_ns instruments (sr_accounts registry) s of
           None \<Rightarrow> None
         | Some (baseline, s') \<Rightarrow>
             let abuse_rng = engine (sg_random_seed config XOR 0x9E3779B97F4A7C15);
                 (result, s'') = run_state (run_kinds (scenario_kinds lib hash config instruments registry) baseline)
                   (s'\<lparr>ss_rng := abuse_rng\<rparr>)
             in Some (map_sum id (\<lambda>out.
                  \<lparr>sim_instruments = instruments, sim_accounts = sr_accounts registry,
                   sim_orders = sort_key so_timestamp_ns (sc_orders out),
                   sim_executions = sort_key sx_timestamp_ns (sc_executions out)\<rparr>) result))"

section \<open>The session meets what its generators promise\<close>

definition succeeds :: "('g sim_state \<Rightarrow> scenario_output \<Rightarrow> 'g sim_state \<Rightarrow> bool) \<Rightarrow> 'g sim_state
     \<Rightarrow> string + scenario_output \<Rightarrow> 'g sim_state \<Rightarrow> bool" where
  "succeeds met s result s' \<longleftrightarrow> (\<exists>out. result = Inr out \<and> met s out s')"

lemma succeeds_Inr [simp]: "succeeds met s (Inr out) s' = met s out s'"
  by (simp add: succeeds_def)

lemma wp_Inr: "wp m (met s0) s \<Longrightarrow> wp (do { out \<leftarrow> m; State_Monad.return (Inr out) }) (succeeds met s0) s"
  by (simp add: wp_def split_beta)

context output_contract
begin

lemma succeeds_draw: "succeeds met (s\<lparr>ss_rng := g\<rparr>) = succeeds met s"
  by (simp add: succeeds_def met_draw(1) fun_eq_iff)

lemma run_scenarios_met:
  assumes "\<And>scenario_id s. start s \<Longrightarrow> wp (body scenario_id) (succeeds met s) s" and "start s0" and "met s0 out s"
  shows "wp (run_scenarios n ids body out) (succeeds met s0) s"
  using assms(3)
proof (induction n arbitrary: ids out s)
  case (Suc n)
  obtain scenario_id ids' where ids: "next_id ids = (scenario_id, ids')" by fastforce
  from assms(1) [OF met_start [OF Suc.prems], of scenario_id] show ?case
    unfolding run_scenarios.simps ids Let_def prod.case wp_bind_eq
  proof (rule wp_mono)
    fix result s'
    assume "succeeds met s result s'"
    then obtain rest where rest: "result = Inr rest" "met s rest s'" by (auto simp: succeeds_def)
    from Suc.IH [OF met_append [OF assms(2) Suc.prems rest(2)]]
    show "wp (case result of Inl e \<Rightarrow> State_Monad.return (Inl e)
        | Inr rest \<Rightarrow> run_scenarios n ids' body (append_output out rest)) (succeeds met s0) s'"
      by (simp add: rest(1))
  qed
qed (simp add: wp_return)

lemma run_kinds_met:
  assumes "\<And>instances id_prefix body scenario_id s. (instances, id_prefix, body) \<in> set kinds \<Longrightarrow> start s \<Longrightarrow>
      wp (body scenario_id) (succeeds met s) s"
    and "start s0" and "met s0 out s"
  shows "wp (run_kinds kinds out) (succeeds met s0) s"
  using assms(1,3)
proof (induction kinds arbitrary: out s)
  case (Cons kind kinds)
  obtain instances id_prefix body where kind: "kind = (instances, id_prefix, body)" by (cases kind)
  have "wp (run_scenarios (nat instances) (new_id_generator id_prefix) body out) (succeeds met s0) s"
    by (rule run_scenarios_met [OF _ assms(2) Cons.prems(2)])
      (rule Cons.prems(1) [of instances id_prefix], simp_all add: kind)
  then show ?case
    unfolding kind run_kinds.simps wp_bind_eq
  proof (rule wp_mono)
    fix result s'
    assume "succeeds met s0 result s'"
    then obtain out' where out: "result = Inr out'" "met s0 out' s'" by (auto simp: succeeds_def)
    have "wp (run_kinds kinds out') (succeeds met s0) s'"
      by (rule Cons.IH [OF _ out(2)]) (rule Cons.prems(1), rule list.set_intros(2))
    with out(1) show "wp (case result of Inl e \<Rightarrow> State_Monad.return (Inl e) | Inr out' \<Rightarrow> run_kinds kinds out')
        (succeeds met s0) s'"
      by simp
  qed
qed (simp add: wp_return)

lemma with_pair_met:
  assumes "lawful_draws lib" and "0 < m" and "start s" and "registry = build_sim_registry n m"
    and "\<And>a b s. start s \<Longrightarrow> a \<in> set (sr_accounts registry) \<Longrightarrow> b \<in> set (sr_accounts registry) \<Longrightarrow>
      wp (body a b) (met s) s"
  shows "wp (with_pair lib registry body) (succeeds met s) s"
proof -
  have "sr_accounts registry ! fst pair \<in> set (sr_accounts registry)" "sr_accounts registry ! snd pair \<in> set (sr_accounts registry)"
    if "pair \<in> set (sr_linked_pair_indices registry)" for pair
    using that by (auto simp: assms(4) build_sim_registry_eq)
  then have "wp (body (sr_accounts registry ! fst pair) (sr_accounts registry ! snd pair)) (met s) (s\<lparr>ss_rng := g\<rparr>)"
    if "pair \<in> set (sr_linked_pair_indices registry)" for pair g
    using that by (intro then_draw assms(3,5))
  then have "wp (case Inr (sr_accounts registry ! fst pair, sr_accounts registry ! snd pair) of
        Inl e \<Rightarrow> State_Monad.return (Inl e)
      | Inr (a, b) \<Rightarrow> do { out \<leftarrow> body a b; State_Monad.return (Inr out) }) (succeeds met s) (s\<lparr>ss_rng := g\<rparr>)"
    if "pair \<in> set (sr_linked_pair_indices registry)" for pair g
    unfolding sum.case prod.case using that by (intro wp_Inr)
  moreover have "sr_linked_pair_indices registry \<noteq> []" using assms(2) by (simp add: assms(4) build_sim_registry_eq)
  ultimately show ?thesis
    unfolding with_pair_def random_linked_pair_def by (simp only: if_False) (intro wp_bind wp_pick_random wp_return assms(1))
qed

lemma with_account_met:
  assumes "lawful_draws lib" and "0 < n" and "start s" and "registry = build_sim_registry n m"
    and "\<And>a s. start s \<Longrightarrow> a \<in> set (sr_accounts registry) \<Longrightarrow> wp (body a) (met s) s"
  shows "wp (with_account lib registry body) (succeeds met s) s"
proof -
  have "sr_accounts registry ! i \<in> set (sr_accounts registry)" if "i \<in> set (sr_independent_indices registry)" for i
    using that by (auto simp: assms(4) build_sim_registry_eq)
  then have "wp (body (sr_accounts registry ! i)) (met s) (s\<lparr>ss_rng := g\<rparr>)"
    if "i \<in> set (sr_independent_indices registry)" for i g
    using that by (intro then_draw assms(3,5))
  then have "wp (case Inr (sr_accounts registry ! i) of Inl e \<Rightarrow> State_Monad.return (Inl e)
      | Inr a \<Rightarrow> do { out \<leftarrow> body a; State_Monad.return (Inr out) }) (succeeds met s) (s\<lparr>ss_rng := g\<rparr>)"
    if "i \<in> set (sr_independent_indices registry)" for i g
    unfolding sum.case using that by (intro wp_Inr)
  moreover have "sr_independent_indices registry \<noteq> []" using assms(2) by (simp add: assms(4) build_sim_registry_eq)
  ultimately show ?thesis
    unfolding with_account_def random_independent_def by (simp only: if_False) (intro wp_bind wp_pick_random wp_return assms(1))
qed

lemma pick_met:
  assumes "lawful_draws lib" and "choices \<noteq> []" and "start s"
    and "\<And>x s. start s \<Longrightarrow> x \<in> set choices \<Longrightarrow> wp (body x) (succeeds met s) s"
  shows "wp (do { x \<leftarrow> pick_random lib choices; body x }) (succeeds met s) s"
proof (intro wp_bind wp_pick_random assms(1,2))
  show "wp (body x) (succeeds met s) (s\<lparr>ss_rng := g\<rparr>)" if "x \<in> set choices" for x g
    using assms(4) [of "s\<lparr>ss_rng := g\<rparr>" x] assms(3) that by (simp add: succeeds_draw start_draw)
qed

lemma anchor_met:
  assumes "lawful_draws lib" and "start s" and "\<And>x s. start s \<Longrightarrow> wp (body x) (met s) s"
  shows "wp (do { x \<leftarrow> random_anchor lib config; body x }) (met s) s"
  unfolding random_anchor_def Let_def by (intro wp_bind wp_uniform_int64 then_draw assms)

text \<open>The session, from the flow and the bodies of the four loops.\<close>

lemma session_met:
  assumes "generate_baseline_flow lib hash rate start_ns end_ns instruments accounts s = Some (baseline, s')"
    and "run_state (run_kinds kinds baseline) (s'\<lparr>ss_rng := g\<rparr>) = (result, s'')"
    and "lawful_draws lib" and "start s"
    and "\<And>t mids s. instruments \<noteq> [] \<Longrightarrow> accounts \<noteq> [] \<Longrightarrow> start s \<Longrightarrow>
      wp (baseline_arrival lib instruments accounts t mids) (\<lambda>(mids', out). met s out) s"
    and "\<And>instances id_prefix body scenario_id s. (instances, id_prefix, body) \<in> set kinds \<Longrightarrow> start s \<Longrightarrow>
      wp (body scenario_id) (succeeds met s) s"
  shows "\<exists>out. result = Inr out \<and> met s out s''"
proof -
  have "met s baseline s'" using baseline_flow_met [OF assms(1,3,4,5)] by simp
  then have flow: "met s baseline (s'\<lparr>ss_rng := g\<rparr>)" by (simp add: met_draw(2))
  have "wp (run_kinds kinds baseline) (succeeds met s) (s'\<lparr>ss_rng := g\<rparr>)"
    by (rule run_kinds_met [OF _ assms(4) flow]) (rule assms(6))
  then show ?thesis by (simp add: wp_def assms(2) succeeds_def)
qed

end

text \<open>A configuration with which every scenario finds its instrument and its accounts.\<close>

definition well_configured :: "simulator_config \<Rightarrow> bool" where
  "well_configured config \<longleftrightarrow>
     0 < max (sg_num_equity_instruments config) (max (sg_num_fx_instruments config) (sg_num_fixed_income_instruments config)) \<and>
     0 < sg_num_independent_accounts config \<and> 0 < sg_num_linked_account_pairs config \<and>
     (\<forall>severity \<in> ap_severity ` {sg_wash_trade config, sg_spoofing_layering config}. 0 \<le> severity \<and> severity \<le> 1)"

lemma well_configuredD:
  assumes "well_configured config"
  shows "0 < sg_num_independent_accounts config" and "0 < sg_num_linked_account_pairs config"
    and "0 \<le> ap_severity (sg_wash_trade config)" and "ap_severity (sg_wash_trade config) \<le> 1"
    and "0 \<le> ap_severity (sg_spoofing_layering config)" and "ap_severity (sg_spoofing_layering config) \<le> 1"
  using assms by (simp_all add: well_configured_def)

lemma spoofing_step:
  assumes "lawful_draws lib" and "same_prefix p s" and "0 \<le> severity" and "severity \<le> 1"
  shows "wp (generate_spoofing_layering_scenario lib scenario_id i account base_price anchor severity venue) (tidy_step p s) s"
  by (rule wp_mono [OF spoofing_tidy [OF assms]]) (erule conjunct1)

lemma scenario_kinds_tidy:
  assumes "lawful_draws lib" and "well_configured config" and "instruments \<noteq> []" and "same_prefix p s"
    and "(instances, id_prefix, body) \<in> set (scenario_kinds lib hash config instruments (registry_of config))"
  shows "wp (body scenario_id) (succeeds (tidy_step p) s) s"
proof -
  note conf = well_configuredD [OF assms(2)]
  note pair = tidy_output.pick_met [OF assms(1,3,4) tidy_output.with_pair_met [OF assms(1) conf(2) _ registry_of_def]]
    and account = tidy_output.pick_met [OF assms(1,3,4) tidy_output.with_account_met [OF assms(1) conf(1) _ registry_of_def]]
    and anchor = tidy_output.anchor_met [OF assms(1)]
  have "wp (wash_trade_body lib hash config instruments (registry_of config) scenario_id) (succeeds (tidy_step p) s) s"
    unfolding wash_trade_body_def by (intro pair anchor wash_trade_tidy assms(1) conf)
  moreover have "wp (spoofing_layering_body lib hash config instruments (registry_of config) scenario_id) (succeeds (tidy_step p) s) s"
    unfolding spoofing_layering_body_def by (intro account anchor spoofing_step assms(1) conf)
  moreover have "wp (marking_the_close_body lib hash config instruments (registry_of config) scenario_id) (succeeds (tidy_step p) s) s"
    unfolding marking_the_close_body_def by (intro pair marking_tidy assms(1))
  moreover have "wp (front_running_body lib hash config instruments (registry_of config) scenario_id) (succeeds (tidy_step p) s) s"
    unfolding front_running_body_def by (intro pair anchor front_running_tidy assms(1))
  ultimately show ?thesis using assms(5) by (auto simp: scenario_kinds_def)
qed

text \<open>The names a session may use.\<close>

definition account_names :: "simulator_config \<Rightarrow> string set" where
  "account_names config = a_account_id ` set (sr_accounts (registry_of config))"

definition instrument_names :: "simulator_config \<Rightarrow> string set" where
  "instrument_names config = i_instrument_id ` set (instruments_of config)"

lemma scenario_kinds_valid:
  fixes s :: "'g sim_state"
  assumes "lawful_draws lib" and "well_configured config" and "instruments_of config \<noteq> []"
    and "(instances, id_prefix, body) \<in> set (scenario_kinds lib hash config (instruments_of config) (registry_of config))"
  shows "wp (body scenario_id) (succeeds (\<lambda>s out s'. valid_output (account_names config) (instrument_names config) sim_venue out) s) s"
    (is "wp _ ?Q s")
proof -
  note conf = well_configuredD [OF assms(2)]
  note pair = valid_output.pick_met [OF assms(1,3) TrueI valid_output.with_pair_met [OF assms(1) conf(2) TrueI registry_of_def]]
    and account = valid_output.pick_met [OF assms(1,3) TrueI valid_output.with_account_met [OF assms(1) conf(1) TrueI registry_of_def]]
    and anchor = valid_output.anchor_met [OF assms(1) TrueI]
  have i: "i_instrument_id i \<in> instrument_names config" if "i \<in> set (instruments_of config)" for i
    using that by (simp add: instrument_names_def)
  have a: "a_account_id a \<in> account_names config" if "a \<in> set (sr_accounts (registry_of config))" for a
    using that by (simp add: account_names_def)
  have "wp (wash_trade_body lib hash config (instruments_of config) (registry_of config) scenario_id) ?Q s"
    unfolding wash_trade_body_def by (intro pair anchor wash_trade_valid assms(1) i a)
  moreover have "wp (spoofing_layering_body lib hash config (instruments_of config) (registry_of config) scenario_id) ?Q s"
    unfolding spoofing_layering_body_def by (intro account anchor spoofing_valid assms(1) conf i a)
  moreover have "wp (marking_the_close_body lib hash config (instruments_of config) (registry_of config) scenario_id) ?Q s"
    unfolding marking_the_close_body_def by (intro pair marking_valid assms(1) i) (use a in auto)
  moreover have "wp (front_running_body lib hash config (instruments_of config) (registry_of config) scenario_id) ?Q s"
    unfolding front_running_body_def by (intro pair anchor front_running_valid assms(1) i a)
  ultimately show ?thesis using assms(4) by (auto simp: scenario_kinds_def)
qed

section \<open>The result\<close>

lemma universe_not_empty: "well_configured config \<Longrightarrow> instruments_of config \<noteq> []"
  by (auto simp: well_configured_def instruments_of_def build_instrument_universe_def equity_symbols_def fx_symbols_def
      fixed_income_symbols_def)

definition first_state :: "(u64 \<Rightarrow> 'g) \<Rightarrow> simulator_config \<Rightarrow> 'g sim_state" where
  "first_state engine config = \<lparr>ss_rng = engine (sg_random_seed config), ss_order_ids = new_id_generator ''ORD'',
     ss_trade_ids = new_id_generator ''EXE''\<rparr>"

lemma first_state [simp]: "same_prefix ''ORD'' (first_state engine config)" "order_counter (first_state engine config) = 1"
  by (simp_all add: first_state_def same_prefix_def order_counter_def new_id_generator_def)

definition session_of :: "simulator_config \<Rightarrow> scenario_output \<Rightarrow> simulation_output" where
  "session_of config out =
     \<lparr>sim_instruments = instruments_of config, sim_accounts = sr_accounts (registry_of config),
      sim_orders = sort_key so_timestamp_ns (sc_orders out), sim_executions = sort_key sx_timestamp_ns (sc_executions out)\<rparr>"

text \<open>A session is that of an output which meets every contract the generators meet.\<close>

lemma generate_simulation_session:
  assumes "lawful_draws lib" and "well_configured config"
    and "generate_baseline_flow lib hash (sg_baseline_orders_per_second config) (sg_session_start_ns config)
      (sg_session_start_ns config + sg_session_duration_ns config) (instruments_of config)
      (sr_accounts (registry_of config)) (first_state engine config) = Some flow"
  shows "\<exists>out s''. generate_simulation lib hash engine config = Some (Inr (session_of config out)) \<and>
    tidy_step ''ORD'' (first_state engine config) out s'' \<and>
    valid_output (account_names config) (instrument_names config) sim_venue out"
proof -
  note ready = universe_not_empty [OF assms(2)]
  obtain baseline s' where flow: "flow = (baseline, s')" by fastforce
  obtain result s'' where run: "run_state (run_kinds (scenario_kinds lib hash config (instruments_of config) (registry_of config)) baseline)
      (s'\<lparr>ss_rng := engine (sg_random_seed config XOR 0x9E3779B97F4A7C15)\<rparr>) = (result, s'')" by fastforce
  have "\<exists>out. result = Inr out \<and> tidy_step ''ORD'' (first_state engine config) out s''"
    by (rule tidy_output.session_met [OF assms(3) [unfolded flow] run assms(1) first_state(1)])
      (rule baseline_arrival_tidy [OF assms(1)] scenario_kinds_tidy [OF assms(1,2) ready], assumption+)+
  then obtain out where out: "result = Inr out" "tidy_step ''ORD'' (first_state engine config) out s''" by blast
  have "\<exists>out. result = Inr out \<and> valid_output (account_names config) (instrument_names config) sim_venue out"
    by (rule valid_output.session_met [OF assms(3) [unfolded flow] run assms(1) TrueI])
      ((rule baseline_arrival_valid [OF assms(1)], assumption, assumption, simp_all add: account_names_def instrument_names_def) [1],
       rule scenario_kinds_valid [OF assms(1,2) ready], assumption)
  then have "valid_output (account_names config) (instrument_names config) sim_venue out" by (auto simp: out(1))
  moreover have "generate_simulation lib hash engine config = Some (Inr (session_of config out))"
    unfolding generate_simulation_def Let_def first_state_def [symmetric] assms(3) flow option.case prod.case run out(1)
      map_sum.simps session_of_def ..
  ultimately show ?thesis using out(2) by blast
qed

lemma session_tidy:
  assumes "tidy_step ''ORD'' (first_state engine config) out s"
  shows "tidy ''ORD'' 1 (order_counter s) (sim_orders (session_of config out)) (sim_executions (session_of config out))"
  unfolding session_of_def simulation_output.select_convs
  by (rule tidy_perm [OF assms [unfolded tidy_step_def first_state(2), THEN conjunct2, THEN conjunct2]]) simp_all

end
