(* ===== verification/Clean_Replay.thy ===== *)
theory Clean_Replay
  imports Replay_Properties Simulator
begin

text \<open>
  The simulator against the replay.  A generated session, fed through the pipeline, has no event that a book
  refuses: new orders have different ids, an execution follows its order on the same book for no
  more than its quantity and nothing else has happened to the order.  The simulator's relation
  between accounts is that of the detectors.
\<close>

section \<open>Streams that the books accept\<close>

fun is_new :: "event \<Rightarrow> bool" where
  "is_new (OrderEvent order) = (o_status order = KNew)"
| "is_new (ExecutionEvent x) = False"

fun is_fill :: "event \<Rightarrow> bool" where
  "is_fill (OrderEvent order) = False"
| "is_fill (ExecutionEvent x) = True"

fun order_id_of :: "event \<Rightarrow> string" where
  "order_id_of (OrderEvent order) = o_order_id order"
| "order_id_of (ExecutionEvent x) = x_order_id x"

definition fills_of :: "event list \<Rightarrow> string set" where
  "fills_of es = order_id_of ` set (filter is_fill es)"

definition opens :: "event list \<Rightarrow> execution \<Rightarrow> order \<Rightarrow> bool" where
  "opens es x order \<longleftrightarrow> o_status order = KNew \<and> o_order_id order = x_order_id x \<and>
     o_instrument_id order = x_instrument_id x \<and> x_qty x \<le> o_qty order \<and>
     subseq [OrderEvent order, ExecutionEvent x] es"

definition clean_stream :: "event list \<Rightarrow> bool" where
  "clean_stream es \<longleftrightarrow>
     distinct (map order_id_of (filter is_new es)) \<and> distinct (map order_id_of (filter is_fill es)) \<and>
     (\<forall>order. OrderEvent order \<in> set es \<longrightarrow> o_status order \<noteq> KReplaced \<and>
        (o_status order = KCancelled \<longrightarrow> o_orig_order_id order \<notin> fills_of es)) \<and>
     (\<forall>x. ExecutionEvent x \<in> set es \<longrightarrow> (\<exists>order. opens es x order))"

text \<open>The list of resting orders that the events of an instrument leave.\<close>

definition resting_list :: "event list \<Rightarrow> string \<Rightarrow> spec_order list" where
  "resting_list es i = sb_orders (spec_run (filter (\<lambda>e. instrument_id_of e = i) es) (spec_empty i))"

definition no_replacement :: "event \<Rightarrow> bool" where
  "no_replacement e \<longleftrightarrow> (\<forall>order. e = OrderEvent order \<longrightarrow> o_status order \<noteq> KReplaced)"

lemma spec_run_snoc: "spec_run (es @ [e]) S = fst (spec_apply e (spec_run es S))"
  by (simp add: spec_run_def)

lemma spec_apply_instrument [simp]: "sb_instrument (fst (spec_apply e S)) = sb_instrument S"
  by (simp add: spec_apply_def split_beta Let_def)

lemma spec_run_instrument [simp]: "sb_instrument (spec_run es S) = sb_instrument S"
  by (induction es rule: rev_induct) (simp_all add: spec_run_snoc, simp add: spec_run_def)

lemma resting_list_Nil [simp]: "resting_list [] i = []"
  by (simp add: resting_list_def spec_run_def spec_empty_def)

lemma resting_list_snoc:
  "resting_list (es @ [e]) i =
     (if instrument_id_of e = i then fst (spec_orders_step e (resting_list es i)) else resting_list es i)"
  by (simp add: resting_list_def spec_run_snoc spec_apply_def spec_empty_def split_beta Let_def)

lemma own_book_refines:
  assumes "list_all no_replacement es"
  shows "refines (own_book es i) (spec_run (filter (\<lambda>e. instrument_id_of e = i) es) (spec_empty i))"
proof -
  have fresh: "rename_fresh e S" if "no_replacement e" for e S
    using that by (cases e) (simp_all add: no_replacement_def)
  have "renames_fresh xs S" if "list_all no_replacement xs" for xs S
    using that fresh by (induction xs arbitrary: S) simp_all
  then have "renames_fresh (filter (\<lambda>e. instrument_id_of e = i) es) (spec_empty i)"
    using assms by (simp add: list_all_iff)
  then show ?thesis unfolding own_book_def by (rule refines_run [OF refines_empty])
qed

lemma accepts_resting:
  assumes "list_all no_replacement (es @ [e])"
  shows "accepts es e \<longleftrightarrow> snd (spec_orders_step e (resting_list es (instrument_id_of e))) = None"
proof -
  let ?S = "spec_run (filter (\<lambda>x. instrument_id_of x = instrument_id_of e) es) (spec_empty (instrument_id_of e))"
  have "rename_fresh e ?S" using assms by (cases e) (simp_all add: no_replacement_def)
  from refines_step(2) [OF own_book_refines [of es "instrument_id_of e"] this] show ?thesis
    using assms by (simp add: accepts_def spec_apply_def resting_list_def spec_empty_def split_beta Let_def)
qed

section \<open>What rests\<close>

lemma spec_find_remove: "i \<noteq> j \<Longrightarrow> spec_find j (spec_remove i L) = spec_find j L"
  by (induction L) (auto simp: spec_find_def spec_remove_def)

lemma spec_find_update_qty: "i \<noteq> j \<Longrightarrow> spec_find j (spec_update i (\<lambda>r. r\<lparr>spec_order.so_qty := f r\<rparr>) L) = spec_find j L"
  by (induction L) (auto simp: spec_find_def spec_update_def)

lemma spec_find_snoc: "spec_find j (L @ [r]) =
    (case spec_find j L of None \<Rightarrow> if so_id r = j then Some r else None | Some r' \<Rightarrow> Some r')"
  by (induction L) (auto simp: spec_find_def)

lemma ids_update [simp]: "(\<And>r. so_id (g r) = so_id r) \<Longrightarrow> ids (spec_update i g L) = ids L"
  unfolding spec_update_def by (induction L) simp_all

lemma ids_step:
  assumes "no_replacement e"
  shows "ids (fst (spec_orders_step e L)) \<subseteq> ids L \<union> (if is_new e then {order_id_of e} else {})"
  using assms
  by (cases e) (auto simp: no_replacement_def spec_new_def spec_fill_def spec_remove_def spec_entry_def
      split: order_status.split option.split)

lemma resting_ids:
  assumes "list_all no_replacement es"
  shows "ids (resting_list es i) \<subseteq> order_id_of ` set (filter is_new es)"
  using assms
proof (induction es rule: rev_induct)
  case (snoc e es)
  then have "ids (resting_list (es @ [e]) i) \<subseteq> ids (resting_list es i) \<union> (if is_new e then {order_id_of e} else {})"
    using ids_step [of e "resting_list es i"] by (auto simp: resting_list_snoc)
  moreover have "ids (resting_list es i) \<subseteq> order_id_of ` set (filter is_new es)" using snoc by simp
  ultimately show ?case by (cases "is_new e") auto
qed simp

text \<open>An order rests as it came in until it is cancelled or filled.\<close>

definition untouched :: "string \<Rightarrow> event \<Rightarrow> bool" where
  "untouched oid e \<longleftrightarrow> (case e of
       OrderEvent order \<Rightarrow> o_status order = KCancelled \<longrightarrow> o_orig_order_id order \<noteq> oid
     | ExecutionEvent x \<Rightarrow> x_order_id x \<noteq> oid)"

lemma find_step:
  assumes "no_replacement e" and "untouched oid e" and "is_new e \<longrightarrow> order_id_of e \<noteq> oid"
  shows "spec_find oid (fst (spec_orders_step e L)) = spec_find oid L"
  using assms
  by (cases e) (auto simp: no_replacement_def untouched_def spec_new_def spec_fill_def spec_find_remove
      spec_find_update_qty spec_find_snoc spec_entry_def split: order_status.split option.split)

lemma untouched_rests:
  assumes "list_all no_replacement es" and "distinct (map order_id_of (filter is_new es))"
    and "OrderEvent order \<in> set es" and "o_status order = KNew" and "list_all (untouched (o_order_id order)) es"
  shows "spec_find (o_order_id order) (resting_list es (o_instrument_id order)) = Some (spec_entry order)"
  using assms
proof (induction es rule: rev_induct)
  case (snoc e es)
  note pre = snoc.prems
  show ?case
  proof (cases "OrderEvent order \<in> set es")
    case True
    have "order_id_of e \<noteq> o_order_id order" if "is_new e"
    proof
      assume "order_id_of e = o_order_id order"
      moreover have "o_order_id order \<in> order_id_of ` set (filter is_new es)"
        using True pre(4) by (intro image_eqI [of _ _ "OrderEvent order"]) simp_all
      ultimately show False using pre(2) that by simp
    qed
    then have "spec_find (o_order_id order) (fst (spec_orders_step e L)) = spec_find (o_order_id order) L" for L
      using pre(1,5) by (intro find_step) simp_all
    moreover have "spec_find (o_order_id order) (resting_list es (o_instrument_id order)) = Some (spec_entry order)"
      using pre True by (intro snoc.IH) simp_all
    ultimately show ?thesis by (simp add: resting_list_snoc)
  next
    case False
    then have e: "e = OrderEvent order" using pre(3) by auto
    have "o_order_id order \<notin> order_id_of ` set (filter is_new es)" using pre(2,4) by (simp add: e)
    then have "o_order_id order \<notin> ids (resting_list es (o_instrument_id order))"
      using resting_ids [of es] pre(1) by auto
    then show ?thesis
      by (simp add: resting_list_snoc e pre(4) spec_new_def spec_find_snoc spec_find_None [THEN iffD2])
        (simp add: spec_entry_def)
  qed
qed simp

lemma subseq_pair_before: "subseq [a, b] (past @ b # rest) \<Longrightarrow> a \<noteq> b \<Longrightarrow> b \<notin> set rest \<Longrightarrow> a \<in> set past"
proof (induction past)
  case Nil
  then have "subseq [a, b] rest" by simp
  then obtain c where "c \<in> set rest" "b = c" by (rule list_emb_set [of "(=)" _ _ b]) simp_all
  then show ?case using Nil.prems(3) by simp
next
  case (Cons y past)
  then show ?case by (cases "y = a") simp_all
qed

lemma clean_stream_accepts:
  assumes "clean_stream es" and "es = past @ e # rest"
  shows "accepts past e"
proof -
  note clean = assms(1) [unfolded clean_stream_def]
  have kept: "list_all no_replacement (past @ [e])"
    using clean by (auto simp: assms(2) list_all_iff no_replacement_def)
  note verdict = accepts_resting [OF kept]
  show ?thesis
  proof (cases e)
    case (OrderEvent order)
    have "o_order_id order \<notin> ids (resting_list past i)" if "o_status order = KNew" for i
    proof -
      have "o_order_id order \<notin> order_id_of ` set (filter is_new past)"
        using clean that by (auto simp: assms(2) OrderEvent)
      then show ?thesis using resting_ids [of past i] kept by auto
    qed
    then show ?thesis
      using kept by (cases "o_status order") (simp_all add: verdict [unfolded OrderEvent] OrderEvent spec_new_def no_replacement_def)
  next
    case (ExecutionEvent x)
    obtain order where order: "opens es x order" using clean by (auto simp: assms(2) ExecutionEvent)
    have fill_id: "x_order_id x' \<in> order_id_of ` set (filter is_fill xs)" if "ExecutionEvent x' \<in> set xs" for x' xs
      using that by (intro image_eqI [of _ _ "ExecutionEvent x'"]) simp_all
    have other: "x_order_id x \<notin> order_id_of ` set (filter is_fill (past @ rest))"
      using clean by (auto simp: assms(2) ExecutionEvent)
    then have once: "ExecutionEvent x \<notin> set rest" using fill_id [of x rest] by auto
    have here: "OrderEvent order \<in> set past"
      using order by (intro subseq_pair_before [OF _ _ once]) (simp_all add: opens_def assms(2) ExecutionEvent)
    have "x_order_id x \<in> fills_of es"
      unfolding fills_of_def by (rule fill_id) (simp add: assms(2) ExecutionEvent)
    then have "untouched (x_order_id x) (OrderEvent o')" if "OrderEvent o' \<in> set past" for o'
      using that clean by (auto simp: untouched_def assms(2))
    moreover have "untouched (x_order_id x) (ExecutionEvent x')" if "ExecutionEvent x' \<in> set past" for x'
      using fill_id [OF that] other by (auto simp: untouched_def)
    ultimately have "untouched (x_order_id x) e'" if "e' \<in> set past" for e'
      using that by (cases e') simp_all
    then have "list_all (untouched (o_order_id order)) past"
      using order by (simp add: list_all_iff opens_def)
    from untouched_rests [OF _ _ here _ this]
    have "spec_find (x_order_id x) (resting_list past (x_instrument_id x)) = Some (spec_entry order)"
      using order clean kept by (simp add: opens_def assms(2))
    then show ?thesis
      using order by (simp add: verdict [unfolded ExecutionEvent] ExecutionEvent spec_fill_def opens_def spec_entry_def)
  qed
qed

lemma clean_stream_all_accepted:
  assumes "clean_stream es"
  shows "map snd (accepted_from [] es) = es"
proof -
  have "map snd (accepted_from past rest) = rest" if "es = past @ rest" for past rest
    using that
  proof (induction rest arbitrary: past)
    case (Cons e rest)
    then show ?case using clean_stream_accepts [OF assms Cons.prems] by simp
  qed simp
  then show ?thesis by simp
qed

section \<open>A tidy simulation is a clean stream\<close>

lemma event_fields [simp]:
  "is_new (order_event order) \<longleftrightarrow> so_status order \<noteq> SCancelled" "\<not> is_fill (order_event order)"
  "order_id_of (order_event order) = so_order_id order"
  "\<not> is_new (execution_event simulation x)" "is_fill (execution_event simulation x)"
  "order_id_of (execution_event simulation x) = sx_order_id x"
  "timestamp_of (order_event order) = so_timestamp_ns order"
  "timestamp_of (execution_event simulation x) = sx_timestamp_ns x"
  by (simp_all add: order_event_def execution_event_def to_fix_order_def to_fix_execution_def)

lemma merged_mset:
  "mset (merged_events simulation) =
     mset (map order_event (sim_orders simulation)) + mset (map (execution_event simulation) (sim_executions simulation))"
  by (simp add: merged_events_def)

lemma merged_ids:
  assumes "tidy p a b (sim_orders simulation) (sim_executions simulation)"
  shows "mset (map order_id_of (filter is_new (merged_events simulation))) = mset (new_ids (sim_orders simulation))"
    and "mset (map order_id_of (filter is_fill (merged_events simulation))) = mset (map sx_order_id (sim_executions simulation))"
proof -
  let ?all = "map order_event (sim_orders simulation) @ map (execution_event simulation) (sim_executions simulation)"
  have all: "mset (map order_id_of (filter P (merged_events simulation))) = mset (map order_id_of (filter P ?all))" for P
    by (simp add: mset_filter merged_mset)
  have "filter (\<lambda>order. so_status order \<noteq> SCancelled) (sim_orders simulation) =
      filter (\<lambda>order. so_status order = SNew) (sim_orders simulation)"
    using tidyD(3) [OF assms] by (intro filter_cong refl) (metis sim_order_status.exhaust sim_order_status.distinct(1))
  then have "map order_id_of (filter is_new ?all) = new_ids (sim_orders simulation)"
    by (simp add: filter_map comp_def new_ids_def)
  moreover have "map order_id_of (filter is_fill ?all) = map sx_order_id (sim_executions simulation)"
    by (simp add: filter_map comp_def)
  ultimately show "mset (map order_id_of (filter is_new (merged_events simulation))) = mset (new_ids (sim_orders simulation))"
    "mset (map order_id_of (filter is_fill (merged_events simulation))) = mset (map sx_order_id (sim_executions simulation))"
    by (simp_all only: all)
qed

lemma tidy_opens:
  assumes "tidy p a b (sim_orders simulation) (sim_executions simulation)" and "x \<in> set (sim_executions simulation)"
    and "execution_event simulation x = ExecutionEvent x'"
  shows "\<exists>order. opens (merged_events simulation) x' order"
proof -
  let ?os = "map order_event (sim_orders simulation)"
  let ?xs = "map (execution_event simulation) (sim_executions simulation)"
  obtain order where order: "order \<in> set (sim_orders simulation)" "so_status order = SNew" "so_order_id order = sx_order_id x"
    "so_instrument_id order = sx_instrument_id x" "so_timestamp_ns order < sx_timestamp_ns x" "sx_qty x \<le> so_qty order"
    using tidyD(7) [OF assms(1,2)] by (auto simp: fills_def)
  have "subseq [order_event order] ?os" "subseq [execution_event simulation x] ?xs"
    using order(1) assms(2) by (simp_all add: subseq_singleton_left)
  from list_emb_append_mono [OF this]
  have "subseq [order_event order, execution_event simulation x] (merged_events simulation)"
    unfolding merged_events_def using order(5) by (intro sort_key_subseq) simp_all
  then have "opens (merged_events simulation) x' (to_fix_order order)"
    using order assms(3) by (auto simp: opens_def order_event_def execution_event_def to_fix_order_def to_fix_execution_def)
  then show ?thesis ..
qed

lemma tidy_clean:
  assumes "tidy p a b (sim_orders simulation) (sim_executions simulation)"
  shows "clean_stream (merged_events simulation)"
proof -
  note ids = merged_ids [OF assms]
  have events: "set (merged_events simulation) =
      order_event ` set (sim_orders simulation) \<union> execution_event simulation ` set (sim_executions simulation)"
    using arg_cong [OF merged_mset, of set_mset simulation] by simp
  have filled: "fills_of (merged_events simulation) = sx_order_id ` set (sim_executions simulation)"
    using arg_cong [OF ids(2), of set_mset] by (simp add: fills_of_def)
  have "distinct (map order_id_of (filter is_new (merged_events simulation)))"
    "distinct (map order_id_of (filter is_fill (merged_events simulation)))"
    using mset_eq_imp_distinct_iff [OF ids(1)] mset_eq_imp_distinct_iff [OF ids(2)] tidyD(1,6) [OF assms] by simp_all
  moreover have "o_status o' \<noteq> KReplaced \<and> (o_status o' = KCancelled \<longrightarrow> o_orig_order_id o' \<notin> fills_of (merged_events simulation))"
    if member: "OrderEvent o' \<in> set (merged_events simulation)" for o'
  proof -
    obtain order where "order \<in> set (sim_orders simulation)" "o' = to_fix_order order"
      using member by (auto simp: events order_event_def execution_event_def)
    then show ?thesis using tidyD(5) [OF assms] by (auto simp: to_fix_order_def filled)
  qed
  moreover have "\<exists>order. opens (merged_events simulation) x' order"
    if member: "ExecutionEvent x' \<in> set (merged_events simulation)" for x'
  proof -
    obtain x where "x \<in> set (sim_executions simulation)" "execution_event simulation x = ExecutionEvent x'"
      using member by (auto simp: events order_event_def)
    then show ?thesis by (rule tidy_opens [OF assms])
  qed
  ultimately show ?thesis by (simp add: clean_stream_def)
qed

lemma tidy_stream:
  assumes "tidy p a b (sim_orders simulation) (sim_executions simulation)"
  shows "to_ingestion_events simulation = Inr (merged_events simulation)"
  using tidyD(7) [OF assms] fills_new_id
  by (fastforce simp: to_ingestion_events_Inr list_all_iff known_order_def new_ids_def)

section \<open>The accounts are related as the detectors see them\<close>

lemma add_entity_lookup: "add_entity (to_entity b) m (a_account_id a) =
    (if a_account_id a = a_account_id b then Some (to_entity b) else m (a_account_id a))"
  by (simp add: add_entity_def to_entity_def)

lemma add_entities_other:
  "a_account_id a \<notin> a_account_id ` set accounts \<Longrightarrow>
     fold (\<lambda>account m. add_entity (to_entity account) m) accounts m (a_account_id a) = m (a_account_id a)"
  by (induction accounts arbitrary: m) (auto simp: add_entity_lookup)

lemma registered_lookup:
  assumes "distinct (map a_account_id accounts)" and "a \<in> set accounts"
  shows "fold (\<lambda>account m. add_entity (to_entity account) m) accounts m (a_account_id a) = Some (to_entity a)"
  using assms
proof (induction accounts arbitrary: m)
  case (Cons b accounts)
  then show ?case
    using add_entities_other [of b accounts] by (cases "a = b") (auto simp: add_entity_lookup)
qed simp

lemma accounts_related_eq:
  assumes "distinct (map a_account_id (sim_accounts simulation))"
    and "a \<in> set (sim_accounts simulation)" and "b \<in> set (sim_accounts simulation)"
  shows "is_related (a_account_id a) (a_account_id b) (registered_accounts simulation) = accounts_related a b"
  using registered_lookup [OF assms(1,2)] registered_lookup [OF assms(1,3)]
  by (auto simp: is_related_def registered_accounts_def accounts_related_def same_beneficial_owner_def are_linked_def
      names_def lookup_def to_entity_def)

section \<open>Properties\<close>

text \<open>A library that always draws the least value and whose gaps are a second.\<close>

definition least_draws :: "unit random_library" where
  "least_draws = \<lparr>rl_int = (\<lambda>g lo hi. (lo, g)), rl_real = (\<lambda>g lo hi. (lo, g)), rl_exponential = (\<lambda>g rate. (1, g))\<rparr>"

definition small_session :: simulator_config where
  "small_session = \<lparr>sg_random_seed = 42, sg_session_start_ns = 0, sg_session_duration_ns = 5000000000,
     sg_num_equity_instruments = 1, sg_num_fx_instruments = 0, sg_num_fixed_income_instruments = 0,
     sg_baseline_orders_per_second = 1, sg_num_independent_accounts = 2, sg_num_linked_account_pairs = 1,
     sg_wash_trade = \<lparr>ap_count = 1, ap_severity = 1\<rparr>, sg_spoofing_layering = \<lparr>ap_count = 1, ap_severity = 1 / 2\<rparr>,
     sg_marking_the_close = \<lparr>ap_count = 1, ap_severity = 0\<rparr>, sg_front_running = \<lparr>ap_count = 1, ap_severity = 0\<rparr>\<rparr>"

lemma small_session_ready: "lawful_draws least_draws" "well_configured small_session"
  by (simp_all add: lawful_draws_def least_draws_def well_configured_def small_session_def)

lemma least_draws_gap: "1 \<le> llround (fmul (fst (rl_exponential least_draws g rate)) (10 ^ 9))"
proof -
  have "fmul 1 (10 ^ 9) = 10 ^ 9" by (simp add: fmul_def float_eval)
  then show ?thesis by (simp add: least_draws_def llround_def)
qed

lemma small_session_returns:
  "\<exists>simulation. generate_simulation least_draws (\<lambda>symbol. 0) (\<lambda>seed. ()) small_session = Some (Inr simulation) \<and>
     sim_accounts simulation = sr_accounts (registry_of small_session)"
proof -
  from baseline_flow_ends [OF least_draws_gap] obtain flow where
    "generate_baseline_flow least_draws (\<lambda>symbol. 0) (sg_baseline_orders_per_second small_session)
      (sg_session_start_ns small_session) (sg_session_start_ns small_session + sg_session_duration_ns small_session)
      (instruments_of small_session) (sr_accounts (registry_of small_session)) (first_state (\<lambda>seed. ()) small_session) = Some flow"
    by blast
  from generate_simulation_session [OF small_session_ready this] show ?thesis by (auto simp: session_of_def)
qed

lemma generated_flow:
  assumes "generate_simulation lib hash engine config = Some generated"
  obtains flow where "generate_baseline_flow lib hash (sg_baseline_orders_per_second config) (sg_session_start_ns config)
      (sg_session_start_ns config + sg_session_duration_ns config) (instruments_of config)
      (sr_accounts (registry_of config)) (first_state engine config) = Some flow"
  using assms by (auto simp: generate_simulation_def first_state_def Let_def split: option.splits)

lemma session_replays_clean:
  assumes "generate_simulation lib hash engine config = Some generated" and "lawful_draws lib" and "well_configured config"
  shows "\<exists>simulation events. generated = Inr simulation \<and>
    sorted (map so_timestamp_ns (sim_orders simulation)) \<and> sorted (map sx_timestamp_ns (sim_executions simulation)) \<and>
    to_ingestion_events simulation = Inr events \<and>
    length events = length (sim_orders simulation) + length (sim_executions simulation) \<and>
    map snd (accepted_from [] events) = events \<and>
    rr_events_skipped_inconsistent (replay_answer iter clock simulation events) = 0"
proof -
  obtain flow where "generate_baseline_flow lib hash (sg_baseline_orders_per_second config) (sg_session_start_ns config)
      (sg_session_start_ns config + sg_session_duration_ns config) (instruments_of config)
      (sr_accounts (registry_of config)) (first_state engine config) = Some flow"
    by (rule generated_flow [OF assms(1)])
  from generate_simulation_session [OF assms(2,3) this]
  obtain out s where generated: "generated = Inr (session_of config out)"
    and out: "tidy_step ''ORD'' (first_state engine config) out s" using assms(1) by auto
  let ?sim = "session_of config out"
  note tidy = session_tidy [OF out]
  have all: "map snd (accepted_from [] (merged_events ?sim)) = merged_events ?sim"
    by (rule clean_stream_all_accepted [OF tidy_clean [OF tidy]])
  have "length (merged_events ?sim) = length (sim_orders ?sim) + length (sim_executions ?sim)"
    by (simp add: merged_events_def)
  moreover have "length (accepted_from [] (merged_events ?sim)) = length (merged_events ?sim)"
    using arg_cong [OF all, of length] by simp
  then have "rr_events_skipped_inconsistent (replay_answer iter clock ?sim (merged_events ?sim)) = 0"
    by (simp add: replay_answer_def Let_def)
  ultimately show ?thesis
    using generated tidy_stream [OF tidy] all by (intro exI [of _ ?sim] exI [of _ "merged_events ?sim"]) (simp add: session_of_def)
qed

text \<open>
  C5: a generated session replays without a refused event.  Take a random library that keeps to the
  ranges the standard gives and a configuration with an instrument, single and linked accounts and severities
  between 0 and 1.  When the simulator returns (its loop of arrivals has no bound of its own), it has thrown
  nothing; its orders and executions are in time order; the replay's stream holds all of them; and the books
  of the pipeline accept every event, so that the replay reports none as inconsistent.
\<close>

theorem generated_session_clean:
  assumes "generate_simulation lib hash engine config = Some generated" and "lawful_draws lib" and "well_configured config"
  shows "\<exists>simulation events. generated = Inr simulation \<and>
    sorted (map so_timestamp_ns (sim_orders simulation)) \<and> sorted (map sx_timestamp_ns (sim_executions simulation)) \<and>
    to_ingestion_events simulation = Inr events \<and>
    length events = length (sim_orders simulation) + length (sim_executions simulation) \<and>
    map snd (accepted_from [] events) = events \<and>
    rr_events_skipped_inconsistent (replay_answer iter clock simulation events) = 0"
  by (rule session_replays_clean [OF assms])

theorem generated_session_clean_witness:
  "\<exists>simulation events. generate_simulation least_draws (\<lambda>symbol. 0) (\<lambda>seed. ()) small_session = Some (Inr simulation) \<and>
     to_ingestion_events simulation = Inr events \<and> map snd (accepted_from [] events) = events"
  using generated_session_clean [OF _ small_session_ready, of "\<lambda>symbol. 0" "\<lambda>seed. ()"] small_session_returns by blast

text \<open>
  C20: what a session refers to.  In a session that the simulator returns, every order and
  execution names a registered account, or the market's synthetic one where that is allowed, and an instrument of
  the session, has a positive quantity and bears the simulator's venue; the accounts
  have different ids.
\<close>

theorem generated_session_valid:
  assumes "generate_simulation lib hash engine config = Some (Inr simulation)" and "lawful_draws lib" and "well_configured config"
  shows "list_all (valid_order (a_account_id ` set (sim_accounts simulation)) (i_instrument_id ` set (sim_instruments simulation)) ''SIM'')
      (sim_orders simulation) \<and>
    list_all (valid_execution (a_account_id ` set (sim_accounts simulation)) (i_instrument_id ` set (sim_instruments simulation)) ''SIM'')
      (sim_executions simulation) \<and>
    distinct (map a_account_id (sim_accounts simulation))"
proof -
  obtain flow where "generate_baseline_flow lib hash (sg_baseline_orders_per_second config) (sg_session_start_ns config)
      (sg_session_start_ns config + sg_session_duration_ns config) (instruments_of config)
      (sr_accounts (registry_of config)) (first_state engine config) = Some flow"
    by (rule generated_flow [OF assms(1)])
  from generate_simulation_session [OF assms(2,3) this]
  obtain out where "simulation = session_of config out"
    and "valid_output (account_names config) (instrument_names config) sim_venue out" using assms(1) by auto
  then show ?thesis
    by (simp add: session_of_def valid_output_def account_names_def instrument_names_def sim_venue_def list_all_iff)
      (simp add: registry_of_def build_sim_registry_eq distinct_map inj_on_def)
qed

theorem generated_session_valid_witness:
  "\<exists>simulation. generate_simulation least_draws (\<lambda>symbol. 0) (\<lambda>seed. ()) small_session = Some (Inr simulation) \<and>
     distinct (map a_account_id (sim_accounts simulation))"
  using generated_session_valid [OF _ small_session_ready] small_session_returns by blast

lemma pair_halves:
  fixes n :: nat
  assumes "j < n + 2 * m" and "k < n + 2 * m"
  shows "(\<exists>i < m. {j, k} = {n + 2 * i, Suc (n + 2 * i)}) \<longleftrightarrow> j \<noteq> k \<and> n \<le> j \<and> n \<le> k \<and> (j - n) div 2 = (k - n) div 2"
proof
  assume "\<exists>i < m. {j, k} = {n + 2 * i, Suc (n + 2 * i)}"
  then show "j \<noteq> k \<and> n \<le> j \<and> n \<le> k \<and> (j - n) div 2 = (k - n) div 2" by (auto simp: doubleton_eq_iff Suc_diff_le)
next
  assume R: "j \<noteq> k \<and> n \<le> j \<and> n \<le> k \<and> (j - n) div 2 = (k - n) div 2"
  then obtain x y where xy: "j = n + x" "k = n + y" by (metis le_iff_add)
  have "{j, k} = {n + 2 * (x div 2), Suc (n + 2 * (x div 2))}"
    using R unfolding xy doubleton_eq_iff by simp presburger
  moreover have "x div 2 < m" using assms(1) unfolding xy by simp
  ultimately show "\<exists>i < m. {j, k} = {n + 2 * i, Suc (n + 2 * i)}" by blast
qed

text \<open>
  C19: who is related.  For the accounts of a session, the relation with which the simulator picks
  counterparties is the relation with which the detectors look for collusion, over the registry
  that the replay fills from the session; and two different accounts are related exactly when
  they are one of the linked pairs.
\<close>

theorem simulated_relations_agree:
  assumes "generate_simulation lib hash engine config = Some (Inr simulation)"
    and "a \<in> set (sim_accounts simulation)" and "b \<in> set (sim_accounts simulation)"
  shows "is_related (a_account_id a) (a_account_id b) (registered_accounts simulation) = accounts_related a b \<and>
    (accounts_related a b \<longleftrightarrow> a = b \<or> (\<exists>(j, k) \<in> set (sr_linked_pair_indices (registry_of config)).
       {a, b} = {sim_accounts simulation ! j, sim_accounts simulation ! k}))"
proof -
  let ?n = "nat (sg_num_independent_accounts config)" and ?m = "nat (sg_num_linked_account_pairs config)"
  have accounts: "sim_accounts simulation = map (account_at ?n) [0..<?n + 2 * ?m]"
    using assms(1) by (auto simp: generate_simulation_def registry_of_def build_sim_registry_eq Let_def split_beta
        split: option.splits) (auto simp: map_sum_def split: sum.splits)
  have agree: "is_related (a_account_id a) (a_account_id b) (registered_accounts simulation) = accounts_related a b"
    by (rule accounts_related_eq) (use assms(2,3) in \<open>simp_all add: accounts distinct_map inj_on_def\<close>)
  obtain j k where jk: "a = account_at ?n j" "b = account_at ?n k" "j < ?n + 2 * ?m" "k < ?n + 2 * ?m"
    using assms(2,3) by (auto simp: accounts)
  have same: "account_at ?n x = account_at ?n y \<longleftrightarrow> x = y" for x y using account_at_id by metis
  have "(\<exists>(x, y) \<in> set (sr_linked_pair_indices (registry_of config)).
      {a, b} = {sim_accounts simulation ! x, sim_accounts simulation ! y}) \<longleftrightarrow>
    (\<exists>i < ?m. {j, k} = {?n + 2 * i, Suc (?n + 2 * i)})"
    by (auto simp: registry_of_def build_sim_registry_eq accounts jk same doubleton_eq_iff)
  moreover have "(\<exists>i < ?m. {j, k} = {?n + 2 * i, Suc (?n + 2 * i)}) \<longleftrightarrow>
      j \<noteq> k \<and> ?n \<le> j \<and> ?n \<le> k \<and> (j - ?n) div 2 = (k - ?n) div 2"
    using jk(3,4) by (rule pair_halves)
  ultimately show ?thesis using agree related_at [of ?n j k] jk(1,2) same by auto
qed

theorem simulated_relations_agree_witness:
  "\<exists>simulation. generate_simulation least_draws (\<lambda>symbol. 0) (\<lambda>seed. ()) small_session = Some (Inr simulation) \<and>
     is_related ''ACC-000003'' ''ACC-000004'' (registered_accounts simulation)"
proof -
  obtain simulation where S: "generate_simulation least_draws (\<lambda>symbol. 0) (\<lambda>seed. ()) small_session = Some (Inr simulation)"
    "sim_accounts simulation = sr_accounts (registry_of small_session)" using small_session_returns by blast
  have "account_at 2 2 \<in> set (sim_accounts simulation)" "account_at 2 3 \<in> set (sim_accounts simulation)"
    by (simp_all add: S(2) registry_of_def build_sim_registry_eq small_session_def)
  note P = simulated_relations_agree [OF S(1) this]
  have "a_account_id (account_at 2 2) = ''ACC-000003''" "a_account_id (account_at 2 3) = ''ACC-000004''"
    by (simp_all add: account_at_def id_text_def) code_simp+
  moreover have "accounts_related (account_at 2 2) (account_at 2 3)" by (simp add: related_at)
  ultimately show ?thesis using S(1) P by auto
qed

end
