(* ===== verification/Sarao_Case.thy ===== *)
theory Sarao_Case
  imports Clean_Replay
begin

text \<open>
  \<open>cpp/simulator/abuse/sarao_case.cpp\<close>: the documented layering pattern of 6 May 2010 as a fixed
  sequence, five cycles of five layers against a bid that retreats, and what
  \<open>cpp/harness/sarao_validation_main.cpp\<close> counts when it replays it.
\<close>

definition sarao_tick_size :: double where "sarao_tick_size = 1 / 4"
definition sarao_reference_price :: double where "sarao_reference_price = 1150"
definition spoofer_account :: string where "spoofer_account = ''SARAO''"
definition bid_liquidity_account :: string where "bid_liquidity_account = ''MKT-BIDS''"
definition layers_per_cycle :: nat where "layers_per_cycle = 5"
definition layer_lots :: "int list" where "layer_lots = [188, 289]"
definition min_levels_from_best_ask :: int where "min_levels_from_best_ask = 3"
definition num_cycles :: int where "num_cycles = 5"
definition total_window_ns :: int where "total_window_ns = (2 * 3600 + 15 * 60) * 1000000000"
definition sarao_layer_stagger_ns :: int where "sarao_layer_stagger_ns = 500000000"
definition layer_dwell_ns :: int where "layer_dwell_ns = 8000000000"
definition bid_pulldown_delay_ns :: int where "bid_pulldown_delay_ns = 4000000000"
definition sarao_default_anchor_ns :: int where "sarao_default_anchor_ns = 1273151700000000000"

definition sarao_label :: ground_truth_label where
  "sarao_label = \<lparr>gt_pattern = Spoofing_Layering_Pattern, gt_scenario_id = ''CFTC-SARAO-2010-05-06'', gt_severity = 1\<rparr>"

definition sarao_order_id :: "int \<Rightarrow> string" where
  "sarao_order_id counter = ''SARAO-ORD-'' @ show_int counter"

definition sarao_bid :: "int \<Rightarrow> int \<Rightarrow> double \<Rightarrow> sim_order" where
  "sarao_bid counter ts price =
     plain_sim_order (sarao_order_id counter) bid_liquidity_account ''ES'' SBuy price 50 ts ''CME'' sarao_label"

definition sarao_layer :: "int \<Rightarrow> int \<Rightarrow> nat \<Rightarrow> sim_order" where
  "sarao_layer counter cycle_start_ns layer =
     plain_sim_order (sarao_order_id (counter + int layer + 1)) spoofer_account ''ES'' SSell
       (fadd (fadd sarao_reference_price sarao_tick_size)
         (fmul (to_double (min_levels_from_best_ask + int layer)) sarao_tick_size))
       (layer_lots ! (layer mod 2)) (cycle_start_ns + int layer * sarao_layer_stagger_ns) ''CME'' sarao_label"

text \<open>What a cycle passes on: the counter of order ids, the resting bid and its price.\<close>

record sarao_state =
  sa_counter :: int
  sa_bid :: sim_order
  sa_bid_price :: double
  sa_orders :: "sim_order list"

definition sarao_cycle :: "int \<Rightarrow> sarao_state \<Rightarrow> sarao_state" where
  "sarao_cycle cycle_start_ns s =
     (let layers = map (sarao_layer (sa_counter s) cycle_start_ns) [0..<layers_per_cycle];
          counter = sa_counter s + int layers_per_cycle;
          cancel_old_bid = (sa_bid s)\<lparr>so_status := SCancelled, so_timestamp_ns := cycle_start_ns + bid_pulldown_delay_ns\<rparr>;
          bid_price = fsub (sa_bid_price s) sarao_tick_size;
          bid = sarao_bid (counter + 1) (cycle_start_ns + bid_pulldown_delay_ns + 1000000) bid_price;
          cancels = map (\<lambda>layer. layer\<lparr>so_status := SCancelled, so_timestamp_ns := so_timestamp_ns layer + layer_dwell_ns\<rparr>) layers
      in \<lparr>sa_counter = counter + 1, sa_bid = bid, sa_bid_price = bid_price,
          sa_orders = sa_orders s @ layers @ [cancel_old_bid, bid] @ cancels\<rparr>)"

definition build_sarao_case :: "int \<Rightarrow> scenario_output" where
  "build_sarao_case anchor_time_ns =
     (let bid = sarao_bid 1 anchor_time_ns sarao_reference_price;
          cycle_spacing_ns = total_window_ns sdiv num_cycles;
          s = fold (\<lambda>cycle. sarao_cycle (anchor_time_ns + cycle * cycle_spacing_ns)) [0..num_cycles - 1]
            \<lparr>sa_counter = 1, sa_bid = bid, sa_bid_price = sarao_reference_price, sa_orders = [bid]\<rparr>
      in \<lparr>sc_orders = sa_orders s, sc_executions = []\<rparr>)"

definition sarao_simulation :: "int \<Rightarrow> simulation_output" where
  "sarao_simulation anchor_time_ns =
     \<lparr>sim_instruments = [], sim_accounts = [], sim_orders = sc_orders (build_sarao_case anchor_time_ns),
      sim_executions = sc_executions (build_sarao_case anchor_time_ns)\<rparr>"

text \<open>\<open>sarao_validation_main.cpp\<close>: the cancellations of the spoofer, and the detector's alerts.\<close>

definition count_cancels :: "simulation_output \<Rightarrow> int" where
  "count_cancels simulation =
     int (length (filter (\<lambda>order. so_status order = SCancelled \<and> so_account_id order = spoofer_account) (sim_orders simulation)))"

definition spoofing_alerts :: "replay_result \<Rightarrow> alert list" where
  "spoofing_alerts result = filter (\<lambda>a. al_detector_name a = ''SpoofingLayeringDetector'') (rr_alerts result)"

definition max_spoofing_score :: "replay_result \<Rightarrow> double" where
  "max_spoofing_score result = foldl (\<lambda>m a. if m < al_score a then al_score a else m) 0 (spoofing_alerts result)"

end
