(* ===== verification/Sarao_Detection.thy ===== *)
theory Sarao_Detection
  imports Sarao_Case
begin

text \<open>
  The documented case against the detector: the books that the case builds, what the
  spoofing detector tracks over them, and the alerts it raises.
\<close>

section \<open>What the detector sees of a book\<close>

definition list_qty :: "side \<Rightarrow> double \<Rightarrow> spec_order list \<Rightarrow> int" where
  "list_qty s p L = sum_list (map spec_order.so_qty (at_level s p L))"

definition list_best :: "side \<Rightarrow> spec_order list \<Rightarrow> double option" where
  "list_best s L =
     (let P = spec_order.so_price ` set (filter (\<lambda>r. spec_order.so_side r = s) L)
      in if P = {} then None else Some (case s of KBuy \<Rightarrow> Max P | KSell \<Rightarrow> Min P))"

lemma own_book_view:
  assumes "list_all no_replacement es"
  shows "qty_at_price s p (own_book es i) = list_qty s p (resting_list es i)"
    and "best_price s (own_book es i) = list_best s (resting_list es i)"
proof -
  let ?b = "own_book es i" and ?L = "resting_list es i"
  have R: "book_full ?b" "matches (view ?b) ?L"
    using own_book_refines [OF assms, of i] by (simp_all add: refines_def resting_list_def)
  have level: "map (strip p) (queue_at s p ?b) = at_level s p ?L" for s p
    using matchesD(2) [OF R(2), of p s] by (simp add: view_def)
  then show "qty_at_price s p ?b = list_qty s p ?L"
    by (simp add: qty_at_price_queue list_qty_def comp_def flip: level)
  have prices: "resting_prices s ?b = spec_order.so_price ` set (filter (\<lambda>r. spec_order.so_side r = s) ?L)" for s
  proof -
    have "resting_prices s ?b = {p. at_level s p ?L \<noteq> []}" by (simp add: resting_prices_def flip: level)
    then show ?thesis by (auto simp: at_level_def filter_empty_conv)
  qed
  show "best_price s ?b = list_best s ?L"
    using best_price_eq [of ?b] R(1) by (cases s) (simp_all add: list_best_def prices Let_def)
qed

section \<open>Runs of the detector\<close>

abbreviation spoof_step :: "account_registry \<Rightarrow> spoofing_layering_state evaluation" where
  "spoof_step accounts \<equiv> spoofing_layering_evaluate default_spoofing_layering_config accounts"

text \<open>After the events: what rests, what the detector keeps, the alerts so far; nothing was refused.\<close>

definition watched ::
    "account_registry \<Rightarrow> event list \<Rightarrow> spec_order list \<Rightarrow> spoofing_layering_state \<Rightarrow> alert list \<Rightarrow> bool" where
  "watched accounts es L st alerts \<longleftrightarrow> list_all no_replacement es \<and> resting_list es ''ES'' = L \<and>
     map snd (accepted_from [] es) = es \<and>
     run_detector (spoof_step accounts) (accepted_from [] es) empty_spoofing_state = (st, alerts)"

definition sees :: "order_book \<Rightarrow> spec_order list \<Rightarrow> bool" where
  "sees b L \<longleftrightarrow> (\<forall>s. best_price s b = list_best s L) \<and> (\<forall>s p. qty_at_price s p b = list_qty s p L)"

lemma watched_Nil: "watched accounts [] [] empty_spoofing_state []"
  by (simp add: watched_def)

lemma watched_snoc:
  assumes "watched accounts es L st alerts" and "no_replacement e" and "instrument_id_of e = ''ES''"
    and "spec_orders_step e L = (L', None)"
  obtains b where "sees b L'"
    and "watched accounts (es @ [e]) L' (fst (spoof_step accounts b e st)) (alerts @ snd (spoof_step accounts b e st))"
proof
  let ?b = "own_book (es @ [e]) ''ES''"
  have kept: "list_all no_replacement (es @ [e])" using assms(1,2) by (simp add: watched_def)
  have L': "resting_list (es @ [e]) ''ES'' = L'" using assms by (simp add: watched_def resting_list_snoc)
  show "sees ?b L'" using own_book_view [OF kept] by (simp add: sees_def L')
  have "accepts es e" using accepts_resting [OF kept] assms by (simp add: watched_def)
  then have run: "accepted_from [] (es @ [e]) = accepted_from [] es @ [(?b, e)]"
    using assms(3) by (simp add: accepted_from_snoc)
  show "watched accounts (es @ [e]) L' (fst (spoof_step accounts ?b e st)) (alerts @ snd (spoof_step accounts ?b e st))"
    using assms(1) kept L' by (simp add: watched_def run run_detector_append split_beta Let_def)
qed

text \<open>Every alert of the detector reaches the threshold.\<close>

lemma spoof_alert_threshold:
  assumes "a \<in> set (snd (spoofing_layering_evaluate config accounts b e st))"
  shows "sl_alert_threshold config \<le> al_score a"
  using assms by (cases e) (auto simp: spoofing_handle_cancel_def Let_def split: order_status.splits prod.splits option.splits if_splits)

section \<open>What the detector keeps\<close>

definition buy_key :: string where "buy_key = concurrency_key bid_liquidity_account ''ES'' KBuy"
definition sell_key :: string where "sell_key = concurrency_key spoofer_account ''ES'' KSell"

lemma keys_differ [simp]: "buy_key \<noteq> sell_key" "sell_key \<noteq> buy_key"
  by (simp_all add: buy_key_def sell_key_def concurrency_key_def side_letter_def spoofer_account_def bid_liquidity_account_def)

lemma ambient_keys_differ [simp]:
  "instrument_side_key i KBuy \<noteq> instrument_side_key i KSell" "instrument_side_key i KSell \<noteq> instrument_side_key i KBuy"
  by (simp_all add: instrument_side_key_def side_letter_def)

definition samples_of :: "string \<Rightarrow> ambient_tracker \<Rightarrow> bool" where
  "samples_of account tracker \<longleftrightarrow> (\<forall>s \<in> set (am_recent_concurrent_samples tracker). cs_account_id s = account)"

text \<open>Two accounts act, each on its side; the moves and the best price are those of the bids.\<close>

definition keeps :: "int list \<Rightarrow> double option \<Rightarrow> (string \<rightharpoonup> tracked_order) \<Rightarrow> (string \<rightharpoonup> int) \<Rightarrow> spoofing_layering_state \<Rightarrow> bool" where
  "keeps moves best tracked counts st \<longleftrightarrow> sp_tracked st = tracked \<and> sp_concurrent_count st = counts \<and>
     am_recent_move_timestamps (tracker_at (instrument_side_key ''ES'' KBuy) st) = moves \<and>
     am_last_best_price (tracker_at (instrument_side_key ''ES'' KBuy) st) = best \<and>
     samples_of bid_liquidity_account (tracker_at (instrument_side_key ''ES'' KBuy) st) \<and>
     samples_of spoofer_account (tracker_at (instrument_side_key ''ES'' KSell) st)"

definition next_moves :: "int \<Rightarrow> double option \<Rightarrow> double option \<Rightarrow> int list \<Rightarrow> int list" where
  "next_moves ts best now moves =
     filter (\<lambda>m. \<bar>ts - m\<bar> \<le> 30000000000)
       (moves @ (case (best, now) of (Some q, Some p) \<Rightarrow> if p \<noteq> q then [ts] else [] | _ \<Rightarrow> []))"

definition next_best :: "double option \<Rightarrow> double option \<Rightarrow> double option" where
  "next_best best now = (case now of None \<Rightarrow> best | Some p \<Rightarrow> Some p)"

lemma default_config [simp]:
  "sl_density_window_ns default_spoofing_layering_config = 30000000000"
  "sl_slow_time_in_book_ns default_spoofing_layering_config = 5000000000"
  "sl_alert_threshold default_spoofing_layering_config = rnd64 (6 / 10)"
  "sl_min_opposite_price_move default_spoofing_layering_config = rnd64 (1 / 100)"
  "sl_layering_saturation_count default_spoofing_layering_config = 3"
  "sl_layering_bonus_weight default_spoofing_layering_config = rnd64 (15 / 100)"
  by (simp_all add: default_spoofing_layering_config_def)

lemma tracker_upd [simp]:
  "tracker_at k (st\<lparr>sp_ambient := (sp_ambient st)(k' \<mapsto> t)\<rparr>) = (if k = k' then t else tracker_at k st)"
  by (simp add: tracker_at_def)

lemma update_side_fields:
  "sp_tracked (update_ambient_side config b i ts s st) = sp_tracked st"
  "sp_concurrent_count (update_ambient_side config b i ts s st) = sp_concurrent_count st"
  "sp_ambient (update_ambient_side config b i ts s st) k =
     (if k = instrument_side_key i s then Some (update_tracker config (best_price s b) ts (tracker_at (instrument_side_key i s) st))
      else sp_ambient st k)"
  "tracker_at k (update_ambient_side config b i ts s st) =
     (if k = instrument_side_key i s then update_tracker config (best_price s b) ts (tracker_at (instrument_side_key i s) st)
      else tracker_at k st)"
  by (simp_all add: update_ambient_side_def Let_def tracker_at_def)

lemma ambient_update_fields:
  "sp_tracked (update_ambient config b i ts st) = sp_tracked st"
  "sp_concurrent_count (update_ambient config b i ts st) = sp_concurrent_count st"
  "tracker_at (instrument_side_key i s) (update_ambient config b i ts st) =
     update_tracker config (best_price s b) ts (tracker_at (instrument_side_key i s) st)"
  "sp_ambient (update_ambient config b i ts st) (instrument_side_key i s) \<noteq> None"
  by (cases s; simp add: update_ambient_def update_side_fields)+

lemma update_tracker_fields:
  "am_recent_move_timestamps (update_tracker default_spoofing_layering_config now ts t) =
     next_moves ts (am_last_best_price t) now (am_recent_move_timestamps t)"
  "am_last_best_price (update_tracker default_spoofing_layering_config now ts t) = next_best (am_last_best_price t) now"
  by (simp_all add: update_tracker_def Let_def next_moves_def next_best_def not_less split: option.split)

lemma update_tracker_samples: "samples_of a t \<Longrightarrow> samples_of a (update_tracker config now ts t)"
  by (simp add: update_tracker_def Let_def samples_of_def)

lemma keeps_ambient:
  assumes "keeps moves best tracked counts st" and "sees b L"
  shows "keeps (next_moves ts best (list_best KBuy L) moves) (next_best best (list_best KBuy L)) tracked counts
      (update_ambient default_spoofing_layering_config b ''ES'' ts st)"
proof -
  have "best_price KBuy b = list_best KBuy L" using assms(2) by (simp only: sees_def)
  then show ?thesis
    using assms(1) unfolding keeps_def ambient_update_fields update_tracker_fields
    by (simp only: update_tracker_samples simp_thms)
qed

section \<open>Steps\<close>

definition tracked_in :: "spec_order list \<Rightarrow> order \<Rightarrow> tracked_order" where
  "tracked_in L order =
     \<lparr>tr_account_id = o_account_id order, tr_instrument_id = o_instrument_id order, tr_side = o_side order,
      tr_remaining_qty = o_qty order, tr_placed_ts = o_timestamp_ns order,
      tr_depth_ratio_at_placement =
        (if 0 < list_qty (o_side order) (o_price order) L
         then fdiv (to_double (o_qty order)) (to_double (list_qty (o_side order) (o_price order) L)) else 0),
      tr_opposite_best_at_placement = list_best (opposite_of (o_side order)) L\<rparr>"

lemma tracked_in_eq: "sees b L \<Longrightarrow> tracked_of b order = tracked_in L order"
  by (simp only: tracked_of_def tracked_in_def sees_def Let_def)

definition acts :: "string \<Rightarrow> side \<Rightarrow> bool" where
  "acts account side \<longleftrightarrow> (account = bid_liquidity_account \<and> side = KBuy) \<or> (account = spoofer_account \<and> side = KSell)"

definition plus_one :: "string \<Rightarrow> (string \<rightharpoonup> int) \<Rightarrow> (string \<rightharpoonup> int)" where
  "plus_one key counts = counts(key \<mapsto> (case counts key of None \<Rightarrow> 0 | Some n \<Rightarrow> n) + 1)"

definition minus_one :: "string \<Rightarrow> (string \<rightharpoonup> int) \<Rightarrow> (string \<rightharpoonup> int)" where
  "minus_one key counts = (case counts key of None \<Rightarrow> counts | Some n \<Rightarrow>
     if n - 1 \<le> 0 then counts(key := None) else counts(key \<mapsto> n - 1))"

definition sample_for :: "order \<Rightarrow> int \<Rightarrow> concurrent_sample" where
  "sample_for order n = \<lparr>cs_timestamp_ns = o_timestamp_ns order, cs_account_id = o_account_id order, cs_concurrent_count = n\<rparr>"

lemma track_new_fields:
  "sp_tracked (track_new b order st) = (sp_tracked st)(o_order_id order \<mapsto> tracked_of b order)"
  "sp_concurrent_count (track_new b order st) = plus_one (key_of (tracked_of b order)) (sp_concurrent_count st)"
  "tracker_at k (track_new b order st) =
     (if k = instrument_side_key (o_instrument_id order) (o_side order)
      then (tracker_at k st)\<lparr>am_recent_concurrent_samples := am_recent_concurrent_samples (tracker_at k st) @
        [sample_for order (count_at (key_of (tracked_of b order)) st + 1)]\<rparr>
      else tracker_at k st)"
  by (simp_all add: track_new_def Let_def plus_one_def count_at_def tracker_at_def sample_for_def)

lemma samples_of_snoc: "samples_of a (t\<lparr>am_recent_concurrent_samples := am_recent_concurrent_samples t @ [sample_for order n]\<rparr>) \<longleftrightarrow>
    samples_of a t \<and> o_account_id order = a"
  by (auto simp: samples_of_def sample_for_def)

lemma tracked_in_key: "key_of (tracked_in L order) = concurrency_key (o_account_id order) (o_instrument_id order) (o_side order)"
  by (simp add: key_of_def tracked_in_def)

lemma keeps_track_new:
  assumes "keeps moves best tracked counts st" and "sees b L" and "acts (o_account_id order) (o_side order)"
    and "o_instrument_id order = ''ES''"
  shows "keeps moves best (tracked(o_order_id order \<mapsto> tracked_in L order))
    (plus_one (concurrency_key (o_account_id order) ''ES'' (o_side order)) counts) (track_new b order st)"
proof -
  have "o_side order = KBuy \<and> o_account_id order = bid_liquidity_account \<or>
      o_side order = KSell \<and> o_account_id order = spoofer_account"
    using assms(3) by (auto simp: acts_def)
  then show ?thesis
    using assms(1) unfolding keeps_def track_new_fields tracked_in_eq [OF assms(2)] tracked_in_key assms(4)
    by (elim disjE conjE) (simp_all add: samples_of_snoc)
qed

lemma keeps_erase:
  assumes "keeps moves best tracked counts st" and "tracked oid = Some t"
  shows "snd (erase_tracked oid st) = Some t"
    and "keeps moves best (tracked(oid := None)) (minus_one (key_of t) counts) (fst (erase_tracked oid st))"
    and "sp_ambient (fst (erase_tracked oid st)) = sp_ambient st"
  using assms by (auto simp: keeps_def erase_tracked_def minus_one_def tracker_at_def Let_def split: option.split)

definition scene ::
    "account_registry \<Rightarrow> event list \<Rightarrow> spec_order list \<Rightarrow> int list \<Rightarrow> double option \<Rightarrow> (string \<rightharpoonup> tracked_order)
     \<Rightarrow> (string \<rightharpoonup> int) \<Rightarrow> (string list \<times> string list) list \<Rightarrow> bool" where
  "scene accounts es L moves best tracked counts found \<longleftrightarrow>
     (\<exists>st alerts. watched accounts es L st alerts \<and> keeps moves best tracked counts st \<and>
        map (\<lambda>a. (al_account_ids a, al_order_ids a)) alerts = found)"

lemma sceneI:
  "watched accounts es L st alerts \<Longrightarrow> keeps moves best tracked counts st \<Longrightarrow>
     map (\<lambda>a. (al_account_ids a, al_order_ids a)) alerts = found \<Longrightarrow> scene accounts es L moves best tracked counts found"
  by (auto simp: scene_def)

lemma scene_new:
  assumes "scene accounts es L moves best tracked counts found"
    and "o_status order = KNew" and "o_instrument_id order = ''ES''" and "acts (o_account_id order) (o_side order)"
    and "o_order_id order \<notin> ids L" and "L' = L @ [spec_entry order]" and "now = list_best KBuy L'"
  shows "scene accounts (es @ [OrderEvent order]) L' (next_moves (o_timestamp_ns order) best now moves) (next_best best now)
    (tracked(o_order_id order \<mapsto> tracked_in L' order))
    (plus_one (concurrency_key (o_account_id order) ''ES'' (o_side order)) counts) found"
proof -
  obtain st alerts where st: "watched accounts es L st alerts" "keeps moves best tracked counts st"
    "map (\<lambda>a. (al_account_ids a, al_order_ids a)) alerts = found" using assms(1) by (auto simp: scene_def)
  have "spec_orders_step (OrderEvent order) L = (L', None)" using assms(2,5,6) by (simp add: spec_new_def)
  then obtain b where b: "sees b L'"
    and w: "watched accounts (es @ [OrderEvent order]) L' (fst (spoof_step accounts b (OrderEvent order) st))
      (alerts @ snd (spoof_step accounts b (OrderEvent order) st))"
    using watched_snoc [OF st(1), of "OrderEvent order" L'] assms(2,3) by (auto simp: no_replacement_def)
  let ?st = "update_ambient default_spoofing_layering_config b ''ES'' (o_timestamp_ns order) st"
  have step: "spoof_step accounts b (OrderEvent order) st = (track_new b order ?st, [])"
    using assms(2,3) by (simp add: Let_def)
  note kept = keeps_track_new [OF keeps_ambient [OF st(2) b, of "o_timestamp_ns order"] b assms(4,3)]
  show ?thesis
    unfolding assms(7) by (rule sceneI [OF w [unfolded step fst_conv snd_conv] kept]) (simp add: st(3))
qed

text \<open>What a cancellation raises, for the state after the erasure.\<close>

lemma scene_cancel:
  assumes "scene accounts es L moves best tracked counts found"
    and "o_status order = KCancelled" and "o_instrument_id order = ''ES''"
    and "tracked (o_orig_order_id order) = Some t" and "tr_placed_ts t \<le> o_timestamp_ns order" and "tr_instrument_id t = ''ES''"
    and "L' = spec_remove (o_orig_order_id order) L" and "now = list_best KBuy L'"
    and "\<And>b st. sees b L' \<Longrightarrow> keeps (next_moves (o_timestamp_ns order) best now moves) (next_best best now)
        (tracked(o_orig_order_id order := None)) (minus_one (key_of t) counts) st \<Longrightarrow>
      (\<And>s. sp_ambient st (instrument_side_key ''ES'' s) \<noteq> None) \<Longrightarrow>
      rnd64 (6 / 10) \<le> al_score (spoofing_alert default_spoofing_layering_config b order t st) \<longleftrightarrow> fires"
  shows "scene accounts (es @ [OrderEvent order]) L' (next_moves (o_timestamp_ns order) best now moves) (next_best best now)
    (tracked(o_orig_order_id order := None)) (minus_one (key_of t) counts)
    (found @ (if fires then [([tr_account_id t], [o_orig_order_id order])] else []))"
proof -
  obtain st alerts where st: "watched accounts es L st alerts" "keeps moves best tracked counts st"
    "map (\<lambda>a. (al_account_ids a, al_order_ids a)) alerts = found" using assms(1) by (auto simp: scene_def)
  have "spec_orders_step (OrderEvent order) L = (L', None)" using assms(2,7) by simp
  then obtain b where b: "sees b L'"
    and w: "watched accounts (es @ [OrderEvent order]) L' (fst (spoof_step accounts b (OrderEvent order) st))
      (alerts @ snd (spoof_step accounts b (OrderEvent order) st))"
    using watched_snoc [OF st(1), of "OrderEvent order" L'] assms(2,3) by (auto simp: no_replacement_def)
  let ?st = "update_ambient default_spoofing_layering_config b ''ES'' (o_timestamp_ns order) st"
  note kept = keeps_ambient [OF st(2) b, of "o_timestamp_ns order", folded assms(8)]
  note erased = keeps_erase [OF kept assms(4)]
  let ?st1 = "fst (erase_tracked (o_orig_order_id order) ?st)"
  have "sp_ambient ?st1 (instrument_side_key ''ES'' s) \<noteq> None" for s
    unfolding erased(3) by (rule ambient_update_fields(4))
  note fires = assms(9) [OF b erased(2) this]
  have step: "spoof_step accounts b (OrderEvent order) st =
      (?st1, if fires then [spoofing_alert default_spoofing_layering_config b order t ?st1] else [])"
    using assms(2,3,5) erased(1) fires
    by (simp add: Let_def spoofing_handle_cancel_def split_beta not_le [symmetric])
  show ?thesis
    by (rule sceneI [OF w [unfolded step fst_conv snd_conv] erased(2)]) (use st(3) in \<open>simp add: spoofing_alert_def Let_def\<close>)
qed

section \<open>Scores\<close>

lemma sees_best: "sees b L \<Longrightarrow> best_price s b = list_best s L"
  by (simp only: sees_def)

lemma combined_ge: "0 \<le> layering \<Longrightarrow> 0 \<le> x \<Longrightarrow> x \<le> 1 \<Longrightarrow> x \<le> primary \<Longrightarrow> is_double x \<Longrightarrow>
    x \<le> combined_score default_spoofing_layering_config primary layering"
proof -
  assume L: "0 \<le> layering" "0 \<le> x" "x \<le> 1" "x \<le> primary" "is_double x"
  have "0 \<le> fmul (rnd64 (15 / 100)) layering" using L(1) by (intro fmul_nonneg) (simp_all add: rnd64_nonneg)
  then have "fadd x 0 \<le> fadd primary (fmul (rnd64 (15 / 100)) layering)" using L(4) by (intro fadd_mono)
  moreover have "fadd x 0 = x" using L(5) by (simp add: fadd_def is_double_def)
  ultimately show ?thesis
    using L(2,3) by (simp add: combined_score_def clamp_def)
qed

text \<open>A layer at the front of its level, after eight seconds and one retreat of the bid.\<close>

lemma layer_fires:
  assumes "sees b L" and "list_best KBuy L = Some (p - 1 / 4)" and "keeps [m] best tracked counts st"
    and "sp_ambient st (instrument_side_key ''ES'' KBuy) \<noteq> None"
    and "tr_instrument_id t = ''ES''" "tr_side t = KSell" "tr_depth_ratio_at_placement t = 1"
      "tr_opposite_best_at_placement t = Some p" "o_timestamp_ns order - tr_placed_ts t = 8000000000"
  shows "rnd64 (6 / 10) \<le> al_score (spoofing_alert default_spoofing_layering_config b order t st)"
proof -
  let ?c = default_spoofing_layering_config
  have "fsub (p - 1 / 4) p = - (1 / 4)" by (simp add: fsub_def float_eval)
  then have moved: "moved_favorably ?c b t"
    using assms(6,8) by (simp add: moved_favorably_def sees_best [OF assms(1)] assms(2)) (simp add: float_eval)
  have rate: "recent_move_rate ?c t st = fdiv 1 30"
    using assms(3-6) by (auto simp: recent_move_rate_def keeps_def tracker_at_def giga_def)
      (simp add: float_eval)
  have move: "rnd64 (8 / 10) \<le> move_score ?c b t 8000000000 st"
    by (simp add: move_score_def moved rate giga_def clamp_def) (simp add: float_eval)
  have "speed_score ?c 8000000000 = 0" "depth_score t = 1"
    using assms(7) by (simp_all add: speed_score_def depth_score_def clamp_def) (simp add: float_eval)
  moreover have "fdiv (fadd (fadd 1 0) (rnd64 (8 / 10))) 3 \<le> fdiv (fadd (fadd 1 0) (move_score ?c b t 8000000000 st)) 3"
    using move by (intro fdiv_mono fadd_mono) simp_all
  ultimately have "fdiv (fadd (fadd 1 0) (rnd64 (8 / 10))) 3 \<le> primary_score ?c b t 8000000000 st"
    by (simp add: primary_score_def)
  moreover have "rnd64 (6 / 10) \<le> fdiv (fadd (fadd 1 0) (rnd64 (8 / 10))) 3" by (simp add: float_eval)
  ultimately have "rnd64 (6 / 10) \<le> primary_score ?c b t 8000000000 st" by simp
  then have "rnd64 (6 / 10) \<le> combined_score ?c (primary_score ?c b t 8000000000 st) l" if "0 \<le> l" for l
    using that by (intro combined_ge) (simp_all add: is_double_def rnd64_nonneg rnd64_le_1)
  then show ?thesis
    by (simp add: spoofing_alert_def Let_def assms(9) layering_score_def clamp_unit)
qed

text \<open>A bid that rested for four seconds, alone, while the best offer stayed.\<close>

lemma bid_quiet:
  assumes "sees b L" and "keeps moves best tracked counts st" and "counts buy_key = None"
    and "tr_account_id t = bid_liquidity_account" "tr_instrument_id t = ''ES''" "tr_side t = KBuy"
      "tr_opposite_best_at_placement t \<in> {None, list_best KSell L}" "tr_placed_ts t + 4000000000 \<le> o_timestamp_ns order"
  shows "\<not> rnd64 (6 / 10) \<le> al_score (spoofing_alert default_spoofing_layering_config b order t st)"
proof -
  let ?c = default_spoofing_layering_config and ?dwell = "o_timestamp_ns order - tr_placed_ts t"
  have "\<not> moved_favorably ?c b t"
    using assms(6,7) by (auto simp: moved_favorably_def sees_best [OF assms(1)] fsub_def split: option.split)
      (simp add: float_eval)+
  then have move: "move_score ?c b t ?dwell st = 0" by (simp add: move_score_def)
  have "fdiv (to_double 4000000000) (to_double 5000000000) \<le> fdiv (to_double ?dwell) (to_double 5000000000)"
    using assms(8) by (intro fdiv_mono to_double_mono) (simp_all add: to_double_exact)
  then have "speed_score ?c ?dwell \<le> clamp (fsub 1 (fdiv (to_double 4000000000) (to_double 5000000000))) 0 1"
    by (simp add: speed_score_def) (intro clamp_mono fsub_mono; simp)
  also have "\<dots> \<le> rnd64 (3 / 10)" by (simp add: clamp_def float_eval)
  finally have "primary_score ?c b t ?dwell st \<le> fdiv (fadd (fadd 1 (rnd64 (3 / 10))) 0) 3"
    unfolding primary_score_def move
    by (intro fdiv_mono fadd_mono) (simp_all add: depth_score_def clamp_unit)
  also have "\<dots> \<le> rnd64 (5 / 10)" by (simp add: float_eval)
  finally have primary: "primary_score ?c b t ?dwell st \<le> rnd64 (5 / 10)" .
  have "count_at (concurrency_key bid_liquidity_account ''ES'' KBuy) st = 0"
    using assms(2,3) by (simp add: count_at_def keeps_def buy_key_def)
  moreover have "typical_concurrent t st = 0"
    using assms(2,4-6) by (auto simp: typical_concurrent_def keeps_def samples_of_def tracker_at_def Let_def split: option.split)
  ultimately have "layering_score ?c t (count_concurrent_same_account_same_side (tr_account_id t) (tr_instrument_id t) (tr_side t) st) st = 0"
    using assms(4-6) by (simp add: layering_score_def count_concurrent_same_account_same_side_def clamp_def fsub_def fdiv_def)
  then have "al_score (spoofing_alert ?c b order t st) = combined_score ?c (primary_score ?c b t ?dwell st) 0"
    by (simp add: spoofing_alert_def Let_def)
  also have "\<dots> \<le> clamp (rnd64 (5 / 10)) 0 1"
    using primary rnd64_mono [OF primary] by (simp add: combined_score_def fadd_def fmul_def) (intro clamp_mono; simp)
  also have "\<dots> < rnd64 (6 / 10)" by (simp add: clamp_def float_eval)
  finally show ?thesis by simp
qed

end
