(* ===== verification/Sarao_Validation.thy ===== *)
theory Sarao_Validation
  imports Sarao_Detection
begin

text \<open>
  The documented case replayed.  A cycle of the case leaves the detector where the next one
  starts, and raises one alert for every layer; so the detector answers each of the
  spoofer's cancellations, and nothing else.
\<close>

section \<open>What is known of a scene\<close>

text \<open>As \<open>scene\<close>, with a set of orders that are tracked and the number of tracked bids.\<close>

definition knows ::
    "account_registry \<Rightarrow> event list \<Rightarrow> spec_order list \<Rightarrow> int list \<Rightarrow> double option \<Rightarrow> int option \<Rightarrow> (string \<times> tracked_order) set
     \<Rightarrow> (string list \<times> string list) list \<Rightarrow> bool" where
  "knows accounts es L moves best nb known found \<longleftrightarrow>
     (\<exists>tracked counts. scene accounts es L moves best tracked counts found \<and> counts buy_key = nb \<and>
        (\<forall>oid t. (oid, t) \<in> known \<longrightarrow> tracked oid = Some t))"

lemma knows_subset: "knows accounts es L moves best nb known found \<Longrightarrow> known' \<subseteq> known \<Longrightarrow>
    knows accounts es L moves best nb known' found"
  unfolding knows_def by (blast dest: subsetD)

lemma knows_layer:
  assumes "knows accounts es L moves best nb known found"
    and "o_status order = KNew" "o_instrument_id order = ''ES''" "o_account_id order = spoofer_account" "o_side order = KSell"
    and "o_order_id order \<notin> ids L" "o_order_id order \<notin> Domain known"
    and "L' = L @ [spec_entry order]" "list_best KBuy L' = now"
  shows "knows accounts (es @ [OrderEvent order]) L' (next_moves (o_timestamp_ns order) best now moves) (next_best best now)
    nb (insert (o_order_id order, tracked_in L' order) known) found"
proof -
  obtain tracked counts where S: "scene accounts es L moves best tracked counts found" "counts buy_key = nb"
    "\<forall>oid t. (oid, t) \<in> known \<longrightarrow> tracked oid = Some t" using assms(1) by (auto simp: knows_def)
  have "acts (o_account_id order) (o_side order)" using assms(4,5) by (simp add: acts_def)
  note new = scene_new [OF S(1) assms(2,3) this assms(6,8), of now]
  show ?thesis
    unfolding knows_def
    by (intro exI conjI, rule new) (use S(2,3) assms(4,5,7,9) in \<open>auto simp: plus_one_def sell_key_def [symmetric]\<close>)
qed

lemma knows_bid:
  assumes "knows accounts es L moves best None known found"
    and "o_status order = KNew" "o_instrument_id order = ''ES''" "o_account_id order = bid_liquidity_account" "o_side order = KBuy"
    and "o_order_id order \<notin> ids L" "o_order_id order \<notin> Domain known"
    and "L' = L @ [spec_entry order]" "list_best KBuy L' = now"
  shows "knows accounts (es @ [OrderEvent order]) L' (next_moves (o_timestamp_ns order) best now moves) (next_best best now)
    (Some 1) (insert (o_order_id order, tracked_in L' order) known) found"
proof -
  obtain tracked counts where S: "scene accounts es L moves best tracked counts found" "counts buy_key = None"
    "\<forall>oid t. (oid, t) \<in> known \<longrightarrow> tracked oid = Some t" using assms(1) by (auto simp: knows_def)
  have "acts (o_account_id order) (o_side order)" using assms(4,5) by (simp add: acts_def)
  note new = scene_new [OF S(1) assms(2,3) this assms(6,8), of now]
  show ?thesis
    unfolding knows_def
    by (intro exI conjI, rule new) (use S(2,3) assms(4,5,7,9) in \<open>auto simp: plus_one_def buy_key_def [symmetric]\<close>)
qed

lemma layer_key: "tr_account_id t = spoofer_account \<Longrightarrow> tr_instrument_id t = ''ES'' \<Longrightarrow> tr_side t = KSell \<Longrightarrow> key_of t = sell_key"
  by (simp add: key_of_def sell_key_def)

lemma bid_key: "tr_account_id t = bid_liquidity_account \<Longrightarrow> tr_instrument_id t = ''ES'' \<Longrightarrow> tr_side t = KBuy \<Longrightarrow> key_of t = buy_key"
  by (simp add: key_of_def buy_key_def)

lemma minus_one_other: "key \<noteq> buy_key \<Longrightarrow> minus_one key counts buy_key = counts buy_key"
  by (auto simp: minus_one_def split: option.split)

lemma knows_layer_cancel:
  assumes "knows accounts es L moves best nb (insert (o_orig_order_id order, t) known) found"
    and "o_status order = KCancelled" "o_instrument_id order = ''ES''" "o_orig_order_id order \<notin> Domain known"
    and "tr_account_id t = spoofer_account" "tr_instrument_id t = ''ES''" "tr_side t = KSell" "tr_depth_ratio_at_placement t = 1"
      "tr_opposite_best_at_placement t = Some p" "o_timestamp_ns order - tr_placed_ts t = 8000000000"
    and "L' = spec_remove (o_orig_order_id order) L" "list_best KBuy L' = Some (p - 1 / 4)"
    and "next_moves (o_timestamp_ns order) best (Some (p - 1 / 4)) moves = [m]"
  shows "knows accounts (es @ [OrderEvent order]) L' [m] (Some (p - 1 / 4)) nb known
    (found @ [([spoofer_account], [o_orig_order_id order])])"
proof -
  obtain tracked counts where S: "scene accounts es L moves best tracked counts found" "counts buy_key = nb"
    "tracked (o_orig_order_id order) = Some t" "\<forall>oid t. (oid, t) \<in> known \<longrightarrow> tracked oid = Some t"
    using assms(1) by (auto simp: knows_def)
  have fires: "rnd64 (6 / 10) \<le> al_score (spoofing_alert default_spoofing_layering_config b order t st) \<longleftrightarrow> True"
    if "sees b L'" "keeps (next_moves (o_timestamp_ns order) best (Some (p - 1 / 4)) moves) best' tracked' counts' st"
      "\<And>s. sp_ambient st (instrument_side_key ''ES'' s) \<noteq> None" for b st best' tracked' counts'
    using layer_fires [OF that(1) assms(12) that(2) [unfolded assms(13)] that(3) assms(6-10)] by simp
  have "tr_placed_ts t \<le> o_timestamp_ns order" using assms(10) by simp
  note cancel = scene_cancel [OF S(1) assms(2,3) S(3) this assms(6,11) assms(12) [symmetric] fires,
      unfolded assms(13) next_best_def option.case if_True assms(5)]
  show ?thesis
    unfolding knows_def
    by (intro exI conjI, rule cancel)
      (use S(2,4) assms(4) in \<open>auto simp: layer_key [OF assms(5-7)] minus_one_other\<close>)
qed

lemma knows_bid_cancel:
  assumes "knows accounts es L moves best (Some 1) (insert (o_orig_order_id order, t) known) found"
    and "o_status order = KCancelled" "o_instrument_id order = ''ES''" "o_orig_order_id order \<notin> Domain known"
    and "tr_account_id t = bid_liquidity_account" "tr_instrument_id t = ''ES''" "tr_side t = KBuy"
      "tr_opposite_best_at_placement t \<in> {None, list_best KSell L'}" "tr_placed_ts t + 4000000000 \<le> o_timestamp_ns order"
    and "L' = spec_remove (o_orig_order_id order) L" "list_best KBuy L' = now"
  shows "knows accounts (es @ [OrderEvent order]) L' (next_moves (o_timestamp_ns order) best now moves) (next_best best now)
    None known found"
proof -
  obtain tracked counts where S: "scene accounts es L moves best tracked counts found" "counts buy_key = Some 1"
    "tracked (o_orig_order_id order) = Some t" "\<forall>oid t. (oid, t) \<in> known \<longrightarrow> tracked oid = Some t"
    using assms(1) by (auto simp: knows_def)
  have gone: "minus_one (key_of t) counts buy_key = None"
    using S(2) by (simp add: bid_key [OF assms(5-7)] minus_one_def)
  have quiet: "rnd64 (6 / 10) \<le> al_score (spoofing_alert default_spoofing_layering_config b order t st) \<longleftrightarrow> False"
    if "sees b L'" "keeps moves' best' tracked' (minus_one (key_of t) counts) st"
      "\<And>s. sp_ambient st (instrument_side_key ''ES'' s) \<noteq> None" for b st moves' best' tracked'
    using bid_quiet [OF that(1,2) gone assms(5-9)] by simp
  have "tr_placed_ts t \<le> o_timestamp_ns order" using assms(9) by simp
  note cancel = scene_cancel [OF S(1) assms(2,3) S(3) this assms(6,10) assms(11) [symmetric] quiet, unfolded if_False append_Nil2]
  show ?thesis
    unfolding knows_def by (intro exI conjI, rule cancel) (use S(4) assms(4) gone in \<open>auto simp:\<close>)
qed

section \<open>The layers of a cycle\<close>

lemma show_int_inject: "0 \<le> m \<Longrightarrow> 0 \<le> n \<Longrightarrow> show_int m = show_int n \<longleftrightarrow> m = n"
  by (auto simp: show_int_def dest: show_nat_inj)

lemma sarao_order_id_inject [simp]: "0 \<le> m \<Longrightarrow> 0 \<le> n \<Longrightarrow> sarao_order_id m = sarao_order_id n \<longleftrightarrow> m = n"
  by (simp add: sarao_order_id_def show_int_inject)

definition lay :: "int \<Rightarrow> int \<Rightarrow> nat \<Rightarrow> order" where
  "lay c T i = to_fix_order (sarao_layer c T i)"

definition lay_cancel :: "int \<Rightarrow> int \<Rightarrow> nat \<Rightarrow> order" where
  "lay_cancel c T i = to_fix_order ((sarao_layer c T i)\<lparr>so_status := SCancelled,
     so_timestamp_ns := sim_order.so_timestamp_ns (sarao_layer c T i) + layer_dwell_ns\<rparr>)"

lemma layer_price: "i < 5 \<Longrightarrow> fadd (fadd sarao_reference_price sarao_tick_size)
      (fmul (to_double (min_levels_from_best_ask + int i)) sarao_tick_size) = 1151 + of_nat i / 4"
proof -
  assume "i < 5"
  then have "i \<in> {0, 1, 2, 3, 4}" by auto
  then show ?thesis
    by (auto simp: sarao_reference_price_def sarao_tick_size_def min_levels_from_best_ask_def) (simp_all add: float_eval)
qed

lemma lay_fields [simp]:
  "o_status (lay c T i) = KNew" "o_instrument_id (lay c T i) = ''ES''" "o_account_id (lay c T i) = spoofer_account"
  "o_side (lay c T i) = KSell" "o_order_id (lay c T i) = sarao_order_id (c + int i + 1)"
  "o_timestamp_ns (lay c T i) = T + int i * 500000000"
  "o_status (lay_cancel c T i) = KCancelled" "o_instrument_id (lay_cancel c T i) = ''ES''"
  "o_orig_order_id (lay_cancel c T i) = sarao_order_id (c + int i + 1)"
  "o_timestamp_ns (lay_cancel c T i) = T + int i * 500000000 + 8000000000"
  by (simp_all add: lay_def lay_cancel_def to_fix_order_def sarao_layer_def plain_sim_order_def
      sarao_layer_stagger_ns_def layer_dwell_ns_def)

lemma lay_price [simp]: "i < 5 \<Longrightarrow> o_price (lay c T i) = 1151 + of_nat i / 4"
  by (simp add: lay_def to_fix_order_def sarao_layer_def plain_sim_order_def layer_price)

lemma lay_qty: "0 < o_qty (lay c T i)" "\<bar>o_qty (lay c T i)\<bar> \<le> 2 ^ 53"
proof -
  have "i mod 2 = 0 \<or> i mod 2 = 1" by auto
  then show "0 < o_qty (lay c T i)" "\<bar>o_qty (lay c T i)\<bar> \<le> 2 ^ 53"
    by (auto simp: lay_def to_fix_order_def sarao_layer_def plain_sim_order_def layer_lots_def)
qed

lemma entry_fields [simp]:
  "spec_order.so_id (spec_entry order) = o_order_id order" "spec_order.so_side (spec_entry order) = o_side order"
  "spec_order.so_price (spec_entry order) = o_price order" "spec_order.so_qty (spec_entry order) = o_qty order"
  by (simp_all add: spec_entry_def)

definition layers :: "int \<Rightarrow> int \<Rightarrow> nat \<Rightarrow> nat \<Rightarrow> spec_order list" where
  "layers c T m n = map (\<lambda>i. spec_entry (lay c T i)) [m..<n]"

definition layer_tracked :: "int \<Rightarrow> int \<Rightarrow> spec_order \<Rightarrow> nat \<Rightarrow> tracked_order" where
  "layer_tracked c T bid i = tracked_in (bid # layers c T 0 (Suc i)) (lay c T i)"

definition layers_known :: "int \<Rightarrow> int \<Rightarrow> spec_order \<Rightarrow> nat \<Rightarrow> nat \<Rightarrow> (string \<times> tracked_order) set" where
  "layers_known c T bid m n = (\<lambda>i. (sarao_order_id (c + int i + 1), layer_tracked c T bid i)) ` {m..<n}"

lemma layers_ids: "ids (layers c T m n) = (\<lambda>i. sarao_order_id (c + int i + 1)) ` {m..<n}"
  by (simp add: layers_def image_image)

lemma layers_known_Domain: "Domain (layers_known c T bid m n) = (\<lambda>i. sarao_order_id (c + int i + 1)) ` {m..<n}"
  by (auto simp: layers_known_def)

lemma layers_empty: "layers c T n n = []" "layers_known c T bid n n = {}"
  by (simp_all add: layers_def layers_known_def)

lemma layers_Suc: "m \<le> n \<Longrightarrow> layers c T m (Suc n) = layers c T m n @ [spec_entry (lay c T n)]"
  by (simp add: layers_def)

lemma layers_Cons: "m < n \<Longrightarrow> layers c T m n = spec_entry (lay c T m) # layers c T (Suc m) n"
  by (simp add: layers_def upt_conv_Cons)

lemma list_best_buy:
  "filter (\<lambda>r. spec_order.so_side r = KBuy) L = [r] \<Longrightarrow> list_best KBuy L = Some (spec_order.so_price r)"
  "filter (\<lambda>r. spec_order.so_side r = KBuy) L = [] \<Longrightarrow> list_best KBuy L = None"
  by (simp_all only: list_best_def Let_def) simp_all

lemma layers_no_bid [simp]: "filter (\<lambda>r. spec_order.so_side r = KBuy) (layers c T m n) = []"
  by (simp add: layers_def filter_map comp_def)

lemma best_bid_with_layers:
  assumes "spec_order.so_side bid = KBuy"
  shows "list_best KBuy (bid # layers c T m n) = Some (spec_order.so_price bid)"
    and "list_best KBuy (layers c T m n @ [bid]) = Some (spec_order.so_price bid)"
  using assms by (auto intro!: list_best_buy)

lemma no_best_bid [simp]: "list_best KBuy (layers c T m n) = None"
  by (intro list_best_buy) simp

lemma layer_tracked_fields:
  assumes "i < 5" and "spec_order.so_side bid = KBuy"
  shows "tr_account_id (layer_tracked c T bid i) = spoofer_account" "tr_instrument_id (layer_tracked c T bid i) = ''ES''"
    "tr_side (layer_tracked c T bid i) = KSell" "tr_placed_ts (layer_tracked c T bid i) = T + int i * 500000000"
    "tr_depth_ratio_at_placement (layer_tracked c T bid i) = 1"
    "tr_opposite_best_at_placement (layer_tracked c T bid i) = Some (spec_order.so_price bid)"
proof -
  have "filter (\<lambda>j. o_price (lay c T j) = o_price (lay c T i)) [0..<Suc i] = [i]"
    using assms(1) by (auto simp: filter_empty_conv)
  then have "at_level KSell (o_price (lay c T i)) (bid # layers c T 0 (Suc i)) = [spec_entry (lay c T i)]"
    using assms(2) by (simp add: at_level_def layers_def filter_map comp_def del: upt_Suc)
  then have "list_qty KSell (o_price (lay c T i)) (bid # layers c T 0 (Suc i)) = o_qty (lay c T i)"
    by (simp add: list_qty_def)
  moreover have "to_double (o_qty (lay c T i)) \<noteq> 0" using lay_qty [of c T i] by (simp add: to_double_exact)
  ultimately show "tr_depth_ratio_at_placement (layer_tracked c T bid i) = 1"
    using lay_qty(1) [of c T i] by (simp add: layer_tracked_def tracked_in_def fdiv_self)
qed (use assms in \<open>simp_all add: layer_tracked_def tracked_in_def best_bid_with_layers\<close>)

lemma place_layers:
  assumes "knows accounts es [bid] moves (Some p) (Some 1) {(spec_order.so_id bid, tb)} found"
    and "spec_order.so_side bid = KBuy" "spec_order.so_price bid = p" "spec_order.so_id bid = sarao_order_id c" "0 \<le> c"
    and "\<forall>m \<in> set moves. m + 30000000000 < T" and "n \<le> 5"
  shows "\<exists>moves'. knows accounts (es @ map (\<lambda>i. OrderEvent (lay c T i)) [0..<n]) (bid # layers c T 0 n) moves' (Some p) (Some 1)
      (insert (spec_order.so_id bid, tb) (layers_known c T bid 0 n)) found \<and> (\<forall>m \<in> set moves'. m + 30000000000 < T)"
  using assms(7)
proof (induction n)
  case 0
  then show ?case using assms(1,6) by (auto simp: layers_def layers_known_def)
next
  case (Suc n)
  then obtain moves' where IH: "knows accounts (es @ map (\<lambda>i. OrderEvent (lay c T i)) [0..<n]) (bid # layers c T 0 n) moves' (Some p)
      (Some 1) (insert (spec_order.so_id bid, tb) (layers_known c T bid 0 n)) found" "\<forall>m \<in> set moves'. m + 30000000000 < T" by auto
  have "knows accounts ((es @ map (\<lambda>i. OrderEvent (lay c T i)) [0..<n]) @ [OrderEvent (lay c T n)]) (bid # layers c T 0 (Suc n))
      (next_moves (o_timestamp_ns (lay c T n)) (Some p) (Some p) moves') (next_best (Some p) (Some p)) (Some 1)
      (insert (o_order_id (lay c T n), tracked_in (bid # layers c T 0 (Suc n)) (lay c T n))
        (insert (spec_order.so_id bid, tb) (layers_known c T bid 0 n))) found"
    by (rule knows_layer [OF IH(1)])
      (use assms(2-5) in \<open>auto simp: layers_ids layers_known_Domain layers_Suc best_bid_with_layers simp flip: layers_Suc\<close>)
  moreover have "insert (o_order_id (lay c T n), tracked_in (bid # layers c T 0 (Suc n)) (lay c T n))
        (insert (spec_order.so_id bid, tb) (layers_known c T bid 0 n)) =
      insert (spec_order.so_id bid, tb) (layers_known c T bid 0 (Suc n))"
    by (simp add: layers_known_def layer_tracked_def atLeast0_lessThan_Suc insert_commute)
  moreover have "\<forall>m \<in> set (next_moves (o_timestamp_ns (lay c T n)) (Some p) (Some p) moves'). m + 30000000000 < T"
    using IH(2) by (simp add: next_moves_def)
  ultimately show ?case by (auto simp: next_best_def)
qed

lemma cancel_layers:
  assumes "knows accounts es (layers c T 0 5 @ [bid']) [T + 4001000000] (Some (p - 1 / 4)) (Some 1)
      (insert (spec_order.so_id bid', tb') (layers_known c T bid 0 5)) found"
    and "spec_order.so_side bid = KBuy" "spec_order.so_price bid = p" "spec_order.so_side bid' = KBuy"
      "spec_order.so_price bid' = p - 1 / 4" "spec_order.so_id bid' = sarao_order_id (c + 6)" "0 \<le> c"
    and "n \<le> 5"
  shows "knows accounts (es @ map (\<lambda>i. OrderEvent (lay_cancel c T i)) [0..<n]) (layers c T n 5 @ [bid']) [T + 4001000000]
      (Some (p - 1 / 4)) (Some 1) (insert (spec_order.so_id bid', tb') (layers_known c T bid n 5))
      (found @ map (\<lambda>i. ([spoofer_account], [sarao_order_id (c + int i + 1)])) [0..<n])"
  using assms(8)
proof (induction n)
  case 0
  then show ?case using assms(1) by simp
next
  case (Suc n)
  let ?t = "layer_tracked c T bid n"
  have known: "insert (spec_order.so_id bid', tb') (layers_known c T bid n 5) =
      insert (o_orig_order_id (lay_cancel c T n), ?t) (insert (spec_order.so_id bid', tb') (layers_known c T bid (Suc n) 5))"
  proof -
    have "{n..<5} = insert n {Suc n..<5}" using Suc.prems by auto
    then show ?thesis by (simp add: layers_known_def insert_commute)
  qed
  have removed: "layers c T (Suc n) 5 @ [bid'] = spec_remove (sarao_order_id (c + int n + 1)) (layers c T n 5 @ [bid'])"
    using Suc.prems assms(6,7)
    by (simp add: layers_Cons spec_remove_def) (auto simp: layers_def filter_map comp_def intro!: filter_True [symmetric])
  have "next_moves (o_timestamp_ns (lay_cancel c T n)) (Some (p - 1 / 4)) (Some (p - 1 / 4)) [T + 4001000000] = [T + 4001000000]"
    using Suc.prems by (simp add: next_moves_def)
  moreover note IH = Suc.IH [OF Suc_leD [OF Suc.prems], unfolded known]
  ultimately have "knows accounts ((es @ map (\<lambda>i. OrderEvent (lay_cancel c T i)) [0..<n]) @ [OrderEvent (lay_cancel c T n)])
      (layers c T (Suc n) 5 @ [bid']) [T + 4001000000] (Some (p - 1 / 4)) (Some 1)
      (insert (spec_order.so_id bid', tb') (layers_known c T bid (Suc n) 5))
      ((found @ map (\<lambda>i. ([spoofer_account], [sarao_order_id (c + int i + 1)])) [0..<n]) @
        [([spoofer_account], [o_orig_order_id (lay_cancel c T n)])])"
    using Suc.prems assms(2-7)
    by (intro knows_layer_cancel [OF IH, of p])
      (simp_all add: layer_tracked_fields best_bid_with_layers layers_known_Domain image_iff flip: removed)
  then show ?case by simp
qed

section \<open>A cycle\<close>

definition bid_order :: "int \<Rightarrow> int \<Rightarrow> double \<Rightarrow> order" where
  "bid_order c ts p = to_fix_order (sarao_bid c ts p)"

definition bid_cancel :: "int \<Rightarrow> int \<Rightarrow> double \<Rightarrow> int \<Rightarrow> order" where
  "bid_cancel c ts p T = to_fix_order ((sarao_bid c ts p)\<lparr>so_status := SCancelled, so_timestamp_ns := T\<rparr>)"

lemma bid_fields [simp]:
  "o_status (bid_order c ts p) = KNew" "o_instrument_id (bid_order c ts p) = ''ES''"
  "o_account_id (bid_order c ts p) = bid_liquidity_account" "o_side (bid_order c ts p) = KBuy" "o_price (bid_order c ts p) = p"
  "o_order_id (bid_order c ts p) = sarao_order_id c" "o_timestamp_ns (bid_order c ts p) = ts"
  "o_status (bid_cancel c ts p T) = KCancelled" "o_instrument_id (bid_cancel c ts p T) = ''ES''"
  "o_orig_order_id (bid_cancel c ts p T) = sarao_order_id c" "o_timestamp_ns (bid_cancel c ts p T) = T"
  by (simp_all add: bid_order_def bid_cancel_def sarao_bid_def plain_sim_order_def to_fix_order_def)

lemma best_offer:
  shows "list_best KSell (layers c T 0 5) = Some 1151"
    and "spec_order.so_side bid = KBuy \<Longrightarrow> list_best KSell (layers c T 0 5 @ [bid]) = Some 1151"
proof -
  have "filter (\<lambda>r. spec_order.so_side r = KSell) (layers c T 0 5) = layers c T 0 5"
    by (auto simp: layers_def intro!: filter_True)
  moreover have "spec_order.so_price ` set (layers c T 0 5) = (\<lambda>i. 1151 + of_nat i / 4) ` {0..<5}"
    by (auto simp: layers_def image_image)
  moreover have "Min ((\<lambda>i. 1151 + of_nat i / 4 :: double) ` {0..<5}) = 1151"
    by (rule Min_eqI) (auto intro!: image_eqI [of _ _ 0])
  ultimately show "list_best KSell (layers c T 0 5) = Some 1151"
    "spec_order.so_side bid = KBuy \<Longrightarrow> list_best KSell (layers c T 0 5 @ [bid]) = Some 1151"
    by (simp_all add: list_best_def layers_def)
qed

text \<open>Between two cycles one bid rests, which has seen no offer or the layers' best one.\<close>

definition at_cycle :: "account_registry \<Rightarrow> int \<Rightarrow> sarao_state \<Rightarrow> (string list \<times> string list) list \<Rightarrow> bool" where
  "at_cycle accounts T s found \<longleftrightarrow>
     (\<exists>moves t ts. knows accounts (map order_event (sa_orders s)) [spec_entry (bid_order (sa_counter s) ts (sa_bid_price s))] moves
        (Some (sa_bid_price s)) (Some 1) {(sarao_order_id (sa_counter s), t)} found \<and>
        sa_bid s = sarao_bid (sa_counter s) ts (sa_bid_price s) \<and> 0 \<le> sa_counter s \<and>
        (\<forall>m \<in> set moves. m + 30000000000 < T) \<and> tr_account_id t = bid_liquidity_account \<and> tr_instrument_id t = ''ES'' \<and>
        tr_side t = KBuy \<and> tr_opposite_best_at_placement t \<in> {None, Some 1151} \<and> tr_placed_ts t \<le> T)"

definition layer_alerts :: "int \<Rightarrow> (string list \<times> string list) list" where
  "layer_alerts c = map (\<lambda>i. ([spoofer_account], [sarao_order_id (c + int i + 1)])) [0..<5]"

lemma cycle_orders:
  assumes "sa_bid s = sarao_bid (sa_counter s) ts p"
  shows "map order_event (sa_orders (sarao_cycle T s)) = map order_event (sa_orders s) @
      map (\<lambda>i. OrderEvent (lay (sa_counter s) T i)) [0..<5] @ [OrderEvent (bid_cancel (sa_counter s) ts p (T + 4000000000))] @
      [OrderEvent (bid_order (sa_counter s + 6) (T + 4001000000) (fsub (sa_bid_price s) (1 / 4)))] @
      map (\<lambda>i. OrderEvent (lay_cancel (sa_counter s) T i)) [0..<5]"
  using assms by (simp add: sarao_cycle_def Let_def order_event_def lay_def lay_cancel_def bid_cancel_def bid_order_def comp_def
      layers_per_cycle_def bid_pulldown_delay_ns_def sarao_tick_size_def del: upt_Suc) (simp add: add.commute)

lemma cycle_detected:
  assumes "at_cycle accounts T s found" and "sa_counter s = c" "sa_bid_price s = p" and "fsub p (1 / 4) = p - 1 / 4"
    and "T + 4001000000 + 30000000000 < T'"
  shows "at_cycle accounts T' (sarao_cycle T s) (found @ layer_alerts c)"
proof -
  obtain moves t ts where start: "knows accounts (map order_event (sa_orders s)) [spec_entry (bid_order c ts p)] moves (Some p) (Some 1)
      {(sarao_order_id c, t)} found" and s: "sa_bid s = sarao_bid c ts p" "0 \<le> c" and old: "\<forall>m \<in> set moves. m + 30000000000 < T"
    and t: "tr_account_id t = bid_liquidity_account" "tr_instrument_id t = ''ES''" "tr_side t = KBuy"
      "tr_opposite_best_at_placement t \<in> {None, Some 1151}" "tr_placed_ts t \<le> T"
    using assms(1-3) unfolding at_cycle_def by auto
  let ?bid = "spec_entry (bid_order c ts p)" and ?old = "bid_cancel c ts p (T + 4000000000)"
    and ?new = "bid_order (c + 6) (T + 4001000000) (p - 1 / 4)"
  let ?known = "layers_known c T ?bid 0 5" and ?layers = "layers c T 0 5"
  obtain moves' where placed: "knows accounts (map order_event (sa_orders s) @ map (\<lambda>i. OrderEvent (lay c T i)) [0..<5])
      (?bid # ?layers) moves' (Some p) (Some 1) (insert (sarao_order_id c, t) ?known) found"
    and old': "\<forall>m \<in> set moves'. m + 30000000000 < T"
    using place_layers [of accounts "map order_event (sa_orders s)" ?bid moves p t found c T 5] start old s(2) by (simp del: upt_Suc) blast
  have left: "?layers = spec_remove (o_orig_order_id ?old) (?bid # ?layers)"
    using s(2) by (auto simp: spec_remove_def layers_def intro!: filter_True [symmetric])
  let ?es = "(map order_event (sa_orders s) @ map (\<lambda>i. OrderEvent (lay c T i)) [0..<5]) @ [OrderEvent ?old]"
  have "knows accounts ?es ?layers (next_moves (o_timestamp_ns ?old) (Some p) None moves') (next_best (Some p) None) None ?known found"
    by (rule knows_bid_cancel [OF placed [folded bid_fields(10) [of c ts p "T + 4000000000"]]])
      (use left s(2) t in \<open>auto simp: best_offer layers_known_Domain\<close>)
  then have cancelled: "knows accounts ?es ?layers (next_moves (T + 4000000000) (Some p) None moves') (Some p) None ?known found"
    by (simp add: next_best_def)
  have "next_moves (T + 4001000000) (Some p) (Some (p - 1 / 4)) (next_moves (T + 4000000000) (Some p) None moves') = [T + 4001000000]"
    using old' by (auto simp: next_moves_def filter_empty_conv)
  moreover have "knows accounts (?es @ [OrderEvent ?new]) (?layers @ [spec_entry ?new])
      (next_moves (o_timestamp_ns ?new) (Some p) (Some (p - 1 / 4)) (next_moves (T + 4000000000) (Some p) None moves'))
      (next_best (Some p) (Some (p - 1 / 4))) (Some 1)
      (insert (o_order_id ?new, tracked_in (?layers @ [spec_entry ?new]) ?new) ?known) found"
    by (rule knows_bid [OF cancelled]) (use s(2) in \<open>auto simp: layers_ids layers_known_Domain best_bid_with_layers\<close>)
  ultimately have renewed: "knows accounts (?es @ [OrderEvent ?new]) (?layers @ [spec_entry ?new]) [T + 4001000000] (Some (p - 1 / 4))
      (Some 1) (insert (spec_order.so_id (spec_entry ?new), tracked_in (?layers @ [spec_entry ?new]) ?new) ?known) found"
    by (simp add: next_best_def)
  have "knows accounts ((?es @ [OrderEvent ?new]) @ map (\<lambda>i. OrderEvent (lay_cancel c T i)) [0..<5]) (layers c T 5 5 @ [spec_entry ?new])
      [T + 4001000000] (Some (p - 1 / 4)) (Some 1)
      (insert (spec_order.so_id (spec_entry ?new), tracked_in (?layers @ [spec_entry ?new]) ?new) (layers_known c T ?bid 5 5))
      (found @ map (\<lambda>i. ([spoofer_account], [sarao_order_id (c + int i + 1)])) [0..<5])"
    by (rule cancel_layers [OF renewed]) (use s(2) in simp_all)
  then have "knows accounts ((?es @ [OrderEvent ?new]) @ map (\<lambda>i. OrderEvent (lay_cancel c T i)) [0..<5]) [spec_entry ?new] [T + 4001000000]
      (Some (p - 1 / 4)) (Some 1) {(sarao_order_id (c + 6), tracked_in (?layers @ [spec_entry ?new]) ?new)} (found @ layer_alerts c)"
    by (simp add: layers_empty layer_alerts_def)
  moreover have "map order_event (sa_orders (sarao_cycle T s)) = (?es @ [OrderEvent ?new]) @ map (\<lambda>i. OrderEvent (lay_cancel c T i)) [0..<5]"
    using cycle_orders [of s ts p T] s(1) assms(2-4) by simp
  moreover have "sa_counter (sarao_cycle T s) = c + 6" "sa_bid_price (sarao_cycle T s) = p - 1 / 4"
    "sa_bid (sarao_cycle T s) = sarao_bid (c + 6) (T + 4001000000) (p - 1 / 4)"
    using assms(2-4) by (simp_all add: sarao_cycle_def Let_def layers_per_cycle_def sarao_tick_size_def bid_pulldown_delay_ns_def
        add.commute)
  ultimately show ?thesis
    using s(2) assms(5) unfolding at_cycle_def
    by (intro exI [of _ "[T + 4001000000]"] exI [of _ "tracked_in (?layers @ [spec_entry ?new]) ?new"] exI [of _ "T + 4001000000"])
      (simp add: tracked_in_def best_offer)
qed

section \<open>The whole case\<close>

definition spoofer_cancels :: "sim_order list \<Rightarrow> sim_order list" where
  "spoofer_cancels orders = filter (\<lambda>order. so_status order = SCancelled \<and> so_account_id order = spoofer_account) orders"

definition expected_alerts :: "sim_order list \<Rightarrow> (string list \<times> string list) list" where
  "expected_alerts orders = map (\<lambda>order. ([spoofer_account], [so_order_id order])) (spoofer_cancels orders)"

definition case_state :: "int \<Rightarrow> nat \<Rightarrow> sarao_state" where
  "case_state anchor n = fold (\<lambda>cycle. sarao_cycle (anchor + int cycle * 1620000000000)) [0..<n]
     \<lparr>sa_counter = 1, sa_bid = sarao_bid 1 anchor 1150, sa_bid_price = 1150, sa_orders = [sarao_bid 1 anchor 1150]\<rparr>"

lemma build_sarao_case_eq: "build_sarao_case anchor = \<lparr>sc_orders = sa_orders (case_state anchor 5), sc_executions = []\<rparr>"
proof -
  have "total_window_ns sdiv num_cycles = 1620000000000" by (simp add: total_window_ns_def num_cycles_def signed_divide_int_def)
  moreover have "[0..num_cycles - 1] = map int [0..<5]" by (simp add: num_cycles_def upt_rec upto_rec1)
  ultimately show ?thesis
    by (simp add: build_sarao_case_def case_state_def Let_def sarao_reference_price_def fold_map comp_def del: upt_Suc)
qed

lemma accounts_differ [simp]: "spoofer_account \<noteq> bid_liquidity_account" "bid_liquidity_account \<noteq> spoofer_account"
  by (simp_all add: spoofer_account_def bid_liquidity_account_def)

lemma cycle_expected:
  assumes "sa_bid s = sarao_bid c ts p"
  shows "expected_alerts (sa_orders (sarao_cycle T s)) = expected_alerts (sa_orders s) @ layer_alerts (sa_counter s)"
  using assms
  by (simp add: expected_alerts_def spoofer_cancels_def sarao_cycle_def Let_def sarao_bid_def sarao_layer_def plain_sim_order_def
      layer_alerts_def layers_per_cycle_def filter_map comp_def del: upt_Suc)

lemma cycle_sorted:
  assumes "sorted (map sim_order.so_timestamp_ns (sa_orders s))" and "list_all (\<lambda>order. sim_order.so_timestamp_ns order \<le> T) (sa_orders s)"
    and "T + 10000000000 \<le> T'"
  shows "sorted (map sim_order.so_timestamp_ns (sa_orders (sarao_cycle T s)))"
    and "list_all (\<lambda>order. sim_order.so_timestamp_ns order \<le> T') (sa_orders (sarao_cycle T s))"
proof -
  have five: "[0..<5] = [0, 1, 2, 3, 4 :: nat]" by (simp add: upt_rec)
  have times: "map sim_order.so_timestamp_ns (sa_orders (sarao_cycle T s)) = map sim_order.so_timestamp_ns (sa_orders s) @
      [T, T + 500000000, T + 1000000000, T + 1500000000, T + 2000000000, T + 4000000000, T + 4001000000,
       T + 8000000000, T + 8500000000, T + 9000000000, T + 9500000000, T + 10000000000]"
    by (simp add: sarao_cycle_def Let_def sarao_bid_def sarao_layer_def plain_sim_order_def layers_per_cycle_def five
        bid_pulldown_delay_ns_def sarao_layer_stagger_ns_def layer_dwell_ns_def)
  show "sorted (map sim_order.so_timestamp_ns (sa_orders (sarao_cycle T s)))"
    unfolding times using assms(1,2) by (auto simp: sorted_append list_all_iff)
  have "list_all (\<lambda>t. t \<le> T') (map sim_order.so_timestamp_ns (sa_orders (sarao_cycle T s)))"
    unfolding times using assms(2,3) by (auto simp: list_all_iff)
  then show "list_all (\<lambda>order. sim_order.so_timestamp_ns order \<le> T') (sa_orders (sarao_cycle T s))"
    by (simp add: list_all_iff)
qed

lemma case_start: "at_cycle accounts anchor (case_state anchor 0) []"
proof -
  have "keeps [] None Map.empty Map.empty empty_spoofing_state"
    by (simp add: keeps_def empty_spoofing_state_def tracker_at_def empty_tracker_def samples_of_def)
  then have "knows accounts [] [] [] None None {} []"
    using watched_Nil unfolding knows_def scene_def by (intro exI [of _ Map.empty] exI [of _ "[]"]) auto
  from knows_bid [OF this, of "bid_order 1 anchor 1150" "[spec_entry (bid_order 1 anchor 1150)]" "Some 1150"]
  have "knows accounts [OrderEvent (bid_order 1 anchor 1150)] [spec_entry (bid_order 1 anchor 1150)] [] (Some 1150) (Some 1)
      {(sarao_order_id 1, tracked_in [spec_entry (bid_order 1 anchor 1150)] (bid_order 1 anchor 1150))} []"
    by (simp add: list_best_buy next_moves_def next_best_def)
  then show ?thesis
    unfolding at_cycle_def by (intro exI) (auto simp: case_state_def order_event_def tracked_in_def list_best_def simp flip: bid_order_def)
qed

lemma case_cycles:
  assumes "n \<le> 5"
  shows "at_cycle accounts (anchor + int n * 1620000000000) (case_state anchor n) (expected_alerts (sa_orders (case_state anchor n))) \<and>
    sa_counter (case_state anchor n) = 6 * int n + 1 \<and> sa_bid_price (case_state anchor n) = 1150 - of_nat n / 4 \<and>
    length (expected_alerts (sa_orders (case_state anchor n))) = 5 * n \<and>
    sorted (map sim_order.so_timestamp_ns (sa_orders (case_state anchor n))) \<and>
    list_all (\<lambda>order. sim_order.so_timestamp_ns order \<le> anchor + int n * 1620000000000) (sa_orders (case_state anchor n))"
  using assms
proof (induction n)
  case 0
  have "expected_alerts (sa_orders (case_state anchor 0)) = []"
    by (simp add: case_state_def expected_alerts_def spoofer_cancels_def sarao_bid_def plain_sim_order_def)
  then show ?case using case_start by (simp add: case_state_def) (simp add: sarao_bid_def plain_sim_order_def)
next
  case (Suc n)
  let ?s = "case_state anchor n" and ?T = "anchor + int n * 1620000000000"
  have IH: "at_cycle accounts ?T ?s (expected_alerts (sa_orders ?s))" "sa_counter ?s = 6 * int n + 1"
    "sa_bid_price ?s = 1150 - of_nat n / 4" "length (expected_alerts (sa_orders ?s)) = 5 * n"
    "sorted (map sim_order.so_timestamp_ns (sa_orders ?s))" "list_all (\<lambda>order. sim_order.so_timestamp_ns order \<le> ?T) (sa_orders ?s)"
    using Suc by simp_all
  have next_state: "case_state anchor (Suc n) = sarao_cycle ?T ?s" by (simp add: case_state_def)
  have "n \<in> {0, 1, 2, 3, 4}" using Suc.prems by auto
  then have price: "fsub (1150 - of_nat n / 4) (1 / 4) = 1150 - of_nat n / 4 - 1 / 4" by auto (simp_all add: float_eval)
  obtain ts where bid: "sa_bid ?s = sarao_bid (6 * int n + 1) ts (1150 - of_nat n / 4)"
    using IH(1-3) by (auto simp: at_cycle_def)
  have "sa_counter (sarao_cycle ?T ?s) = 6 * int (Suc n) + 1" "sa_bid_price (sarao_cycle ?T ?s) = 1150 - of_nat (Suc n) / 4"
    using price by (simp_all add: sarao_cycle_def Let_def IH(2,3) layers_per_cycle_def sarao_tick_size_def field_simps)
  moreover have "at_cycle accounts (anchor + int (Suc n) * 1620000000000) (sarao_cycle ?T ?s) (expected_alerts (sa_orders (sarao_cycle ?T ?s)))"
    unfolding cycle_expected [OF bid] by (rule cycle_detected [OF IH(1) refl IH(3) price]) simp
  ultimately show ?case
    using cycle_sorted [OF IH(5,6), of "anchor + int (Suc n) * 1620000000000"] IH(4) cycle_expected [OF bid]
    unfolding next_state by (simp add: layer_alerts_def)
qed

section \<open>One detector among the others\<close>

lemma run_spoofing: "run_detector (evaluate_any accounts) evs (Spoofing_Layering_Detector config s) =
    apfst (Spoofing_Layering_Detector config) (run_detector (spoofing_layering_evaluate config accounts) evs s)"
proof (induction evs arbitrary: s)
  case (Cons be evs)
  then show ?case by (cases be) (simp add: split_beta Let_def apfst_def map_prod_def)
qed simp

lemma any_run: "configured d \<Longrightarrow> configured (fst (run_detector (evaluate_any accounts) evs d)) \<and>
    detector_name (fst (run_detector (evaluate_any accounts) evs d)) = detector_name d"
  by (induction evs rule: rev_induct)
    (auto simp: run_detector_snoc any_dispatch.dispatch_invar any_dispatch.dispatch_name)

lemma filter_concat_one:
  assumes "distinct (map name ds)" and "d \<in> set ds" and "\<And>d' a. d' \<in> set ds \<Longrightarrow> a \<in> set (f d') \<Longrightarrow> al_detector_name a = name d'"
  shows "filter (\<lambda>a. al_detector_name a = name d) (concat (map f ds)) = f d"
  using assms
proof (induction ds)
  case (Cons d' ds)
  have none: "filter (\<lambda>a. al_detector_name a = name d) (concat (map f xs)) = []" if "set xs \<subseteq> set (d' # ds)" "name d \<notin> name ` set xs" for xs
  proof (intro filter_False ballI)
    fix a
    assume "a \<in> set (concat (map f xs))"
    then obtain x where "x \<in> set xs" "a \<in> set (f x)" by auto
    then show "al_detector_name a \<noteq> name d" using Cons.prems(3) [of x a] that by auto
  qed
  show ?case
  proof (cases "d = d'")
    case True
    have "filter (\<lambda>a. al_detector_name a = name d) (f d) = f d" using Cons.prems(3) by (intro filter_True) (auto simp: True)
    then show ?thesis using none [of ds] Cons.prems(1) by (auto simp: True)
  next
    case False
    then have "name d \<noteq> name d'" using Cons.prems(1,2) by (auto simp: rev_image_eqI)
    then show ?thesis using none [of "[d']"] Cons.IH Cons.prems False by simp
  qed
qed simp

text \<open>What the sink holds under a detector's name is what the detector raises on its own, in order.\<close>

lemma consumer_named_alerts:
  assumes "list_all configured ds" and "distinct (map detector_name ds)" and "d \<in> set ds"
    and "lc_alert_sink (consumer_run ds accounts clock [] es) = Some alerts"
  shows "filter (\<lambda>a. al_detector_name a = detector_name d) alerts = snd (run_detector (evaluate_any accounts) (accepted_from [] es) d)"
  using assms(4)
proof (induction es arbitrary: alerts rule: rev_induct)
  case Nil
  then show ?case by (simp add: consumer_run_def new_consumer_def)
next
  case (snoc e es)
  let ?after = "\<lambda>d. fst (run_detector (evaluate_any accounts) (accepted_from [] es) d)"
  let ?found = "\<lambda>d. snd (evaluate_any accounts (own_book (es @ [e]) (instrument_id_of e)) e (?after d))"
  obtain earlier where earlier: "lc_alert_sink (consumer_run ds accounts clock [] es) = Some earlier"
    using consumer_run_result by blast
  have names: "al_detector_name a = detector_name d'" if "d' \<in> set ds" "a \<in> set (?found d')" for d' a
  proof -
    have "configured (?after d')" "detector_name (?after d') = detector_name d'"
      using assms(1) that(1) any_run by (auto simp: list_all_iff)
    then show ?thesis using any_dispatch.dispatch_conforms that(2) by (metis conforms_def)
  qed
  show ?case
    using snoc.prems snoc.IH [OF earlier] filter_concat_one [where f = ?found, OF assms(2,3) names]
    by (auto simp: consumer_run_snoc consumer_run_step(3) earlier accepted_from_snoc run_detector_alerts_snoc split: if_splits)
qed

section \<open>Properties\<close>

lemma spoofing_alerts_alone:
  "spoofing_alerts (replay_answer iter clock simulation events) =
     snd (run_detector (spoof_step (registered_accounts simulation)) (accepted_from [] events) empty_spoofing_state)"
proof -
  let ?ds = "make_five_detectors iter simulation" and ?d = "Spoofing_Layering_Detector default_spoofing_layering_config empty_spoofing_state"
  have ds: "list_all configured ?ds" "distinct (map detector_name ?ds)" "?d \<in> set ?ds"
    by (simp_all add: make_five_detectors_def sensible_def default_marking_config_def)
      (simp add: wash_trade_name_def spoofing_layering_name_def marking_the_close_name_def front_running_name_def
        statistical_baseline_name_def)
  obtain alerts where alerts: "lc_alert_sink (consumer_run ?ds (registered_accounts simulation) clock [] events) = Some alerts"
    using consumer_run_result by blast
  from consumer_named_alerts [OF ds alerts] show ?thesis
    by (simp add: spoofing_alerts_def replay_answer_def Let_def alerts run_spoofing spoofing_layering_name_def)
qed

lemma run_alert_threshold:
  "a \<in> set (snd (run_detector (spoofing_layering_evaluate config accounts) evs s)) \<Longrightarrow> sl_alert_threshold config \<le> al_score a"
  by (induction evs rule: rev_induct) (auto simp: run_detector_alerts_snoc dest: spoof_alert_threshold)

lemma max_score_upper: "a \<in> set alerts \<Longrightarrow> al_score a \<le> foldl (\<lambda>m a. if m < al_score a then al_score a else m) x alerts"
proof (induction alerts rule: rev_induct)
  case (snoc a' alerts)
  then show ?case by fastforce
qed simp

lemma sarao_stream:
  "to_ingestion_events (sarao_simulation anchor) = Inr (map order_event (sa_orders (case_state anchor 5)))"
proof -
  have "sorted (map timestamp_of (map order_event (sa_orders (case_state anchor 5))))"
    using case_cycles [of 5 empty_registry anchor] by (simp add: comp_def)
  then show ?thesis
    by (simp add: to_ingestion_events_Inr merged_events_def sarao_simulation_def build_sarao_case_eq sort_key_id_if_sorted)
qed

lemma sarao_case_replayed:
  "let simulation = sarao_simulation anchor; events = map order_event (sim_orders simulation);
       result = replay_answer iter clock simulation events; alerts = spoofing_alerts result;
       cancels = filter (\<lambda>order. so_status order = SCancelled \<and> so_account_id order = spoofer_account) (sim_orders simulation)
   in to_ingestion_events simulation = Inr events \<and> rr_events_skipped_inconsistent result = 0 \<and>
      count_cancels simulation = 25 \<and>
      map (\<lambda>a. (al_account_ids a, al_order_ids a)) alerts = map (\<lambda>order. ([spoofer_account], [so_order_id order])) cancels \<and>
      list_all (\<lambda>a. rnd64 (6 / 10) \<le> al_score a \<and> al_score a \<le> max_spoofing_score result) alerts"
proof -
  let ?sim = "sarao_simulation anchor" and ?events = "map order_event (sa_orders (case_state anchor 5))"
  let ?result = "replay_answer iter clock ?sim ?events"
  have orders: "sim_orders ?sim = sa_orders (case_state anchor 5)" by (simp add: sarao_simulation_def build_sarao_case_eq)
  note whole = case_cycles [of 5 "registered_accounts ?sim" anchor, simplified]
  have "int (length (expected_alerts (sim_orders ?sim))) = 25" using whole by (simp add: orders)
  then have "count_cancels ?sim = 25" by (simp add: count_cancels_def expected_alerts_def spoofer_cancels_def)
  moreover obtain st alerts L where run: "watched (registered_accounts ?sim) ?events L st alerts"
    "map (\<lambda>a. (al_account_ids a, al_order_ids a)) alerts = expected_alerts (sim_orders ?sim)"
    using whole by (auto simp: at_cycle_def knows_def scene_def orders)
  then have alerts: "spoofing_alerts ?result = alerts" and accepted: "map snd (accepted_from [] ?events) = ?events"
    by (simp_all add: spoofing_alerts_alone watched_def)
  moreover have "rr_events_skipped_inconsistent ?result = 0"
    using arg_cong [OF accepted, of length] by (simp add: replay_answer_def Let_def)
  moreover have "rnd64 (6 / 10) \<le> al_score a" if "a \<in> set alerts" for a
    using run_alert_threshold that run(1) by (metis default_config(3) snd_conv watched_def)
  moreover have "al_score a \<le> max_spoofing_score ?result" if "a \<in> set alerts" for a
    using that max_score_upper by (simp add: max_spoofing_score_def alerts)
  ultimately show ?thesis
    using sarao_stream [of anchor] run(2) by (simp add: orders list_all_iff expected_alerts_def spoofer_cancels_def)
qed

text \<open>
  C6: the documented case is detected.  Wherever in time it starts, the replay of the case
  of May 2010 refuses no event, and the spoofing detector, among the other four and with its default
  configuration, raises one alert for each of the 25 cancellations that \<open>sarao_validation_main.cpp\<close>
  counts, in their order, naming the spoofer and the cancelled layer, and no other; every score reaches the
  threshold of 0.6.
\<close>

theorem sarao_case_detected:
  "let simulation = sarao_simulation anchor; events = map order_event (sim_orders simulation);
       result = replay_answer iter clock simulation events; alerts = spoofing_alerts result;
       cancels = filter (\<lambda>order. so_status order = SCancelled \<and> so_account_id order = spoofer_account) (sim_orders simulation)
   in to_ingestion_events simulation = Inr events \<and> rr_events_skipped_inconsistent result = 0 \<and>
      count_cancels simulation = 25 \<and>
      map (\<lambda>a. (al_account_ids a, al_order_ids a)) alerts = map (\<lambda>order. ([spoofer_account], [so_order_id order])) cancels \<and>
      list_all (\<lambda>a. rnd64 (6 / 10) \<le> al_score a \<and> al_score a \<le> max_spoofing_score result) alerts"
  by (rule sarao_case_replayed)

end
