(* ===== verification/Alert_Store.thy ===== *)
theory Alert_Store
  imports Detector "HOL-Library.Multiset"
begin

text \<open>
  \<open>cpp/db/alert_store.cpp\<close>, \<open>stored_alert.hpp\<close>, \<open>db_config.cpp\<close> and the tables of \<open>schema.sql\<close>: the
  statements of the store over the three tables, one transaction per call under the store's mutex.
  The server and libpqxx are not modelled: how they read and write array literals, sort, convert a time and refuse a
  statement is a parameter \<open>postgres\<close>, with the documented behaviour \<open>documented\<close>; how a call ends is an
  argument of each operation.
\<close>

section \<open>Array literals\<close>

definition pg_quote :: char where "pg_quote = CHR 0x22"
definition pg_backslash :: char where "pg_backslash = CHR 0x5C"

definition escape_pg_char :: "char \<Rightarrow> string" where
  "escape_pg_char c = (if c = pg_quote \<or> c = pg_backslash then [pg_backslash, c] else [c])"

definition quoted_pg_element :: "string \<Rightarrow> string" where
  "quoted_pg_element item = [pg_quote] @ concat (map escape_pg_char item) @ [pg_quote]"

fun comma_separated :: "string list \<Rightarrow> string" where
  "comma_separated [] = []"
| "comma_separated (e # es) = e @ concat (map (\<lambda>e. '','' @ e) es)"

definition to_pg_text_array :: "string list \<Rightarrow> string" where
  "to_pg_text_array items = ''{'' @ comma_separated (map quoted_pg_element items) @ ''}''"

text \<open>The loop from an opening quote: the element, and what follows the closing quote.\<close>

fun read_pg_quoted :: "string \<Rightarrow> string \<times> string" where
  "read_pg_quoted [] = ([], [])"
| "read_pg_quoted [c] = (if c = pg_quote then [] else [c], [])"
| "read_pg_quoted (c # c' # rest) =
     (if c = pg_quote then ([], c' # rest)
      else if c = pg_backslash then apfst (Cons c') (read_pg_quoted rest)
      else apfst (Cons c) (read_pg_quoted (c' # rest)))"

lemma read_pg_quoted_shorter: "length (snd (read_pg_quoted s)) \<le> length s"
  by (induction s rule: read_pg_quoted.induct) (simp_all add: le_SucI)

function read_pg_elements :: "string \<Rightarrow> string list" where
  "read_pg_elements [] = []"
| "read_pg_elements (c # cs) =
     (if c = CHR '','' then read_pg_elements cs
      else if c = pg_quote then (let (element, rest) = read_pg_quoted cs in element # read_pg_elements rest)
      else takeWhile (\<lambda>x. x \<noteq> CHR '','') (c # cs) # read_pg_elements (dropWhile (\<lambda>x. x \<noteq> CHR '','') cs))"
  by pat_completeness auto
termination
  by (relation "measure length")
    (use read_pg_quoted_shorter in \<open>auto simp: less_Suc_eq_le length_dropWhile_le\<close>, metis read_pg_quoted_shorter snd_conv)

definition from_pg_text_array :: "string \<Rightarrow> string list" where
  "from_pg_text_array text =
     (if length text < 2 \<or> hd text \<noteq> CHR ''{'' \<or> last text \<noteq> CHR ''}'' then [] else read_pg_elements (butlast (tl text)))"

text \<open>
  The documented syntax of array literals: an element is quoted, with a backslash before any
  character that needs one, or it is a word without special characters other than \<open>NULL\<close>.
\<close>

inductive quoted_chars :: "string \<Rightarrow> string \<Rightarrow> bool" where
  none: "quoted_chars [] []"
| plain: "c \<noteq> pg_quote \<Longrightarrow> c \<noteq> pg_backslash \<Longrightarrow> quoted_chars text item \<Longrightarrow> quoted_chars (c # text) (c # item)"
| escaped: "quoted_chars text item \<Longrightarrow> quoted_chars (pg_backslash # c # text) (c # item)"

definition plain_element :: "string \<Rightarrow> bool" where
  "plain_element e \<longleftrightarrow> e \<noteq> [] \<and> list_all (\<lambda>c. c \<notin> set ''{},'' \<and> c \<noteq> pg_quote \<and> c \<noteq> pg_backslash \<and> c \<notin> {CHR '' '', CHR 0x09, CHR 0x0A, CHR 0x0B, CHR 0x0C, CHR 0x0D}) e \<and>
     \<not> list_all2 (\<lambda>c letters. c \<in> set letters) e [''Nn'', ''Uu'', ''Ll'', ''Ll'']"

definition element_text :: "string \<Rightarrow> string \<Rightarrow> bool" where
  "element_text e item \<longleftrightarrow> plain_element e \<and> item = e \<or> (\<exists>text. e = [pg_quote] @ text @ [pg_quote] \<and> quoted_chars text item)"

definition array_text :: "string \<Rightarrow> string list \<Rightarrow> bool" where
  "array_text text items \<longleftrightarrow> (\<exists>es. text = ''{'' @ comma_separated es @ ''}'' \<and> list_all2 element_text es items)"

section \<open>Reading any literal of a list\<close>

lemma quoted_chars_read: "quoted_chars text item \<Longrightarrow> read_pg_quoted (text @ pg_quote # rest) = (item, rest)"
proof (induction rule: quoted_chars.induct)
  case none
  then show ?case by (cases rest) simp_all
next
  case (plain c body item)
  then show ?case by (cases "body @ pg_quote # rest") simp_all
next
  case (escaped body item c)
  then show ?case by (simp add: pg_quote_def pg_backslash_def)
qed

lemma quoted_chars_escape: "quoted_chars (concat (map escape_pg_char item)) item"
  by (induction item) (auto simp: escape_pg_char_def intro: quoted_chars.intros)

lemma read_element:
  assumes "element_text e item" and "rest = [] \<or> hd rest = CHR '',''"
  shows "read_pg_elements (e @ rest) = item # read_pg_elements rest"
proof (cases "plain_element e \<and> item = e")
  case True
  then obtain c cs where e: "e = c # cs" "c \<noteq> CHR '',''" "c \<noteq> pg_quote" "CHR '','' \<notin> set cs"
    by (cases e) (auto simp: plain_element_def list_all_iff)
  have "takeWhile (\<lambda>x. x \<noteq> CHR '','') (cs @ rest) = cs @ takeWhile (\<lambda>x. x \<noteq> CHR '','') rest"
    "dropWhile (\<lambda>x. x \<noteq> CHR '','') (cs @ rest) = dropWhile (\<lambda>x. x \<noteq> CHR '','') rest"
    using e(4) by (auto intro!: takeWhile_append2 dropWhile_append2)
  moreover have "takeWhile (\<lambda>x. x \<noteq> CHR '','') rest = []" "dropWhile (\<lambda>x. x \<noteq> CHR '','') rest = rest"
    using assms(2) by (cases rest; simp)+
  ultimately show ?thesis using e True by simp
next
  case False
  then obtain body where e: "e = pg_quote # body @ [pg_quote]" "quoted_chars body item"
    using assms(1) by (auto simp: element_text_def)
  then show ?thesis using quoted_chars_read [OF e(2)] by (simp add: pg_quote_def)
qed

lemma read_commas: "list_all2 element_text es items \<Longrightarrow> read_pg_elements (concat (map (\<lambda>e. '','' @ e) es)) = items"
proof (induction rule: list_all2_induct)
  case (Cons e es item items)
  have "concat (map (\<lambda>e. '','' @ e) es) = [] \<or> hd (concat (map (\<lambda>e. '','' @ e) es)) = CHR '',''" by (cases es) simp_all
  from read_element [OF Cons.hyps(1) this] Cons.IH show ?case by simp
qed simp

lemma array_literal:
  "(array_text text items \<longrightarrow> from_pg_text_array text = items) \<and> array_text (to_pg_text_array items) items"
proof
  show "array_text text items \<longrightarrow> from_pg_text_array text = items"
  proof
    assume "array_text text items"
    then obtain es where literal: "text = ''{'' @ comma_separated es @ ''}''" and es: "list_all2 element_text es items"
      by (auto simp: array_text_def)
    have "read_pg_elements (comma_separated es) = items"
    proof (cases es)
      case (Cons e es')
      then obtain item items' where items: "items = item # items'" "element_text e item" "list_all2 element_text es' items'"
        using es by (auto simp: list_all2_Cons1)
      have "concat (map (\<lambda>e. '','' @ e) es') = [] \<or> hd (concat (map (\<lambda>e. '','' @ e) es')) = CHR '',''" by (cases es') simp_all
      from read_element [OF items(2) this] show ?thesis
        unfolding Cons items(1) comma_separated.simps read_commas [OF items(3)] .
    qed (use es in simp)
    then show "from_pg_text_array text = items" by (simp add: literal from_pg_text_array_def butlast_append)
  qed
  have "list_all2 element_text (map quoted_pg_element items) items"
    using quoted_chars_escape by (auto simp: list_all2_conv_all_nth element_text_def quoted_pg_element_def)
  then show "array_text (to_pg_text_array items) items" unfolding array_text_def to_pg_text_array_def by blast
qed

section \<open>The database\<close>

record db_config =
  dc_host :: string
  dc_port :: int
  dc_dbname :: string
  dc_user :: string
  dc_password :: string

definition default_db_config :: db_config where
  "default_db_config = \<lparr>dc_host = ''127.0.0.1'', dc_port = 5432, dc_dbname = ''trade_surveillance'', dc_user = ''tse'',
     dc_password = ''tse_dev_password''\<rparr>"

definition connection_string :: "db_config \<Rightarrow> string" where
  "connection_string config = ''host='' @ dc_host config @ '' port='' @ show_int (dc_port config) @ '' dbname='' @ dc_dbname config @
     '' user='' @ dc_user config @ '' password='' @ dc_password config"

record order_row =
  rw_order_id :: string
  rw_orig_order_id :: string
  rw_account_id :: string
  rw_instrument_id :: string
  rw_side :: string
  rw_price :: double
  rw_qty :: int
  rw_order_type :: string
  rw_status :: string
  rw_venue :: string
  rw_timestamp_ns :: int
  rw_event_time :: int

record trade_row =
  tw_trade_id :: string
  tw_order_id :: string
  tw_account_id :: string
  tw_counterparty_account_id :: string
  tw_instrument_id :: string
  tw_side :: string
  tw_price :: double
  tw_qty :: int
  tw_venue :: string
  tw_timestamp_ns :: int
  tw_event_time :: int

record alert_row =
  ar_alert_id :: int
  ar_detector_name :: string
  ar_score :: double
  ar_instrument_id :: string
  ar_account_ids :: "string list"
  ar_order_ids :: "string list"
  ar_window_start_ns :: int
  ar_window_end_ns :: int
  ar_evidence :: string
  ar_model_version :: "string option"
  ar_book_snapshot_sequence :: "int option"
  ar_status :: string
  ar_event_time :: int

record alert_db =
  db_orders :: "order_row list"
  db_trades :: "trade_row list"
  db_alerts :: "alert_row list"
  db_next_alert_id :: int

definition empty_db :: alert_db where
  "empty_db = \<lparr>db_orders = [], db_trades = [], db_alerts = [], db_next_alert_id = 1\<rparr>"

record postgres =
  pg_array_in :: "string \<Rightarrow> string list option"
  pg_array_out :: "string list \<Rightarrow> string"
  pg_order_by :: "(alert_row \<Rightarrow> int) \<Rightarrow> alert_row list \<Rightarrow> alert_row list"
  pg_to_timestamp :: "double \<Rightarrow> int"
  pg_refuses :: "string list \<Rightarrow> string option"
  pg_unique_violation :: string
  pg_check_violation :: string
  pg_malformed_array :: string
  pg_negative_limit :: string

text \<open>Array syntax in both directions; no text, no refusal of a text; \<open>ORDER BY\<close> sorts, in any order among equal keys.\<close>

definition documented :: "postgres \<Rightarrow> bool" where
  "documented pg \<longleftrightarrow>
     (\<forall>text items. array_text text items \<longrightarrow> pg_array_in pg text = Some items) \<and>
     (\<forall>items. array_text (pg_array_out pg items) items) \<and> pg_refuses pg [] = None \<and>
     (\<forall>key rows. mset (pg_order_by pg key rows) = mset rows \<and> sorted (map key (pg_order_by pg key rows)))"

text \<open>
  How a call ends: the transaction runs (some serial numbers may have been lost before it), or the
  connection fails before it has committed, or while it commits, and then the exception does not say whether it did.
\<close>

datatype server_answer = Completed nat | Failed string nat | Lost_Commit string nat

definition skip_ids :: "nat \<Rightarrow> alert_db \<Rightarrow> alert_db" where
  "skip_ids lost db = db\<lparr>db_next_alert_id := db_next_alert_id db + int lost\<rparr>"

definition transact :: "server_answer \<Rightarrow> (alert_db \<Rightarrow> string + 'a \<times> alert_db) \<Rightarrow> alert_db \<Rightarrow> (string + 'a) \<times> alert_db" where
  "transact answer statements db =
     (case answer of
        Failed msg lost \<Rightarrow> (Inl msg, skip_ids lost db)
      | Completed lost \<Rightarrow>
          (case statements (skip_ids lost db) of Inl msg \<Rightarrow> (Inl msg, skip_ids lost db) | Inr (x, db') \<Rightarrow> (Inr x, db'))
      | Lost_Commit msg lost \<Rightarrow>
          (case statements (skip_ids lost db) of Inl msg' \<Rightarrow> (Inl msg', skip_ids lost db) | Inr (x, db') \<Rightarrow> (Inl msg, db')))"

definition event_time :: "postgres \<Rightarrow> int \<Rightarrow> int" where
  "event_time pg ns = pg_to_timestamp pg (fdiv (to_double ns) 1000000000)"

section \<open>Writing\<close>

definition insert_order :: "postgres \<Rightarrow> server_answer \<Rightarrow> order \<Rightarrow> alert_db \<Rightarrow> (string + unit) \<times> alert_db" where
  "insert_order pg answer order = transact answer (\<lambda>db.
     let row = \<lparr>rw_order_id = o_order_id order, rw_orig_order_id = o_orig_order_id order, rw_account_id = o_account_id order,
           rw_instrument_id = o_instrument_id order, rw_side = side_to_string (o_side order), rw_price = o_price order,
           rw_qty = o_qty order, rw_order_type = order_type_to_string (o_order_type order),
           rw_status = order_status_to_string (o_status order), rw_venue = o_venue order,
           rw_timestamp_ns = o_timestamp_ns order, rw_event_time = event_time pg (o_timestamp_ns order)\<rparr>
     in case pg_refuses pg [rw_order_id row, rw_orig_order_id row, rw_account_id row, rw_instrument_id row, rw_side row,
            rw_order_type row, rw_status row, rw_venue row] of
          Some msg \<Rightarrow> Inl msg
        | None \<Rightarrow>
            if list_ex (\<lambda>r. rw_order_id r = rw_order_id row \<and> rw_event_time r = rw_event_time row) (db_orders db)
            then Inl (pg_unique_violation pg)
            else Inr ((), db\<lparr>db_orders := db_orders db @ [row]\<rparr>))"

definition insert_execution :: "postgres \<Rightarrow> server_answer \<Rightarrow> execution \<Rightarrow> alert_db \<Rightarrow> (string + unit) \<times> alert_db" where
  "insert_execution pg answer execution = transact answer (\<lambda>db.
     let row = \<lparr>tw_trade_id = x_trade_id execution, tw_order_id = x_order_id execution, tw_account_id = x_account_id execution,
           tw_counterparty_account_id = x_counterparty_account_id execution, tw_instrument_id = x_instrument_id execution,
           tw_side = side_to_string (x_side execution), tw_price = x_price execution, tw_qty = x_qty execution,
           tw_venue = x_venue execution, tw_timestamp_ns = x_timestamp_ns execution,
           tw_event_time = event_time pg (x_timestamp_ns execution)\<rparr>
     in case pg_refuses pg [tw_trade_id row, tw_order_id row, tw_account_id row, tw_counterparty_account_id row,
            tw_instrument_id row, tw_side row, tw_venue row] of
          Some msg \<Rightarrow> Inl msg
        | None \<Rightarrow>
            if list_ex (\<lambda>r. tw_trade_id r = tw_trade_id row \<and> tw_event_time r = tw_event_time row) (db_trades db)
            then Inl (pg_unique_violation pg)
            else Inr ((), db\<lparr>db_trades := db_trades db @ [row]\<rparr>))"

definition alert_texts :: "alert \<Rightarrow> string list" where
  "alert_texts alert =
     [al_detector_name alert, al_instrument_id alert, to_pg_text_array (al_account_ids alert),
      to_pg_text_array (al_order_ids alert), al_evidence alert] @
     (case al_model_version alert of None \<Rightarrow> [] | Some v \<Rightarrow> [v])"

definition open_status :: string where "open_status = ''OPEN''"
definition allowed_statuses :: "string list" where
  "allowed_statuses = [''OPEN'', ''UNDER_REVIEW'', ''ESCALATED'', ''CLOSED'']"

definition insert_alert :: "postgres \<Rightarrow> server_answer \<Rightarrow> alert \<Rightarrow> alert_db \<Rightarrow> (string + int) \<times> alert_db" where
  "insert_alert pg answer alert = transact answer (\<lambda>db.
     case (pg_refuses pg (alert_texts alert), pg_array_in pg (to_pg_text_array (al_account_ids alert)),
           pg_array_in pg (to_pg_text_array (al_order_ids alert))) of
       (Some msg, _, _) \<Rightarrow> Inl msg
     | (None, Some account_ids, Some order_ids) \<Rightarrow>
         let alert_id = db_next_alert_id db;
             row = \<lparr>ar_alert_id = alert_id, ar_detector_name = al_detector_name alert, ar_score = al_score alert,
               ar_instrument_id = al_instrument_id alert, ar_account_ids = account_ids, ar_order_ids = order_ids,
               ar_window_start_ns = al_window_start_ns alert, ar_window_end_ns = al_window_end_ns alert,
               ar_evidence = al_evidence alert, ar_model_version = al_model_version alert,
               ar_book_snapshot_sequence = al_book_snapshot_sequence alert, ar_status = open_status,
               ar_event_time = event_time pg (al_window_start_ns alert)\<rparr>
         in Inr (alert_id, db\<lparr>db_alerts := db_alerts db @ [row], db_next_alert_id := alert_id + 1\<rparr>)
     | _ \<Rightarrow> Inl (pg_malformed_array pg))"

definition update_alert_status ::
    "postgres \<Rightarrow> server_answer \<Rightarrow> int \<Rightarrow> string \<Rightarrow> alert_db \<Rightarrow> (string + unit) \<times> alert_db" where
  "update_alert_status pg answer alert_id new_status = transact answer (\<lambda>db.
     case pg_refuses pg [new_status] of
       Some msg \<Rightarrow> Inl msg
     | None \<Rightarrow>
         if \<not> list_ex (\<lambda>row. ar_alert_id row = alert_id) (db_alerts db)
         then Inl (''update_alert_status: no alert with alert_id='' @ show_int alert_id)
         else if new_status \<notin> set allowed_statuses then Inl (pg_check_violation pg)
         else Inr ((), db\<lparr>db_alerts :=
           map (\<lambda>row. if ar_alert_id row = alert_id then row\<lparr>ar_status := new_status\<rparr> else row) (db_alerts db)\<rparr>))"

text \<open>Every statement of \<open>schema.sql\<close> is \<open>IF NOT EXISTS\<close>: over the tables it does nothing.\<close>

definition apply_schema :: "server_answer \<Rightarrow> alert_db \<Rightarrow> (string + unit) \<times> alert_db" where
  "apply_schema answer = transact answer (\<lambda>db. Inr ((), db))"

definition truncate_all :: "server_answer \<Rightarrow> alert_db \<Rightarrow> (string + unit) \<times> alert_db" where
  "truncate_all answer = transact answer (\<lambda>db. Inr ((), db\<lparr>db_orders := [], db_trades := [], db_alerts := []\<rparr>))"

section \<open>Reading\<close>

record stored_alert =
  st_alert_id :: int
  st_alert :: alert
  st_status :: string

definition rows_to_stored_alerts :: "postgres \<Rightarrow> alert_row list \<Rightarrow> stored_alert list" where
  "rows_to_stored_alerts pg = map (\<lambda>row.
     \<lparr>st_alert_id = ar_alert_id row,
      st_alert = \<lparr>al_detector_name = ar_detector_name row, al_score = ar_score row, al_instrument_id = ar_instrument_id row,
        al_account_ids = from_pg_text_array (pg_array_out pg (ar_account_ids row)),
        al_order_ids = from_pg_text_array (pg_array_out pg (ar_order_ids row)),
        al_window_start_ns = ar_window_start_ns row, al_window_end_ns = ar_window_end_ns row, al_evidence = ar_evidence row,
        al_model_version = ar_model_version row, al_book_snapshot_sequence = ar_book_snapshot_sequence row\<rparr>,
      st_status = ar_status row\<rparr>)"

text \<open>A transaction that only reads, with the texts it binds.\<close>

definition reading :: "postgres \<Rightarrow> server_answer \<Rightarrow> string list \<Rightarrow> (alert_db \<Rightarrow> 'a) \<Rightarrow> alert_db \<Rightarrow> (string + 'a) \<times> alert_db" where
  "reading pg answer texts query = transact answer (\<lambda>db.
     case pg_refuses pg texts of Some msg \<Rightarrow> Inl msg | None \<Rightarrow> Inr (query db, db))"

definition query_alerts_by_time_range ::
    "postgres \<Rightarrow> server_answer \<Rightarrow> int \<Rightarrow> int \<Rightarrow> alert_db \<Rightarrow> (string + stored_alert list) \<times> alert_db" where
  "query_alerts_by_time_range pg answer window_start_ns window_end_ns = reading pg answer [] (\<lambda>db.
     rows_to_stored_alerts pg (pg_order_by pg ar_window_start_ns
       (filter (\<lambda>row. window_start_ns \<le> ar_window_start_ns row \<and> ar_window_start_ns row \<le> window_end_ns) (db_alerts db))))"

definition query_alerts_by_account ::
    "postgres \<Rightarrow> server_answer \<Rightarrow> string \<Rightarrow> alert_db \<Rightarrow> (string + stored_alert list) \<times> alert_db" where
  "query_alerts_by_account pg answer account_id = reading pg answer [account_id] (\<lambda>db.
     rows_to_stored_alerts pg (pg_order_by pg ar_alert_id (filter (\<lambda>row. account_id \<in> set (ar_account_ids row)) (db_alerts db))))"

definition query_alerts_by_detector ::
    "postgres \<Rightarrow> server_answer \<Rightarrow> string \<Rightarrow> alert_db \<Rightarrow> (string + stored_alert list) \<times> alert_db" where
  "query_alerts_by_detector pg answer detector_name = reading pg answer [detector_name] (\<lambda>db.
     rows_to_stored_alerts pg (pg_order_by pg ar_alert_id (filter (\<lambda>row. ar_detector_name row = detector_name) (db_alerts db))))"

text \<open>\<open>LIMIT\<close> and \<open>OFFSET\<close>; a negative one is an error of the statement.\<close>

definition list_recent_alerts :: "postgres \<Rightarrow> server_answer \<Rightarrow> int \<Rightarrow> alert_db \<Rightarrow> (string + stored_alert list) \<times> alert_db" where
  "list_recent_alerts pg answer limit = transact answer (\<lambda>db.
     if limit < 0 then Inl (pg_negative_limit pg)
     else Inr (rows_to_stored_alerts pg (take (nat limit) (pg_order_by pg (\<lambda>row. - ar_alert_id row) (db_alerts db))), db))"

record paginated_alerts =
  pa_alerts :: "stored_alert list"
  pa_total_count :: int

definition matches_filters :: "string option \<Rightarrow> string option \<Rightarrow> alert_row \<Rightarrow> bool" where
  "matches_filters detector_name status row \<longleftrightarrow>
     (detector_name = None \<or> Some (ar_detector_name row) = detector_name) \<and> (status = None \<or> Some (ar_status row) = status)"

definition list_alerts_paginated ::
    "postgres \<Rightarrow> server_answer \<Rightarrow> string option \<Rightarrow> string option \<Rightarrow> int \<Rightarrow> int \<Rightarrow> alert_db
     \<Rightarrow> (string + paginated_alerts) \<times> alert_db" where
  "list_alerts_paginated pg answer detector_name status limit offset = transact answer (\<lambda>db.
     case pg_refuses pg ((case detector_name of None \<Rightarrow> [] | Some d \<Rightarrow> [d]) @ (case status of None \<Rightarrow> [] | Some s \<Rightarrow> [s])) of
       Some msg \<Rightarrow> Inl msg
     | None \<Rightarrow>
         if limit < 0 \<or> offset < 0 then Inl (pg_negative_limit pg)
         else let rows = filter (matches_filters detector_name status) (db_alerts db)
              in Inr (\<lparr>pa_alerts = rows_to_stored_alerts pg (take (nat limit) (drop (nat offset)
                         (pg_order_by pg (\<lambda>row. - ar_alert_id row) rows))),
                       pa_total_count = int (length rows)\<rparr>, db))"

definition get_alert :: "postgres \<Rightarrow> server_answer \<Rightarrow> int \<Rightarrow> alert_db \<Rightarrow> (string + stored_alert option) \<times> alert_db" where
  "get_alert pg answer alert_id = reading pg answer [] (\<lambda>db.
     let rows = filter (\<lambda>row. ar_alert_id row = alert_id) (db_alerts db)
     in if rows = [] then None else Some (hd (rows_to_stored_alerts pg rows)))"

definition is_connected :: "server_answer \<Rightarrow> alert_db \<Rightarrow> bool \<times> alert_db" where
  "is_connected answer db = (case transact answer (\<lambda>db. Inr ((), db)) db of (Inl msg, db') \<Rightarrow> (False, db') | (Inr _, db') \<Rightarrow> (True, db'))"

end
