(* ===== verification/Store_Properties.thy ===== *)
theory Store_Properties
  imports Alert_Store
begin

text \<open>
  What the alert store promises: literals are read back, an alert stays as it was inserted whatever
  else is done to the store, pages are consecutive parts of one list, and a status is one of four.
\<close>

section \<open>The invariant of the tables\<close>

definition store_ok :: "alert_db \<Rightarrow> bool" where
  "store_ok db \<longleftrightarrow> sorted_wrt (<) (map ar_alert_id (db_alerts db)) \<and>
     list_all (\<lambda>row. ar_alert_id row < db_next_alert_id db \<and> ar_status row \<in> set allowed_statuses) (db_alerts db)"

datatype store_op = Insert_Order order | Insert_Execution execution | Insert_Alert alert | Update_Status int string | Truncate_All

fun store_step :: "postgres \<Rightarrow> server_answer \<times> store_op \<Rightarrow> alert_db \<Rightarrow> alert_db" where
  "store_step pg (answer, Insert_Order order) db = snd (insert_order pg answer order db)"
| "store_step pg (answer, Insert_Execution x) db = snd (insert_execution pg answer x db)"
| "store_step pg (answer, Insert_Alert alert) db = snd (insert_alert pg answer alert db)"
| "store_step pg (answer, Update_Status alert_id status) db = snd (update_alert_status pg answer alert_id status db)"
| "store_step pg (answer, Truncate_All) db = snd (truncate_all answer db)"

text \<open>Every call leaves the database as it was but for lost serial numbers, or does what its statements do.\<close>

lemma transact_cases:
  assumes "snd (transact answer statements db) = db'"
  obtains lost where "db' = skip_ids lost db"
    | lost x where "statements (skip_ids lost db) = Inr (x, db')"
  using assms by (auto simp: transact_def split: server_answer.splits sum.splits)

lemma transact_Inr: "transact answer statements db = (Inr x, db') \<Longrightarrow> \<exists>lost. statements (skip_ids lost db) = Inr (x, db')"
  by (auto simp: transact_def split: server_answer.splits sum.splits)

lemma skip_ids_fields [simp]:
  "db_alerts (skip_ids lost db) = db_alerts db" "db_orders (skip_ids lost db) = db_orders db"
  "db_trades (skip_ids lost db) = db_trades db" "db_next_alert_id (skip_ids lost db) = db_next_alert_id db + int lost"
  by (simp_all add: skip_ids_def)

lemma skip_ids_ok: "store_ok db \<Longrightarrow> store_ok (skip_ids lost db)"
  by (auto simp: store_ok_def list_all_iff)

lemma store_okI:
  "db_alerts db' = db_alerts db \<Longrightarrow> db_next_alert_id db' = db_next_alert_id db \<Longrightarrow> store_ok db \<Longrightarrow> store_ok db'"
  by (simp add: store_ok_def)

definition alert_row_of :: "postgres \<Rightarrow> int \<Rightarrow> alert \<Rightarrow> alert_row" where
  "alert_row_of pg alert_id alert =
     \<lparr>ar_alert_id = alert_id, ar_detector_name = al_detector_name alert, ar_score = al_score alert,
      ar_instrument_id = al_instrument_id alert, ar_account_ids = al_account_ids alert, ar_order_ids = al_order_ids alert,
      ar_window_start_ns = al_window_start_ns alert, ar_window_end_ns = al_window_end_ns alert,
      ar_evidence = al_evidence alert, ar_model_version = al_model_version alert,
      ar_book_snapshot_sequence = al_book_snapshot_sequence alert, ar_status = open_status,
      ar_event_time = event_time pg (al_window_start_ns alert)\<rparr>"

definition set_status :: "int \<Rightarrow> string \<Rightarrow> alert_row list \<Rightarrow> alert_row list" where
  "set_status alert_id status = map (\<lambda>row. if ar_alert_id row = alert_id then row\<lparr>ar_status := status\<rparr> else row)"

text \<open>What an operation may do to the alerts.\<close>

inductive alert_effect :: "postgres \<Rightarrow> store_op \<Rightarrow> alert_db \<Rightarrow> alert_db \<Rightarrow> bool" for pg where
  same: "db_alerts db' = db_alerts db \<Longrightarrow> db_next_alert_id db \<le> db_next_alert_id db' \<Longrightarrow> alert_effect pg op db db'"
| added: "db_alerts db' = db_alerts db @ [alert_row_of pg alert_id alert] \<Longrightarrow> db_next_alert_id db \<le> alert_id \<Longrightarrow>
    db_next_alert_id db' = alert_id + 1 \<Longrightarrow> alert_effect pg (Insert_Alert alert) db db'"
| updated: "db_alerts db' = set_status alert_id status (db_alerts db) \<Longrightarrow> status \<in> set allowed_statuses \<Longrightarrow>
    db_next_alert_id db \<le> db_next_alert_id db' \<Longrightarrow> alert_effect pg (Update_Status alert_id status) db db'"
| cleared: "db_alerts db' = [] \<Longrightarrow> db_next_alert_id db \<le> db_next_alert_id db' \<Longrightarrow> alert_effect pg Truncate_All db db'"

lemma documented_arrays:
  assumes "documented pg"
  shows "pg_array_in pg (to_pg_text_array items) = Some items" "from_pg_text_array (pg_array_out pg items) = items"
    "pg_refuses pg [] = None"
  using assms array_literal by (auto simp: documented_def)

lemma insert_alert_statements:
  assumes "documented pg" and "insert_alert pg answer alert db = (Inr alert_id, db')"
  shows "db_alerts db' = db_alerts db @ [alert_row_of pg alert_id alert]" "db_next_alert_id db \<le> alert_id"
    "db_next_alert_id db' = alert_id + 1"
  using assms
  by (auto simp: insert_alert_def documented_arrays alert_row_of_def Let_def dest!: transact_Inr split: option.splits)

lemma store_step_effect:
  assumes "documented pg" and "store_step pg (answer, op) db = db'"
  shows "alert_effect pg op db db'"
proof -
  have skipped: "alert_effect pg op db (skip_ids lost db)" for lost by (rule same) simp_all
  show ?thesis
  proof (cases op)
    case (Insert_Order order)
    have "snd (insert_order pg answer order db) = db'" using assms(2) by (simp add: Insert_Order)
    then show ?thesis
      unfolding insert_order_def Let_def
      by (elim transact_cases) (use skipped in \<open>auto intro!: same split: option.splits if_splits\<close>)
  next
    case (Insert_Execution x)
    have "snd (insert_execution pg answer x db) = db'" using assms(2) by (simp add: Insert_Execution)
    then show ?thesis
      unfolding insert_execution_def Let_def
      by (elim transact_cases) (use skipped in \<open>auto intro!: same split: option.splits if_splits\<close>)
  next
    case (Insert_Alert alert)
    have "snd (insert_alert pg answer alert db) = db'" using assms(2) by (simp add: Insert_Alert)
    then show ?thesis
      unfolding insert_alert_def
      by (elim transact_cases)
        (use skipped assms(1) in \<open>auto simp: Insert_Alert documented_arrays alert_row_of_def Let_def intro: added split: option.splits\<close>)
  next
    case (Update_Status alert_id status)
    have "snd (update_alert_status pg answer alert_id status db) = db'" using assms(2) by (simp add: Update_Status)
    then show ?thesis
      unfolding update_alert_status_def
      by (elim transact_cases)
        (use skipped in \<open>auto simp: Update_Status set_status_def [symmetric] intro: updated split: option.splits if_splits\<close>)
  next
    case Truncate_All
    have "snd (truncate_all answer db) = db'" using assms(2) by (simp add: Truncate_All)
    then show ?thesis
      unfolding truncate_all_def by (elim transact_cases) (use skipped in \<open>auto simp: Truncate_All intro!: cleared\<close>)
  qed
qed

lemma set_status_fields [simp]:
  "map ar_alert_id (set_status alert_id status rows) = map ar_alert_id rows"
  by (simp add: set_status_def)

lemma alert_effect_ok: "alert_effect pg op db db' \<Longrightarrow> store_ok db \<Longrightarrow> store_ok db'"
proof (induction rule: alert_effect.induct)
  case (same db' db op)
  then show ?case by (auto simp: store_ok_def list_all_iff)
next
  case (added db' db alert_id alert)
  then show ?case
    by (fastforce simp: store_ok_def list_all_iff sorted_wrt_append alert_row_of_def open_status_def allowed_statuses_def)
next
  case (updated db' alert_id status db)
  then show ?case by (auto simp: store_ok_def list_all_iff) (auto simp: set_status_def)
next
  case (cleared db' db)
  then show ?case by (simp add: store_ok_def)
qed

lemma store_steps_ok: "documented pg \<Longrightarrow> store_ok db \<Longrightarrow> store_ok (fold (store_step pg) calls db)"
  by (induction calls arbitrary: db) (auto intro: alert_effect_ok store_step_effect [OF _ refl])

section \<open>Reading back\<close>

definition stored_of :: "alert_row \<Rightarrow> stored_alert" where
  "stored_of row =
     \<lparr>st_alert_id = ar_alert_id row,
      st_alert = \<lparr>al_detector_name = ar_detector_name row, al_score = ar_score row, al_instrument_id = ar_instrument_id row,
        al_account_ids = ar_account_ids row, al_order_ids = ar_order_ids row,
        al_window_start_ns = ar_window_start_ns row, al_window_end_ns = ar_window_end_ns row, al_evidence = ar_evidence row,
        al_model_version = ar_model_version row, al_book_snapshot_sequence = ar_book_snapshot_sequence row\<rparr>,
      st_status = ar_status row\<rparr>"

lemma rows_stored: "documented pg \<Longrightarrow> rows_to_stored_alerts pg rows = map stored_of rows"
  by (simp add: rows_to_stored_alerts_def stored_of_def documented_arrays)

lemma stored_row: "stored_of (alert_row_of pg alert_id alert) = \<lparr>st_alert_id = alert_id, st_alert = alert, st_status = open_status\<rparr>"
  by (simp add: stored_of_def alert_row_of_def)

lemma order_by_unique:
  assumes "documented pg" and "sorted (map key ys)" and "mset ys = mset rows" and "inj_on key (set rows)"
  shows "pg_order_by pg key rows = ys"
proof -
  have "mset (pg_order_by pg key rows) = mset rows" "sorted (map key (pg_order_by pg key rows))"
    using assms(1) by (simp_all add: documented_def)
  then have "sort_key key rows = pg_order_by pg key rows" "sort_key key rows = ys"
    using assms(2-4) by (intro sort_key_inj_key_eq; simp)+
  then show ?thesis by simp
qed

lemma ids_in_order:
  assumes "store_ok db"
  shows "sorted (map ar_alert_id (filter P (db_alerts db)))" "inj_on ar_alert_id (set (filter P (db_alerts db)))"
proof -
  have strict: "sorted_wrt (<) (map ar_alert_id (filter P (db_alerts db)))"
    using assms by (auto simp: store_ok_def sorted_wrt_map sorted_wrt_filter)
  then show "sorted (map ar_alert_id (filter P (db_alerts db)))" by (rule strict_sorted_imp_sorted)
  show "inj_on ar_alert_id (set (filter P (db_alerts db)))"
    using strict by (simp add: strict_sorted_iff distinct_map)
qed

lemma ordered_rows:
  assumes "documented pg" and "store_ok db"
  shows "pg_order_by pg ar_alert_id (filter P (db_alerts db)) = filter P (db_alerts db)"
    and "pg_order_by pg (\<lambda>row. - ar_alert_id row) (filter P (db_alerts db)) = rev (filter P (db_alerts db))"
proof -
  let ?rows = "filter P (db_alerts db)"
  show "pg_order_by pg ar_alert_id ?rows = ?rows"
    using ids_in_order [OF assms(2)] by (intro order_by_unique [OF assms(1)]) simp_all
  have "sorted (map (\<lambda>row. - ar_alert_id row) (rev ?rows))"
    using ids_in_order(1) [OF assms(2), of P] by (simp add: sorted_wrt_rev rev_map [symmetric] sorted_wrt_map)
  moreover have "inj_on (\<lambda>row. - ar_alert_id row) (set ?rows)"
    using ids_in_order(2) [OF assms(2), of P] by (simp add: inj_on_def)
  ultimately show "pg_order_by pg (\<lambda>row. - ar_alert_id row) ?rows = rev ?rows"
    by (intro order_by_unique [OF assms(1)]) simp_all
qed

text \<open>The row of an id, and what a later call makes of its status.\<close>

definition row_of :: "int \<Rightarrow> alert_db \<Rightarrow> alert_row list" where
  "row_of alert_id db = filter (\<lambda>row. ar_alert_id row = alert_id) (db_alerts db)"

definition reaches_server :: "server_answer \<Rightarrow> bool" where
  "reaches_server answer = (case answer of Failed msg lost \<Rightarrow> False | _ \<Rightarrow> True)"

fun status_after :: "postgres \<Rightarrow> int \<Rightarrow> server_answer \<times> store_op \<Rightarrow> string \<Rightarrow> string" where
  "status_after pg alert_id (answer, Update_Status alert_id' status) old =
     (if alert_id' = alert_id \<and> reaches_server answer \<and> pg_refuses pg [status] = None \<and> status \<in> set allowed_statuses
      then status else old)"
| "status_after pg alert_id call old = old"

lemma update_rows:
  "db_alerts (snd (update_alert_status pg answer alert_id status db)) =
     (if reaches_server answer \<and> pg_refuses pg [status] = None \<and> status \<in> set allowed_statuses
      then set_status alert_id status (db_alerts db) else db_alerts db)"
proof -
  have "set_status alert_id status (db_alerts db) = db_alerts db"
    if "\<not> list_ex (\<lambda>row. ar_alert_id row = alert_id) (db_alerts db)"
    using that by (auto simp: set_status_def list_ex_iff intro!: map_idI)
  then show ?thesis
    by (auto simp: update_alert_status_def transact_def reaches_server_def set_status_def split: server_answer.split option.split)
qed

lemma filter_set_status: "filter (\<lambda>row. ar_alert_id row = alert_id) (set_status i status rows) =
    set_status i status (filter (\<lambda>row. ar_alert_id row = alert_id) rows)"
  by (induction rows) (auto simp: set_status_def)

lemma row_of_step:
  assumes "documented pg" and "store_ok db" and "row_of alert_id db = [row]" and "snd call \<noteq> Truncate_All"
  shows "row_of alert_id (store_step pg call db) = [row\<lparr>ar_status := status_after pg alert_id call (ar_status row)\<rparr>]"
proof -
  obtain answer op where call: "call = (answer, op)" by fastforce
  have here: "row \<in> set (db_alerts db)" "ar_alert_id row = alert_id"
    using arg_cong [OF assms(3), of set] by (auto simp: row_of_def)
  show ?thesis
  proof (cases op)
    case (Update_Status i status)
    then show ?thesis
      using assms(3) here(2) by (auto simp: call row_of_def update_rows filter_set_status) (auto simp: set_status_def)
  next
    case (Insert_Alert alert)
    from store_step_effect [OF assms(1) refl, of op db answer] show ?thesis
      using assms(2,3) here by (auto simp: call Insert_Alert row_of_def store_ok_def list_all_iff alert_row_of_def
          elim!: alert_effect.cases)
  next
    case (Insert_Order order)
    from store_step_effect [OF assms(1) refl, of op db answer] show ?thesis
      using assms(3) by (auto simp: call Insert_Order row_of_def elim!: alert_effect.cases)
  next
    case (Insert_Execution x)
    from store_step_effect [OF assms(1) refl, of op db answer] show ?thesis
      using assms(3) by (auto simp: call Insert_Execution row_of_def elim!: alert_effect.cases)
  qed (use assms(4) in \<open>simp add: call\<close>)
qed

lemma row_of_steps:
  assumes "documented pg" and "store_ok db" and "row_of alert_id db = [row]" and "list_all (\<lambda>call. snd call \<noteq> Truncate_All) calls"
  shows "row_of alert_id (fold (store_step pg) calls db) = [row\<lparr>ar_status := fold (status_after pg alert_id) calls (ar_status row)\<rparr>]"
  using assms(2-4)
proof (induction calls arbitrary: db row)
  case (Cons call calls)
  have "store_ok (store_step pg call db)" using store_steps_ok [OF assms(1) Cons.prems(1), of "[call]"] by simp
  from Cons.IH [OF this row_of_step [OF assms(1) Cons.prems(1,2)]] Cons.prems(3) show ?case by simp
qed simp

lemma inserted_row:
  assumes "documented pg" and "store_ok db" and "insert_alert pg answer alert db = (Inr alert_id, db')"
  shows "store_ok db'" "row_of alert_id db' = [alert_row_of pg alert_id alert]"
proof -
  have "store_step pg (answer, Insert_Alert alert) db = db'" using assms(3) by simp
  from store_step_effect [OF assms(1) this] show "store_ok db'" using assms(2) by (rule alert_effect_ok)
  show "row_of alert_id db' = [alert_row_of pg alert_id alert]"
    using insert_alert_statements [OF assms(1,3)] assms(2)
    by (auto simp: row_of_def store_ok_def list_all_iff filter_empty_conv) (simp add: alert_row_of_def)
qed

lemma get_alert_row:
  assumes "documented pg"
  shows "fst (get_alert pg (Completed lost) alert_id db) =
    Inr (case row_of alert_id db of [] \<Rightarrow> None | row # rows \<Rightarrow> Some (stored_of row))"
  by (simp add: get_alert_def reading_def transact_def documented_arrays [OF assms] rows_stored [OF assms] row_of_def
      Let_def split: list.split)

lemma concat_pages: "concat (map (\<lambda>k. take n (drop (k * n) xs)) [0..<m]) = take (m * n) xs"
proof (induction m)
  case (Suc m)
  then show ?case using take_add [of "m * n" n xs] by (simp add: add.commute)
qed simp

section \<open>Properties\<close>

text \<open>A server that writes quoted literals, sorts with the library and refuses no text.\<close>

definition plain_server :: postgres where
  "plain_server =
     \<lparr>pg_array_in = (\<lambda>text. Some (from_pg_text_array text)), pg_array_out = to_pg_text_array, pg_order_by = sort_key,
      pg_to_timestamp = (\<lambda>t. \<lfloor>t * 1000000\<rfloor>), pg_refuses = (\<lambda>texts. None), pg_unique_violation = ''duplicate key'',
      pg_check_violation = ''check constraint'', pg_malformed_array = ''malformed array literal'', pg_negative_limit = ''negative''\<rparr>"

lemma plain_server_documented: "documented plain_server"
  using array_literal by (simp add: documented_def plain_server_def)

definition sample_alert :: alert where
  "sample_alert = \<lparr>al_detector_name = ''WashTradeDetector'', al_score = 1, al_instrument_id = ''AAPL'',
     al_account_ids = [''ACC-1'', ''ACC-2''], al_order_ids = [''ORD-1''], al_window_start_ns = 5, al_window_end_ns = 9,
     al_evidence = ''e'', al_model_version = None, al_book_snapshot_sequence = Some 3\<rparr>"

lemma empty_db_ok: "store_ok empty_db"
  by (simp add: store_ok_def empty_db_def)

lemma sample_inserted: "\<exists>db'. insert_alert plain_server (Completed 0) sample_alert empty_db = (Inr 1, db')"
  using array_literal by (simp add: insert_alert_def transact_def plain_server_def Let_def empty_db_def skip_ids_def)

text \<open>
  Array literals.  Whatever literal of a list of strings the server answers, with any of
  the quotings its syntax allows, the store reads the list from it; and the literal that the store sends is one of those.
\<close>

theorem array_literal_roundtrip:
  "(array_text text items \<longrightarrow> from_pg_text_array text = items) \<and> array_text (to_pg_text_array items) items"
  by (rule array_literal)

theorem array_literal_roundtrip_witness:
  "from_pg_text_array ''{plain}'' = [''plain'']"
proof -
  have "element_text ''plain'' ''plain''" by (simp add: element_text_def plain_element_def pg_quote_def pg_backslash_def)
  then have "array_text ''{plain}'' [''plain'']"
    unfolding array_text_def by (intro exI [of _ "[''plain'']"]) simp
  then show ?thesis using array_literal_roundtrip by blast
qed

text \<open>
  C21: a stored alert is kept.  In a database that the store alone has written, over a server that
  behaves as documented: after an insertion has returned an id, and whatever is then inserted or
  updated with whatever failures of the connection, short of the tests' truncation, the alert of that id is the one
  inserted, unchanged, with the status that the last update of it to an allowed value has committed.
\<close>

theorem stored_alert_kept:
  assumes "documented pg" and "store_ok db" and "insert_alert pg answer alert db = (Inr alert_id, db')"
    and "list_all (\<lambda>call. snd call \<noteq> Truncate_All) calls"
  shows "fst (get_alert pg (Completed lost) alert_id (fold (store_step pg) calls db')) =
      Inr (Some \<lparr>st_alert_id = alert_id, st_alert = alert, st_status = fold (status_after pg alert_id) calls open_status\<rparr>)"
proof -
  note row = row_of_steps [OF assms(1) inserted_row [OF assms(1-3)] assms(4)]
  show ?thesis by (simp add: get_alert_row [OF assms(1)] row stored_of_def alert_row_of_def)
qed

theorem stored_alert_kept_witness:
  "\<exists>db'. insert_alert plain_server (Completed 0) sample_alert empty_db = (Inr 1, db') \<and>
     fst (get_alert plain_server (Completed 0) 1 (fold (store_step plain_server)
       [(Completed 0, Insert_Alert sample_alert), (Failed ''x'' 1, Update_Status 1 ''ESCALATED''), (Completed 0, Update_Status 1 ''CLOSED''),
        (Completed 0, Update_Status 1 ''REOPENED'')] db')) =
     Inr (Some \<lparr>st_alert_id = 1, st_alert = sample_alert, st_status = ''CLOSED''\<rparr>)"
proof -
  obtain db' where "insert_alert plain_server (Completed 0) sample_alert empty_db = (Inr 1, db')" using sample_inserted by blast
  with stored_alert_kept [OF plain_server_documented empty_db_ok this, of
      "[(Completed 0, Insert_Alert sample_alert), (Failed ''x'' 1, Update_Status 1 ''ESCALATED''), (Completed 0, Update_Status 1 ''CLOSED''),
        (Completed 0, Update_Status 1 ''REOPENED'')]" 0]
  show ?thesis by (simp add: reaches_server_def plain_server_def allowed_statuses_def)
qed

text \<open>
  Pages.  For any page size, the pages at the offsets 0, \<open>limit\<close>, \<open>2 * limit\<close>, ... are consecutive
  parts of one list, the alerts that pass the filters, latest first, and each reports the
  length of that list as the total; so enough pages show every alert once.
\<close>

theorem pages_cover:
  assumes "documented pg" and "store_ok db" and "0 \<le> limit"
    and "pg_refuses pg ((case detector_name of None \<Rightarrow> [] | Some d \<Rightarrow> [d]) @ (case status of None \<Rightarrow> [] | Some s \<Rightarrow> [s])) = None"
  shows "\<exists>pages. map (\<lambda>k. fst (list_alerts_paginated pg (Completed lost) detector_name status limit (int k * limit) db)) [0..<m] =
      map Inr pages \<and>
    concat (map pa_alerts pages) =
      take (m * nat limit) (map stored_of (rev (filter (matches_filters detector_name status) (db_alerts db)))) \<and>
    list_all (\<lambda>page. pa_total_count page = int (length (filter (matches_filters detector_name status) (db_alerts db)))) pages"
proof -
  let ?all = "map stored_of (rev (filter (matches_filters detector_name status) (db_alerts db)))"
  define page where "page k = \<lparr>pa_alerts = take (nat limit) (drop (k * nat limit) ?all),
    pa_total_count = int (length (filter (matches_filters detector_name status) (db_alerts db)))\<rparr>" for k
  have "fst (list_alerts_paginated pg (Completed lost) detector_name status limit (int k * limit) db) = Inr (page k)" for k
    using assms(3,4) ordered_rows(2) [OF assms(1,2)] mult_nonneg_nonneg [of "int k" limit]
    by (simp add: not_less list_alerts_paginated_def transact_def page_def rows_stored [OF assms(1)] Let_def take_map drop_map nat_mult_distrib)
  moreover have "concat (map (\<lambda>k. take (nat limit) (drop (k * nat limit) ?all)) [0..<m]) = take (m * nat limit) ?all"
    by (rule concat_pages)
  ultimately show ?thesis by (intro exI [of _ "map page [0..<m]"]) (simp add: page_def comp_def list_all_iff)
qed

theorem pages_cover_witness:
  "\<exists>db' pages. insert_alert plain_server (Completed 0) sample_alert empty_db = (Inr 1, db') \<and>
     map (\<lambda>k. fst (list_alerts_paginated plain_server (Completed 0) None (Some ''OPEN'') 2 (int k * 2) db')) [0..<3] = map Inr pages \<and>
     concat (map pa_alerts pages) = [\<lparr>st_alert_id = 1, st_alert = sample_alert, st_status = ''OPEN''\<rparr>]"
proof -
  obtain db' where db': "insert_alert plain_server (Completed 0) sample_alert empty_db = (Inr 1, db')" using sample_inserted by blast
  have rows: "db_alerts db' = [alert_row_of plain_server 1 sample_alert]"
    using insert_alert_statements(1) [OF plain_server_documented db'] by (simp add: empty_db_def)
  obtain pages where "map (\<lambda>k. fst (list_alerts_paginated plain_server (Completed 0) None (Some ''OPEN'') 2 (int k * 2) db')) [0..<3] =
      map Inr pages"
    "concat (map pa_alerts pages) = take (3 * nat 2) (map stored_of (rev (filter (matches_filters None (Some ''OPEN'')) (db_alerts db'))))"
    using pages_cover [OF plain_server_documented inserted_row(1) [OF plain_server_documented empty_db_ok db'],
        of 2 None "Some ''OPEN''" 0 3] by (auto simp: plain_server_def)
  then show ?thesis
    using db' by (auto simp: rows matches_filters_def stored_row open_status_def) (simp add: alert_row_of_def open_status_def)
qed

text \<open>
  Refused updates.  When the connection holds, an update is refused exactly if the server refuses the
  text, the alert does not exist or the status is not one of the schema's four; a refused
  update changes nothing but lost serial numbers, and an accepted one changes no other alert.
\<close>

theorem update_status_exact:
  "let (result, db') = update_alert_status pg (Completed lost) alert_id status db
   in (case result of
         Inl msg \<Rightarrow> db' = skip_ids lost db \<and>
           (pg_refuses pg [status] = Some msg \<or>
            pg_refuses pg [status] = None \<and> row_of alert_id db = [] \<and>
              msg = ''update_alert_status: no alert with alert_id='' @ show_int alert_id \<or>
            pg_refuses pg [status] = None \<and> row_of alert_id db \<noteq> [] \<and> status \<notin> set allowed_statuses \<and> msg = pg_check_violation pg)
       | Inr _ \<Rightarrow> pg_refuses pg [status] = None \<and> row_of alert_id db \<noteq> [] \<and> status \<in> set allowed_statuses \<and>
           db_alerts db' = map (\<lambda>row. if ar_alert_id row = alert_id then row\<lparr>ar_status := status\<rparr> else row) (db_alerts db))"
  by (auto simp: update_alert_status_def transact_def row_of_def list_ex_iff filter_empty_conv Let_def
      split: option.split if_splits)

text \<open>
  The first two tables take one row per id and microsecond at most: \<open>event_time\<close> is computed from the
  timestamp as a double.  A second event of an order close enough to the first is refused,
  however the server converts a double to a time.
\<close>

theorem close_events_refused:
  assumes "insert_order pg answer order db = (Inr (), db')" and "o_order_id later = o_order_id order"
    and "to_double (o_timestamp_ns later) = to_double (o_timestamp_ns order)"
  shows "\<exists>msg. fst (insert_order pg (Completed lost) later db') = Inl msg"
  using transact_Inr [OF assms(1) [unfolded insert_order_def]] assms(2,3)
  by (auto simp: insert_order_def transact_def event_time_def Let_def split: option.splits if_splits)

lemma close_timestamps:
  "to_double 1700000000000000100 = to_double 1700000000000000000"
  by (simp add: float_eval)

end
