(* ===== verification/Api_Server.thy ===== *)
theory Api_Server
  imports Store_Properties Book_Registry Decimal
begin

text \<open>
  \<open>cpp/api/api_server.cpp\<close>, \<open>json_encode.cpp\<close> and \<open>cpp/db/db_alert_sink.hpp\<close>: the routes over the alert store
  and the registry of books.  Crow is not modelled: its JSON values are built and read
  through a parameter \<open>crow_json\<close>, a request is the map of its parameters and its body, and an
  exception that leaves a handler is \<open>Inl\<close> of its text.
\<close>

section \<open>Crow and the standard library\<close>

record ('j, 'r) crow_json =
  cw_null :: 'j
  cw_bool :: "bool \<Rightarrow> 'j"
  cw_int :: "int \<Rightarrow> 'j"
  cw_uint :: "u64 \<Rightarrow> 'j"
  cw_double :: "double \<Rightarrow> 'j"
  cw_string :: "string \<Rightarrow> 'j"
  cw_list :: "'j list \<Rightarrow> 'j"
  cw_empty :: 'j
  cw_set :: "string \<Rightarrow> 'j \<Rightarrow> 'j \<Rightarrow> 'j"
  cw_get :: "'j \<Rightarrow> string \<Rightarrow> 'j option"
  cw_load :: "string \<Rightarrow> 'r option"
  cw_has :: "'r \<Rightarrow> string \<Rightarrow> string + bool"
  cw_text :: "'r \<Rightarrow> string \<Rightarrow> string + string"
  cw_value :: "'r \<Rightarrow> 'j"

record request =
  rq_params :: "string \<rightharpoonup> string"
  rq_body :: string

record 'j response =
  rs_code :: nat
  rs_body :: 'j

definition respond :: "nat \<Rightarrow> 'j \<Rightarrow> 'j response" where
  "respond code body = \<lparr>rs_code = code, rs_body = body\<rparr>"

text \<open>\<open>std::stoi\<close> and \<open>std::stoul\<close>, which negates modulo \<open>2^64\<close>; \<open>consumed\<close> as what is left.\<close>

definition stoi :: "string \<Rightarrow> number_error + int" where
  "stoi s = (case stoll s of
       Inl e \<Rightarrow> Inl e
     | Inr n \<Rightarrow> if n < - (2 ^ 31) \<or> 2 ^ 31 \<le> n then Inl Number_Out_Of_Range else Inr n)"

definition stoul :: "string \<Rightarrow> number_error + u64" where
  "stoul s =
     (let (neg, s1) = scan_sign (dropWhile is_space s);
          ds = takeWhile is_digit s1
      in if ds = [] then Inl Invalid_Number
         else if 2 ^ 64 \<le> nat_of_digits ds then Inl Number_Out_Of_Range
         else Inr (if neg then - of_nat (nat_of_digits ds) else of_nat (nat_of_digits ds)))"

definition unconsumed :: "string \<Rightarrow> string" where
  "unconsumed s = dropWhile is_digit (snd (scan_sign (dropWhile is_space s)))"

definition parse_id :: "string \<Rightarrow> int option" where
  "parse_id s = (case stoll s of Inl e \<Rightarrow> None | Inr value \<Rightarrow> if unconsumed s \<noteq> [] then None else Some value)"

section \<open>Encoding\<close>

definition set_fields :: "('j, 'r) crow_json \<Rightarrow> (string \<times> 'j) list \<Rightarrow> 'j \<Rightarrow> 'j" where
  "set_fields cw assignments j = fold (\<lambda>(key, v) j. cw_set cw key v j) assignments j"

definition error_body :: "('j, 'r) crow_json \<Rightarrow> string \<Rightarrow> 'j" where
  "error_body cw message = set_fields cw [(''error'', cw_string cw message)] (cw_empty cw)"

definition encode_alert :: "('j, 'r) crow_json \<Rightarrow> stored_alert \<Rightarrow> 'j" where
  "encode_alert cw stored =
     (let alert = st_alert stored
      in set_fields cw
        [(''alert_id'', cw_int cw (st_alert_id stored)),
         (''status'', cw_string cw (st_status stored)),
         (''detector_name'', cw_string cw (al_detector_name alert)),
         (''score'', cw_double cw (al_score alert)),
         (''instrument_id'', cw_string cw (al_instrument_id alert)),
         (''account_ids'', cw_list cw (map (cw_string cw) (al_account_ids alert))),
         (''order_ids'', cw_list cw (map (cw_string cw) (al_order_ids alert))),
         (''window_start_ns'', cw_int cw (al_window_start_ns alert)),
         (''window_end_ns'', cw_int cw (al_window_end_ns alert)),
         (''evidence'', cw_string cw (al_evidence alert)),
         (''model_version'', case al_model_version alert of None \<Rightarrow> cw_null cw | Some v \<Rightarrow> cw_string cw v),
         (''book_snapshot_sequence'', case al_book_snapshot_sequence alert of None \<Rightarrow> cw_null cw | Some n \<Rightarrow> cw_int cw n)]
        (cw_empty cw))"

definition encode_alerts :: "('j, 'r) crow_json \<Rightarrow> stored_alert list \<Rightarrow> 'j" where
  "encode_alerts cw alerts = set_fields cw [(''alerts'', cw_list cw (map (encode_alert cw) alerts))] (cw_empty cw)"

definition encode_alerts_page :: "('j, 'r) crow_json \<Rightarrow> stored_alert list \<Rightarrow> int \<Rightarrow> 'j" where
  "encode_alerts_page cw alerts total_count = set_fields cw [(''total_count'', cw_int cw total_count)] (encode_alerts cw alerts)"

definition encode_price_level :: "('j, 'r) crow_json \<Rightarrow> price_level \<Rightarrow> 'j" where
  "encode_price_level cw level = set_fields cw
     [(''price'', cw_double cw (pl_price level)),
      (''total_qty'', cw_int cw (pl_total_qty level)),
      (''orders'', cw_list cw (map (\<lambda>resting. set_fields cw
         [(''order_id'', cw_string cw (su_order_id resting)),
          (''account_id'', cw_string cw (su_account_id resting)),
          (''qty'', cw_int cw (su_qty resting))] (cw_empty cw)) (pl_orders level)))] (cw_empty cw)"

definition encode_depth_snapshot :: "('j, 'r) crow_json \<Rightarrow> depth_snapshot \<Rightarrow> 'j" where
  "encode_depth_snapshot cw depth = set_fields cw
     [(''instrument_id'', cw_string cw (ds_instrument_id depth)),
      (''sequence'', cw_uint cw (ds_sequence depth)),
      (''last_event_timestamp_ns'', cw_int cw (ds_last_event_timestamp_ns depth)),
      (''bids'', cw_list cw (map (encode_price_level cw) (ds_bids depth))),
      (''asks'', cw_list cw (map (encode_price_level cw) (ds_asks depth)))] (cw_empty cw)"

definition encode_book_events :: "('j, 'r) crow_json \<Rightarrow> book_event list \<Rightarrow> 'j" where
  "encode_book_events cw events = set_fields cw
     [(''events'', cw_list cw (map (\<lambda>event. set_fields cw
        [(''timestamp_ns'', cw_int cw (be_timestamp_ns event)),
         (''instrument_id'', cw_string cw (be_instrument_id event)),
         (''msg_type'', cw_string cw (be_msg_type event)),
         (''side'', cw_string cw (be_side event)),
         (''price'', cw_double cw (be_price event)),
         (''qty'', cw_int cw (be_qty event)),
         (''order_id'', cw_string cw (be_order_id event)),
         (''account_id'', cw_string cw (be_account_id event))] (cw_empty cw)) events))] (cw_empty cw)"

section \<open>The routes\<close>

text \<open>A handler replies, lets an exception out, or dereferences an empty optional.\<close>

datatype 'j outcome = Replied "'j response" | Threw string | Undefined

definition health_route :: "('j, 'r) crow_json \<Rightarrow> 'j response" where
  "health_route cw = respond 200 (set_fields cw [(''status'', cw_string cw ''ok'')] (cw_empty cw))"

definition status_route ::
    "('j, 'r) crow_json \<Rightarrow> server_answer \<Rightarrow> 'd book_registry option \<Rightarrow> bool \<Rightarrow> alert_db \<Rightarrow> 'j response \<times> alert_db" where
  "status_route cw answer registry ml_healthy db =
     (let (connected, db') = is_connected answer db;
          count = (case registry of None \<Rightarrow> cw_null cw | Some s \<Rightarrow> cw_int cw (int (detector_count (br_pipeline s))))
      in (respond 200 (set_fields cw
            [(''db_connected'', cw_bool cw connected), (''detectors_active'', count), (''detectors_total'', count),
             (''ml_service_healthy'', cw_bool cw ml_healthy)] (cw_empty cw)), db'))"

text \<open>\<open>what\<close> is the text of the standard library's conversion errors.\<close>

definition limit_param :: "request \<Rightarrow> number_error + int" where
  "limit_param req = (case rq_params req ''limit'' of None \<Rightarrow> Inr 50 | Some l \<Rightarrow> stoi l)"

definition reply_with :: "('j, 'r) crow_json \<Rightarrow> ('a \<Rightarrow> 'j) \<Rightarrow> (string + 'a) \<times> alert_db \<Rightarrow> 'j response \<times> alert_db" where
  "reply_with cw encoder = (\<lambda>(result, db). (case result of Inl msg \<Rightarrow> respond 500 (error_body cw msg) | Inr x \<Rightarrow> respond 200 (encoder x), db))"

definition alerts_route ::
    "('j, 'r) crow_json \<Rightarrow> (number_error \<Rightarrow> string) \<Rightarrow> postgres \<Rightarrow> server_answer \<Rightarrow> request \<Rightarrow> alert_db \<Rightarrow> 'j response \<times> alert_db" where
  "alerts_route cw what pg answer req db =
     (let param = rq_params req;
          caught = (\<lambda>e. (respond 500 (error_body cw (what e)), db))
      in case param ''offset'' of
           Some offset_param \<Rightarrow>
             (case limit_param req of
                Inl e \<Rightarrow> caught e
              | Inr limit \<Rightarrow>
                  case stoi offset_param of
                    Inl e \<Rightarrow> caught e
                  | Inr offset \<Rightarrow> reply_with cw (\<lambda>page. encode_alerts_page cw (pa_alerts page) (pa_total_count page))
                      (list_alerts_paginated pg answer (param ''detector_name'') (param ''status'') limit offset db))
         | None \<Rightarrow>
             case (param ''account_id'', param ''detector_name'', param ''start_ns'', param ''end_ns'') of
               (Some account_id, _) \<Rightarrow> reply_with cw (encode_alerts cw) (query_alerts_by_account pg answer account_id db)
             | (None, Some wanted, _) \<Rightarrow> reply_with cw (encode_alerts cw) (query_alerts_by_detector pg answer wanted db)
             | (None, None, Some start_ns, Some end_ns) \<Rightarrow>
                 (case stoll start_ns of
                    Inl e \<Rightarrow> caught e
                  | Inr from_ns \<Rightarrow>
                      case stoll end_ns of
                        Inl e \<Rightarrow> caught e
                      | Inr to_ns \<Rightarrow> reply_with cw (encode_alerts cw) (query_alerts_by_time_range pg answer from_ns to_ns db))
             | _ \<Rightarrow>
                 (case limit_param req of
                    Inl e \<Rightarrow> caught e
                  | Inr limit \<Rightarrow> reply_with cw (encode_alerts cw) (list_recent_alerts pg answer limit db)))"

definition alert_route ::
    "('j, 'r) crow_json \<Rightarrow> postgres \<Rightarrow> server_answer \<Rightarrow> string \<Rightarrow> alert_db \<Rightarrow> 'j response \<times> alert_db" where
  "alert_route cw pg answer alert_id_text db =
     (case parse_id alert_id_text of
        None \<Rightarrow> (respond 400 (error_body cw ''alert id must be an integer''), db)
      | Some alert_id \<Rightarrow>
          case get_alert pg answer alert_id db of
            (Inl msg, db') \<Rightarrow> (respond 500 (error_body cw msg), db')
          | (Inr None, db') \<Rightarrow> (respond 404 (error_body cw ''no alert with that id''), db')
          | (Inr (Some found), db') \<Rightarrow> (respond 200 (encode_alert cw found), db'))"

definition status_text :: "('j, 'r) crow_json \<Rightarrow> string \<Rightarrow> string + string option" where
  "status_text cw body =
     (case cw_load cw body of
        None \<Rightarrow> Inr None
      | Some r \<Rightarrow>
          case cw_has cw r ''status'' of
            Inl thrown \<Rightarrow> Inl thrown
          | Inr has \<Rightarrow> if \<not> has then Inr None else map_sum id Some (cw_text cw r ''status''))"

definition patch_status_route ::
    "('j, 'r) crow_json \<Rightarrow> postgres \<Rightarrow> server_answer \<Rightarrow> server_answer \<Rightarrow> request \<Rightarrow> string \<Rightarrow> alert_db
     \<Rightarrow> 'j outcome \<times> alert_db" where
  "patch_status_route cw pg updating reading_back req alert_id_text db =
     (case parse_id alert_id_text of
        None \<Rightarrow> (Replied (respond 400 (error_body cw ''alert id must be an integer'')), db)
      | Some alert_id \<Rightarrow>
          case status_text cw (rq_body req) of
            Inl thrown \<Rightarrow> (Threw thrown, db)
          | Inr None \<Rightarrow> (Replied (respond 400 (error_body cw
              (''request body must be {'' @ [pg_quote] @ ''status'' @ [pg_quote] @ '': '' @ [pg_quote] @ ''...'' @ [pg_quote] @ ''}''))), db)
          | Inr (Some new_status) \<Rightarrow>
              case update_alert_status pg updating alert_id new_status db of
                (Inl msg, db') \<Rightarrow> (Replied (respond 400 (error_body cw msg)), db')
              | (Inr _, db') \<Rightarrow>
                  case get_alert pg reading_back alert_id db' of
                    (Inl msg, db'') \<Rightarrow> (Threw msg, db'')
                  | (Inr None, db'') \<Rightarrow> (Undefined, db'')
                  | (Inr (Some updated), db'') \<Rightarrow> (Replied (respond 200 (encode_alert cw updated)), db''))"

definition snapshot_route :: "('j, 'r) crow_json \<Rightarrow> 'd book_registry option \<Rightarrow> string \<Rightarrow> 'j response" where
  "snapshot_route cw registry instrument =
     (case registry of
        None \<Rightarrow> respond 503 (error_body cw ''no live pipeline is attached to this server'')
      | Some s \<Rightarrow>
          case registry_snapshot instrument s of
            None \<Rightarrow> respond 404 (error_body cw ''no book state for that instrument yet'')
          | Some depth \<Rightarrow> respond 200 (encode_depth_snapshot cw depth))"

definition events_route ::
    "('j, 'r) crow_json \<Rightarrow> (number_error \<Rightarrow> string) \<Rightarrow> 'd book_registry option \<Rightarrow> request \<Rightarrow> string \<Rightarrow> 'j outcome" where
  "events_route cw what registry req instrument =
     (case registry of
        None \<Rightarrow> Replied (respond 503 (error_body cw ''no live pipeline is attached to this server''))
      | Some s \<Rightarrow>
          case (case rq_params req ''limit'' of None \<Rightarrow> Inr 50 | Some l \<Rightarrow> stoul l) of
            Inl e \<Rightarrow> Threw (what e)
          | Inr limit \<Rightarrow> Replied (respond 200 (encode_book_events cw (recent_events instrument (unat limit) s))))"

text \<open>The committed snapshots of the evaluation: name of the file, how to make it.\<close>

definition evaluation_snapshots :: "string \<Rightarrow> (string \<times> string) list" where
  "evaluation_snapshots dir =
     [(''evaluation.json'', ''run ./build-bench/cpp/harness/tse_harness_eval --json '' @ dir @ ''/evaluation.json''),
      (''sarao.json'', ''run ./build-bench/cpp/harness/tse_sarao_validation --json '' @ dir @ ''/sarao.json''),
      (''spoofing_rate_sweep.json'', ''run ./cpp/harness/run_rate_sweep.sh'')]"

fun merge_snapshots ::
    "('j, 'r) crow_json \<Rightarrow> (string \<rightharpoonup> string) \<Rightarrow> string \<Rightarrow> (string \<times> string) list \<Rightarrow> 'j \<Rightarrow> 'j response" where
  "merge_snapshots cw files dir [] out = respond 200 out"
| "merge_snapshots cw files dir ((filename, regen_hint) # rest) out =
     (let path = dir @ ''/'' @ filename
      in case files path of
           None \<Rightarrow> respond 503 (error_body cw (''missing evaluation snapshot '' @ path @ '' -- '' @ regen_hint))
         | Some content \<Rightarrow>
             case cw_load cw content of
               None \<Rightarrow> respond 500 (error_body cw (path @ '' exists but failed to parse as JSON''))
             | Some parsed \<Rightarrow>
                 merge_snapshots cw files dir rest (cw_set cw (take (length filename - 5) filename) (cw_value cw parsed) out))"

definition evaluation_route :: "('j, 'r) crow_json \<Rightarrow> (string \<rightharpoonup> string) \<Rightarrow> string \<Rightarrow> 'j response" where
  "evaluation_route cw files dir = merge_snapshots cw files dir (evaluation_snapshots dir) (cw_empty cw)"

section \<open>The database as the alert sink\<close>

text \<open>\<open>DbAlertSink\<close> lets the exception of an insertion out, through the loop over the alerts of an event.\<close>

fun sink_alerts :: "postgres \<Rightarrow> alert list \<Rightarrow> (nat \<Rightarrow> server_answer) \<Rightarrow> nat \<Rightarrow> alert_db \<Rightarrow> (string + nat) \<times> alert_db" where
  "sink_alerts pg [] answers n db = (Inr n, db)"
| "sink_alerts pg (alert # alerts) answers n db =
     (case insert_alert pg (answers n) alert db of
        (Inl msg, db') \<Rightarrow> (Inl msg, db')
      | (Inr alert_id, db') \<Rightarrow> sink_alerts pg alerts answers (n + 1) db')"

record 'd live_server =
  ls_registry :: "'d book_registry"
  ls_db :: alert_db
  ls_inserts :: nat

text \<open>
  \<open>LiveBookRegistry::process_one\<close> with that sink: the registry is advanced as without one, then the
  alerts of the event are inserted.  \<open>Inl\<close> is the exception that leaves the consumer's thread.
\<close>

definition server_process_one ::
    "postgres \<Rightarrow> (account_registry \<Rightarrow> 'd evaluation) \<Rightarrow> (nat \<Rightarrow> int) \<Rightarrow> (nat \<Rightarrow> server_answer) \<Rightarrow> event \<Rightarrow> 'd live_server
     \<Rightarrow> string + 'd live_server" where
  "server_process_one pg dispatch clock answers event server =
     (let result = snd (process dispatch clock event (br_pipeline (ls_registry server)));
          registry = registry_process_one dispatch clock event (ls_registry server)
      in if pr_skipped_inconsistent result then Inr (server\<lparr>ls_registry := registry\<rparr>)
         else case sink_alerts pg (pr_alerts result) answers (ls_inserts server) (ls_db server) of
                (Inl msg, db) \<Rightarrow> Inl msg
              | (Inr n, db) \<Rightarrow> Inr \<lparr>ls_registry = registry, ls_db = db, ls_inserts = n\<rparr>)"

fun server_run ::
    "postgres \<Rightarrow> (account_registry \<Rightarrow> 'd evaluation) \<Rightarrow> (nat \<Rightarrow> int) \<Rightarrow> (nat \<Rightarrow> server_answer) \<Rightarrow> event list \<Rightarrow> 'd live_server
     \<Rightarrow> string + 'd live_server" where
  "server_run pg dispatch clock answers [] server = Inr server"
| "server_run pg dispatch clock answers (event # events) server =
     (case server_process_one pg dispatch clock answers event server of
        Inl msg \<Rightarrow> Inl msg
      | Inr server' \<Rightarrow> server_run pg dispatch clock answers events server')"

end
