(* ===== verification/Api_Properties.thy ===== *)
theory Api_Properties
  imports Api_Server
begin

text \<open>
  What the API promises: an alert's JSON determines the alert, what the detectors raise is what
  the requests see, and what each answer of the status route means.
\<close>

section \<open>Identifiers and encodings\<close>

lemma parse_id_show:
  assumes "- (2 ^ 63) \<le> n" and "n < 2 ^ 63"
  shows "parse_id (show_int n) = Some n"
proof -
  have sp: "\<not> is_space (CHR ''-'')" by (simp add: is_space_def)
  have "scan_sign (dropWhile is_space (show_int n)) = (n < 0, show_nat (nat \<bar>n\<bar>))"
    using scan_sign_digits [of "show_nat (nat \<bar>n\<bar>)" "[]"] digits_show_nat [of "nat n"]
    by (cases "show_nat (nat n)") (auto simp: show_int_def sp scan_sign_def not_space)
  then have "unconsumed (show_int n) = []"
    using digits_show_nat [of "nat \<bar>n\<bar>"] by (simp add: unconsumed_def list_all_iff)
  then show ?thesis using assms by (simp add: parse_id_def)
qed

text \<open>What the code relies on in Crow's values: members are read as they were set, and values of different contents differ.\<close>

definition lawful_crow :: "('j, 'r) crow_json \<Rightarrow> bool" where
  "lawful_crow cw \<longleftrightarrow>
     (\<forall>j key v key'. cw_get cw (cw_set cw key v j) key' = (if key' = key then Some v else cw_get cw j key')) \<and>
     (\<forall>key. cw_get cw (cw_empty cw) key = None) \<and>
     inj (cw_int cw) \<and> inj (cw_double cw) \<and> inj (cw_string cw) \<and> inj (cw_list cw) \<and>
     (\<forall>n. cw_int cw n \<noteq> cw_null cw) \<and> (\<forall>s. cw_string cw s \<noteq> cw_null cw)"

lemma get_set_fields:
  assumes "lawful_crow cw"
  shows "cw_get cw (set_fields cw assignments j) key =
    (case map_of (rev assignments) key of None \<Rightarrow> cw_get cw j key | Some v \<Rightarrow> Some v)"
  using assms
  by (induction assignments arbitrary: j) (auto simp: set_fields_def lawful_crow_def map_add_def split: option.split)

section \<open>The alerts in the database\<close>

definition stored_alerts :: "postgres \<Rightarrow> alert list \<Rightarrow> alert_db \<Rightarrow> bool" where
  "stored_alerts pg alerts db \<longleftrightarrow> store_ok db \<and> list_all2 (\<lambda>row a. row = alert_row_of pg (ar_alert_id row) a) (db_alerts db) alerts"

definition refuses_nothing :: "postgres \<Rightarrow> bool" where
  "refuses_nothing pg \<longleftrightarrow> (\<forall>texts. pg_refuses pg texts = None)"

lemma alert_row_id: "ar_alert_id (alert_row_of pg alert_id alert) = alert_id"
  by (simp add: alert_row_of_def)

lemma insert_completed:
  assumes "documented pg" and "refuses_nothing pg" and "stored_alerts pg earlier db"
  obtains alert_id db' where "insert_alert pg (Completed lost) alert db = (Inr alert_id, db')" "stored_alerts pg (earlier @ [alert]) db'"
proof -
  obtain alert_id db' where ins: "insert_alert pg (Completed lost) alert db = (Inr alert_id, db')"
    using assms(2) by (auto simp: insert_alert_def transact_def documented_arrays [OF assms(1)] refuses_nothing_def Let_def)
  have "db_alerts db' = db_alerts db @ [alert_row_of pg alert_id alert]" by (rule insert_alert_statements [OF assms(1) ins])
  moreover have "store_ok db'" using assms(3) by (intro inserted_row(1) [OF assms(1) _ ins]) (simp add: stored_alerts_def)
  ultimately have "stored_alerts pg (earlier @ [alert]) db'"
    using assms(3) by (simp add: stored_alerts_def list_all2_appendI alert_row_id)
  with ins show ?thesis by (rule that)
qed

definition completes_until :: "(nat \<Rightarrow> server_answer) \<Rightarrow> nat \<Rightarrow> bool" where
  "completes_until answers n \<longleftrightarrow> (\<forall>i < n. \<exists>lost. answers i = Completed lost)"

lemma completes_at: "completes_until answers n \<Longrightarrow> i < n \<Longrightarrow> \<exists>lost. answers i = Completed lost"
  by (simp add: completes_until_def)

lemma sink_alerts_completed:
  assumes "documented pg" and "refuses_nothing pg" and "stored_alerts pg earlier db" and "completes_until answers (n + length alerts)"
  shows "\<exists>db'. sink_alerts pg alerts answers n db = (Inr (n + length alerts), db') \<and> stored_alerts pg (earlier @ alerts) db'"
  using assms(3,4)
proof (induction alerts arbitrary: earlier n db)
  case (Cons alert alerts)
  then obtain lost where "answers n = Completed lost" using completes_at [of answers _ n] by fastforce
  moreover obtain alert_id db1 where "insert_alert pg (Completed lost) alert db = (Inr alert_id, db1)" "stored_alerts pg (earlier @ [alert]) db1"
    using insert_completed [OF assms(1,2) Cons.prems(1)] by blast
  ultimately show ?case using Cons.IH [of "earlier @ [alert]" db1 "Suc n"] Cons.prems(2) by simp
qed simp

lemma sink_alerts_failed:
  assumes "documented pg" and "refuses_nothing pg" and "stored_alerts pg earlier db" and "completes_until answers k" and "answers k = Failed msg lost"
    and "n \<le> k" and "k < n + length alerts"
  shows "\<exists>db'. sink_alerts pg alerts answers n db = (Inl msg, db')"
  using assms(3,6,7)
proof (induction alerts arbitrary: earlier n db)
  case (Cons alert alerts)
  show ?case
  proof (cases "n = k")
    case True
    then show ?thesis using assms(5) by (simp add: insert_alert_def transact_def)
  next
    case False
    then obtain lost where "answers n = Completed lost" using completes_at [OF assms(4), of n] Cons.prems(2) by auto
    moreover obtain alert_id db1 where "insert_alert pg (Completed lost) alert db = (Inr alert_id, db1)" "stored_alerts pg (earlier @ [alert]) db1"
      using insert_completed [OF assms(1,2) Cons.prems(1)] by blast
    ultimately show ?thesis using Cons.IH [of "earlier @ [alert]" db1 "Suc n"] Cons.prems False by simp
  qed
qed simp

section \<open>The live server\<close>

definition server_start :: "any_detector list \<Rightarrow> account_registry \<Rightarrow> any_detector live_server" where
  "server_start ds accounts = \<lparr>ls_registry = new_registry (new_pipeline ds accounts) None, ls_db = empty_db, ls_inserts = 0\<rparr>"

lemma server_run_snoc:
  "server_run pg dispatch clock answers (es @ [e]) server =
     (case server_run pg dispatch clock answers es server of
        Inl msg \<Rightarrow> Inl msg | Inr server' \<Rightarrow> server_process_one pg dispatch clock answers e server')"
  by (induction es arbitrary: server) (auto split: sum.split)

lemma registry_process_one_pipeline:
  "br_pipeline (registry_process_one dispatch clock e s) = fst (process dispatch clock e (br_pipeline s))"
  by (simp add: registry_process_one_def record_event_def Let_def split_beta)

lemma delivered_snoc:
  assumes "lc_alert_sink (consumer_run ds accounts clock earlier es) = Some alerts"
  shows "lc_alert_sink (consumer_run ds accounts clock earlier (es @ [e])) = Some (alerts @
      (let result = snd (process evaluate_any clock e (process_all evaluate_any clock es (new_pipeline ds accounts)))
       in if pr_skipped_inconsistent result then [] else pr_alerts result))"
  using assms by (simp add: consumer_run_snoc process_one_def consumer_run_pipeline split_beta Let_def)

lemma server_run_completed:
  assumes "documented pg" and "refuses_nothing pg" and "lc_alert_sink (consumer_run ds accounts clock [] es) = Some alerts"
    and "completes_until answers (length alerts)"
  shows "\<exists>server. server_run pg evaluate_any clock answers es (server_start ds accounts) = Inr server \<and>
    br_pipeline (ls_registry server) = process_all evaluate_any clock es (new_pipeline ds accounts) \<and>
    ls_inserts server = length alerts \<and> stored_alerts pg alerts (ls_db server)"
  using assms(3,4)
proof (induction es arbitrary: alerts rule: rev_induct)
  case Nil
  then show ?case
    by (simp add: server_start_def new_registry_def consumer_run_def new_consumer_def stored_alerts_def empty_db_ok) (simp add: empty_db_def)
next
  case (snoc e es)
  obtain before where before: "lc_alert_sink (consumer_run ds accounts clock [] es) = Some before" using consumer_run_result by blast
  let ?result = "snd (process evaluate_any clock e (process_all evaluate_any clock es (new_pipeline ds accounts)))"
  let ?found = "if pr_skipped_inconsistent ?result then [] else pr_alerts ?result"
  have alerts: "alerts = before @ ?found" using delivered_snoc [OF before, of e] snoc.prems(1) by (simp add: Let_def)
  have "completes_until answers (length before)" using snoc.prems(2) by (auto simp: alerts completes_until_def)
  from snoc.IH [OF before this] obtain server where
    run: "server_run pg evaluate_any clock answers es (server_start ds accounts) = Inr server" and
    pipeline: "br_pipeline (ls_registry server) = process_all evaluate_any clock es (new_pipeline ds accounts)" and
    stored: "ls_inserts server = length before" "stored_alerts pg before (ls_db server)" by blast
  have "completes_until answers (ls_inserts server + length ?found)" using snoc.prems(2) by (simp add: alerts stored(1))
  from sink_alerts_completed [OF assms(1,2) stored(2) this] show ?case
    using pipeline stored
    by (auto simp: server_run_snoc run server_process_one_def alerts Let_def registry_process_one_pipeline process_all_snoc)
qed

lemma server_run_failed:
  assumes "documented pg" and "refuses_nothing pg" and "lc_alert_sink (consumer_run ds accounts clock [] es) = Some alerts"
    and "completes_until answers k" and "answers k = Failed msg lost" and "k < length alerts"
  shows "server_run pg evaluate_any clock answers es (server_start ds accounts) = Inl msg"
  using assms(3,6)
proof (induction es arbitrary: alerts rule: rev_induct)
  case Nil
  then show ?case by (simp add: consumer_run_def new_consumer_def)
next
  case (snoc e es)
  obtain before where before: "lc_alert_sink (consumer_run ds accounts clock [] es) = Some before" using consumer_run_result by blast
  let ?result = "snd (process evaluate_any clock e (process_all evaluate_any clock es (new_pipeline ds accounts)))"
  let ?found = "if pr_skipped_inconsistent ?result then [] else pr_alerts ?result"
  have alerts: "alerts = before @ ?found" using delivered_snoc [OF before, of e] snoc.prems(1) by (simp add: Let_def)
  show ?case
  proof (cases "k < length before")
    case True
    then show ?thesis using snoc.IH [OF before] by (simp add: server_run_snoc)
  next
    case False
    then have "completes_until answers (length before)" using assms(4) by (auto simp: completes_until_def)
    from server_run_completed [OF assms(1,2) before this] obtain server where
      run: "server_run pg evaluate_any clock answers es (server_start ds accounts) = Inr server" and
      pipeline: "br_pipeline (ls_registry server) = process_all evaluate_any clock es (new_pipeline ds accounts)" and
      stored: "ls_inserts server = length before" "stored_alerts pg before (ls_db server)" by blast
    have "ls_inserts server \<le> k" "k < ls_inserts server + length ?found" using False snoc.prems(2) by (simp_all add: stored(1) alerts)
    from sink_alerts_failed [OF assms(1,2) stored(2) assms(4,5) this] show ?thesis
      using pipeline snoc.prems(2) False by (auto simp: server_run_snoc run server_process_one_def alerts Let_def split: if_splits)
  qed
qed

section \<open>Properties\<close>

text \<open>JSON values as a datatype, members latest first.\<close>

datatype plain_json = Null_Value | Bool_Value bool | Int_Value int | Uint_Value u64 | Double_Value rat | String_Value string
  | List_Value "plain_json list" | Object_Value "(string \<times> plain_json) list"

fun object_members :: "plain_json \<Rightarrow> (string \<times> plain_json) list" where
  "object_members (Object_Value members) = members"
| "object_members _ = []"

definition plain_crow :: "(plain_json, string) crow_json" where
  "plain_crow =
     \<lparr>cw_null = Null_Value, cw_bool = Bool_Value, cw_int = Int_Value, cw_uint = Uint_Value, cw_double = Double_Value,
      cw_string = String_Value, cw_list = List_Value, cw_empty = Object_Value [],
      cw_set = (\<lambda>key v j. Object_Value ((key, v) # object_members j)), cw_get = (\<lambda>j key. map_of (object_members j) key),
      cw_load = (\<lambda>body. Some body), cw_has = (\<lambda>r key. Inr True), cw_text = (\<lambda>r key. Inr r), cw_value = String_Value\<rparr>"

lemma plain_crow_lawful: "lawful_crow plain_crow"
  by (simp add: lawful_crow_def plain_crow_def inj_def)

lemma alerts_shown:
  assumes "documented pg" and "refuses_nothing pg" and "\<forall>n. completes_until answers n"
    and "lc_alert_sink (consumer_run ds accounts clock [] es) = Some alerts"
  shows "\<exists>server stored. server_run pg evaluate_any clock answers es (server_start ds accounts) = Inr server \<and>
    br_pipeline (ls_registry server) = process_all evaluate_any clock es (new_pipeline ds accounts) \<and>
    fst (alerts_route cw what pg (Completed lost) \<lparr>rq_params = Map.empty, rq_body = []\<rparr> (ls_db server)) =
      respond 200 (encode_alerts cw (take 50 (rev stored))) \<and>
    map st_alert stored = alerts \<and> list_all (\<lambda>s. st_status s = open_status) stored \<and> sorted_wrt (<) (map st_alert_id stored)"
proof -
  obtain server where run: "server_run pg evaluate_any clock answers es (server_start ds accounts) = Inr server"
    and pipeline: "br_pipeline (ls_registry server) = process_all evaluate_any clock es (new_pipeline ds accounts)"
    and stored: "stored_alerts pg alerts (ls_db server)"
    using server_run_completed [OF assms(1,2,4), of answers] assms(3) by blast
  let ?rows = "db_alerts (ls_db server)"
  have ok: "store_ok (ls_db server)" and rows: "list_all2 (\<lambda>row a. row = alert_row_of pg (ar_alert_id row) a) ?rows alerts"
    using stored by (simp_all add: stored_alerts_def)
  have "pg_order_by pg (\<lambda>row. - ar_alert_id row) ?rows = rev ?rows"
    using ordered_rows(2) [OF assms(1) ok, of "\<lambda>row. True"] by simp
  then have "fst (alerts_route cw what pg (Completed lost) \<lparr>rq_params = Map.empty, rq_body = []\<rparr> (ls_db server)) =
      respond 200 (encode_alerts cw (take 50 (rev (map stored_of ?rows))))"
    by (simp add: alerts_route_def limit_param_def reply_with_def list_recent_alerts_def transact_def rows_stored [OF assms(1)]
        take_map rev_map)
  moreover have "map st_alert (map stored_of ?rows) = alerts \<and> list_all (\<lambda>s. st_status s = open_status) (map stored_of ?rows)"
    using rows
  proof (induction rule: list_all2_induct)
    case (Cons row rows a alerts)
    then show ?case using stored_row [of pg "ar_alert_id row" a] by simp
  qed simp
  moreover have "map st_alert_id (map stored_of ?rows) = map ar_alert_id ?rows" by (simp add: stored_of_def)
  then have "sorted_wrt (<) (map st_alert_id (map stored_of ?rows))" using ok by (simp only: store_ok_def)
  ultimately show ?thesis
    using run pipeline by (intro exI [of _ server] exI [of _ "map stored_of ?rows"]) simp
qed

text \<open>
  C10: from the detectors to the dashboard.  When the server is as documented, refuses no text
  and every insertion completes, the live server never stops with an exception, and a request for alerts without
  parameters is answered 200 with the encoding of the newest 50, latest first, of exactly the alerts that the live
  consumer delivers for the events handled, in the order delivered, each unchanged and open.
\<close>

theorem dashboard_shows_alerts:
  assumes "documented pg" and "refuses_nothing pg" and "\<forall>n. completes_until answers n"
    and "lc_alert_sink (consumer_run ds accounts clock [] es) = Some alerts"
  shows "\<exists>server stored. server_run pg evaluate_any clock answers es (server_start ds accounts) = Inr server \<and>
    fst (alerts_route cw what pg (Completed lost) \<lparr>rq_params = Map.empty, rq_body = []\<rparr> (ls_db server)) =
      respond 200 (encode_alerts cw (take 50 (rev stored))) \<and>
    map st_alert stored = alerts \<and> list_all (\<lambda>s. st_status s = open_status) stored \<and> sorted_wrt (<) (map st_alert_id stored)"
  using alerts_shown [OF assms] by blast

theorem dashboard_shows_alerts_witness:
  "\<exists>server stored. server_run plain_server evaluate_any (\<lambda>n. int n) (\<lambda>n. Completed 0) (self_trade @ [self_fill])
       (server_start [Wash_Trade_Detector] empty_registry) = Inr server \<and>
     fst (alerts_route plain_crow (\<lambda>e. []) plain_server (Completed 0) \<lparr>rq_params = Map.empty, rq_body = []\<rparr> (ls_db server)) =
       respond 200 (encode_alerts plain_crow (take 50 (rev stored))) \<and>
     Some (map st_alert stored) =
       lc_alert_sink (consumer_run [Wash_Trade_Detector] empty_registry (\<lambda>n. int n) [] (self_trade @ [self_fill]))"
proof -
  obtain alerts where alerts: "lc_alert_sink (consumer_run [Wash_Trade_Detector] empty_registry (\<lambda>n. int n) [] (self_trade @ [self_fill])) =
      Some alerts" using consumer_run_result by blast
  have "refuses_nothing plain_server" "\<forall>n. completes_until (\<lambda>n. Completed 0) n"
    by (simp_all add: refuses_nothing_def plain_server_def completes_until_def)
  from dashboard_shows_alerts [OF plain_server_documented this alerts] show ?thesis unfolding alerts by blast
qed

text \<open>
  A failing database.  If the insertion of some delivered alert fails, its exception leaves the
  consumer's thread, and no later event is handled.
\<close>

theorem db_failure_stops_server:
  assumes "documented pg" and "refuses_nothing pg" and "lc_alert_sink (consumer_run ds accounts clock [] es) = Some alerts"
    and "completes_until answers k" and "answers k = Failed msg lost" and "k < length alerts"
  shows "server_run pg evaluate_any clock answers (es @ later) (server_start ds accounts) = Inl msg"
  using server_run_failed [OF assms]
proof (induction later rule: rev_induct)
  case (snoc e later)
  then show ?case using server_run_snoc [of pg evaluate_any clock answers "es @ later" e] by simp
qed simp

text \<open>The id, the status and the row of a request that is carried out.\<close>

definition patches :: "('j, 'r) crow_json \<Rightarrow> postgres \<Rightarrow> request \<Rightarrow> string \<Rightarrow> alert_db \<Rightarrow> (int \<times> string \<times> alert_row) option" where
  "patches cw pg req alert_id_text db =
     (case (parse_id alert_id_text, status_text cw (rq_body req)) of
        (Some alert_id, Inr (Some status)) \<Rightarrow>
          if pg_refuses pg [status] = None \<and> status \<in> set allowed_statuses
          then (case row_of alert_id db of [] \<Rightarrow> None | row # rows \<Rightarrow> Some (alert_id, status, row)) else None
      | _ \<Rightarrow> None)"

text \<open>
  C22: changing a status.  With both transactions completed: a reply is 200 exactly if the id is an
  integer, the body has a member \<open>status\<close> that Crow converts to a string, the server takes it, the alert exists and the status is allowed; then the alert has that status, no other row has changed, and
  the body is the alert as it is now; otherwise the reply is 400 and the alerts are as
  before.  Only Crow's conversion of the body throws, and the empty optional is never dereferenced.
\<close>

theorem patch_status_exact:
  assumes "documented pg"
  shows "case patch_status_route cw pg (Completed lost) (Completed lost') req alert_id_text db of
      (Replied r, db') \<Rightarrow>
        (case patches cw pg req alert_id_text db of
           None \<Rightarrow> rs_code r = 400 \<and> db_alerts db' = db_alerts db
         | Some (alert_id, status, row) \<Rightarrow>
             rs_code r = 200 \<and> rs_body r = encode_alert cw (stored_of (row\<lparr>ar_status := status\<rparr>)) \<and>
             db_alerts db' = map (\<lambda>row. if ar_alert_id row = alert_id then row\<lparr>ar_status := status\<rparr> else row) (db_alerts db))
    | (Threw msg, db') \<Rightarrow> status_text cw (rq_body req) = Inl msg \<and> db' = db
    | (Undefined, db') \<Rightarrow> False"
proof (cases "patches cw pg req alert_id_text db")
  case None
  then show ?thesis
    by (auto simp: patches_def patch_status_route_def update_alert_status_def transact_def respond_def row_of_def
        list_ex_iff filter_empty_conv documented_arrays [OF assms] split: option.splits sum.splits if_splits list.splits)
next
  case (Some p)
  then obtain alert_id status row rows where p: "parse_id alert_id_text = Some alert_id" "status_text cw (rq_body req) = Inr (Some status)"
    "pg_refuses pg [status] = None" "status \<in> set allowed_statuses" "row_of alert_id db = row # rows"
    "patches cw pg req alert_id_text db = Some (alert_id, status, row)"
    by (auto simp: patches_def split: option.splits sum.splits if_splits list.splits)
  let ?db' = "(skip_ids lost db)\<lparr>db_alerts := set_status alert_id status (db_alerts db)\<rparr>"
  have here: "ar_alert_id row = alert_id" using arg_cong [OF p(5), of set] by (auto simp: row_of_def)
  have found: "list_ex (\<lambda>row. ar_alert_id row = alert_id) (db_alerts db)"
    using arg_cong [OF p(5), of set] by (auto simp: row_of_def list_ex_iff)
  then have updated: "update_alert_status pg (Completed lost) alert_id status db = (Inr (), ?db')"
    using p(3,4) by (simp add: update_alert_status_def transact_def set_status_def)
  have "row_of alert_id ?db' = set_status alert_id status (row_of alert_id db)"
    by (simp add: row_of_def filter_set_status)
  then have "row_of alert_id ?db' = row\<lparr>ar_status := status\<rparr> # set_status alert_id status rows"
    using here by (simp add: p(5)) (simp add: set_status_def)
  then have read: "get_alert pg (Completed lost') alert_id ?db' = (Inr (Some (stored_of (row\<lparr>ar_status := status\<rparr>))), skip_ids lost' ?db')"
    by (simp add: get_alert_def reading_def transact_def documented_arrays [OF assms] rows_stored [OF assms] row_of_def Let_def)
  show ?thesis by (simp add: patch_status_route_def p updated read respond_def) (simp add: set_status_def)
qed

theorem patch_status_exact_witness:
  "\<exists>db' r db''. insert_alert plain_server (Completed 0) sample_alert empty_db = (Inr 1, db') \<and>
     patch_status_route plain_crow plain_server (Completed 0) (Completed 0) \<lparr>rq_params = Map.empty, rq_body = ''CLOSED''\<rparr>
       (show_int 1) db' = (Replied r, db'') \<and> rs_code r = 200"
proof -
  obtain db' where db': "insert_alert plain_server (Completed 0) sample_alert empty_db = (Inr 1, db')" using sample_inserted by blast
  have "patches plain_crow plain_server \<lparr>rq_params = Map.empty, rq_body = ''CLOSED''\<rparr> (show_int 1) db' =
      Some (1, ''CLOSED'', alert_row_of plain_server 1 sample_alert)"
    using inserted_row(2) [OF plain_server_documented empty_db_ok db']
    by (simp add: patches_def parse_id_show status_text_def plain_crow_def plain_server_def allowed_statuses_def)
  with patch_status_exact [OF plain_server_documented, where cw = plain_crow and lost = 0 and lost' = 0
      and req = "\<lparr>rq_params = Map.empty, rq_body = ''CLOSED''\<rparr>" and alert_id_text = "show_int 1" and db = db'] db'
  show ?thesis
    by (auto split: prod.splits outcome.splits simp: status_text_def plain_crow_def)
qed

text \<open>
  An alert's JSON determines the alert.  Over any JSON library that reads a member as it was set and keeps
  different contents apart, two stored alerts have equal encodings only if they are equal.
\<close>

theorem encode_alert_injective:
  assumes "lawful_crow cw"
  shows "encode_alert cw a = encode_alert cw b \<longleftrightarrow> a = b"
proof
  assume same: "encode_alert cw a = encode_alert cw b"
  have members: "cw_get cw (encode_alert cw a) key = cw_get cw (encode_alert cw b) key" for key by (simp add: same)
  have inj: "cw_int cw m = cw_int cw n \<longleftrightarrow> m = n" "cw_double cw x = cw_double cw y \<longleftrightarrow> x = y"
    "cw_string cw s = cw_string cw t \<longleftrightarrow> s = t" "cw_list cw js = cw_list cw ks \<longleftrightarrow> js = ks"
    "cw_int cw n \<noteq> cw_null cw" "cw_string cw s \<noteq> cw_null cw" for m n x y s t js ks
    using assms by (simp_all add: lawful_crow_def inj_eq)
  note null = inj(5,6) inj(5,6) [symmetric]
  have strings: "map (cw_string cw) ss = map (cw_string cw) ts \<longleftrightarrow> ss = ts" for ss ts
    using assms by (simp add: lawful_crow_def inj_map_eq_map)
  note read = encode_alert_def Let_def get_set_fields [OF assms] inj null strings
  have "st_alert_id a = st_alert_id b" using members [of "''alert_id''"] by (simp add: read)
  moreover have "st_status a = st_status b" using members [of "''status''"] by (simp add: read)
  moreover have "al_detector_name (st_alert a) = al_detector_name (st_alert b)" using members [of "''detector_name''"] by (simp add: read)
  moreover have "al_score (st_alert a) = al_score (st_alert b)" using members [of "''score''"] by (simp add: read)
  moreover have "al_instrument_id (st_alert a) = al_instrument_id (st_alert b)" using members [of "''instrument_id''"] by (simp add: read)
  moreover have "al_account_ids (st_alert a) = al_account_ids (st_alert b)" using members [of "''account_ids''"] by (simp add: read)
  moreover have "al_order_ids (st_alert a) = al_order_ids (st_alert b)" using members [of "''order_ids''"] by (simp add: read)
  moreover have "al_window_start_ns (st_alert a) = al_window_start_ns (st_alert b)" using members [of "''window_start_ns''"] by (simp add: read)
  moreover have "al_window_end_ns (st_alert a) = al_window_end_ns (st_alert b)" using members [of "''window_end_ns''"] by (simp add: read)
  moreover have "al_evidence (st_alert a) = al_evidence (st_alert b)" using members [of "''evidence''"] by (simp add: read)
  moreover have "al_model_version (st_alert a) = al_model_version (st_alert b)"
    using members [of "''model_version''"] by (simp add: read split: option.splits)
  moreover have "al_book_snapshot_sequence (st_alert a) = al_book_snapshot_sequence (st_alert b)"
    using members [of "''book_snapshot_sequence''"] by (simp add: read split: option.splits)
  ultimately show "a = b" by (intro stored_alert.equality alert.equality) simp_all
qed simp

theorem encode_alert_injective_witness:
  "encode_alert plain_crow \<lparr>st_alert_id = 1, st_alert = sample_alert, st_status = ''OPEN''\<rparr> \<noteq>
   encode_alert plain_crow \<lparr>st_alert_id = 1, st_alert = sample_alert, st_status = ''CLOSED''\<rparr>"
  using encode_alert_injective [OF plain_crow_lawful] by simp

end
