(* ===== verification/Kafka_Clients.thy ===== *)
theory Kafka_Clients
  imports Replay_Properties
begin

text \<open>
  The classes \<open>KafkaProducer\<close> and \<open>KafkaReplayConsumer\<close> of \<open>cpp/ingestion/\<close>, from construction to
  destruction.  librdkafka and the broker are a parameter: a record of functions on a world of type \<open>'w\<close>,
  with handles of type \<open>'h\<close>.  What its documentation promises is \<open>documented_log\<close>: the producer
  sets \<open>bootstrap.servers\<close> only, so it is not idempotent, and a message may be delivered once, several
  times, late or not at all.
\<close>

section \<open>The library\<close>

datatype kafka_offset = Offset_Beginning

record ('h, 'w) rdkafka =
  rk_set :: "string \<Rightarrow> string \<Rightarrow> string option"
  rk_create_producer :: "(string \<times> string) list \<Rightarrow> 'w \<Rightarrow> (string + 'h) \<times> 'w"
  rk_create_consumer :: "(string \<times> string) list \<Rightarrow> 'w \<Rightarrow> (string + 'h) \<times> 'w"
  rk_produce :: "'h \<Rightarrow> string \<Rightarrow> string \<Rightarrow> 'w \<Rightarrow> produce_answer \<times> 'w"
  rk_poll :: "'h \<Rightarrow> int \<Rightarrow> 'w \<Rightarrow> 'w"
  rk_flush :: "'h \<Rightarrow> int \<Rightarrow> 'w \<Rightarrow> bool \<times> 'w"
  rk_assign :: "'h \<Rightarrow> (string \<times> int \<times> kafka_offset) list \<Rightarrow> 'w \<Rightarrow> string option \<times> 'w"
  rk_consume :: "'h \<Rightarrow> int \<Rightarrow> 'w \<Rightarrow> consume_answer \<times> 'w"
  rk_close :: "'h \<Rightarrow> 'w \<Rightarrow> 'w"

section \<open>The producer\<close>

record 'h kafka_producer =
  kp_conf :: "(string \<times> string) list"
  kp_producer :: 'h
  kp_topic :: string

text \<open>The settings are tried in turn; the first that is refused gives its name and the reason.\<close>

fun set_all :: "('h, 'w) rdkafka \<Rightarrow> (string \<times> string) list \<Rightarrow> string + unit" where
  "set_all rk [] = Inr ()"
| "set_all rk ((name, value) # settings) =
     (case rk_set rk name value of
        Some errstr \<Rightarrow> Inl (''failed to set '' @ name @ '': '' @ errstr)
      | None \<Rightarrow> set_all rk settings)"

definition new_kafka_producer ::
    "('h, 'w) rdkafka \<Rightarrow> string \<Rightarrow> string \<Rightarrow> 'w \<Rightarrow> (string + 'h kafka_producer) \<times> 'w" where
  "new_kafka_producer rk brokers topic w =
     (let conf = [(''bootstrap.servers'', brokers)]
      in case set_all rk conf of
           Inl msg \<Rightarrow> (Inl (''KafkaProducer: '' @ msg), w)
         | Inr _ \<Rightarrow>
             (case rk_create_producer rk conf w of
                (Inl errstr, w') \<Rightarrow> (Inl (''KafkaProducer: failed to create producer: '' @ errstr), w')
              | (Inr h, w') \<Rightarrow> (Inr \<lparr>kp_conf = conf, kp_producer = h, kp_topic = topic\<rparr>, w')))"

definition producer_publish ::
    "('h, 'w) rdkafka \<Rightarrow> 'h kafka_producer \<Rightarrow> event \<Rightarrow> 'w \<Rightarrow> (string + bool) \<times> 'w" where
  "producer_publish rk p event w =
     (let (answer, w') = rk_produce rk (kp_producer p) (kp_topic p) (encode event) w
      in case answer of
           Queue_Full \<Rightarrow> (Inr False, w')
         | Produce_Error msg \<Rightarrow> (Inl (''KafkaProducer: produce() failed: '' @ msg), w')
         | Produced \<Rightarrow> (Inr True, w'))"

definition producer_poll :: "('h, 'w) rdkafka \<Rightarrow> 'h kafka_producer \<Rightarrow> int \<Rightarrow> 'w \<Rightarrow> 'w" where
  "producer_poll rk p timeout_ms w = rk_poll rk (kp_producer p) timeout_ms w"

definition producer_flush :: "('h, 'w) rdkafka \<Rightarrow> 'h kafka_producer \<Rightarrow> int \<Rightarrow> 'w \<Rightarrow> bool \<times> 'w" where
  "producer_flush rk p timeout_ms w = rk_flush rk (kp_producer p) timeout_ms w"

definition destroy_producer :: "('h, 'w) rdkafka \<Rightarrow> 'h kafka_producer \<Rightarrow> 'w \<Rightarrow> 'w" where
  "destroy_producer rk p w = snd (producer_flush rk p 5000 w)"

section \<open>The consumer\<close>

record 'h kafka_replay_consumer =
  kc_conf :: "(string \<times> string) list"
  kc_consumer :: 'h
  kc_topic :: string
  kc_partition :: int

definition seek_to_beginning ::
    "('h, 'w) rdkafka \<Rightarrow> 'h kafka_replay_consumer \<Rightarrow> 'w \<Rightarrow> (string + unit) \<times> 'w" where
  "seek_to_beginning rk c w =
     (case rk_assign rk (kc_consumer c) [(kc_topic c, kc_partition c, Offset_Beginning)] w of
        (Some msg, w') \<Rightarrow> (Inl (''KafkaReplayConsumer: assign() failed: '' @ msg), w')
      | (None, w') \<Rightarrow> (Inr (), w'))"

definition new_kafka_consumer ::
    "('h, 'w) rdkafka \<Rightarrow> string \<Rightarrow> string \<Rightarrow> int \<Rightarrow> 'w \<Rightarrow> (string + 'h kafka_replay_consumer) \<times> 'w" where
  "new_kafka_consumer rk brokers topic partition_id w =
     (let conf = [(''bootstrap.servers'', brokers), (''group.id'', ''tse-replay-consumer''), (''enable.partition.eof'', ''true'')]
      in case set_all rk conf of
           Inl msg \<Rightarrow> (Inl (''KafkaReplayConsumer: '' @ msg), w)
         | Inr _ \<Rightarrow>
             (case rk_create_consumer rk conf w of
                (Inl errstr, w') \<Rightarrow> (Inl (''KafkaReplayConsumer: failed to create consumer: '' @ errstr), w')
              | (Inr h, w') \<Rightarrow>
                  (let c = \<lparr>kc_conf = conf, kc_consumer = h, kc_topic = topic, kc_partition = partition_id\<rparr>
                   in case seek_to_beginning rk c w' of
                        (Inl msg, w'') \<Rightarrow> (Inl msg, w'')
                      | (Inr _, w'') \<Rightarrow> (Inr c, w''))))"

definition consumer_poll ::
    "('h, 'w) rdkafka \<Rightarrow> 'h kafka_replay_consumer \<Rightarrow> int \<Rightarrow> 'w \<Rightarrow> (poll_error + event option) \<times> 'w" where
  "consumer_poll rk c timeout_ms w = apfst poll (rk_consume rk (kc_consumer c) timeout_ms w)"

definition destroy_consumer :: "('h, 'w) rdkafka \<Rightarrow> 'h kafka_replay_consumer \<Rightarrow> 'w \<Rightarrow> 'w" where
  "destroy_consumer rk c w = rk_close rk (kc_consumer c) w"

section \<open>What the documentation promises\<close>

text \<open>
  The log of a topic's partition 0, the messages that producers have handed over for the topic so far, and where
  a consumer reads next.
\<close>

record ('h, 'w) kafka_view =
  kv_log :: "'w \<Rightarrow> string \<Rightarrow> string list"
  kv_handed :: "'w \<Rightarrow> string \<Rightarrow> string set"
  kv_position :: "'h \<Rightarrow> 'w \<Rightarrow> (string \<times> int \<times> nat) option"

text \<open>
  Any call may see the log grow, since messages travel in the background.  What is appended has been handed over
  at some time; nothing is said about which of these messages arrive, how often or in what order.
\<close>

definition log_grows :: "('h, 'w) kafka_view \<Rightarrow> (string \<times> string) list \<Rightarrow> 'w \<Rightarrow> 'w \<Rightarrow> bool" where
  "log_grows v added w w' \<longleftrightarrow>
     (\<forall>topic. kv_handed v w' topic = kv_handed v w topic \<union> {m. (topic, m) \<in> set added} \<and>
        (\<exists>arrived. kv_log v w' topic = kv_log v w topic @ arrived \<and> set arrived \<subseteq> kv_handed v w' topic))"

text \<open>A call of \<open>consume\<close> at position \<open>k\<close>: the message there, if there is one, or none.\<close>

definition reads_on :: "('h, 'w) kafka_view \<Rightarrow> 'h \<Rightarrow> string \<Rightarrow> nat \<Rightarrow> consume_answer \<Rightarrow> 'w \<Rightarrow> bool" where
  "reads_on v h topic k answer w' \<longleftrightarrow>
     (case answer of
        Message m \<Rightarrow> k < length (kv_log v w' topic) \<and> m = kv_log v w' topic ! k \<and> kv_position v h w' = Some (topic, 0, Suc k)
      | _ \<Rightarrow> kv_position v h w' = Some (topic, 0, k))"

definition documented_log :: "('h, 'w) rdkafka \<Rightarrow> ('h, 'w) kafka_view \<Rightarrow> bool" where
  "documented_log rk v \<longleftrightarrow>
     (\<forall>conf w r w'. rk_create_producer rk conf w = (r, w') \<longrightarrow> log_grows v [] w w') \<and>
     (\<forall>conf w r w'. rk_create_consumer rk conf w = (r, w') \<longrightarrow> log_grows v [] w w') \<and>
     (\<forall>h topic m w a w'. rk_produce rk h topic m w = (a, w') \<longrightarrow> log_grows v (if a = Produced then [(topic, m)] else []) w w') \<and>
     (\<forall>h timeout w. log_grows v [] w (rk_poll rk h timeout w)) \<and>
     (\<forall>h timeout w ok w'. rk_flush rk h timeout w = (ok, w') \<longrightarrow> log_grows v [] w w') \<and>
     (\<forall>h ps w a w'. rk_assign rk h ps w = (a, w') \<longrightarrow> log_grows v [] w w') \<and>
     (\<forall>h topic p w w'. rk_assign rk h [(topic, p, Offset_Beginning)] w = (None, w') \<longrightarrow>
        kv_position v h w' = Some (topic, p, 0)) \<and>
     (\<forall>h timeout w answer w'. rk_consume rk h timeout w = (answer, w') \<longrightarrow> log_grows v [] w w') \<and>
     (\<forall>h timeout topic k w answer w'. kv_position v h w = Some (topic, 0, k) \<longrightarrow> rk_consume rk h timeout w = (answer, w') \<longrightarrow>
        reads_on v h topic k answer w')"

lemma documented_logD:
  assumes "documented_log rk v"
  shows "rk_create_producer rk conf w = (r, w') \<Longrightarrow> log_grows v [] w w'"
    and "rk_create_consumer rk conf w = (r, w') \<Longrightarrow> log_grows v [] w w'"
    and "rk_produce rk h topic m w = (a, w') \<Longrightarrow> log_grows v (if a = Produced then [(topic, m)] else []) w w'"
    and "log_grows v [] w (rk_poll rk h timeout w)"
    and "rk_flush rk h timeout w = (ok, w') \<Longrightarrow> log_grows v [] w w'"
    and "rk_assign rk h ps w = (failed, w') \<Longrightarrow> log_grows v [] w w'"
    and "rk_assign rk h [(topic, p, Offset_Beginning)] w = (None, w') \<Longrightarrow> kv_position v h w' = Some (topic, p, 0)"
    and "rk_consume rk h timeout w = (answer, w') \<Longrightarrow> log_grows v [] w w'"
    and "kv_position v h w = Some (topic, 0, k) \<Longrightarrow> rk_consume rk h timeout w = (answer, w') \<Longrightarrow> reads_on v h topic k answer w'"
  using assms unfolding documented_log_def by - (elim conjE, metis)+

lemma log_grows_refl [simp]: "log_grows v [] w w"
  by (simp add: log_grows_def)

lemma log_grows_trans:
  assumes "log_grows v xs w w1" and "log_grows v ys w1 w2"
  shows "log_grows v (xs @ ys) w w2"
  unfolding log_grows_def
proof
  fix topic
  obtain arrived where 1: "kv_handed v w1 topic = kv_handed v w topic \<union> {m. (topic, m) \<in> set xs}"
    "kv_log v w1 topic = kv_log v w topic @ arrived" "set arrived \<subseteq> kv_handed v w1 topic"
    using assms(1) unfolding log_grows_def by meson
  obtain arrived' where 2: "kv_handed v w2 topic = kv_handed v w1 topic \<union> {m. (topic, m) \<in> set ys}"
    "kv_log v w2 topic = kv_log v w1 topic @ arrived'" "set arrived' \<subseteq> kv_handed v w2 topic"
    using assms(2) unfolding log_grows_def by meson
  show "kv_handed v w2 topic = kv_handed v w topic \<union> {m. (topic, m) \<in> set (xs @ ys)} \<and>
      (\<exists>arrived. kv_log v w2 topic = kv_log v w topic @ arrived \<and> set arrived \<subseteq> kv_handed v w2 topic)"
    using 1 2 by (intro conjI exI [of _ "arrived @ arrived'"]) auto
qed

lemmas log_grows_more = log_grows_trans [where xs = "[]", simplified] log_grows_trans [where ys = "[]", simplified]

lemma log_grows_prefix: "log_grows v added w w' \<Longrightarrow> prefix (kv_log v w topic) (kv_log v w' topic)"
  unfolding log_grows_def prefix_def by blast

section \<open>A producer's session\<close>

text \<open>The loop of the replay, with the answers that \<open>produce\<close> gives: an event that meets a full queue is tried again after a poll.\<close>

inductive publishes ::
    "('h, 'w) rdkafka \<Rightarrow> 'h kafka_producer \<Rightarrow> event list \<Rightarrow> 'w \<Rightarrow> produce_answer list \<Rightarrow> 'w \<Rightarrow> bool" for rk p where
  nothing_left: "publishes rk p [] w [] w"
| accepted_event: "producer_publish rk p e w = (Inr True, w1) \<Longrightarrow> publishes rk p es (producer_poll rk p 0 w1) answers w2 \<Longrightarrow>
    publishes rk p (e # es) w (Produced # answers) w2"
| full_queue: "producer_publish rk p e w = (Inr False, w1) \<Longrightarrow> publishes rk p (e # es) (producer_poll rk p 10 w1) answers w2 \<Longrightarrow>
    publishes rk p (e # es) w (Queue_Full # answers) w2"

lemma publishes_grows:
  assumes "documented_log rk v" and "publishes rk p events w answers w'"
  shows "log_grows v (map (\<lambda>e. (kp_topic p, encode e)) events) w w'"
  using assms(2)
proof (induction rule: publishes.induct)
  case (nothing_left w)
  show ?case by simp
next
  case (accepted_event e w w1 es answers w2)
  have "log_grows v [(kp_topic p, encode e)] w w1"
    using documented_logD(3) [OF assms(1)] accepted_event.hyps(1)
    by (fastforce simp: producer_publish_def split: prod.splits produce_answer.splits)
  from log_grows_trans [OF log_grows_more(2) [OF this documented_logD(4) [OF assms(1)]]] accepted_event.IH show ?case
    by (simp add: producer_poll_def)
next
  case (full_queue e w w1 es answers w2)
  have "log_grows v [] w w1"
    using documented_logD(3) [OF assms(1)] full_queue.hyps(1)
    by (fastforce simp: producer_publish_def split: prod.splits produce_answer.splits)
  from log_grows_more(1) [OF log_grows_more(2) [OF this documented_logD(4) [OF assms(1)]]] full_queue.IH show ?case
    by (simp add: producer_poll_def)
qed

text \<open>After a producer's session on a fresh topic, its log holds messages of the session only.\<close>

lemma new_producer_grows:
  assumes "documented_log rk v" and "new_kafka_producer rk brokers topic w = (Inr p, w')"
  shows "log_grows v [] w w'" and "kp_topic p = topic"
  using assms(2) documented_logD(1) [OF assms(1)]
  by (fastforce simp: new_kafka_producer_def Let_def split: sum.splits option.splits prod.splits)+

lemma session_grows:
  assumes "documented_log rk v" and "new_kafka_producer rk brokers topic w0 = (Inr p, w1)"
    and "publishes rk p events w1 answers w2" and "producer_flush rk p timeout w2 = (ok, w3)"
  shows "log_grows v (map (\<lambda>e. (topic, encode e)) events) w0 (destroy_producer rk p w3)"
proof -
  note made = new_producer_grows [OF assms(1,2)]
  obtain ok' w4 where destroyed: "rk_flush rk (kp_producer p) 5000 w3 = (ok', w4)" by fastforce
  have "log_grows v (map (\<lambda>e. (topic, encode e)) events) w0 w2"
    using log_grows_more(1) [OF made(1) publishes_grows [OF assms(1,3)]] by (simp add: made(2))
  from log_grows_more(2) [OF log_grows_more(2) [OF this] documented_logD(5) [OF assms(1) destroyed]]
    documented_logD(5) [OF assms(1) assms(4) [unfolded producer_flush_def]]
  show ?thesis by (simp add: destroy_producer_def producer_flush_def destroyed)
qed

lemma fresh_log:
  assumes "log_grows v added w w'" and "kv_log v w topic = []" and "kv_handed v w topic = {}"
  shows "set (kv_log v w' topic) \<subseteq> {m. (topic, m) \<in> set added}"
proof -
  obtain arrived where "kv_handed v w' topic = {m. (topic, m) \<in> set added}" "kv_log v w' topic = arrived"
    "set arrived \<subseteq> kv_handed v w' topic"
    using assms unfolding log_grows_def by (metis Un_empty_left append_Nil)
  then show ?thesis by simp
qed

section \<open>A consumer's passes\<close>

fun consume_times :: "('h, 'w) rdkafka \<Rightarrow> 'h kafka_replay_consumer \<Rightarrow> int \<Rightarrow> nat \<Rightarrow> 'w \<Rightarrow> consume_answer list \<times> 'w" where
  "consume_times rk c timeout_ms 0 w = ([], w)"
| "consume_times rk c timeout_ms (Suc n) w =
     (let (answer, w') = rk_consume rk (kc_consumer c) timeout_ms w
      in apfst (Cons answer) (consume_times rk c timeout_ms n w'))"

text \<open>What the calls of \<open>poll\<close> return.\<close>

fun poll_times :: "('h, 'w) rdkafka \<Rightarrow> 'h kafka_replay_consumer \<Rightarrow> int \<Rightarrow> nat \<Rightarrow> 'w \<Rightarrow> (poll_error + event option) list \<times> 'w" where
  "poll_times rk c timeout_ms 0 w = ([], w)"
| "poll_times rk c timeout_ms (Suc n) w =
     (let (result, w') = consumer_poll rk c timeout_ms w in apfst (Cons result) (poll_times rk c timeout_ms n w'))"

lemma poll_times_eq: "poll_times rk c timeout_ms n w = apfst (map poll) (consume_times rk c timeout_ms n w)"
  by (induction n arbitrary: w) (simp_all add: consumer_poll_def apfst_def map_prod_def split_beta)

lemma consume_times_grows:
  "documented_log rk v \<Longrightarrow> consume_times rk c timeout_ms n w = (answers, w') \<Longrightarrow> log_grows v [] w w'"
proof (induction n arbitrary: w answers)
  case (Suc n)
  obtain a w1 where step: "rk_consume rk (kc_consumer c) timeout_ms w = (a, w1)" by fastforce
  obtain rest where "consume_times rk c timeout_ms n w1 = (rest, w')"
    using Suc.prems(2) by (auto simp: step apfst_def map_prod_def split: prod.splits)
  from Suc.IH [OF Suc.prems(1) this] show ?case using log_grows_more(1) [OF documented_logD(8) [OF Suc.prems(1) step]] by blast
qed simp

lemma consume_times_reads:
  assumes "documented_log rk v" and "kv_position v (kc_consumer c) w = Some (topic, 0, k)"
    and "consume_times rk c timeout_ms n w = (answers, w')"
  shows "prefix (messages_of answers) (drop k (kv_log v w' topic))"
  using assms(2,3)
proof (induction n arbitrary: w k answers)
  case (Suc n)
  obtain a w1 where step: "rk_consume rk (kc_consumer c) timeout_ms w = (a, w1)" by fastforce
  obtain rest where rest: "answers = a # rest" "consume_times rk c timeout_ms n w1 = (rest, w')"
    using Suc.prems(2) by (auto simp: step apfst_def map_prod_def split: prod.splits)
  note law = documented_logD(9) [OF assms(1) Suc.prems(1) step, unfolded reads_on_def]
  show ?case
  proof (cases a)
    case (Message m)
    with law have at_k: "k < length (kv_log v w1 topic)" "m = kv_log v w1 topic ! k"
      "kv_position v (kc_consumer c) w1 = Some (topic, 0, Suc k)" by simp_all
    have "prefix (kv_log v w1 topic) (kv_log v w' topic)"
      by (rule log_grows_prefix [OF consume_times_grows [OF assms(1) rest(2)]])
    then have "k < length (kv_log v w' topic)" "m = kv_log v w' topic ! k"
      using at_k(1,2) by (auto simp: prefix_def nth_append)
    then have "drop k (kv_log v w' topic) = m # drop (Suc k) (kv_log v w' topic)" by (simp add: Cons_nth_drop_Suc)
    with Suc.IH [OF at_k(3) rest(2)] show ?thesis by (simp add: rest(1) Message)
  qed (use law Suc.IH [OF _ rest(2)] in \<open>auto simp: rest(1)\<close>)
qed simp

lemma seek_position:
  assumes "documented_log rk v" and "seek_to_beginning rk c w = (Inr (), w')"
  shows "kv_position v (kc_consumer c) w' = Some (kc_topic c, kc_partition c, 0)" and "log_grows v [] w w'"
proof -
  have "rk_assign rk (kc_consumer c) [(kc_topic c, kc_partition c, Offset_Beginning)] w = (None, w')"
    using assms(2) by (auto simp: seek_to_beginning_def split: prod.splits option.splits)
  then show "kv_position v (kc_consumer c) w' = Some (kc_topic c, kc_partition c, 0)" "log_grows v [] w w'"
    by (rule documented_logD(7) [OF assms(1)], rule documented_logD(6) [OF assms(1)])
qed

lemma new_consumer_position:
  assumes "documented_log rk v" and "new_kafka_consumer rk brokers topic partition_id w = (Inr c, w')"
  shows "log_grows v [] w w'" and "kc_topic c = topic" and "kc_partition c = partition_id"
proof -
  obtain w1 h where made: "c = \<lparr>kc_conf = kc_conf c, kc_consumer = h, kc_topic = topic, kc_partition = partition_id\<rparr>"
    "rk_create_consumer rk (kc_conf c) w = (Inr h, w1)" "seek_to_beginning rk c w1 = (Inr (), w')"
    using assms(2) by (auto simp: new_kafka_consumer_def Let_def split: sum.splits option.splits prod.splits)
  show "kc_topic c = topic" "kc_partition c = partition_id" by (subst made(1), simp)+
  show "log_grows v [] w w'"
    by (rule log_grows_more(1) [OF documented_logD(2) [OF assms(1) made(2)] seek_position(2) [OF assms(1) made(3)]])
qed

section \<open>The replay over the log\<close>

lemma publishes_answers:
  "publishes rk p events w answers w' \<Longrightarrow> publish_events answers events topic = Some (Inr (topic @ map encode events))"
proof (induction arbitrary: topic rule: publishes.induct)
  case (full_queue e w w1 es answers w2)
  show ?case using full_queue.IH [of topic] by (simp add: publish_def)
qed (simp_all add: publish_def)

text \<open>What is in the log encodes events of the session.\<close>

lemma set_map_obtain:
  assumes "set ms \<subseteq> f ` A"
  obtains xs where "ms = map f xs" and "set xs \<subseteq> A"
proof -
  have "\<exists>xs. ms = map f xs \<and> set xs \<subseteq> A" using assms
  proof (induction ms)
    case (Cons m ms)
    then obtain x xs where "m = f x" "x \<in> A" "ms = map f xs" "set xs \<subseteq> A" by auto
    then show ?case by (intro exI [of _ "x # xs"]) simp
  qed simp
  then show thesis using that by blast
qed

lemma encode_inj:
  assumes "list_all encodable events"
  shows "inj_on encode (set events)"
proof (rule inj_onI)
  have dec: "decode (encode e) = Inr e" if "e \<in> set events" for e
    using event_codec.dec_log [OF assms] that by auto
  fix e e'
  assume "e \<in> set events" "e' \<in> set events" and same: "encode e = encode e'"
  with dec [of e] dec [of e'] show "e = e'" unfolding same by simp
qed

lemma same_encodings:
  assumes "list_all encodable events" and "set xs \<subseteq> set events" and "set ys \<subseteq> set events"
  shows "map encode xs = map encode ys \<longleftrightarrow> xs = ys"
    and "image_mset encode (mset xs) = image_mset encode (mset ys) \<longleftrightarrow> mset xs = mset ys"
proof -
  have inj: "inj_on encode (set xs \<union> set ys)" using encode_inj [OF assms(1)] assms(2,3) by (meson Un_least inj_on_subset)
  show "map encode xs = map encode ys \<longleftrightarrow> xs = ys" by (rule inj_on_map_eq_map [OF inj])
  show "image_mset encode (mset xs) = image_mset encode (mset ys) \<longleftrightarrow> mset xs = mset ys"
  proof
    assume "image_mset encode (mset xs) = image_mset encode (mset ys)"
    then have "image_mset (inv_into (set events) encode) (image_mset encode (mset xs)) =
        image_mset (inv_into (set events) encode) (image_mset encode (mset ys))" by simp
    moreover have "image_mset (inv_into (set events) encode) (image_mset encode (mset zs)) = mset zs"
      if "set zs \<subseteq> set events" for zs
      using that by (simp add: image_mset.compositionality comp_def)
        (intro image_mset_cong [where g = id, simplified], use encode_inj [OF assms(1)] in auto)
    ultimately show "mset xs = mset ys" using assms(2,3) by simp
  qed simp
qed

lemma whole_session_read:
  assumes "list_all encodable events" and "set stored \<subseteq> set events" and "length events \<le> length stored"
  shows "mset (map encode stored) \<subseteq># mset (map encode events) \<Longrightarrow> mset stored = mset events"
    and "subseq (map encode stored) (map encode events) \<Longrightarrow> stored = events"
proof -
  assume "mset (map encode stored) \<subseteq># mset (map encode events)"
  then have "mset (map encode stored) = mset (map encode events)"
    using assms(3) by (metis length_map mset_subset_size not_le size_mset subset_mset.order_iff_strict)
  then show "mset stored = mset events" using same_encodings(2) [OF assms(1,2), of events] by (simp del: mset_eq_length)
next
  assume sub: "subseq (map encode stored) (map encode events)"
  then have "length stored = length events" using assms(3) list_emb_length [OF sub] by simp
  then have "map encode stored = map encode events" using sub by (simp add: subseq_same_length)
  then show "stored = events" using same_encodings(1) [OF assms(1,2), of events] by simp
qed

text \<open>
  C4: the replay over the log of a broker.  The producer is created for a fresh topic and publishes every event, with
  any retries, the flush reports success, and the consumer is created, seeks to the beginning and
  polls; the broker may have lost messages, stored some several times and in any order, since the producer is not
  idempotent.  The log then holds encodings of the session's events only.  A replay that finishes
  has read as many messages as there are events, the first ones of the log, and has the result of a consumer run
  directly over the events they encode.  If the log has no message more often than it was published, these
  are all the events of the session, in some order; if it also has them in the order of publication, they are the
  session itself.  A log that is too short never gives a result but an exception, or the end of the process
  when a call of \<open>consume\<close> fails.
\<close>

theorem replay_over_log:
  assumes "documented_log rk v" and "kv_log v w0 topic = []" and "kv_handed v w0 topic = {}"
    and "new_kafka_producer rk brokers topic w0 = (Inr p, w1)"
    and "publishes rk p events w1 produced w2" and "producer_flush rk p 20000 w2 = (True, w3)"
    and "new_kafka_consumer rk brokers topic 0 (destroy_producer rk p w3) = (Inr c, w4)"
    and "seek_to_beginning rk c w4 = (Inr (), w5)" and "consume_times rk c 2000 n w5 = (consumed, w6)"
    and "to_ingestion_events simulation = Inr events" and "list_all encodable events" and "length events \<le> 2 ^ 62"
    and "replay_through_kafka iter clock simulation produced True True consumed outcome"
  shows "set (kv_log v w6 topic) \<subseteq> encode ` set events \<and>
    (case outcome of
       Finished result \<Rightarrow>
         (\<exists>stored. map encode stored = take (length events) (kv_log v w6 topic) \<and> length stored = length events \<and>
            set stored \<subseteq> set events \<and> result = replay_answer iter clock simulation stored \<and>
            (mset (kv_log v w6 topic) \<subseteq># mset (map encode events) \<longrightarrow> mset stored = mset events) \<and>
            (subseq (kv_log v w6 topic) (map encode events) \<longrightarrow> stored = events))
     | Thrown (Replayed_Only n m) \<Rightarrow> n < m \<and> m = length events
     | Thrown _ \<Rightarrow> False
     | Terminated \<Rightarrow> list_ex consume_fails consumed)"
proof -
  note made = new_consumer_position [OF assms(1,7)]
  note sought = seek_position [OF assms(1,8), unfolded made(2,3)]
  have "log_grows v (map (\<lambda>e. (topic, encode e)) events) w0 w6"
    by (rule log_grows_more(2) [OF log_grows_more(2) [OF log_grows_more(2) [OF session_grows [OF assms(1,4-6)] made(1)]
            sought(2)] consume_times_grows [OF assms(1,9)]])
  from fresh_log [OF this assms(2,3)] have log: "set (kv_log v w6 topic) \<subseteq> encode ` set events" by auto
  then obtain stored where stored: "kv_log v w6 topic = map encode stored" "set stored \<subseteq> set events" by (rule set_map_obtain)
  then have encodable: "list_all encodable stored" using assms(11) by (auto simp: list_all_iff)
  have read: "broker_reads (map encode stored) consumed"
    using consume_times_reads [OF assms(1) sought(1) assms(9)] by (simp add: broker_reads_def stored(1))
  note result = replay_reads_log [OF assms(13,10,12) encodable read]
  have published: "replay_publish simulation produced True = Some (Inr (events, map encode events))"
    using publishes_answers [OF assms(5), of "[]"] by (simp add: replay_publish_def assms(10))
  show ?thesis
  proof (cases outcome)
    case (Finished r)
    let ?read = "take (length events) stored"
    have len: "length ?read = length events" and sub: "set ?read \<subseteq> set events"
      using result stored(2) set_take_subset [of "length events" stored] by (auto simp: Finished)
    have "mset ?read = mset events" if "mset (kv_log v w6 topic) \<subseteq># mset (map encode events)"
    proof (rule whole_session_read(1) [OF assms(11) sub])
      have "mset (map encode stored) = mset (map encode ?read) + mset (map encode (drop (length events) stored))"
        by (metis append_take_drop_id map_append mset_append)
      then have "mset (map encode ?read) \<subseteq># mset (map encode stored)" by simp
      then show "mset (map encode ?read) \<subseteq># mset (map encode events)" using that stored(1) by simp
    qed (simp only: len order_refl)
    moreover have "?read = events" if "subseq (kv_log v w6 topic) (map encode events)"
    proof (rule whole_session_read(2) [OF assms(11) sub])
      have "subseq (map encode ?read) (map encode stored)"
        using prefix_imp_subseq [OF take_is_prefix] by (simp add: take_map [symmetric])
      then show "subseq (map encode ?read) (map encode events)" using that unfolding stored(1) by (rule subseq_order.trans)
    qed (simp only: len order_refl)
    ultimately show ?thesis using log result len sub stored(1)
      by (simp add: Finished) (intro exI [of _ ?read], simp add: take_map)
  next
    case (Thrown e)
    have "e \<noteq> Produce_Failed msg" for msg
      using assms(13) unfolding Thrown by cases (auto simp: published replay_checks_def split: if_splits)
    then have "(\<forall>n. e \<noteq> Produce_Failed n)" by blast
    then show ?thesis using log result by (cases e) (simp_all add: Thrown)
  next
    case Terminated
    then show ?thesis using log result by simp
  qed
qed

text \<open>A broker that takes every message at once.\<close>

record simple_world =
  sw_log :: "string \<Rightarrow> string list"
  sw_position :: "(string \<times> int \<times> nat) option"

definition simple_broker :: "(unit, 'a simple_world_scheme) rdkafka" where
  "simple_broker =
     \<lparr>rk_set = \<lambda>name value. None,
      rk_create_producer = \<lambda>conf w. (Inr (), w), rk_create_consumer = \<lambda>conf w. (Inr (), w),
      rk_produce = \<lambda>h topic m w. (Produced, w\<lparr>sw_log := (sw_log w)(topic := sw_log w topic @ [m])\<rparr>),
      rk_poll = \<lambda>h timeout w. w, rk_flush = \<lambda>h timeout w. (True, w),
      rk_assign = \<lambda>h places w. (case places of
          [(topic, p, _)] \<Rightarrow> (None, w\<lparr>sw_position := Some (topic, p, 0)\<rparr>) | _ \<Rightarrow> (Some ''unsupported'', w)),
      rk_consume = \<lambda>h timeout w. (case sw_position w of
          None \<Rightarrow> (Timed_Out, w)
        | Some (topic, p, k) \<Rightarrow>
            if k < length (sw_log w topic) then (Message (sw_log w topic ! k), w\<lparr>sw_position := Some (topic, p, Suc k)\<rparr>)
            else (Partition_Eof, w)),
      rk_close = \<lambda>h w. w\<rparr>"

definition simple_view :: "(unit, simple_world) kafka_view" where
  "simple_view = \<lparr>kv_log = sw_log, kv_handed = \<lambda>w topic. set (sw_log w topic), kv_position = \<lambda>h. sw_position\<rparr>"

lemma simple_broker_documented: "documented_log simple_broker simple_view"
proof -
  have "log_grows simple_view [(topic, m)] w (w\<lparr>sw_log := (sw_log w)(topic := sw_log w topic @ [m])\<rparr>)" for topic m w
    by (auto simp: log_grows_def simple_view_def)
  moreover have "log_grows simple_view [] w (w\<lparr>sw_position := pos\<rparr>)" for pos w
    by (simp add: log_grows_def simple_view_def)
  moreover have "reads_on simple_view h topic k answer w'"
    if "kv_position simple_view h w = Some (topic, 0, k)" and "rk_consume simple_broker h timeout w = (answer, w')"
    for h timeout topic k w answer w'
    using that by (cases "k < length (sw_log w topic)") (auto simp: reads_on_def simple_view_def simple_broker_def)
  ultimately show ?thesis
    unfolding documented_log_def
    by (intro conjI allI impI) (auto simp: simple_broker_def simple_view_def split: if_splits option.splits list.splits prod.splits)
qed

theorem replay_over_log_witness:
  "\<exists>w1 p w2 w3 c w4 w5 consumed w6 result.
     new_kafka_producer simple_broker ''broker'' ''t'' \<lparr>sw_log = \<lambda>topic. [], sw_position = None\<rparr> = (Inr p, w1) \<and>
     publishes simple_broker p tied_events w1 [Produced, Produced, Produced] w2 \<and> producer_flush simple_broker p 20000 w2 = (True, w3) \<and>
     new_kafka_consumer simple_broker ''broker'' ''t'' 0 (destroy_producer simple_broker p w3) = (Inr c, w4) \<and>
     seek_to_beginning simple_broker c w4 = (Inr (), w5) \<and> consume_times simple_broker c 2000 3 w5 = (consumed, w6) \<and>
     replay_through_kafka (\<lambda>xs. xs) (\<lambda>n. int n) tied_simulation [Produced, Produced, Produced] True True consumed (Finished result) \<and>
     result = replay_answer (\<lambda>xs. xs) (\<lambda>n. int n) tied_simulation tied_events"
proof -
  let ?w0 = "\<lparr>sw_log = \<lambda>topic. [], sw_position = None\<rparr>"
  let ?sent = "\<lambda>es. \<lparr>sw_log = (\<lambda>topic. [])(''t'' := map encode es), sw_position = None\<rparr>"
  let ?p = "\<lparr>kp_conf = [(''bootstrap.servers'', ''broker'')], kp_producer = (), kp_topic = ''t''\<rparr>"
  have producer: "new_kafka_producer simple_broker ''broker'' ''t'' ?w0 = (Inr ?p, ?w0)"
    by (simp add: new_kafka_producer_def simple_broker_def)
  have send: "producer_publish simple_broker ?p e (?sent es) = (Inr True, ?sent (es @ [e]))" for e es
    by (simp add: producer_publish_def simple_broker_def)
  have polled: "producer_poll simple_broker ?p timeout w = w" for timeout w by (simp add: producer_poll_def simple_broker_def)
  have "publishes simple_broker ?p es (?sent done_so_far) (replicate (length es) Produced) (?sent (done_so_far @ es))" for es done_so_far
  proof (induction es arbitrary: done_so_far)
    case Nil
    show ?case by (simp add: publishes.nothing_left)
  next
    case (Cons e es)
    have "publishes simple_broker ?p es (producer_poll simple_broker ?p 0 (?sent (done_so_far @ [e]))) (replicate (length es) Produced)
        (?sent (done_so_far @ e # es))"
      using Cons.IH [of "done_so_far @ [e]"] by (simp only: polled append_assoc append_Cons append_Nil)
    from publishes.accepted_event [OF send this] show ?case by (simp only: list.size replicate_Suc add_0_right add_Suc_right One_nat_def)
  qed
  from this [of tied_events "[]"] have sent: "publishes simple_broker ?p tied_events ?w0 [Produced, Produced, Produced] (?sent tied_events)"
    by (simp add: tied_events_def numeral_eq_Suc fun_upd_idem)
  have flushed: "producer_flush simple_broker ?p 20000 (?sent tied_events) = (True, ?sent tied_events)"
    by (simp add: producer_flush_def simple_broker_def)
  obtain c w5 where consumer: "new_kafka_consumer simple_broker ''broker'' ''t'' 0 (destroy_producer simple_broker ?p (?sent tied_events)) = (Inr c, w5)"
    "seek_to_beginning simple_broker c w5 = (Inr (), w5)"
    "consume_times simple_broker c 2000 3 w5 = (map (\<lambda>e. Message (encode e)) tied_events, w5\<lparr>sw_position := Some (''t'', 0, 3)\<rparr>)"
    by (simp add: new_kafka_consumer_def destroy_producer_def producer_flush_def seek_to_beginning_def simple_broker_def
        numeral_eq_Suc tied_events_def Let_def)
  have "decode (encode e) = Inr e" if "e \<in> set tied_events" for e
    using event_codec.dec_log [OF tied_encodable] that by auto
  then have "poll_topic (length tied_events) 0 0 (map (\<lambda>e. Message (encode e)) tied_events) = Some (tied_events, None)"
    by (simp add: tied_events_def poll_def)
  moreover have short: "length tied_events \<le> 2 ^ 62" by (simp add: tied_events_def)
  ultimately have run: "replay_through_kafka (\<lambda>xs. xs) (\<lambda>n. int n) tied_simulation [Produced, Produced, Produced] True True
      (map (\<lambda>e. Message (encode e)) tied_events) (Finished (replay_answer (\<lambda>xs. xs) (\<lambda>n. int n) tied_simulation tied_events))"
    using replay_can_finish [OF tied_stream short publishes_answers [OF sent]] by simp
  have "kv_log simple_view ?w0 ''t'' = []" "kv_handed simple_view ?w0 ''t'' = {}" by (simp_all add: simple_view_def)
  from replay_over_log [OF simple_broker_documented this producer sent flushed consumer tied_stream tied_encodable short run]
  show ?thesis using producer sent flushed consumer run by simp blast
qed

text \<open>
  The count is not enough.  A broker that behaves as documented can lose the second and third
  message and store the first one again: the replay reads back as many messages as it published, and finishes with the
  counts of a complete replay over a stream that is not the session.
\<close>

record retry_world = simple_world +
  rw_handed :: "string \<Rightarrow> string set"

definition retrying_broker :: "(unit, retry_world) rdkafka" where
  "retrying_broker = simple_broker\<lparr>rk_produce := \<lambda>h topic m w. (Produced,
     w\<lparr>sw_log := (sw_log w)(topic := sw_log w topic @ [hd (sw_log w topic @ [m])]),
       rw_handed := (rw_handed w)(topic := insert m (rw_handed w topic))\<rparr>)\<rparr>"

definition retrying_view :: "(unit, retry_world) kafka_view" where
  "retrying_view = \<lparr>kv_log = sw_log, kv_handed = \<lambda>w topic. set (sw_log w topic) \<union> rw_handed w topic, kv_position = \<lambda>h. sw_position\<rparr>"

lemma retrying_broker_documented: "documented_log retrying_broker retrying_view"
proof -
  have "log_grows retrying_view [(topic, m)] w (w\<lparr>sw_log := (sw_log w)(topic := sw_log w topic @ [hd (sw_log w topic @ [m])]),
       rw_handed := (rw_handed w)(topic := insert m (rw_handed w topic))\<rparr>)" for topic m w
    by (cases "sw_log w topic") (auto simp: log_grows_def retrying_view_def)
  moreover have "log_grows retrying_view [] w (w\<lparr>sw_position := pos\<rparr>)" for pos w
    by (simp add: log_grows_def retrying_view_def)
  moreover have "reads_on retrying_view h topic k answer w'"
    if "kv_position retrying_view h w = Some (topic, 0, k)" and "rk_consume retrying_broker h timeout w = (answer, w')"
    for h timeout topic k w answer w'
    using that by (cases "k < length (sw_log w topic)")
      (auto simp: reads_on_def retrying_view_def retrying_broker_def simple_broker_def)
  ultimately show ?thesis
    unfolding documented_log_def
    by (intro conjI allI impI)
      (auto simp: retrying_broker_def simple_broker_def retrying_view_def split: if_splits option.splits list.splits prod.splits)
qed

theorem lost_and_repeated:
  "\<exists>w1 p w2 w3 c w4 w5 consumed w6 result.
     new_kafka_producer retrying_broker ''broker'' ''t''
       \<lparr>sw_log = \<lambda>topic. [], sw_position = None, rw_handed = \<lambda>topic. {}\<rparr> = (Inr p, w1) \<and>
     publishes retrying_broker p tied_events w1 [Produced, Produced, Produced] w2 \<and>
     producer_flush retrying_broker p 20000 w2 = (True, w3) \<and>
     new_kafka_consumer retrying_broker ''broker'' ''t'' 0 (destroy_producer retrying_broker p w3) = (Inr c, w4) \<and>
     seek_to_beginning retrying_broker c w4 = (Inr (), w5) \<and>
     consume_times retrying_broker c 2000 3 w5 = (consumed, w6) \<and>
     kv_log retrying_view w6 ''t'' = replicate 3 (encode (hd tied_events)) \<and>
     replay_through_kafka (\<lambda>xs. xs) (\<lambda>n. int n) tied_simulation [Produced, Produced, Produced] True True consumed (Finished result) \<and>
     result = replay_answer (\<lambda>xs. xs) (\<lambda>n. int n) tied_simulation (replicate 3 (hd tied_events)) \<and>
     rr_events_replayed_from_kafka result = rr_events_total result \<and> rr_events_processed result = rr_events_total result"
proof -
  obtain e1 e2 e3 where es: "tied_events = [e1, e2, e3]" by (simp add: tied_events_def)
  let ?first = "\<lambda>n. replicate n (encode e1)"
  let ?sent = "\<lambda>n handed. \<lparr>sw_log = (\<lambda>topic. [])(''t'' := ?first n), sw_position = None, rw_handed = (\<lambda>topic. {})(''t'' := handed)\<rparr>"
  let ?p = "\<lparr>kp_conf = [(''bootstrap.servers'', ''broker'')], kp_producer = (), kp_topic = ''t''\<rparr>"
  have producer: "new_kafka_producer retrying_broker ''broker'' ''t'' \<lparr>sw_log = \<lambda>topic. [], sw_position = None, rw_handed = \<lambda>topic. {}\<rparr> =
      (Inr ?p, ?sent 0 {})"
    by (simp add: new_kafka_producer_def retrying_broker_def simple_broker_def fun_upd_idem)
  have send: "producer_publish retrying_broker ?p e (?sent n handed) = (Inr True, ?sent (Suc n) (insert (encode e) handed))"
    if "n = 0 \<longrightarrow> e = e1" for e n handed
    using that by (cases n) (simp_all add: producer_publish_def retrying_broker_def simple_broker_def replicate_append_same)
  have polled: "producer_poll retrying_broker ?p timeout w = w" for timeout w
    by (simp add: producer_poll_def retrying_broker_def simple_broker_def)
  have "\<exists>handed. publishes retrying_broker ?p tied_events (?sent 0 {}) [Produced, Produced, Produced] (?sent 3 handed)"
    unfolding es numeral_3_eq_3
    by (rule exI, (rule publishes.accepted_event, rule send, simp, unfold polled)+, rule publishes.nothing_left)
  then obtain handed where sent: "publishes retrying_broker ?p tied_events (?sent 0 {}) [Produced, Produced, Produced] (?sent 3 handed)"
    by blast
  have flushed: "producer_flush retrying_broker ?p 20000 (?sent 3 handed) = (True, ?sent 3 handed)"
    by (simp add: producer_flush_def retrying_broker_def simple_broker_def)
  obtain c w5 where consumer: "new_kafka_consumer retrying_broker ''broker'' ''t'' 0 (destroy_producer retrying_broker ?p (?sent 3 handed)) = (Inr c, w5)"
    "seek_to_beginning retrying_broker c w5 = (Inr (), w5)"
    "consume_times retrying_broker c 2000 3 w5 = (map Message (?first 3), w5\<lparr>sw_position := Some (''t'', 0, 3)\<rparr>)"
    "sw_log w5 ''t'' = ?first 3"
    by (simp add: new_kafka_consumer_def destroy_producer_def producer_flush_def seek_to_beginning_def retrying_broker_def simple_broker_def
        numeral_eq_Suc Let_def)
  have "decode (encode e1) = Inr e1" using event_codec.dec_log [OF tied_encodable] by (simp add: es)
  then have "poll_topic (length tied_events) 0 0 (map Message (?first 3)) = Some (replicate 3 e1, None)"
    by (simp add: es poll_def numeral_eq_Suc)
  moreover have "length tied_events \<le> 2 ^ 62" by (simp add: es)
  ultimately have "replay_through_kafka (\<lambda>xs. xs) (\<lambda>n. int n) tied_simulation [Produced, Produced, Produced] True True
      (map Message (?first 3)) (Finished (replay_answer (\<lambda>xs. xs) (\<lambda>n. int n) tied_simulation (replicate 3 (hd tied_events))))"
    using replay_joined [OF tied_stream _ publishes_answers [OF sent]] by (simp add: es)
  moreover have "kv_log retrying_view (w5\<lparr>sw_position := Some (''t'', 0, 3)\<rparr>) ''t'' = replicate 3 (encode (hd tied_events))"
    by (simp add: retrying_view_def consumer(4) es)
  ultimately show ?thesis using producer sent flushed consumer(1-3) by (fastforce simp: replay_answer_def Let_def)
qed

end
