(* ===== verification/Ml_Replay.thy ===== *)
theory Ml_Replay
  imports Replay_Properties
begin

text \<open>
  \<open>replay_through_kafka\<close> with the ML service (\<open>ml_eval != nullptr\<close>): a sixth detector submits
  scoring requests to \<open>MlScoringWorker\<close>, whose thread has them scored over HTTP and writes its alerts into
  the same sink.  The consumer's and the worker's loop are those of \<open>Consumer_Loop\<close>; what
  couples them is that the consumer pushes the requests of an event into the worker's buffer while
  it processes the event, and its alerts into the sink afterwards.
\<close>

section \<open>The three threads\<close>

text \<open>The requests that the detectors of a consumer have handed over so far, and its alerts.\<close>

fun requests_of :: "any_detector \<Rightarrow> scoring_request list" where
  "requests_of (Ml_Anomaly_Detector config st) = ml_submitted st"
| "requests_of _ = []"

definition submitted :: "any_detector live_consumer \<Rightarrow> scoring_request list" where
  "submitted c = concat (map requests_of (lp_detectors (lc_pipeline c)))"

definition alerts_of :: "any_detector live_consumer \<Rightarrow> alert list" where
  "alerts_of c = (case lc_alert_sink c of None \<Rightarrow> [] | Some alerts \<Rightarrow> alerts)"

text \<open>The worker, with the number of requests it has put to the service.\<close>

type_synonym scorer = "nat \<times> ml_worker"

definition score_one :: "(nat \<Rightarrow> scoring_request \<Rightarrow> scoring_result option) \<Rightarrow> scoring_request \<Rightarrow> scorer \<Rightarrow> scorer" where
  "score_one score request = (\<lambda>(n, w). (Suc n, worker_process_one (score n request) request w))"

definition worker_alerts :: "scorer \<Rightarrow> alert list" where
  "worker_alerts c = (case mw_alert_sink (snd c) of None \<Rightarrow> [] | Some alerts \<Rightarrow> alerts)"

text \<open>
  \<open>mr_pending\<close> are alerts of the event just processed that are not yet in the sink; the
  requests of that event not yet pushed are the input of the worker's loop.
\<close>

record ml_replay =
  mr_main :: "(event, event system, any_detector live_consumer) loop_system"
  mr_worker :: "(scoring_request, scoring_request system, scorer) loop_system"
  mr_pending :: "alert list"
  mr_sink :: "alert list"

inductive ml_step ::
    "(nat \<Rightarrow> int) \<Rightarrow> (nat \<Rightarrow> scoring_request \<Rightarrow> scoring_result option) \<Rightarrow> ml_replay \<Rightarrow> ml_replay \<Rightarrow> bool"
  for clock score where
  replayed: "ls_todo (mr_main s) = x # xs \<Longrightarrow>
    ml_step clock score s (s\<lparr>mr_main := (mr_main s)\<lparr>ls_todo := xs, ls_queue := push_alone x (ls_queue (mr_main s))\<rparr>\<rparr>)"
| producer_done: "ls_todo (mr_main s) = [] \<Longrightarrow>
    ml_step clock score s (s\<lparr>mr_main := (mr_main s)\<lparr>ls_done := True\<rparr>\<rparr>)"
| consumed: "mr_pending s = [] \<Longrightarrow> ls_todo (mr_worker s) = [] \<Longrightarrow>
    m = loop_turn pop_alone (process_one evaluate_any clock) (mr_main s) \<Longrightarrow>
    ml_step clock score s
      (s\<lparr>mr_main := m,
         mr_worker := (mr_worker s)\<lparr>ls_todo := drop (length (submitted (ls_client (mr_main s)))) (submitted (ls_client m))\<rparr>,
         mr_pending := drop (length (alerts_of (ls_client (mr_main s)))) (alerts_of (ls_client m))\<rparr>)"
| submits: "ls_todo (mr_worker s) = r # rs \<Longrightarrow>
    ml_step clock score s (s\<lparr>mr_worker := (mr_worker s)\<lparr>ls_todo := rs, ls_queue := push_alone r (ls_queue (mr_worker s))\<rparr>\<rparr>)"
| delivers: "ls_todo (mr_worker s) = [] \<Longrightarrow> mr_pending s = a # rest \<Longrightarrow>
    ml_step clock score s (s\<lparr>mr_pending := rest, mr_sink := on_alert a (mr_sink s)\<rparr>)"
| scores: "w = loop_turn pop_alone (score_one score) (mr_worker s) \<Longrightarrow>
    ml_step clock score s
      (s\<lparr>mr_worker := w,
         mr_sink := fold on_alert (drop (length (worker_alerts (ls_client (mr_worker s)))) (worker_alerts (ls_client w))) (mr_sink s)\<rparr>)"
| stops: "ls_pc (mr_main s) = Stopped \<Longrightarrow> mr_pending s = [] \<Longrightarrow> ls_todo (mr_worker s) = [] \<Longrightarrow>
    ml_step clock score s (s\<lparr>mr_worker := (mr_worker s)\<lparr>ls_done := True\<rparr>\<rparr>)"

definition ml_start ::
    "event list \<Rightarrow> event system \<Rightarrow> any_detector live_consumer \<Rightarrow> scoring_request system \<Rightarrow> ml_replay" where
  "ml_start pushed events_ring c requests_ring =
     \<lparr>mr_main = loop_start pushed events_ring c,
      mr_worker = loop_start [] requests_ring (0, new_worker 0 (Some [])), mr_pending = [], mr_sink = []\<rparr>"

section \<open>The replay\<close>

definition default_request :: scoring_request where
  "default_request = \<lparr>sr_account_id = [], sr_instrument_id = [], sr_window_features = Map.empty, sr_timestamp_ns = 0,
     sr_book_snapshot_sequence = 0\<rparr>"

definition six_detectors :: "iteration \<Rightarrow> simulation_output \<Rightarrow> any_detector list" where
  "six_detectors iter simulation =
     make_five_detectors iter simulation @ [Ml_Anomaly_Detector default_ml_config empty_ml_state]"

definition ml_replay_consumer :: "iteration \<Rightarrow> simulation_output \<Rightarrow> any_detector live_consumer" where
  "ml_replay_consumer iter simulation =
     new_consumer (new_pipeline (six_detectors iter simulation) (registered_accounts simulation)) (Some [])"

text \<open>The checks of the buffer for the requests come first; the result's alerts are those of the shared sink.\<close>

definition ml_replay_checks :: "nat \<Rightarrow> nat \<Rightarrow> ml_replay \<Rightarrow> replay_outcome" where
  "ml_replay_checks expected replayed s =
     (let dropped = rb_dropped (sy_ring (ls_queue (mr_worker s)))
      in if dropped \<noteq> 0 then Thrown (Ml_Dropped dropped)
         else replay_checks expected replayed (rb_dropped (sy_ring (ls_queue (mr_main s))))
           ((ls_client (mr_main s))\<lparr>lc_alert_sink := Some (mr_sink s)\<rparr>))"

text \<open>
  \<open>post n\<close> is what the service answers to the \<open>n\<close>-th request, \<open>keys n\<close> the order in which the encoder
  meets its features, and \<open>healthy\<close> the answer to the health check.
\<close>

inductive ml_replay_through_kafka ::
    "iteration \<Rightarrow> (nat \<Rightarrow> int) \<Rightarrow> (string \<Rightarrow> http_answer) \<Rightarrow> (nat \<Rightarrow> string \<Rightarrow> string \<Rightarrow> http_answer) \<Rightarrow> (nat \<Rightarrow> string list)
     \<Rightarrow> simulation_output \<Rightarrow> produce_answer list \<Rightarrow> bool \<Rightarrow> bool \<Rightarrow> consume_answer list \<Rightarrow> replay_outcome \<Rightarrow> bool"
  for iter clock healthy post keys simulation produced flushed connected consumed where
  ml_publishing_fails: "replay_publish simulation produced flushed = Some (Inl e) \<Longrightarrow>
    ml_replay_through_kafka iter clock healthy post keys simulation produced flushed connected consumed (Thrown e)"
| ml_unhealthy: "replay_publish simulation produced flushed = Some (Inr (events, topic)) \<Longrightarrow> \<not> health_check healthy \<Longrightarrow>
    ml_replay_through_kafka iter clock healthy post keys simulation produced flushed connected consumed (Thrown Ml_Unreachable)"
| ml_no_consumer: "replay_publish simulation produced flushed = Some (Inr (events, topic)) \<Longrightarrow> health_check healthy \<Longrightarrow>
    ring_buffer_capacity_for (of_nat (length events)) = Some capacity \<Longrightarrow> \<not> connected \<Longrightarrow>
    ml_replay_through_kafka iter clock healthy post keys simulation produced flushed connected consumed Terminated"
| ml_polling_fails: "replay_publish simulation produced flushed = Some (Inr (events, topic)) \<Longrightarrow> health_check healthy \<Longrightarrow>
    ring_buffer_capacity_for (of_nat (length events)) = Some capacity \<Longrightarrow> connected \<Longrightarrow>
    poll_topic (length events) 0 0 consumed = Some (pushed, Some e) \<Longrightarrow>
    ml_replay_through_kafka iter clock healthy post keys simulation produced flushed connected consumed Terminated"
| ml_joined: "replay_publish simulation produced flushed = Some (Inr (events, topic)) \<Longrightarrow> health_check healthy \<Longrightarrow>
    ring_buffer_capacity_for (of_nat (length events)) = Some capacity \<Longrightarrow> connected \<Longrightarrow>
    poll_topic (length events) 0 0 consumed = Some (pushed, None) \<Longrightarrow>
    new_ring capacity (OrderEvent default_order) = Some r \<Longrightarrow> new_ring capacity default_request = Some q \<Longrightarrow>
    (ml_step clock (\<lambda>n. client_score (post n) (keys n)))\<^sup>*\<^sup>*
      (ml_start pushed (start r) (ml_replay_consumer iter simulation) (start q)) s \<Longrightarrow>
    ls_pc (mr_main s) = Stopped \<Longrightarrow> ls_pc (mr_worker s) = Stopped \<Longrightarrow>
    ml_replay_through_kafka iter clock healthy post keys simulation produced flushed connected consumed
      (ml_replay_checks (length events) (length pushed) s)"

section \<open>What the coupled loops keep\<close>

lemma loop_turn_cases:
  fixes s :: "('a, 'q, 'c) loop_system" and pop handle
  defines "s' \<equiv> loop_turn pop handle s"
  shows "ls_todo s' = ls_todo s" and "ls_done s' = ls_done s"
    and "ls_handled s' = ls_handled s \<and> ls_client s' = ls_client s \<or>
      (\<exists>x. ls_handled s' = ls_handled s @ [x] \<and> ls_client s' = handle x (ls_client s))"
    and "ls_pc s = Stopped \<Longrightarrow> s' = s"
  by (auto simp: s'_def loop_turn_def pop_and_handle_def split: loop_pc.splits prod.splits option.splits)

text \<open>The six detectors' consumer: its requests are those of the sixth, and it raises no alert of its own.\<close>

lemma run_ml: "run_detector (evaluate_any accounts) evs (Ml_Anomaly_Detector config st) =
    (Ml_Anomaly_Detector config (fst (run_detector (ml_evaluate config accounts) evs st)),
     snd (run_detector (ml_evaluate config accounts) evs st))"
  by (induction evs rule: rev_induct) (auto simp: run_detector_snoc run_detector_alerts_snoc prod_eq_iff)

lemma ml_silent: "snd (run_detector (ml_evaluate config accounts) evs st) = []"
proof (induction evs rule: rev_induct)
  case (snoc be evs)
  obtain book e where be: "be = (book, e)" by fastforce
  show ?case using snoc by (cases e) (simp_all add: be run_detector_alerts_snoc)
qed simp

lemma detector_kept: "requests_of (fst (evaluate_any accounts book e d)) = requests_of d \<or> (\<exists>config st. d = Ml_Anomaly_Detector config st)"
  by (cases d) (simp_all add: apfst_def map_prod_def split_beta)

lemma other_requests: "\<nexists>config st. d = Ml_Anomaly_Detector config st \<Longrightarrow>
    requests_of (fst (run_detector (evaluate_any accounts) evs d)) = [] \<and>
    (\<nexists>config st. fst (run_detector (evaluate_any accounts) evs d) = Ml_Anomaly_Detector config st)"
proof (induction evs rule: rev_induct)
  case Nil
  then show ?case by (cases d) simp_all
next
  case (snoc be evs)
  obtain book e where be: "be = (book, e)" by fastforce
  show ?case
    using snoc detector_kept [of accounts book e "fst (run_detector (evaluate_any accounts) evs d)"]
    by (cases "fst (run_detector (evaluate_any accounts) evs d)")
      (auto simp: be run_detector_snoc apfst_def map_prod_def split_beta)
qed

abbreviation six_run :: "iteration \<Rightarrow> simulation_output \<Rightarrow> (nat \<Rightarrow> int) \<Rightarrow> event list \<Rightarrow> any_detector live_consumer" where
  "six_run iter simulation clock es \<equiv>
     consumer_run (six_detectors iter simulation) (registered_accounts simulation) clock [] es"

definition scored_requests :: "simulation_output \<Rightarrow> event list \<Rightarrow> scoring_request list" where
  "scored_requests simulation es =
     ml_submitted (fst (ml_run default_ml_config (registered_accounts simulation) (accepted_from [] es)))"

lemma six_submitted: "submitted (six_run iter simulation clock es) = scored_requests simulation es"
proof -
  let ?run = "\<lambda>d. fst (run_detector (evaluate_any (registered_accounts simulation)) (accepted_from [] es) d)"
  have "requests_of (?run d) = []" if "d \<in> set (make_five_detectors iter simulation)" for d
    using that by (intro other_requests [THEN conjunct1]) (auto simp: make_five_detectors_def)
  then have "concat (map (requests_of \<circ> ?run) (make_five_detectors iter simulation)) = []" by simp
  then show ?thesis
    by (simp add: submitted_def consumer_run_pipeline pipeline_detector_states six_detectors_def run_ml
        scored_requests_def comp_def)
qed

lemma scored_snoc: "\<exists>more. scored_requests simulation (es @ [e]) = scored_requests simulation es @ more \<and> length more \<le> 1"
proof (cases e)
  case (OrderEvent order)
  then show ?thesis by (auto simp: scored_requests_def accepted_from_snoc ml_submitted_snoc Let_def)
next
  case (ExecutionEvent x)
  then show ?thesis by (simp add: scored_requests_def accepted_from_snoc run_detector_snoc)
qed

lemma scored_length: "length (scored_requests simulation es) \<le> length es"
proof (induction es rule: rev_induct)
  case Nil
  show ?case by (simp add: scored_requests_def empty_ml_state_def)
next
  case (snoc e es)
  then show ?case using scored_snoc [of simulation es e] by auto
qed

lemma process_one_alerts:
  "lc_alert_sink c \<noteq> None \<Longrightarrow> lc_alert_sink (process_one evaluate_any clock e c) \<noteq> None \<and>
     (\<exists>more. alerts_of (process_one evaluate_any clock e c) = alerts_of c @ more)"
  by (auto simp: process_one_def Let_def alerts_of_def split: prod.split option.split)

lemma score_one_alerts:
  "mw_alert_sink (snd c) \<noteq> None \<Longrightarrow> mw_alert_sink (snd (score_one score r c)) \<noteq> None \<and>
     (\<exists>more. worker_alerts (score_one score r c) = worker_alerts c @ more)"
  by (auto simp: score_one_def worker_process_one_def Let_def worker_alerts_def split: prod.split option.split)

text \<open>A loop whose input grows while nothing of it is left.\<close>

lemma loop_inv_more:
  assumes "ring_queue.loop_inv C input handle c s" and "ls_todo s = []" and "ls_done s \<Longrightarrow> extra = []"
  shows "ring_queue.loop_inv C (input @ extra) handle c (s\<lparr>ls_todo := extra\<rparr>)"
  using assms unfolding ring_queue.loop_inv_def by auto

definition coupled ::
    "nat \<Rightarrow> iteration \<Rightarrow> simulation_output \<Rightarrow> (nat \<Rightarrow> int) \<Rightarrow> (nat \<Rightarrow> scoring_request \<Rightarrow> scoring_result option) \<Rightarrow> event list
     \<Rightarrow> ml_replay \<Rightarrow> bool" where
  "coupled C iter simulation clock score pushed s \<longleftrightarrow>
     ring_queue.loop_inv C pushed (process_one evaluate_any clock) (ml_replay_consumer iter simulation) (mr_main s) \<and>
     ring_queue.loop_inv C (submitted (ls_client (mr_main s))) (score_one score) (0, new_worker 0 (Some [])) (mr_worker s) \<and>
     ring_drops (ls_queue (mr_main s)) = 0 \<and> ring_drops (ls_queue (mr_worker s)) = 0 \<and>
     (ls_done (mr_worker s) \<longrightarrow> ls_pc (mr_main s) = Stopped \<and> mr_pending s = []) \<and>
     lc_alert_sink (ls_client (mr_main s)) \<noteq> None \<and> mw_alert_sink (snd (ls_client (mr_worker s))) \<noteq> None \<and>
     mset (mr_sink s) + mset (mr_pending s) =
       mset (alerts_of (ls_client (mr_main s))) + mset (worker_alerts (ls_client (mr_worker s)))"

lemma coupled_client:
  assumes "coupled C iter simulation clock score pushed s"
  shows "ls_client (mr_main s) = six_run iter simulation clock (ls_handled (mr_main s))"
    and "length (ls_handled (mr_main s)) \<le> length pushed"
    and "length (submitted (ls_client (mr_main s))) \<le> length pushed"
proof -
  show client: "ls_client (mr_main s) = six_run iter simulation clock (ls_handled (mr_main s))"
    using assms by (simp add: coupled_def ring_queue.loop_inv_def ml_replay_consumer_def consumer_run_def)
  show len: "length (ls_handled (mr_main s)) \<le> length pushed"
    using assms by (auto simp: coupled_def ring_queue.loop_inv_def)
  show "length (submitted (ls_client (mr_main s))) \<le> length pushed"
    using scored_length [of simulation "ls_handled (mr_main s)"] len by (simp add: client six_submitted)
qed

lemma coupled_start:
  assumes "quiet C r" and "quiet C q"
    and "ring_contents r = []" "ring_drops r = 0" "ring_pushes r = 0" "ring_contents q = []" "ring_drops q = 0" "ring_pushes q = 0"
  shows "coupled C iter simulation clock score pushed (ml_start pushed r (ml_replay_consumer iter simulation) q)"
proof -
  have "submitted (ml_replay_consumer iter simulation) = []"
    using six_submitted [of iter simulation clock "[]"]
    by (simp add: consumer_run_def ml_replay_consumer_def scored_requests_def empty_ml_state_def)
  then show ?thesis
    using assms(4,7) unfolding coupled_def ml_start_def
    by (intro conjI; simp add: ring_queue.loop_start_inv [OF assms(1,3-5)] ring_queue.loop_start_inv [OF assms(2,6-8)])
      (simp_all add: loop_start_def ml_replay_consumer_def new_consumer_def alerts_of_def worker_alerts_def new_worker_def
        ring_queue.loop_start_inv [OF assms(1,3-5), unfolded loop_start_def]
        ring_queue.loop_start_inv [OF assms(2,6-8), unfolded loop_start_def])
qed

lemma coupled_step:
  assumes "ml_step clock score s s'" and inv: "coupled C iter simulation clock score pushed s"
    and limit: "length pushed \<le> 2 ^ 64 - 1 - C" and room: "length pushed \<le> C"
  shows "coupled C iter simulation clock score pushed s'"
proof -
  let ?m = "mr_main s" and ?w = "mr_worker s"
  let ?events = "process_one evaluate_any clock" and ?start = "ml_replay_consumer iter simulation"
  have M: "ring_queue.loop_inv C pushed ?events ?start ?m"
    and W: "ring_queue.loop_inv C (submitted (ls_client ?m)) (score_one score) (0, new_worker 0 (Some [])) ?w"
    and D: "ring_drops (ls_queue ?m) = 0" "ring_drops (ls_queue ?w) = 0"
    and halted: "ls_done ?w \<Longrightarrow> ls_pc ?m = Stopped \<and> mr_pending s = []"
    and sinks: "lc_alert_sink (ls_client ?m) \<noteq> None" "mw_alert_sink (snd (ls_client ?w)) \<noteq> None"
    and same: "mset (mr_sink s) + mset (mr_pending s) = mset (alerts_of (ls_client ?m)) + mset (worker_alerts (ls_client ?w))"
    using inv by (simp_all add: coupled_def)
  note few = coupled_client(3) [OF inv]
  have main: "ring_queue.loop_inv C pushed ?events ?start m \<and> ring_drops (ls_queue m) = 0"
    if "loop_step push_alone pop_alone ?events ?m m" for m
    using ring_queue.loop_step_inv [OF that M limit] ring_queue.loop_step_drops [OF that M limit room] D(1) by simp
  have worker: "ring_queue.loop_inv C (submitted (ls_client ?m)) (score_one score) (0, new_worker 0 (Some [])) w \<and>
      ring_drops (ls_queue w) = 0"
    if "loop_step push_alone pop_alone (score_one score) ?w w" for w
    using ring_queue.loop_step_inv [OF that W] ring_queue.loop_step_drops [OF that W] D(2) few limit room by simp
  show ?thesis
    using assms(1)
  proof cases
    case (replayed x xs)
    show ?thesis using main [OF loop_step.produce [OF replayed(2)]] W D halted sinks same by (simp add: coupled_def replayed)
  next
    case producer_done
    show ?thesis using main [OF loop_step.raise_done [OF producer_done(2)]] W D halted sinks same
      by (simp add: coupled_def producer_done)
  next
    case (consumed m)
    note kept = main [OF loop_step.consume, folded consumed(4)]
    note turn = loop_turn_cases [where pop = pop_alone and handle = ?events and s = ?m, folded consumed(4)]
    have more: "\<exists>reqs alerts. submitted (ls_client m) = submitted (ls_client ?m) @ reqs \<and>
        alerts_of (ls_client m) = alerts_of (ls_client ?m) @ alerts \<and> lc_alert_sink (ls_client m) \<noteq> None"
      using turn(3)
    proof
      assume "\<exists>x. ls_handled m = ls_handled ?m @ [x] \<and> ls_client m = ?events x (ls_client ?m)"
      then obtain x where x: "ls_client m = ?events x (ls_client ?m)" by blast
      have "ls_client m = six_run iter simulation clock (ls_handled ?m @ [x])"
        by (simp add: x coupled_client(1) [OF inv] consumer_run_snoc)
      then have "\<exists>reqs. submitted (ls_client m) = submitted (ls_client ?m) @ reqs"
        using scored_snoc [of simulation "ls_handled ?m" x] by (auto simp: six_submitted coupled_client(1) [OF inv])
      moreover have "(\<exists>alerts. alerts_of (ls_client m) = alerts_of (ls_client ?m) @ alerts) \<and> lc_alert_sink (ls_client m) \<noteq> None"
        using process_one_alerts [OF sinks(1), of clock x] unfolding x by blast
      ultimately show ?thesis by blast
    qed (use sinks in simp)
    then obtain reqs alerts where A: "submitted (ls_client m) = submitted (ls_client ?m) @ reqs"
      "alerts_of (ls_client m) = alerts_of (ls_client ?m) @ alerts" "lc_alert_sink (ls_client m) \<noteq> None" by blast
    have ended: "reqs = [] \<and> alerts = [] \<and> ls_pc m = Stopped" if "ls_done ?w"
      using turn(4) halted [OF that] A(1,2) by simp
    then have "ring_queue.loop_inv C (submitted (ls_client m)) (score_one score) (0, new_worker 0 (Some [])) (?w\<lparr>ls_todo := reqs\<rparr>)"
      "ls_done ?w \<Longrightarrow> ls_pc m = Stopped \<and> alerts = []"
      unfolding A(1) by (intro loop_inv_more [OF W consumed(3)]) (use ended in auto)
    then show ?thesis
      using kept D A same consumed(2) sinks by (simp add: coupled_def consumed(1) add_ac)
  next
    case (submits r rs)
    show ?thesis using worker [OF loop_step.produce [OF submits(2)]] M D halted sinks same by (simp add: coupled_def submits)
  next
    case (delivers a rest)
    show ?thesis using M W D halted sinks same by (auto simp: coupled_def delivers on_alert_def)
  next
    case (scores w)
    note kept = worker [OF loop_step.consume, folded scores(2)]
    note turn = loop_turn_cases [where pop = pop_alone and handle = "score_one score" and s = ?w, folded scores(2)]
    obtain alerts where "worker_alerts (ls_client w) = worker_alerts (ls_client ?w) @ alerts" "mw_alert_sink (snd (ls_client w)) \<noteq> None"
      using turn(3) sinks(2) by (metis append_Nil2 score_one_alerts)
    then show ?thesis using kept M D halted sinks same turn(2) by (simp add: coupled_def scores add_ac)
  next
    case stops
    show ?thesis using worker [OF loop_step.raise_done [OF stops(4)]] M D sinks same stops by (simp add: coupled_def)
  qed
qed

section \<open>The result\<close>

text \<open>The alerts for a list of requests, with the service's answer to each.\<close>

definition scored_alerts :: "(nat \<Rightarrow> scoring_request \<Rightarrow> scoring_result option) \<Rightarrow> scoring_request list \<Rightarrow> alert list" where
  "scored_alerts score requests =
     List.map_filter (\<lambda>(n, request). case score n request of
         None \<Rightarrow> None
       | Some result \<Rightarrow> if so_anomaly_score result < 0 then None else Some (ml_alert request result))
       (enumerate 0 requests)"

lemma enumerate_snoc: "enumerate n (xs @ [x]) = enumerate n xs @ [(n + length xs, x)]"
  by (simp add: enumerate_append_eq)

lemma score_all:
  "\<exists>w. fold (score_one score) requests (0, new_worker 0 (Some [])) = (length requests, w) \<and>
     mw_alert_threshold w = 0 \<and> mw_alert_sink w = Some (scored_alerts score requests)"
proof (induction requests rule: rev_induct)
  case Nil
  show ?case by (simp add: new_worker_def scored_alerts_def map_filter_simps)
next
  case (snoc r requests)
  then show ?case
    by (auto simp: score_one_def worker_process_one_def scored_alerts_def enumerate_snoc map_filter_def Let_def split: option.split)
qed

lemma six_run_result:
  "lc_events_processed (six_run iter simulation clock es) = of_nat (length es) \<and>
   lc_events_skipped_inconsistent (six_run iter simulation clock es) = of_nat (length es - length (accepted_from [] es)) \<and>
   mset (alerts_of (six_run iter simulation clock es)) = mset (rr_alerts (replay_answer iter clock simulation es))"
proof -
  let ?accounts = "registered_accounts simulation"
  have "delivered [] (six_detectors iter simulation) ?accounts es = delivered [] (make_five_detectors iter simulation) ?accounts es"
    by (simp add: delivered_def six_detectors_def run_ml ml_silent)
  then show ?thesis
    using consumer_run_result [of "six_detectors iter simulation" ?accounts clock "[]" es]
      consumer_run_result [of "make_five_detectors iter simulation" ?accounts clock "[]" es]
    by (auto simp: alerts_of_def replay_answer_def Let_def)
qed

lemma coupled_reachable:
  assumes "(ml_step clock score)\<^sup>*\<^sup>* (ml_start pushed r (ml_replay_consumer iter simulation) q) s"
    and "quiet C r" and "quiet C q"
    and "ring_contents r = []" "ring_drops r = 0" "ring_pushes r = 0" "ring_contents q = []" "ring_drops q = 0" "ring_pushes q = 0"
    and "length pushed \<le> 2 ^ 64 - 1 - C" and "length pushed \<le> C"
  shows "coupled C iter simulation clock score pushed s"
  using assms(1)
proof (induction rule: rtranclp_induct)
  case base
  show ?case by (rule coupled_start [OF assms(2-9)])
next
  case (step s s')
  show ?case by (rule coupled_step [OF step.hyps(2) step.IH assms(10,11)])
qed

lemma coupled_stopped:
  assumes inv: "coupled C iter simulation clock score pushed s"
    and stopped: "ls_pc (mr_main s) = Stopped" "ls_pc (mr_worker s) = Stopped"
  shows "ls_client (mr_main s) = six_run iter simulation clock pushed"
    and "mset (mr_sink s) = mset (rr_alerts (replay_answer iter clock simulation pushed)) +
      mset (scored_alerts score (scored_requests simulation pushed))"
    and "rb_dropped (sy_ring (ls_queue (mr_main s))) = 0" and "rb_dropped (sy_ring (ls_queue (mr_worker s))) = 0"
proof -
  let ?m = "mr_main s" and ?w = "mr_worker s"
  have M: "ring_queue.loop_inv C pushed (process_one evaluate_any clock) (ml_replay_consumer iter simulation) ?m"
    and W: "ring_queue.loop_inv C (submitted (ls_client ?m)) (score_one score) (0, new_worker 0 (Some [])) ?w"
    and D: "ring_drops (ls_queue ?m) = 0" "ring_drops (ls_queue ?w) = 0"
    using inv by (simp_all add: coupled_def)
  have "ls_handled ?m = pushed"
    using ring_queue.loop_stopped [OF M stopped(1)] D(1) by (intro subseq_same_length) simp_all
  then show client: "ls_client ?m = six_run iter simulation clock pushed" using coupled_client(1) [OF inv] by simp
  have "ls_handled ?w = scored_requests simulation pushed"
    using ring_queue.loop_stopped [OF W stopped(2)] D(2) by (intro subseq_same_length) (simp_all add: client six_submitted)
  then have "ls_client ?w = fold (score_one score) (scored_requests simulation pushed) (0, new_worker 0 (Some []))"
    using ring_queue.loop_stopped [OF W stopped(2)] by simp
  then have "worker_alerts (ls_client ?w) = scored_alerts score (scored_requests simulation pushed)"
    using score_all [of score "scored_requests simulation pushed"] by (auto simp: worker_alerts_def)
  moreover have "mr_pending s = []" using inv W stopped(2) by (simp add: coupled_def ring_queue.loop_inv_def)
  ultimately show "mset (mr_sink s) = mset (rr_alerts (replay_answer iter clock simulation pushed)) +
      mset (scored_alerts score (scored_requests simulation pushed))"
    using inv six_run_result [of iter simulation clock pushed] by (simp add: coupled_def client)
  have "unat (rb_dropped (sy_ring (ls_queue ?m))) = 0" "unat (rb_dropped (sy_ring (ls_queue ?w))) = 0"
    using M W D ring_drops_counted by (metis ring_queue.loop_inv_def)+
  then show "rb_dropped (sy_ring (ls_queue ?m)) = 0" "rb_dropped (sy_ring (ls_queue ?w)) = 0"
    by (simp_all add: unat_eq_zero)
qed

section \<open>The threads can all stop\<close>

text \<open>The consumer finishes with an event: it submits the requests, and then delivers the alerts.\<close>

lemma flush_requests:
  "\<exists>w. (ml_step clock score)\<^sup>*\<^sup>* s (s\<lparr>mr_worker := w\<rparr>) \<and> ls_todo w = []"
proof (induction "ls_todo (mr_worker s)" arbitrary: s)
  case Nil
  then show ?case by (intro exI [of _ "mr_worker s"]) simp
next
  case (Cons r rs)
  define s1 where "s1 = s\<lparr>mr_worker := (mr_worker s)\<lparr>ls_todo := rs, ls_queue := push_alone r (ls_queue (mr_worker s))\<rparr>\<rparr>"
  have "ml_step clock score s s1" unfolding s1_def by (rule ml_step.submits) (use Cons.hyps(2) in simp)
  moreover obtain w where "(ml_step clock score)\<^sup>*\<^sup>* s1 (s1\<lparr>mr_worker := w\<rparr>)" "ls_todo w = []"
    using Cons.hyps(1) [of s1] by (auto simp: s1_def)
  ultimately show ?case by (intro exI [of _ w]) (auto simp: s1_def intro: converse_rtranclp_into_rtranclp)
qed

lemma flush_alerts:
  "ls_todo (mr_worker s) = [] \<Longrightarrow>
     \<exists>alerts. (ml_step clock score)\<^sup>*\<^sup>* s (s\<lparr>mr_pending := [], mr_sink := alerts\<rparr>)"
proof (induction "mr_pending s" arbitrary: s)
  case Nil
  then have "s\<lparr>mr_pending := [], mr_sink := mr_sink s\<rparr> = s" by (cases s) simp
  then show ?case by (metis rtranclp.rtrancl_refl)
next
  case (Cons a rest)
  define s1 where "s1 = s\<lparr>mr_pending := rest, mr_sink := on_alert a (mr_sink s)\<rparr>"
  have "ml_step clock score s s1" unfolding s1_def by (rule ml_step.delivers) (use Cons in simp_all)
  moreover obtain alerts where "(ml_step clock score)\<^sup>*\<^sup>* s1 (s1\<lparr>mr_pending := [], mr_sink := alerts\<rparr>)"
    using Cons.hyps(1) [of s1] Cons.prems by (auto simp: s1_def)
  ultimately show ?case by (intro exI [of _ alerts]) (auto simp: s1_def intro: converse_rtranclp_into_rtranclp)
qed

lemma flush_event:
  "\<exists>s'. (ml_step clock score)\<^sup>*\<^sup>* s s' \<and> mr_main s' = mr_main s \<and> mr_pending s' = [] \<and> ls_todo (mr_worker s') = []"
proof -
  obtain w where w: "(ml_step clock score)\<^sup>*\<^sup>* s (s\<lparr>mr_worker := w\<rparr>)" "ls_todo w = []" using flush_requests by blast
  moreover obtain alerts where "(ml_step clock score)\<^sup>*\<^sup>* (s\<lparr>mr_worker := w\<rparr>) (s\<lparr>mr_worker := w, mr_pending := [], mr_sink := alerts\<rparr>)"
    using flush_alerts [of "s\<lparr>mr_worker := w\<rparr>"] w(2) by auto
  ultimately show ?thesis
    by (intro exI [of _ "s\<lparr>mr_worker := w, mr_pending := [], mr_sink := alerts\<rparr>"]) (auto intro: rtranclp_trans)
qed

lemma main_can_stop:
  assumes "quiet C (ls_queue (mr_main s))" and "ls_done (mr_main s)"
    and "mr_pending s = []" and "ls_todo (mr_worker s) = []"
  shows "\<exists>s'. (ml_step clock score)\<^sup>*\<^sup>* s s' \<and> ls_pc (mr_main s') = Stopped \<and> mr_pending s' = [] \<and> ls_todo (mr_worker s') = []"
  using assms
proof (induction "ring_queue.turns_left (mr_main s)" arbitrary: s)
  case 0
  then have "ls_pc (mr_main s) = Stopped"
    by (auto simp: ring_queue.turns_left_def Let_def split: loop_pc.splits if_splits)
  then show ?case using 0 by blast
next
  case (Suc n)
  define m where "m = loop_turn pop_alone (process_one evaluate_any clock) (mr_main s)"
  obtain s1 where s1: "ml_step clock score s s1" "mr_main s1 = m" using ml_step.consumed [OF Suc.prems(3,4) m_def] by fastforce
  obtain s2 where s2: "(ml_step clock score)\<^sup>*\<^sup>* s1 s2" "mr_main s2 = m" "mr_pending s2 = []" "ls_todo (mr_worker s2) = []"
    using flush_event [of clock score s1] s1(2) by auto
  have "quiet C (ls_queue m) \<and> ls_done m \<and> ring_queue.turns_left m = n"
    using ring_queue.loop_turn_progress [OF Suc.prems(1,2)] Suc.hyps(2) by (simp add: m_def)
  then obtain s3 where "(ml_step clock score)\<^sup>*\<^sup>* s2 s3" "ls_pc (mr_main s3) = Stopped" "mr_pending s3 = []" "ls_todo (mr_worker s3) = []"
    using Suc.hyps(1) [of s2] s2 by auto
  then show ?case using s1(1) s2(1) by (meson converse_rtranclp_into_rtranclp rtranclp_trans)
qed

lemma worker_can_stop:
  assumes "quiet C (ls_queue (mr_worker s))" and "ls_done (mr_worker s)"
  shows "\<exists>s'. (ml_step clock score)\<^sup>*\<^sup>* s s' \<and> mr_main s' = mr_main s \<and> ls_pc (mr_worker s') = Stopped"
  using assms
proof (induction "ring_queue.turns_left (mr_worker s)" arbitrary: s)
  case 0
  then have "ls_pc (mr_worker s) = Stopped"
    by (auto simp: ring_queue.turns_left_def Let_def split: loop_pc.splits if_splits)
  then show ?case by blast
next
  case (Suc n)
  define w where "w = loop_turn pop_alone (score_one score) (mr_worker s)"
  obtain s1 where s1: "ml_step clock score s s1" "mr_worker s1 = w" "mr_main s1 = mr_main s"
    using ml_step.scores [OF w_def, of clock] by fastforce
  have "quiet C (ls_queue w) \<and> ls_done w \<and> ring_queue.turns_left w = n"
    using ring_queue.loop_turn_progress [OF Suc.prems] Suc.hyps(2) by (simp add: w_def)
  then obtain s2 where "(ml_step clock score)\<^sup>*\<^sup>* s1 s2" "mr_main s2 = mr_main s1" "ls_pc (mr_worker s2) = Stopped"
    using Suc.hyps(1) [of s1] s1 by auto
  then show ?case using s1 by (metis converse_rtranclp_into_rtranclp)
qed

lemma replay_all:
  assumes "quiet C (ls_queue (mr_main s))" and "ring_pushes (ls_queue (mr_main s)) + length (ls_todo (mr_main s)) \<le> 2 ^ 64 - 1 - C"
  shows "\<exists>m. (ml_step clock score)\<^sup>*\<^sup>* s (s\<lparr>mr_main := m\<rparr>) \<and> ls_done m \<and> quiet C (ls_queue m)"
  using assms
proof (induction "ls_todo (mr_main s)" arbitrary: s)
  case Nil
  then have "ml_step clock score s (s\<lparr>mr_main := (mr_main s)\<lparr>ls_done := True\<rparr>\<rparr>)" by (intro ml_step.producer_done) simp
  then show ?case using Nil.prems by (intro exI [of _ "(mr_main s)\<lparr>ls_done := True\<rparr>"]) auto
next
  case (Cons x xs)
  have todo: "ls_todo (mr_main s) = x # xs" using Cons.hyps(2) by simp
  define s1 where "s1 = s\<lparr>mr_main := (mr_main s)\<lparr>ls_todo := xs, ls_queue := push_alone x (ls_queue (mr_main s))\<rparr>\<rparr>"
  have step: "ml_step clock score s s1" unfolding s1_def by (rule ml_step.replayed [OF todo])
  have "ring_pushes (ls_queue (mr_main s)) < 2 ^ 64 - 1 - C" using Cons.prems(2) by (simp add: todo)
  note pushed = ring_queue.push_invar [OF Cons.prems(1) this, of x] ring_queue.push_pushes [OF Cons.prems(1) this, of x]
  obtain m where "(ml_step clock score)\<^sup>*\<^sup>* s1 (s1\<lparr>mr_main := m\<rparr>)" "ls_done m" "quiet C (ls_queue m)"
    using Cons.hyps(1) [of s1] pushed Cons.prems(2) todo by (auto simp: s1_def)
  then show ?case using step by (intro exI [of _ m]) (auto simp: s1_def intro: converse_rtranclp_into_rtranclp)
qed

lemma all_can_stop:
  assumes "quiet C r" and "quiet C q"
    and "ring_contents r = []" "ring_drops r = 0" "ring_pushes r = 0" "ring_contents q = []" "ring_drops q = 0" "ring_pushes q = 0"
    and len: "length pushed \<le> 2 ^ 64 - 1 - C" "length pushed \<le> C"
  shows "\<exists>s. (ml_step clock score)\<^sup>*\<^sup>* (ml_start pushed r (ml_replay_consumer iter simulation) q) s \<and>
    ls_pc (mr_main s) = Stopped \<and> ls_pc (mr_worker s) = Stopped"
proof -
  let ?step = "ml_step clock score" and ?s = "ml_start pushed r (ml_replay_consumer iter simulation) q"
  have start: "quiet C (ls_queue (mr_main ?s))" "ring_pushes (ls_queue (mr_main ?s)) + length (ls_todo (mr_main ?s)) \<le> 2 ^ 64 - 1 - C"
    "mr_pending ?s = []" "ls_todo (mr_worker ?s) = []"
    using assms by (simp_all add: ml_start_def loop_start_def)
  obtain m where m: "?step\<^sup>*\<^sup>* ?s (?s\<lparr>mr_main := m\<rparr>)" "ls_done m" "quiet C (ls_queue m)" using replay_all [OF start(1,2)] by blast
  obtain s1 where s1: "?step\<^sup>*\<^sup>* (?s\<lparr>mr_main := m\<rparr>) s1" "ls_pc (mr_main s1) = Stopped" "mr_pending s1 = []" "ls_todo (mr_worker s1) = []"
    using main_can_stop [of C "?s\<lparr>mr_main := m\<rparr>" clock score] m(2,3) start(3,4) by auto
  have run: "?step\<^sup>*\<^sup>* ?s s1" using m(1) s1(1) by simp
  have "coupled C iter simulation clock score pushed s1" by (rule coupled_reachable [OF run assms(1-8) len])
  then have "quiet C (ls_queue (mr_worker s1))" by (simp add: coupled_def ring_queue.loop_inv_def)
  then obtain s2 where "?step\<^sup>*\<^sup>* (s1\<lparr>mr_worker := (mr_worker s1)\<lparr>ls_done := True\<rparr>\<rparr>) s2" "mr_main s2 = mr_main s1" "ls_pc (mr_worker s2) = Stopped"
    using worker_can_stop [of C "s1\<lparr>mr_worker := (mr_worker s1)\<lparr>ls_done := True\<rparr>\<rparr>" clock score] by auto
  then show ?thesis using run ml_step.stops [OF s1(2,3,4), of clock score] s1(2) by (metis converse_rtranclp_into_rtranclp rtranclp_trans)
qed

text \<open>With a broker that answers and a service that is healthy, the replay with the service finishes.\<close>

lemma ml_replay_can_finish:
  assumes "to_ingestion_events simulation = Inr events" and "length events \<le> 2 ^ 62"
    and "publish_events produced events [] = Some (Inr topic)" and "health_check healthy"
    and "poll_topic (length events) 0 0 consumed = Some (events, None)"
  shows "\<exists>result. ml_replay_through_kafka iter clock healthy post keys simulation produced True True consumed (Finished result)"
proof -
  have pub: "replay_publish simulation produced True = Some (Inr (events, topic))"
    using assms(1,3) by (simp add: replay_publish_def)
  have "unat (of_nat (length events) :: u64) = length events" using assms(2) by (intro unat_of_nat_u64) simp
  then obtain capacity where cap: "ring_buffer_capacity_for (of_nat (length events)) = Some capacity"
    using assms(2) by (simp add: ring_capacity_value)
  note room = ring_capacity_room [OF cap assms(2)]
  obtain r where r: "new_ring capacity (OrderEvent default_order) = Some r" using room(3) [of "OrderEvent default_order"] by blast
  obtain q where q: "new_ring capacity default_request = Some q" using room(3) [of default_request] by blast
  have len: "length events \<le> 2 ^ 64 - 1 - unat capacity" using room(1,2) by simp
  note start = start_quiet [OF r room(2)] start_quiet [OF q room(2)] start_empty start_empty len room(1)
  obtain s where s: "(ml_step clock (\<lambda>n. client_score (post n) (keys n)))\<^sup>*\<^sup>*
      (ml_start events (start r) (ml_replay_consumer iter simulation) (start q)) s"
    "ls_pc (mr_main s) = Stopped" "ls_pc (mr_worker s) = Stopped"
    using all_can_stop [OF start] by blast
  note run = ml_replay_through_kafka.ml_joined [OF pub assms(4) cap TrueI assms(5) r q s]
  note stop = coupled_stopped [OF coupled_reachable [OF s(1) start] s(2,3)]
  have "\<exists>result. ml_replay_checks (length events) (length events) s = Finished result"
    by (simp add: ml_replay_checks_def replay_checks_def stop(3,4))
  then show ?thesis using run by auto
qed

lemma replay_answer_alerts:
  "mset (rr_alerts (replay_answer iter clock simulation es)) =
     delivered [] (make_five_detectors iter simulation) (registered_accounts simulation) es"
  using consumer_run_result [of "make_five_detectors iter simulation" "registered_accounts simulation" clock "[]" es]
  by (auto simp: replay_answer_def Let_def)

lemma ml_joined_result:
  assumes "replay_publish simulation produced flushed = Some (Inr (events', topic))"
    and "ring_buffer_capacity_for (of_nat (length events')) = Some capacity"
    and "poll_topic (length events') 0 0 consumed = Some (pushed, None)"
    and "new_ring capacity (OrderEvent default_order) = Some r" and "new_ring capacity default_request = Some q"
    and "(ml_step clock score)\<^sup>*\<^sup>* (ml_start pushed (start r) (ml_replay_consumer iter simulation) (start q)) s"
    and "ls_pc (mr_main s) = Stopped" and "ls_pc (mr_worker s) = Stopped"
    and "to_ingestion_events simulation = Inr events" and "list_all encodable events" and "length events \<le> 2 ^ 62"
    and "broker_reads (map encode events) consumed"
  shows "if length pushed = length events
    then \<exists>alerts. ml_replay_checks (length events') (length pushed) s =
        Finished ((replay_answer iter clock simulation events)\<lparr>rr_alerts := alerts\<rparr>) \<and>
      mset alerts = mset (rr_alerts (replay_answer iter clock simulation events)) +
        mset (scored_alerts score (scored_requests simulation events))
    else length pushed < length events \<and>
      ml_replay_checks (length events') (length pushed) s = Thrown (Replayed_Only (length pushed) (length events))"
proof -
  have same: "events' = events" using replay_published(1) [OF assms(1)] assms(9) by simp
  have pre: "prefix pushed events"
    using assms(3,10,12) poll_topic_prefix [of _ 0 0 consumed pushed None events] by (simp add: broker_reads_def same)
  note room = ring_capacity_room [OF assms(2) [unfolded same] assms(11)]
  have len: "length pushed \<le> unat capacity" using prefix_length_le [OF pre] room(1) by simp
  have "length pushed \<le> 2 ^ 64 - 1 - unat capacity" using len room(2) by simp
  note s = coupled_stopped [OF coupled_reachable [OF assms(6) start_quiet [OF assms(4) room(2)]
      start_quiet [OF assms(5) room(2)] start_empty start_empty this len] assms(7,8)]
  show ?thesis
  proof (cases "length pushed = length events")
    case False
    then show ?thesis using prefix_length_le [OF pre] by (simp add: ml_replay_checks_def replay_checks_def same s(4))
  next
    case True
    then have "pushed = events" using pre by (auto simp: prefix_def)
    then show ?thesis
      using s six_run_result [of iter simulation clock events]
      by (auto simp: ml_replay_checks_def replay_checks_def same replay_answer_def Let_def)
  qed
qed

lemma ml_replay_finished:
  assumes "ml_replay_through_kafka iter clock healthy post keys simulation produced flushed subscribed consumed (Finished result)"
    and "to_ingestion_events simulation = Inr events" and "list_all encodable events" and "length events \<le> 2 ^ 62"
    and "broker_reads (map encode events) consumed"
  shows "mset (rr_alerts result) = mset (rr_alerts (replay_answer iter clock simulation events)) +
      mset (scored_alerts (\<lambda>n. client_score (post n) (keys n)) (scored_requests simulation events))"
    and "result = (replay_answer iter clock simulation events)\<lparr>rr_alerts := rr_alerts result\<rparr>"
proof -
  have "\<exists>alerts. result = (replay_answer iter clock simulation events)\<lparr>rr_alerts := alerts\<rparr> \<and>
      mset alerts = mset (rr_alerts (replay_answer iter clock simulation events)) +
        mset (scored_alerts (\<lambda>n. client_score (post n) (keys n)) (scored_requests simulation events))"
    using assms(1)
  proof cases
    case (ml_joined events' topic capacity pushed r q s)
    from ml_joined_result [OF ml_joined(2,4,6-11) assms(2-5)] ml_joined(1) show ?thesis by (auto split: if_splits)
  qed
  then show "mset (rr_alerts result) = mset (rr_alerts (replay_answer iter clock simulation events)) +
      mset (scored_alerts (\<lambda>n. client_score (post n) (keys n)) (scored_requests simulation events))"
    and "result = (replay_answer iter clock simulation events)\<lparr>rr_alerts := rr_alerts result\<rparr>" by auto
qed

section \<open>Properties\<close>

text \<open>
  C3: the replay with the ML service.  For at most \<open>2^62\<close> encodable events and a broker that
  returns the topic's messages in order, however the three threads interleave and however long the service takes: a
  replay that finishes has the alerts of the replay without the service and one more for each request
  that was scored, the requests being those that the ML detector alone submits over the accepted
  events; every count is that of the replay without it.  Neither buffer drops anything.  When the
  service does not answer the health check, no run gets as far as reading an event back: once the
  publishing has succeeded the outcome is the exception for the unreachable service, and when the publishing has
  failed it is that failure; with a healthy service that exception never comes.
\<close>

theorem ml_replay_exact:
  assumes "ml_replay_through_kafka iter clock healthy post keys simulation produced flushed subscribed consumed outcome"
    and "to_ingestion_events simulation = Inr events"
    and "list_all encodable events" and "length events \<le> 2 ^ 62"
    and "broker_reads (map encode events) consumed"
  shows "(health_check healthy \<or>
      outcome = (case replay_publish simulation produced flushed of
          Some (Inl e) \<Rightarrow> Thrown e | _ \<Rightarrow> Thrown Ml_Unreachable)) \<and>
    (case outcome of
      Finished result \<Rightarrow>
        (let plain = replay_answer iter clock simulation events
         in mset (rr_alerts result) = mset (rr_alerts plain) +
              mset (scored_alerts (\<lambda>n. client_score (post n) (keys n)) (scored_requests simulation events)) \<and>
            result\<lparr>rr_alerts := rr_alerts plain\<rparr> = plain)
    | Thrown (Ml_Dropped n) \<Rightarrow> False
    | Thrown (Ring_Dropped n) \<Rightarrow> False
    | Thrown (Unknown_Order oid) \<Rightarrow> False
    | Thrown Ml_Unreachable \<Rightarrow> \<not> health_check healthy
    | Thrown (Replayed_Only n m) \<Rightarrow> n < m \<and> m = length events
    | Thrown (Produce_Failed msg) \<Rightarrow> True
    | Thrown Flush_Timed_Out \<Rightarrow> \<not> flushed
    | Terminated \<Rightarrow> \<not> subscribed \<or> list_ex consume_fails consumed)"
  using assms(1)
proof cases
  case (ml_publishing_fails e)
  then show ?thesis using assms(2) by (auto simp: replay_publish_def split: option.splits sum.splits if_splits)
next
  case (ml_polling_fails events' topic capacity pushed e)
  then have "events' = events" using replay_published(1) assms(2) by fastforce
  with ml_polling_fails poll_topic_prefix [of _ 0 0 consumed pushed "Some e" events] assms(3,5)
  show ?thesis by (simp add: broker_reads_def)
next
  case (ml_joined events' topic capacity pushed r q s)
  from ml_joined_result [OF ml_joined(2,4,6-11) assms(2-5)] ml_joined(1,3) show ?thesis
    by (auto simp: Let_def split: if_splits)
qed simp_all

text \<open>A service that is healthy, and scores every request with 0.9.\<close>

definition friendly_post :: "nat \<Rightarrow> string \<Rightarrow> string \<Rightarrow> http_answer" where
  "friendly_post n path body = Response 200 (''{'' @ quote # ''anomaly_score'' @ quote # '': 0.9, '' @ quote # ''model_version'' @
     quote # '': '' @ quote # ''v1'' @ quote # ''}'')"

theorem ml_replay_exact_witness:
  "\<exists>result. ml_replay_through_kafka (\<lambda>xs. xs) (\<lambda>n. int n) (\<lambda>path. Response 200 []) friendly_post (\<lambda>n. [])
      tied_simulation [Produced, Produced, Produced] True True (map (\<lambda>e. Message (encode e)) tied_events) (Finished result) \<and>
     result\<lparr>rr_alerts := rr_alerts (replay_answer (\<lambda>xs. xs) (\<lambda>n. int n) tied_simulation tied_events)\<rparr> =
       replay_answer (\<lambda>xs. xs) (\<lambda>n. int n) tied_simulation tied_events"
proof -
  have pub: "\<exists>topic. publish_events [Produced, Produced, Produced] tied_events [] = Some (Inr topic)"
    by (simp add: tied_events_def publish_def)
  have "decode (encode e) = Inr e" if "e \<in> set tied_events" for e
    using event_codec.dec_log [OF tied_encodable] that by auto
  then have poll: "poll_topic (length tied_events) 0 0 (map (\<lambda>e. Message (encode e)) tied_events) = Some (tied_events, None)"
    by (simp add: tied_events_def poll_def)
  have len: "length tied_events \<le> 2 ^ 62" by (simp add: tied_events_def)
  have healthy: "health_check (\<lambda>path. Response 200 [])" by (simp add: health_check_def)
  have broker: "broker_reads (map encode tied_events) (map (\<lambda>e. Message (encode e)) tied_events)"
    by (simp add: broker_reads_def tied_events_def)
  obtain result where run: "ml_replay_through_kafka (\<lambda>xs. xs) (\<lambda>n. int n) (\<lambda>path. Response 200 []) friendly_post (\<lambda>n. [])
      tied_simulation [Produced, Produced, Produced] True True (map (\<lambda>e. Message (encode e)) tied_events) (Finished result)"
    using ml_replay_can_finish [OF tied_stream len _ healthy poll] pub by blast
  then show ?thesis using ml_replay_exact [OF run tied_stream tied_encodable len broker] by (auto simp: Let_def)
qed

end
