(* ===== verification/Eval_Program.thy ===== *)
theory Eval_Program
  imports Ml_Replay Clean_Replay Evaluation
begin

text \<open>
  \<open>cpp/harness/main.cpp\<close>: the evaluation program.  It replays a session with the ML service, a
  smaller one and five of growing severity, and writes the confusion matrices of every detector to
  its output and, on request, to a JSON file.  What \<open>replay_through_kafka\<close> returns for a session
  is a parameter here, one per topic; \<open>Ml_Replay\<close> and \<open>Replay_Properties\<close> have what it can be.
  Of the output, the rows of numbers are modelled and the headings and notes are left out.
\<close>

section \<open>Rows of numbers\<close>

definition fmt :: "double option \<Rightarrow> string" where
  "fmt v = (case v of None \<Rightarrow> ''  n/a'' | Some x \<Rightarrow> take 15 (show_fixed 3 x))"

text \<open>\<open>%-ns\<close> of \<open>printf\<close>.\<close>

definition pad_right :: "nat \<Rightarrow> string \<Rightarrow> string" where
  "pad_right n s = s @ replicate (n - length s) CHR '' ''"

definition matrix_row :: "string \<Rightarrow> confusion_matrix \<Rightarrow> string" where
  "matrix_row label m =
     ''  '' @ pad_right 42 label @ '' TP='' @ pad_right 5 (json_uint (cm_tp m)) @ '' FP='' @ pad_right 5 (json_uint (cm_fp m)) @
     '' FN='' @ pad_right 5 (json_uint (cm_fn m)) @ '' TN='' @ pad_right 6 (json_uint (cm_tn m)) @
     ''  P='' @ pad_right 8 (fmt (precision m)) @ '' R='' @ pad_right 8 (fmt (recall m)) @
     '' F1='' @ pad_right 8 (fmt (f1 m)) @ [CHR 0x0A]"

section \<open>The configurations\<close>

definition rate_override_or :: "double option \<Rightarrow> double \<Rightarrow> double" where
  "rate_override_or env natural_rate = (case env of None \<Rightarrow> natural_rate | Some rate \<Rightarrow> rate)"

definition empirical_rate :: double where
  "empirical_rate = rnd64 (1669 / 100)"

definition epoch_anchor_ns :: int where
  "epoch_anchor_ns = 1700000000000000000"

definition patterns_of :: "int \<Rightarrow> double \<Rightarrow> abuse_pattern_config" where
  "patterns_of n severity = \<lparr>ap_count = n, ap_severity = severity\<rparr>"

definition main_eval_config :: "double option \<Rightarrow> simulator_config" where
  "main_eval_config env =
     \<lparr>sg_random_seed = 777, sg_session_start_ns = epoch_anchor_ns, sg_session_duration_ns = 600 * 1000000000,
      sg_num_equity_instruments = 8, sg_num_fx_instruments = 4, sg_num_fixed_income_instruments = 3,
      sg_baseline_orders_per_second = rate_override_or env (fmul empirical_rate (to_double (8 + 4 + 3))),
      sg_num_independent_accounts = 150, sg_num_linked_account_pairs = 30,
      sg_wash_trade = patterns_of 15 (1 / 2), sg_spoofing_layering = patterns_of 15 (1 / 2),
      sg_marking_the_close = patterns_of 15 (1 / 2), sg_front_running = patterns_of 15 (1 / 2)\<rparr>"

definition baseline_comparison_config :: simulator_config where
  "baseline_comparison_config =
     \<lparr>sg_random_seed = 999, sg_session_start_ns = epoch_anchor_ns, sg_session_duration_ns = 600 * 1000000000,
      sg_num_equity_instruments = 2, sg_num_fx_instruments = 1, sg_num_fixed_income_instruments = 0,
      sg_baseline_orders_per_second = fmul empirical_rate (to_double (2 + 1 + 0)),
      sg_num_independent_accounts = 15, sg_num_linked_account_pairs = 5,
      sg_wash_trade = patterns_of 15 (1 / 2), sg_spoofing_layering = patterns_of 15 (1 / 2),
      sg_marking_the_close = patterns_of 15 (1 / 2), sg_front_running = patterns_of 15 (1 / 2)\<rparr>"

definition severity_gradient_config :: "double \<Rightarrow> u64 \<Rightarrow> simulator_config" where
  "severity_gradient_config severity seed =
     \<lparr>sg_random_seed = seed, sg_session_start_ns = epoch_anchor_ns, sg_session_duration_ns = 300 * 1000000000,
      sg_num_equity_instruments = 8, sg_num_fx_instruments = 4, sg_num_fixed_income_instruments = 3,
      sg_baseline_orders_per_second = fmul empirical_rate (to_double (8 + 4 + 3)),
      sg_num_independent_accounts = 150, sg_num_linked_account_pairs = 30,
      sg_wash_trade = patterns_of 10 severity, sg_spoofing_layering = patterns_of 10 severity,
      sg_marking_the_close = patterns_of 10 severity, sg_front_running = patterns_of 10 severity\<rparr>"

section \<open>Scenarios that share a key\<close>

record mtc_scan =
  sc_seen_keys :: "string set"
  sc_scenario_by_key :: "string \<rightharpoonup> string"
  sc_collisions :: int

definition mtc_key :: "sim_execution \<Rightarrow> string" where
  "mtc_key x = sx_instrument_id x @ ''|'' @ sx_account_id x"

definition scan_mtc :: "sim_execution \<Rightarrow> mtc_scan \<Rightarrow> mtc_scan" where
  "scan_mtc x s =
     (if gt_pattern (sx_label x) \<noteq> Marking_The_Close_Pattern then s
      else let key = mtc_key x; scenario = gt_scenario_id (sx_label x)
           in case sc_scenario_by_key s key of
                None \<Rightarrow> s\<lparr>sc_scenario_by_key := (sc_scenario_by_key s)(key \<mapsto> scenario)\<rparr>
              | Some earlier \<Rightarrow>
                  if earlier = scenario then s
                  else if key \<in> sc_seen_keys s then s
                  else s\<lparr>sc_seen_keys := insert key (sc_seen_keys s), sc_collisions := sc_collisions s + 1\<rparr>)"

definition empty_scan :: mtc_scan where
  "empty_scan = \<lparr>sc_seen_keys = {}, sc_scenario_by_key = Map.empty, sc_collisions = 0\<rparr>"

definition count_mtc_key_collisions :: "simulation_output \<Rightarrow> int" where
  "count_mtc_key_collisions simulation = sc_collisions (fold scan_mtc (sim_executions simulation) empty_scan)"

section \<open>A run\<close>

record eval_run =
  er_simulation :: simulation_output
  er_replay :: replay_result
  er_universes :: universes

text \<open>An exception that \<open>main\<close> catches, or the end of the process; \<open>None\<close> does not return.\<close>

datatype run_failure = Caught | Killed

definition run_eval ::
    "(simulator_config \<Rightarrow> (string + simulation_output) option) \<Rightarrow> (simulation_output \<Rightarrow> replay_outcome)
     \<Rightarrow> simulator_config \<Rightarrow> (run_failure + eval_run) option" where
  "run_eval generate replay config =
     map_option (\<lambda>generated. case generated of
         Inl msg \<Rightarrow> Inl Caught
       | Inr simulation \<Rightarrow>
           (case replay simulation of
              Thrown e \<Rightarrow> Inl Caught
            | Terminated \<Rightarrow> Inl Killed
            | Finished result \<Rightarrow>
                Inr \<lparr>er_simulation = simulation, er_replay = result, er_universes = build_universes simulation\<rparr>))
       (generate config)"

record json_detector_entry =
  je_name :: string
  je_target_pattern :: string
  je_threshold :: double
  je_matrix :: confusion_matrix

record json_severity_gradient_entry =
  jg_severity :: double
  jg_recall_by_detector :: "string \<rightharpoonup> double option"

section \<open>The sections of the report\<close>

text \<open>A loop over the detectors' specifications; an exception of its body ends it.\<close>

fun for_each :: "('a \<Rightarrow> 'e + 'b) \<Rightarrow> 'a list \<Rightarrow> 'e + 'b list" where
  "for_each body [] = Inr []"
| "for_each body (x # xs) =
     (case body x of Inl e \<Rightarrow> Inl e | Inr y \<Rightarrow> map_sum id (Cons y) (for_each body xs))"

text \<open>Rows as they are printed, with their labels, and the entries kept for the JSON file.\<close>

type_synonym report_section = "(string \<times> confusion_matrix) list \<times> json_detector_entry list"

definition universe_for :: "eval_run \<Rightarrow> string \<Rightarrow> string + detector_universe" where
  "universe_for run name = map_sum id (select_universe (er_universes run)) (detector_universe_kind name)"

definition matrix_in :: "eval_run \<Rightarrow> string \<Rightarrow> double \<Rightarrow> detector_universe \<Rightarrow> string set \<Rightarrow> confusion_matrix" where
  "matrix_in run name threshold u positive =
     compute_confusion_matrix (rr_alerts (er_replay run)) name threshold (du_event_ids u) positive"

definition operating_points :: "eval_run \<Rightarrow> string + report_section" where
  "operating_points run = map_sum id (\<lambda>points. (map fst points, concat (map snd points)))
     (for_each (\<lambda>(name, target). map_sum id (\<lambda>u.
          let m = matrix_in run name (1 / 2) u (positive_ids_for u target)
          in ((name @ '' ('' @ abuse_pattern_to_string target @ '')'', m),
              if name \<noteq> ''MarkingTheCloseDetector''
              then [\<lparr>je_name = name, je_target_pattern = abuse_pattern_to_string target, je_threshold = 1 / 2, je_matrix = m\<rparr>]
              else []))
        (universe_for run name))
      pattern_aware_detector_specs)"

definition naive_name :: string where "naive_name = ''StatisticalBaselineDetector''"

definition naive_matrix :: "eval_run \<Rightarrow> string set \<Rightarrow> confusion_matrix" where
  "naive_matrix run positive = matrix_in run naive_name (1 / 2) (un_new_orders (er_universes run)) positive"

definition naive_comparison :: "eval_run \<Rightarrow> report_section" where
  "naive_comparison run =
     (let u = un_new_orders (er_universes run); m = naive_matrix run (any_abuse_ids u)
      in (map (\<lambda>(name, target). (naive_name @ '' ('' @ abuse_pattern_to_string target @ '')'',
              naive_matrix run (positive_ids_for u target))) pattern_aware_detector_specs @
            [(naive_name @ '' (any injected abuse)'', m)],
          [\<lparr>je_name = naive_name, je_target_pattern = ''any injected abuse'', je_threshold = 1 / 2, je_matrix = m\<rparr>]))"

definition small_universe_comparison :: "eval_run \<Rightarrow> string + (string \<times> confusion_matrix) list" where
  "small_universe_comparison run =
     map_sum id (\<lambda>rows. concat rows @
         [(naive_name @ '' (any injected abuse)'', naive_matrix run (any_abuse_ids (un_new_orders (er_universes run))))])
       (for_each (\<lambda>(name, target). map_sum id (\<lambda>u.
            [(name @ '' (pattern-aware)'', matrix_in run name (1 / 2) u (positive_ids_for u target)),
             (''  vs. '' @ naive_name @ '' (naive)'', naive_matrix run (positive_ids_for (un_new_orders (er_universes run)) target))])
          (universe_for run name))
        pattern_aware_detector_specs)"

definition sweep_thresholds :: "double list" where
  "sweep_thresholds = [0, rnd64 (1 / 10), rnd64 (2 / 10), rnd64 (3 / 10), rnd64 (4 / 10), 1 / 2, rnd64 (6 / 10),
     rnd64 (7 / 10), rnd64 (8 / 10), rnd64 (9 / 10), 1]"

definition close_to :: "double \<Rightarrow> double \<Rightarrow> bool" where
  "close_to threshold v \<longleftrightarrow> \<bar>fsub threshold v\<bar> < rnd64 (1 / 1000000000)"

definition threshold_label :: "double \<Rightarrow> string" where
  "threshold_label threshold = take 31 (''threshold='' @ show_fixed 1 threshold)"

definition sweep_section :: "eval_run \<Rightarrow> string + report_section" where
  "sweep_section run = map_sum id (\<lambda>parts. (concat (map fst parts), concat (map snd parts)))
     (for_each (\<lambda>(name, target). map_sum id (\<lambda>u.
          let sweep = threshold_sweep (rr_alerts (er_replay run)) name (du_event_ids u) (positive_ids_for u target)
                sweep_thresholds
          in (map (\<lambda>(t, m). (threshold_label t, m)) sweep,
              map (\<lambda>(t, m). \<lparr>je_name = name, je_target_pattern = abuse_pattern_to_string target,
                    je_threshold = rnd64 (4 / 10), je_matrix = m\<rparr>)
                (filter (\<lambda>(t, m). name = ''MarkingTheCloseDetector'' \<and> close_to t (rnd64 (4 / 10))) sweep)))
        (universe_for run name))
      pattern_aware_detector_specs)"

text \<open>The sweep of the ML detector, unless it has raised no alert: rows, sweep entries and the canonical entry.\<close>

definition ml_section :: "eval_run \<Rightarrow> (string \<times> confusion_matrix) list \<times> json_detector_entry list \<times> json_detector_entry list" where
  "ml_section run =
     (let ml_alerts = filter (\<lambda>a. al_detector_name a = ''MlAnomalyDetector'') (rr_alerts (er_replay run))
      in if ml_alerts = [] then ([], [], [])
         else let sweep = ml_anomaly_threshold_sweep (rr_alerts (er_replay run))
                    (build_ml_anomaly_ground_truth (er_simulation run)) (mc_window_duration_ns default_ml_config) sweep_thresholds;
                  entry = (\<lambda>t m. \<lparr>je_name = ''MlAnomalyDetector'', je_target_pattern = ''any injected abuse'',
                    je_threshold = t, je_matrix = m\<rparr>)
              in (map (\<lambda>(t, m). (threshold_label t, m)) sweep, map (\<lambda>(t, m). entry t m) sweep,
                  map (\<lambda>(t, m). entry (rnd64 (7 / 10)) m) (filter (\<lambda>(t, m). close_to t (rnd64 (7 / 10))) sweep)))"

definition gradient_entry :: "eval_run \<Rightarrow> double \<Rightarrow> string + json_severity_gradient_entry" where
  "gradient_entry run severity =
     map_sum id (\<lambda>recalls. \<lparr>jg_severity = severity, jg_recall_by_detector = fold (\<lambda>(name, r) m. m(name \<mapsto> r)) recalls Map.empty\<rparr>)
       (for_each (\<lambda>(name, target). map_sum id (\<lambda>u.
            (name, recall (matrix_in run name (1 / 2) u (positive_ids_for u target)))) (universe_for run name))
        pattern_aware_detector_specs)"

text \<open>The row of a severity: the recalls in the order of the specifications.\<close>

definition gradient_row :: "json_severity_gradient_entry \<Rightarrow> string" where
  "gradient_row g = ''  '' @ pad_right 12 (show_fixed 1 (jg_severity g)) @
     concat (map (\<lambda>(name, target). '' '' @ pad_right 24 (fmt (case jg_recall_by_detector g name of None \<Rightarrow> None | Some r \<Rightarrow> r)))
       pattern_aware_detector_specs) @ [CHR 0x0A]"

text \<open>The counts of the replay, and the note on shared keys.\<close>

definition integrity_rows :: "eval_run \<Rightarrow> string" where
  "integrity_rows run =
     (let r = er_replay run; sim = er_simulation run
      in ''  orders='' @ show_nat (length (sim_orders sim)) @ '' executions='' @ show_nat (length (sim_executions sim)) @
         '' total_events_published='' @ json_uint (rr_events_total r) @
         '' replayed_from_kafka='' @ json_uint (rr_events_replayed_from_kafka r) @ [CHR 0x0A] @
         ''  events_processed_by_pipeline='' @ json_uint (rr_events_processed r) @
         '' events_skipped_inconsistent='' @ json_uint (rr_events_skipped_inconsistent r) @
         '' ring_buffer_dropped='' @ json_uint (rr_ring_buffer_dropped r) @ [CHR 0x0A, CHR 0x0A])"

definition collision_note :: "int \<Rightarrow> string" where
  "collision_note collisions =
     (if 0 < collisions
      then ''  NOTE: '' @ show_int collisions @
        '' MarkingTheCloseDetector scenario(s) share an (instrument,account) key with an earlier'' @ [CHR 0x0A]
      else [])"

definition small_run_row :: "simulation_output \<Rightarrow> string" where
  "small_run_row sim =
     (let config = baseline_comparison_config
      in ''  accounts='' @ show_int (sg_num_independent_accounts config + sg_num_linked_account_pairs config * 2) @
         '' instruments='' @ show_int (instrument_count config) @
         '' orders='' @ show_nat (length (sim_orders sim)) @ '' executions='' @ show_nat (length (sim_executions sim)) @ [CHR 0x0A])"

definition scored_row :: "eval_run \<Rightarrow> string" where
  "scored_row run = ''  requests scored this run: '' @
     show_nat (length (filter (\<lambda>a. al_detector_name a = ''MlAnomalyDetector'') (rr_alerts (er_replay run)))) @ [CHR 0x0A]"

definition rows_text :: "(string \<times> confusion_matrix) list \<Rightarrow> string" where
  "rows_text rows = concat (map (\<lambda>(label, m). matrix_row label m) rows)"

section \<open>The JSON file\<close>

definition json_object :: "(string \<times> string) list \<Rightarrow> string" where
  "json_object members = ''{'' @ fst (fold (\<lambda>(key, raw). json_field key raw) members ([], True)) @ ''}''"

fun json_items :: "string list \<Rightarrow> string" where
  "json_items [] = []"
| "json_items [x] = x"
| "json_items (x # xs) = x @ '','' @ json_items xs"

definition json_array :: "string list \<Rightarrow> string" where
  "json_array items = ''['' @ json_items items @ '']''"

text \<open>\<open>json_number(static_cast<int64_t>(n))\<close>.\<close>

definition json_int64 :: "u64 \<Rightarrow> string" where
  "json_int64 n = show_int (sint n)"

definition integrity_json :: "eval_run \<Rightarrow> string" where
  "integrity_json run =
     (let r = er_replay run; sim = er_simulation run
      in json_object
        [(''orders'', json_int64 (of_nat (length (sim_orders sim)))),
         (''executions'', json_int64 (of_nat (length (sim_executions sim)))),
         (''total_events_published'', json_int64 (rr_events_total r)),
         (''replayed_from_kafka'', json_int64 (rr_events_replayed_from_kafka r)),
         (''events_processed'', json_int64 (rr_events_processed r)),
         (''events_skipped_inconsistent'', json_int64 (rr_events_skipped_inconsistent r)),
         (''ring_buffer_dropped'', json_int64 (rr_ring_buffer_dropped r))])"

definition entry_json :: "json_detector_entry \<Rightarrow> string" where
  "entry_json e =
     (let m = je_matrix e
      in json_object
        [(''name'', json_string (je_name e)), (''target_pattern'', json_string (je_target_pattern e)),
         (''threshold'', json_number (Some (je_threshold e))),
         (''tp'', json_uint (cm_tp m)), (''fp'', json_uint (cm_fp m)), (''fn'', json_uint (cm_fn m)), (''tn'', json_uint (cm_tn m)),
         (''precision'', json_number (precision m)), (''recall'', json_number (recall m)), (''f1'', json_number (f1 m))])"

text \<open>\<open>std::out_of_range\<close> of \<open>at\<close> is \<open>Inl\<close> of the missing name.\<close>

definition recalls_json :: "json_severity_gradient_entry \<Rightarrow> string + string" where
  "recalls_json g =
     map_sum id (\<lambda>parts. ''{'' @ json_items parts @ ''}'')
       (for_each (\<lambda>(name, target). case jg_recall_by_detector g name of
            None \<Rightarrow> Inl name
          | Some r \<Rightarrow> Inr (json_string name @ '':'' @ json_number r))
        pattern_aware_detector_specs)"

definition severity_json :: "json_severity_gradient_entry \<Rightarrow> string + string" where
  "severity_json g =
     map_sum id (\<lambda>recalls. json_object [(''severity'', json_number (Some (jg_severity g))), (''recall_by_detector'', recalls)])
       (recalls_json g)"

definition report_json ::
    "int \<Rightarrow> eval_run \<Rightarrow> json_detector_entry list \<Rightarrow> json_detector_entry list \<Rightarrow> json_severity_gradient_entry list
     \<Rightarrow> string + string" where
  "report_json now run entries ml_sweep gradient =
     map_sum id (\<lambda>severities. json_object
         [(''generated_at_unix_ns'', show_int now), (''replay_integrity'', integrity_json run),
          (''detectors'', json_array (map entry_json entries)), (''ml_anomaly_sweep'', json_array (map entry_json ml_sweep)),
          (''severity_gradient_severities'', ''[0.1,0.3,0.5,0.7,0.9]''), (''severity_gradient'', json_array severities)])
       (for_each severity_json gradient)"

section \<open>The program\<close>

text \<open>What follows \<open>--json\<close>, the last one if there are several.\<close>

fun json_path_of :: "string list \<Rightarrow> string \<Rightarrow> string" where
  "json_path_of (arg # value # rest) path =
     (if arg = ''--json'' then json_path_of rest value else json_path_of (value # rest) path)"
| "json_path_of _ path = path"

definition gradient_severities :: "double list" where
  "gradient_severities = [rnd64 (1 / 10), rnd64 (3 / 10), 1 / 2, rnd64 (7 / 10), rnd64 (9 / 10)]"

text \<open>The runs of growing severity: the entries until one fails, and how it fails.\<close>

fun gradient_runs ::
    "(simulator_config \<Rightarrow> (string + simulation_output) option) \<Rightarrow> (string \<Rightarrow> simulation_output \<Rightarrow> replay_outcome)
     \<Rightarrow> nat \<Rightarrow> double list \<Rightarrow> (json_severity_gradient_entry list \<times> run_failure option) option" where
  "gradient_runs generate replay i [] = Some ([], None)"
| "gradient_runs generate replay i (severity # severities) =
     (case run_eval generate (replay (''grad'' @ show_nat i)) (severity_gradient_config severity (5000 + of_nat i)) of
        None \<Rightarrow> None
      | Some (Inl failure) \<Rightarrow> Some ([], Some failure)
      | Some (Inr run) \<Rightarrow>
          (case gradient_entry run severity of
             Inl e \<Rightarrow> Some ([], Some Killed)
           | Inr g \<Rightarrow> map_option (apfst (Cons g)) (gradient_runs generate replay (Suc i) severities)))"

text \<open>The exit status, the rows written, and the JSON file; an uncaught exception aborts.\<close>

datatype program_end = Returned int string "string option" | Aborted

definition end_of :: "run_failure \<Rightarrow> string \<Rightarrow> program_end" where
  "end_of failure out = (case failure of Caught \<Rightarrow> Returned 1 out None | Killed \<Rightarrow> Aborted)"

definition eval_main ::
    "(simulator_config \<Rightarrow> (string + simulation_output) option) \<Rightarrow> (string \<Rightarrow> simulation_output \<Rightarrow> replay_outcome)
     \<Rightarrow> double option \<Rightarrow> (string \<Rightarrow> bool) \<Rightarrow> int \<Rightarrow> string list \<Rightarrow> program_end option" where
  "eval_main generate replay env writable now args =
     (case run_eval generate (replay ''main'') (main_eval_config env) of
        None \<Rightarrow> None
      | Some (Inl failure) \<Rightarrow> Some (end_of failure [])
      | Some (Inr run) \<Rightarrow>
          (case operating_points run of
             Inl e \<Rightarrow> Some Aborted
           | Inr (rows, entries) \<Rightarrow>
               let (naive_rows, naive_entries) = naive_comparison run;
                   out = integrity_rows run @ collision_note (count_mtc_key_collisions (er_simulation run)) @
                     rows_text (rows @ naive_rows)
               in case run_eval generate (replay ''basecmp'') baseline_comparison_config of
                    None \<Rightarrow> None
                  | Some (Inl failure) \<Rightarrow> Some (end_of failure out)
                  | Some (Inr small_run) \<Rightarrow>
                      (case (small_universe_comparison small_run, sweep_section run) of
                         (Inr small_rows, Inr (sweep_rows, sweep_entries)) \<Rightarrow>
                           let (ml_rows, ml_sweep, ml_entries) = ml_section run
                           in (case gradient_runs generate replay 0 gradient_severities of
                                 None \<Rightarrow> None
                               | Some (gradient, failure) \<Rightarrow>
                                   let whole = out @ small_run_row (er_simulation small_run) @ rows_text (small_rows @ sweep_rows) @
                                         scored_row run @ rows_text ml_rows @
                                         concat (map gradient_row gradient);
                                       path = json_path_of args []
                                   in case failure of
                                        Some f \<Rightarrow> Some (end_of f whole)
                                      | None \<Rightarrow>
                                          if path = [] then Some (Returned 0 whole None)
                                          else (case report_json now run (entries @ naive_entries @ sweep_entries @ ml_entries)
                                                  ml_sweep gradient of
                                                  Inl e \<Rightarrow> Some Aborted
                                                | Inr report \<Rightarrow>
                                                    Some (if writable path then Returned 0 whole (Some report)
                                                          else Returned 1 whole None)))
                       | _ \<Rightarrow> Some Aborted)))"

end
