(* ===== verification/Eval_Properties.thy ===== *)
theory Eval_Properties
  imports Eval_Program
begin

text \<open>
  What the evaluation program reports: the number of shared keys, the entries of its
  JSON file, how it ends in each case, and that with brokers that return the messages in order
  neither the interleaving of the threads nor the clocks have a say in the numbers.
\<close>

section \<open>Scenarios that share a key\<close>

definition mtc_executions :: "sim_execution list \<Rightarrow> sim_execution set" where
  "mtc_executions xs = {x \<in> set xs. gt_pattern (sx_label x) = Marking_The_Close_Pattern}"

definition shared_keys :: "sim_execution list \<Rightarrow> string set" where
  "shared_keys xs = {key. \<exists>x \<in> mtc_executions xs. \<exists>y \<in> mtc_executions xs. mtc_key x = key \<and> mtc_key y = key \<and>
     gt_scenario_id (sx_label x) \<noteq> gt_scenario_id (sx_label y)}"

lemma mtc_executions_snoc: "mtc_executions (xs @ [x]) =
    (if gt_pattern (sx_label x) = Marking_The_Close_Pattern then insert x (mtc_executions xs) else mtc_executions xs)"
  by (auto simp: mtc_executions_def)

lemma shared_keysI: "x \<in> mtc_executions xs \<Longrightarrow> y \<in> mtc_executions xs \<Longrightarrow> mtc_key x = key \<Longrightarrow> mtc_key y = key \<Longrightarrow>
    gt_scenario_id (sx_label x) \<noteq> gt_scenario_id (sx_label y) \<Longrightarrow> key \<in> shared_keys xs"
  unfolding shared_keys_def by blast

lemma shared_keys_finite: "finite (shared_keys xs)"
proof (rule finite_subset)
  show "shared_keys xs \<subseteq> mtc_key ` set xs" by (auto simp: shared_keys_def mtc_executions_def)
qed simp

definition scanned :: "sim_execution list \<Rightarrow> mtc_scan \<Rightarrow> bool" where
  "scanned xs s \<longleftrightarrow> sc_seen_keys s = shared_keys xs \<and> sc_collisions s = int (card (shared_keys xs)) \<and>
     (\<forall>x \<in> mtc_executions xs. sc_scenario_by_key s (mtc_key x) \<noteq> None) \<and>
     (\<forall>key scenario. sc_scenario_by_key s key = Some scenario \<longrightarrow>
        (\<exists>x \<in> mtc_executions xs. mtc_key x = key \<and> gt_scenario_id (sx_label x) = scenario))"

lemma scanned_step:
  assumes "scanned xs s"
  shows "scanned (xs @ [x]) (scan_mtc x s)"
proof (cases "gt_pattern (sx_label x) = Marking_The_Close_Pattern")
  case False
  then have same: "mtc_executions (xs @ [x]) = mtc_executions xs" by (simp add: mtc_executions_snoc)
  show ?thesis using assms False unfolding scanned_def shared_keys_def same by (simp add: scan_mtc_def)
next
  case mtc: True
  let ?key = "mtc_key x" and ?scenario = "gt_scenario_id (sx_label x)" and ?M = "mtc_executions xs"
  have seen: "sc_seen_keys s = shared_keys xs" "sc_collisions s = int (card (shared_keys xs))"
    and none: "\<And>y. y \<in> ?M \<Longrightarrow> sc_scenario_by_key s (mtc_key y) \<noteq> None"
    and some: "\<And>key scenario. sc_scenario_by_key s key = Some scenario \<Longrightarrow>
      \<exists>y \<in> ?M. mtc_key y = key \<and> gt_scenario_id (sx_label y) = scenario"
    using assms by (simp_all add: scanned_def)
  have new: "mtc_executions (xs @ [x]) = insert x ?M" by (simp add: mtc_executions_snoc mtc)
  have grow: "shared_keys (xs @ [x]) = shared_keys xs \<union>
      {key. key = ?key \<and> (\<exists>y \<in> ?M. mtc_key y = ?key \<and> gt_scenario_id (sx_label y) \<noteq> ?scenario)}"
    (is "_ = _ \<union> ?more")
  proof (rule subset_antisym; rule subsetI)
    fix key
    assume "key \<in> shared_keys (xs @ [x])"
    then obtain a b where ab: "a \<in> insert x ?M" "b \<in> insert x ?M" "mtc_key a = key" "mtc_key b = key"
      "gt_scenario_id (sx_label a) \<noteq> gt_scenario_id (sx_label b)" unfolding shared_keys_def new by blast
    then show "key \<in> shared_keys xs \<union> ?more"
      by (cases "a = x"; cases "b = x") (auto simp: shared_keys_def)
  next
    fix key
    assume "key \<in> shared_keys xs \<union> ?more"
    then show "key \<in> shared_keys (xs @ [x])"
    proof
      assume "key \<in> ?more"
      then obtain y where "y \<in> ?M" "key = ?key" "mtc_key y = ?key" "gt_scenario_id (sx_label y) \<noteq> ?scenario" by blast
      then show ?thesis unfolding shared_keys_def new by blast
    qed (unfold shared_keys_def new, blast)
  qed
  show ?thesis
  proof (cases "sc_scenario_by_key s ?key")
    case None
    then have "shared_keys (xs @ [x]) = shared_keys xs" using none by (fastforce simp: grow)
    moreover have "scan_mtc x s = s\<lparr>sc_scenario_by_key := (sc_scenario_by_key s)(?key \<mapsto> ?scenario)\<rparr>"
      by (simp add: scan_mtc_def mtc Let_def None)
    moreover have "\<exists>y \<in> insert x ?M. mtc_key y = key \<and> gt_scenario_id (sx_label y) = scenario"
      if "((sc_scenario_by_key s)(?key \<mapsto> ?scenario)) key = Some scenario" for key scenario
      using that some [of key scenario] by (cases "key = ?key") auto
    ultimately show ?thesis using seen none by (simp add: scanned_def new)
  next
    case (Some earlier)
    then obtain y where y: "y \<in> ?M" "mtc_key y = ?key" "gt_scenario_id (sx_label y) = earlier" using some [OF Some] by blast
    have "shared_keys (xs @ [x]) = (if earlier = ?scenario then shared_keys xs else insert ?key (shared_keys xs))"
    proof (cases "earlier = ?scenario")
      case True
      then have "z \<in> ?M \<Longrightarrow> mtc_key z = ?key \<Longrightarrow> gt_scenario_id (sx_label z) \<noteq> ?scenario \<Longrightarrow> ?key \<in> shared_keys xs" for z
        using y by (intro shared_keysI [of z _ y]) simp_all
      then show ?thesis using True by (auto simp: grow)
    qed (use y in \<open>auto simp: grow\<close>)
    then show ?thesis
      using seen none some Some shared_keys_finite [of xs]
      unfolding scanned_def new by (auto simp: scan_mtc_def mtc Let_def card_insert_if)
  qed
qed

text \<open>
  The number of shared keys.  What the program reports is the number of pairs of instrument and account,
  as the detector joins them, for which the session has marking-the-close
  trades of at least two scenarios; further scenarios on the same key do not count.
\<close>

theorem mtc_collisions_exact:
  "count_mtc_key_collisions simulation =
     int (card {key. \<exists>x \<in> set (sim_executions simulation). \<exists>y \<in> set (sim_executions simulation).
       gt_pattern (sx_label x) = Marking_The_Close_Pattern \<and> gt_pattern (sx_label y) = Marking_The_Close_Pattern \<and>
       mtc_key x = key \<and> mtc_key y = key \<and> gt_scenario_id (sx_label x) \<noteq> gt_scenario_id (sx_label y)})"
proof -
  have "scanned xs (fold scan_mtc xs empty_scan)" for xs
  proof (induction xs rule: rev_induct)
    case Nil
    show ?case by (simp add: scanned_def empty_scan_def shared_keys_def mtc_executions_def)
  next
    case (snoc x xs)
    then show ?case using scanned_step by simp
  qed
  then have "count_mtc_key_collisions simulation = int (card (shared_keys (sim_executions simulation)))"
    by (simp add: count_mtc_key_collisions_def scanned_def)
  also have "shared_keys (sim_executions simulation) = {key. \<exists>x \<in> set (sim_executions simulation). \<exists>y \<in> set (sim_executions simulation).
       gt_pattern (sx_label x) = Marking_The_Close_Pattern \<and> gt_pattern (sx_label y) = Marking_The_Close_Pattern \<and>
       mtc_key x = key \<and> mtc_key y = key \<and> gt_scenario_id (sx_label x) \<noteq> gt_scenario_id (sx_label y)}"
    by (auto simp: shared_keys_def mtc_executions_def)
  finally show ?thesis .
qed

section \<open>The entries of the report\<close>

lemma universe_for_names [simp]:
  "universe_for run ''WashTradeDetector'' = Inr (un_executions (er_universes run))"
  "universe_for run ''SpoofingLayeringDetector'' = Inr (un_cancel_orders (er_universes run))"
  "universe_for run ''MarkingTheCloseDetector'' = Inr (un_executions (er_universes run))"
  "universe_for run ''FrontRunningDetector'' = Inr (un_new_orders (er_universes run))"
  by (simp_all add: universe_for_def detector_universe_kind_def)

lemma close_to_sweep:
  "filter (\<lambda>(t, m). close_to t (rnd64 (2 / 5))) (map (\<lambda>t. (t, f t)) sweep_thresholds) = [(rnd64 (2 / 5), f (rnd64 (2 / 5)))]"
  "filter (\<lambda>(t, m). close_to t (rnd64 (7 / 10))) (map (\<lambda>t. (t, f t)) sweep_thresholds) = [(rnd64 (7 / 10), f (rnd64 (7 / 10)))]"
  by (simp_all add: sweep_thresholds_def close_to_def fsub_def float_eval)

lemma for_each_Inr: "(\<And>x. x \<in> set xs \<Longrightarrow> body x = Inr (f x)) \<Longrightarrow> for_each body xs = Inr (map f xs)"
  by (induction xs) simp_all

definition scored_on :: "eval_run \<Rightarrow> string \<Rightarrow> string \<Rightarrow> double \<Rightarrow> detector_universe \<Rightarrow> string set \<Rightarrow> json_detector_entry" where
  "scored_on run name target threshold u positive =
     \<lparr>je_name = name, je_target_pattern = target, je_threshold = threshold,
      je_matrix = matrix_in run name threshold u positive\<rparr>"

lemma operating_entries:
  "\<exists>rows. operating_points run = Inr (rows,
     [scored_on run ''WashTradeDetector'' ''WashTrade'' (1 / 2) (un_executions (er_universes run))
        (positive_ids_for (un_executions (er_universes run)) Wash_Trade_Pattern),
      scored_on run ''SpoofingLayeringDetector'' ''SpoofingLayering'' (1 / 2) (un_cancel_orders (er_universes run))
        (positive_ids_for (un_cancel_orders (er_universes run)) Spoofing_Layering_Pattern),
      scored_on run ''FrontRunningDetector'' ''FrontRunning'' (1 / 2) (un_new_orders (er_universes run))
        (positive_ids_for (un_new_orders (er_universes run)) Front_Running_Pattern)])"
  by (simp add: operating_points_def pattern_aware_detector_specs_def Let_def scored_on_def)

lemma sweep_entries:
  "\<exists>rows. sweep_section run = Inr (rows,
     [scored_on run ''MarkingTheCloseDetector'' ''MarkingTheClose'' (rnd64 (4 / 10)) (un_executions (er_universes run))
        (positive_ids_for (un_executions (er_universes run)) Marking_The_Close_Pattern)])"
  by (simp add: sweep_section_def pattern_aware_detector_specs_def Let_def scored_on_def threshold_sweep_def close_to_sweep
      matrix_in_def)

lemma small_rows: "\<exists>rows. small_universe_comparison run = Inr rows"
  by (simp add: small_universe_comparison_def pattern_aware_detector_specs_def)

lemma ml_entries:
  "\<exists>rows sweep. ml_section run = (rows, sweep,
     if list_ex (\<lambda>a. al_detector_name a = ''MlAnomalyDetector'') (rr_alerts (er_replay run))
     then [\<lparr>je_name = ''MlAnomalyDetector'', je_target_pattern = ''any injected abuse'', je_threshold = rnd64 (7 / 10),
            je_matrix = compute_ml_anomaly_confusion_matrix (rr_alerts (er_replay run)) (rnd64 (7 / 10))
              (build_ml_anomaly_ground_truth (er_simulation run)) 60000000000\<rparr>]
     else [])"
  by (simp add: ml_section_def Let_def filter_empty_conv list_ex_iff ml_anomaly_threshold_sweep_def close_to_sweep default_ml_config_def)

lemma run_eval_iff:
  "run_eval generate replay config = Some (Inr run) \<longleftrightarrow>
     (\<exists>simulation result. generate config = Some (Inr simulation) \<and> replay simulation = Finished result \<and>
        run = \<lparr>er_simulation = simulation, er_replay = result, er_universes = build_universes simulation\<rparr>)"
proof (cases "generate config")
  case (Some generated)
  show ?thesis
  proof (cases generated)
    case (Inr simulation)
    then show ?thesis using Some by (cases "replay simulation") (auto simp: run_eval_def)
  qed (simp add: run_eval_def Some)
qed (simp add: run_eval_def)

lemma gradient_entry_exact:
  "\<exists>g. gradient_entry run severity = Inr g \<and> jg_severity g = severity \<and> (\<exists>shown. severity_json g = Inr shown)"
  by (simp add: gradient_entry_def pattern_aware_detector_specs_def severity_json_def recalls_json_def)

lemma gradient_runs_exact:
  "gradient_runs generate replay i severities = Some (gs, None) \<Longrightarrow>
     map jg_severity gs = severities \<and> (\<exists>texts. for_each severity_json gs = Inr texts)"
proof (induction severities arbitrary: i gs)
  case (Cons severity severities)
  from Cons.prems obtain run where run: "run_eval generate (replay (''grad'' @ show_nat i)) (severity_gradient_config severity (5000 + of_nat i)) = Some (Inr run)"
    by (auto split: option.splits sum.splits)
  obtain g shown where g: "gradient_entry run severity = Inr g" "jg_severity g = severity" "severity_json g = Inr shown"
    using gradient_entry_exact by blast
  then obtain gs' where "gs = g # gs'" "gradient_runs generate replay (Suc i) severities = Some (gs', None)"
    using Cons.prems unfolding gradient_runs.simps run by auto
  then show ?case using Cons.IH g by fastforce
qed simp

text \<open>
  C8: the report.  When the program ends normally with a JSON file, the file's canonical entries are one for
  each pattern-aware detector, scored on the universe of its own events with the
  ids labelled with its own pattern as positives, at 0.5, or 0.4 for marking the close; one for the naive
  detector against all abuse; and, if the ML detector has raised an alert, one for it at
  0.7; and the gradient has the five severities in order.
\<close>

theorem eval_report_entries:
  assumes "eval_main generate replay env writable now args = Some (Returned status out (Some report))"
  shows "\<exists>run gradient entries sweep. run_eval generate (replay ''main'') (main_eval_config env) = Some (Inr run) \<and>
    status = 0 \<and> report_json now run entries sweep gradient = Inr report \<and> map jg_severity gradient = gradient_severities \<and>
    (let us = build_universes (er_simulation run); alerts = rr_alerts (er_replay run);
         scored = (\<lambda>name target t u positive. \<lparr>je_name = name, je_target_pattern = target, je_threshold = t,
           je_matrix = compute_confusion_matrix alerts name t (du_event_ids u) positive\<rparr>)
     in entries =
       [scored ''WashTradeDetector'' ''WashTrade'' (1 / 2) (un_executions us) (positive_ids_for (un_executions us) Wash_Trade_Pattern),
        scored ''SpoofingLayeringDetector'' ''SpoofingLayering'' (1 / 2) (un_cancel_orders us)
          (positive_ids_for (un_cancel_orders us) Spoofing_Layering_Pattern),
        scored ''FrontRunningDetector'' ''FrontRunning'' (1 / 2) (un_new_orders us)
          (positive_ids_for (un_new_orders us) Front_Running_Pattern),
        scored ''StatisticalBaselineDetector'' ''any injected abuse'' (1 / 2) (un_new_orders us) (any_abuse_ids (un_new_orders us)),
        scored ''MarkingTheCloseDetector'' ''MarkingTheClose'' (rnd64 (4 / 10)) (un_executions us)
          (positive_ids_for (un_executions us) Marking_The_Close_Pattern)] @
       (if list_ex (\<lambda>a. al_detector_name a = ''MlAnomalyDetector'') alerts
        then [\<lparr>je_name = ''MlAnomalyDetector'', je_target_pattern = ''any injected abuse'', je_threshold = rnd64 (7 / 10),
               je_matrix = compute_ml_anomaly_confusion_matrix alerts (rnd64 (7 / 10))
                 (build_ml_anomaly_ground_truth (er_simulation run)) 60000000000\<rparr>]
        else []))"
proof -
  obtain run where run: "run_eval generate (replay ''main'') (main_eval_config env) = Some (Inr run)"
    using assms by (auto simp: eval_main_def end_of_def split: option.splits sum.splits run_failure.splits)
  obtain small where small: "run_eval generate (replay ''basecmp'') baseline_comparison_config = Some (Inr small)"
    using assms operating_entries [of run]
    by (auto simp: eval_main_def run end_of_def naive_comparison_def Let_def split: option.splits sum.splits run_failure.splits)
  obtain rows1 where rows1: "operating_points run = Inr (rows1,
     [scored_on run ''WashTradeDetector'' ''WashTrade'' (1 / 2) (un_executions (er_universes run))
        (positive_ids_for (un_executions (er_universes run)) Wash_Trade_Pattern),
      scored_on run ''SpoofingLayeringDetector'' ''SpoofingLayering'' (1 / 2) (un_cancel_orders (er_universes run))
        (positive_ids_for (un_cancel_orders (er_universes run)) Spoofing_Layering_Pattern),
      scored_on run ''FrontRunningDetector'' ''FrontRunning'' (1 / 2) (un_new_orders (er_universes run))
        (positive_ids_for (un_new_orders (er_universes run)) Front_Running_Pattern)])" (is "_ = Inr (_, ?entries)")
    using operating_entries by blast
  obtain rows2 where rows2: "small_universe_comparison small = Inr rows2" using small_rows by blast
  obtain rows3 where rows3: "sweep_section run = Inr (rows3,
     [scored_on run ''MarkingTheCloseDetector'' ''MarkingTheClose'' (rnd64 (4 / 10)) (un_executions (er_universes run))
        (positive_ids_for (un_executions (er_universes run)) Marking_The_Close_Pattern)])" (is "_ = Inr (_, ?marking)")
    using sweep_entries by blast
  obtain rows4 sweep ml where ml: "ml_section run = (rows4, sweep, ml)" by (metis prod_cases3)
  obtain gradient where gradient: "gradient_runs generate replay 0 gradient_severities = Some (gradient, None)"
    using assms by (auto simp: eval_main_def run small rows1 rows2 rows3 ml naive_comparison_def Let_def end_of_def
        split: option.splits sum.splits run_failure.splits)
  have "status = 0 \<and> report_json now run (?entries @ snd (naive_comparison run) @ ?marking @ ml) sweep gradient = Inr report"
    using assms by (auto simp: eval_main_def run small rows1 rows2 rows3 ml gradient naive_comparison_def Let_def
        split: sum.splits if_splits)
  moreover have "er_universes run = build_universes (er_simulation run)" using run by (auto simp: run_eval_iff)
  ultimately show ?thesis
    using ml_entries [of run] gradient_runs_exact [OF gradient] run
    by (intro exI [of _ run] exI [of _ gradient] exI [of _ "?entries @ snd (naive_comparison run) @ ?marking @ ml"] exI [of _ sweep])
      (simp add: Let_def scored_on_def matrix_in_def naive_comparison_def naive_matrix_def naive_name_def ml)
qed

section \<open>How the program ends\<close>

text \<open>The seven runs in the order of \<open>main\<close>, each with the label of its topic and its configuration.\<close>

definition gradient_labels :: "nat \<Rightarrow> double list \<Rightarrow> (string \<times> simulator_config) list" where
  "gradient_labels i severities =
     map (\<lambda>(n, severity). (''grad'' @ show_nat n, severity_gradient_config severity (5000 + of_nat n))) (enumerate i severities)"

definition eval_runs :: "double option \<Rightarrow> (string \<times> simulator_config) list" where
  "eval_runs env = (''main'', main_eval_config env) # (''basecmp'', baseline_comparison_config) #
     gradient_labels 0 gradient_severities"

text \<open>
  How the first run that does not finish ends: a simulator that does not return (\<open>None\<close>), an exception
  of the simulator or of the replay (\<open>Caught\<close>), or an exception of the replay's consumer thread
  (\<open>Killed\<close>).  When all finish there is none.
\<close>

fun first_failure ::
    "(simulator_config \<Rightarrow> (string + simulation_output) option) \<Rightarrow> (string \<Rightarrow> simulation_output \<Rightarrow> replay_outcome)
     \<Rightarrow> (string \<times> simulator_config) list \<Rightarrow> run_failure option option" where
  "first_failure generate replay [] = Some None"
| "first_failure generate replay ((label, config) # runs) =
     (case generate config of
        None \<Rightarrow> None
      | Some (Inl msg) \<Rightarrow> Some (Some Caught)
      | Some (Inr simulation) \<Rightarrow>
          (case replay label simulation of
             Finished result \<Rightarrow> first_failure generate replay runs
           | Thrown e \<Rightarrow> Some (Some Caught)
           | Terminated \<Rightarrow> Some (Some Killed)))"

lemma first_failure_run:
  "first_failure generate replay ((label, config) # runs) =
     (case run_eval generate (replay label) config of
        None \<Rightarrow> None
      | Some (Inl failure) \<Rightarrow> Some (Some failure)
      | Some (Inr run) \<Rightarrow> first_failure generate replay runs)"
  by (simp add: run_eval_def split: option.split sum.split replay_outcome.split)

lemma gradient_runs_end:
  "case first_failure generate replay (gradient_labels i severities) of
     None \<Rightarrow> gradient_runs generate replay i severities = None
   | Some failure \<Rightarrow> (\<exists>gs. gradient_runs generate replay i severities = Some (gs, failure))"
proof (induction severities arbitrary: i)
  case (Cons severity severities)
  let ?run = "run_eval generate (replay (''grad'' @ show_nat i)) (severity_gradient_config severity (5000 + of_nat i))"
  have first: "first_failure generate replay (gradient_labels i (severity # severities)) =
      (case ?run of None \<Rightarrow> None | Some (Inl failure) \<Rightarrow> Some (Some failure)
       | Some (Inr run) \<Rightarrow> first_failure generate replay (gradient_labels (Suc i) severities))"
    by (simp only: gradient_labels_def enumerate_simps list.map prod.case first_failure_run)
  show ?case
  proof (cases "\<exists>run. ?run = Some (Inr run)")
    case True
    then obtain run where run: "?run = Some (Inr run)" by blast
    obtain g where g: "gradient_entry run severity = Inr g" using gradient_entry_exact by blast
    show ?thesis
      using Cons.IH [of "Suc i"]
      by (cases "first_failure generate replay (gradient_labels (Suc i) severities)")
        (auto simp only: first gradient_runs.simps run g option.case sum.case list.map option.map apfst_conv)
  next
    case False
    then show ?thesis by (auto simp: first split: option.split sum.split)
  qed
qed (simp add: gradient_labels_def)

lemma eval_main_end:
  "case first_failure generate replay (eval_runs env) of
     None \<Rightarrow> eval_main generate replay env writable now args = None
   | Some (Some Caught) \<Rightarrow> (\<exists>out. eval_main generate replay env writable now args = Some (Returned 1 out None))
   | Some (Some Killed) \<Rightarrow> eval_main generate replay env writable now args = Some Aborted
   | Some None \<Rightarrow> (\<exists>out report. eval_main generate replay env writable now args =
       Some (if json_path_of args [] = [] then Returned 0 out None
             else if writable (json_path_of args []) then Returned 0 out (Some report)
             else Returned 1 out None))"
proof (cases "\<exists>run small. run_eval generate (replay ''main'') (main_eval_config env) = Some (Inr run) \<and>
    run_eval generate (replay ''basecmp'') baseline_comparison_config = Some (Inr small)")
  case False
  have sections: "operating_points run \<noteq> Inl e" for run e using operating_entries [of run] by auto
  show ?thesis
    using False sections
    unfolding eval_runs_def first_failure_run
    by (cases "run_eval generate (replay ''main'') (main_eval_config env)";
        cases "run_eval generate (replay ''basecmp'') baseline_comparison_config")
      (auto simp: eval_main_def end_of_def naive_comparison_def Let_def split: sum.splits run_failure.splits)
next
  case True
  then obtain run small where run: "run_eval generate (replay ''main'') (main_eval_config env) = Some (Inr run)"
    and small: "run_eval generate (replay ''basecmp'') baseline_comparison_config = Some (Inr small)" by blast
  have first: "first_failure generate replay (eval_runs env) = first_failure generate replay (gradient_labels 0 gradient_severities)"
    unfolding eval_runs_def first_failure_run by (simp add: run small)
  obtain rows1 entries1 where 1: "operating_points run = Inr (rows1, entries1)" using operating_entries by blast
  obtain rows2 where 2: "small_universe_comparison small = Inr rows2" using small_rows by blast
  obtain rows3 entries3 where 3: "sweep_section run = Inr (rows3, entries3)" using sweep_entries by blast
  obtain naive_rows naive_entries where naive: "naive_comparison run = (naive_rows, naive_entries)" by fastforce
  obtain ml_rows ml_sweep ml_entries where ml: "ml_section run = (ml_rows, ml_sweep, ml_entries)" by (metis prod_cases3)
  note known = eval_main_def run small 1 2 3 naive ml
  show ?thesis
  proof (cases "first_failure generate replay (gradient_labels 0 gradient_severities)")
    case None
    then show ?thesis using gradient_runs_end [of generate replay 0 gradient_severities] by (simp add: first known)
  next
    case (Some failure)
    then obtain gs where gs: "gradient_runs generate replay 0 gradient_severities = Some (gs, failure)"
      using gradient_runs_end [of generate replay 0 gradient_severities] by auto
    show ?thesis
    proof (cases failure)
      case None
      then obtain texts where "for_each severity_json gs = Inr texts" using gradient_runs_exact [of generate replay 0 gradient_severities gs] gs by auto
      then show ?thesis using gs None Some by (simp add: first known report_json_def)
    next
      case (Some f)
      then show ?thesis
        using gs \<open>first_failure generate replay (gradient_labels 0 gradient_severities) = Some failure\<close>
        by (cases f) (simp_all add: first known end_of_def)
    qed
  qed
qed

text \<open>
  C7: how the evaluation ends.  Whatever the simulator and the replay do, the first of the seven runs
  that does not finish decides: when its simulator does not return the program does not either, an exception is
  caught and the status is 1 with no file, and an exception on the replay's own thread aborts the process.
  When all seven finish, nothing in the sections of the report can throw: without \<open>--json\<close> the
  status is 0, with it the file is written and the status is 0, or 1 when it cannot be opened.
\<close>

theorem eval_program_ends:
  "case first_failure generate replay (eval_runs env) of
     None \<Rightarrow> eval_main generate replay env writable now args = None
   | Some (Some Caught) \<Rightarrow> (\<exists>out. eval_main generate replay env writable now args = Some (Returned 1 out None))
   | Some (Some Killed) \<Rightarrow> eval_main generate replay env writable now args = Some Aborted
   | Some None \<Rightarrow> (\<exists>out report. eval_main generate replay env writable now args =
       Some (if json_path_of args [] = [] then Returned 0 out None
             else if writable (json_path_of args []) then Returned 0 out (Some report)
             else Returned 1 out None))"
  by (rule eval_main_end)

text \<open>Each of the seven sessions that the simulator returns is replayed without a refused event.\<close>

lemma severities_proper: "severity \<in> set gradient_severities \<Longrightarrow> 0 \<le> severity \<and> severity \<le> 1"
proof -
  have "list_all (\<lambda>severity. 0 \<le> severity \<and> severity \<le> 1) gradient_severities"
    by (simp add: gradient_severities_def float_eval)
  then show "severity \<in> set gradient_severities \<Longrightarrow> 0 \<le> severity \<and> severity \<le> 1" by (simp only: list_all_iff)
qed

lemma eval_runs_configured: "list_all (\<lambda>(label, config). well_configured config) (eval_runs env)"
proof -
  have "well_configured (main_eval_config env)" "well_configured baseline_comparison_config"
    by (simp_all add: well_configured_def main_eval_config_def baseline_comparison_config_def patterns_of_def)
  moreover have "well_configured (severity_gradient_config severity seed)" if "severity \<in> set gradient_severities" for severity seed
    using severities_proper [OF that] by (simp add: well_configured_def severity_gradient_config_def patterns_of_def)
  ultimately show ?thesis
    by (auto simp: eval_runs_def gradient_labels_def list_all_iff in_set_enumerate_eq)
qed

theorem eval_sessions_clean:
  assumes "lawful_draws lib" and "(label, config) \<in> set (eval_runs env)"
    and "generate_simulation lib hash engine config = Some generated"
  shows "\<exists>simulation events. generated = Inr simulation \<and> to_ingestion_events simulation = Inr events \<and>
    length events = length (sim_orders simulation) + length (sim_executions simulation) \<and>
    rr_events_skipped_inconsistent (replay_answer iter clock simulation events) = 0"
proof -
  have "well_configured config" using eval_runs_configured [of env] assms(2) by (auto simp: list_all_iff)
  from session_replays_clean [OF assms(3,1) this] show ?thesis by blast
qed

text \<open>A replay that hands the consumer the session without a log.\<close>

definition quick_replay :: "string \<Rightarrow> simulation_output \<Rightarrow> replay_outcome" where
  "quick_replay label simulation =
     (case to_ingestion_events simulation of
        Inl oid \<Rightarrow> Thrown (Unknown_Order oid)
      | Inr events \<Rightarrow> Finished (replay_answer (\<lambda>xs. xs) (\<lambda>n. int n) simulation events))"

theorem eval_report_entries_witness:
  "\<exists>run gradient entries sweep report. run_eval (\<lambda>config. Some (Inr tied_simulation)) (quick_replay ''main'') (main_eval_config None) = Some (Inr run) \<and>
     report_json 0 run entries sweep gradient = Inr report \<and> map jg_severity gradient = gradient_severities"
proof -
  have "first_failure (\<lambda>config. Some (Inr tied_simulation)) quick_replay runs = Some None" for runs
    by (induction runs) (auto simp: quick_replay_def tied_stream)
  then obtain out report where "eval_main (\<lambda>config. Some (Inr tied_simulation)) quick_replay None (\<lambda>path. True) 0
     [''--json'', ''report.json''] = Some (Returned 0 out (Some report))"
    using eval_main_end [of "\<lambda>config. Some (Inr tied_simulation)" quick_replay None "\<lambda>path. True" 0 "[''--json'', ''report.json'']"]
    by fastforce
  from eval_report_entries [OF this] show ?thesis by blast
qed

section \<open>The numbers depend on the session and the service only\<close>

lemma confusion_matrix_mset:
  assumes "mset alerts = mset alerts'"
  shows "compute_confusion_matrix alerts = compute_confusion_matrix alerts'"
proof -
  have "set alerts = set alerts'" using assms by (rule mset_eq_setD)
  then show ?thesis by (simp add: compute_confusion_matrix_def predicted_ids_set fun_eq_iff)
qed

lemma ml_confusion_matrix_mset:
  assumes "mset alerts = mset alerts'"
  shows "compute_ml_anomaly_confusion_matrix alerts = compute_ml_anomaly_confusion_matrix alerts'"
proof -
  have "count_ml_alert t truth d a \<circ> count_ml_alert t truth d b = count_ml_alert t truth d b \<circ> count_ml_alert t truth d a" for t truth d a b
    by (simp add: fun_eq_iff count_ml_alert_def Let_def)
  then have "fold (count_ml_alert t truth d) alerts = fold (count_ml_alert t truth d) alerts'" for t truth d
    by (intro fold_multiset_equiv [OF _ assms])
  then show ?thesis by (simp add: compute_ml_anomaly_confusion_matrix_def fun_eq_iff)
qed

text \<open>What a run feeds into the report.\<close>

definition run_of :: "simulation_output \<Rightarrow> replay_result \<Rightarrow> eval_run" where
  "run_of simulation result = \<lparr>er_simulation = simulation, er_replay = result, er_universes = build_universes simulation\<rparr>"

lemma sections_mset:
  assumes "mset (rr_alerts r1) = mset (rr_alerts r2)"
  shows "operating_points (run_of simulation r1) = operating_points (run_of simulation r2)"
    and "naive_comparison (run_of simulation r1) = naive_comparison (run_of simulation r2)"
    and "small_universe_comparison (run_of simulation r1) = small_universe_comparison (run_of simulation r2)"
    and "sweep_section (run_of simulation r1) = sweep_section (run_of simulation r2)"
    and "ml_section (run_of simulation r1) = ml_section (run_of simulation r2)"
    and "scored_row (run_of simulation r1) = scored_row (run_of simulation r2)"
    and "gradient_entry (run_of simulation r1) = gradient_entry (run_of simulation r2)"
proof -
  have u: "universe_for (run_of simulation r1) = universe_for (run_of simulation r2)"
    by (simp add: universe_for_def run_of_def fun_eq_iff)
  have m: "matrix_in (run_of simulation r1) = matrix_in (run_of simulation r2)"
    using confusion_matrix_mset [OF assms] by (simp add: matrix_in_def run_of_def fun_eq_iff)
  have n: "naive_matrix (run_of simulation r1) = naive_matrix (run_of simulation r2)"
    unfolding naive_matrix_def m by (simp add: run_of_def)
  show "operating_points (run_of simulation r1) = operating_points (run_of simulation r2)"
    unfolding operating_points_def u m ..
  show "naive_comparison (run_of simulation r1) = naive_comparison (run_of simulation r2)"
    unfolding naive_comparison_def n by (simp add: run_of_def)
  show "small_universe_comparison (run_of simulation r1) = small_universe_comparison (run_of simulation r2)"
    unfolding small_universe_comparison_def u m n by (simp add: run_of_def)
  show "sweep_section (run_of simulation r1) = sweep_section (run_of simulation r2)"
    unfolding sweep_section_def u threshold_sweep_def
    by (simp only: run_of_def eval_run.simps confusion_matrix_mset [OF assms])
  have "mset (filter P (rr_alerts r1)) = mset (filter P (rr_alerts r2))" for P using assms by simp
  then have f: "length (filter P (rr_alerts r1)) = length (filter P (rr_alerts r2))" for P by (rule mset_eq_length)
  then have empty: "filter P (rr_alerts r1) = [] \<longleftrightarrow> filter P (rr_alerts r2) = []" for P by (metis length_0_conv)
  show "ml_section (run_of simulation r1) = ml_section (run_of simulation r2)"
    unfolding ml_section_def Let_def ml_anomaly_threshold_sweep_def
    by (simp only: run_of_def eval_run.simps ml_confusion_matrix_mset [OF assms] empty)
  show "scored_row (run_of simulation r1) = scored_row (run_of simulation r2)" by (simp add: scored_row_def run_of_def f)
  show "gradient_entry (run_of simulation r1) = gradient_entry (run_of simulation r2)"
    unfolding gradient_entry_def u m by (simp add: fun_eq_iff)
qed

text \<open>
  C9: the report is reproducible.  Take a session of at most \<open>2^62\<close> events that all survive the encoding, two
  brokers that each return its topic's messages in order, with misses wherever they like, and the
  same answers of the scoring service.  Two replays that finish give the same rows, the same entries of the JSON
  file and the same counts, whatever the clocks, the health checks and the interleavings of the threads.
\<close>

theorem eval_deterministic:
  assumes "ml_replay_through_kafka iter clock healthy post keys simulation produced flushed subscribed consumed (Finished r1)"
    and "ml_replay_through_kafka iter clock' healthy' post keys simulation produced' flushed' subscribed' consumed' (Finished r2)"
    and "to_ingestion_events simulation = Inr events" and "list_all encodable events" and "length events \<le> 2 ^ 62"
    and "broker_reads (map encode events) consumed" and "broker_reads (map encode events) consumed'"
  shows "operating_points (run_of simulation r1) = operating_points (run_of simulation r2) \<and>
    naive_comparison (run_of simulation r1) = naive_comparison (run_of simulation r2) \<and>
    sweep_section (run_of simulation r1) = sweep_section (run_of simulation r2) \<and>
    ml_section (run_of simulation r1) = ml_section (run_of simulation r2) \<and>
    integrity_json (run_of simulation r1) = integrity_json (run_of simulation r2)"
proof -
  note e1 = ml_replay_finished [OF assms(1,3-6)] and e2 = ml_replay_finished [OF assms(2,3-5,7)]
  have "mset (rr_alerts (replay_answer iter clock simulation events)) = mset (rr_alerts (replay_answer iter clock' simulation events))"
    by (simp only: replay_answer_alerts)
  then have same: "mset (rr_alerts r1) = mset (rr_alerts r2)" using e1(1) e2(1) by simp
  have "integrity_json (run_of simulation r1) = integrity_json (run_of simulation r2)"
    by (subst e1(2), subst e2(2)) (simp add: integrity_json_def run_of_def replay_answer_def Let_def)
  then show ?thesis using sections_mset [OF same] by blast
qed

lemma tied_replays:
  "\<exists>result. ml_replay_through_kafka (\<lambda>xs. xs) clock (\<lambda>path. Response 200 []) friendly_post (\<lambda>n. []) tied_simulation
     [Produced, Produced, Produced] True True (replicate n Timed_Out @ map (\<lambda>e. Message (encode e)) tied_events) (Finished result)"
  if "n < 10"
proof -
  have "\<exists>topic. publish_events [Produced, Produced, Produced] tied_events [] = Some (Inr topic)"
    by (simp add: tied_events_def publish_def)
  moreover have "decode (encode e) = Inr e" if "e \<in> set tied_events" for e
    using event_codec.dec_log [OF tied_encodable] that by auto
  then have from_here: "m < 10 \<Longrightarrow> poll_topic (length tied_events) 0 m (map (\<lambda>e. Message (encode e)) tied_events) = Some (tied_events, None)" for m
    by (simp add: tied_events_def poll_def)
  have "m + n < 10 \<Longrightarrow> poll_topic (length tied_events) 0 m (replicate n Timed_Out @ map (\<lambda>e. Message (encode e)) tied_events) =
      Some (tied_events, None)" for m n
  proof (induction n arbitrary: m)
    case (Suc n)
    then show ?case using Suc.IH [of "Suc m"] by (simp add: poll_def tied_events_def)
  qed (simp add: from_here)
  from this [of 0 n] that have "poll_topic (length tied_events) 0 0 (replicate n Timed_Out @ map (\<lambda>e. Message (encode e)) tied_events) =
      Some (tied_events, None)" by simp
  moreover have "length tied_events \<le> 2 ^ 62" "health_check (\<lambda>path. Response 200 [])"
    by (simp_all add: tied_events_def health_check_def)
  ultimately show ?thesis using ml_replay_can_finish [OF tied_stream] by blast
qed

theorem eval_deterministic_witness:
  "\<exists>r1 r2. ml_replay_through_kafka (\<lambda>xs. xs) (\<lambda>n. int n) (\<lambda>path. Response 200 []) friendly_post (\<lambda>n. []) tied_simulation
      [Produced, Produced, Produced] True True (map (\<lambda>e. Message (encode e)) tied_events) (Finished r1) \<and>
    ml_replay_through_kafka (\<lambda>xs. xs) (\<lambda>n. 0) (\<lambda>path. Response 200 []) friendly_post (\<lambda>n. []) tied_simulation
      [Produced, Produced, Produced] True True (Timed_Out # map (\<lambda>e. Message (encode e)) tied_events) (Finished r2) \<and>
    operating_points (run_of tied_simulation r1) = operating_points (run_of tied_simulation r2)"
proof -
  obtain r1 r2 where runs: "ml_replay_through_kafka (\<lambda>xs. xs) (\<lambda>n. int n) (\<lambda>path. Response 200 []) friendly_post (\<lambda>n. []) tied_simulation
      [Produced, Produced, Produced] True True (map (\<lambda>e. Message (encode e)) tied_events) (Finished r1)"
    "ml_replay_through_kafka (\<lambda>xs. xs) (\<lambda>n. 0) (\<lambda>path. Response 200 []) friendly_post (\<lambda>n. []) tied_simulation
      [Produced, Produced, Produced] True True (Timed_Out # map (\<lambda>e. Message (encode e)) tied_events) (Finished r2)"
    using tied_replays [of 0 "\<lambda>n. int n"] tied_replays [of 1 "\<lambda>n. 0"] by auto
  have "length tied_events \<le> 2 ^ 62" "broker_reads (map encode tied_events) (map (\<lambda>e. Message (encode e)) tied_events)"
    "broker_reads (map encode tied_events) (Timed_Out # map (\<lambda>e. Message (encode e)) tied_events)"
    by (simp_all add: broker_reads_def tied_events_def)
  from eval_deterministic [OF runs tied_stream tied_encodable this] runs show ?thesis by blast
qed

end
