(* ===== verification/Programs.thy ===== *)
theory Programs
  imports Eval_Program Sarao_Validation Csv_Writer Fix_Writer Api_Server
begin

text \<open>
  The two other programs: \<open>cpp/harness/sarao_validation_main.cpp\<close>, which replays the documented case
  and reports what the spoofing detector made of it, and \<open>cpp/simulator/main.cpp\<close>, which
  prints a session in one of three formats.  Headings of the output are left out.
\<close>

section \<open>The validation of the documented case\<close>

definition fired_row :: "alert \<Rightarrow> string" where
  "fired_row a =
     ''  FIRED: score='' @ show_fixed 4 (al_score a) @ '' account='' @
     (case al_account_ids a of [] \<Rightarrow> ''?'' | account # _ \<Rightarrow> account) @ '' order_ids=['' @
     concat (map (\<lambda>oid. oid @ '','') (al_order_ids a)) @ '']'' @ [CHR 0x0A] @
     ''    evidence='' @ al_evidence a @ [CHR 0x0A]"

definition sarao_integrity_row :: "simulation_output \<Rightarrow> replay_result \<Rightarrow> string" where
  "sarao_integrity_row simulation result =
     ''  orders='' @ show_nat (length (sim_orders simulation)) @ '' executions='' @ show_nat (length (sim_executions simulation)) @
     '' published='' @ json_uint (rr_events_total result) @ '' replayed='' @ json_uint (rr_events_replayed_from_kafka result) @
     '' processed='' @ json_uint (rr_events_processed result) @
     '' skipped_inconsistent='' @ json_uint (rr_events_skipped_inconsistent result) @
     '' dropped='' @ json_uint (rr_ring_buffer_dropped result) @ [CHR 0x0A, CHR 0x0A]"

definition sarao_result_row :: "int \<Rightarrow> int \<Rightarrow> double \<Rightarrow> string" where
  "sarao_result_row fired cancels max_score =
     (if 0 < fired
      then ''SpoofingLayeringDetector FIRED '' @ show_int fired @ '' time(s) against the Sarao layering pattern (of '' @
        show_int cancels @ '' cancel opportunities), max score='' @ show_fixed 4 max_score @
        '' (alert_threshold default='' @ show_fixed 1 (rnd64 (6 / 10)) @ '')'' @ [CHR 0x0A]
      else ''SpoofingLayeringDetector DID NOT FIRE against the Sarao layering pattern as constructed.'' @ [CHR 0x0A])"

definition json_bool :: "bool \<Rightarrow> string" where
  "json_bool b = (if b then ''true'' else ''false'')"

definition sarao_json :: "int \<Rightarrow> int \<Rightarrow> int \<Rightarrow> double \<Rightarrow> simulation_output \<Rightarrow> replay_result \<Rightarrow> string" where
  "sarao_json now fired cancels max_score simulation result =
     json_object
       [(''generated_at_unix_ns'', show_int now), (''fired_count'', show_int fired),
        (''total_cancel_opportunities'', show_int cancels), (''max_score'', json_number (Some max_score)),
        (''alert_threshold'', json_number (Some (rnd64 (6 / 10)))), (''fired_cleanly'', json_bool (0 < fired)),
        (''replay_integrity'', json_object
          [(''orders'', json_int64 (of_nat (length (sim_orders simulation)))),
           (''executions'', json_int64 (of_nat (length (sim_executions simulation)))),
           (''published'', json_int64 (rr_events_total result)),
           (''replayed'', json_int64 (rr_events_replayed_from_kafka result)),
           (''processed'', json_int64 (rr_events_processed result)),
           (''skipped_inconsistent'', json_int64 (rr_events_skipped_inconsistent result)),
           (''dropped'', json_int64 (rr_ring_buffer_dropped result))])]"

definition sarao_main :: "(simulation_output \<Rightarrow> replay_outcome) \<Rightarrow> (string \<Rightarrow> bool) \<Rightarrow> int \<Rightarrow> string list \<Rightarrow> program_end" where
  "sarao_main replay writable now args =
     (let path = json_path_of args []; simulation = sarao_simulation sarao_default_anchor_ns
      in case replay simulation of
           Thrown e \<Rightarrow> Returned 1 [] None
         | Terminated \<Rightarrow> Aborted
         | Finished result \<Rightarrow>
             let found = spoofing_alerts result; fired = int (length found); max_score = max_spoofing_score result;
                 cancels = count_cancels simulation;
                 out = sarao_integrity_row simulation result @ concat (map fired_row found) @ sarao_result_row fired cancels max_score
             in if path = [] then Returned 0 out None
                else if writable path then Returned 0 out (Some (sarao_json now fired cancels max_score simulation result))
                else Returned 1 out None)"

section \<open>The generator\<close>

text \<open>Why the arguments are refused: \<open>print_usage\<close>, or an exception of a conversion, which nobody catches.\<close>

datatype bad_arguments = Usage | Conversion number_error

record generator_arguments =
  ga_severity :: double
  ga_format :: string
  ga_seed :: u64

definition default_arguments :: generator_arguments where
  "default_arguments = \<lparr>ga_severity = 1 / 2, ga_format = ''json'', ga_seed = 42\<rparr>"

text \<open>\<open>std::stoull\<close> reads as \<open>std::stoul\<close> does, whose values have the same width.\<close>

fun generator_args :: "string list \<Rightarrow> generator_arguments \<Rightarrow> bad_arguments + generator_arguments" where
  "generator_args [] given = Inr given"
| "generator_args [arg] given = Inl Usage"
| "generator_args (arg # value # rest) given =
     (if arg = ''--severity''
      then (case stod value of Inl e \<Rightarrow> Inl (Conversion e) | Inr v \<Rightarrow> generator_args rest (given\<lparr>ga_severity := v\<rparr>))
      else if arg = ''--format'' then generator_args rest (given\<lparr>ga_format := value\<rparr>)
      else if arg = ''--seed''
      then (case stoul value of Inl e \<Rightarrow> Inl (Conversion e) | Inr v \<Rightarrow> generator_args rest (given\<lparr>ga_seed := v\<rparr>))
      else Inl Usage)"

definition generator_config :: "generator_arguments \<Rightarrow> simulator_config" where
  "generator_config given =
     (let p = \<lparr>ap_count = 2, ap_severity = ga_severity given\<rparr>
      in \<lparr>sg_random_seed = ga_seed given, sg_session_start_ns = 0, sg_session_duration_ns = 300 * 1000000000,
          sg_num_equity_instruments = 3, sg_num_fx_instruments = 2, sg_num_fixed_income_instruments = 2,
          sg_baseline_orders_per_second = 2, sg_num_independent_accounts = 40, sg_num_linked_account_pairs = 8,
          sg_wash_trade = p, sg_spoofing_layering = p, sg_marking_the_close = p, sg_front_running = p\<rparr>)"

definition generator_output :: "string \<Rightarrow> simulation_output \<Rightarrow> string option" where
  "generator_output wanted simulation =
     (if wanted = ''json'' then Some (to_labeled_json (sim_orders simulation) (sim_executions simulation) @ [CHR 0x0A])
      else if wanted = ''csv'' then Some (orders_to_csv (sim_orders simulation) @ executions_to_csv (sim_executions simulation))
      else if wanted = ''fix''
      then Some (concat (map (\<lambda>message. message @ [CHR 0x0A]) (to_fix_messages (sim_orders simulation) (sim_executions simulation))))
      else None)"

definition generator_main ::
    "(simulator_config \<Rightarrow> (string + simulation_output) option) \<Rightarrow> string list \<Rightarrow> program_end option" where
  "generator_main generate args =
     (case generator_args args default_arguments of
        Inl Usage \<Rightarrow> Some (Returned 1 [] None)
      | Inl (Conversion e) \<Rightarrow> Some Aborted
      | Inr given \<Rightarrow>
          map_option (\<lambda>generated. case generated of
              Inl msg \<Rightarrow> Aborted
            | Inr simulation \<Rightarrow> (case generator_output (ga_format given) simulation of
                None \<Rightarrow> Returned 1 [] None | Some out \<Rightarrow> Returned 0 out None))
            (generate (generator_config given)))"

section \<open>Properties\<close>

text \<open>
  The validation reports what the documented case comes to: 25 alerts for 25 cancellations, nothing
  refused, and \<open>fired_cleanly\<close>.
\<close>

theorem sarao_program_fires:
  assumes "replay (sarao_simulation sarao_default_anchor_ns) =
      Finished (replay_answer iter clock (sarao_simulation sarao_default_anchor_ns)
        (map order_event (sim_orders (sarao_simulation sarao_default_anchor_ns))))"
    and "json_path_of args [] \<noteq> []" and "writable (json_path_of args [])"
  shows "\<exists>out result. sarao_main replay writable now args =
      Returned 0 out (Some (sarao_json now 25 25 (max_spoofing_score result) (sarao_simulation sarao_default_anchor_ns) result)) \<and>
    rr_events_skipped_inconsistent result = 0 \<and> rr_ring_buffer_dropped result = 0"
proof -
  let ?sim = "sarao_simulation sarao_default_anchor_ns"
  let ?result = "replay_answer iter clock ?sim (map order_event (sim_orders ?sim))"
  note case_facts = sarao_case_replayed [where iter = iter and clock = clock and anchor = sarao_default_anchor_ns, unfolded Let_def]
  have "length (spoofing_alerts ?result) = 25"
    using case_facts by (auto simp: count_cancels_def dest!: arg_cong [where f = length])
  moreover have "rr_ring_buffer_dropped ?result = 0" by (simp add: replay_answer_def Let_def)
  ultimately show ?thesis
    using assms(2,3) case_facts by (intro exI [where x = ?result] exI conjI) (simp_all add: sarao_main_def assms(1) Let_def)
qed

text \<open>
  The generator accepts any severity: what it is given goes into the configuration as it is, also
  outside the range from 0 to 1 that its usage line states.
\<close>

theorem generator_severity_unchecked:
  "generator_args [''--severity'', value, ''--seed'', seed] default_arguments =
     (case stod value of
        Inl e \<Rightarrow> Inl (Conversion e)
      | Inr v \<Rightarrow> (case stoul seed of Inl e \<Rightarrow> Inl (Conversion e)
          | Inr n \<Rightarrow> Inr \<lparr>ga_severity = v, ga_format = ''json'', ga_seed = n\<rparr>))"
  by (simp add: default_arguments_def split: sum.split)

text \<open>
  Without an exception of the simulator, the arguments alone decide how the generator
  ends, and a session is printed in the format asked for.
\<close>

theorem generator_ends:
  assumes "generate (generator_config given) = Some (Inr simulation)" and "generator_args args default_arguments = Inr given"
  shows "generator_main generate args = Some (case generator_output (ga_format given) simulation of
      None \<Rightarrow> Returned 1 [] None | Some out \<Rightarrow> Returned 0 out None) \<and>
    (generator_output (ga_format given) simulation = None \<longleftrightarrow> ga_format given \<notin> {''json'', ''csv'', ''fix''})"
  using assms by (simp add: generator_main_def generator_output_def)

end
