(* ===== verification/Demo_Server.thy ===== *)
theory Demo_Server
  imports Fix_Application Api_Properties Ml_Replay Clean_Replay
begin

text \<open>
  \<open>cpp/api/main.cpp\<close>: the demonstration server.  A feeder sends one generated session after
  another, all at the same place in time, through a FIX session into the pipeline that the API reads
  from.  \<open>std::sort\<close> leaves the order of equal times open and is a parameter; the sleeps, the
  sockets of QuickFIX and the HTTP server are not modelled; the routes are in \<open>Api_Server\<close>.  \<open>to_fix_order\<close>, \<open>to_fix_execution\<close> and
  \<open>to_entity\<close> repeat those of the replay, which are used.
\<close>

section \<open>The code\<close>

definition demo_session_config :: "u64 \<Rightarrow> int \<Rightarrow> simulator_config" where
  "demo_session_config seed session_start_ns =
     (let p = \<lparr>ap_count = 1, ap_severity = rnd64 (6 / 10)\<rparr>
      in \<lparr>sg_random_seed = seed, sg_session_start_ns = session_start_ns, sg_session_duration_ns = 90000000000,
          sg_num_equity_instruments = 2, sg_num_fx_instruments = 1, sg_num_fixed_income_instruments = 0,
          sg_baseline_orders_per_second = 6, sg_num_independent_accounts = 12, sg_num_linked_account_pairs = 3,
          sg_wash_trade = p, sg_spoofing_layering = p, sg_marking_the_close = p, sg_front_running = p\<rparr>)"

definition make_six_detectors :: "iteration \<Rightarrow> simulation_output \<Rightarrow> any_detector list" where
  "make_six_detectors iter simulation =
     [Wash_Trade_Detector,
      Spoofing_Layering_Detector default_spoofing_layering_config empty_spoofing_state,
      Marking_The_Close_Detector iter
        (default_marking_config (fold (\<lambda>i m. m(i_instrument_id i \<mapsto> i_session_close_ns i)) (sim_instruments simulation) Map.empty))
        empty_marking_state,
      Front_Running_Detector default_front_running_config Map.empty,
      Statistical_Baseline_Detector default_statistical_baseline_config Map.empty,
      Ml_Anomaly_Detector default_ml_config empty_ml_state]"

text \<open>What is sent for an item, if anything; \<open>std::out_of_range\<close> of \<open>at\<close> is \<open>Inl\<close>.\<close>

definition feed_message :: "'m fix_library \<Rightarrow> simulation_output \<Rightarrow> (string \<rightharpoonup> side) \<Rightarrow> replay_item \<Rightarrow> string + 'm option" where
  "feed_message lib simulation sides item =
     (if \<not> it_is_execution item
      then let order = sim_orders simulation ! it_index item; fix_order = to_fix_order order
           in (case so_status order of
                 SNew \<Rightarrow> Inr (Some (to_new_order_single lib fix_order))
               | SCancelled \<Rightarrow> Inr (Some (to_order_cancel_request lib fix_order))
               | SReplaced \<Rightarrow> Inr None)
      else let x = sim_executions simulation ! it_index item
           in (case sides (sx_order_id x) of
                 None \<Rightarrow> Inl (sx_order_id x)
               | Some side \<Rightarrow> Inr (Some (to_execution_report lib (to_fix_execution x side)))))"

text \<open>The messages sent, and the exception that ends the feeder, if one does.\<close>

fun feed_items :: "'m fix_library \<Rightarrow> simulation_output \<Rightarrow> (string \<rightharpoonup> side) \<Rightarrow> replay_item list \<Rightarrow> 'm list \<times> string option" where
  "feed_items lib simulation sides [] = ([], None)"
| "feed_items lib simulation sides (item # items) =
     (case feed_message lib simulation sides item of
        Inl e \<Rightarrow> ([], Some e)
      | Inr sent \<Rightarrow> apfst ((@) (case sent of None \<Rightarrow> [] | Some m \<Rightarrow> [m])) (feed_items lib simulation sides items))"

definition feed_one_session ::
    "'m fix_library \<Rightarrow> (replay_item list \<Rightarrow> replay_item list) \<Rightarrow> (simulator_config \<Rightarrow> (string + simulation_output) option)
     \<Rightarrow> u64 \<Rightarrow> int \<Rightarrow> ('m list \<times> string option) option" where
  "feed_one_session lib arrange generate seed session_start_ns =
     map_option (\<lambda>generated. case generated of
         Inl msg \<Rightarrow> ([], Some msg)
       | Inr simulation \<Rightarrow>
           feed_items lib simulation (side_by_order_id (sim_orders simulation)) (arrange (replay_items simulation)))
       (generate (demo_session_config seed session_start_ns))"

text \<open>The feeder's loop, for a number of sessions.\<close>

fun feed_sessions ::
    "'m fix_library \<Rightarrow> (replay_item list \<Rightarrow> replay_item list) \<Rightarrow> (simulator_config \<Rightarrow> (string + simulation_output) option)
     \<Rightarrow> nat \<Rightarrow> u64 \<Rightarrow> int \<Rightarrow> ('m list \<times> string option) option" where
  "feed_sessions lib arrange generate 0 seed session_start_ns = Some ([], None)"
| "feed_sessions lib arrange generate (Suc n) seed session_start_ns =
     (case feed_one_session lib arrange generate seed session_start_ns of
        None \<Rightarrow> None
      | Some (ms, Some e) \<Rightarrow> Some (ms, Some e)
      | Some (ms, None) \<Rightarrow> map_option (apfst ((@) ms)) (feed_sessions lib arrange generate n (seed + 1) session_start_ns))"



section \<open>Every session has the same accounts and instruments\<close>

lemma make_six_eq: "make_six_detectors iter simulation = six_detectors iter simulation"
  by (simp add: make_six_detectors_def six_detectors_def make_five_detectors_def)

lemma generated_reference_data:
  "generate_simulation lib hash engine config = Some (Inr simulation) \<Longrightarrow>
     sim_accounts simulation = sr_accounts (registry_of config) \<and> sim_instruments simulation = instruments_of config"
  by (auto simp: generate_simulation_def Let_def split_beta split: option.splits) (auto simp: map_sum_def split: sum.splits)

text \<open>
  The throwaway session speaks for all.  The accounts, and so who is related to whom, and the
  closing times with which the server sets its detectors up come from a session that is never
  sent; every session that is sent has the same ones, whatever its seed.
\<close>

theorem demo_reference_data:
  assumes "generate_simulation lib hash engine (demo_session_config seed anchor) = Some (Inr simulation)"
    and "generate_simulation lib hash engine (demo_session_config seed' anchor) = Some (Inr simulation')"
  shows "sim_accounts simulation = sim_accounts simulation' \<and> registered_accounts simulation = registered_accounts simulation' \<and>
    make_six_detectors iter simulation = make_six_detectors iter simulation'"
proof -
  have "registry_of (demo_session_config seed anchor) = registry_of (demo_session_config seed' anchor)"
    "instruments_of (demo_session_config seed anchor) = instruments_of (demo_session_config seed' anchor)"
    by (simp_all add: registry_of_def instruments_of_def demo_session_config_def Let_def)
  then have "sim_accounts simulation = sim_accounts simulation'" "sim_instruments simulation = sim_instruments simulation'"
    using assms [THEN generated_reference_data] by simp_all
  then show ?thesis by (simp add: registered_accounts_def make_six_detectors_def)
qed

section \<open>A session in any order of time\<close>





section \<open>What arrives\<close>






section \<open>What is sent\<close>












section \<open>Properties\<close>



text \<open>The sessions that the simulator returns are of this kind.\<close>

theorem demo_sessions_tidy:
  assumes "generate_simulation draws hash engine (demo_session_config seed anchor) = Some generated" and "lawful_draws draws"
  shows "\<exists>simulation b. generated = Inr simulation \<and>
    tidy ''ORD'' 1 b (sim_orders simulation) (sim_executions simulation)"
proof -
  let ?config = "demo_session_config seed anchor"
  have ready: "well_configured ?config"
    by (simp add: well_configured_def demo_session_config_def Let_def float_eval)
  obtain flow where "generate_baseline_flow draws hash (sg_baseline_orders_per_second ?config) (sg_session_start_ns ?config)
      (sg_session_start_ns ?config + sg_session_duration_ns ?config) (instruments_of ?config)
      (sr_accounts (registry_of ?config)) (first_state engine ?config) = Some flow"
    by (rule generated_flow [OF assms(1)])
  from generate_simulation_session [OF assms(2) ready this] show ?thesis using session_tidy assms(1) by fastforce
qed

text \<open>
  What is not checked is that the sessions share the server's books but restart the order ids: a new order whose
  id an untouched order of an earlier session still has on that book is refused.
\<close>

theorem repeated_id_refused:
  assumes "list_all no_replacement (es @ [OrderEvent later])" and "distinct (map order_id_of (filter is_new es))"
    and "OrderEvent order \<in> set es" and "o_status order = KNew" and "list_all (untouched (o_order_id order)) es"
    and "o_status later = KNew" and "o_order_id later = o_order_id order" and "o_instrument_id later = o_instrument_id order"
  shows "\<not> accepts es (OrderEvent later)"
proof -
  have "spec_find (o_order_id order) (resting_list es (o_instrument_id order)) = Some (spec_entry order)"
    using assms(1-5) by (intro untouched_rests) simp_all
  then show ?thesis
    using assms(6-8) by (simp add: accepts_resting [OF assms(1)] spec_new_def spec_find_None [symmetric])
qed

end
