(* ===== verification/Spec2Isabelle.thy ===== *)
theory Spec2Isabelle
  imports Prelude Float64 Fix_Types Order_Book Book_Invariant Book_Spec Book_Priority
    Book_Properties Account_Registry Detector Wash_Trade Front_Running Statistical_Baseline
    Spoofing_Layering Account_Groups Marking_The_Close Ring_Buffer Ring_Properties Decimal Event_Codec Kafka_Log Ml_Client
    Ring_Queue Consumer_Loop Live_Pipeline Pipeline_Properties Consumer_Properties
    Sim_Types Labeled_Json Fixed_Decimal Csv_Writer Fix_Writer Evaluation Message_Translator Fix_Application
    Book_Registry Replay Replay_Stream Replay_Properties
    Random_Draws Tidy_Output Pair_Scenarios Spoofing_Scenario Marking_Scenario Sim_Registry Baseline_Flow Simulator
    Clean_Replay Sarao_Case Sarao_Detection Sarao_Validation
    Alert_Store Store_Properties Api_Server Api_Properties
    Kafka_Clients Ml_Replay Eval_Program Eval_Properties Programs Demo_Server
begin

text \<open>
  The trade surveillance engine (\<open>src/cpp\<close>) receives orders and executions over FIX, keeps an order
  book per instrument, and runs detectors of market abuse over the stream.  This development
  models its C++ code and proves what each part promises and what the parts promise together.

  How the parts interact.  A FIX session is translated to \<open>Order\<close> and \<open>Execution\<close> values and handed
  to an event sink, which writes each event to Kafka and pushes it into a lock-free ring buffer.
  A consumer thread pops events and gives them to the live pipeline: the book of the event's
  instrument applies it, and unless the book refuses it every detector sees the event with the
  new book.  The ML detector submits windows to a worker thread with a ring buffer of its own.
  The API reads books and recent messages between two events.  The evaluation harness
  replays a simulation through the same path and compares the alerts with the ground truth.

  Common ground
  \<^item> \<open>Prelude\<close>: ordered maps as sorted association lists (the contract of \<open>std::map\<close> is the locale
    \<open>ordered_map\<close>), decimal numerals, folds that may fail.
  \<^item> \<open>Float64\<close>: binary64 values as rational numbers, each operation rounded to nearest even.
    Infinities, NaN and overflow are not modelled; the theorems that need it bound their values.
  \<^item> \<open>Decimal\<close>, \<open>Fixed_Decimal\<close>: \<open>std::stod\<close>, \<open>std::stoll\<close> and the two formats the code prints with,
    with the theorem that 17 significant digits read back exactly.
  \<^item> \<open>Fix_Types\<close>: \<open>fix/types.hpp\<close> and \<open>.cpp\<close>.  \<open>int64_t\<close> values are integers (signed overflow has no
    meaning in C++); counters and sizes that wrap are \<open>64 word\<close>.

  The order book (\<open>orderbook/\<close>)
  \<^item> \<open>Order_Book\<close>: the operations, with the list iterators of the index as node addresses, so that a
    dangling iterator is a possible outcome.  \<open>Book_Invariant\<close>: index and levels agree, so it is not.
  \<^item> \<open>Book_Spec\<close>: an abstract book, a list of resting orders in arrival order, and the proof
    that every operation refines it.  \<open>Book_Priority\<close>, \<open>Book_Properties\<close>: time priority, best prices,
    snapshots, execution quantities, and the behaviour of colliding ids.

  The detectors (\<open>detectors/\<close>)
  \<^item> \<open>Account_Registry\<close>, \<open>Detector\<close>: entities and their relation; the alert and the contract of the
    interface, a locale that all six detectors interpret.
  \<^item> \<open>Wash_Trade\<close>, \<open>Front_Running\<close>, \<open>Statistical_Baseline\<close>, \<open>Spoofing_Layering\<close>: the state,
    the handlers, and when exactly they raise an alert.
  \<^item> \<open>Account_Groups\<close>, \<open>Marking_The_Close\<close>: the union-find of related accounts, whose recursion is a
    partial function shown to return in every reachable state, and the closing window.

  Concurrency (\<open>ingestion/spsc_ring_buffer.hpp\<close>)
  \<^item> \<open>Ring_Buffer\<close>: one step per access to shared memory, of a producer and a consumer that
    interleave in any order; sequentially consistent, compare-and-swap may fail spuriously.
    Every acquire and release of the code orders at least what the proofs use of it;
    weaker behaviours of the relaxed accesses are not modelled.
  \<^item> \<open>Ring_Properties\<close>: no data race on a cell, order, and the account of every item, while fewer than
    \<open>2^64\<close> positions have been used.
  \<^item> \<open>Ring_Queue\<close>: one call run alone, eleven steps at most for \<open>push\<close> and six for \<open>pop\<close>, implements
    the locale \<open>drop_oldest_queue\<close>.  \<open>Consumer_Loop\<close>: the loop of the consumers over any such queue,
    its invariant, its termination and when it drops nothing, proved in that locale.

  The pipeline (\<open>pipeline/\<close>, \<open>ml_client/\<close>, \<open>ingestion/\<close>, \<open>fix/\<close>)
  \<^item> \<open>Event_Codec\<close>: the JSON of an event, round trip and errors.  \<open>Kafka_Log\<close>: publish and poll around it.
  \<^item> \<open>Ml_Client\<close>: windows, requests, responses and the worker.  The HTTP library is a function from
    the request to its answer.
  \<^item> \<open>Live_Pipeline\<close>, \<open>Pipeline_Properties\<close>, \<open>Consumer_Properties\<close>: routing, detectors, the consumer.
    Books and detectors behave as if each ran alone; the consumer handles or drops everything.
  \<^item> \<open>Message_Translator\<close>, \<open>Fix_Application\<close>: the FIX fields and the session callbacks.  QuickFIX's
    message is a parameter \<open>fix_library\<close> with the laws \<open>lawful\<close> of reading what was set, in which a
    floating-point field goes through a decimal text of fifteen digits (\<open>wire\<close>); a map of tags satisfies
    them.  Quantities below \<open>10^15\<close> arrive exactly, prices as that text is read.

  API, harness and simulator (\<open>api/\<close>, \<open>harness/\<close>, \<open>simulator/\<close>)
  \<^item> \<open>Book_Registry\<close>: the API's consumer and what its readers see.
  \<^item> \<open>Alert_Store\<close>, \<open>Store_Properties\<close>: \<open>db/\<close>.  The SQL statements act on lists of rows; how the server reads
    and writes array literals, sorts and refuses is a parameter \<open>postgres\<close> with the laws \<open>documented\<close>, and
    each call is told how it ends: completed, failed, or failed while it committed.
  \<^item> \<open>Api_Server\<close>, \<open>Api_Properties\<close>: the routes and encoders over a parameter \<open>crow_json\<close>, and the
    consumer with the store as its sink: what the detectors raise is what a request shows.
  \<^item> \<open>Replay\<close>, \<open>Replay_Stream\<close>, \<open>Replay_Properties\<close>: \<open>replay_runner.cpp\<close>.  What librdkafka
    answers is a list of answers, and a list that ends while the code waits is the value \<open>None\<close>; the
    broker's promise is \<open>broker_reads\<close>.  The loop that sizes the buffer is a partial function that
    returns up to \<open>2^63\<close> events and not above.
  \<^item> \<open>Kafka_Clients\<close>: the two Kafka classes over a parameter \<open>rdkafka\<close> with the laws \<open>documented_log\<close>, by which
    messages may be lost, repeated and reordered, since the producer is not idempotent.  A replay that finishes has read
    as many messages as there are events; it has read every event if none was repeated, and the session itself
    if none was reordered either (\<open>replay_over_log\<close>); otherwise it may not have (\<open>lost_and_repeated\<close>).
  \<^item> \<open>Ml_Replay\<close>: the replay with the ML service, three threads of which two run the loop of
    \<open>Consumer_Loop\<close>, each with its own ring buffer and both with one sink of alerts.  The result is
    the same for every interleaving up to the order of the alerts.
  \<^item> \<open>Evaluation\<close>: universes, confusion matrices, threshold sweeps.
  \<^item> \<open>Eval_Program\<close>, \<open>Eval_Properties\<close>: \<open>harness/main.cpp\<close>, its configurations, the sections of the
    report, the JSON file and how the program ends, with the simulator and the replay of each topic as parameters.
  \<^item> \<open>Programs\<close>: \<open>sarao_validation_main.cpp\<close> and \<open>simulator/main.cpp\<close>.
  \<^item> \<open>Demo_Server\<close>: \<open>api/main.cpp\<close>, what its feeder sends, what arrives and what is shown; \<open>std::sort\<close>, which may
    put events of the same time in any order, is a parameter with the law \<open>time_sorts\<close>.
  \<^item> \<open>Sim_Types\<close>, \<open>Labeled_Json\<close>, \<open>Csv_Writer\<close>, \<open>Fix_Writer\<close>: the simulator's data and its three output formats.
    The JSON parser runs on fuel; \<open>2 * length + 2\<close> is always enough (shown with the round trip).
  \<^item> \<open>Random_Draws\<close>: \<open>random_utils.cpp\<close> and the draws of the generators.  The engine and the
    distributions of \<open><random>\<close> are a parameter \<open>random_library\<close> with the range laws the standard
    gives; every generator passes the engine's state on in the order the code draws.
  \<^item> \<open>Pair_Scenarios\<close> (wash trade, front running), \<open>Spoofing_Scenario\<close>, \<open>Marking_Scenario\<close>,
    \<open>Sarao_Case\<close>: the scenario generators of \<open>simulator/abuse/\<close>.  \<open>Sim_Registry\<close>: accounts with
    their entities, and instruments.  \<open>Baseline_Flow\<close>: the ordinary flow of \<open>baseline_generator.cpp\<close>.
    \<open>Simulator\<close>: \<open>generate_simulation\<close>.  The loop of arrivals has no bound of its own and a drawn gap may
    round to nothing, so a session that does not end is \<open>None\<close> and the properties are those of a
    session that is returned.
  \<^item> \<open>Tidy_Output\<close>: what a scenario promises of its orders and executions, as a locale
    \<open>output_contract\<close> with two interpretations, and the composition of scenarios into a session.
    \<open>Clean_Replay\<close>: a stream that keeps the contract is accepted by the books without a refusal.
  \<^item> \<open>Sarao_Detection\<close>, \<open>Sarao_Validation\<close>: the documented case through the replay and the spoofing
    detector: what the detector keeps over the books that the case builds, step by step, and the
    result that every layer's cancellation is alerted.

  Not modelled.  The database server, libpqxx, librdkafka, Crow and the registration of the routes
  with it, and the sessions of QuickFIX below its callbacks.
  Of what the programs print, the rows of numbers are modelled and the headings are not.  The engine, its
  seeding, the distributions and \<open>std::hash\<close> of the simulator are parameters.  Weak memory,
  the destruction of objects, allocation failure and the contents of error messages beyond the text that the
  code composes itself are outside the models.  The Python service, the dashboard and the
  calibration scripts are in other languages.
\<close>

end
